(* ===== verification/Ascii.thy ===== *)
theory Ascii imports Prelude begin

text \<open>
  Text as the Rust standard library computes it, for the parts of the program that read and write
  it: ASCII case, decimal and hexadecimal numerals, and how an IP address is displayed.  SIP text is
  bytes, so a string here is a byte string and \<open>of_char\<close> is the byte's value.
\<close>

definition ascii_lower :: "char \<Rightarrow> char" where
  "ascii_lower c = (let n = of_char c :: nat in if 65 \<le> n \<and> n \<le> 90 then char_of (n + 32) else c)"

definition ascii_upper :: "char \<Rightarrow> char" where
  "ascii_upper c = (let n = of_char c :: nat in if 97 \<le> n \<and> n \<le> 122 then char_of (n - 32) else c)"

definition is_ascii_char :: "char \<Rightarrow> bool" where
  "is_ascii_char c \<longleftrightarrow> (of_char c :: nat) < 128"

definition is_digit :: "char \<Rightarrow> bool" where
  "is_digit c \<longleftrightarrow> 48 \<le> (of_char c :: nat) \<and> (of_char c :: nat) \<le> 57"

definition is_alphanumeric :: "char \<Rightarrow> bool" where
  "is_alphanumeric c \<longleftrightarrow> (let n = of_char c :: nat in
     48 \<le> n \<and> n \<le> 57 \<or> 65 \<le> n \<and> n \<le> 90 \<or> 97 \<le> n \<and> n \<le> 122)"

definition eq_ignore_case :: "string \<Rightarrow> string \<Rightarrow> bool" where
  "eq_ignore_case a b \<longleftrightarrow> map ascii_lower a = map ascii_lower b"

text \<open>ASCII whitespace, and \<^verbatim>\<open>split\<close> at a character.\<close>

definition is_ascii_space :: "char \<Rightarrow> bool" where
  "is_ascii_space c \<longleftrightarrow> (of_char c :: nat) \<in> {9, 10, 12, 13, 32}"

fun split_on :: "char \<Rightarrow> string \<Rightarrow> string list" where
  "split_on d [] = [[]]"
| "split_on d (c # cs) =
    (if c = d then [] # split_on d cs
     else case split_on d cs of [] \<Rightarrow> [[c]] | p # ps \<Rightarrow> (c # p) # ps)"

section \<open>Numerals\<close>

definition digit_char :: "nat \<Rightarrow> char" where
  "digit_char n = char_of (48 + n)"

fun decimal :: "nat \<Rightarrow> string" where
  "decimal n = (if n < 10 then [digit_char n] else decimal (n div 10) @ [digit_char (n mod 10)])"

declare decimal.simps [simp del]

definition hex_char :: "nat \<Rightarrow> char" where
  "hex_char n = (if n < 10 then char_of (48 + n) else char_of (87 + n))"

fun hexadecimal :: "nat \<Rightarrow> string" where
  "hexadecimal n = (if n < 16 then [hex_char n] else hexadecimal (n div 16) @ [hex_char (n mod 16)])"

declare hexadecimal.simps [simp del]

section \<open>IP addresses\<close>

datatype ip_addr = V4 u32 | V6 "128 word"

definition v4_display :: "u32 \<Rightarrow> string" where
  "v4_display v =
    decimal (unat (drop_bit 24 v)) @ ''.'' @ decimal (unat (take_bit 8 (drop_bit 16 v))) @ ''.''
    @ decimal (unat (take_bit 8 (drop_bit 8 v))) @ ''.'' @ decimal (unat (take_bit 8 v))"

definition v6_segments :: "128 word \<Rightarrow> u16 list" where
  "v6_segments v = map (\<lambda>i. ucast (drop_bit (16 * (7 - i)) v)) [0..<8]"

text \<open>The first longest run of zero segments: the spans (start, length) of the current run and of
  the longest one.\<close>

fun zero_span :: "nat \<Rightarrow> nat \<times> nat \<Rightarrow> nat \<times> nat \<Rightarrow> u16 list \<Rightarrow> nat \<times> nat" where
  "zero_span i current longest [] = longest"
| "zero_span i current longest (s # ss) =
    (if s = 0 then
       let current = ((if snd current = 0 then i else fst current), snd current + 1)
       in zero_span (Suc i) current (if snd current > snd longest then current else longest) ss
     else zero_span (Suc i) (0, 0) longest ss)"

fun join_segments :: "u16 list \<Rightarrow> string" where
  "join_segments [] = []"
| "join_segments [s] = hexadecimal (unat s)"
| "join_segments (s # ss) = hexadecimal (unat s) @ '':'' @ join_segments ss"

definition v6_display :: "128 word \<Rightarrow> string" where
  "v6_display v =
    (if drop_bit 32 v = 65535 then ''::ffff:'' @ v4_display (ucast v)
     else
       let segments = v6_segments v; (start, n) = zero_span 0 (0, 0) (0, 0) segments in
       if n > 1
       then join_segments (take start segments) @ ''::'' @ join_segments (drop (start + n) segments)
       else join_segments segments)"

section \<open>Decoded text\<close>

text \<open>A \<^verbatim>\<open>str\<close> as its code points.  \<^verbatim>\<open>String::from_utf8_lossy\<close> replaces each
  maximal ill-formed part by one U+FFFD.\<close>

type_synonym code_points = "nat list"

definition continuation :: "nat \<Rightarrow> bool" where
  "continuation b \<longleftrightarrow> 128 \<le> b \<and> b < 192"

definition second_ok :: "nat \<Rightarrow> nat \<Rightarrow> bool" where
  "second_ok b c \<longleftrightarrow>
    (if b = 0xE0 then 0xA0 \<le> c \<and> c < 0xC0
     else if b = 0xED then 0x80 \<le> c \<and> c < 0xA0
     else if b = 0xF0 then 0x90 \<le> c \<and> c < 0xC0
     else if b = 0xF4 then 0x80 \<le> c \<and> c < 0x90
     else continuation c)"

fun utf8_lossy :: "nat list \<Rightarrow> code_points" where
  "utf8_lossy [] = []"
| "utf8_lossy (b # bs) =
    (if b < 128 then b # utf8_lossy bs
     else if 0xC2 \<le> b \<and> b \<le> 0xDF then
      (case bs of
         [] \<Rightarrow> [0xFFFD]
       | c # rest \<Rightarrow>
          if continuation c then ((b - 0xC0) * 64 + (c - 128)) # utf8_lossy rest
          else 0xFFFD # utf8_lossy bs)
     else if 0xE0 \<le> b \<and> b \<le> 0xEF then
      (case bs of
         [] \<Rightarrow> [0xFFFD]
       | c # rest \<Rightarrow>
          if \<not> second_ok b c then 0xFFFD # utf8_lossy bs
          else case rest of
              [] \<Rightarrow> [0xFFFD]
            | d # rest2 \<Rightarrow>
               if continuation d
               then ((b - 0xE0) * 4096 + (c - 128) * 64 + (d - 128)) # utf8_lossy rest2
               else 0xFFFD # utf8_lossy rest)
     else if 0xF0 \<le> b \<and> b \<le> 0xF4 then
      (case bs of
         [] \<Rightarrow> [0xFFFD]
       | c # rest \<Rightarrow>
          if \<not> second_ok b c then 0xFFFD # utf8_lossy bs
          else case rest of
              [] \<Rightarrow> [0xFFFD]
            | d # rest2 \<Rightarrow>
               if \<not> continuation d then 0xFFFD # utf8_lossy rest
               else case rest2 of
                   [] \<Rightarrow> [0xFFFD]
                 | e # rest3 \<Rightarrow>
                    if continuation e
                    then ((b - 0xF0) * 262144 + (c - 128) * 4096 + (d - 128) * 64 + (e - 128)) # utf8_lossy rest3
                    else 0xFFFD # utf8_lossy rest2)
     else 0xFFFD # utf8_lossy bs)"

definition from_utf8_lossy :: "bytes \<Rightarrow> code_points" where
  "from_utf8_lossy bs = utf8_lossy (map of_char bs)"

definition encode_point :: "nat \<Rightarrow> nat list" where
  "encode_point p =
    (if p < 0x80 then [p]
     else if p < 0x800 then [0xC0 + p div 64, 0x80 + p mod 64]
     else if p < 0x10000 then [0xE0 + p div 4096, 0x80 + p div 64 mod 64, 0x80 + p mod 64]
     else [0xF0 + p div 262144, 0x80 + p div 4096 mod 64, 0x80 + p div 64 mod 64, 0x80 + p mod 64])"

definition to_bytes :: "code_points \<Rightarrow> bytes" where
  "to_bytes ps = map char_of (concat (map encode_point ps))"

text \<open>The crates' own \<^verbatim>\<open>trim\<close>: ASCII whitespace off both ends.\<close>

definition trim :: "bytes \<Rightarrow> bytes" where
  "trim value =
    (let start = (case position (\<lambda>c. \<not> is_ascii_space c) value of None \<Rightarrow> length value | Some i \<Rightarrow> i);
         stop = (case position (\<lambda>c. \<not> is_ascii_space c) (rev value) of
             None \<Rightarrow> start | Some i \<Rightarrow> length value - 1 - i + 1)
     in case get_range value start stop of Some bs \<Rightarrow> bs | None \<Rightarrow> [])"

text \<open>\<^verbatim>\<open>String::from_utf8_lossy(..)\<close> as the bytes of the string.\<close>

definition string_lossy :: "bytes \<Rightarrow> string" where
  "string_lossy bs = to_bytes (from_utf8_lossy bs)"

text \<open>Unicode White_Space, \<^verbatim>\<open>str::trim\<close>, \<^verbatim>\<open>split_whitespace().next()\<close> and the parsing
  of an unsigned number.\<close>

definition white_space :: "nat \<Rightarrow> bool" where
  "white_space p \<longleftrightarrow> 9 \<le> p \<and> p \<le> 13 \<or> p \<in> {32, 0x85, 0xA0, 0x1680, 0x2028, 0x2029, 0x202F, 0x205F, 0x3000}
    \<or> 0x2000 \<le> p \<and> p \<le> 0x200A"

definition trim_text :: "code_points \<Rightarrow> code_points" where
  "trim_text ps = rev (dropWhile white_space (rev (dropWhile white_space ps)))"

definition first_word :: "code_points \<Rightarrow> code_points option" where
  "first_word ps = (case takeWhile (\<lambda>p. \<not> white_space p) (dropWhile white_space ps) of [] \<Rightarrow> None | w \<Rightarrow> Some w)"

definition is_digit_point :: "nat \<Rightarrow> bool" where
  "is_digit_point p \<longleftrightarrow> 48 \<le> p \<and> p \<le> 57"

definition digits_value :: "code_points \<Rightarrow> nat" where
  "digits_value ps = foldl (\<lambda>v p. 10 * v + (p - 48)) 0 ps"

definition parse_unsigned :: "nat \<Rightarrow> code_points \<Rightarrow> nat option" where
  "parse_unsigned width ps =
    (let digits = (case ps of p # rest \<Rightarrow> if p = 43 \<and> rest \<noteq> [] then rest else ps | [] \<Rightarrow> [])
     in if digits = [] \<or> \<not> list_all is_digit_point digits then None
        else if digits_value digits < 2 ^ width then Some (digits_value digits) else None)"

definition parse_u32 :: "code_points \<Rightarrow> u32 option" where
  "parse_u32 ps = map_option of_nat (parse_unsigned 32 ps)"

definition lower_point :: "nat \<Rightarrow> nat" where
  "lower_point p = (if 65 \<le> p \<and> p \<le> 90 then p + 32 else p)"

fun split_points :: "nat \<Rightarrow> code_points \<Rightarrow> code_points list" where
  "split_points d [] = [[]]"
| "split_points d (p # ps) =
    (if p = d then [] # split_points d ps
     else case split_points d ps of [] \<Rightarrow> [[p]] | w # ws \<Rightarrow> (p # w) # ws)"

section \<open>Facts about text\<close>

lemma of_char_of_nat: "n < 256 \<Longrightarrow> (of_char (char_of n :: char) :: nat) = n"
  by simp

lemma digit_char_less: "n < 10 \<Longrightarrow> is_digit (digit_char n)"
  by (simp add: digit_char_def is_digit_def)

lemma digit_char_inj: "m < 10 \<Longrightarrow> n < 10 \<Longrightarrow> digit_char m = digit_char n \<Longrightarrow> m = n"
  by (simp add: digit_char_def)

lemma decimal_digits: "\<forall>c \<in> set (decimal n). is_digit c"
proof (induction n rule: decimal.induct)
  case (1 n)
  then show ?case by (subst decimal.simps) (auto simp: digit_char_less)
qed

lemma decimal_nonempty [simp]: "decimal n \<noteq> []"
  by (subst decimal.simps) simp

lemma decimal_inj: "decimal m = decimal n \<Longrightarrow> m = n"
proof (induction m arbitrary: n rule: decimal.induct)
  case (1 m)
  show ?case
  proof (cases "m < 10")
    case True
    with "1.prems" have "decimal n = [digit_char m]" by (simp add: decimal.simps [of m])
    moreover from this have "n < 10"
      by (metis append_eq_append_conv2 append_is_Nil_conv append_self_conv2 butlast_snoc decimal.simps
          decimal_nonempty butlast.simps(2))
    ultimately show ?thesis using True digit_char_inj [of m n] by (simp add: decimal.simps [of n])
  next
    case False
    then have m: "decimal m = decimal (m div 10) @ [digit_char (m mod 10)]" by (simp add: decimal.simps [of m])
    have "\<not> n < 10"
    proof
      assume "n < 10"
      then have "decimal n = [digit_char n]" by (simp add: decimal.simps [of n])
      with "1.prems" m show False by simp
    qed
    then have n: "decimal n = decimal (n div 10) @ [digit_char (n mod 10)]" by (simp add: decimal.simps [of n])
    from "1.prems" m n have "decimal (m div 10) = decimal (n div 10)" "digit_char (m mod 10) = digit_char (n mod 10)"
      by simp_all
    then have "m div 10 = n div 10" "m mod 10 = n mod 10"
      using "1.IH" [OF False] digit_char_inj by simp_all
    then show ?thesis by (metis div_mult_mod_eq)
  qed
qed

lemma hexadecimal_chars: "\<forall>c \<in> set (hexadecimal n). is_alphanumeric c"
proof (induction n rule: hexadecimal.induct)
  case (1 n)
  have "is_alphanumeric (hex_char k)" if "k < 16" for k
    using that by (simp add: hex_char_def is_alphanumeric_def Let_def)
  with 1 show ?case by (subst hexadecimal.simps) auto
qed

lemma join_segments_chars: "\<forall>c \<in> set (join_segments ss). is_alphanumeric c \<or> c = CHR '':''"
  by (induction ss rule: join_segments.induct) (auto simp: hexadecimal_chars)

lemma v4_display_chars: "\<forall>c \<in> set (v4_display v). is_digit c \<or> c = CHR ''.''"
  by (auto simp: v4_display_def decimal_digits)

lemma v6_display_chars:
  "\<forall>c \<in> set (v6_display v). is_alphanumeric c \<or> c = CHR '':'' \<or> c = CHR ''.''"
proof -
  have "is_alphanumeric c \<or> c = CHR ''.''" if "c \<in> set (v4_display w)" for c w
    using that v4_display_chars [of w] by (auto simp: is_digit_def is_alphanumeric_def Let_def)
  moreover have "is_alphanumeric (CHR ''f'')" by (simp add: is_alphanumeric_def)
  ultimately show ?thesis
    using join_segments_chars
    by (auto simp: v6_display_def Let_def split: prod.splits if_splits)
qed

lemma utf8_lossy_ascii: "list_all (\<lambda>b. b < 128) bs \<Longrightarrow> utf8_lossy bs = bs"
  by (induction bs) auto

lemma from_utf8_lossy_ascii: "list_all is_ascii_char bs \<Longrightarrow> from_utf8_lossy bs = map of_char bs"
  by (simp add: from_utf8_lossy_def utf8_lossy_ascii list_all_iff is_ascii_char_def)

lemma to_bytes_ascii: "list_all (\<lambda>p. p < 128) ps \<Longrightarrow> to_bytes ps = map char_of ps"
  by (induction ps) (simp_all add: to_bytes_def encode_point_def)

lemma string_lossy_ascii [simp]: "list_all is_ascii_char bs \<Longrightarrow> string_lossy bs = bs"
  by (simp add: string_lossy_def from_utf8_lossy_ascii to_bytes_ascii list_all_iff is_ascii_char_def o_def)

lemma digit_ascii: "is_digit c \<Longrightarrow> is_ascii_char c"
  by (simp add: is_digit_def is_ascii_char_def)

lemma digits_value_snoc: "digits_value (ps @ [p]) = 10 * digits_value ps + (p - 48)"
  by (simp add: digits_value_def)

lemma digits_value_decimal: "digits_value (map of_char (decimal n)) = n"
proof (induction n rule: decimal.induct)
  case (1 n)
  show ?case
  proof (cases "n < 10")
    case True
    then show ?thesis by (subst decimal.simps) (simp add: digits_value_def digit_char_def)
  next
    case False
    then show ?thesis
      using 1 by (subst decimal.simps) (simp add: digits_value_snoc digit_char_def del: of_char_of, simp)
  qed
qed

lemma decimal_points: "p \<in> set (map of_char (decimal n)) \<Longrightarrow> is_digit_point p \<and> \<not> white_space p \<and> p \<noteq> 43"
  using decimal_digits [of n] by (fastforce simp: is_digit_def is_digit_point_def white_space_def)

lemma dropWhile_none: "\<forall>x \<in> set xs. \<not> p x \<Longrightarrow> dropWhile p xs = xs"
  by (cases xs) simp_all

lemma parse_unsigned_decimal:
  assumes "n < 2 ^ width"
  shows "parse_unsigned width (map of_char (decimal n)) = Some n"
proof -
  let ?ps = "map of_char (decimal n) :: nat list"
  obtain p ps where ps: "?ps = p # ps" by (cases "decimal n") auto
  then have "p \<in> set ?ps" by (simp only: list.set_intros(1))
  then have "p \<noteq> 43" using decimal_points by blast
  moreover have "list_all is_digit_point (p # ps)"
    using decimal_points [of _ n] by (simp only: ps [symmetric] list_all_iff) blast
  ultimately show ?thesis using assms digits_value_decimal [of n] unfolding ps by (simp add: parse_unsigned_def Let_def)
qed

lemma split_on_plain: "d \<notin> set s \<Longrightarrow> split_on d s = [s]"
  by (induction s) auto

lemma split_on_nonempty: "split_on d s \<noteq> []"
  by (cases s) (auto split: list.split)

lemma split_on_append: "d \<notin> set t \<Longrightarrow> split_on d (s @ d # t) = split_on d s @ [t]"
proof (induction s)
  case (Cons c s)
  obtain x xs where x: "split_on d s = x # xs" using split_on_nonempty by (meson neq_Nil_conv)
  with Cons show ?case by auto
qed (simp add: split_on_plain)

lemma split_on_join: "split_on d s = [t] \<Longrightarrow> s = t \<and> d \<notin> set t"
proof (induction s arbitrary: t)
  case (Cons c s)
  obtain x xs where x: "split_on d s = x # xs" using split_on_nonempty by (meson neq_Nil_conv)
  with Cons show ?case by (cases "c = d") (auto simp: split_on_nonempty)
qed auto

lemma split_on_first: "split_on d s = t # u # us \<Longrightarrow> \<exists>rest. s = t @ d # rest \<and> d \<notin> set t \<and> split_on d rest = u # us"
proof (induction s arbitrary: t)
  case (Cons c s)
  obtain x xs where x: "split_on d s = x # xs" using split_on_nonempty by (meson neq_Nil_conv)
  show ?case
  proof (cases "c = d")
    case True
    with Cons.prems show ?thesis by auto
  next
    case False
    with Cons.prems x have "t = c # x" "xs = u # us" by simp_all
    with Cons.IH [of x] x False show ?thesis by auto
  qed
qed auto

end
