(* ===== verification/Codec.thy ===== *)
theory Codec imports Prelude begin

text \<open>
  \<^verbatim>\<open>crates/sipx-clstr-affinity/src/codec.rs\<close>: the unpadded base64url encoding of the
  affinity-token parameter value, its length arithmetic and its size budget.  The lemmas show that
  decoding inverts encoding, that the encoder stays inside the alphabet, that its length is
  \<open>encoded_len\<close>, and which inputs the decoder refuses with which error.
\<close>

section \<open>The alphabet\<close>

definition ALPHABET :: "u8 list" where
  "ALPHABET = map of_char
     ''ABCDEFGHIJKLMNOPQRSTUVWXYZabcdefghijklmnopqrstuvwxyz0123456789-_''"

definition byte_of :: "char \<Rightarrow> u8" where
  "byte_of c = of_char c"

definition digit_of :: "u8 \<Rightarrow> u8 option" where
  "digit_of byte =
    (if byte_of CHR ''A'' \<le> byte \<and> byte \<le> byte_of CHR ''Z'' then Some (byte - byte_of CHR ''A'')
     else if byte_of CHR ''a'' \<le> byte \<and> byte \<le> byte_of CHR ''z'' then Some (byte - byte_of CHR ''a'' + 26)
     else if byte_of CHR ''0'' \<le> byte \<and> byte \<le> byte_of CHR ''9'' then Some (byte - byte_of CHR ''0'' + 52)
     else if byte = byte_of CHR ''-'' then Some 62
     else if byte = byte_of CHR ''_'' then Some 63
     else None)"

section \<open>Lengths and the budget\<close>

definition TOKEN_PARAM :: string where
  "TOKEN_PARAM = ''aft''"

definition TOKEN_PARAM_BUDGET :: nat where
  "TOKEN_PARAM_BUDGET = 200"

definition encoded_len :: "nat \<Rightarrow> nat" where
  "encoded_len len =
    (if len mod 3 = 0 then len div 3 * 4
     else if len mod 3 = 1 then len div 3 * 4 + 2
     else len div 3 * 4 + 3)"

text \<open>\<^verbatim>\<open>WORST_CASE_PARAM_LEN\<close>, as a function of the layout ceiling.\<close>

definition worst_case_param_len :: "nat \<Rightarrow> nat" where
  "worst_case_param_len max_token_len =
     length '';='' + length TOKEN_PARAM + encoded_len max_token_len"

section \<open>Encoding\<close>

definition encode_chunk :: "u8 list \<Rightarrow> u8 list" where
  "encode_chunk chunk =
    (let b0 = get_or 0 chunk 0;
         b1 = get_or 0 chunk 1;
         b2 = get_or 0 chunk 2;
         digits =
           [drop_bit 2 b0,
            push_bit 4 (b0 AND 3) OR drop_bit 4 b1,
            push_bit 2 (b1 AND 15) OR drop_bit 6 b2,
            b2 AND 63]
     in map (\<lambda>d. get_or (byte_of CHR ''A'') ALPHABET (unat d)) (take (length chunk + 1) digits))"

definition encode_param_value :: "u8 list \<Rightarrow> u8 list" where
  "encode_param_value bs = concat (map encode_chunk (chunks 3 bs))"

section \<open>Decoding\<close>

datatype decode_error =
    NotInAlphabet (bad_byte: u8) (bad_offset: nat)
  | BadLength (bad_len: nat)

fun decode_digits :: "nat \<Rightarrow> u8 list \<Rightarrow> decode_error + u8 list" where
  "decode_digits offset [] = Inr []"
| "decode_digits offset (byte # rest) =
    (case digit_of byte of
       None \<Rightarrow> Inl (NotInAlphabet byte offset)
     | Some digit \<Rightarrow>
        (case decode_digits (Suc offset) rest of
           Inl e \<Rightarrow> Inl e
         | Inr digits \<Rightarrow> Inr (digit # digits)))"

text \<open>Four six-bit digits, a missing one read as zero, packed into three bytes.\<close>

definition pack_digits :: "u8 list \<Rightarrow> u8 list" where
  "pack_digits digits =
    (let d0 = get_or 0 digits 0;
         d1 = get_or 0 digits 1;
         d2 = get_or 0 digits 2;
         d3 = get_or 0 digits 3
     in [push_bit 2 d0 OR drop_bit 4 d1, push_bit 4 d1 OR drop_bit 2 d2, push_bit 6 d2 OR d3])"

fun decode_groups :: "nat \<Rightarrow> nat \<Rightarrow> u8 list list \<Rightarrow> decode_error + u8 list" where
  "decode_groups raw_len grp [] = Inr []"
| "decode_groups raw_len grp (chunk # rest) =
    (case decode_digits (grp * 4) chunk of
       Inl e \<Rightarrow> Inl e
     | Inr digits \<Rightarrow>
        (if length chunk = 1 then Inl (BadLength raw_len)
         else case decode_groups raw_len (Suc grp) rest of
            Inl e \<Rightarrow> Inl e
          | Inr out \<Rightarrow> Inr (take (length chunk - 1) (pack_digits digits) @ out)))"

definition decode_param_value :: "u8 list \<Rightarrow> decode_error + u8 list" where
  "decode_param_value raw = decode_groups (length raw) 0 (chunks 4 raw)"

section \<open>Digits and characters\<close>

lemma length_ALPHABET [simp]: "length ALPHABET = 64"
  by (simp add: ALPHABET_def)

lemma digit_of_ALPHABET_all: "list_all2 (\<lambda>c d. digit_of c = Some (of_nat d)) ALPHABET [0..<64]"
  by (simp add: ALPHABET_def upt_rec digit_of_def byte_of_def)

lemma digit_of_ALPHABET: "n < 64 \<Longrightarrow> digit_of (ALPHABET ! n) = Some (of_nat n)"
  using list_all2_nthD2 [OF digit_of_ALPHABET_all, of n] by simp

definition char_of_digit :: "u8 \<Rightarrow> u8" where
  "char_of_digit d = get_or (byte_of CHR ''A'') ALPHABET (unat d)"

lemma digit_of_char: "unat d < 64 \<Longrightarrow> digit_of (char_of_digit d) = Some d"
  by (simp add: char_of_digit_def get_or_def digit_of_ALPHABET)

lemma digit_of_less: "digit_of c = Some d \<Longrightarrow> unat d < 64"
  unfolding digit_of_def byte_of_def by (auto split: if_splits) (unat_arith)+

lemma decode_digits_chars:
  "\<forall>d \<in> set ds. unat d < 64 \<Longrightarrow> decode_digits off (map char_of_digit ds) = Inr ds"
  by (induction ds arbitrary: off) (simp_all add: digit_of_char)

lemma decode_digits_spec:
  "decode_digits off chunk =
    (case position (\<lambda>c. digit_of c = None) chunk of
       Some i \<Rightarrow> Inl (NotInAlphabet (chunk ! i) (off + i))
     | None \<Rightarrow> Inr (map (\<lambda>c. the (digit_of c)) chunk))"
  by (induction chunk arbitrary: off) (auto split: option.splits)

section \<open>Six-bit regrouping\<close>

named_theorems sextets \<open>regrouping three bytes into four six-bit digits and back\<close>

text \<open>The four digits of a group, named so that the simplifier keeps them whole.\<close>

definition sextet0 :: "u8 \<Rightarrow> u8" where "sextet0 b0 = drop_bit 2 b0"
definition sextet1 :: "u8 \<Rightarrow> u8 \<Rightarrow> u8" where "sextet1 b0 b1 = push_bit 4 (b0 AND 3) OR drop_bit 4 b1"
definition sextet2 :: "u8 \<Rightarrow> u8 \<Rightarrow> u8" where "sextet2 b1 b2 = push_bit 2 (b1 AND 15) OR drop_bit 6 b2"
definition sextet3 :: "u8 \<Rightarrow> u8" where "sextet3 b2 = b2 AND 63"

lemmas sextet_defs = sextet0_def sextet1_def sextet2_def sextet3_def

lemma sextet_less [sextets]:
  "unat (sextet0 b0) < 64" "unat (sextet1 b0 b1) < 64" "unat (sextet2 b1 b2) < 64"
  "unat (sextet3 b2) < 64"
proof -
  have l: "take_bit 6 x = x \<Longrightarrow> unat x < 64" for x :: u8
    using byte_take_bit_less [of 6 x] by simp
  show "unat (sextet0 b0) < 64" "unat (sextet1 b0 b1) < 64" "unat (sextet2 b1 b2) < 64"
    "unat (sextet3 b2) < 64"
    by (rule l, rule byte_eqI; simp add: bit_simps sextet_defs bit_byte_beyond)+
qed

lemma sextet_join [sextets]:
  "push_bit 2 (sextet0 b0) OR drop_bit 4 (sextet1 b0 b1) = b0"
  "push_bit 4 (sextet1 b0 b1) OR drop_bit 2 (sextet2 b1 b2) = b1"
  "push_bit 6 (sextet2 b1 b2) OR sextet3 b2 = b2"
  by (rule byte_eqI; simp add: bit_simps sextet_defs)+

definition chunk_digits :: "u8 list \<Rightarrow> u8 list" where
  "chunk_digits chunk =
    (let b0 = get_or 0 chunk 0; b1 = get_or 0 chunk 1; b2 = get_or 0 chunk 2
     in take (length chunk + 1) [sextet0 b0, sextet1 b0 b1, sextet2 b1 b2, sextet3 b2])"

lemma encode_chunk_digits: "encode_chunk chunk = map char_of_digit (chunk_digits chunk)"
  by (simp only: encode_chunk_def chunk_digits_def char_of_digit_def [abs_def] sextet_defs Let_def)

lemma chunk_digits_less: "\<forall>d \<in> set (chunk_digits chunk). unat d < 64"
  unfolding chunk_digits_def Let_def
  by (rule ballI, drule in_set_takeD) (auto simp: sextets)

lemma length_chunk_digits: "length chunk \<le> 3 \<Longrightarrow> length (chunk_digits chunk) = length chunk + 1"
  by (simp add: chunk_digits_def Let_def)

lemma pack_chunk_digits:
  assumes "chunk \<noteq> []" "length chunk \<le> 3"
  shows "take (length chunk) (pack_digits (chunk_digits chunk)) = chunk"
proof -
  from assms consider a where "chunk = [a]" | a b where "chunk = [a, b]" | a b c where "chunk = [a, b, c]"
    by (cases chunk; cases "tl chunk"; cases "tl (tl chunk)") auto
  then show ?thesis
    by cases (simp_all add: pack_digits_def chunk_digits_def get_or_def Let_def sextets)
qed

lemma decode_one_group:
  assumes "chunk \<noteq> []" "length chunk \<le> 3"
  shows "decode_groups L g (encode_chunk chunk # rest) =
    (case decode_groups L (Suc g) rest of Inl e \<Rightarrow> Inl e | Inr out \<Rightarrow> Inr (chunk @ out))"
proof -
  have "length (encode_chunk chunk) = length chunk + 1"
    using assms(2) by (simp add: encode_chunk_digits length_chunk_digits)
  moreover have "decode_digits (g * 4) (encode_chunk chunk) = Inr (chunk_digits chunk)"
    by (simp add: encode_chunk_digits decode_digits_chars chunk_digits_less)
  ultimately show ?thesis
    using assms by (simp add: pack_chunk_digits split: sum.splits)
qed

lemma length_encode_chunk: "length chunk \<le> 3 \<Longrightarrow> length (encode_chunk chunk) = length chunk + 1"
  by (simp add: encode_chunk_digits length_chunk_digits)

lemma chunks4_encode:
  "chunks 4 (concat (map encode_chunk (chunks 3 bs))) = map encode_chunk (chunks 3 bs)"
  by (induction bs rule: list_triples_induct) (simp_all add: encode_chunk_digits chunk_digits_def Let_def)

lemma decode_groups_encode: "decode_groups L g (map encode_chunk (chunks 3 bs)) = Inr bs"
proof (induction bs arbitrary: g rule: list_triples_induct)
  case (More a b c xs)
  then show ?case by (simp add: decode_one_group del: decode_groups.simps(2))
qed (simp_all add: decode_one_group del: decode_groups.simps(2))

section \<open>What the decoder accepts\<close>

lemma decode_groups_refuses_byte:
  "position (\<lambda>c. digit_of c = None) raw = Some i \<Longrightarrow>
    decode_groups L g (chunks 4 raw) = Inl (NotInAlphabet (raw ! i) (g * 4 + i))"
proof (induction "4 :: nat" raw arbitrary: g i rule: chunks.induct)
  case (2 x xs)
  have three: "(4 :: nat) - 1 = 3" by simp
  let ?bad = "\<lambda>c. digit_of c = None" and ?chunk = "x # take 3 xs" and ?rest = "drop 3 xs"
  have split: "position ?bad (?chunk @ ?rest) = Some i"
    using "2.prems" by simp
  show ?case
  proof (cases "position ?bad ?chunk")
    case (Some k)
    then have "i = k" using split by (simp only: position_append option.case option.inject)
    moreover have "k < length ?chunk" using Some by (rule position_less)
    then have "?chunk ! k = (x # xs) ! k" by (cases k) simp_all
    ultimately show ?thesis using Some by (simp add: decode_digits_spec)
  next
    case None
    then have "map_option ((+) (length ?chunk)) (position ?bad ?rest) = Some i"
      using split by (simp only: position_append option.case)
    then obtain k where k: "position ?bad ?rest = Some k" "i = length ?chunk + k"
      by (auto simp only: map_option_eq_Some)
    then have "length xs > 3" using position_less [OF k(1)] by simp
    then have len: "length ?chunk = 4" "(x # xs) ! i = ?rest ! k" using k(2) by simp_all
    have "decode_groups L (Suc g) (chunks 4 ?rest)
        = Inl (NotInAlphabet (?rest ! k) (Suc g * 4 + k))"
      using "2.hyps" [unfolded three, of k "Suc g"] k(1) by simp
    moreover have "decode_digits (g * 4) ?chunk = Inr (map (\<lambda>c. the (digit_of c)) ?chunk)"
      using None by (simp only: decode_digits_spec option.case)
    ultimately show ?thesis using len k(2) by (simp del: decode_digits.simps)
  qed
qed simp

lemma decode_groups_lengths:
  "position (\<lambda>c. digit_of c = None) raw = None \<Longrightarrow>
    (if length raw mod 4 = 1 then decode_groups L g (chunks 4 raw) = Inl (BadLength L)
     else \<exists>out. decode_groups L g (chunks 4 raw) = Inr out \<and> length out = length raw * 3 div 4)"
proof (induction "4 :: nat" raw arbitrary: g rule: chunks.induct)
  case (2 x xs)
  have three: "(4 :: nat) - 1 = 3" by simp
  let ?bad = "\<lambda>c. digit_of c = None" and ?chunk = "x # take 3 xs" and ?rest = "drop 3 xs"
  have "position ?bad (?chunk @ ?rest) = None" using "2.prems" by simp
  then have none: "position ?bad ?chunk = None" "position ?bad ?rest = None"
    by (auto simp only: position_append split: option.splits)
  then have digits: "decode_digits (g * 4) ?chunk = Inr (map (\<lambda>c. the (digit_of c)) ?chunk)"
    by (simp only: decode_digits_spec option.case)
  have IH: "if length ?rest mod 4 = 1 then decode_groups L (Suc g) (chunks 4 ?rest) = Inl (BadLength L)
     else \<exists>out. decode_groups L (Suc g) (chunks 4 ?rest) = Inr out \<and> length out = length ?rest * 3 div 4"
    using "2.hyps" [unfolded three, of "Suc g"] none(2) by simp
  have pack: "length (pack_digits ds) = 3" for ds by (simp add: pack_digits_def Let_def)
  show ?case
  proof (cases "length xs < 3")
    case True
    then have "length xs = 0 \<or> length xs = 1 \<or> length xs = 2" by arith
    then show ?thesis using digits True pack by (auto simp del: decode_digits.simps)
  next
    case False
    then obtain m where "length xs = 3 + m" using le_Suc_ex [of 3 "length xs"] by auto
    then have "length (x # xs) mod 4 = length ?rest mod 4"
      "length (x # xs) * 3 div 4 = 3 + length ?rest * 3 div 4" by simp_all
    then show ?thesis using IH digits False pack
      by (auto simp del: decode_digits.simps split: if_splits)
  qed
qed simp

lemma encode_param_value_alphabet: "set (encode_param_value bs) \<subseteq> set ALPHABET"
proof -
  have "char_of_digit d \<in> set ALPHABET" for d
    by (auto simp: char_of_digit_def get_or_def) (simp add: ALPHABET_def byte_of_def)
  then show ?thesis
    by (auto simp: encode_param_value_def encode_chunk_digits)
qed

lemma length_encode_param_value: "length (encode_param_value bs) = encoded_len (length bs)"
  unfolding encode_param_value_def encoded_len_def
proof (induction bs rule: list_triples_induct)
  case (More a b c xs)
  have "Suc (Suc (Suc (length xs))) div 3 = Suc (length xs div 3)"
    "Suc (Suc (Suc (length xs))) mod 3 = length xs mod 3" by simp_all
  with More show ?case by (auto simp: length_encode_chunk)
qed (simp_all add: length_encode_chunk)

section \<open>Properties\<close>

text \<open>Decoding inverts encoding: every byte string survives the round trip through the
  \<^verbatim>\<open>aft\<close> parameter value.\<close>

theorem decode_encode_param_value: "decode_param_value (encode_param_value bs) = Inr bs"
  by (simp add: decode_param_value_def encode_param_value_def chunks4_encode decode_groups_encode)

text \<open>The decoder is exact: it refuses the first byte outside the alphabet (padding included)
  with that byte and its offset, whatever the length; only an all-alphabet value can be refused for
  its length, and exactly when that length is one more than a multiple of four; every other value
  decodes, to three bytes per four characters.\<close>

theorem decode_param_value_exact:
  "case position (\<lambda>c. digit_of c = None) raw of
     Some i \<Rightarrow> decode_param_value raw = Inl (NotInAlphabet (raw ! i) i)
   | None \<Rightarrow>
      if length raw mod 4 = 1 then decode_param_value raw = Inl (BadLength (length raw))
      else \<exists>out. decode_param_value raw = Inr out \<and> length out = length raw * 3 div 4"
  using decode_groups_refuses_byte [of raw _ "length raw" 0]
    decode_groups_lengths [of raw "length raw" 0]
  by (simp add: decode_param_value_def split: option.splits)

text \<open>The compile-time length arithmetic agrees with the encoder, and no padding character
  (nor any byte outside the alphabet) is ever produced.\<close>

theorem encoded_len_exact:
  "length (encode_param_value bs) = encoded_len (length bs)
    \<and> byte_of CHR ''='' \<notin> set (encode_param_value bs)
    \<and> set (encode_param_value bs) \<subseteq> set ALPHABET"
proof -
  have "byte_of CHR ''='' \<notin> set ALPHABET"
    by (simp add: ALPHABET_def byte_of_def)
  then show ?thesis using encode_param_value_alphabet length_encode_param_value by blast
qed

end
