(* ===== verification/Keys.thy ===== *)
theory Keys imports Prelude begin

text \<open>
  \<^verbatim>\<open>crates/sipx-clstr-affinity/src/keys.rs\<close>: the two token constructions, a key with its
  verification window, the key set the configuration loads, key selection and the retirement
  deadline of a rotated key.  The lemmas show what a loaded set guarantees (one minting key, no
  ambiguous key id at any instant) and that the deadline outlives every record of the old key.
\<close>

section \<open>Layout constants the key model reads (\<^verbatim>\<open>token.rs\<close>)\<close>

definition HEADER_LEN :: nat where "HEADER_LEN = 14"
definition BODY_FIXED_LEN :: nat where "BODY_FIXED_LEN = 20"
definition MAX_FACTS :: nat where "MAX_FACTS = 64"

section \<open>Algorithms and keys\<close>

datatype algorithm = ChaCha20Poly1305 | HmacSha256_96

definition tag_len :: "algorithm \<Rightarrow> nat" where
  "tag_len a = (case a of ChaCha20Poly1305 \<Rightarrow> 16 | HmacSha256_96 \<Rightarrow> 12)"

definition min_token_len :: "algorithm \<Rightarrow> nat" where
  "min_token_len a = HEADER_LEN + BODY_FIXED_LEN + tag_len a"

definition max_token_len :: "algorithm \<Rightarrow> nat" where
  "max_token_len a = min_token_len a + MAX_FACTS"

record mint_key =
  key_id :: u8
  key_algorithm :: algorithm
  key_secret :: "u8 list"

record key_entry =
  entry_key :: mint_key
  verify_from :: u32
  verify_until :: u32
  entry_mint :: bool

definition verifies_at :: "key_entry \<Rightarrow> u32 \<Rightarrow> bool" where
  "verifies_at e now \<longleftrightarrow> verify_from e \<le> now \<and> now \<le> verify_until e"

section \<open>The key set\<close>

datatype key_set_error =
    NoMintKey
  | MultipleMintKeys
  | OverlappingId u8
  | EmptyWindow u8

record key_set =
  entries :: "key_entry list"

text \<open>The first loop of \<^verbatim>\<open>KeySet::new\<close>.\<close>

fun first_empty_window :: "key_entry list \<Rightarrow> u8 option" where
  "first_empty_window [] = None"
| "first_empty_window (e # es) =
    (if verify_from e > verify_until e then Some (key_id (entry_key e)) else first_empty_window es)"

definition windows_overlap :: "key_entry \<Rightarrow> key_entry \<Rightarrow> bool" where
  "windows_overlap e other \<longleftrightarrow>
     key_id (entry_key e) = key_id (entry_key other)
     \<and> verify_from e \<le> verify_until other
     \<and> verify_from other \<le> verify_until e"

text \<open>The nested loop: each entry against the ones after it.\<close>

fun first_overlap :: "key_entry list \<Rightarrow> u8 option" where
  "first_overlap [] = None"
| "first_overlap (e # es) =
    (if list_ex (windows_overlap e) es then Some (key_id (entry_key e)) else first_overlap es)"

definition key_set_new :: "key_entry list \<Rightarrow> key_set_error + key_set" where
  "key_set_new es =
    (case first_empty_window es of
       Some i \<Rightarrow> Inl (EmptyWindow i)
     | None \<Rightarrow>
        (let mints = length (filter entry_mint es)
         in if mints = 0 then Inl NoMintKey
            else if mints > 1 then Inl MultipleMintKeys
            else case first_overlap es of
                Some i \<Rightarrow> Inl (OverlappingId i)
              | None \<Rightarrow> Inr \<lparr>entries = es\<rparr>))"

definition verify_key :: "key_set \<Rightarrow> u8 \<Rightarrow> u32 \<Rightarrow> mint_key option" where
  "verify_key ks i now =
     map_option entry_key (find (\<lambda>e. key_id (entry_key e) = i \<and> verifies_at e now) (entries ks))"

definition key_set_mint_key :: "key_set \<Rightarrow> mint_key option" where
  "key_set_mint_key ks = map_option entry_key (find entry_mint (entries ks))"

definition retirement_deadline :: "u32 \<Rightarrow> u32 \<Rightarrow> u32 \<Rightarrow> u32 \<Rightarrow> u32" where
  "retirement_deadline t_switch lifetime max_registration_expiry skew =
    (let longest = (if lifetime > max_registration_expiry then lifetime else max_registration_expiry)
     in saturating_add (saturating_add t_switch longest) skew)"

section \<open>What loading guarantees\<close>

lemma first_empty_window_None:
  "first_empty_window es = None \<longleftrightarrow> (\<forall>e \<in> set es. verify_from e \<le> verify_until e)"
  by (induction es) (auto simp: not_less)

lemma first_overlap_None:
  "first_overlap es = None \<longleftrightarrow> sorted_wrt (\<lambda>e f. \<not> windows_overlap e f) es"
  by (induction es) (auto simp: list_ex_iff)

definition key_set_ok :: "key_entry list \<Rightarrow> bool" where
  "key_set_ok es \<longleftrightarrow>
    (\<forall>e \<in> set es. verify_from e \<le> verify_until e)
    \<and> length (filter entry_mint es) = 1
    \<and> sorted_wrt (\<lambda>e f. \<not> windows_overlap e f) es"

lemma key_set_new_ok_iff: "(\<exists>ks. key_set_new es = Inr ks) \<longleftrightarrow> key_set_ok es"
proof -
  have "length (filter entry_mint es) = 1
      \<longleftrightarrow> \<not> length (filter entry_mint es) = 0 \<and> \<not> length (filter entry_mint es) > 1"
    by linarith
  then show ?thesis
    unfolding key_set_new_def key_set_ok_def Let_def
      first_empty_window_None [symmetric] first_overlap_None [symmetric]
    by (auto split: option.splits)
qed

lemma key_set_new_entries: "key_set_new es = Inr ks \<Longrightarrow> entries ks = es"
  by (auto simp: key_set_new_def Let_def split: option.splits if_splits)

lemma verifies_at_overlap:
  "verifies_at e now \<Longrightarrow> verifies_at f now \<Longrightarrow> key_id (entry_key e) = key_id (entry_key f)
    \<Longrightarrow> windows_overlap e f"
  by (auto simp: verifies_at_def windows_overlap_def)

lemma key_set_ok_unique:
  assumes "key_set_ok es" "i < length es" "j < length es"
    "verifies_at (es ! i) now" "verifies_at (es ! j) now"
    "key_id (entry_key (es ! i)) = key_id (entry_key (es ! j))"
  shows "i = j"
proof (rule ccontr)
  assume "i \<noteq> j"
  then consider "i < j" | "j < i" by linarith
  then show False
    using assms verifies_at_overlap [of "es ! i" now "es ! j"] verifies_at_overlap [of "es ! j" now "es ! i"]
    by cases (auto simp: key_set_ok_def dest: sorted_wrt_nth_less)
qed

lemma find_Some_nth: "find P xs = Some x \<Longrightarrow> \<exists>i < length xs. xs ! i = x \<and> P x"
  by (auto simp: find_Some_iff)

section \<open>Properties\<close>

text \<open>In a key set that loaded, a key id selects the same key whatever the order of the
  entries: an entry with that id whose window is open at \<open>now\<close> is the one \<^verbatim>\<open>verify_key\<close>
  returns, and an id with no open window selects nothing.\<close>

theorem verify_key_unambiguous:
  assumes "key_set_new es = Inr ks"
  shows "verify_key ks i now = Some k \<longleftrightarrow>
    (\<exists>e \<in> set es. entry_key e = k \<and> key_id k = i \<and> verifies_at e now)"
proof -
  have ok: "key_set_ok es" and es: "entries ks = es"
    using assms key_set_new_ok_iff key_set_new_entries by blast+
  let ?P = "\<lambda>e. key_id (entry_key e) = i \<and> verifies_at e now"
  show ?thesis
  proof
    assume "verify_key ks i now = Some k"
    then obtain e where "find ?P es = Some e" "entry_key e = k"
      by (auto simp: verify_key_def es)
    then have "e \<in> set es" "?P e" using find_Some_nth [of ?P es e] by auto
    with \<open>entry_key e = k\<close> show "\<exists>e \<in> set es. entry_key e = k \<and> key_id k = i \<and> verifies_at e now"
      by blast
  next
    assume "\<exists>e \<in> set es. entry_key e = k \<and> key_id k = i \<and> verifies_at e now"
    then obtain m where m: "m < length es" "entry_key (es ! m) = k" "?P (es ! m)"
      by (auto simp: in_set_conv_nth)
    then have "find ?P es \<noteq> None" unfolding find_None_iff by (blast intro: nth_mem)
    then obtain e where e: "find ?P es = Some e" by blast
    obtain l where l: "l < length es" "es ! l = e" "?P e"
      using find_Some_nth [OF e] by blast
    then have "l = m" using key_set_ok_unique [OF ok, of l m now] m by auto
    then show "verify_key ks i now = Some k" using e l m by (simp add: verify_key_def es)
  qed
qed

theorem verify_key_unambiguous_witness:
  "verify_key \<lparr>entries = [\<lparr>entry_key = \<lparr>key_id = 1, key_algorithm = HmacSha256_96, key_secret = []\<rparr>,
      verify_from = 0, verify_until = 9, entry_mint = True\<rparr>]\<rparr> 1 5
    = Some \<lparr>key_id = 1, key_algorithm = HmacSha256_96, key_secret = []\<rparr>"
proof -
  let ?e = "\<lparr>entry_key = \<lparr>key_id = 1, key_algorithm = HmacSha256_96, key_secret = []\<rparr>,
      verify_from = 0, verify_until = 9, entry_mint = True\<rparr>"
  have "key_set_new [?e] = Inr \<lparr>entries = [?e]\<rparr>" by (simp add: key_set_new_def)
  from verify_key_unambiguous [OF this, of 1 5 "entry_key ?e"] show ?thesis
    by (simp add: verifies_at_def)
qed

text \<open>Loading accepts exactly the sets with no empty window, exactly one minting entry and no
  two entries of one id with overlapping windows, and then there is a minting key.\<close>

theorem key_set_new_exact:
  "(case key_set_new es of
      Inr ks \<Rightarrow> key_set_ok es \<and> entries ks = es \<and> (\<exists>k. key_set_mint_key ks = Some k)
    | Inl e \<Rightarrow> \<not> key_set_ok es)"
proof (cases "key_set_new es")
  case (Inl e)
  then show ?thesis using key_set_new_ok_iff [of es] by auto
next
  case (Inr ks)
  then have ok: "key_set_ok es" and es: "entries ks = es"
    using key_set_new_ok_iff key_set_new_entries by blast+
  from ok have "filter entry_mint es \<noteq> []" by (auto simp: key_set_ok_def)
  then have "find entry_mint es \<noteq> None" by (auto simp: find_None_iff filter_empty_conv)
  then show ?thesis using Inr ok es by (auto simp: key_set_mint_key_def)
qed

text \<open>The retirement deadline outlives the outgoing key's records: anything minted under it no
  later than the switch, presented within its lifetime (token) or the tenant's maximum registration
  expiry (flow reference) plus skew, is presented no later than the deadline, and saturation only
  ever pushes the deadline to the end of the epoch.\<close>

theorem retirement_deadline_covers:
  assumes "minted \<le> t_switch"
    and "unat presented \<le> unat minted + max (unat lifetime) (unat e_max) + unat skew"
  shows "presented \<le> retirement_deadline t_switch lifetime e_max skew"
proof -
  have "unat presented < 2 ^ 32" using unsigned_less [of presented, where ?'a = nat] by simp
  then show ?thesis
    using assms
    by (auto simp: retirement_deadline_def Let_def word_le_nat_alt unat_saturating_add word_less_nat_alt)
qed

theorem retirement_deadline_covers_witness:
  "(186429 :: u32) \<le> retirement_deadline 100000 86400 3600 30"
  by (rule retirement_deadline_covers [where minted = 99999]) simp_all

end
