(* ===== verification/Token.thy ===== *)
theory Token imports Prelude Codec Keys begin

text \<open>
  \<^verbatim>\<open>crates/sipx-clstr-affinity/src/token.rs\<close>: the affinity token's layout, minting and
  the nine verification steps S1 to S9.  The AEAD and the HMAC are third-party code and enter as a
  record of operations, with their documented behaviour as the predicate \<open>crypto_laws\<close>.  The
  lemmas show that verification inverts minting in both modes, alone and as a pair, what a verdict of
  \<open>Valid\<close> implies, and that the failing step reported is the first one.
\<close>

section \<open>The layout\<close>

definition VERSION :: u8 where "VERSION = 1"
definition MAX_BODY_LEN :: nat where "MAX_BODY_LEN = BODY_FIXED_LEN + MAX_FACTS"
definition MAX_TOKEN_LEN :: nat where "MAX_TOKEN_LEN = HEADER_LEN + MAX_BODY_LEN + 16"
definition MIN_TOKEN_LEN :: nat where "MIN_TOKEN_LEN = HEADER_LEN + BODY_FIXED_LEN + 12"
definition DEFAULT_SKEW :: u32 where "DEFAULT_SKEW = 30"

definition OFF_TENANT :: nat where "OFF_TENANT = 0"
definition OFF_HOME_SHARD :: nat where "OFF_HOME_SHARD = 4"
definition OFF_EDGE :: nat where "OFF_EDGE = 6"
definition OFF_DIRECTION :: nat where "OFF_DIRECTION = 8"
definition OFF_MEDIA_NODE :: nat where "OFF_MEDIA_NODE = 9"
definition OFF_POLICY_VERSION :: nat where "OFF_POLICY_VERSION = 11"
definition OFF_EXPIRY :: nat where "OFF_EXPIRY = 15"
definition OFF_FACTS_LEN :: nat where "OFF_FACTS_LEN = 19"

lemmas layout_defs =
  VERSION_def HEADER_LEN_def BODY_FIXED_LEN_def MAX_FACTS_def MAX_BODY_LEN_def MAX_TOKEN_LEN_def
  MIN_TOKEN_LEN_def OFF_TENANT_def OFF_HOME_SHARD_def OFF_EDGE_def OFF_DIRECTION_def
  OFF_MEDIA_NODE_def OFF_POLICY_VERSION_def OFF_EXPIRY_def OFF_FACTS_LEN_def
  tag_len_def min_token_len_def max_token_len_def

datatype direction = Originating | Terminating

fun dir_to_wire :: "direction \<Rightarrow> u8" where
  "dir_to_wire Originating = 1"
| "dir_to_wire Terminating = 2"

definition dir_from_wire :: "u8 \<Rightarrow> direction option" where
  "dir_from_wire b = (if b = 1 then Some Originating else if b = 2 then Some Terminating else None)"

fun complement :: "direction \<Rightarrow> direction" where
  "complement Originating = Terminating"
| "complement Terminating = Originating"

record claims =
  cl_tenant :: u32
  cl_home_shard :: u16
  cl_edge :: u16
  cl_direction :: direction
  cl_media_node :: u16
  cl_policy_version :: u32
  cl_expiry :: u32
  cl_module_facts :: "u8 list"

datatype reason =
    Structure | UnknownKey | Length | Tag | Framing | Expired | Field | Scope | Pair

fun reason_step :: "reason \<Rightarrow> string" where
  "reason_step Structure = ''S1''"
| "reason_step UnknownKey = ''S2''"
| "reason_step Length = ''S3''"
| "reason_step Tag = ''S4''"
| "reason_step Framing = ''S5''"
| "reason_step Expired = ''S6''"
| "reason_step Field = ''S7''"
| "reason_step Scope = ''S8''"
| "reason_step Pair = ''S9''"

datatype verdict = Valid claims | Invalid reason

record expect =
  ex_tenant :: "u32 option"
  ex_partner :: "u8 list option"
  ex_skew :: u32

definition expect_new :: expect where
  "expect_new = \<lparr>ex_tenant = None, ex_partner = None, ex_skew = DEFAULT_SKEW\<rparr>"

definition with_tenant :: "expect \<Rightarrow> u32 \<Rightarrow> expect" where
  "with_tenant ex tenant = ex\<lparr>ex_tenant := Some tenant\<rparr>"

definition with_partner :: "expect \<Rightarrow> u8 list \<Rightarrow> expect" where
  "with_partner ex partner = ex\<lparr>ex_partner := Some partner\<rparr>"

definition with_skew :: "expect \<Rightarrow> u32 \<Rightarrow> expect" where
  "with_skew ex skew = ex\<lparr>ex_skew := skew\<rparr>"

text \<open>A minted token: a fixed buffer and how much of it is used.\<close>

record token =
  tok_bytes :: "u8 list"
  tok_len :: nat

definition as_bytes :: "token \<Rightarrow> u8 list" where
  "as_bytes t = (case get_range (tok_bytes t) 0 (tok_len t) of Some bs \<Rightarrow> bs | None \<Rightarrow> [])"

definition to_param_value :: "token \<Rightarrow> u8 list" where
  "to_param_value t = encode_param_value (as_bytes t)"

datatype mint_error = FactsTooLong nat | Crypto

section \<open>Third-party cryptography\<close>

text \<open>\<^verbatim>\<open>Mac::finalize\<close> and \<^verbatim>\<open>Mac::verify_truncated_left\<close> of a keyed MAC over a whole
  message; \<^verbatim>\<open>encrypt_in_place_detached\<close> and \<^verbatim>\<open>decrypt_in_place_detached\<close> of the
  AEAD as functions of secret, nonce, associated data and text (and tag).\<close>

record mac =
  mac_finalize :: "u8 list \<Rightarrow> u8 list"
  mac_verify_left :: "u8 list \<Rightarrow> u8 list \<Rightarrow> bool"

record crypto =
  aead_encrypt :: "u8 list \<Rightarrow> u8 list \<Rightarrow> u8 list \<Rightarrow> u8 list \<Rightarrow> (u8 list \<times> u8 list) option"
  aead_decrypt :: "u8 list \<Rightarrow> u8 list \<Rightarrow> u8 list \<Rightarrow> u8 list \<Rightarrow> u8 list \<Rightarrow> u8 list option"
  hmac_new :: "u8 list \<Rightarrow> mac option"

definition aead_laws :: "crypto \<Rightarrow> bool" where
  "aead_laws C \<longleftrightarrow>
    (\<forall>k n a p. length k = 32 \<longrightarrow> length n = 12 \<longrightarrow>
      (\<exists>c t. aead_encrypt C k n a p = Some (c, t) \<and> length c = length p \<and> length t = 16
        \<and> aead_decrypt C k n a c t = Some p))"

definition hmac_laws :: "crypto \<Rightarrow> bool" where
  "hmac_laws C \<longleftrightarrow>
    (\<forall>k. length k = 32 \<longrightarrow>
      (\<exists>m. hmac_new C k = Some m \<and>
        (\<forall>msg. length (mac_finalize m msg) = 32 \<and>
          (\<forall>tag. tag \<noteq> [] \<longrightarrow> length tag \<le> 32 \<longrightarrow>
            mac_verify_left m msg tag = (take (length tag) (mac_finalize m msg) = tag)))))"

definition crypto_laws :: "crypto \<Rightarrow> bool" where
  "crypto_laws C \<longleftrightarrow> aead_laws C \<and> hmac_laws C"

section \<open>Byte access\<close>

definition write_bytes :: "u8 list \<Rightarrow> nat \<Rightarrow> u8 list \<Rightarrow> u8 list" where
  "write_bytes target offset source =
    (if offset + length source \<le> length target
     then take offset target @ source @ drop (offset + length source) target
     else target)"

definition be16 :: "u16 \<Rightarrow> u8 list" where
  "be16 w = [ucast (drop_bit 8 w), ucast w]"

definition be32 :: "u32 \<Rightarrow> u8 list" where
  "be32 w = [ucast (drop_bit 24 w), ucast (drop_bit 16 w), ucast (drop_bit 8 w), ucast w]"

definition from_be16 :: "u8 list \<Rightarrow> u16" where
  "from_be16 bs = push_bit 8 (ucast (get_or 0 bs 0)) OR ucast (get_or 0 bs 1)"

definition from_be32 :: "u8 list \<Rightarrow> u32" where
  "from_be32 bs =
    push_bit 24 (ucast (get_or 0 bs 0)) OR push_bit 16 (ucast (get_or 0 bs 1))
      OR push_bit 8 (ucast (get_or 0 bs 2)) OR ucast (get_or 0 bs 3)"

definition u16_at :: "u8 list \<Rightarrow> nat \<Rightarrow> u16 option" where
  "u16_at buffer offset = map_option from_be16 (get_range buffer offset (offset + 2))"

definition u32_at :: "u8 list \<Rightarrow> nat \<Rightarrow> u32 option" where
  "u32_at buffer offset = map_option from_be32 (get_range buffer offset (offset + 4))"

section \<open>Minting\<close>

text \<open>The header and the body as \<^verbatim>\<open>mint\<close> fills their zeroed buffers.\<close>

definition mint_header :: "mint_key \<Rightarrow> u8 list \<Rightarrow> u8 list" where
  "mint_header key nonce =
    (let header = replicate HEADER_LEN 0;
         header = write_bytes header 0 [VERSION, key_id key]
     in write_bytes header 2 nonce)"

definition mint_body :: "claims \<Rightarrow> u8 \<Rightarrow> u8 list" where
  "mint_body c facts_len =
    (let body = replicate MAX_BODY_LEN 0;
         body = write_bytes body OFF_TENANT (be32 (cl_tenant c));
         body = write_bytes body OFF_HOME_SHARD (be16 (cl_home_shard c));
         body = write_bytes body OFF_EDGE (be16 (cl_edge c));
         body = write_bytes body OFF_DIRECTION [dir_to_wire (cl_direction c)];
         body = write_bytes body OFF_MEDIA_NODE (be16 (cl_media_node c));
         body = write_bytes body OFF_POLICY_VERSION (be32 (cl_policy_version c));
         body = write_bytes body OFF_EXPIRY (be32 (cl_expiry c));
         body = write_bytes body OFF_FACTS_LEN [facts_len]
     in write_bytes body BODY_FIXED_LEN (cl_module_facts c))"

text \<open>The construction the key selects: the body as it goes on the wire and the tag buffer.\<close>

definition mint_seal ::
  "crypto \<Rightarrow> mint_key \<Rightarrow> u8 list \<Rightarrow> u8 list \<Rightarrow> u8 list \<Rightarrow> nat \<Rightarrow> mint_error + (u8 list \<times> u8 list)" where
  "mint_seal C key nonce header body body_len =
    (let tag = replicate 16 0 in
     case key_algorithm key of
       ChaCha20Poly1305 \<Rightarrow>
        (case aead_encrypt C (key_secret key) nonce header (take body_len body) of
           None \<Rightarrow> Inl Crypto
         | Some (ct, computed) \<Rightarrow> Inr (ct @ drop body_len body, write_bytes tag 0 computed))
     | HmacSha256_96 \<Rightarrow>
        (case hmac_new C (key_secret key) of
           None \<Rightarrow> Inl Crypto
         | Some m \<Rightarrow>
            Inr (body, write_bytes tag 0
              (take (tag_len HmacSha256_96) (mac_finalize m (header @ take body_len body))))))"

definition mint :: "crypto \<Rightarrow> claims \<Rightarrow> mint_key \<Rightarrow> u8 list \<Rightarrow> mint_error + token" where
  "mint C c key nonce =
    (let facts = cl_module_facts c in
     if length facts > MAX_FACTS then Inl (FactsTooLong (length facts))
     else
       let body_len = BODY_FIXED_LEN + length facts;
           header = mint_header key nonce in
       if length facts > 255 then Inl (FactsTooLong (length facts))
       else
         and_then (mint_seal C key nonce header (mint_body c (of_nat (length facts))) body_len)
           (\<lambda>(body, tag).
             let tl = tag_len (key_algorithm key);
                 bytes = replicate MAX_TOKEN_LEN 0;
                 bytes = write_bytes bytes 0 header;
                 bytes = write_bytes bytes HEADER_LEN (take body_len body);
                 bytes = write_bytes bytes (HEADER_LEN + body_len) (take tl tag)
             in Inr \<lparr>tok_bytes = bytes, tok_len = HEADER_LEN + body_len + tl\<rparr>))"

text \<open>\<^verbatim>\<open>mint_with\<close>: the injected nonce source as a state-passing function.\<close>

definition mint_with ::
  "crypto \<Rightarrow> claims \<Rightarrow> mint_key \<Rightarrow> ('s \<Rightarrow> u8 list \<times> 's) \<Rightarrow> 's \<Rightarrow> (mint_error + token) \<times> 's" where
  "mint_with C c key next_nonce s = (case next_nonce s of (nonce, s') \<Rightarrow> (mint C c key nonce, s'))"

section \<open>Verification\<close>

record parsed =
  pa_claims :: claims
  pa_nonce :: "u8 list"

text \<open>S4.\<close>

definition authenticate ::
  "crypto \<Rightarrow> mint_key \<Rightarrow> u8 list \<Rightarrow> u8 list \<Rightarrow> u8 list \<Rightarrow> u8 list \<Rightarrow> reason + u8 list" where
  "authenticate C key header nonce body tag =
    (case key_algorithm key of
       ChaCha20Poly1305 \<Rightarrow>
        (if length tag \<noteq> 16 then Inl Length
         else ok_or Tag (aead_decrypt C (key_secret key) nonce header body tag))
     | HmacSha256_96 \<Rightarrow>
        (case hmac_new C (key_secret key) of
           None \<Rightarrow> Inl Tag
         | Some m \<Rightarrow> if mac_verify_left m (header @ body) tag then Inr body else Inl Tag))"

text \<open>S5 to S7 on the authenticated body.\<close>

definition read_body :: "u8 list \<Rightarrow> nat \<Rightarrow> u32 \<Rightarrow> u32 \<Rightarrow> u8 list \<Rightarrow> reason + parsed" where
  "read_body body body_len now skew nonce =
    and_then (ok_or Framing (get_at body OFF_FACTS_LEN)) (\<lambda>declared.
    if unat declared \<noteq> body_len - BODY_FIXED_LEN then Inl Framing else
    and_then (ok_or Framing (u32_at body OFF_EXPIRY)) (\<lambda>expiry.
    if now > saturating_add expiry skew then Inl Expired else
    and_then (ok_or Field (get_at body OFF_DIRECTION)) (\<lambda>d.
    and_then (ok_or Field (dir_from_wire d)) (\<lambda>direction.
    and_then (ok_or Framing (get_range body BODY_FIXED_LEN (length body))) (\<lambda>facts.
    and_then (ok_or Framing (u32_at body OFF_TENANT)) (\<lambda>tenant.
    and_then (ok_or Framing (u16_at body OFF_HOME_SHARD)) (\<lambda>home_shard.
    and_then (ok_or Framing (u16_at body OFF_EDGE)) (\<lambda>edge.
    and_then (ok_or Framing (u16_at body OFF_MEDIA_NODE)) (\<lambda>media_node.
    and_then (ok_or Framing (u32_at body OFF_POLICY_VERSION)) (\<lambda>policy_version.
      Inr \<lparr>pa_claims = \<lparr>cl_tenant = tenant, cl_home_shard = home_shard, cl_edge = edge,
              cl_direction = direction, cl_media_node = media_node,
              cl_policy_version = policy_version, cl_expiry = expiry,
              cl_module_facts = facts\<rparr>,
            pa_nonce = nonce\<rparr>))))))))))"

definition verify_through_s7 ::
  "crypto \<Rightarrow> u8 list \<Rightarrow> key_set \<Rightarrow> u32 \<Rightarrow> u32 \<Rightarrow> reason + parsed" where
  "verify_through_s7 C bs ks now skew =
    (if length bs < MIN_TOKEN_LEN \<or> get_at bs 0 \<noteq> Some VERSION then Inl Structure else
     and_then (ok_or Structure (get_at bs 1)) (\<lambda>kid.
     and_then (ok_or UnknownKey (verify_key ks kid now)) (\<lambda>key.
     let algorithm = key_algorithm key in
     if length bs < min_token_len algorithm \<or> length bs > max_token_len algorithm
     then Inl Length else
     let body_len = length bs - HEADER_LEN - tag_len algorithm in
     and_then (ok_or Structure (get_range bs 0 HEADER_LEN)) (\<lambda>header.
     and_then (ok_or Structure (get_range header 2 HEADER_LEN)) (\<lambda>nonce.
     and_then (ok_or Structure (get_range bs HEADER_LEN (HEADER_LEN + body_len))) (\<lambda>sealed.
     and_then (ok_or Structure
        (get_range (write_bytes (replicate MAX_BODY_LEN 0) 0 sealed) 0 body_len)) (\<lambda>buffer.
     and_then (ok_or Structure (get_range bs (HEADER_LEN + body_len) (length bs))) (\<lambda>tag.
     and_then (authenticate C key header nonce buffer tag) (\<lambda>body.
       read_body body body_len now skew nonce)))))))))"

definition pair_consistent :: "parsed \<Rightarrow> parsed \<Rightarrow> bool" where
  "pair_consistent first second \<longleftrightarrow>
    (let c = pa_claims first; d = pa_claims second in
      cl_direction c = complement (cl_direction d)
      \<and> pa_nonce first \<noteq> pa_nonce second
      \<and> cl_tenant c = cl_tenant d
      \<and> cl_home_shard c = cl_home_shard d
      \<and> cl_edge c = cl_edge d
      \<and> cl_media_node c = cl_media_node d
      \<and> cl_policy_version c = cl_policy_version d
      \<and> cl_expiry c = cl_expiry d
      \<and> cl_module_facts c = cl_module_facts d)"

definition verify :: "crypto \<Rightarrow> u8 list \<Rightarrow> key_set \<Rightarrow> u32 \<Rightarrow> expect \<Rightarrow> verdict" where
  "verify C bs ks now ex =
    (case verify_through_s7 C bs ks now (ex_skew ex) of
       Inl r \<Rightarrow> Invalid r
     | Inr parsed \<Rightarrow>
        if ex_tenant ex \<noteq> None \<and> ex_tenant ex \<noteq> Some (cl_tenant (pa_claims parsed))
        then Invalid Scope
        else
          case ex_partner ex of
            None \<Rightarrow> Valid (pa_claims parsed)
          | Some partner \<Rightarrow>
             (case verify_through_s7 C partner ks now (ex_skew ex) of
                Inl _ \<Rightarrow> Invalid Pair
              | Inr other \<Rightarrow>
                 if \<not> pair_consistent parsed other then Invalid Pair
                 else Valid (pa_claims parsed)))"

section \<open>Fields survive the wire\<close>

lemma from_be16_be16 [word_layout, simp]: "from_be16 (be16 w) = w"
  by (rule bit_word_eqI) (auto simp: from_be16_def be16_def get_or_def bit_simps)

lemma from_be32_be32 [word_layout, simp]: "from_be32 (be32 w) = w"
proof (rule bit_word_eqI)
  fix n assume "n < LENGTH(32)"
  then consider "n < 8" | "8 \<le> n" "n < 16" | "16 \<le> n" "n < 24" | "24 \<le> n" "n < 32"
    by fastforce
  then show "bit (from_be32 (be32 w)) n = bit w n"
    by cases (auto simp: from_be32_def be32_def get_or_def bit_simps)
qed

lemma length_be [word_layout, simp]: "length (be16 v) = 2" "length (be32 w) = 4"
  by (simp_all add: be16_def be32_def)

lemma dir_roundtrip [word_layout, simp]: "dir_from_wire (dir_to_wire d) = Some d"
  by (cases d) (simp_all add: dir_from_wire_def)

section \<open>The buffers mint fills\<close>

text \<open>A buffer of \<open>n\<close> bytes of which a prefix is written.\<close>

definition padded :: "nat \<Rightarrow> u8 list \<Rightarrow> u8 list" where
  "padded n p = p @ replicate (n - length p) 0"

lemma padded_Nil: "replicate n 0 = padded n []"
  by (simp add: padded_def)

lemma padded_full: "length p = n \<Longrightarrow> padded n p = p"
  by (simp add: padded_def)

lemma write_padded:
  "length p = off \<Longrightarrow> off + length src \<le> n \<Longrightarrow> write_bytes (padded n p) off src = padded n (p @ src)"
  by (auto simp: write_bytes_def padded_def)

lemma get_range_padded: "length p = k \<Longrightarrow> k \<le> n \<Longrightarrow> get_range (padded n p) 0 k = Some p"
  by (simp add: get_range_def padded_def)

lemma take_padded [simp]: "take (length p) (padded n p) = p"
  by (simp add: padded_def)

lemma mint_header_eq:
  "length nonce = 12 \<Longrightarrow> mint_header key nonce = VERSION # key_id key # nonce"
  by (simp add: mint_header_def Let_def layout_defs padded_Nil write_padded padded_full)

text \<open>The body as a concatenation of its fields.\<close>

definition body_fields :: "claims \<Rightarrow> u8 list" where
  "body_fields c =
    be32 (cl_tenant c) @ be16 (cl_home_shard c) @ be16 (cl_edge c) @ [dir_to_wire (cl_direction c)]
    @ be16 (cl_media_node c) @ be32 (cl_policy_version c) @ be32 (cl_expiry c)
    @ [of_nat (length (cl_module_facts c))] @ cl_module_facts c"

lemma length_body_fields: "length (body_fields c) = BODY_FIXED_LEN + length (cl_module_facts c)"
  by (simp add: body_fields_def layout_defs)

lemma mint_body_eq:
  "length (cl_module_facts c) \<le> MAX_FACTS \<Longrightarrow>
    mint_body c (of_nat (length (cl_module_facts c))) = padded MAX_BODY_LEN (body_fields c)"
  by (simp add: mint_body_def Let_def layout_defs body_fields_def padded_Nil write_padded)

section \<open>The wire form of a minted token\<close>

lemma mint_seal_lengths:
  assumes "crypto_laws C" "length (key_secret key) = 32" "length nonce = 12" "body_len \<le> length body"
  shows "\<exists>sealed tag rest. mint_seal C key nonce header body body_len = Inr (sealed @ rest, tag)
    \<and> length sealed = body_len
    \<and> length (take (tag_len (key_algorithm key)) tag) = tag_len (key_algorithm key)
    \<and> authenticate C key header nonce sealed (take (tag_len (key_algorithm key)) tag)
        = Inr (take body_len body)"
proof (cases "key_algorithm key")
  case ChaCha20Poly1305
  obtain ct t where "aead_encrypt C (key_secret key) nonce header (take body_len body) = Some (ct, t)"
    "length ct = body_len" "length t = 16"
    "aead_decrypt C (key_secret key) nonce header ct t = Some (take body_len body)"
    using assms unfolding crypto_laws_def aead_laws_def by (metis length_take min.absorb2)
  then show ?thesis
    using ChaCha20Poly1305
    by (intro exI [of _ ct] exI [of _ t] exI [of _ "drop body_len body"])
      (simp add: mint_seal_def authenticate_def padded_Nil write_padded padded_full layout_defs)
next
  case HmacSha256_96
  obtain m where m: "hmac_new C (key_secret key) = Some m"
    "\<And>msg. length (mac_finalize m msg) = 32"
    "\<And>msg tag. tag \<noteq> [] \<Longrightarrow> length tag \<le> 32 \<Longrightarrow>
      mac_verify_left m msg tag = (take (length tag) (mac_finalize m msg) = tag)"
    using assms unfolding crypto_laws_def hmac_laws_def by metis
  let ?full = "mac_finalize m (header @ take body_len body)"
  have "write_bytes (replicate 16 0) 0 (take 12 ?full) = take 12 ?full @ replicate 4 0"
    using m(2) [of "header @ take body_len body"]
    by (simp add: padded_Nil write_padded) (simp add: padded_def)
  moreover have "take 12 ?full \<noteq> []" using m(2) [of "header @ take body_len body"] by auto
  ultimately show ?thesis
    using HmacSha256_96 m assms(4)
    by (intro exI [of _ "take body_len body"] exI [of _ "take 12 ?full @ replicate 4 0"]
        exI [of _ "drop body_len body"])
      (simp add: mint_seal_def authenticate_def layout_defs)
qed

lemma mint_wire:
  assumes "crypto_laws C" "length (key_secret key) = 32" "length nonce = 12"
    and facts: "length (cl_module_facts c) \<le> MAX_FACTS"
  shows "\<exists>t sealed tag. mint C c key nonce = Inr t
    \<and> as_bytes t = VERSION # key_id key # nonce @ sealed @ tag
    \<and> length sealed = length (body_fields c) \<and> length tag = tag_len (key_algorithm key)
    \<and> authenticate C key (VERSION # key_id key # nonce) nonce sealed tag = Inr (body_fields c)"
proof -
  let ?header = "VERSION # key_id key # nonce" and ?body = "padded MAX_BODY_LEN (body_fields c)"
    and ?n = "length (body_fields c)" and ?tl = "tag_len (key_algorithm key)"
  have n: "?n = BODY_FIXED_LEN + length (cl_module_facts c)" by (rule length_body_fields)
  obtain sealed tag rest where seal:
      "mint_seal C key nonce ?header ?body ?n = Inr (sealed @ rest, tag)"
    "length sealed = ?n" "length (take ?tl tag) = ?tl"
    "authenticate C key ?header nonce sealed (take ?tl tag) = Inr (body_fields c)"
    using mint_seal_lengths [OF assms(1,2,3), of ?n ?body ?header] by (auto simp: padded_def)
  have tl: "?tl \<le> 16" by (simp add: layout_defs split: algorithm.split)
  have "mint C c key nonce = Inr \<lparr>tok_bytes = padded MAX_TOKEN_LEN (?header @ sealed @ take ?tl tag),
      tok_len = HEADER_LEN + ?n + ?tl\<rparr>"
    using assms(3) facts seal(1,2,3) n tl
    by (simp add: mint_def Let_def mint_header_eq mint_body_eq padded_Nil write_padded layout_defs)
  moreover have "length (?header @ sealed @ take ?tl tag) = HEADER_LEN + ?n + ?tl"
    using assms(3) seal(2,3) by (simp add: layout_defs)
  moreover from this have "HEADER_LEN + ?n + ?tl \<le> length (padded MAX_TOKEN_LEN (?header @ sealed @ take ?tl tag))"
    by (simp add: padded_def)
  ultimately have "mint C c key nonce = Inr \<lparr>tok_bytes = padded MAX_TOKEN_LEN (?header @ sealed @ take ?tl tag),
      tok_len = HEADER_LEN + ?n + ?tl\<rparr>
    \<and> as_bytes \<lparr>tok_bytes = padded MAX_TOKEN_LEN (?header @ sealed @ take ?tl tag),
      tok_len = HEADER_LEN + ?n + ?tl\<rparr> = ?header @ sealed @ take ?tl tag"
    by (metis as_bytes_def drop0 get_range_def minus_nat.diff_0 option.case(2) take_padded
        token.select_convs le0)
  with seal(2,3,4) show ?thesis unfolding append_Cons by blast
qed

section \<open>Reading the body back\<close>

lemma u8_of_length: "length xs \<le> MAX_FACTS \<Longrightarrow> unat (of_nat (length xs) :: u8) = length xs"
  by (simp add: layout_defs unat_of_nat)

lemma read_body_fields:
  assumes "length (cl_module_facts c) \<le> MAX_FACTS"
  shows "read_body (body_fields c) (length (body_fields c)) now skew nonce =
    (if now > saturating_add (cl_expiry c) skew then Inl Expired
     else Inr \<lparr>pa_claims = c, pa_nonce = nonce\<rparr>)"
proof -
  let ?b = "body_fields c"
  have facts: "get_at ?b OFF_FACTS_LEN = Some (of_nat (length (cl_module_facts c)))"
    by (simp add: get_at_def body_fields_def layout_defs be32_def be16_def)
  have framing: "unat (of_nat (length (cl_module_facts c)) :: u8) = length ?b - BODY_FIXED_LEN"
    using assms by (simp add: u8_of_length length_body_fields)
  have fields: "u32_at ?b OFF_TENANT = Some (cl_tenant c)" "u16_at ?b OFF_HOME_SHARD = Some (cl_home_shard c)"
    "u16_at ?b OFF_EDGE = Some (cl_edge c)" "get_at ?b OFF_DIRECTION = Some (dir_to_wire (cl_direction c))"
    "u16_at ?b OFF_MEDIA_NODE = Some (cl_media_node c)" "u32_at ?b OFF_EXPIRY = Some (cl_expiry c)"
    "u32_at ?b OFF_POLICY_VERSION = Some (cl_policy_version c)"
    "get_range ?b BODY_FIXED_LEN (length ?b) = Some (cl_module_facts c)"
    by (simp_all add: u32_at_def u16_at_def get_at_def get_range_def body_fields_def layout_defs
        take_Cons' nth_append)
  show ?thesis
    by (simp add: read_body_def facts framing fields)
qed

section \<open>Verification of a minted token\<close>

lemma range_of_parts:
  "get_range (a @ b @ c) (length a) (length a + length b) = Some b"
  "get_range (a @ b @ c) 0 (length a) = Some a"
  "get_range (a @ b @ c) (length a + length b) (length (a @ b @ c)) = Some c"
  by (simp_all add: get_range_def)

lemma verify_s7_minted:
  assumes "crypto_laws C" "length (key_secret key) = 32" "length nonce = 12"
    and facts: "length (cl_module_facts c) \<le> MAX_FACTS"
    and minted: "mint C c key nonce = Inr t"
    and key: "verify_key ks (key_id key) now = Some key"
  shows "verify_through_s7 C (as_bytes t) ks now skew =
    (if now > saturating_add (cl_expiry c) skew then Inl Expired
     else Inr \<lparr>pa_claims = c, pa_nonce = nonce\<rparr>)"
proof -
  let ?header = "VERSION # key_id key # nonce" and ?tl = "tag_len (key_algorithm key)"
  let ?n = "length (body_fields c)"
  obtain sealed tag where wire: "as_bytes t = ?header @ sealed @ tag"
    and len: "length sealed = ?n" "length tag = ?tl"
    and auth: "authenticate C key ?header nonce sealed tag = Inr (body_fields c)"
    using mint_wire [OF assms(1-4)] minted by (auto simp: append_Cons)
  have h: "length ?header = HEADER_LEN" using assms(3) by (simp add: layout_defs)
  have n: "BODY_FIXED_LEN \<le> ?n" "?n \<le> MAX_BODY_LEN"
    using facts by (simp_all add: length_body_fields MAX_BODY_LEN_def)
  have total: "length (as_bytes t) = HEADER_LEN + ?n + ?tl" using wire h len by simp
  have tl: "12 \<le> ?tl" by (simp add: tag_len_def split: algorithm.split)
  have body_len: "length (as_bytes t) - HEADER_LEN - ?tl = ?n" using total by simp
  have s1: "\<not> length (as_bytes t) < MIN_TOKEN_LEN" "get_at (as_bytes t) 0 = Some VERSION"
    "get_at (as_bytes t) 1 = Some (key_id key)"
    using total n tl by (simp_all add: MIN_TOKEN_LEN_def wire get_at_def)
  have s3: "\<not> length (as_bytes t) < min_token_len (key_algorithm key)"
    "\<not> length (as_bytes t) > max_token_len (key_algorithm key)"
    using total n by (simp_all add: min_token_len_def max_token_len_def MAX_BODY_LEN_def)
  have ranges: "get_range (as_bytes t) 0 HEADER_LEN = Some ?header"
    "get_range (as_bytes t) HEADER_LEN (HEADER_LEN + ?n) = Some sealed"
    "get_range (as_bytes t) (HEADER_LEN + ?n) (length (as_bytes t)) = Some tag"
    using range_of_parts [of ?header sealed tag] unfolding wire h len by simp_all
  have nonce: "get_range ?header 2 HEADER_LEN = Some nonce"
    using assms(3) by (simp add: get_range_def layout_defs)
  have buffer: "get_range (write_bytes (replicate MAX_BODY_LEN 0) 0 sealed) 0 ?n = Some sealed"
    using n(2) len(1) by (simp add: padded_Nil write_padded get_range_padded)
  show ?thesis
    unfolding verify_through_s7_def
    using s1 s3
    by (simp only: s1 key s3 Let_def body_len ranges nonce buffer auth read_body_fields [OF facts]
        ok_or_simps and_then_simps simp_thms if_False)
qed

lemma mint_ok_iff:
  assumes "crypto_laws C" "length (key_secret key) = 32" "length nonce = 12"
  shows "(\<exists>t. mint C c key nonce = Inr t) \<longleftrightarrow> length (cl_module_facts c) \<le> MAX_FACTS"
proof
  assume "\<exists>t. mint C c key nonce = Inr t"
  then show "length (cl_module_facts c) \<le> MAX_FACTS"
    by (auto simp: mint_def Let_def not_less split: if_splits)
next
  assume "length (cl_module_facts c) \<le> MAX_FACTS"
  then show "\<exists>t. mint C c key nonce = Inr t" using mint_wire [OF assms] by blast
qed

lemma pair_consistent_mirror:
  "n \<noteq> n' \<Longrightarrow> pair_consistent \<lparr>pa_claims = c, pa_nonce = n\<rparr>
    \<lparr>pa_claims = c\<lparr>cl_direction := complement (cl_direction c)\<rparr>, pa_nonce = n'\<rparr>"
  by (cases "cl_direction c") (simp_all add: pair_consistent_def)

section \<open>Where a verification can stop\<close>

lemma get_range_Some: "i \<le> j \<Longrightarrow> j \<le> length xs \<Longrightarrow> get_range xs i j = Some (take (j - i) (drop i xs))"
  by (simp add: get_range_def)

lemma s7_structure:
  "length bs < MIN_TOKEN_LEN \<or> bs ! 0 \<noteq> VERSION \<Longrightarrow> verify_through_s7 C bs ks now skew = Inl Structure"
  by (auto simp: verify_through_s7_def get_at_def)

lemma s7_head:
  assumes "\<not> (length bs < MIN_TOKEN_LEN \<or> bs ! 0 \<noteq> VERSION)"
  shows "\<not> length bs < MIN_TOKEN_LEN" "get_at bs 0 = Some VERSION" "get_at bs 1 = Some (bs ! 1)"
  using assms by (auto simp: get_at_def layout_defs)

lemma s7_unknown_key:
  assumes "\<not> (length bs < MIN_TOKEN_LEN \<or> bs ! 0 \<noteq> VERSION)" "verify_key ks (bs ! 1) now = None"
  shows "verify_through_s7 C bs ks now skew = Inl UnknownKey"
  unfolding verify_through_s7_def
  by (simp only: s7_head [OF assms(1)] assms(2) ok_or_simps and_then_simps simp_thms if_False)

lemma s7_length:
  assumes "\<not> (length bs < MIN_TOKEN_LEN \<or> bs ! 0 \<noteq> VERSION)" "verify_key ks (bs ! 1) now = Some key"
    and "\<not> (min_token_len (key_algorithm key) \<le> length bs \<and> length bs \<le> max_token_len (key_algorithm key))"
  shows "verify_through_s7 C bs ks now skew = Inl Length"
proof -
  have "length bs < min_token_len (key_algorithm key) \<or> length bs > max_token_len (key_algorithm key)"
    using assms(3) by auto
  then show ?thesis
    unfolding verify_through_s7_def Let_def
    by (simp only: s7_head [OF assms(1)] assms(2) ok_or_simps and_then_simps simp_thms if_False if_True)
qed

lemma read_body_Inl: "read_body body n now skew nonce = Inl r \<Longrightarrow> r \<in> {Framing, Expired, Field}"
  by (auto simp: read_body_def and_then_def ok_or_def split: if_splits option.splits sum.splits)

lemma authenticate_Inl:
  "length tag = tag_len (key_algorithm key) \<Longrightarrow> authenticate C key header nonce body tag = Inl r \<Longrightarrow> r = Tag"
  by (auto simp: authenticate_def tag_len_def ok_or_def split: algorithm.splits option.splits if_splits)

lemma s7_late_refusals:
  assumes ok: "\<not> (length bs < MIN_TOKEN_LEN \<or> bs ! 0 \<noteq> VERSION)" and key: "verify_key ks (bs ! 1) now = Some key"
    and len: "min_token_len (key_algorithm key) \<le> length bs" "length bs \<le> max_token_len (key_algorithm key)"
    and stop: "verify_through_s7 C bs ks now skew = Inl r"
  shows "r \<notin> {Structure, UnknownKey, Length}"
proof -
  let ?tl = "tag_len (key_algorithm key)" let ?n = "length bs - HEADER_LEN - ?tl"
  have big: "HEADER_LEN + ?tl \<le> length bs" "?n \<le> MAX_BODY_LEN"
    using len by (auto simp: min_token_len_def max_token_len_def MAX_BODY_LEN_def)
  have in_range: "\<not> (length bs < min_token_len (key_algorithm key) \<or> length bs > max_token_len (key_algorithm key))"
    using len by auto
  let ?sealed = "take ?n (drop HEADER_LEN bs)"
  have g: "get_range bs 0 HEADER_LEN = Some (take HEADER_LEN bs)"
    "get_range (take HEADER_LEN bs) 2 HEADER_LEN = Some (drop 2 (take HEADER_LEN bs))"
    "get_range bs HEADER_LEN (HEADER_LEN + ?n) = Some ?sealed"
    "get_range bs (HEADER_LEN + ?n) (length bs) = Some (drop (HEADER_LEN + ?n) bs)"
    using big by (simp_all add: get_range_def HEADER_LEN_def add.commute le_diff_conv2)
  have s: "get_range (write_bytes (replicate MAX_BODY_LEN 0) 0 ?sealed) 0 ?n = Some ?sealed"
    using big by (simp add: padded_Nil write_padded get_range_padded)
  have tag: "length (drop (HEADER_LEN + ?n) bs) = ?tl" using big by simp
  have "and_then (authenticate C key (take HEADER_LEN bs) (drop 2 (take HEADER_LEN bs)) ?sealed
      (drop (HEADER_LEN + ?n) bs)) (\<lambda>body. read_body body ?n now skew (drop 2 (take HEADER_LEN bs))) = Inl r"
    using stop unfolding verify_through_s7_def Let_def
    by (simp only: s7_head [OF ok] key in_range g s ok_or_simps and_then_simps simp_thms if_False)
  then show ?thesis
    unfolding and_then_Inl by (elim disjE exE conjE) (drule authenticate_Inl [OF tag] read_body_Inl, force)+
qed

lemma verify_Inl: "verify_through_s7 C bs ks now (ex_skew ex) = Inl r \<Longrightarrow> verify C bs ks now ex = Invalid r"
  by (simp add: verify_def)

lemma verify_late:
  "(\<And>r. verify_through_s7 C bs ks now (ex_skew ex) = Inl r \<Longrightarrow> r \<notin> {Structure, UnknownKey, Length}) \<Longrightarrow>
    verify C bs ks now ex \<notin> {Invalid Structure, Invalid UnknownKey, Invalid Length}"
  by (cases "verify_through_s7 C bs ks now (ex_skew ex)")
    (auto simp: verify_def split: option.splits sum.splits)

section \<open>What a verdict of Valid implies\<close>

text \<open>The key's construction accepts the tag: the AEAD opens the sealed body under the secret, the nonce and
  the header, or the MAC over header and body is the tag and the body stands in the clear.\<close>

definition proves ::
  "crypto \<Rightarrow> mint_key \<Rightarrow> u8 list \<Rightarrow> u8 list \<Rightarrow> u8 list \<Rightarrow> u8 list \<Rightarrow> u8 list \<Rightarrow> bool" where
  "proves C key header nonce sealed tag body \<longleftrightarrow>
    (case key_algorithm key of
       ChaCha20Poly1305 \<Rightarrow> aead_decrypt C (key_secret key) nonce header sealed tag = Some body
     | HmacSha256_96 \<Rightarrow> body = sealed
        \<and> (\<exists>m. hmac_new C (key_secret key) = Some m \<and> mac_verify_left m (header @ sealed) tag))"

lemma authenticate_Inr:
  "length tag = tag_len (key_algorithm key) \<Longrightarrow>
    authenticate C key header nonce sealed tag = Inr body \<longleftrightarrow> proves C key header nonce sealed tag body"
  by (auto simp: authenticate_def proves_def tag_len_def ok_or_def split: algorithm.split option.split)

lemma verify_key_entry:
  "verify_key ks kid now = Some key \<Longrightarrow>
    \<exists>e \<in> set (entries ks). entry_key e = key \<and> key_id key = kid \<and> verify_from e \<le> now \<and> now \<le> verify_until e"
  by (auto simp: verify_key_def verifies_at_def find_Some_iff)

text \<open>What the first seven checks establish of a token, written over its bytes alone: the shortest
  length and the version (S1), an open window of the key the header names (S2), the algorithm's
  lengths (S3), authentication of the body under that key, with the bytes of the token as header,
  nonce, body and tag (S4), a facts region of the length the body declares (S5), expiry plus skew (S6),
  and one of the two direction bytes, with every field where the layout puts it (S7).\<close>

definition genuine :: "crypto \<Rightarrow> key_set \<Rightarrow> u32 \<Rightarrow> u32 \<Rightarrow> u8 list \<Rightarrow> parsed \<Rightarrow> bool" where
  "genuine C ks now skew bs p \<longleftrightarrow> (\<exists>key body declared d.
      MIN_TOKEN_LEN \<le> length bs \<and> bs ! 0 = VERSION
    \<and> verify_key ks (bs ! 1) now = Some key
    \<and> (\<exists>e \<in> set (entries ks). entry_key e = key \<and> key_id key = bs ! 1 \<and> verify_from e \<le> now \<and> now \<le> verify_until e)
    \<and> min_token_len (key_algorithm key) \<le> length bs \<and> length bs \<le> max_token_len (key_algorithm key)
    \<and> pa_nonce p = drop 2 (take HEADER_LEN bs)
    \<and> proves C key (take HEADER_LEN bs) (drop 2 (take HEADER_LEN bs))
        (take (length bs - HEADER_LEN - tag_len (key_algorithm key)) (drop HEADER_LEN bs))
        (drop (length bs - tag_len (key_algorithm key)) bs) body
    \<and> get_at body OFF_FACTS_LEN = Some declared
    \<and> HEADER_LEN + BODY_FIXED_LEN + unat declared + tag_len (key_algorithm key) = length bs
    \<and> u32_at body OFF_EXPIRY = Some (cl_expiry (pa_claims p))
    \<and> now \<le> saturating_add (cl_expiry (pa_claims p)) skew
    \<and> get_at body OFF_DIRECTION = Some d
    \<and> (d = 1 \<and> cl_direction (pa_claims p) = Originating \<or> d = 2 \<and> cl_direction (pa_claims p) = Terminating)
    \<and> get_range body BODY_FIXED_LEN (length body) = Some (cl_module_facts (pa_claims p))
    \<and> u32_at body OFF_TENANT = Some (cl_tenant (pa_claims p))
    \<and> u16_at body OFF_HOME_SHARD = Some (cl_home_shard (pa_claims p))
    \<and> u16_at body OFF_EDGE = Some (cl_edge (pa_claims p))
    \<and> u16_at body OFF_MEDIA_NODE = Some (cl_media_node (pa_claims p))
    \<and> u32_at body OFF_POLICY_VERSION = Some (cl_policy_version (pa_claims p)))"

lemma pair_consistent_iff:
  "pair_consistent \<lparr>pa_claims = c, pa_nonce = n\<rparr> \<lparr>pa_claims = e, pa_nonce = n'\<rparr> \<longleftrightarrow>
    n' \<noteq> n \<and> e = c\<lparr>cl_direction := complement (cl_direction c)\<rparr>"
proof -
  have "complement (complement d) = d" for d by (cases d) simp_all
  then show ?thesis by (cases c; cases e) (auto simp: pair_consistent_def Let_def)
qed

lemma dir_from_wire_Some:
  "dir_from_wire b = Some d \<longleftrightarrow> b = 1 \<and> d = Originating \<or> b = 2 \<and> d = Terminating"
  by (auto simp: dir_from_wire_def)

lemma read_body_Inr:
  "read_body body n now skew nonce = Inr p \<longleftrightarrow> (\<exists>declared d.
      get_at body OFF_FACTS_LEN = Some declared \<and> unat declared = n - BODY_FIXED_LEN
    \<and> u32_at body OFF_EXPIRY = Some (cl_expiry (pa_claims p))
    \<and> now \<le> saturating_add (cl_expiry (pa_claims p)) skew
    \<and> get_at body OFF_DIRECTION = Some d \<and> dir_from_wire d = Some (cl_direction (pa_claims p))
    \<and> get_range body BODY_FIXED_LEN (length body) = Some (cl_module_facts (pa_claims p))
    \<and> u32_at body OFF_TENANT = Some (cl_tenant (pa_claims p))
    \<and> u16_at body OFF_HOME_SHARD = Some (cl_home_shard (pa_claims p))
    \<and> u16_at body OFF_EDGE = Some (cl_edge (pa_claims p))
    \<and> u16_at body OFF_MEDIA_NODE = Some (cl_media_node (pa_claims p))
    \<and> u32_at body OFF_POLICY_VERSION = Some (cl_policy_version (pa_claims p))
    \<and> pa_nonce p = nonce)" (is "?l \<longleftrightarrow> ?r")
proof
  show "?l \<Longrightarrow> ?r" by (auto simp: read_body_def and_then_Inr not_less split: if_splits)
next
  obtain c m where p: "p = \<lparr>pa_claims = c, pa_nonce = m\<rparr>" by (cases p)
  show "?r \<Longrightarrow> ?l" unfolding p by (cases c) (auto simp: read_body_def not_less)
qed

text \<open>The slices the verifier takes are the token's own bytes.\<close>

lemma s7_slices:
  assumes "HEADER_LEN + t \<le> length bs" "length bs - HEADER_LEN - t \<le> MAX_BODY_LEN"
  shows "get_range bs 0 HEADER_LEN = Some (take HEADER_LEN bs)"
    "get_range (take HEADER_LEN bs) 2 HEADER_LEN = Some (drop 2 (take HEADER_LEN bs))"
    "get_range bs HEADER_LEN (HEADER_LEN + (length bs - HEADER_LEN - t)) = Some (take (length bs - HEADER_LEN - t) (drop HEADER_LEN bs))"
    "get_range bs (HEADER_LEN + (length bs - HEADER_LEN - t)) (length bs) = Some (drop (length bs - t) bs)"
    "get_range (write_bytes (replicate MAX_BODY_LEN 0) 0 (take (length bs - HEADER_LEN - t) (drop HEADER_LEN bs))) 0
      (length bs - HEADER_LEN - t) = Some (take (length bs - HEADER_LEN - t) (drop HEADER_LEN bs))"
proof -
  show "get_range (write_bytes (replicate MAX_BODY_LEN 0) 0 (take (length bs - HEADER_LEN - t) (drop HEADER_LEN bs))) 0
      (length bs - HEADER_LEN - t) = Some (take (length bs - HEADER_LEN - t) (drop HEADER_LEN bs))"
    using assms by (simp add: padded_Nil write_padded get_range_padded)
qed (use assms in \<open>simp_all add: get_range_def HEADER_LEN_def add.commute le_diff_conv2\<close>)

lemma verify_s7_iff: "verify_through_s7 C bs ks now skew = Inr p \<longleftrightarrow> genuine C ks now skew bs p"
proof (cases "MIN_TOKEN_LEN \<le> length bs \<and> bs ! 0 = VERSION")
  case False
  then show ?thesis by (auto simp: s7_structure genuine_def)
next
  case start: True
  then have s1: "\<not> length bs < MIN_TOKEN_LEN" "get_at bs 0 = Some VERSION" "get_at bs 1 = Some (bs ! 1)"
    by (auto simp: get_at_def layout_defs)
  show ?thesis
  proof (cases "verify_key ks (bs ! 1) now")
    case None
    with start show ?thesis by (simp add: s7_unknown_key genuine_def)
  next
    case (Some key)
    let ?t = "tag_len (key_algorithm key)" let ?n = "length bs - HEADER_LEN - ?t"
    show ?thesis
    proof (cases "min_token_len (key_algorithm key) \<le> length bs \<and> length bs \<le> max_token_len (key_algorithm key)")
      case False
      with start Some have "verify_through_s7 C bs ks now skew = Inl Length" by (intro s7_length) auto
      then show ?thesis using False Some by (auto simp: genuine_def)
    next
      case True
      then have s3: "\<not> (length bs < min_token_len (key_algorithm key) \<or> length bs > max_token_len (key_algorithm key))" by auto
      have big: "HEADER_LEN + ?t \<le> length bs" "?n \<le> MAX_BODY_LEN" "HEADER_LEN + BODY_FIXED_LEN + ?t \<le> length bs"
        using True by (auto simp: min_token_len_def max_token_len_def MAX_BODY_LEN_def)
      have "verify_through_s7 C bs ks now skew =
          and_then (authenticate C key (take HEADER_LEN bs) (drop 2 (take HEADER_LEN bs)) (take ?n (drop HEADER_LEN bs)) (drop (length bs - ?t) bs))
            (\<lambda>body. read_body body ?n now skew (drop 2 (take HEADER_LEN bs)))"
        unfolding verify_through_s7_def Let_def
        by (simp only: s1 Some s3 s7_slices [OF big(1,2)] ok_or_simps and_then_simps simp_thms if_False)
      moreover have "unat declared = ?n - BODY_FIXED_LEN \<longleftrightarrow> HEADER_LEN + BODY_FIXED_LEN + unat declared + ?t = length bs"
        for declared :: u8 using big(3) by linarith
      moreover have "length (drop (length bs - ?t) bs) = ?t" using big(1) by simp
      note authenticate_Inr [OF this]
      ultimately show ?thesis
        using start Some True verify_key_entry [OF Some]
        by (auto simp: genuine_def and_then_Inr read_body_Inr dir_from_wire_Some)
    qed
  qed
qed

section \<open>A concrete instance of the cryptography\<close>

text \<open>Not a cipher: an identity transformation with a constant tag and a truncated copy as a MAC,
  for evaluating the theorems at a point.\<close>

definition plain_crypto :: crypto where
  "plain_crypto =
    \<lparr>aead_encrypt = (\<lambda>k n a p. Some (p, replicate 16 7)),
     aead_decrypt = (\<lambda>k n a c t. if t = replicate 16 7 then Some c else None),
     hmac_new = (\<lambda>k. Some
       \<lparr>mac_finalize = (\<lambda>msg. take 32 (msg @ replicate 32 0)),
        mac_verify_left = (\<lambda>msg tag. take (length tag) (take 32 (msg @ replicate 32 0)) = tag)\<rparr>)\<rparr>"

lemma plain_crypto_laws: "crypto_laws plain_crypto"
  by (auto simp: crypto_laws_def aead_laws_def hmac_laws_def plain_crypto_def)

definition sample_claims :: "direction \<Rightarrow> claims" where
  "sample_claims d = \<lparr>cl_tenant = 7, cl_home_shard = 3, cl_edge = 5, cl_direction = d,
     cl_media_node = 9, cl_policy_version = 41, cl_expiry = 1000, cl_module_facts = [1, 2]\<rparr>"

definition sample_key :: mint_key where
  "sample_key = \<lparr>key_id = 1, key_algorithm = ChaCha20Poly1305, key_secret = replicate 32 17\<rparr>"

definition sample_keys :: key_set where
  "sample_keys = \<lparr>entries = [\<lparr>entry_key = sample_key, verify_from = 0, verify_until = 5000, entry_mint = True\<rparr>]\<rparr>"

lemma sample_key_verifies: "verify_key sample_keys (key_id sample_key) 1020 = Some sample_key"
  by (simp add: verify_key_def sample_keys_def verifies_at_def)

section \<open>Properties\<close>

text \<open>C33. Any node that holds the key verifies what any node minted: in both constructions, for any
  claims within the facts budget, a minted token verifies to exactly its claims at every instant up
  to expiry plus skew at which the key's window is open, and to \<open>Expired\<close> after it.\<close>

theorem verify_inverts_mint:
  assumes "crypto_laws C" "length (key_secret key) = 32" "length nonce = 12"
    and "length (cl_module_facts c) \<le> MAX_FACTS"
    and "verify_key ks (key_id key) now = Some key"
  shows "\<exists>t. mint C c key nonce = Inr t
    \<and> verify C (as_bytes t) ks now (with_skew expect_new skew) =
        (if now \<le> saturating_add (cl_expiry c) skew then Valid c else Invalid Expired)"
proof -
  obtain t where t: "mint C c key nonce = Inr t" using mint_ok_iff [OF assms(1-3)] assms(4) by blast
  from verify_s7_minted [OF assms(1-4) t assms(5)] show ?thesis
    by (auto simp: t verify_def expect_new_def with_skew_def not_less)
qed

theorem verify_inverts_mint_witness:
  "\<exists>t. mint plain_crypto (sample_claims Originating) sample_key (replicate 12 160) = Inr t
    \<and> verify plain_crypto (as_bytes t) sample_keys 1020 (with_skew expect_new 30)
      = Valid (sample_claims Originating)"
  using verify_inverts_mint [OF plain_crypto_laws _ _ _ sample_key_verifies,
      of "replicate 12 160" "sample_claims Originating" 30]
  by (simp add: sample_claims_def sample_key_def MAX_FACTS_def saturating_add_def)

text \<open>The pair a dialog-forming request is stamped with verifies as a pair: tokens of one set of
  claims in the two directions, minted under distinct nonces, verify with each other as partner (and
  the tenant pinned), the first-popped one giving its own direction's claims.\<close>

theorem minted_pair_verifies:
  assumes "crypto_laws C" "length (key_secret key) = 32"
    and nonces: "length n1 = 12" "length n2 = 12" "n1 \<noteq> n2"
    and "length (cl_module_facts c) \<le> MAX_FACTS"
    and "verify_key ks (key_id key) now = Some key"
    and "now \<le> saturating_add (cl_expiry c) skew"
    and "mint C c key n1 = Inr t1"
    and "mint C (c\<lparr>cl_direction := complement (cl_direction c)\<rparr>) key n2 = Inr t2"
  shows "verify C (as_bytes t1) ks now
    (with_skew (with_partner (with_tenant expect_new (cl_tenant c)) (as_bytes t2)) skew) = Valid c"
proof -
  let ?d = "c\<lparr>cl_direction := complement (cl_direction c)\<rparr>"
  have "verify_through_s7 C (as_bytes t1) ks now skew = Inr \<lparr>pa_claims = c, pa_nonce = n1\<rparr>"
    using verify_s7_minted [OF assms(1,2,3,6,9,7), of skew] assms(8) by simp
  moreover have "verify_through_s7 C (as_bytes t2) ks now skew = Inr \<lparr>pa_claims = ?d, pa_nonce = n2\<rparr>"
    using verify_s7_minted [OF assms(1,2,4) _ assms(10,7), of skew] assms(6,8) by simp
  ultimately show ?thesis
    using pair_consistent_mirror [OF nonces(3), of c]
    by (simp add: verify_def with_partner_def with_tenant_def expect_new_def with_skew_def)
qed

theorem minted_pair_verifies_witness:
  "\<exists>t1 t2. mint plain_crypto (sample_claims Originating) sample_key (replicate 12 1) = Inr t1
    \<and> mint plain_crypto (sample_claims Terminating) sample_key (replicate 12 2) = Inr t2
    \<and> verify plain_crypto (as_bytes t1) sample_keys 1020
        (with_skew (with_partner (with_tenant expect_new 7) (as_bytes t2)) 30)
      = Valid (sample_claims Originating)"
proof -
  have ok: "length (key_secret sample_key) = 32" "length (cl_module_facts (sample_claims d)) \<le> MAX_FACTS"
    for d by (simp_all add: sample_key_def sample_claims_def MAX_FACTS_def)
  obtain t1 t2 where t: "mint plain_crypto (sample_claims Originating) sample_key (replicate 12 1) = Inr t1"
    "mint plain_crypto (sample_claims Terminating) sample_key (replicate 12 2) = Inr t2"
    using mint_ok_iff [OF plain_crypto_laws ok(1)] ok(2) by (metis length_replicate)
  have "verify plain_crypto (as_bytes t1) sample_keys 1020
        (with_skew (with_partner (with_tenant expect_new (cl_tenant (sample_claims Originating))) (as_bytes t2)) 30)
      = Valid (sample_claims Originating)"
    by (rule minted_pair_verifies [OF plain_crypto_laws ok(1) _ _ _ ok(2) sample_key_verifies _ t(1),
          of "replicate 12 2"])
      (use t(2) in \<open>simp_all add: sample_claims_def saturating_add_def\<close>)
  with t show ?thesis by (simp add: sample_claims_def)
qed

text \<open>C34. A verdict of \<open>Valid\<close> is exactly the nine checks.  It is given when, and only when, the token is
  genuine: the version is this layout's, the key id's window is open, the length is in the algorithm's
  range, the body came out of authentication under that key over the token's own header, nonce and tag,
  its facts region has the length it declares, the token is not past expiry plus skew, its direction
  byte is one of the two and every claim is read from its place; a pinned tenant is its tenant; and a
  partner is genuine on its own and differs in nonce and direction only.\<close>

theorem verify_valid_sound:
  "verify C bs ks now ex = Valid c \<longleftrightarrow>
    (\<exists>nonce. genuine C ks now (ex_skew ex) bs \<lparr>pa_claims = c, pa_nonce = nonce\<rparr>
      \<and> (ex_tenant ex = None \<or> ex_tenant ex = Some (cl_tenant c))
      \<and> (case ex_partner ex of None \<Rightarrow> True
         | Some partner \<Rightarrow> (\<exists>nonce'. nonce' \<noteq> nonce
              \<and> genuine C ks now (ex_skew ex) partner
                  \<lparr>pa_claims = c\<lparr>cl_direction := case cl_direction c of Originating \<Rightarrow> Terminating | Terminating \<Rightarrow> Originating\<rparr>,
                   pa_nonce = nonce'\<rparr>)))"
proof (cases "verify_through_s7 C bs ks now (ex_skew ex)")
  case (Inl r)
  then have "\<not> genuine C ks now (ex_skew ex) bs p" for p by (simp flip: verify_s7_iff)
  then show ?thesis using Inl by (simp add: verify_def)
next
  case (Inr p)
  obtain d nonce where p: "p = \<lparr>pa_claims = d, pa_nonce = nonce\<rparr>" by (cases p)
  show ?thesis
  proof (cases "ex_partner ex")
    case None
    then show ?thesis using Inr by (auto simp: verify_def p simp flip: verify_s7_iff)
  next
    case (Some b)
    then show ?thesis
    proof (cases "verify_through_s7 C b ks now (ex_skew ex)")
      case (Inr q)
      with \<open>verify_through_s7 C bs ks now (ex_skew ex) = Inr p\<close> Some show ?thesis
        by (cases q; cases "cl_direction d") (auto simp: verify_def p pair_consistent_iff simp flip: verify_s7_iff)
    qed (use Inr in \<open>auto simp: verify_def p simp flip: verify_s7_iff\<close>)
  qed
qed

theorem verify_valid_sound_witness:
  "\<exists>t. mint plain_crypto (sample_claims Originating) sample_key (replicate 12 160) = Inr t
    \<and> as_bytes t ! 0 = VERSION"
proof -
  obtain t where t: "mint plain_crypto (sample_claims Originating) sample_key (replicate 12 160) = Inr t"
    "verify plain_crypto (as_bytes t) sample_keys 1020 (with_skew expect_new 30) = Valid (sample_claims Originating)"
  proof -
    have l: "length (key_secret sample_key) = 32" "length (replicate 12 (160 :: u8)) = 12"
      "length (cl_module_facts (sample_claims Originating)) \<le> MAX_FACTS"
      by (simp_all add: sample_key_def sample_claims_def MAX_FACTS_def)
    obtain t where m: "mint plain_crypto (sample_claims Originating) sample_key (replicate 12 160) = Inr t"
      using mint_ok_iff [OF plain_crypto_laws l(1,2)] l(3) by blast
    have "verify_through_s7 plain_crypto (as_bytes t) sample_keys 1020 30
        = Inr \<lparr>pa_claims = sample_claims Originating, pa_nonce = replicate 12 160\<rparr>"
      using verify_s7_minted [OF plain_crypto_laws l m sample_key_verifies]
      by (simp add: sample_claims_def saturating_add_def)
    then have "verify plain_crypto (as_bytes t) sample_keys 1020 (with_skew expect_new 30)
        = Valid (sample_claims Originating)"
      by (simp add: verify_def with_skew_def expect_new_def)
    with m that show ?thesis by blast
  qed
  from iffD1 [OF verify_valid_sound t(2)] t(1) show ?thesis by (auto simp: genuine_def)
qed

text \<open>The structural refusals are exact and come before any cryptography, whatever the
  cryptography does: \<open>Structure\<close> is a short or wrong-version buffer (a flow reference, a zeroed
  buffer) and nothing else, \<open>UnknownKey\<close> a key id with no open window, \<open>Length\<close> a length outside
  the key's range (an over-budget facts region); a refused partner never shows as one of them.\<close>

theorem verify_structural_refusals_exact:
  "(verify C bs ks now ex = Invalid Structure) = (\<not> (MIN_TOKEN_LEN \<le> length bs \<and> bs ! 0 = VERSION))
   \<and> (verify C bs ks now ex = Invalid UnknownKey) =
      (MIN_TOKEN_LEN \<le> length bs \<and> bs ! 0 = VERSION \<and> verify_key ks (bs ! 1) now = None)
   \<and> (verify C bs ks now ex = Invalid Length) =
      (MIN_TOKEN_LEN \<le> length bs \<and> bs ! 0 = VERSION
       \<and> (case verify_key ks (bs ! 1) now of
            None \<Rightarrow> False
          | Some key \<Rightarrow> \<not> (min_token_len (key_algorithm key) \<le> length bs
              \<and> length bs \<le> max_token_len (key_algorithm key))))"
proof (cases "length bs < MIN_TOKEN_LEN \<or> bs ! 0 \<noteq> VERSION")
  case True
  then have "verify C bs ks now ex = Invalid Structure" by (simp add: verify_Inl s7_structure)
  with True show ?thesis by (auto simp: not_le)
next
  case ok: False
  show ?thesis
  proof (cases "verify_key ks (bs ! 1) now")
    case None
    with ok have "verify C bs ks now ex = Invalid UnknownKey" by (simp add: verify_Inl s7_unknown_key)
    with ok None show ?thesis by (auto simp: not_less)
  next
    case (Some key)
    show ?thesis
    proof (cases "min_token_len (key_algorithm key) \<le> length bs \<and> length bs \<le> max_token_len (key_algorithm key)")
      case True
      with ok Some have "verify C bs ks now ex \<notin> {Invalid Structure, Invalid UnknownKey, Invalid Length}"
        by (intro verify_late) (rule s7_late_refusals, auto)
      with ok Some True show ?thesis by (auto simp: not_less)
    next
      case False
      with ok Some have "verify C bs ks now ex = Invalid Length" by (simp add: verify_Inl s7_length)
      with ok Some False show ?thesis by (auto simp: not_less)
    qed
  qed
qed

text \<open>Minting refuses exactly an over-budget facts region, and what it mints stays inside the
  layout and the parameter budget: 46 to 114 bytes, and an \<^verbatim>\<open>;aft=\<close> parameter of at most the
  tabulated 157 characters, under the 200 of the budget.\<close>

theorem mint_within_budget:
  assumes "crypto_laws C" "length (key_secret key) = 32" "length nonce = 12"
  shows "case mint C c key nonce of
      Inl e \<Rightarrow> e = FactsTooLong (length (cl_module_facts c)) \<and> length (cl_module_facts c) > MAX_FACTS
    | Inr t \<Rightarrow> length (cl_module_facts c) \<le> MAX_FACTS
        \<and> MIN_TOKEN_LEN \<le> length (as_bytes t) \<and> length (as_bytes t) \<le> MAX_TOKEN_LEN
        \<and> length (as_bytes t) = tok_len t
        \<and> length ('';='' @ TOKEN_PARAM) + length (to_param_value t) \<le> worst_case_param_len MAX_TOKEN_LEN
        \<and> worst_case_param_len MAX_TOKEN_LEN = 157 \<and> (157 :: nat) \<le> TOKEN_PARAM_BUDGET"
proof (cases "length (cl_module_facts c) \<le> MAX_FACTS")
  case False
  then show ?thesis by (simp add: mint_def Let_def)
next
  case True
  obtain t sealed tag where t: "mint C c key nonce = Inr t"
    "as_bytes t = VERSION # key_id key # nonce @ sealed @ tag"
    "length sealed = length (body_fields c)" "length tag = tag_len (key_algorithm key)"
    using mint_wire [OF assms True] by blast
  have tl: "12 \<le> tag_len (key_algorithm key)" "tag_len (key_algorithm key) \<le> 16"
    by (simp_all add: tag_len_def split: algorithm.split)
  have len: "length (as_bytes t) = 14 + (20 + length (cl_module_facts c)) + tag_len (key_algorithm key)"
    using t assms(3) by (simp add: length_body_fields BODY_FIXED_LEN_def)
  have "tok_len t = 14 + (20 + length (cl_module_facts c)) + tag_len (key_algorithm key)"
    using t(1) True by (auto simp: mint_def Let_def and_then_Inr layout_defs split: if_splits)
  moreover have "encoded_len m \<le> 152" if "m \<le> 114" for m
  proof -
    have "m div 3 \<le> 38" "m div 3 = 38 \<longrightarrow> m mod 3 = 0" using that by presburger+
    then show ?thesis by (auto simp: encoded_len_def)
  qed
  ultimately show ?thesis
    using t(1) len tl True length_encode_param_value [of "as_bytes t"]
    by (simp add: layout_defs worst_case_param_len_def TOKEN_PARAM_def TOKEN_PARAM_BUDGET_def
        to_param_value_def encoded_len_def)
qed

theorem mint_within_budget_witness:
  "\<exists>t. mint plain_crypto (sample_claims Originating) sample_key (replicate 12 1) = Inr t
    \<and> length (as_bytes t) \<le> MAX_TOKEN_LEN"
proof -
  have l: "length (key_secret sample_key) = 32" "length (replicate 12 (1 :: u8)) = 12"
    "length (cl_module_facts (sample_claims Originating)) \<le> MAX_FACTS"
    by (simp_all add: sample_key_def sample_claims_def MAX_FACTS_def)
  obtain t where "mint plain_crypto (sample_claims Originating) sample_key (replicate 12 1) = Inr t"
    using mint_ok_iff [OF plain_crypto_laws l(1,2)] l(3) by blast
  with mint_within_budget [OF plain_crypto_laws l(1,2), of "sample_claims Originating"]
  show ?thesis by simp
qed

end
