(* ===== verification/Aor.thy ===== *)
theory Aor imports Prelude Ascii begin

text \<open>
  \<^verbatim>\<open>crates/sipx-clstr-registrar/src/aor.rs\<close>: the canonical address-of-record key and the
  shard key.  The URI type and its accessors are the SIP kernel's (\<^verbatim>\<open>sipx_sip::Uri\<close>), a
  record of operations over an abstract type of URIs.  The lemmas show that the key is an injective,
  bounded, printable encoding of the URI's scheme, user, host and port, and that the shard key is
  injective.
\<close>

section \<open>The kernel's URIs\<close>

datatype scheme = Sip | Sips | OtherScheme

datatype host = Name bytes | Ip ip_addr

record 'u uri_kernel =
  uri_parse :: "bytes \<Rightarrow> 'u option"
  equivalent :: "'u \<Rightarrow> 'u \<Rightarrow> bool"
  uri_scheme :: "'u \<Rightarrow> scheme"
  scheme_is_sip :: "scheme \<Rightarrow> bool"
  has_headers :: "'u \<Rightarrow> bool"
  password :: "'u \<Rightarrow> bytes option"
  user :: "'u \<Rightarrow> bytes option"
  decoded_user :: "'u \<Rightarrow> bytes option"
  uri_host :: "'u \<Rightarrow> host option"
  uri_port :: "'u \<Rightarrow> u16 option"

text \<open>What the \<^verbatim>\<open>hostname\<close> grammar gives of a parsed name.\<close>

definition hostname_char :: "char \<Rightarrow> bool" where
  "hostname_char c \<longleftrightarrow> is_alphanumeric c \<or> c = CHR ''-'' \<or> c = CHR ''.'' \<or> c = CHR ''_''"

definition hostname_law :: "('u, 'x) uri_kernel_scheme \<Rightarrow> bool" where
  "hostname_law K \<longleftrightarrow> (\<forall>u name. uri_host K u = Some (Name name) \<longrightarrow> (\<forall>c \<in> set name. hostname_char c))"

section \<open>The canonical key\<close>

definition MAX_KEY_BYTES :: nat where "MAX_KEY_BYTES = 512"

datatype aor_error = NotSipUri | UriHeaders | Password | EmptyUser | NoHost | TooLong nat

datatype canonical_aor = CanonicalAor (aor_str: string)

definition is_unreserved :: "char \<Rightarrow> bool" where
  "is_unreserved c \<longleftrightarrow> is_alphanumeric c \<or> c \<in> set ''-_.!~*'' \<or> c = CHR 0x27 \<or> c \<in> set ''()''"

definition hex_digit :: "nat \<Rightarrow> char" where
  "hex_digit nibble = (if nibble \<le> 9 then char_of (48 + nibble) else char_of (65 + (nibble - 10)))"

definition escape_byte :: "char \<Rightarrow> string" where
  "escape_byte c =
    (if is_unreserved c then [c]
     else [CHR 0x25, hex_digit (of_char c div 16), hex_digit (of_char c mod 16)])"

definition escape_user :: "bytes \<Rightarrow> string" where
  "escape_user decoded = concat (map escape_byte decoded)"

text \<open>\<^verbatim>\<open>String::from_utf8_lossy(name).to_lowercase()\<close>: on ASCII the ASCII mapping; beyond
  it the Unicode tables, taken as an argument.\<close>

definition to_lowercase :: "(bytes \<Rightarrow> string) \<Rightarrow> bytes \<Rightarrow> string" where
  "to_lowercase unicode name =
    (if list_all is_ascii_char name then map ascii_lower name else unicode name)"

definition strip_dot :: "string \<Rightarrow> string" where
  "strip_dot s = (if s \<noteq> [] \<and> last s = CHR ''.'' then butlast s else s)"

definition host_text :: "(bytes \<Rightarrow> string) \<Rightarrow> host \<Rightarrow> string" where
  "host_text unicode h =
    (case h of
       Name name \<Rightarrow> strip_dot (to_lowercase unicode name)
     | Ip (V4 v) \<Rightarrow> v4_display v
     | Ip (V6 v) \<Rightarrow> ''['' @ v6_display v @ '']'')"

definition port_text :: "u16 option \<Rightarrow> string" where
  "port_text p = (case p of None \<Rightarrow> '''' | Some p \<Rightarrow> '':'' @ decimal (unat p))"

definition scheme_text :: "scheme \<Rightarrow> string option" where
  "scheme_text s = (case s of Sip \<Rightarrow> Some ''sip'' | Sips \<Rightarrow> Some ''sips'' | OtherScheme \<Rightarrow> None)"

definition user_text :: "('u, 'x) uri_kernel_scheme \<Rightarrow> 'u \<Rightarrow> aor_error + string option" where
  "user_text K u =
    (case user K u of
       Some [] \<Rightarrow> Inl EmptyUser
     | Some _ \<Rightarrow>
        and_then (ok_or EmptyUser (decoded_user K u)) (\<lambda>decoded.
        if decoded = [] then Inl EmptyUser else Inr (Some (escape_user decoded)))
     | None \<Rightarrow> Inr None)"

definition from_uri ::
  "(bytes \<Rightarrow> string) \<Rightarrow> ('u, 'x) uri_kernel_scheme \<Rightarrow> 'u \<Rightarrow> aor_error + canonical_aor" where
  "from_uri unicode K u =
    and_then (ok_or NotSipUri (scheme_text (uri_scheme K u))) (\<lambda>scheme.
    if has_headers K u then Inl UriHeaders
    else if password K u \<noteq> None then Inl Password
    else
      and_then (user_text K u) (\<lambda>userinfo.
      and_then (ok_or NoHost (uri_host K u)) (\<lambda>h.
      let host = host_text unicode h in
      if host = [] then Inl NoHost
      else
        let port = port_text (uri_port K u);
            key = (case userinfo of
                Some name \<Rightarrow> scheme @ '':'' @ name @ ''@'' @ host @ port
              | None \<Rightarrow> scheme @ '':'' @ host @ port)
        in if length key > MAX_KEY_BYTES then Inl (TooLong (length key)) else Inr (CanonicalAor key))))"

definition aor_parse ::
  "(bytes \<Rightarrow> string) \<Rightarrow> ('u, 'x) uri_kernel_scheme \<Rightarrow> bytes \<Rightarrow> aor_error + canonical_aor" where
  "aor_parse unicode K raw = and_then (ok_or NotSipUri (uri_parse K raw)) (from_uri unicode K)"

definition shard_key :: "string \<Rightarrow> canonical_aor \<Rightarrow> string" where
  "shard_key tenant aor = tenant @ [CHR 0x00] @ aor_str aor"

section \<open>Escaping\<close>

lemma hex_digit_inj: "m < 16 \<Longrightarrow> n < 16 \<Longrightarrow> hex_digit m = hex_digit n \<Longrightarrow> m = n"
  by (auto simp: hex_digit_def split: if_splits)

lemma nibbles: "(of_char c :: nat) div 16 < 16" "(of_char c :: nat) mod 16 < 16"
proof -
  have "(of_char c :: nat) < 256" by simp
  then show "(of_char c :: nat) div 16 < 16" by presburger
qed simp

lemma escape_byte_cases:
  "is_unreserved c \<and> escape_byte c = [c] \<and> c \<noteq> CHR 0x25
   \<or> (\<exists>x y. escape_byte c = [CHR 0x25, x, y] \<and> x = hex_digit (of_char c div 16) \<and> y = hex_digit (of_char c mod 16))"
proof (cases "is_unreserved c")
  case True
  moreover have "\<not> is_unreserved (CHR 0x25)"
    by (simp add: is_unreserved_def is_alphanumeric_def)
  ultimately show ?thesis by (auto simp: escape_byte_def)
qed (simp add: escape_byte_def)

lemma escape_byte_prefix_free: "escape_byte a @ xs = escape_byte b @ ys \<Longrightarrow> a = b \<and> xs = ys"
proof -
  assume eq: "escape_byte a @ xs = escape_byte b @ ys"
  have byte: "c = d" if "hex_digit (of_char c div 16) = hex_digit (of_char d div 16)"
    "hex_digit (of_char c mod 16) = hex_digit (of_char d mod 16)" for c d
  proof -
    have "of_char c div 16 = (of_char d div 16 :: nat)" "of_char c mod 16 = (of_char d mod 16 :: nat)"
      using that nibbles by (blast intro: hex_digit_inj)+
    then have "(of_char c :: nat) = of_char d" by (metis div_mult_mod_eq)
    then show ?thesis by simp
  qed
  from escape_byte_cases [of a] escape_byte_cases [of b] eq show ?thesis
    by (elim disjE conjE exE) (auto intro: byte)
qed

lemma escape_byte_nonempty: "escape_byte c \<noteq> []"
  by (simp add: escape_byte_def)

lemma escape_user_inj: "escape_user xs = escape_user ys \<Longrightarrow> xs = ys"
proof (induction xs arbitrary: ys)
  case Nil
  then show ?case by (cases ys) (simp_all add: escape_user_def escape_byte_nonempty)
next
  case (Cons x xs)
  then show ?case
    by (cases ys) (auto simp: escape_user_def escape_byte_nonempty dest: escape_byte_prefix_free)
qed

text \<open>A key character: printable, and neither of the key's delimiters.\<close>

definition user_char :: "char \<Rightarrow> bool" where
  "user_char c \<longleftrightarrow> is_unreserved c \<or> c = CHR 0x25"

lemma hex_digit_alphanumeric: "n < 16 \<Longrightarrow> is_alphanumeric (hex_digit n)"
  by (auto simp: hex_digit_def is_alphanumeric_def Let_def)

lemma escape_user_chars: "\<forall>c \<in> set (escape_user xs). user_char c"
proof -
  have "user_char c" if "c \<in> set (escape_byte b)" for b c
  proof -
    have "is_alphanumeric (hex_digit (of_char b div 16))" "is_alphanumeric (hex_digit (of_char b mod 16))"
      by (simp_all add: hex_digit_alphanumeric nibbles)
    with that show ?thesis by (auto simp: escape_byte_def user_char_def is_unreserved_def split: if_splits)
  qed
  then show ?thesis by (auto simp: escape_user_def)
qed

section \<open>Splitting a key\<close>

lemma split_at_delimiter:
  "xs @ d # ys = xs' @ d # ys' \<Longrightarrow> d \<notin> set xs \<Longrightarrow> d \<notin> set xs' \<Longrightarrow> xs = xs' \<and> ys = ys'"
proof (induction xs arbitrary: xs')
  case Nil
  then show ?case by (cases xs') auto
next
  case (Cons x xs)
  then show ?case by (cases xs') auto
qed

text \<open>The shape of a host text: no colon and no bracket, or one bracketed text.\<close>

definition host_shape :: "string \<Rightarrow> bool" where
  "host_shape h \<longleftrightarrow> h \<noteq> [] \<and> CHR ''@'' \<notin> set h \<and>
    (CHR '':'' \<notin> set h \<and> CHR ''['' \<notin> set h \<or>
     (\<exists>t. h = CHR ''['' # t @ [CHR '']''] \<and> CHR '']'' \<notin> set t))"

lemma port_text_inj: "port_text p = port_text q \<Longrightarrow> p = q"
  by (auto simp: port_text_def split: option.splits dest!: decimal_inj
      intro: word_unat_eq_iff [THEN iffD2])

lemma port_text_cases: "port_text p = [] \<or> (\<exists>ds. port_text p = CHR '':'' # ds)"
  by (auto simp: port_text_def split: option.splits)

lemma colon_not_digit: "CHR '':'' \<notin> set (decimal n)" "CHR ''@'' \<notin> set (decimal n)"
  using decimal_digits [of n] by (auto simp: is_digit_def)

lemma host_port_inj:
  assumes "host_shape h" "host_shape h'" and eq: "h @ port_text p = h' @ port_text q"
  shows "h = h' \<and> p = q"
proof -
  have "h = h' \<and> port_text p = port_text q"
  proof (cases "CHR ''['' \<in> set h \<or> CHR ''['' \<in> set h'")
    case False
    then have "CHR '':'' \<notin> set h" "CHR '':'' \<notin> set h'" using assms by (auto simp: host_shape_def)
    then show ?thesis
      using eq port_text_cases [of p] port_text_cases [of q]
      by (elim disjE exE) (auto dest: split_at_delimiter)
  next
    case True
    have "hd h = hd h'" using eq assms(1,2) by (metis host_shape_def hd_append)
    with True assms(1,2) obtain t t' where
      "h = CHR ''['' # t @ [CHR '']'']" "CHR '']'' \<notin> set t" "h' = CHR ''['' # t' @ [CHR '']'']" "CHR '']'' \<notin> set t'"
      unfolding host_shape_def by (metis list.sel(1) hd_in_set)
    then show ?thesis using eq split_at_delimiter [of t "CHR '']''" "port_text p" t' "port_text q"] by simp
  qed
  then show ?thesis using port_text_inj by blast
qed

lemma hostname_char_lower: "hostname_char c \<Longrightarrow> hostname_char (ascii_lower c) \<and> is_ascii_char c"
  by (auto simp: hostname_char_def is_alphanumeric_def ascii_lower_def is_ascii_char_def Let_def)

lemma strip_dot_subset: "set (strip_dot s) \<subseteq> set s"
  by (auto simp: strip_dot_def dest: in_set_butlastD)

lemma name_text_chars:
  assumes "\<forall>c \<in> set name. hostname_char c"
  shows "\<forall>c \<in> set (host_text unicode (Name name)). hostname_char c"
proof -
  have "list_all is_ascii_char name" using assms hostname_char_lower by (auto simp: list_all_iff)
  then have "host_text unicode (Name name) = strip_dot (map ascii_lower name)"
    by (simp add: host_text_def to_lowercase_def)
  then show ?thesis
    using assms strip_dot_subset [of "map ascii_lower name"] hostname_char_lower by fastforce
qed

text \<open>Printable ASCII other than space.\<close>

definition printable :: "char \<Rightarrow> bool" where
  "printable c \<longleftrightarrow> 33 \<le> (of_char c :: nat) \<and> (of_char c :: nat) \<le> 126"

lemma alphanumeric_printable: "is_alphanumeric c \<Longrightarrow> printable c"
  by (auto simp: is_alphanumeric_def printable_def Let_def)

lemma digit_alphanumeric: "is_digit c \<Longrightarrow> is_alphanumeric c"
  by (simp add: is_digit_def is_alphanumeric_def)

lemma printable_chars [simp]:
  "printable CHR ''-''" "printable CHR ''.''" "printable CHR ''_''" "printable CHR '':''" "printable CHR ''@''"
  "printable CHR ''[''" "printable CHR '']''" "printable CHR 0x25" "printable CHR ''s''" "printable CHR ''i''"
  "printable CHR ''p''"
  by (simp_all add: printable_def)

lemma user_char_facts: "user_char c \<Longrightarrow> printable c \<and> c \<noteq> CHR ''@''"
  by (auto simp: user_char_def is_unreserved_def printable_def is_alphanumeric_def Let_def)

lemma delimiters_not_alphanumeric:
  "\<not> is_alphanumeric CHR '':''" "\<not> is_alphanumeric CHR ''@''" "\<not> is_alphanumeric CHR ''[''" "\<not> is_alphanumeric CHR '']''"
  by (simp_all add: is_alphanumeric_def)

lemma host_text_facts:
  assumes law: "hostname_law K" and host: "uri_host K u = Some h" and ne: "host_text unicode h \<noteq> []"
  shows "host_shape (host_text unicode h) \<and> (\<forall>c \<in> set (host_text unicode h). printable c)"
proof (cases h)
  case (Name name)
  then have c: "\<forall>c \<in> set (host_text unicode h). hostname_char c"
    using law host name_text_chars unfolding hostname_law_def by blast
  have p: "printable c" if "hostname_char c" for c
    using that alphanumeric_printable by (auto simp: hostname_char_def)
  have "\<not> hostname_char CHR '':''" "\<not> hostname_char CHR ''@''" "\<not> hostname_char CHR ''[''"
    by (simp_all add: hostname_char_def delimiters_not_alphanumeric)
  with c ne have "host_shape (host_text unicode h)" unfolding host_shape_def by blast
  with c p show ?thesis by blast
next
  case (Ip ip)
  show ?thesis
  proof (cases ip)
    case (V4 v)
    have c: "\<forall>c \<in> set (v4_display v). is_alphanumeric c \<or> c = CHR ''.''"
      using v4_display_chars [of v] digit_alphanumeric by blast
    have t: "host_text unicode h = v4_display v" using Ip V4 by (simp add: host_text_def)
    have "host_shape (v4_display v)"
      using c ne t delimiters_not_alphanumeric unfolding host_shape_def by fastforce
    moreover have "\<forall>c \<in> set (v4_display v). printable c" using c alphanumeric_printable by auto
    ultimately show ?thesis using t by simp
  next
    case (V6 v)
    have t: "host_text unicode h = CHR ''['' # v6_display v @ [CHR '']'']" using Ip V6 by (simp add: host_text_def)
    have "CHR '']'' \<notin> set (v6_display v)" "CHR ''@'' \<notin> set (v6_display v)"
      using v6_display_chars [of v] delimiters_not_alphanumeric by auto
    then have "host_shape (host_text unicode h)" unfolding host_shape_def t by auto
    moreover have "\<forall>c \<in> set (host_text unicode h). printable c"
      using v6_display_chars [of v] alphanumeric_printable unfolding t by auto
    ultimately show ?thesis by blast
  qed
qed

section \<open>What a canonical key is made of\<close>

definition user_part :: "('u, 'x) uri_kernel_scheme \<Rightarrow> 'u \<Rightarrow> bytes option" where
  "user_part K u = (if user K u = None then None else decoded_user K u)"

lemma user_text_Inr:
  "user_text K u = Inr n \<Longrightarrow> n = map_option escape_user (user_part K u) \<and> user_part K u \<noteq> Some []
    \<and> (user K u = None \<or> decoded_user K u \<noteq> None)"
  by (auto simp: user_text_def user_part_def and_then_Inr split: option.splits list.splits if_splits)

lemma from_uri_Inr:
  assumes "from_uri unicode K u = Inr k"
  obtains sch h where "scheme_text (uri_scheme K u) = Some sch" "uri_host K u = Some h"
    "host_text unicode h \<noteq> []" "user K u = None \<or> decoded_user K u \<noteq> None" "length (aor_str k) \<le> MAX_KEY_BYTES"
    "aor_str k = sch @ '':'' @ (case user_part K u of None \<Rightarrow> '''' | Some d \<Rightarrow> escape_user d @ ''@'')
      @ host_text unicode h @ port_text (uri_port K u)"
proof -
  from assms obtain sch n h where a: "scheme_text (uri_scheme K u) = Some sch" "user_text K u = Inr n"
    "uri_host K u = Some h" "host_text unicode h \<noteq> []" and
    k: "aor_str k = (case n of Some name \<Rightarrow> sch @ '':'' @ name @ ''@'' @ host_text unicode h @ port_text (uri_port K u)
      | None \<Rightarrow> sch @ '':'' @ host_text unicode h @ port_text (uri_port K u))" "length (aor_str k) \<le> MAX_KEY_BYTES"
    by (auto simp: from_uri_def and_then_Inr Let_def not_less split: if_splits)
  from user_text_Inr [OF a(2)] have n: "n = map_option escape_user (user_part K u)"
    "user K u = None \<or> decoded_user K u \<noteq> None" by auto
  show ?thesis
    by (rule that [OF a(1,3,4) n(2) k(2)]) (use k(1) n(1) in \<open>simp split: option.split\<close>)
qed

lemma key_split:
  assumes law: "hostname_law K" and u: "from_uri unicode K u = Inr k" and v: "from_uri unicode K v = Inr k"
  shows "uri_scheme K u = uri_scheme K v \<and> user_part K u = user_part K v
    \<and> map_option (host_text unicode) (uri_host K u) = map_option (host_text unicode) (uri_host K v)
    \<and> uri_port K u = uri_port K v"
proof -
  from u obtain s h where a: "scheme_text (uri_scheme K u) = Some s" "uri_host K u = Some h"
    "host_text unicode h \<noteq> []" and
    ku: "aor_str k = s @ '':'' @ (case user_part K u of None \<Rightarrow> '''' | Some d \<Rightarrow> escape_user d @ ''@'')
      @ host_text unicode h @ port_text (uri_port K u)"
    by (rule from_uri_Inr)
  from v obtain s' h' where b: "scheme_text (uri_scheme K v) = Some s'" "uri_host K v = Some h'"
    "host_text unicode h' \<noteq> []" and
    kv: "aor_str k = s' @ '':'' @ (case user_part K v of None \<Rightarrow> '''' | Some d \<Rightarrow> escape_user d @ ''@'')
      @ host_text unicode h' @ port_text (uri_port K v)"
    by (rule from_uri_Inr)
  define rest where "rest = host_text unicode h @ port_text (uri_port K u)"
  define rest' where "rest' = host_text unicode h' @ port_text (uri_port K v)"
  have at_rest: "CHR ''@'' \<notin> set rest" "CHR ''@'' \<notin> set rest'"
    using host_text_facts [OF law a(2,3)] host_text_facts [OF law b(2,3)] colon_not_digit
    by (auto simp: rest_def rest'_def host_shape_def port_text_def split: option.splits)
  have at_user: "CHR ''@'' \<notin> set (escape_user d)" for d using escape_user_chars user_char_facts by blast
  have colon: "CHR '':'' \<notin> set s" "CHR '':'' \<notin> set s'"
    using a(1) b(1) by (auto simp: scheme_text_def split: scheme.splits)
  have "s @ CHR '':'' # (case user_part K u of None \<Rightarrow> '''' | Some d \<Rightarrow> escape_user d @ ''@'') @ rest
      = s' @ CHR '':'' # (case user_part K v of None \<Rightarrow> '''' | Some d \<Rightarrow> escape_user d @ ''@'') @ rest'"
    using ku kv by (simp add: rest_def rest'_def)
  from split_at_delimiter [OF this colon] have s: "s = s'" and
    r: "(case user_part K u of None \<Rightarrow> '''' | Some d \<Rightarrow> escape_user d @ ''@'') @ rest
      = (case user_part K v of None \<Rightarrow> '''' | Some d \<Rightarrow> escape_user d @ ''@'') @ rest'" by auto
  have "uri_scheme K u = uri_scheme K v"
    using a(1) b(1) s by (auto simp: scheme_text_def split: scheme.splits)
  moreover have "user_part K u = user_part K v \<and> rest = rest'"
  proof (cases "user_part K u"; cases "user_part K v")
    fix d d' assume "user_part K u = Some d" "user_part K v = Some d'"
    with r split_at_delimiter [of "escape_user d" "CHR ''@''" rest "escape_user d'" rest'] at_user
    show ?thesis by (auto dest: escape_user_inj)
  next
    fix d assume "user_part K u = None" "user_part K v = Some d"
    with r have "rest = escape_user d @ CHR ''@'' # rest'" by simp
    with at_rest(1) show ?thesis by simp
  next
    fix d assume "user_part K u = Some d" "user_part K v = None"
    with r have "rest' = escape_user d @ CHR ''@'' # rest" by simp
    with at_rest(2) show ?thesis by simp
  qed (use r in simp)
  ultimately show ?thesis
    using host_port_inj [of "host_text unicode h" "host_text unicode h'" "uri_port K u" "uri_port K v"]
      host_text_facts [OF law a(2,3)] host_text_facts [OF law b(2,3)] a(2) b(2)
    by (simp add: rest_def rest'_def)
qed

lemma key_join:
  assumes u: "from_uri unicode K u = Inr k" and v: "from_uri unicode K v = Inr k'"
    and same: "uri_scheme K u = uri_scheme K v" "user_part K u = user_part K v"
      "map_option (host_text unicode) (uri_host K u) = map_option (host_text unicode) (uri_host K v)"
      "uri_port K u = uri_port K v"
  shows "k = k'"
proof -
  from u obtain s h where a: "scheme_text (uri_scheme K u) = Some s" "uri_host K u = Some h" and
    ku: "aor_str k = s @ '':'' @ (case user_part K u of None \<Rightarrow> '''' | Some d \<Rightarrow> escape_user d @ ''@'')
      @ host_text unicode h @ port_text (uri_port K u)"
    by (rule from_uri_Inr)
  from v obtain s' h' where b: "scheme_text (uri_scheme K v) = Some s'" "uri_host K v = Some h'" and
    kv: "aor_str k' = s' @ '':'' @ (case user_part K v of None \<Rightarrow> '''' | Some d \<Rightarrow> escape_user d @ ''@'')
      @ host_text unicode h' @ port_text (uri_port K v)"
    by (rule from_uri_Inr)
  from a b ku kv same have "aor_str k = aor_str k'" by simp
  then show ?thesis by (rule canonical_aor.expand)
qed

lemma key_printable:
  assumes law: "hostname_law K" and u: "from_uri unicode K u = Inr k"
  shows "\<forall>c \<in> set (aor_str k). printable c"
proof -
  from u obtain s h where a: "scheme_text (uri_scheme K u) = Some s" "uri_host K u = Some h"
    "host_text unicode h \<noteq> []" and
    ku: "aor_str k = s @ '':'' @ (case user_part K u of None \<Rightarrow> '''' | Some d \<Rightarrow> escape_user d @ ''@'')
      @ host_text unicode h @ port_text (uri_port K u)"
    by (rule from_uri_Inr)
  have "\<forall>c \<in> set s. printable c" using a(1) by (auto simp: scheme_text_def split: scheme.splits)
  moreover have "\<forall>c \<in> set (escape_user d). printable c" for d using escape_user_chars user_char_facts by blast
  moreover have "\<forall>c \<in> set (port_text p). printable c" for p
    using decimal_digits digit_alphanumeric alphanumeric_printable
    by (auto simp: port_text_def split: option.splits)
  moreover have "\<forall>c \<in> set (host_text unicode h). printable c" using host_text_facts [OF law a(2,3)] by blast
  ultimately show ?thesis unfolding ku by (auto split: option.splits)
qed

section \<open>A concrete kernel\<close>

text \<open>URIs given by their parts, for evaluating the theorems at a point: the user is stored decoded.\<close>

record parts =
  p_scheme :: scheme
  p_user :: "bytes option"
  p_host :: bytes
  p_port :: "u16 option"

definition parts_kernel :: "parts uri_kernel" where
  "parts_kernel = \<lparr>uri_parse = (\<lambda>raw. Some \<lparr>p_scheme = Sip, p_user = None, p_host = filter hostname_char raw, p_port = None\<rparr>),
     equivalent = (=), uri_scheme = p_scheme, scheme_is_sip = (\<lambda>s. s \<noteq> OtherScheme), has_headers = (\<lambda>_. False), password = (\<lambda>_. None),
     user = p_user, decoded_user = p_user,
     uri_host = (\<lambda>u. Some (Name (filter hostname_char (p_host u)))), uri_port = p_port\<rparr>"

lemma parts_kernel_law: "hostname_law parts_kernel"
  by (simp add: hostname_law_def parts_kernel_def)

definition alice :: "bytes \<Rightarrow> parts" where
  "alice host = \<lparr>p_scheme = Sip, p_user = Some ''a;b'', p_host = host, p_port = Some 5060\<rparr>"

lemmas key_eval = from_uri_def user_text_def host_text_def to_lowercase_def strip_dot_def port_text_def
  scheme_text_def escape_user_def escape_byte_def is_unreserved_def is_alphanumeric_def hex_digit_def
  ascii_lower_def is_ascii_char_def hostname_char_def MAX_KEY_BYTES_def digit_char_def

lemma alice_key:
  "from_uri id parts_kernel (alice ''H.Ex.'') = Inr (CanonicalAor ''sip:a%3Bb@h.ex:5060'')"
  "from_uri id parts_kernel (alice ''h.ex'') = Inr (CanonicalAor ''sip:a%3Bb@h.ex:5060'')"
  by (simp_all add: key_eval alice_def parts_kernel_def Let_def decimal.simps)
    (simp_all add: char_of_def bit_numeral_rec bit_0)

section \<open>Properties\<close>

text \<open>The canonical key identifies an address-of-record: two URIs that have keys have the same
  key exactly when they agree on scheme, decoded user (or its absence), folded host and port, so two
  spellings of one address never take two keys and two addresses never share one.\<close>

theorem canonical_key_injective:
  assumes "hostname_law K" and "from_uri unicode K u = Inr k" and "from_uri unicode K v = Inr k'"
  shows "k = k' \<longleftrightarrow>
    uri_scheme K u = uri_scheme K v \<and> user_part K u = user_part K v
    \<and> map_option (host_text unicode) (uri_host K u) = map_option (host_text unicode) (uri_host K v)
    \<and> uri_port K u = uri_port K v"
  using key_split [OF assms(1,2)] key_join [OF assms(2,3)] assms(3) by blast

theorem canonical_key_injective_witness:
  "from_uri id parts_kernel (alice ''H.Ex.'') = from_uri id parts_kernel (alice ''h.ex'')"
  using canonical_key_injective [OF parts_kernel_law alice_key] alice_key by simp

text \<open>The shard key is injective within the deployment: no two pairs of a NUL-free tenant and an
  address-of-record key share one, and every canonical key is printable, NUL-free and bounded.\<close>

theorem shard_key_injective:
  assumes "hostname_law K" and "from_uri unicode K u = Inr k" and "from_uri unicode K v = Inr k'"
    and "CHR 0x00 \<notin> set tenant" and "CHR 0x00 \<notin> set tenant'"
  shows "(shard_key tenant k = shard_key tenant' k') = (tenant = tenant' \<and> k = k')
    \<and> length (aor_str k) \<le> MAX_KEY_BYTES \<and> (\<forall>c \<in> set (aor_str k). printable c)
    \<and> CHR 0x00 \<notin> set (aor_str k)"
proof -
  have "\<not> printable CHR 0x00" by (simp add: printable_def)
  then have nul: "CHR 0x00 \<notin> set (aor_str k)" using key_printable [OF assms(1,2)] by blast
  have "length (aor_str k) \<le> MAX_KEY_BYTES" using assms(2) by (rule from_uri_Inr)
  moreover have "tenant = tenant' \<and> k = k'" if "shard_key tenant k = shard_key tenant' k'"
    using that split_at_delimiter [of tenant "CHR 0x00" "aor_str k" tenant' "aor_str k'"] assms(4,5)
    by (simp add: shard_key_def canonical_aor.expand)
  ultimately show ?thesis using nul key_printable [OF assms(1,2)] by blast
qed

theorem shard_key_injective_witness:
  "shard_key ''t1'' (CanonicalAor ''sip:a%3Bb@h.ex:5060'') \<noteq> shard_key ''t2'' (CanonicalAor ''sip:a%3Bb@h.ex:5060'')"
  using shard_key_injective [OF parts_kernel_law alice_key(2) alice_key(2), of "''t1''" "''t2''"] by simp

end
