(* ===== verification/Binding.thy ===== *)
theory Binding imports Prelude Ascii begin

text \<open>
  \<^verbatim>\<open>crates/sipx-clstr-registrar/src/binding.rs\<close>: instants, one stored binding, the
  per-address revision and the set of bindings in creation order, with the operations that keep it.
  The lemmas show what each operation does to the stored list, that insertion keeps creation order,
  and that an expired binding is invisible.
\<close>

section \<open>Instants\<close>

text \<open>Nanoseconds on a monotonic origin; a \<^verbatim>\<open>Duration\<close> is a natural number of
  nanoseconds.\<close>

datatype timestamp = Timestamp (as_nanos: u64)

instantiation timestamp :: linorder
begin

definition less_eq_timestamp :: "timestamp \<Rightarrow> timestamp \<Rightarrow> bool" where
  "less_eq_timestamp a b \<longleftrightarrow> as_nanos a \<le> as_nanos b"

definition less_timestamp :: "timestamp \<Rightarrow> timestamp \<Rightarrow> bool" where
  "less_timestamp a b \<longleftrightarrow> as_nanos a < as_nanos b"

instance
  by standard (auto simp: less_eq_timestamp_def less_timestamp_def timestamp.expand)

end

lemmas timestamp_order = less_eq_timestamp_def less_timestamp_def

definition ZERO :: timestamp where "ZERO = Timestamp 0"

definition from_nanos :: "u64 \<Rightarrow> timestamp" where "from_nanos n = Timestamp n"

definition from_secs :: "u64 \<Rightarrow> timestamp" where
  "from_secs s = Timestamp (saturating_mul s 1000000000)"

definition as_secs :: "timestamp \<Rightarrow> u64" where
  "as_secs t = as_nanos t div 1000000000"

definition nanos_of_secs :: "u64 \<Rightarrow> nat" where
  "nanos_of_secs s = unat s * 1000000000"

definition after :: "timestamp \<Rightarrow> nat \<Rightarrow> timestamp" where
  "after t d = Timestamp (saturating_add (as_nanos t) (if d < 2 ^ 64 then of_nat d else -1))"

definition until :: "timestamp \<Rightarrow> timestamp \<Rightarrow> nat" where
  "until t later = unat (saturating_sub (as_nanos later) (as_nanos t))"

lemma until_nanos: "until t later = unat (as_nanos later) - unat (as_nanos t)"
  by (simp add: until_def unat_saturating_sub)

lemma unat_after: "unat (as_nanos (after t d)) = min (unat (as_nanos t) + d) (2 ^ 64 - 1)"
proof -
  have "unat (as_nanos t) < 2 ^ 64" using unsigned_less [of "as_nanos t", where ?'a = nat] by simp
  then show ?thesis
    by (auto simp: after_def unat_saturating_add unat_of_nat take_bit_nat_eq_self_iff unat_max_word)
qed

lemma after_ge: "t \<le> after t d"
  by (simp add: timestamp_order after_def le_saturating_add)

lemma until_pos: "0 < until t later \<longleftrightarrow> t < later"
  by (simp add: until_nanos timestamp_order word_less_nat_alt)

section \<open>Bindings\<close>

record source_addr =
  sa_transport :: string
  sa_ip :: ip_addr
  sa_port :: u16

record push =
  pn_provider :: bytes
  pn_prid :: bytes
  pn_param :: "bytes option"

record binding =
  contact :: bytes
  bq :: u16
  call_id :: bytes
  cseq :: u32
  expires_at :: timestamp
  registered_at :: timestamp
  refreshed_at :: timestamp
  path :: "bytes list"
  received :: "source_addr option"
  instance_id :: "bytes option"
  reg_id :: "u32 option"
  flow_ref :: "bytes option"
  bpush :: "push option"
  principal :: "bytes option"

definition is_active :: "timestamp \<Rightarrow> binding \<Rightarrow> bool" where
  "is_active now b \<longleftrightarrow> expires_at b > now"

definition expires_in :: "binding \<Rightarrow> timestamp \<Rightarrow> nat" where
  "expires_in b now = until now (expires_at b)"

lemma expires_in_pos: "is_active now b \<longleftrightarrow> 0 < expires_in b now"
  by (simp add: is_active_def expires_in_def until_pos)

section \<open>Revisions\<close>

datatype revision = Revision (rev_number: u64)

instantiation revision :: linorder
begin

definition less_eq_revision :: "revision \<Rightarrow> revision \<Rightarrow> bool" where
  "less_eq_revision a b \<longleftrightarrow> rev_number a \<le> rev_number b"

definition less_revision :: "revision \<Rightarrow> revision \<Rightarrow> bool" where
  "less_revision a b \<longleftrightarrow> rev_number a < rev_number b"

instance
  by standard (auto simp: less_eq_revision_def less_revision_def revision.expand)

end

lemmas revision_order = less_eq_revision_def less_revision_def

definition INITIAL :: revision where "INITIAL = Revision 0"

text \<open>\<^verbatim>\<open>self.0 + 1\<close>, wrapping as a release build does.\<close>

definition next_revision :: "revision \<Rightarrow> revision" where
  "next_revision r = Revision (rev_number r + 1)"

lemma next_revision_gt: "rev_number r \<noteq> - 1 \<Longrightarrow> r < next_revision r"
proof -
  assume "rev_number r \<noteq> - 1"
  then have "rev_number r + 1 \<noteq> 0" by (metis add.commute add_eq_0_iff2)
  then have "unat (rev_number r + 1) = Suc (unat (rev_number r))"
    by (metis add.commute unatSuc)
  then show ?thesis by (simp add: next_revision_def revision_order word_less_nat_alt)
qed

lemma next_revision_neq: "next_revision r \<noteq> r"
  by (cases r) (simp add: next_revision_def)

section \<open>The set of one address-of-record\<close>

record binding_set =
  bindings :: "binding list"

definition set_new :: binding_set where "set_new = \<lparr>bindings = []\<rparr>"

definition active :: "binding_set \<Rightarrow> timestamp \<Rightarrow> binding list" where
  "active s now = filter (is_active now) (bindings s)"

definition active_count :: "binding_set \<Rightarrow> timestamp \<Rightarrow> nat" where
  "active_count s now = length (active s now)"

text \<open>The derived order on \<^verbatim>\<open>(registered_at, &contact)\<close>.\<close>

definition created_le :: "binding \<Rightarrow> binding \<Rightarrow> bool" where
  "created_le a b \<longleftrightarrow>
    registered_at a < registered_at b \<or> registered_at a = registered_at b \<and> contact a \<le> contact b"

text \<open>\<^verbatim>\<open>slice::partition_point\<close> as the standard library computes it: a binary search,
  which is the length of the satisfying prefix on a partitioned slice.\<close>

fun bisect :: "(nat \<Rightarrow> bool) \<Rightarrow> nat \<Rightarrow> nat \<Rightarrow> nat" where
  "bisect p base n =
    (if n \<le> 1 then (if p base then base + 1 else base)
     else
       let half = n div 2; mid = base + half
       in bisect p (if p mid then mid else base) (n - half))"

declare bisect.simps [simp del]

definition partition_point :: "('a \<Rightarrow> bool) \<Rightarrow> 'a list \<Rightarrow> nat" where
  "partition_point p xs = (if xs = [] then 0 else bisect (\<lambda>i. p (xs ! i)) 0 (length xs))"

definition insert_at :: "binding_set \<Rightarrow> binding \<Rightarrow> nat \<times> binding_set" where
  "insert_at s b =
    (let position = partition_point (\<lambda>existing. created_le existing b) (bindings s)
     in (position, s\<lparr>bindings := insert_nth position b (bindings s)\<rparr>))"

definition set_insert :: "binding_set \<Rightarrow> binding \<Rightarrow> binding_set" where
  "set_insert s b = snd (insert_at s b)"

definition set_replace :: "binding_set \<Rightarrow> nat \<Rightarrow> binding \<Rightarrow> binding_set" where
  "set_replace s i b = (if i < length (bindings s) then s\<lparr>bindings := (bindings s)[i := b]\<rparr> else s)"

definition set_remove :: "binding_set \<Rightarrow> nat \<Rightarrow> binding_set" where
  "set_remove s i = (if i < length (bindings s) then s\<lparr>bindings := remove_nth i (bindings s)\<rparr> else s)"

definition drop_expired :: "binding_set \<Rightarrow> timestamp \<Rightarrow> binding_set" where
  "drop_expired s now = s\<lparr>bindings := filter (is_active now) (bindings s)\<rparr>"

named_theorems binding_set_simps \<open>what the operations do to the stored list\<close>

lemma bindings_ops [binding_set_simps]:
  "bindings set_new = []"
  "bindings (set_replace s i b) = (bindings s)[i := b]"
  "bindings (drop_expired s now) = filter (is_active now) (bindings s)"
  "i < length (bindings s) \<Longrightarrow> bindings (set_remove s i) = remove_nth i (bindings s)"
  "bindings (snd (insert_at s b)) = insert_nth (fst (insert_at s b)) b (bindings s)"
  by (simp_all add: set_new_def set_replace_def drop_expired_def set_remove_def insert_at_def Let_def
      list_update_beyond)

lemma binding_set_eqI: "bindings s = bindings t \<Longrightarrow> s = t" for s t :: binding_set
  by simp

section \<open>Binary search\<close>

lemma bisect_one: "bisect p base (Suc 0) = (if p base then Suc base else base)"
  by (subst bisect.simps) simp

lemma bisect_step:
  "\<not> n \<le> 1 \<Longrightarrow> bisect p base n = bisect p (if p (base + n div 2) then base + n div 2 else base) (n - n div 2)"
  by (subst bisect.simps) (simp add: Let_def)

lemma bisect_bounds: "n \<ge> 1 \<Longrightarrow> base \<le> bisect p base n \<and> bisect p base n \<le> base + n"
proof (induction p base n rule: bisect.induct)
  case (1 p base n)
  show ?case
  proof (cases "n \<le> 1")
    case False
    let ?mid = "base + n div 2" let ?b = "if p ?mid then ?mid else base"
    have "1 \<le> n - n div 2" using False by simp
    from "1.IH" [OF False refl refl this]
    have "?b \<le> bisect p ?b (n - n div 2) \<and> bisect p ?b (n - n div 2) \<le> ?b + (n - n div 2)" .
    moreover have "base \<le> ?b" "?b + (n - n div 2) \<le> base + n" by auto
    ultimately show ?thesis unfolding bisect_step [OF False] by (meson le_trans)
  next
    case True
    with 1 have "n = Suc 0" by simp
    then show ?thesis by (simp add: bisect_one)
  qed
qed

lemma partition_point_le: "partition_point p xs \<le> length xs"
proof (cases "xs = []")
  case False
  then have "1 \<le> length xs" by (cases xs) simp_all
  then show ?thesis using False bisect_bounds [of "length xs" 0] by (simp add: partition_point_def)
qed (simp add: partition_point_def)

text \<open>Everything below the result satisfies the predicate and nothing from it on does, where the
  predicate holds on an initial segment.\<close>

definition boundary :: "(nat \<Rightarrow> bool) \<Rightarrow> nat \<Rightarrow> nat \<Rightarrow> bool" where
  "boundary p len k \<longleftrightarrow> (\<forall>i < k. p i) \<and> (\<forall>i. k \<le> i \<longrightarrow> i < len \<longrightarrow> \<not> p i)"

lemma bisect_boundary:
  assumes mono: "\<And>i j. i \<le> j \<Longrightarrow> j < len \<Longrightarrow> p j \<Longrightarrow> p i"
  shows "n \<ge> 1 \<Longrightarrow> base + n \<le> len \<Longrightarrow> (\<And>i. i < base \<Longrightarrow> p i)
    \<Longrightarrow> (\<And>i. base + n \<le> i \<Longrightarrow> i < len \<Longrightarrow> \<not> p i) \<Longrightarrow> boundary p len (bisect p base n)"
proof (induction n arbitrary: base rule: less_induct)
  case (less n)
  show ?case
  proof (cases "n \<le> 1")
    case True
    then have n: "n = Suc 0" using less.prems(1) by simp
    show ?thesis
    proof (cases "p base")
      case True
      with n less.prems(3,4) show ?thesis
        by (simp add: bisect_one boundary_def less_Suc_eq)
    next
      case False
      then have "\<not> p i" if "base \<le> i" "i < len" for i using mono that by blast
      with False n less.prems(3) show ?thesis by (simp add: bisect_one boundary_def)
    qed
  next
    case False
    let ?half = "n div 2" let ?mid = "base + n div 2"
    have half: "1 \<le> ?half" "?half < n" "n - ?half < n" "1 \<le> n - ?half" using False by auto
    have mid: "?mid < len" using half less.prems(2) by linarith
    show ?thesis
    proof (cases "p ?mid")
      case True
      have "boundary p len (bisect p ?mid (n - ?half))"
      proof (rule less.IH)
        show "p i" if "i < ?mid" for i using mono [of i ?mid] that mid True by simp
        show "\<not> p i" if "?mid + (n - ?half) \<le> i" "i < len" for i using less.prems(4) that half by simp
      qed (use half less.prems(2) in simp_all)
      with True show ?thesis by (simp add: bisect_step [OF False])
    next
      case F: False
      have "boundary p len (bisect p base (n - ?half))"
      proof (rule less.IH)
        show "\<not> p i" if "base + (n - ?half) \<le> i" "i < len" for i
        proof
          assume "p i"
          moreover have "?mid \<le> i" using that half by linarith
          ultimately show False using mono that F by blast
        qed
      qed (use half less.prems(2,3) in simp_all)
      with F show ?thesis by (simp add: bisect_step [OF False])
    qed
  qed
qed

lemma partition_point_partitioned:
  assumes mono: "\<And>i j. i \<le> j \<Longrightarrow> j < length xs \<Longrightarrow> p (xs ! j) \<Longrightarrow> p (xs ! i)"
  shows "boundary (\<lambda>i. p (xs ! i)) (length xs) (partition_point p xs)"
proof (cases "xs = []")
  case False
  then have "1 \<le> length xs" by (simp add: Suc_le_eq)
  then have "boundary (\<lambda>i. p (xs ! i)) (length xs) (bisect (\<lambda>i. p (xs ! i)) 0 (length xs))"
    by (intro bisect_boundary) (auto intro: mono)
  with False show ?thesis by (simp add: partition_point_def)
qed (simp add: partition_point_def boundary_def)

lemma boundary_take_drop:
  assumes "boundary (\<lambda>i. p (xs ! i)) (length xs) k" "k \<le> length xs"
  shows "\<forall>x \<in> set (take k xs). p x" "\<forall>x \<in> set (drop k xs). \<not> p x"
proof -
  have b: "\<And>i. i < k \<Longrightarrow> p (xs ! i)" "\<And>i. k \<le> i \<Longrightarrow> i < length xs \<Longrightarrow> \<not> p (xs ! i)"
    using assms(1) by (simp_all add: boundary_def)
  show "\<forall>x \<in> set (take k xs). p x" using b(1) assms(2) by (simp add: all_set_conv_all_nth)
  show "\<forall>x \<in> set (drop k xs). \<not> p x" using b(2) assms(2) by (simp add: all_set_conv_all_nth)
qed

section \<open>Creation order\<close>

definition in_creation_order :: "binding_set \<Rightarrow> bool" where
  "in_creation_order s \<longleftrightarrow> sorted_wrt created_le (bindings s)"

lemma created_le_trans: "created_le a b \<Longrightarrow> created_le b c \<Longrightarrow> created_le a c"
  by (auto simp: created_le_def)

lemma created_le_total: "created_le a b \<or> created_le b a"
  by (auto simp: created_le_def)

lemma insert_at_position: "fst (insert_at s b) \<le> length (bindings s)"
  by (simp add: insert_at_def Let_def partition_point_le)

lemma sorted_wrt_insert_nth:
  assumes "sorted_wrt R xs" "\<forall>y \<in> set (take i xs). R y x" "\<forall>y \<in> set (drop i xs). R x y"
  shows "sorted_wrt R (insert_nth i x xs)"
proof -
  have "sorted_wrt R (take i xs @ drop i xs)" using assms(1) by simp
  then show ?thesis using assms(2,3) unfolding insert_nth_def sorted_wrt_append by auto
qed

lemma sorted_wrt_remove_nth: "sorted_wrt R xs \<Longrightarrow> sorted_wrt R (remove_nth i xs)"
proof -
  assume a: "sorted_wrt R xs"
  have "sorted_wrt R (take i xs @ drop i xs)" using a by simp
  moreover have "set (drop (Suc i) xs) \<subseteq> set (drop i xs)" by (rule set_drop_subset_set_drop) simp
  ultimately show ?thesis
    unfolding remove_nth_def sorted_wrt_append using a by (auto simp: sorted_wrt_drop)
qed

lemma insert_at_created:
  assumes "in_creation_order s"
  shows "in_creation_order (snd (insert_at s b))"
    and "\<forall>x \<in> set (take (fst (insert_at s b)) (bindings s)). created_le x b"
    and "\<forall>x \<in> set (drop (fst (insert_at s b)) (bindings s)). \<not> created_le x b"
proof -
  let ?xs = "bindings s" let ?k = "partition_point (\<lambda>x. created_le x b) ?xs"
  have sorted: "sorted_wrt created_le ?xs" using assms by (simp add: in_creation_order_def)
  have "boundary (\<lambda>i. created_le (?xs ! i) b) (length ?xs) ?k"
  proof (rule partition_point_partitioned)
    fix i j assume ij: "i \<le> j" "j < length ?xs" and j: "created_le (?xs ! j) b"
    show "created_le (?xs ! i) b"
    proof (cases "i = j")
      case False
      with ij sorted have "created_le (?xs ! i) (?xs ! j)" by (simp add: sorted_wrt_nth_less)
      with j show ?thesis by (rule created_le_trans [rotated])
    qed (use j in simp)
  qed
  note cut = boundary_take_drop [where p = "\<lambda>x. created_le x b", OF this partition_point_le]
  have at: "fst (insert_at s b) = ?k" by (simp add: insert_at_def Let_def)
  show "\<forall>x \<in> set (take (fst (insert_at s b)) ?xs). created_le x b"
    "\<forall>x \<in> set (drop (fst (insert_at s b)) ?xs). \<not> created_le x b"
    unfolding at by (rule cut)+
  have "\<forall>x \<in> set (drop ?k ?xs). created_le b x" using cut(2) created_le_total by blast
  then show "in_creation_order (snd (insert_at s b))"
    unfolding in_creation_order_def bindings_ops(5) at by (rule sorted_wrt_insert_nth [OF sorted cut(1)])
qed

lemma in_creation_order_ops [intro]:
  "in_creation_order set_new"
  "in_creation_order s \<Longrightarrow> in_creation_order (set_remove s i)"
  "in_creation_order s \<Longrightarrow> in_creation_order (drop_expired s now)"
  "in_creation_order s \<Longrightarrow> in_creation_order (set_insert s b)"
  by (simp_all add: in_creation_order_def set_new_def set_remove_def drop_expired_def sorted_wrt_remove_nth
      sorted_wrt_filter set_insert_def insert_at_created(1) [unfolded in_creation_order_def])

text \<open>Replacing keeps the order where the new binding keeps the old one's place in it.\<close>

lemma set_replace_same_place:
  assumes "in_creation_order s" "i < length (bindings s)"
    "registered_at b = registered_at (bindings s ! i)" "contact b = contact (bindings s ! i)"
  shows "in_creation_order (set_replace s i b)"
proof -
  have "sorted_wrt created_le ((bindings s)[i := b])"
    using assms unfolding in_creation_order_def sorted_wrt_iff_nth_less
    by (auto simp: nth_list_update created_le_def)
  then show ?thesis using assms(2) by (simp add: in_creation_order_def set_replace_def)
qed

lemma active_insert: "active_count (snd (insert_at s b)) now =
    (if is_active now b then Suc (active_count s now) else active_count s now)"
proof -
  let ?k = "fst (insert_at s b)"
  have "active_count s now = length (filter (is_active now) (take ?k (bindings s) @ drop ?k (bindings s)))"
    by (simp add: active_count_def active_def)
  then show ?thesis
    unfolding active_count_def active_def binding_set_simps insert_nth_def filter_append by simp
qed

lemma drop_expired_active [simp]: "active (drop_expired s now) now = active s now"
  by (simp add: active_def drop_expired_def)

lemma drop_expired_idem [simp]: "drop_expired (drop_expired s now) now = drop_expired s now"
  by (simp add: drop_expired_def)

end
