(* ===== verification/Command.thy ===== *)
theory Command imports Prelude Aor Binding begin

text \<open>
  \<^verbatim>\<open>crates/sipx-clstr-registrar/src/command.rs\<close> and
  \<^verbatim>\<open>crates/sipx-clstr-registrar/src/lookup.rs\<close>: the REGISTER command, the tenant policy it
  is judged against, the outcome with its status, the facts of a 200, and the forking order of a
  binding set.  The lemmas show what a 200 describes and that the forking order does not depend on
  the order the bindings are stored in.
\<close>

section \<open>Commands\<close>

record 'u contact_op =
  op_uri :: 'u
  op_verbatim :: bytes
  op_expires :: "u32 option"
  op_q :: "u16 option"
  op_instance_id :: "bytes option"
  op_reg_id :: "u32 option"
  op_push :: "push option"

datatype 'u contact_ops = Explicit "'u contact_op list" | Wildcard

record 'u register_command =
  rc_tenant :: string
  rc_aor :: canonical_aor
  rc_call_id :: bytes
  rc_cseq :: u32
  rc_contacts :: "'u contact_ops"
  rc_expires_header :: "u32 option"
  rc_path :: "bytes list"
  rc_supports_path :: bool
  rc_require :: "string list"
  rc_received :: "source_addr option"
  rc_flow_ref :: "bytes option"
  rc_principal :: "bytes option"
  rc_now :: timestamp

record tenant_policy =
  default_expires :: u32
  min_expires :: u32
  max_expires :: u32
  max_bindings_per_aor :: nat
  max_contact_ops :: nat

definition default_policy :: tenant_policy where
  "default_policy = \<lparr>default_expires = 3600, min_expires = 60, max_expires = 86400,
     max_bindings_per_aor = 10, max_contact_ops = 64\<rparr>"

section \<open>Outcomes\<close>

record contact_value =
  cv_contact :: bytes
  cv_expires :: u32
  cv_q :: u16

record accepted =
  acc_contacts :: "contact_value list"
  acc_path :: "bytes list"

definition accepted_default :: accepted where
  "accepted_default = \<lparr>acc_contacts = [], acc_path = []\<rparr>"

datatype rejection =
    NotFound
  | BadRequest string
  | Forbidden string
  | BadExtension "string list"
  | IntervalTooBrief (too_brief_min: u32)
  | ExtensionRequired string
  | StaleSequence
  | Unavailable

fun rejection_status :: "rejection \<Rightarrow> nat" where
  "rejection_status NotFound = 404"
| "rejection_status (BadRequest _) = 400"
| "rejection_status (Forbidden _) = 403"
| "rejection_status (BadExtension _) = 420"
| "rejection_status (IntervalTooBrief _) = 423"
| "rejection_status (ExtensionRequired _) = 421"
| "rejection_status StaleSequence = 500"
| "rejection_status Unavailable = 503"

datatype outcome = Commit binding_set accepted | Noop accepted | Reject rejection

fun outcome_status :: "outcome \<Rightarrow> nat" where
  "outcome_status (Commit _ _) = 200"
| "outcome_status (Noop _) = 200"
| "outcome_status (Reject r) = rejection_status r"

fun commits :: "outcome \<Rightarrow> bool" where
  "commits (Commit _ _) = True"
| "commits _ = False"

fun outcome_accepted :: "outcome \<Rightarrow> accepted option" where
  "outcome_accepted (Commit _ r) = Some r"
| "outcome_accepted (Noop r) = Some r"
| "outcome_accepted (Reject _) = None"

section \<open>Building bindings and describing sets\<close>

definition seconds_of :: "nat \<Rightarrow> u32" where
  "seconds_of duration =
    (let secs = duration div 1000000000;
         rounded = (if duration mod 1000000000 > 0 then min (secs + 1) (2 ^ 64 - 1) else secs)
     in if rounded < 2 ^ 32 then of_nat rounded else -1)"

definition describe_one :: "timestamp \<Rightarrow> binding \<Rightarrow> contact_value" where
  "describe_one now b =
    \<lparr>cv_contact = contact b, cv_expires = seconds_of (expires_in b now), cv_q = bq b\<rparr>"

definition describe :: "binding_set \<Rightarrow> timestamp \<Rightarrow> accepted" where
  "describe s now =
    \<lparr>acc_contacts = map (describe_one now) (active s now),
     acc_path = (case active s now of [] \<Rightarrow> [] | b # _ \<Rightarrow> path b)\<rparr>"

definition binding_for ::
  "'u contact_op \<Rightarrow> 'u register_command \<Rightarrow> u32 \<Rightarrow> timestamp \<Rightarrow> binding" where
  "binding_for op cmd granted created =
    \<lparr>contact = op_verbatim op,
     bq = (case op_q op of None \<Rightarrow> 1000 | Some q \<Rightarrow> q),
     call_id = rc_call_id cmd,
     cseq = rc_cseq cmd,
     expires_at = after (rc_now cmd) (nanos_of_secs (ucast granted)),
     registered_at = created,
     refreshed_at = rc_now cmd,
     path = rc_path cmd,
     received = rc_received cmd,
     instance_id = op_instance_id op,
     reg_id = op_reg_id op,
     flow_ref = rc_flow_ref cmd,
     bpush = op_push op,
     principal = rc_principal cmd\<rparr>"

lemma seconds_of_pos: "0 < d \<Longrightarrow> 0 < seconds_of d"
proof -
  assume d: "0 < d"
  let ?r = "if d mod 1000000000 > 0 then min (d div 1000000000 + 1) (2 ^ 64 - 1) else d div 1000000000"
  have "d = d div 1000000000 * 1000000000 + d mod 1000000000" by simp
  then have "0 < ?r" using d by auto
  moreover from this have "0 < (of_nat ?r :: u32)" if "?r < 2 ^ 32"
    using that by (simp add: word_less_nat_alt unat_of_nat take_bit_nat_eq_self)
  ultimately show ?thesis
    unfolding seconds_of_def Let_def by (auto simp: word_less_nat_alt unat_max_word)
qed

lemma describe_drop_expired [simp]: "describe (drop_expired s now) now = describe s now"
  by (simp add: describe_def)

section \<open>The forking order\<close>

record target =
  tg_contact :: bytes
  tg_route_set :: "bytes list"
  tg_flow_ref :: "bytes option"
  tg_q :: u16
  tg_expires_in :: nat

definition forks_before :: "binding \<Rightarrow> binding \<Rightarrow> bool" where
  "forks_before a b \<longleftrightarrow>
    bq b < bq a \<or> bq b = bq a \<and>
      (refreshed_at b < refreshed_at a \<or> refreshed_at b = refreshed_at a \<and> contact a \<le> contact b)"

definition target_of :: "timestamp \<Rightarrow> binding \<Rightarrow> target" where
  "target_of now b =
    \<lparr>tg_contact = contact b, tg_route_set = path b, tg_flow_ref = flow_ref b, tg_q = bq b,
     tg_expires_in = expires_in b now\<rparr>"

definition order_targets :: "binding_set \<Rightarrow> timestamp \<Rightarrow> target list" where
  "order_targets s now = map (target_of now) (sort_by forks_before (active s now))"

lemma forks_before_trans: "forks_before a b \<Longrightarrow> forks_before b c \<Longrightarrow> forks_before a c"
  by (auto simp: forks_before_def)

lemma forks_before_total: "forks_before a b \<or> forks_before b a"
  by (auto simp: forks_before_def)

lemma forks_before_antisym:
  "forks_before a b \<Longrightarrow> forks_before b a \<Longrightarrow> bq a = bq b \<and> refreshed_at a = refreshed_at b \<and> contact a = contact b"
  by (auto simp: forks_before_def)

lemma sorted_by_forks_before: "sorted_wrt forks_before (sort_by forks_before xs)"
  using forks_before_trans forks_before_total by (rule sorted_sort_by)

section \<open>Properties\<close>

text \<open>Every node computes the same forking order: it lists exactly the bindings that still
  exist, each once, in descending preference, then most recent refresh, then contact bytes; and,
  where no two active bindings store the same contact bytes, it is the same for any two sets holding
  the same bindings in any stored order.\<close>

theorem order_targets_deterministic:
  assumes "distinct (map contact (active s now))" and "mset (active t now) = mset (active s now)"
  shows "order_targets t now = order_targets s now
    \<and> (\<exists>bs. order_targets s now = map (target_of now) bs \<and> mset bs = mset (active s now)
        \<and> sorted_wrt forks_before bs)
    \<and> (\<forall>g \<in> set (order_targets s now). 0 < tg_expires_in g)"
proof -
  let ?bs = "sort_by forks_before (active s now)" let ?cs = "sort_by forks_before (active t now)"
  have "?cs = ?bs"
  proof (rule sorted_mset_unique [where le = forks_before])
    show "mset ?cs = mset ?bs" using assms(2) by simp
    fix a b assume ab: "a \<in> set ?cs" "b \<in> set ?cs" "forks_before a b" "forks_before b a"
    have "set (active t now) = set (active s now)" using assms(2) by (rule mset_eq_setD)
    moreover have "contact a = contact b" using forks_before_antisym ab by blast
    ultimately show "a = b" using ab(1,2) assms(1) by (auto dest: inj_onD simp: distinct_map)
  qed (rule sorted_by_forks_before)+
  then have "order_targets t now = order_targets s now" by (simp add: order_targets_def)
  moreover have "0 < tg_expires_in g" if "g \<in> set (order_targets s now)" for g
    using that by (auto simp: order_targets_def target_of_def active_def expires_in_pos [symmetric])
  ultimately show ?thesis
    using sorted_by_forks_before mset_sort_by unfolding order_targets_def by blast
qed

definition sample_binding :: "bytes \<Rightarrow> u16 \<Rightarrow> binding" where
  "sample_binding c q = \<lparr>contact = c, bq = q, call_id = ''i1'', cseq = 1, expires_at = Timestamp 100,
     registered_at = Timestamp 0, refreshed_at = Timestamp 0, path = [], received = None,
     instance_id = None, reg_id = None, flow_ref = None, bpush = None, principal = None\<rparr>"

theorem order_targets_deterministic_witness:
  "order_targets \<lparr>bindings = [sample_binding ''sip:a'' 500, sample_binding ''sip:b'' 1000]\<rparr> (Timestamp 5)
    = order_targets \<lparr>bindings = [sample_binding ''sip:b'' 1000, sample_binding ''sip:a'' 500]\<rparr> (Timestamp 5)"
  by (rule order_targets_deterministic [THEN conjunct1])
    (simp_all add: active_def is_active_def sample_binding_def timestamp_order)

end
