(* ===== verification/Register.thy ===== *)
theory Register imports Prelude Command begin

text \<open>
  \<^verbatim>\<open>crates/sipx-clstr-registrar/src/process.rs\<close>: the REGISTER decision function, with the
  reconciliation loop over the set and its parsed view kept as the code keeps them.  The lemmas show
  that the view never drifts from the set, where every committed binding comes from, that a spent
  ordering token changes nothing, what each response describes, and that a retransmission writes
  nothing.
\<close>

section \<open>The set under reconciliation\<close>

record 'u slot =
  slot_name :: nat
  slot_uri :: "'u option"
  slot_written :: bool

record pending =
  pd_slot :: nat
  pd_stored :: binding
  pd_net :: u32

record 'u reconciling =
  rv_set :: binding_set
  rv_slots :: "'u slot list"
  rv_next_id :: nat

definition view_new :: "('u, 'x) uri_kernel_scheme \<Rightarrow> binding_set \<Rightarrow> 'u reconciling" where
  "view_new K s =
    (let slots = map (\<lambda>(index, b). \<lparr>slot_name = index, slot_uri = uri_parse K (contact b), slot_written = False\<rparr>)
          (enumerate 0 (bindings s))
     in \<lparr>rv_set = s, rv_slots = slots, rv_next_id = length slots\<rparr>)"

definition view_find :: "('u, 'x) uri_kernel_scheme \<Rightarrow> 'u reconciling \<Rightarrow> 'u \<Rightarrow> nat option" where
  "view_find K v uri =
    position (\<lambda>s. case slot_uri s of None \<Rightarrow> False | Some stored \<Rightarrow> equivalent K stored uri) (rv_slots v)"

definition view_get :: "'u reconciling \<Rightarrow> nat \<Rightarrow> binding option" where
  "view_get v index = get_at (bindings (rv_set v)) index"

definition view_written_here :: "'u reconciling \<Rightarrow> nat \<Rightarrow> bool" where
  "view_written_here v index = (case get_at (rv_slots v) index of None \<Rightarrow> False | Some s \<Rightarrow> slot_written s)"

definition view_slot_id :: "'u reconciling \<Rightarrow> nat \<Rightarrow> nat option" where
  "view_slot_id v index = map_option slot_name (get_at (rv_slots v) index)"

definition view_insert :: "'u reconciling \<Rightarrow> binding \<Rightarrow> 'u \<Rightarrow> 'u reconciling" where
  "view_insert v b uri =
    (case insert_at (rv_set v) b of (at, s) \<Rightarrow>
      let at = min at (length (rv_slots v))
      in v\<lparr>rv_set := s, rv_next_id := rv_next_id v + 1,
           rv_slots := insert_nth at \<lparr>slot_name = rv_next_id v, slot_uri = Some uri, slot_written = True\<rparr>
             (rv_slots v)\<rparr>)"

definition view_replace :: "'u reconciling \<Rightarrow> nat \<Rightarrow> binding \<Rightarrow> 'u \<Rightarrow> 'u reconciling" where
  "view_replace v index b uri =
    (case get_at (rv_slots v) index of
       None \<Rightarrow> v
     | Some s \<Rightarrow> v\<lparr>rv_slots := (rv_slots v)[index := s\<lparr>slot_uri := Some uri, slot_written := True\<rparr>],
                   rv_set := set_replace (rv_set v) index b\<rparr>)"

definition view_remove :: "'u reconciling \<Rightarrow> nat \<Rightarrow> 'u reconciling" where
  "view_remove v index =
    (if index < length (rv_slots v)
     then v\<lparr>rv_slots := remove_nth index (rv_slots v), rv_set := set_remove (rv_set v) index\<rparr>
     else v)"

section \<open>The decision\<close>

definition SUPPORTED :: "string list" where "SUPPORTED = [''path'']"

definition already_holds :: "binding \<Rightarrow> 'u register_command \<Rightarrow> u32 \<Rightarrow> bool" where
  "already_holds stored cmd granted \<longleftrightarrow>
    granted \<noteq> 0 \<and> until (refreshed_at stored) (expires_at stored) = nanos_of_secs (ucast granted)
    \<and> path stored = rc_path cmd"

definition requested_expiry :: "'u register_command \<Rightarrow> tenant_policy \<Rightarrow> 'u contact_op \<Rightarrow> u32" where
  "requested_expiry cmd policy op =
    (case op_expires op of Some e \<Rightarrow> e
     | None \<Rightarrow> (case rc_expires_header cmd of Some e \<Rightarrow> e | None \<Rightarrow> default_expires policy))"

fun granted_expiries ::
  "'u register_command \<Rightarrow> tenant_policy \<Rightarrow> 'u contact_op list \<Rightarrow> rejection + u32 list" where
  "granted_expiries cmd policy [] = Inr []"
| "granted_expiries cmd policy (op # ops) =
    (let requested = requested_expiry cmd policy op in
     if requested = 0 then map_sum id ((#) 0) (granted_expiries cmd policy ops)
     else if requested < min_expires policy then Inl (IntervalTooBrief (min_expires policy))
     else map_sum id ((#) (min requested (max_expires policy))) (granted_expiries cmd policy ops))"

text \<open>One turn of the loop over the operations: the state is the view, whether an operation changed
  it, and the deferred decisions.\<close>

type_synonym 'u loop_state = "'u reconciling \<times> bool \<times> pending list"

definition supersede :: "nat \<Rightarrow> u32 \<Rightarrow> pending list \<Rightarrow> pending list" where
  "supersede slot granted = map (\<lambda>d. if pd_slot d = slot then d\<lparr>pd_net := granted\<rparr> else d)"

definition apply_op ::
  "'u register_command \<Rightarrow> 'u contact_op \<Rightarrow> u32 \<Rightarrow> nat \<Rightarrow> binding \<Rightarrow> 'u reconciling \<Rightarrow> 'u reconciling" where
  "apply_op cmd op granted index stored view =
    (if granted = 0 then view_remove view index
     else view_replace view index (binding_for op cmd granted (registered_at stored)) (op_uri op))"

definition reconcile_step ::
  "('u, 'x) uri_kernel_scheme \<Rightarrow> 'u register_command \<Rightarrow> 'u contact_op \<Rightarrow> u32 \<Rightarrow> 'u loop_state
    \<Rightarrow> rejection + 'u loop_state" where
  "reconcile_step K cmd op granted st = (case st of (view, changed, pending) \<Rightarrow>
    (case view_find K view (op_uri op) of
       None \<Rightarrow>
        (if granted = 0 then Inr (view, changed, pending)
         else Inr (view_insert view (binding_for op cmd granted (rc_now cmd)) (op_uri op), True, pending))
     | Some index \<Rightarrow>
        (case view_slot_id view index of None \<Rightarrow> Inr (view, changed, pending) | Some slot \<Rightarrow>
        (case view_get view index of None \<Rightarrow> Inr (view, changed, pending) | Some stored \<Rightarrow>
          let pending = supersede slot granted pending in
          if \<not> view_written_here view index \<and> call_id stored = rc_call_id cmd then
            if rc_cseq cmd < cseq stored then Inl StaleSequence
            else if rc_cseq cmd = cseq stored then
              (if already_holds stored cmd granted then Inr (view, changed, pending)
               else Inr (view, changed, pending @ [\<lparr>pd_slot = slot, pd_stored = stored, pd_net = granted\<rparr>]))
            else Inr (apply_op cmd op granted index stored view, True, pending)
          else Inr (apply_op cmd op granted index stored view, True, pending)))))"

fun reconcile ::
  "('u, 'x) uri_kernel_scheme \<Rightarrow> 'u register_command \<Rightarrow> ('u contact_op \<times> u32) list \<Rightarrow> 'u loop_state
    \<Rightarrow> rejection + 'u loop_state" where
  "reconcile K cmd [] st = Inr st"
| "reconcile K cmd ((op, granted) # rest) st =
    and_then (reconcile_step K cmd op granted st) (reconcile K cmd rest)"

definition explicit ::
  "('u, 'x) uri_kernel_scheme \<Rightarrow> 'u register_command \<Rightarrow> binding_set \<Rightarrow> tenant_policy
    \<Rightarrow> 'u contact_op list \<Rightarrow> outcome" where
  "explicit K cmd current policy ops =
    (if ops = [] then Noop (describe current (rc_now cmd))
     else case granted_expiries cmd policy ops of
       Inl rejection \<Rightarrow> Reject rejection
     | Inr grants \<Rightarrow>
        let s = drop_expired current (rc_now cmd);
            reaped = (length (bindings s) \<noteq> length (bindings current))
        in case reconcile K cmd (zip ops grants) (view_new K s, False, []) of
             Inl rejection \<Rightarrow> Reject rejection
           | Inr (view, changed, pending) \<Rightarrow>
              if list_ex (\<lambda>d. \<not> already_holds (pd_stored d) cmd (pd_net d)) pending
              then Reject StaleSequence
              else
                let s = rv_set view in
                if active_count s (rc_now cmd) > max_bindings_per_aor policy
                then Reject (Forbidden ''the address-of-record already holds its maximum bindings'')
                else
                  let response = describe s (rc_now cmd) in
                  if changed \<and> (reaped \<or> s \<noteq> current) then Commit s response else Noop response)"

definition wildcard :: "'u register_command \<Rightarrow> binding_set \<Rightarrow> outcome" where
  "wildcard cmd current =
    (if rc_expires_header cmd \<noteq> Some 0
     then Reject (BadRequest ''a wildcard Contact requires an explicit Expires: 0'')
     else
       let s = drop_expired current (rc_now cmd) in
       if list_ex (\<lambda>b. call_id b = rc_call_id cmd \<and> rc_cseq cmd \<le> cseq b) (bindings s)
       then Reject StaleSequence
       else if bindings s = [] then Noop accepted_default
       else Commit set_new accepted_default)"

definition process ::
  "('u, 'x) uri_kernel_scheme \<Rightarrow> 'u register_command \<Rightarrow> binding_set \<Rightarrow> tenant_policy \<Rightarrow> outcome" where
  "process K cmd current policy =
    (let unsupported = filter (\<lambda>tag. \<not> map ascii_lower tag \<in> set SUPPORTED) (rc_require cmd) in
     if unsupported \<noteq> [] then Reject (BadExtension unsupported)
     else if rc_path cmd \<noteq> [] \<and> \<not> rc_supports_path cmd then Reject (ExtensionRequired ''path'')
     else case rc_contacts cmd of
       Explicit ops \<Rightarrow>
        (if length ops > max_contact_ops policy
         then Reject (Forbidden ''the REGISTER carries more contact operations than this tenant permits'')
         else explicit K cmd current policy ops)
     | Wildcard \<Rightarrow> wildcard cmd current)"

definition is_empty_at :: "binding_set \<Rightarrow> timestamp \<Rightarrow> bool" where
  "is_empty_at s now \<longleftrightarrow> active_count s now = 0"

section \<open>Both halves of the view move together\<close>

lemma zip_insert_nth:
  "length xs = length ys \<Longrightarrow> zip (insert_nth i x xs) (insert_nth i y ys) = insert_nth i (x, y) (zip xs ys)"
  by (simp add: insert_nth_def zip_append take_zip drop_zip)

lemma zip_remove_nth:
  "length xs = length ys \<Longrightarrow> zip (remove_nth i xs) (remove_nth i ys) = remove_nth i (zip xs ys)"
  by (simp add: remove_nth_def zip_append take_zip drop_zip)

definition aligned :: "'u reconciling \<Rightarrow> bool" where
  "aligned v \<longleftrightarrow> length (rv_slots v) = length (bindings (rv_set v))
    \<and> distinct (map slot_name (rv_slots v)) \<and> (\<forall>s \<in> set (rv_slots v). slot_name s < rv_next_id v)"

text \<open>The rows of a view: each binding with what is known of it.\<close>

definition rows :: "'u reconciling \<Rightarrow> (binding \<times> 'u slot) list" where
  "rows v = zip (bindings (rv_set v)) (rv_slots v)"

lemma rows_insert:
  assumes "aligned v"
  shows "rows (view_insert v b uri) = insert_nth (fst (insert_at (rv_set v) b))
    (b, \<lparr>slot_name = rv_next_id v, slot_uri = Some uri, slot_written = True\<rparr>) (rows v)"
proof -
  have "min (fst (insert_at (rv_set v) b)) (length (rv_slots v)) = fst (insert_at (rv_set v) b)"
    using assms insert_at_position [of "rv_set v" b] by (simp add: aligned_def)
  then show ?thesis
    using assms bindings_ops(5) [of "rv_set v" b]
    by (cases "insert_at (rv_set v) b")
      (simp add: rows_def view_insert_def Let_def aligned_def zip_insert_nth)
qed

lemma rows_replace:
  "aligned v \<Longrightarrow> index < length (rows v) \<Longrightarrow>
    rows (view_replace v index b uri) = (rows v)
      [index := (b, (snd (rows v ! index))\<lparr>slot_uri := Some uri, slot_written := True\<rparr>)]"
  by (simp add: rows_def view_replace_def aligned_def get_at_def binding_set_simps update_zip)

lemma rows_remove:
  "aligned v \<Longrightarrow> index < length (rows v) \<Longrightarrow> rows (view_remove v index) = remove_nth index (rows v)"
  by (simp add: rows_def view_remove_def aligned_def binding_set_simps zip_remove_nth)

lemma aligned_names:
  "aligned v \<longleftrightarrow> length (rv_slots v) = length (bindings (rv_set v))
    \<and> distinct (map slot_name (rv_slots v)) \<and> (\<forall>n \<in> set (map slot_name (rv_slots v)). n < rv_next_id v)"
  by (simp add: aligned_def)

lemma length_rows: "aligned v \<Longrightarrow> length (rows v) = length (rv_slots v)"
  by (simp add: rows_def aligned_def)

lemma nth_rows: "aligned v \<Longrightarrow> i < length (rv_slots v) \<Longrightarrow> rows v ! i = (bindings (rv_set v) ! i, rv_slots v ! i)"
  by (simp add: rows_def aligned_def)

lemma map_fst_rows: "aligned v \<Longrightarrow> map fst (rows v) = bindings (rv_set v)"
  by (simp add: rows_def aligned_def)

lemma map_snd_rows: "aligned v \<Longrightarrow> map snd (rows v) = rv_slots v"
  by (simp add: rows_def aligned_def)

lemma distinct_insert_nth: "distinct xs \<Longrightarrow> x \<notin> set xs \<Longrightarrow> distinct (insert_nth i x xs)"
proof -
  assume d: "distinct xs" "x \<notin> set xs"
  then have "set (take i xs) \<inter> set (drop i xs) = {}"
    by (intro set_take_disj_set_drop_if_distinct) simp_all
  with d show ?thesis by (auto simp: insert_nth_def dest: in_set_takeD in_set_dropD)
qed

lemma distinct_remove_nth: "distinct xs \<Longrightarrow> distinct (remove_nth i xs)"
proof -
  assume d: "distinct xs"
  then have "set (take i xs) \<inter> set (drop (Suc i) xs) = {}"
    by (intro set_take_disj_set_drop_if_distinct) simp_all
  with d show ?thesis by (simp add: remove_nth_def)
qed

lemma mem_remove_nth: "x \<in> set xs \<Longrightarrow> i < length xs \<Longrightarrow> x \<noteq> xs ! i \<Longrightarrow> x \<in> set (remove_nth i xs)"
proof -
  assume x: "x \<in> set xs" "i < length xs" "x \<noteq> xs ! i"
  have "xs = take i xs @ xs ! i # drop (Suc i) xs" using x(2) by (rule id_take_nth_drop)
  then have "set xs = set (take i xs @ xs ! i # drop (Suc i) xs)" by (rule arg_cong)
  with x show ?thesis by (auto simp: remove_nth_def)
qed

lemma mem_list_update: "x \<in> set xs \<Longrightarrow> i < length xs \<Longrightarrow> x \<noteq> xs ! i \<Longrightarrow> x \<in> set (xs[i := y])"
proof -
  assume x: "x \<in> set xs" "i < length xs" "x \<noteq> xs ! i"
  have "xs = take i xs @ xs ! i # drop (Suc i) xs" using x(2) by (rule id_take_nth_drop)
  then have "set xs = set (take i xs @ xs ! i # drop (Suc i) xs)" by (rule arg_cong)
  with x show ?thesis by (auto simp: upd_conv_take_nth_drop)
qed

lemma slot_names_new: "map slot_name (rv_slots (view_new K s)) = [0..<length (bindings s)]"
proof -
  have "map slot_name (rv_slots (view_new K s)) = map fst (enumerate 0 (bindings s))"
    by (simp add: view_new_def Let_def comp_def case_prod_unfold)
  then show ?thesis by (simp add: map_fst_enumerate)
qed

lemma aligned_new: "aligned (view_new K s)"
proof -
  have "slot_name r < length (bindings s)" if "r \<in> set (rv_slots (view_new K s))" for r
  proof -
    have "slot_name r \<in> set (map slot_name (rv_slots (view_new K s)))" using that by simp
    then show ?thesis unfolding slot_names_new by simp
  qed
  moreover have "length (rv_slots (view_new K s)) = length (bindings s)" "rv_next_id (view_new K s) = length (bindings s)"
    "rv_set (view_new K s) = s"
    by (simp_all add: view_new_def Let_def)
  ultimately show ?thesis by (simp add: aligned_def slot_names_new)
qed

lemma aligned_insert:
  assumes "aligned v"
  shows "aligned (view_insert v b uri)"
proof -
  obtain i where i: "map slot_name (rv_slots (view_insert v b uri)) = insert_nth i (rv_next_id v) (map slot_name (rv_slots v))"
    "rv_next_id (view_insert v b uri) = Suc (rv_next_id v)"
    by (cases "insert_at (rv_set v) b") (simp add: view_insert_def Let_def map_insert_nth)
  have "length (rv_slots (view_insert v b uri)) = length (bindings (rv_set (view_insert v b uri)))"
    using assms bindings_ops(5) [of "rv_set v" b]
    by (cases "insert_at (rv_set v) b") (simp add: view_insert_def aligned_def Let_def)
  moreover have "rv_next_id v \<notin> set (map slot_name (rv_slots v))"
    using assms unfolding aligned_names by blast
  ultimately show ?thesis
    using assms unfolding aligned_names i set_insert_nth
    by (blast intro: distinct_insert_nth less_SucI lessI)
qed

lemma aligned_replace:
  assumes "aligned v" "index < length (rows v)"
  shows "aligned (view_replace v index b uri)"
proof -
  have "map slot_name (rv_slots (view_replace v index b uri)) = map slot_name (rv_slots v)"
    by (cases "index < length (rv_slots v)")
      (auto simp: view_replace_def get_at_def nth_list_update intro!: nth_equalityI)
  moreover have "length (rv_slots (view_replace v index b uri)) = length (bindings (rv_set (view_replace v index b uri)))"
    "rv_next_id (view_replace v index b uri) = rv_next_id v"
    using assms by (simp_all add: view_replace_def aligned_def rows_def get_at_def binding_set_simps)
  ultimately show ?thesis using assms(1) unfolding aligned_names by simp
qed

lemma aligned_remove:
  assumes "aligned v" "index < length (rows v)"
  shows "aligned (view_remove v index)"
proof -
  have "map slot_name (rv_slots (view_remove v index)) = remove_nth index (map slot_name (rv_slots v))"
    "length (rv_slots (view_remove v index)) = length (bindings (rv_set (view_remove v index)))"
    "rv_next_id (view_remove v index) = rv_next_id v"
    using assms by (simp_all add: view_remove_def aligned_def rows_def binding_set_simps map_remove_nth)
  then show ?thesis
    using assms(1) set_remove_nth_subset [of index "map slot_name (rv_slots v)"]
    unfolding aligned_names by (metis distinct_remove_nth subsetD)
qed

lemmas aligned_ops = aligned_new aligned_insert aligned_replace aligned_remove

lemma aligned_apply_op: "aligned v \<Longrightarrow> index < length (rows v) \<Longrightarrow> aligned (apply_op cmd op g index stored v)"
  by (simp add: apply_op_def aligned_ops)

section \<open>One turn of the loop\<close>

lemma view_find_less: "aligned v \<Longrightarrow> view_find K v uri = Some i \<Longrightarrow> i < length (rows v)"
  by (auto simp: view_find_def length_rows dest: position_less)

lemma view_reads:
  assumes "aligned v" "i < length (rows v)"
  shows "view_slot_id v i = Some (slot_name (snd (rows v ! i)))" "view_get v i = Some (fst (rows v ! i))"
    "view_written_here v i = slot_written (snd (rows v ! i))"
  using assms by (simp_all add: view_slot_id_def view_get_def view_written_here_def get_at_def rows_def aligned_def)

text \<open>A matched row this command may write: written by it already, by another Call-ID, or under an
  older CSeq.\<close>

definition may_write :: "'u register_command \<Rightarrow> binding \<times> 'u slot \<Rightarrow> bool" where
  "may_write cmd r \<longleftrightarrow> slot_written (snd r) \<or> call_id (fst r) \<noteq> rc_call_id cmd \<or> cseq (fst r) < rc_cseq cmd"

lemma reconcile_step_cases [consumes 2, case_names Skip Insert Hold Defer Write]:
  assumes "aligned v" "reconcile_step K cmd op g (v, changed, pds) = Inr st"
  obtains "view_find K v (op_uri op) = None" "g = 0" "st = (v, changed, pds)"
  | "view_find K v (op_uri op) = None" "g \<noteq> 0"
    "st = (view_insert v (binding_for op cmd g (rc_now cmd)) (op_uri op), True, pds)"
  | i where "view_find K v (op_uri op) = Some i" "i < length (rows v)" "\<not> may_write cmd (rows v ! i)"
    "already_holds (fst (rows v ! i)) cmd g" "cseq (fst (rows v ! i)) = rc_cseq cmd"
    "st = (v, changed, supersede (slot_name (snd (rows v ! i))) g pds)"
  | i where "view_find K v (op_uri op) = Some i" "i < length (rows v)" "\<not> may_write cmd (rows v ! i)"
    "\<not> already_holds (fst (rows v ! i)) cmd g" "cseq (fst (rows v ! i)) = rc_cseq cmd"
    "st = (v, changed, supersede (slot_name (snd (rows v ! i))) g pds
      @ [\<lparr>pd_slot = slot_name (snd (rows v ! i)), pd_stored = fst (rows v ! i), pd_net = g\<rparr>])"
  | i where "view_find K v (op_uri op) = Some i" "i < length (rows v)" "may_write cmd (rows v ! i)"
    "st = (apply_op cmd op g i (fst (rows v ! i)) v, True, supersede (slot_name (snd (rows v ! i))) g pds)"
proof (cases "view_find K v (op_uri op)")
  case None
  with assms(2) that(1,2) show thesis by (auto simp: reconcile_step_def split: if_splits)
next
  case (Some i)
  note i = view_find_less [OF assms(1) Some]
  let ?r = "rows v ! i"
  show thesis
  proof (cases "may_write cmd ?r")
    case True
    with assms(2) Some that(5) [OF Some i True] show thesis
      by (auto simp: reconcile_step_def Let_def view_reads [OF assms(1) i] may_write_def split: if_splits)
  next
    case False
    then have nw: "\<not> slot_written (snd ?r)" "call_id (fst ?r) = rc_call_id cmd" "\<not> cseq (fst ?r) < rc_cseq cmd"
      by (simp_all add: may_write_def)
    with assms(2) Some have eq: "cseq (fst ?r) = rc_cseq cmd"
      by (auto simp: reconcile_step_def Let_def view_reads [OF assms(1) i] split: if_splits)
    show thesis
      using assms(2) Some nw eq that(3,4) [OF Some i False]
      by (auto simp: reconcile_step_def Let_def view_reads [OF assms(1) i] split: if_splits)
  qed
qed

lemma reconcile_step_aligned:
  assumes "aligned v" "reconcile_step K cmd op g (v, changed, pds) = Inr (v', changed', pds')"
  shows "aligned v'"
  using assms by (cases rule: reconcile_step_cases) (simp_all add: assms(1) aligned_ops aligned_apply_op)

lemma reconcile_induct [consumes 2, case_names Step Init]:
  assumes "reconcile K cmd og (v, changed, pds) = Inr (v', changed', pds')" "aligned v"
    and step: "\<And>op g v changed pds v' changed' pds'. (op, g) \<in> set og \<Longrightarrow> aligned v \<Longrightarrow> P v changed pds \<Longrightarrow>
      reconcile_step K cmd op g (v, changed, pds) = Inr (v', changed', pds') \<Longrightarrow> P v' changed' pds'"
    and "P v changed pds"
  shows "P v' changed' pds' \<and> aligned v'"
  using assms
proof (induction og arbitrary: v changed pds)
  case (Cons x og)
  obtain op g where x: "x = (op, g)" by (cases x)
  with Cons.prems(1) obtain v1 changed1 pds1 where
    s: "reconcile_step K cmd op g (v, changed, pds) = Inr (v1, changed1, pds1)"
    and r: "reconcile K cmd og (v1, changed1, pds1) = Inr (v', changed', pds')"
    by (auto simp: and_then_Inr)
  have P1: "P v1 changed1 pds1" by (rule Cons.prems(3) [OF _ Cons.prems(2,4) s]) (simp add: x)
  show ?case
    by (rule Cons.IH [OF r reconcile_step_aligned [OF Cons.prems(2) s] _ P1]) (rule Cons.prems(3), simp_all)
qed simp

section \<open>Where the rows of a reconciled view come from\<close>

text \<open>The rows of a view against the bindings it started from: an unwritten row is one of those, a
  written one is what one of the operations asks for, created now or where the binding it replaces
  was.\<close>

definition provenance ::
  "'u register_command \<Rightarrow> ('u contact_op \<times> u32) list \<Rightarrow> binding list \<Rightarrow> binding \<times> 'u slot \<Rightarrow> bool" where
  "provenance cmd og old r \<longleftrightarrow>
    (if slot_written (snd r)
     then \<exists>(op, g) \<in> set og. \<exists>at. g \<noteq> 0 \<and> fst r = binding_for op cmd g at \<and> slot_uri (snd r) = Some (op_uri op)
       \<and> (at = rc_now cmd \<or> at \<in> registered_at ` set old)
     else fst r \<in> set old)"

lemma registered_at_binding_for [simp]: "registered_at (binding_for op cmd g at) = at"
  by (simp add: binding_for_def)

lemma rows_new: "rows (view_new K s) = map (\<lambda>(i, b). (b, \<lparr>slot_name = i, slot_uri = uri_parse K (contact b), slot_written = False\<rparr>))
    (enumerate 0 (bindings s))"
proof (rule nth_equalityI)
  show "length (rows (view_new K s)) = length (map (\<lambda>(i, b). (b, \<lparr>slot_name = i, slot_uri = uri_parse K (contact b),
      slot_written = False\<rparr>)) (enumerate 0 (bindings s)))"
    by (simp add: rows_def view_new_def Let_def)
qed (simp add: rows_def view_new_def Let_def nth_enumerate_eq)

lemma rows_new_unwritten: "r \<in> set (rows (view_new K s)) \<Longrightarrow>
    \<not> slot_written (snd r) \<and> fst r \<in> set (bindings s) \<and> slot_uri (snd r) = uri_parse K (contact (fst r))"
  by (auto simp: rows_new in_set_enumerate_eq)

text \<open>What one turn does to the rows.\<close>

definition written_row :: "'u register_command \<Rightarrow> 'u contact_op \<Rightarrow> u32 \<Rightarrow> timestamp \<Rightarrow> nat \<Rightarrow> binding \<times> 'u slot" where
  "written_row cmd op g at name =
    (binding_for op cmd g at, \<lparr>slot_name = name, slot_uri = Some (op_uri op), slot_written = True\<rparr>)"

lemma rows_view_insert:
  "aligned v \<Longrightarrow> rows (view_insert v (binding_for op cmd g at) (op_uri op))
    = insert_nth (fst (insert_at (rv_set v) (binding_for op cmd g at)))
        (written_row cmd op g at (rv_next_id v)) (rows v)"
  by (simp add: rows_insert written_row_def)

lemma rows_apply_op:
  assumes "aligned v" "i < length (rows v)"
  shows "rows (apply_op cmd op g i (fst (rows v ! i)) v) =
    (if g = 0 then remove_nth i (rows v)
     else (rows v)[i := written_row cmd op g (registered_at (fst (rows v ! i))) (slot_name (snd (rows v ! i)))])"
  using assms by (cases "snd (rows v ! i)") (simp add: apply_op_def rows_remove rows_replace written_row_def)

lemma step_rows:
  assumes "aligned v" "reconcile_step K cmd op g (v, changed, pds) = Inr (v', changed', pds')"
  obtains "rows v' = rows v"
  | i where "view_find K v (op_uri op) = None" "g \<noteq> 0"
    "rows v' = insert_nth i (written_row cmd op g (rc_now cmd) (rv_next_id v)) (rows v)"
  | i where "view_find K v (op_uri op) = Some i" "i < length (rows v)" "may_write cmd (rows v ! i)" "g = 0"
    "rows v' = remove_nth i (rows v)"
  | i where "view_find K v (op_uri op) = Some i" "i < length (rows v)" "may_write cmd (rows v ! i)" "g \<noteq> 0"
    "rows v' = (rows v)[i := written_row cmd op g (registered_at (fst (rows v ! i))) (slot_name (snd (rows v ! i)))]"
  using assms
proof (cases rule: reconcile_step_cases)
  case Insert
  then show thesis using that(2) rows_view_insert [OF assms(1)] by simp
next
  case (Write i)
  then show thesis using that(3,4) [of i] rows_apply_op [OF assms(1)] by (cases "g = 0") simp_all
qed (use that(1) in simp_all)

lemma set_rows_subset:
  assumes "aligned v" "reconcile_step K cmd op g (v, changed, pds) = Inr (v', changed', pds')" "r \<in> set (rows v')"
  shows "r \<in> set (rows v) \<or> g \<noteq> 0 \<and> (\<exists>name. r = written_row cmd op g (rc_now cmd) name)
    \<or> g \<noteq> 0 \<and> (\<exists>name. \<exists>q \<in> set (rows v). r = written_row cmd op g (registered_at (fst q)) name)"
  using assms(1,2)
proof (cases rule: step_rows)
  case (4 i)
  have "r \<in> insert (written_row cmd op g (registered_at (fst (rows v ! i))) (slot_name (snd (rows v ! i)))) (set (rows v))"
    using assms(3) unfolding 4(5) by (rule set_update_subset_insert [THEN subsetD])
  with 4(2,4) show ?thesis by (blast intro: nth_mem)
qed (use assms(3) in \<open>auto dest: set_remove_nth_subset [THEN subsetD]\<close>)

lemma provenance_step:
  assumes "aligned v" "reconcile_step K cmd op g (v, changed, pds) = Inr (v', changed', pds')"
    and "(op, g) \<in> set og" "\<forall>r \<in> set (rows v). provenance cmd og old r"
  shows "\<forall>r \<in> set (rows v'). provenance cmd og old r"
proof
  fix r assume "r \<in> set (rows v')"
  from set_rows_subset [OF assms(1,2) this] show "provenance cmd og old r"
  proof (elim disjE conjE exE bexE)
    assume "r \<in> set (rows v)"
    with assms(4) show ?thesis by blast
  next
    fix name assume "g \<noteq> 0" "r = written_row cmd op g (rc_now cmd) name"
    with assms(3) show ?thesis by (auto simp: provenance_def written_row_def)
  next
    fix name q assume a: "g \<noteq> 0" "q \<in> set (rows v)" "r = written_row cmd op g (registered_at (fst q)) name"
    have "registered_at (fst q) = rc_now cmd \<or> registered_at (fst q) \<in> registered_at ` set old"
      using assms(4) a(2) unfolding provenance_def by (auto split: if_splits)
    with a assms(3) show ?thesis unfolding provenance_def written_row_def by fastforce
  qed
qed

text \<open>A binding under this command's own Call-ID with a CSeq not below it stays where it is.\<close>

definition protected :: "'u register_command \<Rightarrow> binding \<Rightarrow> bool" where
  "protected cmd b \<longleftrightarrow> call_id b = rc_call_id cmd \<and> rc_cseq cmd \<le> cseq b"

lemma protected_step:
  assumes "aligned v" "reconcile_step K cmd op g (v, changed, pds) = Inr (v', changed', pds')"
    and "r \<in> set (rows v)" "\<not> slot_written (snd r)" "protected cmd (fst r)"
  shows "r \<in> set (rows v')"
proof -
  have keep: "r \<noteq> rows v ! i" if "may_write cmd (rows v ! i)" for i
    using that assms(4,5) by (auto simp: may_write_def protected_def)
  show ?thesis
    using assms(1,2)
    by (cases rule: step_rows) (use assms(3) keep in \<open>auto intro: mem_remove_nth mem_list_update\<close>)
qed

text \<open>The cached URI is the one the stored contact parses to.\<close>

lemma view_faithful_step:
  assumes "aligned v" "reconcile_step K cmd op g (v, changed, pds) = Inr (v', changed', pds')"
    and "uri_parse K (op_verbatim op) = Some (op_uri op)"
    and "\<forall>r \<in> set (rows v). slot_uri (snd r) = uri_parse K (contact (fst r))"
  shows "\<forall>r \<in> set (rows v'). slot_uri (snd r) = uri_parse K (contact (fst r))"
  using set_rows_subset [OF assms(1,2)] assms(3,4)
  by (fastforce simp: written_row_def binding_for_def)

section \<open>The whole loop\<close>

lemma rv_set_new [simp]: "rv_set (view_new K s) = s"
  by (simp add: view_new_def Let_def)

lemma reconciled_provenance:
  assumes "reconcile K cmd og (view_new K s, False, []) = Inr (v, changed, pds)" "b \<in> set (bindings (rv_set v))"
  shows "b \<in> set (bindings s) \<or> (\<exists>(op, g) \<in> set og. \<exists>at. g \<noteq> 0 \<and> b = binding_for op cmd g at
    \<and> (at = rc_now cmd \<or> at \<in> registered_at ` set (bindings s)))"
proof -
  have "(\<forall>r \<in> set (rows v). provenance cmd og (bindings s) r) \<and> aligned v"
    using assms(1) aligned_new
  proof (rule reconcile_induct)
    show "\<forall>r \<in> set (rows (view_new K s)). provenance cmd og (bindings s) r"
      by (auto simp: provenance_def dest: rows_new_unwritten)
  qed (rule provenance_step)
  moreover from this obtain r where "r \<in> set (rows v)" "fst r = b"
    using assms(2) map_fst_rows [of v] by (metis (no_types, lifting) image_iff set_map)
  ultimately have "provenance cmd og (bindings s) r" by blast
  with \<open>fst r = b\<close> show ?thesis unfolding provenance_def by (fastforce split: if_splits)
qed

lemma reconciled_protected:
  assumes "reconcile K cmd og (view_new K s, False, []) = Inr (v, changed, pds)"
    and "b \<in> set (bindings s)" "protected cmd b"
  shows "b \<in> set (bindings (rv_set v))"
proof -
  obtain r where r: "r \<in> set (rows (view_new K s))" "fst r = b"
    using assms(2) map_fst_rows [OF aligned_new [of K s]] by (metis (no_types, lifting) image_iff rv_set_new set_map)
  then have u: "\<not> slot_written (snd r)" using rows_new_unwritten by blast
  have "r \<in> set (rows v) \<and> aligned v"
    using assms(1) aligned_new
    by (rule reconcile_induct) (use r u assms(3) protected_step in blast)+
  then show ?thesis using r(2) map_fst_rows [of v] by (metis image_eqI set_map)
qed

lemma reconciled_unchanged:
  assumes "reconcile K cmd og (view_new K s, False, []) = Inr (v, False, pds)"
  shows "rv_set v = s"
proof -
  have "(\<not> False \<longrightarrow> rv_set v = s) \<and> aligned v"
    using assms aligned_new
  proof (rule reconcile_induct)
    fix op g v changed pds v' changed' pds'
    assume "aligned v" and P: "\<not> changed \<longrightarrow> rv_set v = s"
      and step: "reconcile_step K cmd op g (v, changed, pds) = Inr (v', changed', pds')"
    from \<open>aligned v\<close> step show "\<not> changed' \<longrightarrow> rv_set v' = s"
      by (cases rule: reconcile_step_cases) (use P in simp_all)
  qed simp
  then show ?thesis by simp
qed

lemma reconciled_faithful:
  assumes "reconcile K cmd og (view_new K s, False, []) = Inr (v, changed, pds)"
    and "\<forall>(op, g) \<in> set og. uri_parse K (op_verbatim op) = Some (op_uri op)"
  shows "aligned v \<and> (\<forall>r \<in> set (rows v). slot_uri (snd r) = uri_parse K (contact (fst r)))"
proof -
  have "(\<forall>r \<in> set (rows v). slot_uri (snd r) = uri_parse K (contact (fst r))) \<and> aligned v"
    using assms(1) aligned_new
  proof (rule reconcile_induct)
    show "\<forall>r \<in> set (rows (view_new K s)). slot_uri (snd r) = uri_parse K (contact (fst r))"
      using rows_new_unwritten by blast
  next
    fix op g v changed pds v' changed' pds'
    assume "(op, g) \<in> set og"
    then have "uri_parse K (op_verbatim op) = Some (op_uri op)" using assms(2) by blast
    then show "aligned v \<Longrightarrow> \<forall>r \<in> set (rows v). slot_uri (snd r) = uri_parse K (contact (fst r)) \<Longrightarrow>
      reconcile_step K cmd op g (v, changed, pds) = Inr (v', changed', pds') \<Longrightarrow>
      \<forall>r \<in> set (rows v'). slot_uri (snd r) = uri_parse K (contact (fst r))"
      by (rule view_faithful_step [rotated 2])
  qed
  then show ?thesis by blast
qed

lemma position_map: "position p (map f xs) = position (\<lambda>x. p (f x)) xs"
  by (induction xs) simp_all

lemma position_cong: "(\<And>x. x \<in> set xs \<Longrightarrow> p x = q x) \<Longrightarrow> position p xs = position q xs"
  by (induction xs) simp_all

section \<open>Grants\<close>

lemma granted_expiries_Inl:
  "granted_expiries cmd policy ops = Inl e \<longleftrightarrow>
    e = IntervalTooBrief (min_expires policy) \<and> (\<exists>op \<in> set ops.
      requested_expiry cmd policy op \<noteq> 0 \<and> requested_expiry cmd policy op < min_expires policy)"
proof (induction ops)
  case (Cons op ops)
  have "map_sum id f r = Inl e \<longleftrightarrow> r = Inl e" for f :: "u32 list \<Rightarrow> u32 list" and r
    by (cases r) auto
  with Cons show ?case by (auto simp: Let_def)
qed simp

lemma granted_expiries_Inr:
  "granted_expiries cmd policy ops = Inr gs \<Longrightarrow> length gs = length ops \<and>
    (\<forall>(op, g) \<in> set (zip ops gs). g = (if requested_expiry cmd policy op = 0 then 0
       else min (requested_expiry cmd policy op) (max_expires policy))
     \<and> (requested_expiry cmd policy op = 0 \<or> min_expires policy \<le> requested_expiry cmd policy op))"
proof (induction ops arbitrary: gs)
  case (Cons op ops)
  have r: "map_sum id f r = Inr gs \<longleftrightarrow> (\<exists>hs. r = Inr hs \<and> gs = f hs)" for f :: "u32 list \<Rightarrow> u32 list" and r :: "rejection + u32 list"
    by (cases r) auto
  from Cons.prems obtain g hs where "gs = g # hs" "granted_expiries cmd policy ops = Inr hs"
    "g = (if requested_expiry cmd policy op = 0 then 0 else min (requested_expiry cmd policy op) (max_expires policy))"
    "requested_expiry cmd policy op = 0 \<or> min_expires policy \<le> requested_expiry cmd policy op"
    by (auto simp: Let_def r not_less split: if_splits)
  with Cons.IH [of hs] show ?case by simp
qed simp

lemma requested_zero_granted:
  "granted_expiries cmd policy ops = Inr gs \<Longrightarrow> (op, g) \<in> set (zip ops gs) \<Longrightarrow>
    requested_expiry cmd policy op = 0 \<Longrightarrow> g = 0"
  using granted_expiries_Inr by fastforce

section \<open>What a decision is made of\<close>

lemma explicit_Commit:
  assumes "explicit K cmd current policy ops = Commit s r"
  obtains grants v pds where "ops \<noteq> []" "granted_expiries cmd policy ops = Inr grants"
    "reconcile K cmd (zip ops grants) (view_new K (drop_expired current (rc_now cmd)), False, []) = Inr (v, True, pds)"
    "\<forall>d \<in> set pds. already_holds (pd_stored d) cmd (pd_net d)"
    "s = rv_set v" "r = describe s (rc_now cmd)" "active_count s (rc_now cmd) \<le> max_bindings_per_aor policy"
    "length (bindings (drop_expired current (rc_now cmd))) \<noteq> length (bindings current) \<or> s \<noteq> current"
  using assms
  by (auto simp: explicit_def Let_def list_ex_iff not_less split: if_splits sum.splits prod.splits)

lemma explicit_Noop:
  assumes "explicit K cmd current policy ops = Noop r"
  shows "r = describe current (rc_now cmd)"
proof (cases "ops = []")
  case False
  with assms obtain grants v changed pds where
    rec: "reconcile K cmd (zip ops grants) (view_new K (drop_expired current (rc_now cmd)), False, []) = Inr (v, changed, pds)"
    and r: "r = describe (rv_set v) (rc_now cmd)" "changed \<longrightarrow> rv_set v = current"
    by (auto simp: explicit_def Let_def split: if_splits sum.splits prod.splits)
  show ?thesis
  proof (cases changed)
    case False
    with rec have "rv_set v = drop_expired current (rc_now cmd)" by (simp add: reconciled_unchanged)
    with r show ?thesis by simp
  qed (use r in simp)
qed (use assms in \<open>simp add: explicit_def\<close>)

lemma process_Commit:
  assumes "process K cmd current policy = Commit s r"
  obtains ops where "rc_contacts cmd = Explicit ops" "length ops \<le> max_contact_ops policy"
    "explicit K cmd current policy ops = Commit s r"
  | "rc_contacts cmd = Wildcard" "rc_expires_header cmd = Some 0" "s = set_new" "r = accepted_default"
    "active current (rc_now cmd) \<noteq> []" "\<forall>b \<in> set (active current (rc_now cmd)). \<not> protected cmd b"
  using assms
  by (auto simp: process_def wildcard_def Let_def list_ex_iff drop_expired_def active_def protected_def
      split: if_splits contact_ops.splits)

lemma process_Noop:
  assumes "process K cmd current policy = Noop r"
  shows "r = describe current (rc_now cmd)"
proof (cases "rc_contacts cmd")
  case (Explicit ops)
  with assms show ?thesis by (auto simp: process_def Let_def explicit_Noop split: if_splits)
next
  case Wildcard
  with assms show ?thesis
    by (auto simp: process_def wildcard_def Let_def accepted_default_def describe_def active_def
        drop_expired_def split: if_splits)
qed

section \<open>Refusals\<close>

lemma reconcile_step_Inl:
  assumes "aligned v" "reconcile_step K cmd op g (v, changed, pds) = Inl e"
  shows "e = StaleSequence \<and> (\<exists>r \<in> set (rows v). \<not> slot_written (snd r) \<and> protected cmd (fst r))"
proof -
  from assms(2) obtain i where i: "view_find K v (op_uri op) = Some i"
    by (auto simp: reconcile_step_def split: option.splits if_splits)
  note r = view_find_less [OF assms(1) i]
  show ?thesis
    using assms(2) i r nth_mem [OF r]
    by (auto simp: reconcile_step_def Let_def view_reads [OF assms(1) r] protected_def word_le_less_eq split: if_splits)
qed

text \<open>Every deferred decision is about a binding that was already there under the request's token.\<close>

lemma deferred_step:
  assumes "aligned v" "reconcile_step K cmd op g (v, changed, pds) = Inr (v', changed', pds')"
    and "\<forall>r \<in> set (rows v). \<not> slot_written (snd r) \<longrightarrow> fst r \<in> set old"
    and "\<forall>d \<in> set pds. pd_stored d \<in> set old \<and> protected cmd (pd_stored d)"
  shows "\<forall>d \<in> set pds'. pd_stored d \<in> set old \<and> protected cmd (pd_stored d)"
proof -
  have sup: "\<forall>d \<in> set (supersede n g pds). pd_stored d \<in> set old \<and> protected cmd (pd_stored d)" for n
    using assms(4) by (auto simp: supersede_def)
  show ?thesis
    using assms(1,2)
  proof (cases rule: reconcile_step_cases)
    case (Defer i)
    have "fst (rows v ! i) \<in> set old \<and> protected cmd (fst (rows v ! i))"
      using Defer(2,3,5) assms(3) nth_mem [OF Defer(2)] by (auto simp: may_write_def protected_def)
    with sup Defer(6) show ?thesis by simp
  qed (use sup assms(4) in simp_all)
qed

lemma reconcile_Inl:
  assumes "reconcile K cmd og (v, changed, pds) = Inl e" "aligned v"
    and "\<forall>r \<in> set (rows v). provenance cmd og' old r" "set og \<subseteq> set og'"
  shows "e = StaleSequence \<and> (\<exists>b \<in> set old. protected cmd b)"
  using assms
proof (induction og arbitrary: v changed pds)
  case (Cons x og)
  obtain op g where x: "x = (op, g)" by (cases x)
  with Cons.prems(1) consider
    "reconcile_step K cmd op g (v, changed, pds) = Inl e"
    | v1 changed1 pds1 where "reconcile_step K cmd op g (v, changed, pds) = Inr (v1, changed1, pds1)"
      "reconcile K cmd og (v1, changed1, pds1) = Inl e"
    by (auto simp: and_then_Inl)
  then show ?case
  proof cases
    case 1
    from reconcile_step_Inl [OF Cons.prems(2) 1] Cons.prems(3) show ?thesis
      by (fastforce simp: provenance_def)
  next
    case 2
    have "(op, g) \<in> set og'" using Cons.prems(4) x by simp
    with provenance_step [OF Cons.prems(2) 2(1) _ Cons.prems(3)] Cons.prems(4)
      reconcile_step_aligned [OF Cons.prems(2) 2(1)]
    show ?thesis by (intro Cons.IH [OF 2(2)]) auto
  qed
qed simp

lemma reconciled_deferred:
  assumes "reconcile K cmd og (view_new K s, False, []) = Inr (v, changed, pds)" "d \<in> set pds"
  shows "pd_stored d \<in> set (bindings s) \<and> protected cmd (pd_stored d)"
proof -
  have "((\<forall>r \<in> set (rows v). provenance cmd og (bindings s) r)
      \<and> (\<forall>d \<in> set pds. pd_stored d \<in> set (bindings s) \<and> protected cmd (pd_stored d))) \<and> aligned v"
    using assms(1) aligned_new
  proof (rule reconcile_induct)
    show "(\<forall>r \<in> set (rows (view_new K s)). provenance cmd og (bindings s) r)
      \<and> (\<forall>d \<in> set []. pd_stored d \<in> set (bindings s) \<and> protected cmd (pd_stored d))"
      by (auto simp: provenance_def dest: rows_new_unwritten)
  next
    fix op g v changed pds v' changed' pds'
    assume a: "(op, g) \<in> set og" "aligned v" "(\<forall>r \<in> set (rows v). provenance cmd og (bindings s) r)
      \<and> (\<forall>d \<in> set pds. pd_stored d \<in> set (bindings s) \<and> protected cmd (pd_stored d))"
      and step: "reconcile_step K cmd op g (v, changed, pds) = Inr (v', changed', pds')"
    have "\<forall>r \<in> set (rows v). \<not> slot_written (snd r) \<longrightarrow> fst r \<in> set (bindings s)"
      using a(3) by (auto simp: provenance_def)
    with deferred_step [OF a(2) step] provenance_step [OF a(2) step a(1)] a(3)
    show "(\<forall>r \<in> set (rows v'). provenance cmd og (bindings s) r)
      \<and> (\<forall>d \<in> set pds'. pd_stored d \<in> set (bindings s) \<and> protected cmd (pd_stored d))" by blast
  qed
  with assms(2) show ?thesis by blast
qed

lemma reconcile_new_Inl:
  "reconcile K cmd og (view_new K s, False, []) = Inl e \<Longrightarrow>
    e = StaleSequence \<and> (\<exists>b \<in> set (bindings s). protected cmd b)"
  by (erule reconcile_Inl [OF _ aligned_new _ subset_refl]) (auto simp: provenance_def dest: rows_new_unwritten)

lemma explicit_Reject:
  assumes "explicit K cmd current policy ops = Reject e"
  obtains "granted_expiries cmd policy ops = Inl e"
  | "e = StaleSequence" "\<exists>b \<in> set (active current (rc_now cmd)). protected cmd b"
  | "e = Forbidden ''the address-of-record already holds its maximum bindings''"
proof -
  let ?old = "drop_expired current (rc_now cmd)"
  have old: "bindings ?old = active current (rc_now cmd)" by (simp add: drop_expired_def active_def)
  consider "granted_expiries cmd policy ops = Inl e"
    | grants where "reconcile K cmd (zip ops grants) (view_new K ?old, False, []) = Inl e"
    | grants v changed pds d where "reconcile K cmd (zip ops grants) (view_new K ?old, False, []) = Inr (v, changed, pds)"
      "d \<in> set pds" "e = StaleSequence"
    | "e = Forbidden ''the address-of-record already holds its maximum bindings''"
    using assms
    by (auto simp: explicit_def Let_def list_ex_iff split: if_splits sum.splits prod.splits)
  then show thesis
  proof cases
    case 2
    from reconcile_new_Inl [OF this] that(2) old show thesis by simp
  next
    case 3
    from reconciled_deferred [OF 3(1,2)] that(2) 3(3) old show thesis by auto
  qed (use that in blast)+
qed

section \<open>A second delivery\<close>

lemma find_filter: "find p xs = Some b \<Longrightarrow> q b \<Longrightarrow> find p (filter q xs) = Some b"
  by (induction xs) (auto split: if_splits)

lemma find_position: "find p xs = map_option ((!) xs) (position p xs)"
  by (induction xs) (simp_all add: option.map_comp comp_def)

lemma position_find: "find p xs = Some b \<Longrightarrow> \<exists>i. position p xs = Some i \<and> i < length xs \<and> xs ! i = b"
  using position_less [of p xs] by (auto simp: find_position)

lemma find_append: "find p (xs @ ys) = (case find p xs of None \<Rightarrow> find p ys | Some x \<Rightarrow> Some x)"
  by (induction xs) auto

definition matches :: "('u, 'x) uri_kernel_scheme \<Rightarrow> 'u \<Rightarrow> binding \<Rightarrow> bool" where
  "matches K uri b = (case uri_parse K (contact b) of None \<Rightarrow> False | Some stored \<Rightarrow> equivalent K stored uri)"

lemma view_find_new: "view_find K (view_new K s) uri = position (matches K uri) (bindings s)"
proof -
  have "rv_slots (view_new K s) = map snd (rows (view_new K s))" by (simp add: map_snd_rows aligned_new)
  then have "view_find K (view_new K s) uri = position (\<lambda>r. case slot_uri (snd r) of None \<Rightarrow> False
      | Some stored \<Rightarrow> equivalent K stored uri) (rows (view_new K s))"
    by (simp add: view_find_def position_map)
  also have "\<dots> = position (\<lambda>r. matches K uri (fst r)) (rows (view_new K s))"
    by (rule position_cong) (simp add: matches_def rows_new_unwritten)
  also have "\<dots> = position (matches K uri) (map fst (rows (view_new K s)))" by (simp add: position_map)
  finally show ?thesis by (simp add: map_fst_rows aligned_new)
qed

text \<open>A one-contact request that wrote leaves its own binding as the first match.\<close>

lemma one_contact_written:
  assumes "reconcile K cmd [(op, g)] (view_new K s, False, []) = Inr (v, True, pds)" "g \<noteq> 0"
    and law: "uri_parse K (op_verbatim op) = Some (op_uri op)" "equivalent K (op_uri op) (op_uri op)"
  obtains at where "find (matches K (op_uri op)) (bindings (rv_set v)) = Some (binding_for op cmd g at)"
proof -
  let ?p = "matches K (op_uri op)"
  have m: "?p (binding_for op cmd g at)" for at by (simp add: matches_def binding_for_def law)
  from assms(1) have step: "reconcile_step K cmd op g (view_new K s, False, []) = Inr (v, True, pds)"
    by (auto simp: and_then_Inr)
  from aligned_new step show thesis
  proof (cases rule: reconcile_step_cases)
    case Insert
    then have none: "\<forall>b \<in> set (bindings s). \<not> ?p b" by (simp add: view_find_new position_None)
    let ?b = "binding_for op cmd g (rc_now cmd)" let ?i = "fst (insert_at s ?b)"
    have "bindings (rv_set v) = insert_nth ?i ?b (bindings s)"
      using Insert map_fst_rows [OF aligned_insert [OF aligned_new [of K s]], of ?b "op_uri op"]
      by (simp add: rows_insert [OF aligned_new] map_insert_nth map_fst_rows aligned_new)
    moreover have "find ?p (take ?i (bindings s)) = None"
      using none by (auto simp: find_None_iff dest: in_set_takeD)
    ultimately show thesis using that [of "rc_now cmd"] m by (simp add: insert_nth_def find_append)
  next
    case (Write i)
    let ?at = "registered_at (fst (rows (view_new K s) ! i))"
    have i: "i < length (bindings s)" "position ?p (bindings s) = Some i"
      using Write(1,2) by (simp_all add: view_find_new rows_def aligned_new [unfolded aligned_def])
    have "bindings (rv_set v) = (bindings s)[i := binding_for op cmd g ?at]"
      using Write assms(2) i(1)
      by (simp add: apply_op_def view_replace_def get_at_def aligned_new [unfolded aligned_def] binding_set_simps)
    moreover have "find ?p (take i (bindings s)) = None"
      using position_SomeD [OF i(2)] by (auto simp: find_None_iff in_set_conv_nth)
    ultimately show thesis
      using that [of ?at] m i(1) by (simp add: upd_conv_take_nth_drop find_append)
  qed simp_all
qed

lemma requested_expiry_now [simp]:
  "requested_expiry (cmd\<lparr>rc_now := now\<rparr>) policy op = requested_expiry cmd policy op"
  by (cases "op_expires op") (simp_all add: requested_expiry_def)

lemma granted_expiries_now [simp]:
  "granted_expiries (cmd\<lparr>rc_now := now\<rparr>) policy ops = granted_expiries cmd policy ops"
  by (induction ops) (simp_all add: Let_def)

lemma already_holds_own:
  assumes "unat (as_nanos (rc_now cmd)) + nanos_of_secs (ucast g) < 2 ^ 64" "g \<noteq> 0"
  shows "already_holds (binding_for op cmd g at) (cmd\<lparr>rc_now := now\<rparr>) g"
  using assms by (simp add: already_holds_def binding_for_def until_nanos unat_after)

lemma is_active_earlier: "is_active later b \<Longrightarrow> now \<le> later \<Longrightarrow> is_active now b"
  by (auto simp: is_active_def)

lemma active_count_later: "now \<le> later \<Longrightarrow> active_count s later \<le> active_count s now"
proof -
  assume "now \<le> later"
  then have "filter (is_active later) (filter (is_active now) (bindings s)) = filter (is_active later) (bindings s)"
    by (auto simp: filter_filter intro!: filter_cong dest: is_active_earlier)
  then show ?thesis unfolding active_count_def active_def by (metis length_filter_le)
qed

lemma reconcile_held:
  assumes "view_find K (view_new K s) (op_uri op) = Some i" "bindings s ! i = b"
    and "call_id b = rc_call_id cmd" "cseq b = rc_cseq cmd" "already_holds b cmd g"
  shows "reconcile K cmd [(op, g)] (view_new K s, False, []) = Inr (view_new K s, False, [])"
proof -
  note al = aligned_new [of K s]
  have i: "i < length (rows (view_new K s))" by (rule view_find_less [OF al assms(1)])
  have "fst (rows (view_new K s) ! i) = b" "\<not> slot_written (snd (rows (view_new K s) ! i))"
    using i assms(2) al rows_new_unwritten [OF nth_mem [OF i]]
    by (simp_all add: rows_def aligned_def)
  with assms show ?thesis
    by (simp add: reconcile_step_def Let_def view_reads [OF al i] supersede_def)
qed

section \<open>A concrete registrar\<close>

text \<open>Contacts whose URI is their text, compared by equality.\<close>

definition text_kernel :: "bytes uri_kernel" where
  "text_kernel = \<lparr>uri_parse = Some, equivalent = (=), uri_scheme = (\<lambda>_. Sip), scheme_is_sip = (\<lambda>s. s \<noteq> OtherScheme), has_headers = (\<lambda>_. False),
     password = (\<lambda>_. None), user = Some, decoded_user = Some, uri_host = (\<lambda>_. None), uri_port = (\<lambda>_. None)\<rparr>"

definition sample_op :: "bytes \<Rightarrow> u32 option \<Rightarrow> bytes contact_op" where
  "sample_op c e = \<lparr>op_uri = c, op_verbatim = c, op_expires = e, op_q = None, op_instance_id = None,
     op_reg_id = None, op_push = None\<rparr>"

definition sample_command :: "u32 \<Rightarrow> bytes contact_ops \<Rightarrow> u64 \<Rightarrow> bytes register_command" where
  "sample_command n ops now = \<lparr>rc_tenant = ''t'', rc_aor = CanonicalAor ''sip:a@h'', rc_call_id = ''c1'', rc_cseq = n,
     rc_contacts = ops, rc_expires_header = None, rc_path = [], rc_supports_path = False, rc_require = [],
     rc_received = None, rc_flow_ref = None, rc_principal = None, rc_now = Timestamp now\<rparr>"

lemma position_singleton: "position p [x] = (if p x then Some 0 else None)"
  by simp

lemmas reconcile_eval = process_def explicit_def wildcard_def granted_expiries.simps requested_expiry_def
  reconcile.simps reconcile_step_def view_new_def view_find_def view_get_def view_slot_id_def
  view_written_here_def view_insert_def view_remove_def view_replace_def apply_op_def supersede_def insert_at_def
  partition_point_def insert_nth_def get_at_def drop_expired_def set_new_def Let_def already_holds_def
  text_kernel_def sample_op_def sample_command_def default_policy_def

definition registered :: "bytes \<Rightarrow> u64 \<Rightarrow> binding" where
  "registered c now = binding_for (sample_op c (Some 600)) (sample_command 1 (Explicit []) now) 600 (Timestamp now)"

lemma registered_active: "is_active (Timestamp 5) (registered c 5)"
  by (simp add: registered_def binding_for_def is_active_def timestamp_order after_def sample_command_def
      nanos_of_secs_def saturating_add_def)

lemma sample_first_register:
  "process text_kernel (sample_command 1 (Explicit [sample_op ''sip:x'' (Some 600)]) 5) set_new default_policy
    = Commit \<lparr>bindings = [registered ''sip:x'' 5]\<rparr> (describe \<lparr>bindings = [registered ''sip:x'' 5]\<rparr> (Timestamp 5))"
proof -
  have "binding_for (sample_op ''sip:x'' (Some 600)) (sample_command 1 (Explicit [sample_op ''sip:x'' (Some 600)]) 5) 600 (Timestamp 5)
      = registered ''sip:x'' 5"
    by (simp add: registered_def binding_for_def sample_command_def)
  then show ?thesis
    using registered_active [of "''sip:x''"]
    by (simp add: reconcile_eval active_count_def active_def)
qed

section \<open>Properties\<close>

text \<open>C13. Every accepted REGISTER is answered with the complete set it leaves: a commit is answered
  with what it installs, fits the tenant's quota and is never a write of the very set it read when
  nothing had expired; a no-op is answered with the active bindings that were already there, which
  for a wildcard means none; a refusal carries no set.\<close>

theorem process_response_complete:
  "case process K cmd current policy of
     Commit s r \<Rightarrow> r = describe s (rc_now cmd)
       \<and> active_count s (rc_now cmd) \<le> max_bindings_per_aor policy
       \<and> \<not> (list_all (is_active (rc_now cmd)) (bindings current) \<and> s = current)
   | Noop r \<Rightarrow> r = describe current (rc_now cmd)
   | Reject e \<Rightarrow> outcome_accepted (process K cmd current policy) = None"
proof (cases "process K cmd current policy")
  case (Commit s r)
  from Commit have "r = describe s (rc_now cmd) \<and> active_count s (rc_now cmd) \<le> max_bindings_per_aor policy
       \<and> \<not> (list_all (is_active (rc_now cmd)) (bindings current) \<and> s = current)"
  proof (cases rule: process_Commit)
    case (1 ops)
    from 1(3) show ?thesis
    proof (rule explicit_Commit)
      assume "r = describe s (rc_now cmd)" "active_count s (rc_now cmd) \<le> max_bindings_per_aor policy"
        and d: "length (bindings (drop_expired current (rc_now cmd))) \<noteq> length (bindings current) \<or> s \<noteq> current"
      moreover have "bindings (drop_expired current (rc_now cmd)) = bindings current"
        if "list_all (is_active (rc_now cmd)) (bindings current)"
        using that by (simp add: drop_expired_def list_all_iff)
      ultimately show ?thesis by auto
    qed
  next
    case 2
    then show ?thesis
      by (auto simp: set_new_def accepted_default_def describe_def active_def active_count_def)
  qed
  with Commit show ?thesis by simp
next
  case (Noop r)
  then show ?thesis using process_Noop by simp
qed simp

text \<open>C5. Nothing enters a committed set from nowhere: each of its bindings either was active in the
  set that was read, unchanged, or is exactly what one contact operation of the request asks for,
  under the request's own ordering token and Path, with a lifetime between the tenant's bounds, and
  created either now or where the binding it replaced was; and a binding the same Call-ID wrote under
  a CSeq not older than the request's is still there, unchanged.\<close>

theorem committed_bindings_accounted:
  assumes "process K cmd current policy = Commit s r"
  shows "(\<forall>b \<in> set (bindings s). b \<in> set (active current (rc_now cmd)) \<or>
      (\<exists>ops op g at. rc_contacts cmd = Explicit ops \<and> op \<in> set ops \<and> b = binding_for op cmd g at
        \<and> g = min (requested_expiry cmd policy op) (max_expires policy) \<and> 0 < g
        \<and> min_expires policy \<le> requested_expiry cmd policy op
        \<and> (at = rc_now cmd \<or> at \<in> registered_at ` set (active current (rc_now cmd)))))
    \<and> (\<forall>b \<in> set (active current (rc_now cmd)). protected cmd b \<longrightarrow> b \<in> set (bindings s))"
  using assms
proof (cases rule: process_Commit)
  case (1 ops)
  let ?old = "drop_expired current (rc_now cmd)"
  have old: "bindings ?old = active current (rc_now cmd)" by (simp add: drop_expired_def active_def)
  from 1(3) obtain grants v pds where gr: "granted_expiries cmd policy ops = Inr grants"
    and rec: "reconcile K cmd (zip ops grants) (view_new K ?old, False, []) = Inr (v, True, pds)"
    and s: "s = rv_set v"
    by (rule explicit_Commit)
  have grant: "op \<in> set ops \<and> g = min (requested_expiry cmd policy op) (max_expires policy)
      \<and> min_expires policy \<le> requested_expiry cmd policy op" if "(op, g) \<in> set (zip ops grants)" "g \<noteq> 0" for op g
    using granted_expiries_Inr [OF gr] that by (fastforce dest: set_zip_leftD)
  have "b \<in> set (active current (rc_now cmd)) \<or>
      (\<exists>ops op g at. rc_contacts cmd = Explicit ops \<and> op \<in> set ops \<and> b = binding_for op cmd g at
        \<and> g = min (requested_expiry cmd policy op) (max_expires policy) \<and> 0 < g
        \<and> min_expires policy \<le> requested_expiry cmd policy op
        \<and> (at = rc_now cmd \<or> at \<in> registered_at ` set (active current (rc_now cmd))))"
    if "b \<in> set (bindings s)" for b
    using reconciled_provenance [OF rec that [unfolded s]] unfolding old
  proof
    assume "\<exists>(op, g) \<in> set (zip ops grants). \<exists>at. g \<noteq> 0 \<and> b = binding_for op cmd g at
      \<and> (at = rc_now cmd \<or> at \<in> registered_at ` set (active current (rc_now cmd)))"
    then obtain op g at where a: "(op, g) \<in> set (zip ops grants)" "g \<noteq> 0" "b = binding_for op cmd g at"
      "at = rc_now cmd \<or> at \<in> registered_at ` set (active current (rc_now cmd))" by blast
    have "0 < g" using a(2) by (simp add: word_neq_0_conv)
    with grant [OF a(1,2)] a 1(1) show ?thesis by blast
  qed simp
  with reconciled_protected [OF rec] show ?thesis unfolding old s by blast
qed (simp add: set_new_def)

theorem committed_bindings_accounted_witness:
  "\<exists>s r. process text_kernel (sample_command 1 (Explicit [sample_op ''sip:x'' (Some 600)]) 5) set_new default_policy = Commit s r
    \<and> (\<forall>b \<in> set (bindings s). b \<in> set (active set_new (Timestamp 5))
        \<or> (\<exists>op g at. b = binding_for op (sample_command 1 (Explicit [sample_op ''sip:x'' (Some 600)]) 5) g at))"
proof -
  let ?cmd = "sample_command 1 (Explicit [sample_op ''sip:x'' (Some 600)]) 5"
  have now: "rc_now ?cmd = Timestamp 5" by (simp add: sample_command_def)
  from committed_bindings_accounted [OF sample_first_register] sample_first_register
  show ?thesis unfolding now by blast
qed

text \<open>C6. The cached parse of the stored contacts never drifts: however the operations before it
  moved, replaced or removed bindings, an operation is matched against the first binding, in stored
  order, whose contact parses now to an equivalent URI.\<close>

theorem reconcile_matches_live_set:
  assumes "reconcile K cmd og (view_new K s, False, []) = Inr (v, changed, pds)"
    and "\<forall>(op, g) \<in> set og. uri_parse K (op_verbatim op) = Some (op_uri op)"
  shows "length (rv_slots v) = length (bindings (rv_set v))
    \<and> view_find K v uri = position (\<lambda>b. case uri_parse K (contact b) of
        None \<Rightarrow> False | Some stored \<Rightarrow> equivalent K stored uri) (bindings (rv_set v))"
proof -
  let ?p = "\<lambda>u. case u of None \<Rightarrow> False | Some stored \<Rightarrow> equivalent K stored uri"
  from reconciled_faithful [OF assms] have al: "aligned v"
    and uris: "\<forall>r \<in> set (rows v). slot_uri (snd r) = uri_parse K (contact (fst r))" by blast+
  have "view_find K v uri = position (\<lambda>r. ?p (slot_uri (snd r))) (rows v)"
    unfolding view_find_def map_snd_rows [OF al, symmetric] position_map ..
  also have "\<dots> = position (\<lambda>r. ?p (uri_parse K (contact (fst r)))) (rows v)"
    by (rule position_cong) (simp add: uris)
  also have "\<dots> = position (\<lambda>b. ?p (uri_parse K (contact b))) (bindings (rv_set v))"
    unfolding map_fst_rows [OF al, symmetric] position_map ..
  finally show ?thesis using al by (simp add: aligned_def)
qed

theorem reconcile_matches_live_set_witness:
  "\<exists>v pds. reconcile text_kernel (sample_command 2 Wildcard 5) [(sample_op ''sip:x'' None, 600)]
      (view_new text_kernel set_new, False, []) = Inr (v, True, pds)
    \<and> view_find text_kernel v ''sip:x'' = position (\<lambda>b. contact b = ''sip:x'') (bindings (rv_set v))"
proof -
  obtain v pds where v: "reconcile text_kernel (sample_command 2 Wildcard 5) [(sample_op ''sip:x'' None, 600)]
      (view_new text_kernel set_new, False, []) = Inr (v, True, pds)"
    by (simp add: reconcile_eval)
  have "view_find text_kernel v ''sip:x'' = position (\<lambda>b. case uri_parse text_kernel (contact b) of
        None \<Rightarrow> False | Some stored \<Rightarrow> equivalent text_kernel stored ''sip:x'') (bindings (rv_set v))"
    by (rule reconcile_matches_live_set [OF v, THEN conjunct2]) (simp add: text_kernel_def sample_op_def)
  then have "view_find text_kernel v ''sip:x'' = position (\<lambda>b. contact b = ''sip:x'') (bindings (rv_set v))"
    by (simp add: text_kernel_def)
  with v show ?thesis by blast
qed

text \<open>C11. A retransmitted registration writes nothing: a one-contact REGISTER that committed is, at
  any later instant within the lifetime it was granted, answered as a no-op with the current set, so
  neither the deadline nor the revision moves; whichever other contacts the stored set holds.\<close>

theorem retransmission_writes_nothing:
  assumes "rc_contacts cmd = Explicit [op]"
    and "uri_parse K (op_verbatim op) = Some (op_uri op)" and "equivalent K (op_uri op) (op_uri op)"
    and "granted_expiries cmd policy [op] = Inr [g]" and "0 < g"
    and "process K cmd current policy = Commit s r"
    and "rc_now cmd \<le> now" and "unat (as_nanos now) < unat (as_nanos (rc_now cmd)) + nanos_of_secs (ucast g)"
    and "unat (as_nanos (rc_now cmd)) + nanos_of_secs (ucast g) < 2 ^ 64"
  shows "process K (cmd\<lparr>rc_now := now\<rparr>) s policy = Noop (describe s now)"
proof -
  have g: "g \<noteq> 0" using assms(5) by auto
  from assms(6) obtain "explicit K cmd current policy [op] = Commit s r"
    by (rule process_Commit) (use assms(1) in auto)
  then obtain v pds where rec: "reconcile K cmd [(op, g)] (view_new K (drop_expired current (rc_now cmd)), False, [])
      = Inr (v, True, pds)" and s: "s = rv_set v" and quota: "active_count s (rc_now cmd) \<le> max_bindings_per_aor policy"
    by (rule explicit_Commit) (use assms(4) in simp)
  obtain at where own: "find (matches K (op_uri op)) (bindings s) = Some (binding_for op cmd g at)"
    using one_contact_written [OF rec g assms(2,3)] s by blast
  let ?b = "binding_for op cmd g at" let ?again = "cmd\<lparr>rc_now := now\<rparr>" let ?s = "drop_expired s now"
  have "is_active now ?b"
    using assms(8,9) by (simp add: is_active_def binding_for_def timestamp_order word_less_nat_alt unat_after)
  then have "find (matches K (op_uri op)) (bindings ?s) = Some ?b"
    unfolding drop_expired_def using own by (simp add: find_filter)
  from position_find [OF this] obtain i where
    i: "view_find K (view_new K ?s) (op_uri op) = Some i" "bindings ?s ! i = ?b"
    by (auto simp: view_find_new)
  have "reconcile K ?again [(op, g)] (view_new K ?s, False, []) = Inr (view_new K ?s, False, [])"
    using i by (rule reconcile_held) (simp_all add: binding_for_def already_holds_own [OF assms(9) g, unfolded binding_for_def])
  moreover have "granted_expiries ?again policy [op] = Inr [g]"
    by (simp only: granted_expiries_now assms(4))
  moreover have "active_count ?s now \<le> max_bindings_per_aor policy"
    using quota active_count_later [OF assms(7), of s] by (simp add: active_count_def)
  ultimately have "explicit K ?again s policy [op] = Noop (describe s now)"
    by (simp add: explicit_def Let_def)
  with assms(1,6) show ?thesis by (auto simp: process_def Let_def split: if_splits)
qed

theorem retransmission_writes_nothing_witness:
  "process text_kernel ((sample_command 1 (Explicit [sample_op ''sip:x'' (Some 600)]) 5)\<lparr>rc_now := Timestamp 9\<rparr>)
      \<lparr>bindings = [registered ''sip:x'' 5]\<rparr> default_policy
    = Noop (describe \<lparr>bindings = [registered ''sip:x'' 5]\<rparr> (Timestamp 9))"
  by (rule retransmission_writes_nothing [where op = "sample_op ''sip:x'' (Some 600)" and g = 600, OF _ _ _ _ _ sample_first_register])
    (simp_all add: sample_command_def sample_op_def text_kernel_def requested_expiry_def default_policy_def
      timestamp_order nanos_of_secs_def)

text \<open>\<open>500\<close> is never sent in error: a request whose Call-ID wrote none of the active bindings, or
  whose CSeq is newer than on every one it wrote, is not refused as stale, whatever operations it
  carries and however they collapse onto one another.\<close>

theorem fresh_token_never_stale:
  assumes "\<forall>b \<in> set (active current (rc_now cmd)). call_id b = rc_call_id cmd \<longrightarrow> cseq b < rc_cseq cmd"
  shows "process K cmd current policy \<noteq> Reject StaleSequence"
proof
  assume stale: "process K cmd current policy = Reject StaleSequence"
  have none: "\<not> (\<exists>b \<in> set (active current (rc_now cmd)). protected cmd b)"
    using assms by (auto simp: protected_def)
  show False
  proof (cases "rc_contacts cmd")
    case (Explicit ops)
    with stale have "explicit K cmd current policy ops = Reject StaleSequence"
      by (auto simp: process_def Let_def split: if_splits)
    then show False by (rule explicit_Reject) (use none granted_expiries_Inl [of cmd policy ops] in auto)
  next
    case Wildcard
    with stale none show False
      by (auto simp: process_def wildcard_def Let_def list_ex_iff drop_expired_def active_def protected_def
          split: if_splits)
  qed
qed

theorem fresh_token_never_stale_witness:
  "process text_kernel (sample_command 2 (Explicit [sample_op ''sip:x'' (Some 0)]) 7)
      \<lparr>bindings = [registered ''sip:x'' 5]\<rparr> default_policy \<noteq> Reject StaleSequence"
  by (rule fresh_token_never_stale)
    (simp add: active_def registered_def binding_for_def sample_command_def)

text \<open>One too-brief contact fails the whole request and nothing else does so: \<open>423\<close> is answered
  exactly when the request passed the checks before it and some operation asks for a non-zero lifetime
  below the tenant's minimum, whatever is stored, and it states that minimum; removals never trip it.\<close>

theorem interval_too_brief_exact:
  "(process K cmd current policy = Reject (IntervalTooBrief m)) =
    (list_all (\<lambda>tag. map ascii_lower tag \<in> set SUPPORTED) (rc_require cmd)
     \<and> (rc_path cmd = [] \<or> rc_supports_path cmd)
     \<and> m = min_expires policy
     \<and> (\<exists>ops op. rc_contacts cmd = Explicit ops \<and> length ops \<le> max_contact_ops policy \<and> op \<in> set ops
         \<and> 0 < requested_expiry cmd policy op \<and> requested_expiry cmd policy op < min_expires policy))"
proof -
  have tags: "filter (\<lambda>tag. \<not> map ascii_lower tag \<in> set SUPPORTED) (rc_require cmd) = []
      \<longleftrightarrow> list_all (\<lambda>tag. map ascii_lower tag \<in> set SUPPORTED) (rc_require cmd)"
    by (simp add: filter_empty_conv list_all_iff)
  have ex: "explicit K cmd current policy ops = Reject (IntervalTooBrief m) \<longleftrightarrow>
      m = min_expires policy \<and> (\<exists>op \<in> set ops. 0 < requested_expiry cmd policy op
        \<and> requested_expiry cmd policy op < min_expires policy)" for ops
  proof
    assume "explicit K cmd current policy ops = Reject (IntervalTooBrief m)"
    then show "m = min_expires policy \<and> (\<exists>op \<in> set ops. 0 < requested_expiry cmd policy op
        \<and> requested_expiry cmd policy op < min_expires policy)"
      by (rule explicit_Reject) (auto simp: granted_expiries_Inl word_neq_0_conv)
  next
    assume a: "m = min_expires policy \<and> (\<exists>op \<in> set ops. 0 < requested_expiry cmd policy op
        \<and> requested_expiry cmd policy op < min_expires policy)"
    then have "granted_expiries cmd policy ops = Inl (IntervalTooBrief m)"
      unfolding granted_expiries_Inl word_neq_0_conv by blast
    with a show "explicit K cmd current policy ops = Reject (IntervalTooBrief m)"
      by (auto simp: explicit_def)
  qed
  show ?thesis
    by (cases "rc_contacts cmd") (auto simp: process_def Let_def tags ex wildcard_def not_less)
qed

text \<open>An over-long request costs nothing: one carrying more contact operations than the tenant
  permits is refused before a stored binding is read or a contact compared, with the same answer for
  every stored set and every way of parsing and comparing URIs.\<close>

theorem over_limit_refused_unread:
  assumes "rc_contacts cmd = Explicit ops" and "max_contact_ops policy < length ops"
  shows "process K cmd current policy = process K' cmd current' policy
    \<and> \<not> commits (process K cmd current policy)
    \<and> outcome_status (process K cmd current policy) \<in> {403, 420, 421}"
  using assms by (simp add: process_def Let_def)

theorem over_limit_refused_unread_witness:
  "outcome_status (process text_kernel (sample_command 1 (Explicit (replicate 65 (sample_op ''sip:x'' None))) 5)
      set_new default_policy) \<in> {403, 420, 421}"
  by (rule over_limit_refused_unread [where ops = "replicate 65 (sample_op ''sip:x'' None)", THEN conjunct2, THEN conjunct2])
    (simp_all add: sample_command_def default_policy_def)

text \<open>What the creation-order argument carries through a pass: the rows are in order, every slot's URI is
  the parse of its row's contact, and every row is old or written by an operation of the pass.\<close>

abbreviation ordered_view where
  "ordered_view K cmd ws old v \<equiv> in_creation_order (rv_set v)
    \<and> (\<forall>r \<in> set (rows v). slot_uri (snd r) = uri_parse K (contact (fst r)))
    \<and> (\<forall>r \<in> set (rows v). provenance cmd ws old r)"

text \<open>Under a stable spelling, the row an operation finds carries the very text the operation does.\<close>

lemma found_row_same_contact:
  assumes P: "ordered_view K cmd (zip ops grants) old v" and al: "aligned v" and og: "(op, g) \<in> set (zip ops grants)"
    and i: "view_find K v (op_uri op) = Some i" "i < length (rows v)"
    and parsed: "\<forall>op \<in> set ops. uri_parse K (op_verbatim op) = Some (op_uri op)"
    and olds: "\<forall>op \<in> set ops. \<forall>b \<in> set old. matches K (op_uri op) b \<longrightarrow> contact b = op_verbatim op"
    and news: "\<forall>op \<in> set ops. \<forall>op' \<in> set ops. equivalent K (op_uri op) (op_uri op') \<longrightarrow> op_verbatim op = op_verbatim op'"
  shows "contact (fst (rows v ! i)) = op_verbatim op"
proof -
  let ?r = "rows v ! i"
  have r: "?r \<in> set (rows v)" using i(2) by (rule nth_mem)
  have op: "op \<in> set ops" using og by (auto dest: set_zip_leftD)
  from i(1) have "case slot_uri (rv_slots v ! i) of None \<Rightarrow> False | Some stored \<Rightarrow> equivalent K stored (op_uri op)"
    by (auto simp: view_find_def dest: position_SomeD)
  moreover have "rv_slots v ! i = snd ?r" using i(2) al by (simp add: rows_def aligned_def)
  ultimately have m: "matches K (op_uri op) (fst ?r)" using P r by (simp add: matches_def)
  show ?thesis
  proof (cases "slot_written (snd ?r)")
    case True
    with P r obtain op' g' at where w: "(op', g') \<in> set (zip ops grants)" "fst ?r = binding_for op' cmd g' at"
      unfolding provenance_def by fastforce
    have op': "op' \<in> set ops" using w(1) by (auto dest: set_zip_leftD)
    have c: "contact (fst ?r) = op_verbatim op'" using w(2) by (simp add: binding_for_def)
    with m parsed op' have "equivalent K (op_uri op') (op_uri op)" unfolding matches_def c by auto
    with news op op' c show ?thesis by auto
  next
    case False
    then have "fst ?r \<in> set old" using P r unfolding provenance_def by auto
    then show ?thesis using m olds op by blast
  qed
qed

lemma ordered_view_step:
  assumes P: "ordered_view K cmd (zip ops grants) old v" and al: "aligned v" and og: "(op, g) \<in> set (zip ops grants)"
    and step: "reconcile_step K cmd op g (v, changed, pds) = Inr (v', changed', pds')"
    and parsed: "\<forall>op \<in> set ops. uri_parse K (op_verbatim op) = Some (op_uri op)"
    and olds: "\<forall>op \<in> set ops. \<forall>b \<in> set old. matches K (op_uri op) b \<longrightarrow> contact b = op_verbatim op"
    and news: "\<forall>op \<in> set ops. \<forall>op' \<in> set ops. equivalent K (op_uri op) (op_uri op') \<longrightarrow> op_verbatim op = op_verbatim op'"
  shows "ordered_view K cmd (zip ops grants) old v'"
proof -
  have "in_creation_order (rv_set v')"
    using al step
  proof (cases rule: reconcile_step_cases)
    case Insert
    have "rv_set (view_insert v (binding_for op cmd g (rc_now cmd)) (op_uri op))
        = snd (insert_at (rv_set v) (binding_for op cmd g (rc_now cmd)))"
      by (simp add: view_insert_def Let_def split: prod.split)
    with Insert P show ?thesis by (simp add: insert_at_created(1))
  next
    case (Write i)
    have b: "fst (rows v ! i) = bindings (rv_set v) ! i" "i < length (bindings (rv_set v))" "i < length (rv_slots v)"
      using Write(2) al by (simp_all add: rows_def aligned_def)
    have same: "contact (fst (rows v ! i)) = op_verbatim op"
      using P al og Write(1,2) parsed olds news by (rule found_row_same_contact)
    show ?thesis
    proof (cases "g = 0")
      case True
      with Write(4) b(3) P show ?thesis by (auto simp: apply_op_def view_remove_def)
    next
      case False
      have "in_creation_order (set_replace (rv_set v) i (binding_for op cmd g (registered_at (fst (rows v ! i)))))"
        by (rule set_replace_same_place) (use P b same in \<open>simp_all add: binding_for_def\<close>)
      with False Write(4) b(3) show ?thesis by (simp add: apply_op_def view_replace_def get_at_def)
    qed
  qed (use P in simp_all)
  moreover have "uri_parse K (op_verbatim op) = Some (op_uri op)" using parsed og by (auto dest: set_zip_leftD)
  ultimately show ?thesis
    using view_faithful_step [OF al step] provenance_step [OF al step og] P by blast
qed

text \<open>Creation order is kept by every request whose operations keep the spelling of the contacts
  they refresh: a committed set is then sorted by creation
  instant and contact bytes, which is the order first-match resolution and insertion rely on.\<close>

theorem creation_order_kept:
  assumes "process K cmd current policy = Commit s r" and "in_creation_order current"
    and "\<forall>ops. rc_contacts cmd = Explicit ops \<longrightarrow> (\<forall>op \<in> set ops. uri_parse K (op_verbatim op) = Some (op_uri op)
      \<and> (\<forall>b \<in> set (active current (rc_now cmd)). matches K (op_uri op) b \<longrightarrow> contact b = op_verbatim op)
      \<and> (\<forall>op' \<in> set ops. equivalent K (op_uri op) (op_uri op') \<longrightarrow> op_verbatim op = op_verbatim op'))"
  shows "in_creation_order s"
  using assms(1)
proof (cases rule: process_Commit)
  case (1 ops)
  let ?old = "drop_expired current (rc_now cmd)"
  from 1(3) obtain grants v pds where
    rec: "reconcile K cmd (zip ops grants) (view_new K ?old, False, []) = Inr (v, True, pds)" and s: "s = rv_set v"
    by (rule explicit_Commit)
  have "ordered_view K cmd (zip ops grants) (bindings ?old) v \<and> aligned v"
    using rec aligned_new
  proof (rule reconcile_induct)
    show "ordered_view K cmd (zip ops grants) (bindings ?old) (view_new K ?old)"
      using assms(2) by (auto simp: provenance_def dest: rows_new_unwritten)
  qed (rule ordered_view_step, use assms(3) 1(1) in \<open>auto simp: drop_expired_def active_def\<close>)
  with s show ?thesis by blast
qed auto

theorem creation_order_kept_witness:
  "in_creation_order \<lparr>bindings = [registered ''sip:x'' 5]\<rparr>"
  by (rule creation_order_kept [OF sample_first_register])
    (simp_all add: matches_def text_kernel_def sample_command_def sample_op_def active_def set_new_def
      in_creation_order_def)

text \<open>Where the spelling changes, creation order is lost: two contacts of one registration, the first
  refreshed under another spelling.\<close>

definition folding_kernel :: "bytes uri_kernel" where
  "folding_kernel = text_kernel\<lparr>equivalent := eq_ignore_case\<rparr>"

lemma respelled_refresh_breaks_creation_order:
  "\<exists>s r. process folding_kernel (sample_command 2 (Explicit [sample_op ''a'' (Some 600)]) 9)
      \<lparr>bindings = [registered ''A'' 5, registered ''B'' 5]\<rparr> default_policy = Commit s r
    \<and> in_creation_order \<lparr>bindings = [registered ''A'' 5, registered ''B'' 5]\<rparr> \<and> \<not> in_creation_order s"
proof -
  have act: "is_active (Timestamp 9) (registered c 5)" "call_id (registered c 5) = ''c1''" "cseq (registered c 5) = 1"
    "contact (registered c 5) = c" "registered_at (registered c 5) = Timestamp 5" for c
    by (simp_all add: registered_def binding_for_def is_active_def timestamp_order after_def sample_command_def
        sample_op_def nanos_of_secs_def saturating_add_def)
  let ?cmd = "sample_command 2 (Explicit [sample_op ''a'' (Some 600)]) 9"
  let ?b = "binding_for (sample_op ''a'' (Some 600)) ?cmd 600 (Timestamp 5)"
  have new: "is_active (Timestamp 9) ?b" "contact ?b = ''a''" "registered_at ?b = Timestamp 5"
    by (simp_all add: binding_for_def is_active_def timestamp_order after_def sample_command_def
        sample_op_def nanos_of_secs_def saturating_add_def)
  have eq: "eq_ignore_case ''A'' ''a''" by (simp add: eq_ignore_case_def ascii_lower_def char_of_def bit_numeral_rec bit_0)
  let ?s = "\<lparr>bindings = [?b, registered ''B'' 5]\<rparr>"
  have ne: "registered ''A'' 5 \<noteq> ?b" using act(4) [of "''A''"] new(2) by force
  have "process folding_kernel ?cmd \<lparr>bindings = [registered ''A'' 5, registered ''B'' 5]\<rparr> default_policy
      = Commit ?s (describe ?s (Timestamp 9))"
    using act new eq ne
    by (simp add: reconcile_eval folding_kernel_def active_count_def active_def set_replace_def enumerate_Suc_eq)
  moreover have "in_creation_order \<lparr>bindings = [registered ''A'' 5, registered ''B'' 5]\<rparr>" "\<not> in_creation_order ?s"
    using act new by (simp_all add: in_creation_order_def created_le_def)
  ultimately show ?thesis by blast
qed

end
