(* ===== verification/Store.thy ===== *)
theory Store imports Prelude Register begin

text \<open>
  \<^verbatim>\<open>crates/sipx-clstr-registrar/src/store.rs\<close>: the location store's contract as a locale,
  the in-memory backend that meets it, the read-decide-commit driver, and a step relation in which
  several nodes drive one store.  The lemmas show that the driver is bounded and refuses only when it
  must, that a commit installs exactly what was decided and touches no other address, and that
  however the nodes interleave, each address holds what the commands that committed decide when run
  one after another.
\<close>

section \<open>The contract's data\<close>

record cas_conflict =
  cc_expected :: revision
  cc_current :: revision

datatype read_failure = ReadUnavailable string | Undecodable string

record change =
  ch_tenant :: string
  ch_aor :: canonical_aor
  ch_revision :: revision

text \<open>The trait's operations over a backend state.\<close>

record 's location_store =
  ls_read :: "'s \<Rightarrow> string \<Rightarrow> canonical_aor \<Rightarrow> read_failure + (binding_set \<times> revision)"
  ls_commit :: "'s \<Rightarrow> string \<Rightarrow> canonical_aor \<Rightarrow> revision \<Rightarrow> binding_set \<Rightarrow> (cas_conflict + revision) \<times> 's"
  ls_lookup :: "'s \<Rightarrow> string \<Rightarrow> canonical_aor \<Rightarrow> timestamp \<Rightarrow> read_failure + target list"
  ls_changes :: "'s \<Rightarrow> change list"

section \<open>The driver\<close>

definition DEFAULT_CAS_RETRIES :: nat where "DEFAULT_CAS_RETRIES = 3"

record applied =
  ap_outcome :: outcome
  ap_revision :: "revision option"
  ap_conflicts :: nat

text \<open>The loop of \<^verbatim>\<open>apply\<close>, with the retries that are left counted down.  The store is
  shared: \<open>others n\<close> is what the other users of the store did to it before this command's \<open>n\<close>-th
  store call.\<close>

fun apply_loop ::
  "'s location_store \<Rightarrow> (nat \<Rightarrow> 's \<Rightarrow> 's) \<Rightarrow> ('u, 'x) uri_kernel_scheme \<Rightarrow> 'u register_command \<Rightarrow> tenant_policy
    \<Rightarrow> nat \<Rightarrow> nat \<Rightarrow> 's \<Rightarrow> applied \<times> 's" where
  "apply_loop st others K cmd policy left conflicts s =
    (let s = others (2 * conflicts) s in
     case ls_read st s (rc_tenant cmd) (rc_aor cmd) of
       Inl failure \<Rightarrow> (\<lparr>ap_outcome = Reject Unavailable, ap_revision = None, ap_conflicts = conflicts\<rparr>, s)
     | Inr (current, revision) \<Rightarrow>
        (case process K cmd current policy of
           Commit new response \<Rightarrow>
            (let s = others (2 * conflicts + 1) s in
             case ls_commit st s (rc_tenant cmd) (rc_aor cmd) revision new of
               (Inr committed, s) \<Rightarrow>
                (\<lparr>ap_outcome = Commit new response, ap_revision = Some committed, ap_conflicts = conflicts\<rparr>, s)
             | (Inl conflict, s) \<Rightarrow>
                (case left of
                   0 \<Rightarrow> (\<lparr>ap_outcome = Reject Unavailable, ap_revision = Some (cc_current conflict),
                          ap_conflicts = conflicts + 1\<rparr>, s)
                 | Suc left \<Rightarrow> apply_loop st others K cmd policy left (conflicts + 1) s))
         | outcome \<Rightarrow> (\<lparr>ap_outcome = outcome, ap_revision = Some revision, ap_conflicts = conflicts\<rparr>, s)))"

declare apply_loop.simps [simp del]

definition apply_command ::
  "'s location_store \<Rightarrow> (nat \<Rightarrow> 's \<Rightarrow> 's) \<Rightarrow> ('u, 'x) uri_kernel_scheme \<Rightarrow> 'u register_command \<Rightarrow> tenant_policy
    \<Rightarrow> nat \<Rightarrow> 's \<Rightarrow> applied \<times> 's" where
  "apply_command st others K cmd policy retries s = apply_loop st others K cmd policy retries 0 s"

section \<open>The in-memory backend\<close>

definition CHANGE_FEED_CAPACITY :: nat where "CHANGE_FEED_CAPACITY = 1024"

record memory =
  mem_rows :: "string \<times> canonical_aor \<Rightarrow> (binding_set \<times> revision) option"
  mem_changes :: "change list"

definition mem_new :: memory where
  "mem_new = \<lparr>mem_rows = (\<lambda>_. None), mem_changes = []\<rparr>"

definition mem_row_count :: "memory \<Rightarrow> nat" where
  "mem_row_count m = card (dom (mem_rows m))"

definition mem_read :: "memory \<Rightarrow> string \<Rightarrow> canonical_aor \<Rightarrow> read_failure + (binding_set \<times> revision)" where
  "mem_read m tenant aor =
    Inr (case mem_rows m (tenant, aor) of None \<Rightarrow> (set_new, INITIAL) | Some found \<Rightarrow> found)"

definition mem_commit ::
  "memory \<Rightarrow> string \<Rightarrow> canonical_aor \<Rightarrow> revision \<Rightarrow> binding_set \<Rightarrow> (cas_conflict + revision) \<times> memory" where
  "mem_commit m tenant aor expected new =
    (let current = (case mem_rows m (tenant, aor) of None \<Rightarrow> INITIAL | Some (_, revision) \<Rightarrow> revision) in
     if current \<noteq> expected then (Inl \<lparr>cc_expected = expected, cc_current = current\<rparr>, m)
     else
       let next = next_revision current;
           changes = mem_changes m @ [\<lparr>ch_tenant = tenant, ch_aor = aor, ch_revision = next\<rparr>];
           changes = (if length changes > CHANGE_FEED_CAPACITY then tl changes else changes)
       in (Inr next, m\<lparr>mem_rows := (mem_rows m)((tenant, aor) \<mapsto> (new, next)), mem_changes := changes\<rparr>))"

definition mem_lookup :: "memory \<Rightarrow> string \<Rightarrow> canonical_aor \<Rightarrow> timestamp \<Rightarrow> read_failure + target list" where
  "mem_lookup m tenant aor now =
    (case mem_rows m (tenant, aor) of None \<Rightarrow> Inr [] | Some (found, _) \<Rightarrow> Inr (order_targets found now))"

definition memory_store :: "memory location_store" where
  "memory_store = \<lparr>ls_read = mem_read, ls_commit = mem_commit, ls_lookup = mem_lookup, ls_changes = mem_changes\<rparr>"

section \<open>What any store leaves of the driver\<close>

lemma process_not_unavailable: "process K cmd current policy \<noteq> Reject Unavailable"
proof
  assume a: "process K cmd current policy = Reject Unavailable"
  show False
  proof (cases "rc_contacts cmd")
    case (Explicit ops)
    with a have "explicit K cmd current policy ops = Reject Unavailable"
      by (auto simp: process_def Let_def split: if_splits)
    then show False by (rule explicit_Reject) (auto simp: granted_expiries_Inl)
  next
    case Wildcard
    with a show False by (auto simp: process_def wildcard_def Let_def split: if_splits)
  qed
qed

lemma apply_loop_bounded:
  assumes "apply_loop st others K cmd policy left conflicts s = (ap, s')"
  shows "conflicts \<le> ap_conflicts ap \<and> ap_conflicts ap \<le> conflicts + left + 1
    \<and> (ap_outcome ap = Reject Unavailable \<longleftrightarrow> ap_revision ap = None \<or> ap_conflicts ap = conflicts + left + 1)"
  using assms
proof (induction left arbitrary: conflicts s)
  case 0
  then show ?case
    using process_not_unavailable [of K cmd _ policy]
    by (subst (asm) apply_loop.simps)
      (auto simp: Let_def split: sum.splits prod.splits outcome.splits)
next
  case (Suc left)
  show ?case
  proof (cases "\<exists>c s1. apply_loop st others K cmd policy left (conflicts + 1) s1 = (ap, s')")
    case True
    with Suc.IH show ?thesis by fastforce
  next
    case False
    then show ?thesis
      using Suc.prems process_not_unavailable [of K cmd _ policy]
      by (subst (asm) apply_loop.simps)
        (auto simp: Let_def split: sum.splits prod.splits outcome.splits)
  qed
qed

section \<open>The store's contract\<close>

text \<open>What an implementation of \<^verbatim>\<open>LocationStore\<close> promises (location-service section 6): a
  commit under the revision a read would return installs the set under the next revision and leaves
  the other addresses alone, any other commit is refused and changes nothing, and a lookup is the
  forking order of what a read returns.\<close>

locale store_contract =
  fixes st :: "'s location_store"
  assumes commit_fresh: "ls_read st s t a = Inr (cur, rv) \<Longrightarrow>
      \<exists>s'. ls_commit st s t a rv new = (Inr (next_revision rv), s')
        \<and> ls_read st s' t a = Inr (new, next_revision rv)
        \<and> (\<forall>t' a'. (t', a') \<noteq> (t, a) \<longrightarrow> ls_read st s' t' a' = ls_read st s t' a')"
    and commit_stale: "ls_read st s t a = Inr (cur, rv) \<Longrightarrow> expected \<noteq> rv \<Longrightarrow>
      ls_commit st s t a expected new = (Inl \<lparr>cc_expected = expected, cc_current = rv\<rparr>, s)"
    and lookup_reads: "ls_lookup st s t a now = map_sum id (\<lambda>(found, rv). order_targets found now) (ls_read st s t a)"
begin

lemma apply_undisturbed:
  assumes read: "ls_read st s (rc_tenant cmd) (rc_aor cmd) = Inr (cur, rv)"
    and "apply_command st (\<lambda>_ s. s) K cmd policy retries s = (ap, s')"
  shows "ap_outcome ap = process K cmd cur policy \<and> ap_conflicts ap = 0
    \<and> (case process K cmd cur policy of
        Commit new r \<Rightarrow> ap_revision ap = Some (next_revision rv)
          \<and> ls_read st s' (rc_tenant cmd) (rc_aor cmd) = Inr (new, next_revision rv)
          \<and> (\<forall>t a. (t, a) \<noteq> (rc_tenant cmd, rc_aor cmd) \<longrightarrow> ls_read st s' t a = ls_read st s t a)
      | _ \<Rightarrow> ap_revision ap = Some rv \<and> s' = s)"
proof (cases "process K cmd cur policy")
  case (Commit new r)
  obtain s1 where "ls_commit st s (rc_tenant cmd) (rc_aor cmd) rv new = (Inr (next_revision rv), s1)"
    "ls_read st s1 (rc_tenant cmd) (rc_aor cmd) = Inr (new, next_revision rv)"
    "\<forall>t a. (t, a) \<noteq> (rc_tenant cmd, rc_aor cmd) \<longrightarrow> ls_read st s1 t a = ls_read st s t a"
    using commit_fresh [OF read] by blast
  with assms Commit show ?thesis
    by (auto simp: apply_command_def apply_loop.simps [of st])
qed (use assms in \<open>auto simp: apply_command_def apply_loop.simps [of st]\<close>)

text \<open>A read that fails is a refusal and nothing else (K7).\<close>

lemma apply_read_failure:
  "ls_read st (others 0 s) (rc_tenant cmd) (rc_aor cmd) = Inl failure \<Longrightarrow>
    apply_command st others K cmd policy retries s
      = (\<lparr>ap_outcome = Reject Unavailable, ap_revision = None, ap_conflicts = 0\<rparr>, others 0 s)"
  by (simp add: apply_command_def apply_loop.simps [of st])

lemma lookup_after_commit:
  assumes "ls_read st s t a = Inr (cur, rv)" "ls_commit st s t a rv new = (Inr next, s')"
  shows "ls_lookup st s' t a now = Inr (order_targets new now)"
  using commit_fresh [OF assms(1), of new] assms(2) by (auto simp: lookup_reads)

end

interpretation memory: store_contract memory_store
proof
  fix s :: memory and t a cur rv new
  assume r: "ls_read memory_store s t a = Inr (cur, rv)"
  then have current: "(case mem_rows s (t, a) of None \<Rightarrow> INITIAL | Some (_, revision) \<Rightarrow> revision) = rv"
    by (auto simp: memory_store_def mem_read_def split: option.splits)
  show "\<exists>s'. ls_commit memory_store s t a rv new = (Inr (next_revision rv), s')
        \<and> ls_read memory_store s' t a = Inr (new, next_revision rv)
        \<and> (\<forall>t' a'. (t', a') \<noteq> (t, a) \<longrightarrow> ls_read memory_store s' t' a' = ls_read memory_store s t' a')"
    by (auto simp: memory_store_def mem_commit_def current Let_def mem_read_def)
  show "ls_commit memory_store s t a expected new = (Inl \<lparr>cc_expected = expected, cc_current = rv\<rparr>, s)"
    if "expected \<noteq> rv" for expected
    using that by (auto simp: memory_store_def mem_commit_def current Let_def)
next
  fix s :: memory and t a now
  show "ls_lookup memory_store s t a now = map_sum id (\<lambda>(found, rv). order_targets found now) (ls_read memory_store s t a)"
    by (auto simp: memory_store_def mem_lookup_def mem_read_def order_targets_def active_def set_new_def sort_by_def
        split: option.splits)
qed

section \<open>Nodes sharing one store\<close>

text \<open>Nodes that drive one store, each through the phases of \<^verbatim>\<open>apply\<close>: a node reads and
  holds what it read, decides on it, and commits under the revision it read, any other node's steps
  in between.  A conflict drops what was read; the retry is the next read.  The log is the commands
  that committed, oldest first.\<close>

record 'u in_flight =
  fl_cmd :: "'u register_command"
  fl_current :: binding_set
  fl_revision :: revision

record 'u cluster =
  cl_store :: memory
  cl_nodes :: "nat \<Rightarrow> 'u in_flight option"
  cl_log :: "'u register_command list"

definition cluster_new :: "'u cluster" where
  "cluster_new = \<lparr>cl_store = mem_new, cl_nodes = (\<lambda>_. None), cl_log = []\<rparr>"

inductive cluster_step ::
  "('u, 'x) uri_kernel_scheme \<Rightarrow> tenant_policy \<Rightarrow> 'u cluster \<Rightarrow> 'u cluster \<Rightarrow> bool" for K policy where
  ReadRow: "cl_nodes c n = None \<Longrightarrow>
    ls_read memory_store (cl_store c) (rc_tenant cmd) (rc_aor cmd) = Inr (cur, rv) \<Longrightarrow>
    cluster_step K policy c (c\<lparr>cl_nodes := (cl_nodes c)(n \<mapsto> \<lparr>fl_cmd = cmd, fl_current = cur, fl_revision = rv\<rparr>)\<rparr>)"
| Answer: "cl_nodes c n = Some f \<Longrightarrow> \<not> commits (process K (fl_cmd f) (fl_current f) policy) \<Longrightarrow>
    cluster_step K policy c (c\<lparr>cl_nodes := (cl_nodes c)(n := None)\<rparr>)"
| Install: "cl_nodes c n = Some f \<Longrightarrow> process K (fl_cmd f) (fl_current f) policy = Commit new r \<Longrightarrow>
    ls_commit memory_store (cl_store c) (rc_tenant (fl_cmd f)) (rc_aor (fl_cmd f)) (fl_revision f) new
      = (Inr committed, m) \<Longrightarrow>
    cluster_step K policy c
      (c\<lparr>cl_store := m, cl_nodes := (cl_nodes c)(n := None), cl_log := cl_log c @ [fl_cmd f]\<rparr>)"
| Conflict: "cl_nodes c n = Some f \<Longrightarrow> process K (fl_cmd f) (fl_current f) policy = Commit new r \<Longrightarrow>
    ls_commit memory_store (cl_store c) (rc_tenant (fl_cmd f)) (rc_aor (fl_cmd f)) (fl_revision f) new
      = (Inl conflict, m) \<Longrightarrow>
    cluster_step K policy c (c\<lparr>cl_store := m, cl_nodes := (cl_nodes c)(n := None)\<rparr>)"

inductive cluster_reachable :: "('u, 'x) uri_kernel_scheme \<Rightarrow> tenant_policy \<Rightarrow> 'u cluster \<Rightarrow> bool" for K policy where
  Start: "cluster_reachable K policy cluster_new"
| Step: "cluster_reachable K policy c \<Longrightarrow> cluster_step K policy c c' \<Longrightarrow> cluster_reachable K policy c'"

inductive_cases cluster_stepE: "cluster_step K policy c c'"

text \<open>The serial specification: the commands one after another, each decided on what its predecessors
  left.\<close>

definition row_key :: "'u register_command \<Rightarrow> string \<times> canonical_aor" where
  "row_key cmd = (rc_tenant cmd, rc_aor cmd)"

definition replay_one ::
  "('u, 'x) uri_kernel_scheme \<Rightarrow> tenant_policy \<Rightarrow> (string \<times> canonical_aor \<Rightarrow> binding_set) \<Rightarrow> 'u register_command
    \<Rightarrow> (string \<times> canonical_aor \<Rightarrow> binding_set)" where
  "replay_one K policy m cmd =
    (case process K cmd (m (row_key cmd)) policy of Commit new r \<Rightarrow> m(row_key cmd := new) | _ \<Rightarrow> m)"

definition replay ::
  "('u, 'x) uri_kernel_scheme \<Rightarrow> tenant_policy \<Rightarrow> 'u register_command list \<Rightarrow> string \<times> canonical_aor \<Rightarrow> binding_set" where
  "replay K policy log = foldl (replay_one K policy) (\<lambda>_. set_new) log"

definition writes :: "string \<times> canonical_aor \<Rightarrow> 'u register_command list \<Rightarrow> nat" where
  "writes k log = length (filter (\<lambda>cmd. row_key cmd = k) log)"

lemma replay_snoc: "replay K policy (log @ [cmd]) = replay_one K policy (replay K policy log) cmd"
  by (simp add: replay_def)

lemma writes_snoc: "writes k (log @ [cmd]) = (if row_key cmd = k then Suc (writes k log) else writes k log)"
  by (simp add: writes_def)

lemma writes_le: "writes k log \<le> length log"
  by (simp add: writes_def)

lemma replay_unwritten: "writes k log' = 0 \<Longrightarrow> replay K policy (log @ log') k = replay K policy log k"
proof (induction log' rule: rev_induct)
  case (snoc cmd log')
  then have "row_key cmd \<noteq> k" "writes k log' = 0" by (auto simp: writes_snoc split: if_splits)
  moreover have "replay K policy (log @ log' @ [cmd]) = replay_one K policy (replay K policy (log @ log')) cmd"
    using replay_snoc [of K policy "log @ log'"] by simp
  ultimately show ?case using snoc.IH by (auto simp: replay_one_def split: outcome.split)
qed simp

lemma replay_prefix:
  assumes "writes k (take j log) = writes k log"
  shows "replay K policy (take j log) k = replay K policy log k"
proof -
  have "writes k (take j log @ drop j log) = writes k (take j log) + writes k (drop j log)"
    by (simp only: writes_def filter_append length_append)
  then have "writes k (drop j log) = 0" using assms by simp
  from replay_unwritten [OF this, of K policy "take j log"] show ?thesis by simp
qed

definition serialized :: "('u, 'x) uri_kernel_scheme \<Rightarrow> tenant_policy \<Rightarrow> 'u cluster \<Rightarrow> bool" where
  "serialized K policy c \<longleftrightarrow>
    (\<forall>k. ls_read memory_store (cl_store c) (fst k) (snd k)
        = Inr (replay K policy (cl_log c) k, Revision (of_nat (writes k (cl_log c)))))
    \<and> (\<forall>n f. cl_nodes c n = Some f \<longrightarrow> (\<exists>j \<le> length (cl_log c).
        fl_current f = replay K policy (take j (cl_log c)) (row_key (fl_cmd f))
        \<and> fl_revision f = Revision (of_nat (writes (row_key (fl_cmd f)) (take j (cl_log c))))))
    \<and> (\<forall>i < length (cl_log c).
        commits (process K (cl_log c ! i) (replay K policy (take i (cl_log c)) (row_key (cl_log c ! i))) policy))"

lemma of_nat_u64_inj: "m < 2 ^ 64 \<Longrightarrow> n < 2 ^ 64 \<Longrightarrow> (of_nat m :: u64) = of_nat n \<Longrightarrow> m = n"
proof -
  assume small: "m < 2 ^ 64" "n < 2 ^ 64" and eq: "(of_nat m :: u64) = of_nat n"
  from small have "unat (of_nat m :: u64) = m" "unat (of_nat n :: u64) = n"
    by (simp_all add: unat_of_nat take_bit_nat_eq_self)
  with eq show "m = n" by metis
qed

lemma serialized_nodes:
  assumes "serialized K policy c" "\<forall>n f. nodes n = Some f \<longrightarrow> cl_nodes c n = Some f"
  shows "serialized K policy (c\<lparr>cl_nodes := nodes\<rparr>)"
  using assms unfolding serialized_def by (simp, blast)

lemma serialized_step:
  assumes "cluster_step K policy c c'" "serialized K policy c" "length (cl_log c') < 2 ^ 64"
  shows "serialized K policy c'"
  using assms(1)
proof (cases rule: cluster_step.cases)
  case (ReadRow n cmd cur rv)
  have "ls_read memory_store (cl_store c) (rc_tenant cmd) (rc_aor cmd)
      = Inr (replay K policy (cl_log c) (row_key cmd), Revision (of_nat (writes (row_key cmd) (cl_log c))))"
    using assms(2) unfolding serialized_def row_key_def by (metis fst_conv snd_conv)
  with ReadRow have now: "cur = replay K policy (take (length (cl_log c)) (cl_log c)) (row_key cmd)"
    "rv = Revision (of_nat (writes (row_key cmd) (take (length (cl_log c)) (cl_log c))))" by simp_all
  have "\<exists>j \<le> length (cl_log c). fl_current f = replay K policy (take j (cl_log c)) (row_key (fl_cmd f))
        \<and> fl_revision f = Revision (of_nat (writes (row_key (fl_cmd f)) (take j (cl_log c))))"
    if "((cl_nodes c)(n \<mapsto> \<lparr>fl_cmd = cmd, fl_current = cur, fl_revision = rv\<rparr>)) n' = Some f" for n' f
  proof (cases "n' = n")
    case True
    with that now show ?thesis by auto
  next
    case False
    with that assms(2) show ?thesis unfolding serialized_def by auto
  qed
  with assms(2) show ?thesis unfolding ReadRow(1) serialized_def by simp
next
  case (Answer n f)
  then show ?thesis using assms(2) by (auto intro!: serialized_nodes split: if_splits)
next
  case (Conflict n f new r conflict m)
  have "m = cl_store c"
    using Conflict(4) by (auto simp: memory_store_def mem_commit_def Let_def split: if_splits)
  moreover have "serialized K policy (c\<lparr>cl_nodes := (cl_nodes c)(n := None)\<rparr>)"
    using assms(2) by (rule serialized_nodes) auto
  ultimately show ?thesis unfolding Conflict(1) by (simp add: serialized_def)
next
  case (Install n f new r committed m)
  let ?k = "row_key (fl_cmd f)" let ?log = "cl_log c"
  have len: "length ?log < 2 ^ 64" using assms(3) unfolding Install(1) by simp
  have read: "ls_read memory_store (cl_store c) (fst k) (snd k)
      = Inr (replay K policy ?log k, Revision (of_nat (writes k ?log)))" for k
    using assms(2) by (simp add: serialized_def)
  note here = read [of ?k, unfolded row_key_def fst_conv snd_conv, folded row_key_def]
  obtain j where j: "fl_current f = replay K policy (take j ?log) ?k"
    "fl_revision f = Revision (of_nat (writes ?k (take j ?log)))"
    using assms(2) Install(2) unfolding serialized_def by blast
  have rv: "fl_revision f = Revision (of_nat (writes ?k ?log))"
    using memory.commit_stale [OF here, of "fl_revision f" new] Install(4) by auto
  have "writes ?k (take j ?log) = writes ?k ?log"
  proof (rule of_nat_u64_inj)
    show "writes ?k (take j ?log) < 2 ^ 64" "writes ?k ?log < 2 ^ 64"
      using writes_le [of ?k "take j ?log"] writes_le [of ?k ?log] len by auto
  qed (use j(2) rv in simp)
  from replay_prefix [OF this] j(1) have cur: "fl_current f = replay K policy ?log ?k" by metis
  have one: "replay K policy (?log @ [fl_cmd f]) = (replay K policy ?log)(?k := new)"
    using Install(3) cur by (simp add: replay_snoc replay_one_def)
  from memory.commit_fresh [OF here, of new] Install(4) [unfolded rv]
  have m: "ls_read memory_store m (fst ?k) (snd ?k) = Inr (new, next_revision (Revision (of_nat (writes ?k ?log))))"
    "\<forall>t' a'. (t', a') \<noteq> ?k \<longrightarrow> ls_read memory_store m t' a' = ls_read memory_store (cl_store c) t' a'"
    by (auto simp: row_key_def)
  have "ls_read memory_store m (fst k) (snd k)
      = Inr (replay K policy (?log @ [fl_cmd f]) k, Revision (of_nat (writes k (?log @ [fl_cmd f]))))" for k
  proof (cases "k = ?k")
    case True
    then show ?thesis unfolding one True m(1) by (simp add: writes_snoc next_revision_def)
  next
    case False
    then have "ls_read memory_store m (fst k) (snd k) = ls_read memory_store (cl_store c) (fst k) (snd k)"
      using m(2) by simp
    with False show ?thesis unfolding one read by (simp add: writes_snoc)
  qed
  moreover have "\<exists>j \<le> length (?log @ [fl_cmd f]). fl_current g = replay K policy (take j (?log @ [fl_cmd f])) (row_key (fl_cmd g))
        \<and> fl_revision g = Revision (of_nat (writes (row_key (fl_cmd g)) (take j (?log @ [fl_cmd f]))))"
    if in_flight: "cl_nodes c n' = Some g" for n' g
  proof -
    obtain j where "j \<le> length ?log" "fl_current g = replay K policy (take j ?log) (row_key (fl_cmd g))"
      "fl_revision g = Revision (of_nat (writes (row_key (fl_cmd g)) (take j ?log)))"
      using assms(2) in_flight unfolding serialized_def by blast
    then show ?thesis by (intro exI [of _ j]) simp
  qed
  moreover have "commits (process K ((?log @ [fl_cmd f]) ! i)
      (replay K policy (take i (?log @ [fl_cmd f])) (row_key ((?log @ [fl_cmd f]) ! i))) policy)"
    if "i < length (?log @ [fl_cmd f])" for i
  proof (cases "i < length ?log")
    case True
    then show ?thesis using assms(2) unfolding serialized_def by (simp add: nth_append)
  next
    case False
    with that have "i = length ?log" by simp
    then show ?thesis using Install(3) cur by simp
  qed
  ultimately show ?thesis unfolding Install(1) serialized_def by simp
qed

lemma log_grows: "cluster_step K policy c c' \<Longrightarrow> length (cl_log c) \<le> length (cl_log c')"
  by (auto elim!: cluster_stepE)

lemma serialized_reachable:
  "cluster_reachable K policy c \<Longrightarrow> length (cl_log c) < 2 ^ 64 \<Longrightarrow> serialized K policy c"
proof (induction rule: cluster_reachable.induct)
  case Start
  show ?case
    by (simp add: serialized_def cluster_new_def mem_new_def memory_store_def mem_read_def replay_def writes_def
        INITIAL_def)
next
  case (Step c c')
  then have "serialized K policy c" using log_grows [OF Step.hyps(2)] by simp
  then show ?case using serialized_step [OF Step.hyps(2)] Step.prems by blast
qed

section \<open>Properties\<close>

text \<open>C1. Registrations are processed in order and atomically, however the nodes interleave: in every
  state several nodes reach over one store, each address holds exactly the set, at exactly the
  revision, that the commands that committed produce when decided one after another in commit order,
  each on what its predecessors left, and each of them is a commit there, so no update is lost.\<close>

theorem registrations_serialize:
  assumes "cluster_reachable K policy c" and "length (cl_log c) < 2 ^ 64"
  shows "ls_read memory_store (cl_store c) tenant aor
      = Inr (replay K policy (cl_log c) (tenant, aor), Revision (of_nat (writes (tenant, aor) (cl_log c))))
    \<and> (\<forall>i < length (cl_log c).
        commits (process K (cl_log c ! i) (replay K policy (take i (cl_log c)) (row_key (cl_log c ! i))) policy))"
  using serialized_reachable [OF assms] unfolding serialized_def by (metis fst_conv snd_conv)

theorem registrations_serialize_witness:
  "\<exists>c. cluster_reachable text_kernel default_policy c
    \<and> ls_read memory_store (cl_store c) ''t'' (CanonicalAor ''sip:a@h'')
      = Inr (\<lparr>bindings = [registered ''sip:x'' 5]\<rparr>, Revision 1)"
proof -
  let ?cmd = "sample_command 1 (Explicit [sample_op ''sip:x'' (Some 600)]) 5"
  have key: "rc_tenant ?cmd = ''t''" "rc_aor ?cmd = CanonicalAor ''sip:a@h''" "row_key ?cmd = (''t'', CanonicalAor ''sip:a@h'')"
    by (simp_all add: sample_command_def row_key_def)
  let ?f = "\<lparr>fl_cmd = ?cmd, fl_current = set_new, fl_revision = INITIAL\<rparr>"
  let ?c1 = "cluster_new\<lparr>cl_nodes := (cl_nodes cluster_new)(0 \<mapsto> ?f)\<rparr>"
  have read: "ls_read memory_store (cl_store cluster_new) (rc_tenant ?cmd) (rc_aor ?cmd) = Inr (set_new, INITIAL)"
    by (simp add: cluster_new_def memory_store_def mem_new_def mem_read_def)
  have "cl_nodes cluster_new 0 = None" by (simp add: cluster_new_def)
  then have r1: "cluster_reachable text_kernel default_policy ?c1"
    by (rule cluster_reachable.Step [OF cluster_reachable.Start cluster_step.ReadRow [OF _ read]])
  obtain m where m: "ls_commit memory_store (cl_store ?c1) (rc_tenant (fl_cmd ?f)) (rc_aor (fl_cmd ?f)) (fl_revision ?f)
      \<lparr>bindings = [registered ''sip:x'' 5]\<rparr> = (Inr (next_revision INITIAL), m)"
    using memory.commit_fresh [OF read, of "\<lparr>bindings = [registered ''sip:x'' 5]\<rparr>"] by auto
  let ?c = "?c1\<lparr>cl_store := m, cl_nodes := (cl_nodes ?c1)(0 := None), cl_log := cl_log ?c1 @ [fl_cmd ?f]\<rparr>"
  have log: "cl_log ?c = [?cmd]" by (simp add: cluster_new_def)
  have r: "cluster_reachable text_kernel default_policy ?c"
    by (rule cluster_reachable.Step [OF r1 cluster_step.Install [OF _ _ m]]) (simp_all add: sample_first_register)
  have "ls_read memory_store (cl_store ?c) ''t'' (CanonicalAor ''sip:a@h'')
      = Inr (replay text_kernel default_policy [?cmd] (''t'', CanonicalAor ''sip:a@h''),
          Revision (of_nat (writes (''t'', CanonicalAor ''sip:a@h'') [?cmd])))"
    using registrations_serialize [OF r, THEN conjunct1, of "''t''" "CanonicalAor ''sip:a@h''"] unfolding log by simp
  then have "ls_read memory_store (cl_store ?c) ''t'' (CanonicalAor ''sip:a@h'')
      = Inr (\<lparr>bindings = [registered ''sip:x'' 5]\<rparr>, Revision 1)"
    by (simp add: replay_def replay_one_def key writes_def sample_first_register)
  with r show ?thesis by blast
qed

text \<open>The driver always ends and is honest about why: over any store and whatever its other users
  do meanwhile, it absorbs at most one conflict more than its retries, and it answers \<open>503\<close> exactly
  when a read failed or the conflicts used up every retry, never as a decision on the command.\<close>

theorem apply_bounded:
  "let ap = fst (apply_command st others K cmd policy retries s) in
    ap_conflicts ap \<le> retries + 1
    \<and> (ap_outcome ap = Reject Unavailable) = (ap_revision ap = None \<or> ap_conflicts ap = retries + 1)"
proof -
  obtain ap s' where "apply_command st others K cmd policy retries s = (ap, s')" by (cases "apply_command st others K cmd policy retries s")
  with apply_loop_bounded [of st others K cmd policy retries 0 s ap s'] show ?thesis
    by (simp add: apply_command_def)
qed

text \<open>On the in-memory store an undisturbed command takes effect once and in one place: what it
  answers is the decision on the stored set; a commit installs that decision under the next revision,
  visible to the next read and lookup, and leaves every other address alone; anything else leaves the
  store as it was.\<close>

theorem apply_installs_decision:
  "let (ap, m') = apply_command memory_store (\<lambda>_ m. m) K cmd policy retries m in
    \<exists>cur rv. ls_read memory_store m (rc_tenant cmd) (rc_aor cmd) = Inr (cur, rv)
      \<and> ap_outcome ap = process K cmd cur policy \<and> ap_conflicts ap = 0
      \<and> (case process K cmd cur policy of
          Commit new r \<Rightarrow> ap_revision ap = Some (next_revision rv)
            \<and> ls_read memory_store m' (rc_tenant cmd) (rc_aor cmd) = Inr (new, next_revision rv)
            \<and> ls_lookup memory_store m' (rc_tenant cmd) (rc_aor cmd) now = Inr (order_targets new now)
            \<and> \<not> (\<exists>t a. (t, a) \<noteq> (rc_tenant cmd, rc_aor cmd) \<and> ls_read memory_store m' t a \<noteq> ls_read memory_store m t a)
        | _ \<Rightarrow> ap_revision ap = Some rv \<and> m' = m)"
proof -
  obtain ap m' where ap: "apply_command memory_store (\<lambda>_ m. m) K cmd policy retries m = (ap, m')"
    by (cases "apply_command memory_store (\<lambda>_ m. m) K cmd policy retries m")
  obtain cur rv where read: "ls_read memory_store m (rc_tenant cmd) (rc_aor cmd) = Inr (cur, rv)"
    by (cases "mem_rows m (rc_tenant cmd, rc_aor cmd)") (auto simp: memory_store_def mem_read_def)
  from memory.apply_undisturbed [OF read ap] show ?thesis
    unfolding ap Let_def prod.case
    by (intro exI [of _ cur] exI [of _ rv])
      (auto simp: read memory.lookup_reads split: outcome.splits)
qed

end
