(* ===== verification/Message.thy ===== *)
theory Message imports Prelude Aor begin

text \<open>
  The SIP message kernel (\<^verbatim>\<open>sipx_sip\<close>) as the registrar and the proxy use it: third-party
  code, so every operation is a field of a record over abstract types of URIs, addresses, requests,
  responses, headers and \<^verbatim>\<open>Via\<close>s, and what the proxy's theorems rely on is the predicate
  \<open>header_laws\<close>: the header collection is an ordered multimap and headers read back as built.
\<close>

section \<open>Reading a request\<close>

datatype header_name = CallId | CSeq | To | Contact | Expires | Path | Supported | Require
  | Via | From | Route | RecordRoute | MaxForwards | ProxyRequire | Unsupported
  | WwwAuthenticate | ProxyAuthenticate | Allow | MinExpires | RetryAfter | OtherHeader bytes

record ('u, 'req, 'addr) sip_kernel = "'u uri_kernel" +
  uri_to_bytes :: "'u \<Rightarrow> bytes"
  req_uri :: "'req \<Rightarrow> 'u"
  req_method :: "'req \<Rightarrow> string"
  header_value :: "'req \<Rightarrow> header_name \<Rightarrow> bytes option"
  header_all :: "'req \<Rightarrow> header_name \<Rightarrow> bytes list"
  address_parse :: "bytes \<Rightarrow> 'addr option"
  address_parse_list :: "bytes \<Rightarrow> 'addr list option"
  addr_uri :: "'addr \<Rightarrow> 'u"
  addr_param :: "'addr \<Rightarrow> string \<Rightarrow> bytes option"

section \<open>Editing messages\<close>

text \<open>\<open>uri_param\<close> is \<^verbatim>\<open>uri.params()?.value(name)\<close>, \<open>has_param\<close> is
  \<^verbatim>\<open>uri.params().is_some_and(|p| p.get(name).is_some())\<close>, \<open>uri_scheme_bytes\<close> is
  \<^verbatim>\<open>uri.scheme().as_bytes()\<close>; \<open>respond_to\<close> is
  \<^verbatim>\<open>ResponseBuilder::to_request(request, status, reason)\<close> followed by \<^verbatim>\<open>build\<close>,
  and \<open>valid_status\<close> is whether \<^verbatim>\<open>StatusCode::new\<close> accepts the number.\<close>

record ('u, 'req, 'addr, 'hdr, 'via, 'resp) message_kernel = "('u, 'req, 'addr) sip_kernel" +
  uri_scheme_bytes :: "'u \<Rightarrow> bytes"
  host_bytes :: "host \<Rightarrow> bytes"
  uri_param :: "'u \<Rightarrow> string \<Rightarrow> bytes option"
  has_param :: "'u \<Rightarrow> string \<Rightarrow> bool"
  addr_tag :: "'addr \<Rightarrow> bytes option"
  via_parse_one :: "bytes \<Rightarrow> 'via option"
  via_host :: "'via \<Rightarrow> host"
  via_port :: "'via \<Rightarrow> u16 option"
  via_branch :: "'via \<Rightarrow> bytes option"
  set_uri :: "'req \<Rightarrow> 'u \<Rightarrow> 'req"
  header_build :: "header_name \<Rightarrow> bytes \<Rightarrow> 'hdr option"
  push_back :: "'req \<Rightarrow> 'hdr \<Rightarrow> 'req"
  push_front :: "'req \<Rightarrow> 'hdr \<Rightarrow> 'req"
  remove_all :: "'req \<Rightarrow> header_name \<Rightarrow> 'req"
  valid_status :: "u16 \<Rightarrow> bool"
  respond_to :: "'req \<Rightarrow> u16 \<Rightarrow> string \<Rightarrow> 'resp option"
  resp_status :: "'resp \<Rightarrow> u16"
  resp_provisional :: "'resp \<Rightarrow> bool"
  resp_headers :: "'resp \<Rightarrow> header_name \<Rightarrow> 'hdr list"
  resp_push :: "'resp \<Rightarrow> 'hdr \<Rightarrow> 'resp"
  resp_remove_first :: "'resp \<Rightarrow> header_name \<Rightarrow> 'resp"

text \<open>The names the proxy edits.  \<^verbatim>\<open>HeaderName::Other\<close> appears with one value only.\<close>

definition MAX_BREADTH :: header_name where "MAX_BREADTH = OtherHeader ''Max-Breadth''"

definition edited_name :: "header_name \<Rightarrow> bool" where
  "edited_name n \<longleftrightarrow> (case n of OtherHeader _ \<Rightarrow> n = MAX_BREADTH | _ \<Rightarrow> True)"

definition header_laws :: "('u, 'req, 'addr, 'hdr, 'via, 'resp, 'x) message_kernel_scheme \<Rightarrow> bool" where
  "header_laws K \<longleftrightarrow>
    (\<forall>r n. header_value K r n = (case header_all K r n of [] \<Rightarrow> None | v # _ \<Rightarrow> Some v))
    \<and> (\<forall>r m n. edited_name m \<and> edited_name n \<longrightarrow> header_all K (remove_all K r n) m = (if m = n then [] else header_all K r m))
    \<and> (\<forall>r m n v h. edited_name m \<and> edited_name n \<and> header_build K n v = Some h \<longrightarrow>
        header_all K (push_back K r h) m = (if m = n then header_all K r m @ [v] else header_all K r m)
        \<and> header_all K (push_front K r h) m = (if m = n then v # header_all K r m else header_all K r m))
    \<and> (\<forall>r u m. req_uri K (set_uri K r u) = u \<and> req_method K (set_uri K r u) = req_method K r
        \<and> header_all K (set_uri K r u) m = header_all K r m)
    \<and> (\<forall>r n h. req_uri K (remove_all K r n) = req_uri K r \<and> req_uri K (push_back K r h) = req_uri K r
        \<and> req_uri K (push_front K r h) = req_uri K r
        \<and> req_method K (remove_all K r n) = req_method K r \<and> req_method K (push_back K r h) = req_method K r
        \<and> req_method K (push_front K r h) = req_method K r)"

named_theorems header_simps \<open>what each header operation does to the collection\<close>

lemma edited_names [simp]:
  "edited_name CallId" "edited_name CSeq" "edited_name To" "edited_name From" "edited_name Via" "edited_name Route"
  "edited_name RecordRoute" "edited_name MaxForwards" "edited_name MAX_BREADTH" "edited_name ProxyRequire"
  by (simp_all add: edited_name_def MAX_BREADTH_def)

lemma max_breadth_distinct [simp]:
  "MAX_BREADTH \<noteq> CallId" "MAX_BREADTH \<noteq> CSeq" "MAX_BREADTH \<noteq> To" "MAX_BREADTH \<noteq> From" "MAX_BREADTH \<noteq> Via"
  "MAX_BREADTH \<noteq> Route" "MAX_BREADTH \<noteq> RecordRoute" "MAX_BREADTH \<noteq> MaxForwards" "MAX_BREADTH \<noteq> ProxyRequire"
  "CallId \<noteq> MAX_BREADTH" "CSeq \<noteq> MAX_BREADTH" "To \<noteq> MAX_BREADTH" "From \<noteq> MAX_BREADTH" "Via \<noteq> MAX_BREADTH"
  "Route \<noteq> MAX_BREADTH" "RecordRoute \<noteq> MAX_BREADTH" "MaxForwards \<noteq> MAX_BREADTH" "ProxyRequire \<noteq> MAX_BREADTH"
  by (simp_all add: MAX_BREADTH_def)

lemma header_ops [header_simps]:
  assumes "header_laws K"
  shows "header_value K r n = (case header_all K r n of [] \<Rightarrow> None | v # _ \<Rightarrow> Some v)"
    and "edited_name m \<Longrightarrow> edited_name n \<Longrightarrow> header_all K (remove_all K r n) m = (if m = n then [] else header_all K r m)"
    and "header_all K (set_uri K r u) m = header_all K r m"
    and "req_uri K (set_uri K r u) = u" "req_uri K (remove_all K r n) = req_uri K r"
    and "req_uri K (push_back K r h) = req_uri K r" "req_uri K (push_front K r h) = req_uri K r"
    and "req_method K (set_uri K r u) = req_method K r" "req_method K (remove_all K r n) = req_method K r"
    and "req_method K (push_back K r h) = req_method K r" "req_method K (push_front K r h) = req_method K r"
  using assms unfolding header_laws_def by blast+

lemma header_push:
  assumes "header_laws K" "header_build K n v = Some h" "edited_name m" "edited_name n"
  shows "header_all K (push_back K r h) m = (if m = n then header_all K r m @ [v] else header_all K r m)"
    and "header_all K (push_front K r h) m = (if m = n then v # header_all K r m else header_all K r m)"
  using assms unfolding header_laws_def by blast+

end
