(* ===== verification/Admission.thy ===== *)
theory Admission imports Prelude Command Message begin

text \<open>
  \<^verbatim>\<open>policy.rs\<close>, \<^verbatim>\<open>auth.rs\<close> and \<^verbatim>\<open>parse.rs\<close> of
  \<^verbatim>\<open>crates/sipx-clstr-registrar\<close>: which authorities a tenant serves and what a principal may
  write, the digest decision and its audit record, and how a REGISTER becomes a command.  The SIP
  message kernel and the digest authenticator are third-party code and enter as records of
  operations.  The lemmas show that a command exists only behind its decisions, that it carries the
  identity and the tenant that were proved, and that the record of the decision is never lost.
\<close>

section \<open>Policy\<close>

record request_authority =
  ra_host :: host
  ra_port :: "u16 option"

definition authority_from_uri :: "('u, 'x) uri_kernel_scheme \<Rightarrow> 'u \<Rightarrow> request_authority option" where
  "authority_from_uri K uri =
    (if \<not> scheme_is_sip K (uri_scheme K uri) then None
     else map_option (\<lambda>h. \<lparr>ra_host = h, ra_port = uri_port K uri\<rparr>) (uri_host K uri))"

record registration_policy =
  serves :: "string \<Rightarrow> request_authority \<Rightarrow> bool"
  authorizes :: "string \<Rightarrow> bytes option \<Rightarrow> canonical_aor \<Rightarrow> bool"

record registration_grant =
  rg_principal :: bytes
  rg_aor :: canonical_aor

datatype registration_authorizations = Open | Restricted "registration_grant list"

definition authorizations_open :: registration_authorizations where
  "authorizations_open = Open"

definition authorizations_restricted :: registration_authorizations where
  "authorizations_restricted = Restricted []"

fun allow :: "registration_authorizations \<Rightarrow> bytes \<Rightarrow> canonical_aor \<Rightarrow> registration_authorizations" where
  "allow Open p aor = Restricted [\<lparr>rg_principal = p, rg_aor = aor\<rparr>]"
| "allow (Restricted grants) p aor = Restricted (grants @ [\<lparr>rg_principal = p, rg_aor = aor\<rparr>])"

fun authorizations_authorizes ::
  "registration_authorizations \<Rightarrow> bytes option \<Rightarrow> canonical_aor \<Rightarrow> bool" where
  "authorizations_authorizes Open p aor = (p = None)"
| "authorizations_authorizes (Restricted grants) p aor =
    (case p of None \<Rightarrow> False
     | Some p \<Rightarrow> list_ex (\<lambda>grant. rg_principal grant = p \<and> rg_aor grant = aor) grants)"

definition open_registration_policy :: registration_policy where
  "open_registration_policy = \<lparr>serves = (\<lambda>tenant authority. True), authorizes = (\<lambda>tenant p aor. p = None)\<rparr>"

section \<open>Authentication\<close>

datatype auth_reason = Mismatch | ForeignNonce | Replay | QopMismatch | WrongAlgorithm

datatype auth_verdict = Authenticated | Stale | Rejected auth_reason

text \<open>The kernel's authenticator \<^verbatim>\<open>'a\<close> and the credentials \<^verbatim>\<open>'p\<close> a request
  presents; verification updates the replay window.\<close>

record ('req, 'a, 'p, 'hn) auth_kernel =
  auth_new :: "string \<Rightarrow> u8 list \<Rightarrow> 'a"
  auth_realm :: "'a \<Rightarrow> string"
  presented_from :: "'req \<Rightarrow> bool \<Rightarrow> 'p option"
  presented_realm :: "'p \<Rightarrow> string"
  presented_username :: "'p \<Rightarrow> string"
  verify_at :: "'a \<Rightarrow> 'p \<Rightarrow> string \<Rightarrow> string \<Rightarrow> u64 \<Rightarrow> auth_verdict \<times> 'a"
  challenge_at :: "'a \<Rightarrow> bool \<Rightarrow> u64 \<Rightarrow> string"
  challenge_header :: "bool \<Rightarrow> 'hn"

type_synonym credentials = "string \<Rightarrow> string \<Rightarrow> string option"

text \<open>The in-memory store: two maps, the first password recorded wins.\<close>

type_synonym memory_credentials = "string \<Rightarrow> (string \<Rightarrow> string option) option"

definition credentials_with :: "memory_credentials \<Rightarrow> string \<Rightarrow> string \<Rightarrow> string \<Rightarrow> memory_credentials" where
  "credentials_with c tenant username secret =
    (let users = (case c tenant of None \<Rightarrow> (\<lambda>_. None) | Some users \<Rightarrow> users)
     in c(tenant \<mapsto> (case users username of None \<Rightarrow> users(username \<mapsto> secret) | Some _ \<Rightarrow> users)))"

definition credentials_password :: "memory_credentials \<Rightarrow> credentials" where
  "credentials_password c tenant username = Option.bind (c tenant) (\<lambda>users. users username)"

record 'hn challenge_response =
  chal_status :: nat
  chal_header :: 'hn
  chal_value :: string
  chal_because :: "auth_reason option"
  chal_stale :: bool

datatype 'hn decision = Proceed "bytes option" | Challenge "'hn challenge_response" | Forbid

datatype auth_outcome =
    AuthAuthenticated bytes
  | Unauthenticated
  | Challenged nat
  | Refused nat bool "auth_reason option"
  | AuthForbidden

fun decision_outcome :: "'hn decision \<Rightarrow> auth_outcome" where
  "decision_outcome (Proceed (Some p)) = AuthAuthenticated p"
| "decision_outcome (Proceed None) = Unauthenticated"
| "decision_outcome (Challenge c) =
    (if chal_because c = None \<and> \<not> chal_stale c then Challenged (chal_status c)
     else Refused (chal_status c) (chal_stale c) (chal_because c))"
| "decision_outcome Forbid = AuthForbidden"

fun outcome_describe :: "auth_outcome \<Rightarrow> string" where
  "outcome_describe (AuthAuthenticated _) = ''the digest matched''"
| "outcome_describe Unauthenticated = ''the tenant does not require authentication''"
| "outcome_describe (Challenged _) = ''no credentials were offered''"
| "outcome_describe (Refused _ True _) = ''the nonce had expired''"
| "outcome_describe (Refused _ False None) = ''refused without a stated reason''"
| "outcome_describe (Refused _ False (Some Mismatch)) = ''the credentials did not match''"
| "outcome_describe (Refused _ False (Some ForeignNonce)) = ''a nonce this edge did not mint''"
| "outcome_describe (Refused _ False (Some Replay)) = ''a nonce-count that had already been used''"
| "outcome_describe (Refused _ False (Some QopMismatch)) = ''credentials answered without qop=auth''"
| "outcome_describe (Refused _ False (Some WrongAlgorithm)) = ''an algorithm this edge did not offer''"
| "outcome_describe AuthForbidden = ''the credentials named another protection space''"

fun is_refusal :: "auth_outcome \<Rightarrow> bool" where
  "is_refusal (Refused _ _ _) = True"
| "is_refusal AuthForbidden = True"
| "is_refusal _ = False"

record 'a tenant_auth =
  ta_tenant :: string
  ta_authenticator :: 'a
  ta_required :: bool
  ta_proxy :: bool

definition auth_required ::
  "('req, 'a, 'p, 'hn) auth_kernel \<Rightarrow> string \<Rightarrow> string \<Rightarrow> u8 list \<Rightarrow> 'a tenant_auth" where
  "auth_required AK tenant realm secret =
    \<lparr>ta_tenant = tenant, ta_authenticator = auth_new AK realm secret, ta_required = True, ta_proxy = False\<rparr>"

definition auth_open :: "('req, 'a, 'p, 'hn) auth_kernel \<Rightarrow> string \<Rightarrow> 'a tenant_auth" where
  "auth_open AK tenant =
    \<lparr>ta_tenant = tenant, ta_authenticator = auth_new AK [] (replicate 32 0), ta_required = False, ta_proxy = False\<rparr>"

definition as_proxy :: "'a tenant_auth \<Rightarrow> 'a tenant_auth" where
  "as_proxy auth = auth\<lparr>ta_proxy := True\<rparr>"

definition ABSENT_USER_PLACEHOLDER :: string where
  "ABSENT_USER_PLACEHOLDER = [CHR 0x00] @ ''no such user'' @ [CHR 0x00]"

definition auth_principal :: "'a tenant_auth \<Rightarrow> string \<Rightarrow> bytes" where
  "auth_principal auth username = ta_tenant auth @ '':'' @ username"

definition auth_challenge ::
  "('req, 'a, 'p, 'hn) auth_kernel \<Rightarrow> 'a tenant_auth \<Rightarrow> bool \<Rightarrow> auth_reason option \<Rightarrow> u64 \<Rightarrow> 'hn challenge_response" where
  "auth_challenge AK auth stale because now =
    \<lparr>chal_status = (if ta_proxy auth then 407 else 401),
     chal_header = challenge_header AK (ta_proxy auth),
     chal_value = challenge_at AK (ta_authenticator auth) stale now,
     chal_because = because,
     chal_stale = stale\<rparr>"

definition decide ::
  "('u, 'req, 'addr, 'x) sip_kernel_scheme \<Rightarrow> ('req, 'a, 'p, 'hn) auth_kernel \<Rightarrow> 'a tenant_auth \<Rightarrow> 'req
    \<Rightarrow> credentials \<Rightarrow> u64 \<Rightarrow> 'hn decision \<times> 'a tenant_auth" where
  "decide K AK auth request creds now =
    (if \<not> ta_required auth then (Proceed None, auth)
     else case presented_from AK request (ta_proxy auth) of
       None \<Rightarrow> (Challenge (auth_challenge AK auth False None now), auth)
     | Some presented \<Rightarrow>
        if presented_realm AK presented \<noteq> auth_realm AK (ta_authenticator auth) then (Forbid, auth)
        else
          let secret = (case creds (ta_tenant auth) (presented_username AK presented) of
                  None \<Rightarrow> ABSENT_USER_PLACEHOLDER | Some secret \<Rightarrow> secret);
              (v, authenticator) = verify_at AK (ta_authenticator auth) presented (req_method K request) secret now;
              auth = auth\<lparr>ta_authenticator := authenticator\<rparr>
          in case v of
              Authenticated \<Rightarrow> (Proceed (Some (auth_principal auth (presented_username AK presented))), auth)
            | Stale \<Rightarrow> (Challenge (auth_challenge AK auth True None now), auth)
            | Rejected reason \<Rightarrow> (Challenge (auth_challenge AK auth False (Some reason) now), auth))"

section \<open>From a request to a command\<close>

record edge_context =
  edge_tenant :: string
  edge_received :: "source_addr option"
  edge_flow_ref :: "bytes option"

datatype ('u, 'hn) admission = Command "'u register_command" | AdmChallenge "'hn challenge_response" | AdmReject rejection

definition parse_number :: "bytes \<Rightarrow> u32 option" where
  "parse_number raw = parse_u32 (trim_text (from_utf8_lossy raw))"

text \<open>\<^verbatim>\<open>text.split_once('.')\<close>, with the empty fraction where there is no dot.\<close>

fun split_once :: "nat \<Rightarrow> code_points \<Rightarrow> code_points \<times> code_points" where
  "split_once d [] = ([], [])"
| "split_once d (p # ps) = (if p = d then ([], ps) else case split_once d ps of (w, f) \<Rightarrow> (p # w, f))"

definition parse_q :: "bytes \<Rightarrow> u16 option" where
  "parse_q raw =
    (let txt = trim_text (from_utf8_lossy raw); (whole, fraction) = split_once 46 txt in
     if length fraction > 3 \<or> \<not> list_all is_digit_point fraction then None
     else case parse_unsigned 16 whole of
       None \<Rightarrow> None
     | Some whole \<Rightarrow>
        if whole > 1 then None
        else if whole = 1 \<and> dropWhile ((=) 48) (rev fraction) \<noteq> [] then None
        else if whole = 0
        then map_option of_nat (parse_unsigned 16 (fraction @ replicate (3 - length fraction) 48))
        else Some (of_nat (whole * 1000)))"

definition option_tags ::
  "('u, 'req, 'addr, 'x) sip_kernel_scheme \<Rightarrow> 'req \<Rightarrow> header_name \<Rightarrow> string list" where
  "option_tags K request name =
    concat (map (\<lambda>value.
      map to_bytes (filter (\<lambda>tag. tag \<noteq> [])
        (map (\<lambda>tag. map lower_point (trim_text tag)) (split_points 44 (from_utf8_lossy value)))))
      (header_all K request name))"

definition route_values ::
  "('u, 'req, 'addr, 'x) sip_kernel_scheme \<Rightarrow> 'req \<Rightarrow> header_name \<Rightarrow> bytes list" where
  "route_values K request name =
    map (\<lambda>a. uri_to_bytes K (addr_uri K a))
      (concat (List.map_filter (address_parse_list K) (header_all K request name)))"

definition push_params :: "('u, 'req, 'addr, 'x) sip_kernel_scheme \<Rightarrow> 'addr \<Rightarrow> push option" where
  "push_params K address =
    Option.bind (addr_param K address ''pn-provider'') (\<lambda>provider.
    Option.bind (addr_param K address ''pn-prid'') (\<lambda>prid.
      Some \<lparr>pn_provider = provider, pn_prid = prid, pn_param = addr_param K address ''pn-param''\<rparr>))"

definition contact_op :: "('u, 'req, 'addr, 'x) sip_kernel_scheme \<Rightarrow> 'addr \<Rightarrow> rejection + 'u contact_op" where
  "contact_op K address =
    and_then
      (case addr_param K address ''q'' of
         None \<Rightarrow> Inr None
       | Some raw \<Rightarrow> map_sum id Some (ok_or (BadRequest ''a malformed Contact ;q'') (parse_q raw)))
      (\<lambda>q. Inr
        \<lparr>op_uri = addr_uri K address,
         op_verbatim = uri_to_bytes K (addr_uri K address),
         op_expires = Option.bind (addr_param K address ''expires'') parse_number,
         op_q = q,
         op_instance_id = addr_param K address ''+sip.instance'',
         op_reg_id = Option.bind (addr_param K address ''reg-id'') parse_number,
         op_push = push_params K address\<rparr>)"

fun contact_list_ops ::
  "('u, 'req, 'addr, 'x) sip_kernel_scheme \<Rightarrow> 'addr list \<Rightarrow> rejection + 'u contact_op list" where
  "contact_list_ops K [] = Inr []"
| "contact_list_ops K (a # as) =
    and_then (contact_op K a) (\<lambda>op. map_sum id ((#) op) (contact_list_ops K as))"

fun contact_value_ops ::
  "('u, 'req, 'addr, 'x) sip_kernel_scheme \<Rightarrow> bytes list \<Rightarrow> rejection + 'u contact_op list" where
  "contact_value_ops K [] = Inr []"
| "contact_value_ops K (value # values) =
    and_then (ok_or (BadRequest ''a malformed Contact'') (address_parse_list K value)) (\<lambda>addresses.
    and_then (contact_list_ops K addresses) (\<lambda>ops. map_sum id ((@) ops) (contact_value_ops K values)))"

definition contact_ops :: "('u, 'req, 'addr, 'x) sip_kernel_scheme \<Rightarrow> 'req \<Rightarrow> rejection + 'u contact_ops" where
  "contact_ops K request =
    (let raw = header_all K request Contact in
     if list_ex (\<lambda>value. trim value = ''*'') raw then
       if length raw > 1 then Inl (BadRequest ''a wildcard Contact cannot appear alongside another Contact'')
       else Inr Wildcard
     else map_sum id Explicit (contact_value_ops K raw))"

definition command ::
  "(bytes \<Rightarrow> string) \<Rightarrow> ('u, 'req, 'addr, 'x) sip_kernel_scheme \<Rightarrow> 'req \<Rightarrow> edge_context \<Rightarrow> bytes option
    \<Rightarrow> registration_policy \<Rightarrow> timestamp \<Rightarrow> rejection + 'u register_command" where
  "command unicode K request edge who policy now =
    and_then (ok_or (BadRequest ''a REGISTER needs a Call-ID'') (header_value K request CallId)) (\<lambda>callid.
    and_then (ok_or (BadRequest ''a REGISTER needs a numeric CSeq'')
        (Option.bind (header_value K request CSeq) (\<lambda>v. Option.bind (first_word (from_utf8_lossy v)) parse_u32)))
      (\<lambda>number.
    and_then (ok_or (BadRequest ''a REGISTER needs a To header'') (header_value K request To)) (\<lambda>to.
    and_then (ok_or (BadRequest ''a malformed To'') (address_parse K to)) (\<lambda>to.
    and_then (map_sum (\<lambda>_. BadRequest ''the To URI is not an address-of-record'') id
        (from_uri unicode K (addr_uri K to))) (\<lambda>aor.
    if \<not> authorizes policy (edge_tenant edge) who aor
    then Inl (Forbidden ''the principal is not authorized for the address-of-record'') else
    and_then (ok_or (BadRequest ''the To URI has no SIP authority'') (authority_from_uri K (addr_uri K to)))
      (\<lambda>authority.
    if \<not> serves policy (edge_tenant edge) authority then Inl NotFound else
    and_then (contact_ops K request) (\<lambda>contacts.
      Inr \<lparr>rc_tenant = edge_tenant edge,
           rc_aor = aor,
           rc_call_id = callid,
           rc_cseq = number,
           rc_contacts = contacts,
           rc_expires_header = Option.bind (header_value K request Expires) parse_number,
           rc_path = route_values K request Path,
           rc_supports_path = list_ex (\<lambda>tag. tag = ''path'') (option_tags K request Supported),
           rc_require = option_tags K request Require,
           rc_received = edge_received edge,
           rc_flow_ref = edge_flow_ref edge,
           rc_principal = who,
           rc_now = now\<rparr>)))))))"

definition register_command ::
  "(bytes \<Rightarrow> string) \<Rightarrow> ('u, 'req, 'addr, 'x) sip_kernel_scheme \<Rightarrow> 'req \<Rightarrow> registration_policy \<Rightarrow> edge_context
    \<Rightarrow> timestamp \<Rightarrow> rejection + 'u register_command" where
  "register_command unicode K request policy edge now =
    and_then (ok_or NotFound (authority_from_uri K (req_uri K request))) (\<lambda>authority.
    if \<not> serves policy (edge_tenant edge) authority then Inl NotFound
    else command unicode K request edge None policy now)"

definition admit_audited ::
  "(bytes \<Rightarrow> string) \<Rightarrow> ('u, 'req, 'addr, 'x) sip_kernel_scheme \<Rightarrow> ('req, 'a, 'p, 'hn) auth_kernel \<Rightarrow> 'req
    \<Rightarrow> 'a tenant_auth \<Rightarrow> credentials \<Rightarrow> registration_policy \<Rightarrow> edge_context \<Rightarrow> timestamp
    \<Rightarrow> (('u, 'hn) admission \<times> auth_outcome option) \<times> 'a tenant_auth" where
  "admit_audited unicode K AK request auth creds policy edge now =
    (case authority_from_uri K (req_uri K request) of
       None \<Rightarrow> ((AdmReject NotFound, None), auth)
     | Some authority \<Rightarrow>
        if \<not> serves policy (ta_tenant auth) authority then ((AdmReject NotFound, None), auth)
        else case decide K AK auth request creds (as_secs now) of
          (decision, auth) \<Rightarrow>
            let admission = (case decision of
                Challenge challenge \<Rightarrow> AdmChallenge challenge
              | Forbid \<Rightarrow> AdmReject (Forbidden ''the credentials name another protection space'')
              | Proceed who \<Rightarrow>
                 (case command unicode K request (edge\<lparr>edge_tenant := ta_tenant auth\<rparr>) who policy now of
                    Inr cmd \<Rightarrow> Command cmd
                  | Inl rejection \<Rightarrow> AdmReject rejection))
            in ((admission, Some (decision_outcome decision)), auth))"

definition admit ::
  "(bytes \<Rightarrow> string) \<Rightarrow> ('u, 'req, 'addr, 'x) sip_kernel_scheme \<Rightarrow> ('req, 'a, 'p, 'hn) auth_kernel \<Rightarrow> 'req
    \<Rightarrow> 'a tenant_auth \<Rightarrow> credentials \<Rightarrow> registration_policy \<Rightarrow> edge_context \<Rightarrow> timestamp
    \<Rightarrow> ('u, 'hn) admission \<times> 'a tenant_auth" where
  "admit unicode K AK request auth creds policy edge now =
    (case admit_audited unicode K AK request auth creds policy edge now of ((admission, _), auth) \<Rightarrow> (admission, auth))"

section \<open>What a command was built from\<close>

lemma command_Inr:
  assumes "command unicode K request edge who policy now = Inr cmd"
  shows "rc_tenant cmd = edge_tenant edge \<and> rc_principal cmd = who \<and> rc_now cmd = now
    \<and> authorizes policy (edge_tenant edge) who (rc_aor cmd)
    \<and> (\<exists>to authority. from_uri unicode K (addr_uri K to) = Inr (rc_aor cmd)
        \<and> authority_from_uri K (addr_uri K to) = Some authority \<and> serves policy (edge_tenant edge) authority)
    \<and> contact_ops K request = Inr (rc_contacts cmd)"
proof -
  have m: "map_sum f id r = Inr a \<longleftrightarrow> r = Inr a" for f :: "aor_error \<Rightarrow> rejection" and r :: "aor_error + canonical_aor" and a
    by (cases r) auto
  show ?thesis
    using assms by (auto simp: command_def and_then_Inr m split: if_splits)
qed

lemma decide_Proceed_cases:
  assumes "decide K AK auth request creds n = (Proceed who, auth')"
  obtains "\<not> ta_required auth" "who = None" "auth' = auth"
  | presented secret where "ta_required auth" "presented_from AK request (ta_proxy auth) = Some presented"
    "presented_realm AK presented = auth_realm AK (ta_authenticator auth)"
    "secret = (case creds (ta_tenant auth) (presented_username AK presented) of
        None \<Rightarrow> ABSENT_USER_PLACEHOLDER | Some secret \<Rightarrow> secret)"
    "fst (verify_at AK (ta_authenticator auth) presented (req_method K request) secret n) = Authenticated"
    "who = Some (auth_principal auth (presented_username AK presented))"
  using assms
  by (auto simp: decide_def Let_def auth_principal_def split: if_splits option.splits prod.splits auth_verdict.splits)

lemma decide_keeps_tenant: "ta_tenant (snd (decide K AK auth request creds n)) = ta_tenant auth"
  by (auto simp: decide_def Let_def split: option.splits prod.splits auth_verdict.splits)

lemma admit_Command:
  assumes "admit_audited unicode K AK request auth creds policy edge now = ((Command cmd, audit), auth')"
  obtains authority who where "authority_from_uri K (req_uri K request) = Some authority"
    "serves policy (ta_tenant auth) authority"
    "decide K AK auth request creds (as_secs now) = (Proceed who, auth')"
    "command unicode K request (edge\<lparr>edge_tenant := ta_tenant auth\<rparr>) who policy now = Inr cmd"
    "audit = Some (case who of None \<Rightarrow> Unauthenticated | Some p \<Rightarrow> AuthAuthenticated p)"
proof -
  obtain d auth1 where d: "decide K AK auth request creds (as_secs now) = (d, auth1)"
    by (cases "decide K AK auth request creds (as_secs now)")
  have t: "ta_tenant auth1 = ta_tenant auth"
    using decide_keeps_tenant [of K AK auth request creds "as_secs now"] d by simp
  obtain authority where a: "authority_from_uri K (req_uri K request) = Some authority" "serves policy (ta_tenant auth) authority"
    using assms by (auto simp: admit_audited_def split: option.splits if_splits)
  show thesis
  proof (cases d)
    case (Proceed who)
    show thesis
      by (rule that [OF a, of who])
        (use assms a d t Proceed in \<open>auto simp: admit_audited_def Let_def split: sum.splits option.splits\<close>)
  qed (use assms a d in \<open>simp_all add: admit_audited_def Let_def\<close>)
qed

section \<open>The authorization contract\<close>

text \<open>What an authorization rule promises: whether the open tenant's \<^verbatim>\<open>None\<close> is permitted, and
  exactly which principals may write which address.\<close>

locale authorization_contract =
  fixes rule :: "bytes option \<Rightarrow> canonical_aor \<Rightarrow> bool"
    and is_open :: bool
    and granted :: "(bytes \<times> canonical_aor) set"
  assumes anonymous: "rule None aor = is_open"
    and named: "rule (Some p) aor = ((p, aor) \<in> granted)"
begin

lemma command_granted:
  assumes "command unicode K request edge who policy now = Inr cmd" "authorizes policy (edge_tenant edge) = rule"
  shows "case rc_principal cmd of None \<Rightarrow> is_open | Some p \<Rightarrow> (p, rc_aor cmd) \<in> granted"
  using command_Inr [OF assms(1)] assms(2) anonymous named by (auto split: option.split)

end

definition grant_pairs :: "registration_grant list \<Rightarrow> (bytes \<times> canonical_aor) set" where
  "grant_pairs grants = (\<lambda>g. (rg_principal g, rg_aor g)) ` set grants"

interpretation open_tenant: authorization_contract "authorizations_authorizes Open" True "{}"
  by unfold_locales simp_all

interpretation restricted_tenant:
  authorization_contract "authorizations_authorizes (Restricted grants)" False "grant_pairs grants" for grants
  by unfold_locales (auto simp: list_ex_iff grant_pairs_def)

interpretation serve_any: authorization_contract "authorizes open_registration_policy tenant" True "{}" for tenant
  by unfold_locales (simp_all add: open_registration_policy_def)

lemma grant_pairs_allow: "authorizations_authorizes (allow a p aor) (Some p') aor' =
    ((p' = p \<and> aor' = aor) \<or> authorizations_authorizes a (Some p') aor')"
  by (cases a) auto

section \<open>Preferences\<close>

lemma digits_value_bound: "list_all is_digit_point ps \<Longrightarrow> digits_value ps < 10 ^ length ps"
proof (induction ps rule: rev_induct)
  case Nil
  then show ?case by (simp add: digits_value_def)
next
  case (snoc p ps)
  then have "digits_value ps < 10 ^ length ps" "p - 48 \<le> 9" by (auto simp: is_digit_point_def)
  moreover have "digits_value (ps @ [p]) = 10 * digits_value ps + (p - 48)" by (simp add: digits_value_def)
  ultimately show ?case by simp
qed

lemma parse_q_bound: "parse_q raw = Some q \<Longrightarrow> q \<le> 1000"
proof -
  assume a: "parse_q raw = Some q"
  obtain w f where w: "split_once 46 (trim_text (from_utf8_lossy raw)) = (w, f)" by (cases "split_once 46 (trim_text (from_utf8_lossy raw))")
  from a consider "q = of_nat (1 * 1000)" | v where "parse_unsigned 16 (f @ replicate (3 - length f) 48) = Some v"
    "length f \<le> 3" "list_all is_digit_point f" "q = of_nat v"
    by (auto simp: parse_q_def w Let_def not_less le_Suc_eq split: if_splits option.splits)
  then show "q \<le> 1000"
  proof cases
    case 2
    let ?d = "f @ replicate (3 - length f) 48"
    have d: "list_all is_digit_point ?d" "length ?d = 3" using 2 by (auto simp: list_all_iff is_digit_point_def)
    have "?d \<noteq> []" using d(2) by auto
    moreover have "\<not> (hd ?d = 43)" using d(1) \<open>?d \<noteq> []\<close> by (cases ?d) (auto simp: is_digit_point_def)
    ultimately have "v = digits_value ?d"
      using 2(1) d(1) by (cases ?d) (auto simp: parse_unsigned_def Let_def split: if_splits)
    then have "v < 1000" using digits_value_bound [OF d(1)] d(2) by simp
    then show ?thesis using 2(4) by (simp add: word_le_nat_alt unat_of_nat take_bit_nat_eq_self)
  qed simp
qed

lemma contact_op_Inr: "contact_op K a = Inr op \<Longrightarrow> op_uri op = addr_uri K a \<and> op_verbatim op = uri_to_bytes K (op_uri op)
    \<and> (case op_q op of None \<Rightarrow> True | Some q \<Rightarrow> q \<le> 1000)"
proof -
  have m: "map_sum id Some r = Inr x \<longleftrightarrow> (\<exists>y. r = Inr y \<and> x = Some y)" for r :: "rejection + u16" and x
    by (cases r) auto
  show "contact_op K a = Inr op \<Longrightarrow> op_uri op = addr_uri K a \<and> op_verbatim op = uri_to_bytes K (op_uri op)
    \<and> (case op_q op of None \<Rightarrow> True | Some q \<Rightarrow> q \<le> 1000)"
    by (auto simp: contact_op_def and_then_Inr m dest: parse_q_bound split: option.splits)
qed

definition op_wellformed :: "('u, 'req, 'addr, 'x) sip_kernel_scheme \<Rightarrow> 'u contact_op \<Rightarrow> bool" where
  "op_wellformed K op \<longleftrightarrow> op_verbatim op = uri_to_bytes K (op_uri op)
    \<and> (case op_q op of None \<Rightarrow> True | Some q \<Rightarrow> q \<le> 1000)"

lemma contact_list_ops_Inr: "contact_list_ops K as = Inr ops \<Longrightarrow> \<forall>op \<in> set ops. op_wellformed K op"
proof (induction as arbitrary: ops)
  case (Cons a as)
  from Cons.prems obtain op rest where "contact_op K a = Inr op" "contact_list_ops K as = Inr rest" "ops = op # rest"
    by (cases "contact_list_ops K as") (auto simp: and_then_Inr)
  with Cons.IH contact_op_Inr show ?case by (fastforce simp: op_wellformed_def)
qed simp

lemma contact_value_ops_Inr: "contact_value_ops K vs = Inr ops \<Longrightarrow> \<forall>op \<in> set ops. op_wellformed K op"
proof (induction vs arbitrary: ops)
  case (Cons v vs)
  from Cons.prems obtain as here rest where "contact_list_ops K as = Inr here" "contact_value_ops K vs = Inr rest"
    "ops = here @ rest"
    by (cases "contact_value_ops K vs") (auto simp: and_then_Inr)
  with Cons.IH contact_list_ops_Inr show ?case by fastforce
qed simp

section \<open>A concrete kernel and authenticator\<close>

text \<open>Requests given by their parts, and an authenticator whose response is the password itself: for
  evaluating the theorems at a point.\<close>

record plain_request =
  pr_uri :: parts
  pr_to :: parts
  pr_contacts :: "bytes list"
  pr_credentials :: "(string \<times> string \<times> string) option"

definition plain_kernel :: "(parts, plain_request, parts) sip_kernel" where
  "plain_kernel = uri_kernel.extend parts_kernel
    \<lparr>uri_to_bytes = p_host, req_uri = pr_uri, req_method = (\<lambda>_. ''REGISTER''),
     header_value = (\<lambda>r h. case h of CallId \<Rightarrow> Some ''c1'' | CSeq \<Rightarrow> Some ''1'' | To \<Rightarrow> Some (p_host (pr_to r)) | _ \<Rightarrow> None),
     header_all = (\<lambda>r h. case h of Contact \<Rightarrow> pr_contacts r | _ \<Rightarrow> []),
     address_parse = (\<lambda>raw. Some (alice raw)), address_parse_list = (\<lambda>raw. Some [alice raw]),
     addr_uri = (\<lambda>a. a), addr_param = (\<lambda>a n. None)\<rparr>"

definition plain_auth :: "(plain_request, string, string \<times> string \<times> string, unit) auth_kernel" where
  "plain_auth = \<lparr>auth_new = (\<lambda>realm secret. realm), auth_realm = (\<lambda>a. a),
     presented_from = (\<lambda>r proxy. pr_credentials r), presented_realm = fst, presented_username = (\<lambda>p. fst (snd p)),
     verify_at = (\<lambda>a p method secret now. (if snd (snd p) = secret then Authenticated else Rejected Mismatch, a)),
     challenge_at = (\<lambda>a stale now. []), challenge_header = (\<lambda>_. ())\<rparr>"

definition plain_register :: "(string \<times> string \<times> string) option \<Rightarrow> plain_request" where
  "plain_register c = \<lparr>pr_uri = alice ''h.ex'', pr_to = alice ''h.ex'', pr_contacts = [''h.ex''], pr_credentials = c\<rparr>"

definition alice_policy :: registration_policy where
  "alice_policy = \<lparr>serves = (\<lambda>_ _. True),
     authorizes = (\<lambda>_. authorizations_authorizes (allow Open ''t:alice'' (CanonicalAor ''sip:a%3Bb@h.ex:5060'')))\<rparr>"

definition plain_command :: "parts register_command" where
  "plain_command = \<lparr>rc_tenant = ''t'', rc_aor = CanonicalAor ''sip:a%3Bb@h.ex:5060'', rc_call_id = ''c1'', rc_cseq = 1,
     rc_contacts = Explicit [\<lparr>op_uri = alice ''h.ex'', op_verbatim = ''h.ex'', op_expires = None, op_q = None,
       op_instance_id = None, op_reg_id = None, op_push = None\<rparr>],
     rc_expires_header = None, rc_path = [], rc_supports_path = False, rc_require = [], rc_received = None,
     rc_flow_ref = None, rc_principal = Some ''t:alice'', rc_now = Timestamp 0\<rparr>"

lemma plain_uri_fields:
  "uri_scheme plain_kernel = uri_scheme parts_kernel" "has_headers plain_kernel = has_headers parts_kernel"
  "password plain_kernel = password parts_kernel" "user plain_kernel = user parts_kernel"
  "decoded_user plain_kernel = decoded_user parts_kernel" "uri_host plain_kernel = uri_host parts_kernel"
  "uri_port plain_kernel = uri_port parts_kernel"
  by (simp_all add: plain_kernel_def uri_kernel.defs parts_kernel_def)

lemma plain_from_uri: "from_uri id plain_kernel (alice ''h.ex'') = Inr (CanonicalAor ''sip:a%3Bb@h.ex:5060'')"
  using alice_key(2) by (simp only: from_uri_def user_text_def plain_uri_fields)

lemma plain_text: "first_word (from_utf8_lossy ''1'') = Some [49]" "parse_u32 [49] = Some 1"
  by (simp_all add: from_utf8_lossy_def first_word_def white_space_def parse_u32_def parse_unsigned_def
      is_digit_point_def digits_value_def)

lemma plain_admitted:
  "admit_audited id plain_kernel plain_auth (plain_register (Some (''r'', ''alice'', ''pw'')))
      (auth_required plain_auth ''t'' ''r'' []) (\<lambda>_ _. Some ''pw'') alice_policy
      \<lparr>edge_tenant = ''other'', edge_received = None, edge_flow_ref = None\<rparr> (Timestamp 0)
    = ((Command plain_command, Some (AuthAuthenticated ''t:alice'')), auth_required plain_auth ''t'' ''r'' [])"
proof -
  have k: "header_value plain_kernel r CallId = Some ''c1''" "header_value plain_kernel r CSeq = Some ''1''"
    "header_value plain_kernel (plain_register c) To = Some ''h.ex''" "header_value plain_kernel r Expires = None"
    "address_parse plain_kernel raw = Some (alice raw)" "addr_uri plain_kernel a = a"
    "header_all plain_kernel (plain_register c) Contact = [''h.ex'']" "header_all plain_kernel r Path = []"
    "header_all plain_kernel r Supported = []" "header_all plain_kernel r Require = []"
    "address_parse_list plain_kernel raw = Some [alice raw]" "addr_param plain_kernel a n = None"
    "uri_to_bytes plain_kernel (alice h) = h" "req_uri plain_kernel (plain_register c) = alice ''h.ex''" for r c raw a n h
    by (simp_all add: plain_kernel_def uri_kernel.defs plain_register_def alice_def)
  have au: "\<exists>a. authority_from_uri plain_kernel (alice ''h.ex'') = Some a"
    by (simp add: authority_from_uri_def plain_kernel_def uri_kernel.defs parts_kernel_def alice_def)
  then obtain a where a: "authority_from_uri plain_kernel (alice ''h.ex'') = Some a" by blast
  have "trim ''h.ex'' \<noteq> ''*''" by (simp add: trim_def is_ascii_space_def get_range_def Let_def)
  then have "contact_ops plain_kernel (plain_register c) = Inr (rc_contacts plain_command)" for c
    by (simp add: contact_ops_def k contact_op_def plain_command_def push_params_def)
  note contacts = this
  have pol: "serves alice_policy t x" "authorizes alice_policy t (Some ''t:alice'') (CanonicalAor ''sip:a%3Bb@h.ex:5060'')" for t x
    by (simp_all add: alice_policy_def)
  have cmd: "command id plain_kernel (plain_register c) \<lparr>edge_tenant = ''t'', edge_received = None, edge_flow_ref = None\<rparr>
      (Some ''t:alice'') alice_policy (Timestamp 0) = Inr plain_command" for c
    unfolding command_def
    by (simp add: k a plain_from_uri plain_text contacts pol)
      (simp add: plain_command_def route_values_def option_tags_def List.map_filter_def k)
  have d: "decide plain_kernel plain_auth (auth_required plain_auth ''t'' ''r'' [])
      (plain_register (Some (''r'', ''alice'', ''pw''))) (\<lambda>_ _. Some ''pw'') now
    = (Proceed (Some ''t:alice''), auth_required plain_auth ''t'' ''r'' [])" for now
    by (simp add: decide_def auth_required_def plain_auth_def plain_register_def auth_principal_def)
  have t: "ta_tenant (auth_required plain_auth ''t'' ''r'' []) = ''t''" by (simp add: auth_required_def)
  show ?thesis
    unfolding admit_audited_def k a option.case pol d t
    by (simp add: cmd pol t)
qed

section \<open>Properties\<close>

text \<open>C12. A command exists only behind its decisions: an admitted REGISTER came to a served authority,
  names an address in a served domain, carries the tenant of the authenticator (never the edge's) and
  the instant it was given, and a principal exactly when the tenant requires one, which is then
  \<^verbatim>\<open>tenant:username\<close> of credentials for this realm that the digest verification accepted;
  the policy authorized that principal for that address, and the audit record says the same.\<close>

theorem admitted_command_proved:
  assumes "admit_audited unicode K AK request auth creds policy edge now = ((Command cmd, audit), auth')"
  shows "rc_tenant cmd = ta_tenant auth \<and> rc_now cmd = now
    \<and> authorizes policy (ta_tenant auth) (rc_principal cmd) (rc_aor cmd)
    \<and> (\<exists>a. authority_from_uri K (req_uri K request) = Some a \<and> serves policy (ta_tenant auth) a)
    \<and> (\<exists>to a. from_uri unicode K (addr_uri K to) = Inr (rc_aor cmd)
        \<and> authority_from_uri K (addr_uri K to) = Some a \<and> serves policy (ta_tenant auth) a)
    \<and> (case rc_principal cmd of
        None \<Rightarrow> \<not> ta_required auth \<and> audit = Some Unauthenticated
      | Some p \<Rightarrow> ta_required auth \<and> audit = Some (AuthAuthenticated p)
          \<and> (\<exists>presented secret. presented_from AK request (ta_proxy auth) = Some presented
            \<and> presented_realm AK presented = auth_realm AK (ta_authenticator auth)
            \<and> secret = (case creds (ta_tenant auth) (presented_username AK presented) of
                None \<Rightarrow> ABSENT_USER_PLACEHOLDER | Some s \<Rightarrow> s)
            \<and> fst (verify_at AK (ta_authenticator auth) presented (req_method K request) secret (as_secs now)) = Authenticated
            \<and> p = ta_tenant auth @ '':'' @ presented_username AK presented))"
  using assms
proof (rule admit_Command)
  fix authority who
  assume a: "authority_from_uri K (req_uri K request) = Some authority" "serves policy (ta_tenant auth) authority"
    and d: "decide K AK auth request creds (as_secs now) = (Proceed who, auth')"
    and c: "command unicode K request (edge\<lparr>edge_tenant := ta_tenant auth\<rparr>) who policy now = Inr cmd"
    and audit: "audit = Some (case who of None \<Rightarrow> Unauthenticated | Some p \<Rightarrow> AuthAuthenticated p)"
  have c': "rc_tenant cmd = ta_tenant auth" "rc_principal cmd = who" "rc_now cmd = now"
    "authorizes policy (ta_tenant auth) who (rc_aor cmd)"
    "\<exists>to a. from_uri unicode K (addr_uri K to) = Inr (rc_aor cmd)
        \<and> authority_from_uri K (addr_uri K to) = Some a \<and> serves policy (ta_tenant auth) a"
    using command_Inr [OF c] by auto
  from d show ?thesis
  proof (cases rule: decide_Proceed_cases)
    case 1
    then show ?thesis using a c' audit by auto
  next
    case (2 presented secret)
    have "\<exists>q secret. presented_from AK request (ta_proxy auth) = Some q
          \<and> presented_realm AK q = auth_realm AK (ta_authenticator auth)
          \<and> secret = (case creds (ta_tenant auth) (presented_username AK q) of None \<Rightarrow> ABSENT_USER_PLACEHOLDER | Some s \<Rightarrow> s)
          \<and> fst (verify_at AK (ta_authenticator auth) q (req_method K request) secret (as_secs now)) = Authenticated
          \<and> auth_principal auth (presented_username AK presented) = ta_tenant auth @ '':'' @ presented_username AK q"
      by (intro exI [of _ presented] exI [of _ secret]) (use 2 in \<open>simp add: auth_principal_def\<close>)
    then show ?thesis
      using 2(1) a c'(1,3,4,5) audit unfolding c'(2) 2(6) option.case by (intro conjI; (simp; fail)?)
  qed
qed

theorem admitted_command_proved_witness:
  "rc_tenant plain_command = ''t'' \<and> authorizes alice_policy ''t'' (Some ''t:alice'') (rc_aor plain_command)"
  using admitted_command_proved [OF plain_admitted] by (simp add: auth_required_def plain_command_def)

text \<open>The audit trail has exactly one record per authentication decision: none when the authority
  is not served, and otherwise the record of what was decided, even where the request is then
  refused; a challenge is answered without a command.\<close>

theorem audit_record_exact:
  "case admit_audited unicode K AK request auth creds policy edge now of
     ((admission, audit), auth') \<Rightarrow>
       (case authority_from_uri K (req_uri K request) of
          None \<Rightarrow> audit = None \<and> admission = AdmReject NotFound \<and> auth' = auth
        | Some authority \<Rightarrow>
           if serves policy (ta_tenant auth) authority
           then audit = Some (decision_outcome (fst (decide K AK auth request creds (as_secs now))))
             \<and> auth' = snd (decide K AK auth request creds (as_secs now))
             \<and> (\<exists>c. fst (decide K AK auth request creds (as_secs now)) = Challenge c) = (\<exists>c. admission = AdmChallenge c)
           else audit = None \<and> admission = AdmReject NotFound \<and> auth' = auth)"
  by (auto simp: admit_audited_def Let_def split: option.split prod.split decision.split sum.split)

text \<open>A tenant with grants is closed: whatever its credentials say, a REGISTER becomes a command
  only for a principal and an address some grant names together, and never anonymously; an open tenant
  admits only the anonymous.\<close>

theorem grants_are_exact:
  assumes "command unicode K request edge who policy now = Inr cmd"
    and "authorizes policy (edge_tenant edge) = authorizations_authorizes a"
  shows "case a of Open \<Rightarrow> rc_principal cmd = None
    | Restricted grants \<Rightarrow> (\<exists>g \<in> set grants. rc_principal cmd = Some (rg_principal g) \<and> rc_aor cmd = rg_aor g)"
proof (cases a)
  case Open
  with open_tenant.command_granted [OF assms(1)] assms(2) show ?thesis by (simp split: option.splits)
next
  case (Restricted grants)
  with restricted_tenant.command_granted [where grants = grants, OF assms(1)] assms(2) show ?thesis
    by (auto simp: grant_pairs_def split: option.splits)
qed

theorem grants_are_exact_witness:
  "\<exists>g \<in> set [\<lparr>rg_principal = ''t:alice'', rg_aor = CanonicalAor ''sip:a%3Bb@h.ex:5060''\<rparr>]. rg_aor g = rc_aor plain_command"
proof -
  from plain_admitted obtain who where "command id plain_kernel (plain_register (Some (''r'', ''alice'', ''pw'')))
      (\<lparr>edge_tenant = ''other'', edge_received = None, edge_flow_ref = None\<rparr>\<lparr>edge_tenant := ''t''\<rparr>) who alice_policy (Timestamp 0)
    = Inr plain_command"
    by (rule admit_Command) (simp add: auth_required_def)
  from grants_are_exact [OF this, of "allow Open ''t:alice'' (CanonicalAor ''sip:a%3Bb@h.ex:5060'')"]
  show ?thesis by (auto simp: alice_policy_def)
qed

text \<open>What a request asks for is stored as it was written: every contact operation keeps the
  bytes of its own URI, its preference is absent or at most 1000 thousandths, and a wildcard is the
  request's only Contact.\<close>

theorem contact_ops_wellformed:
  "case contact_ops K request of
     Inr (Explicit ops) \<Rightarrow> list_all (op_wellformed K) ops
       \<and> list_all (\<lambda>value. trim value \<noteq> ''*'') (header_all K request Contact)
   | Inr Wildcard \<Rightarrow> (\<exists>value. header_all K request Contact = [value] \<and> trim value = ''*'')
   | Inl e \<Rightarrow> rejection_status e = 400"
proof -
  have bad: "rejection_status e = 400" if "contact_value_ops K vs = Inl e" for vs e
  proof -
    have one: "rejection_status e = 400" if "contact_op K a = Inl e" for a e
      using that by (auto simp: contact_op_def and_then_Inl ok_or_def split: option.splits)
    have many: "rejection_status e = 400" if "contact_list_ops K as = Inl e" for as e
      using that
    proof (induction as)
      case (Cons a as)
      then show ?case using one by (cases "contact_list_ops K as") (auto simp: and_then_Inl)
    qed simp
    from that show ?thesis
    proof (induction vs)
      case (Cons v vs)
      then show ?case using many
        by (cases "contact_value_ops K vs") (auto simp: and_then_Inl ok_or_def split: option.splits)
    qed simp
  qed
  show ?thesis
  proof (cases "list_ex (\<lambda>value. trim value = ''*'') (header_all K request Contact)")
    case True
    show ?thesis
    proof (cases "header_all K request Contact")
      case (Cons v vs)
      with True show ?thesis by (cases vs) (auto simp: contact_ops_def)
    qed (use True in simp)
  next
    case False
    then show ?thesis
      using bad contact_value_ops_Inr [of K "header_all K request Contact"]
      by (cases "contact_value_ops K (header_all K request Contact)")
        (auto simp: contact_ops_def list_all_iff list_ex_iff)
  qed
qed

text \<open>The keyed credential store answers as the list it replaced: after any declarations, the
  password of a user is the first one declared for that tenant and user.\<close>

theorem first_credential_wins:
  "credentials_password (foldl (\<lambda>c (t, u, s). credentials_with c t u s) (\<lambda>_. None) declared) tenant username
    = map_option (\<lambda>(t, u, s). s) (find (\<lambda>(t, u, s). t = tenant \<and> u = username) declared)"
proof (induction declared rule: rev_induct)
  case Nil
  then show ?case by (simp add: credentials_password_def)
next
  case (snoc d declared)
  have find_snoc: "find p (xs @ [x]) = (case find p xs of None \<Rightarrow> if p x then Some x else None | Some y \<Rightarrow> Some y)"
    for p :: "string \<times> string \<times> string \<Rightarrow> bool" and xs x
    by (induction xs) auto
  obtain t u s where d: "d = (t, u, s)" by (cases d)
  show ?case
    using snoc.IH
    by (auto simp: d find_snoc credentials_password_def credentials_with_def Let_def Option.bind_def
        split: option.splits if_splits)
qed

end
