(* ===== verification/Proxy.thy ===== *)
theory Proxy imports Prelude Ascii Aor Command Message begin

text \<open>
  \<^verbatim>\<open>types.rs\<close>, \<^verbatim>\<open>config.rs\<close> and \<^verbatim>\<open>from_registrar.rs\<close> of
  \<^verbatim>\<open>crates/sipx-clstr-proxy\<close>: the inputs and effects of the forwarding core, what a proxy is
  configured with, which URIs it recognises as its own, and the targets a lookup gives it.  A
  \<^verbatim>\<open>Duration\<close> is its number of nanoseconds.
\<close>

section \<open>Inputs and effects\<close>

type_synonym duration = nat

definition duration_of_secs :: "nat \<Rightarrow> duration" where
  "duration_of_secs s = s * 1000000000"

datatype branch_id = BranchId (branch_str: string)

record proxy_target =
  pt_uri :: bytes
  pt_route_set :: "bytes list"
  pt_q :: u16

record target_query =
  tq_uri :: bytes

datatype token_verdict = ValidToken string | InvalidToken

record token_carriage =
  tc_token :: bytes
  tc_partner :: "bytes option"

record record_route_tokens =
  rrt_originating :: bytes
  rrt_terminating :: bytes

datatype proxy_timer = TimerC

datatype ('req, 'resp) input =
    Upstream 'req
  | BranchResponse 'resp branch_id
  | BranchTransportError branch_id
  | TargetsResolved "proxy_target list"
  | TargetsUnavailable
  | TokenFact token_verdict
  | TokensMinted record_route_tokens
  | TimerFired proxy_timer "branch_id option"
  | UpstreamCancelled

datatype ('req, 'resp) effect =
    Respond 'resp
  | Forward branch_id 'req proxy_target bytes
  | CancelBranch branch_id
  | AnswerCancel
  | ResolveTargets target_query
  | VerifyToken bytes "bytes option"
  | SetTimer proxy_timer "branch_id option" duration
  | ClearTimer proxy_timer "branch_id option"
  | Terminate

datatype kind = KRespond | KForward | KCancelBranch | KAnswerCancel | KResolveTargets | KVerifyToken
  | KSetTimer | KClearTimer | KTerminate

fun effect_kind :: "('req, 'resp) effect \<Rightarrow> kind" where
  "effect_kind (Respond _) = KRespond"
| "effect_kind AnswerCancel = KAnswerCancel"
| "effect_kind (Forward _ _ _ _) = KForward"
| "effect_kind (CancelBranch _) = KCancelBranch"
| "effect_kind (ResolveTargets _) = KResolveTargets"
| "effect_kind (VerifyToken _ _) = KVerifyToken"
| "effect_kind (SetTimer _ _ _) = KSetTimer"
| "effect_kind (ClearTimer _ _) = KClearTimer"
| "effect_kind Terminate = KTerminate"

fun effect_status ::
  "('u, 'req, 'addr, 'hdr, 'via, 'resp, 'x) message_kernel_scheme \<Rightarrow> ('req, 'resp) effect \<Rightarrow> u16 option" where
  "effect_status K (Respond response) = Some (resp_status K response)"
| "effect_status K _ = None"

fun effect_branch :: "('req, 'resp) effect \<Rightarrow> branch_id option" where
  "effect_branch (Forward branch _ _ _) = Some branch"
| "effect_branch (CancelBranch branch) = Some branch"
| "effect_branch (SetTimer _ branch _) = branch"
| "effect_branch (ClearTimer _ branch) = branch"
| "effect_branch _ = None"

fun effect_forwarded :: "('req, 'resp) effect \<Rightarrow> 'req option" where
  "effect_forwarded (Forward _ request _ _) = Some request"
| "effect_forwarded _ = None"

fun effect_next_hop :: "('req, 'resp) effect \<Rightarrow> bytes option" where
  "effect_next_hop (Forward _ _ _ next_hop) = Some next_hop"
| "effect_next_hop _ = None"

lemma kind_forward: "effect_kind e = KForward \<longleftrightarrow> effect_forwarded e \<noteq> None"
  by (cases e) simp_all

lemma kind_respond: "effect_kind e = KRespond \<longleftrightarrow> effect_status K e \<noteq> None"
  by (cases e) simp_all

section \<open>Configuration\<close>

definition TIMER_C_FLOOR :: duration where "TIMER_C_FLOOR = duration_of_secs 180"

definition DEFAULT_TIMER_C :: duration where "DEFAULT_TIMER_C = duration_of_secs 240"

datatype cookie_key = CookieKey (key_bytes: bytes)

record edge_identity =
  id_host :: string
  id_port :: "u16 option"

definition edge_host :: "string \<Rightarrow> edge_identity" where
  "edge_host host = \<lparr>id_host = map ascii_lower host, id_port = None\<rparr>"

definition edge_host_port :: "string \<Rightarrow> u16 \<Rightarrow> edge_identity" where
  "edge_host_port host port = \<lparr>id_host = map ascii_lower host, id_port = Some port\<rparr>"

definition identity_matches ::
  "('u, 'req, 'addr, 'hdr, 'via, 'resp, 'x) message_kernel_scheme \<Rightarrow> edge_identity \<Rightarrow> 'u \<Rightarrow> bool" where
  "identity_matches K identity uri =
    (case uri_host K uri of
       None \<Rightarrow> False
     | Some host \<Rightarrow>
        let folded = map ascii_lower (string_lossy (host_bytes K host));
            text = strip_dot folded
        in if text \<noteq> id_host identity then False
           else case id_port identity of None \<Rightarrow> True | Some port \<Rightarrow> uri_port K uri = Some port)"

record proxy_config =
  identities :: "edge_identity list"
  record_route_uri :: bytes
  supported :: "string list"
  schemes :: "string list"
  default_max_forwards :: u8
  default_max_breadth :: u32
  timer_c :: duration
  config_cookie_key :: cookie_key

definition config_new :: "string \<Rightarrow> bytes \<Rightarrow> cookie_key \<Rightarrow> proxy_config" where
  "config_new host rr key =
    \<lparr>identities = [edge_host host], record_route_uri = rr, supported = [], schemes = [''sip'', ''sips''],
     default_max_forwards = 70, default_max_breadth = 60, timer_c = DEFAULT_TIMER_C, config_cookie_key = key\<rparr>"

definition is_ours ::
  "('u, 'req, 'addr, 'hdr, 'via, 'resp, 'x) message_kernel_scheme \<Rightarrow> proxy_config \<Rightarrow> 'u \<Rightarrow> bool" where
  "is_ours K config uri = list_ex (\<lambda>identity. identity_matches K identity uri) (identities config)"

definition supports :: "proxy_config \<Rightarrow> string \<Rightarrow> bool" where
  "supports config tag =
    (let tag = map ascii_lower tag in list_ex (\<lambda>known. eq_ignore_case known tag) (supported config))"

definition understands_scheme ::
  "('u, 'req, 'addr, 'hdr, 'via, 'resp, 'x) message_kernel_scheme \<Rightarrow> proxy_config \<Rightarrow> 'u \<Rightarrow> bool" where
  "understands_scheme K config uri =
    (let scheme = map ascii_lower (string_lossy (uri_scheme_bytes K uri))
     in list_ex (\<lambda>known. eq_ignore_case known scheme) (schemes config))"

definition effective_timer_c :: "proxy_config \<Rightarrow> duration" where
  "effective_timer_c config = (if timer_c config > TIMER_C_FLOOR then timer_c config else DEFAULT_TIMER_C)"

lemma effective_timer_c_above_floor: "TIMER_C_FLOOR < effective_timer_c config"
  by (simp add: effective_timer_c_def TIMER_C_FLOOR_def DEFAULT_TIMER_C_def duration_of_secs_def)

lemma ascii_lower_idem [simp]: "ascii_lower (ascii_lower c) = ascii_lower c"
  by (simp add: ascii_lower_def Let_def)

lemma supports_ignores_case: "map ascii_lower a = map ascii_lower b \<Longrightarrow> supports config a = supports config b"
  by (simp add: supports_def)

section \<open>Targets from a location lookup\<close>

definition targets_from_lookup :: "target list \<Rightarrow> proxy_target list" where
  "targets_from_lookup found =
    map (\<lambda>binding. \<lparr>pt_uri = tg_contact binding, pt_route_set = tg_route_set binding, pt_q = tg_q binding\<rparr>) found"

end
