(* ===== verification/Cookie.thy ===== *)
theory Cookie imports Prelude Ascii Message Proxy begin

text \<open>
  \<^verbatim>\<open>cookie.rs\<close> of \<^verbatim>\<open>crates/sipx-clstr-proxy\<close>: the routing state a
  loop-detection cookie is computed over, the cookie, the \<^verbatim>\<open>Via\<close> branch that carries it
  and how it is read back.  SHA-256 and HMAC-SHA256 are third-party code, a record of two functions.
  The lemmas show that the encoding of the routing state is injective, that it ignores the topmost
  \<^verbatim>\<open>Via\<close>, and that the cookie minted into a branch is the one read back.
\<close>

section \<open>The routing state\<close>

record mac_kernel =
  sha256 :: "bytes \<Rightarrow> bytes"
  hmac_sha256 :: "bytes \<Rightarrow> bytes \<Rightarrow> bytes"

definition mac_laws :: "mac_kernel \<Rightarrow> bool" where
  "mac_laws M \<longleftrightarrow> (\<forall>key message. length (hmac_sha256 M key message) = 32)"

definition MAGIC_COOKIE :: string where "MAGIC_COOKIE = ''z9hG4bK''"

definition COOKIE_BYTES :: nat where "COOKIE_BYTES = 8"

record cookie_input =
  ci_request_uri :: bytes
  ci_to_tag :: "bytes option"
  ci_from_tag :: "bytes option"
  ci_call_id :: bytes
  ci_cseq :: u32
  ci_top_via :: "bytes option"
  ci_routes :: "bytes list"

definition tag_of ::
  "('u, 'req, 'addr, 'hdr, 'via, 'resp, 'x) message_kernel_scheme \<Rightarrow> 'req \<Rightarrow> header_name \<Rightarrow> bytes option" where
  "tag_of K request name =
    Option.bind (header_value K request name) (\<lambda>value. Option.bind (address_parse K value) (addr_tag K))"

definition cseq_number ::
  "('u, 'req, 'addr, 'hdr, 'via, 'resp, 'x) message_kernel_scheme \<Rightarrow> 'req \<Rightarrow> u32 option" where
  "cseq_number K request =
    Option.bind (header_value K request CSeq) (\<lambda>value. Option.bind (first_word (from_utf8_lossy value)) parse_u32)"

definition cookie_input_from ::
  "('u, 'req, 'addr, 'hdr, 'via, 'resp, 'x) message_kernel_scheme \<Rightarrow> 'req \<Rightarrow> cookie_input" where
  "cookie_input_from K request =
    \<lparr>ci_request_uri = uri_to_bytes K (req_uri K request),
     ci_to_tag = tag_of K request To,
     ci_from_tag = tag_of K request From,
     ci_call_id = (case header_value K request CallId of None \<Rightarrow> [] | Some value \<Rightarrow> trim value),
     ci_cseq = (case cseq_number K request of None \<Rightarrow> 0 | Some n \<Rightarrow> n),
     ci_top_via = map_option trim (header_value K request Via),
     ci_routes = map trim (header_all K request Route)\<rparr>"

text \<open>\<^verbatim>\<open>u32::to_be_bytes\<close>, and \<^verbatim>\<open>u32::try_from(n).unwrap_or(u32::MAX)\<close>.\<close>

definition be_bytes :: "u32 \<Rightarrow> bytes" where
  "be_bytes w = map (\<lambda>n. char_of (unat (drop_bit n w))) [24, 16, 8, 0]"

definition u32_of_usize :: "nat \<Rightarrow> u32" where
  "u32_of_usize n = (if n < 2 ^ 32 then of_nat n else - 1)"

definition encode_field :: "bytes \<Rightarrow> bytes" where
  "encode_field bs = be_bytes (u32_of_usize (length bs)) @ bs"

definition or_empty :: "bytes option \<Rightarrow> bytes" where
  "or_empty x = (case x of None \<Rightarrow> [] | Some bs \<Rightarrow> bs)"

definition encode_routing_state :: "cookie_input \<Rightarrow> bytes" where
  "encode_routing_state input =
    encode_field (ci_request_uri input)
    @ encode_field (or_empty (ci_to_tag input))
    @ encode_field (or_empty (ci_from_tag input))
    @ encode_field (ci_call_id input)
    @ encode_field (be_bytes (ci_cseq input))
    @ encode_field (be_bytes (u32_of_usize (length (ci_routes input))))
    @ concat (map encode_field (ci_routes input))"

section \<open>The cookie and the branch\<close>

definition mac :: "mac_kernel \<Rightarrow> cookie_key \<Rightarrow> bytes \<Rightarrow> bytes" where
  "mac M key message = (let normalized = sha256 M (key_bytes key) in hmac_sha256 M normalized message)"

definition nibble :: "nat \<Rightarrow> char" where
  "nibble value = (if value \<le> 9 then char_of (48 + value) else char_of (97 + (value - 10)))"

definition hex :: "bytes \<Rightarrow> string" where
  "hex bs = concat (map (\<lambda>byte. [nibble (of_char byte div 16), nibble (of_char byte mod 16)]) bs)"

definition cookie :: "mac_kernel \<Rightarrow> cookie_input \<Rightarrow> cookie_key \<Rightarrow> string" where
  "cookie M input key = hex (take COOKIE_BYTES (mac M key (encode_routing_state input)))"

definition branch_for :: "mac_kernel \<Rightarrow> proxy_config \<Rightarrow> cookie_input \<Rightarrow> nat \<Rightarrow> string" where
  "branch_for M config input index =
    (let minted = cookie M input (config_cookie_key config);
         unique_input = encode_routing_state input @ ''/via/'' @ or_empty (ci_top_via input)
           @ ''/branch/'' @ be_bytes (u32_of_usize index);
         unique = hex (take COOKIE_BYTES (mac M (config_cookie_key config) unique_input))
     in MAGIC_COOKIE @ ''-'' @ unique @ ''-'' @ minted)"

definition strip_prefix :: "string \<Rightarrow> string \<Rightarrow> string option" where
  "strip_prefix p s = (if take (length p) s = p then Some (drop (length p) s) else None)"

definition rsplit_once :: "char \<Rightarrow> string \<Rightarrow> (string \<times> string) option" where
  "rsplit_once c s =
    (if c \<in> set s
     then Some (rev (tl (dropWhile (\<lambda>x. x \<noteq> c) (rev s))), rev (takeWhile (\<lambda>x. x \<noteq> c) (rev s)))
     else None)"

definition cookie_of :: "string \<Rightarrow> string option" where
  "cookie_of branch =
    Option.bind (strip_prefix MAGIC_COOKIE branch) (\<lambda>rest.
    Option.bind (strip_prefix ''-'' rest) (\<lambda>rest.
    Option.bind (rsplit_once (CHR ''-'') rest) (\<lambda>(unique, minted).
    if minted \<noteq> [] then Some minted else None)))"

section \<open>The encoding is injective\<close>

lemma be_bytes_length [simp]: "length (be_bytes w) = 4"
  by (simp add: be_bytes_def)

lemma nat_of_four_bytes:
  fixes a :: nat
  assumes "a < 2 ^ 32"
  shows "a = a mod 256 + 256 * (a div 2 ^ 8 mod 256 + 256 * (a div 2 ^ 16 mod 256 + 256 * (a div 2 ^ 24 mod 256)))"
proof -
  have "a div 2 ^ 16 div 256 = a div 2 ^ 24" "a div 2 ^ 8 div 256 = a div 2 ^ 16" "a div 256 = a div 2 ^ 8"
    by (simp_all add: div_mult2_eq [symmetric])
  moreover have "a div 2 ^ 24 < 256" using assms by (simp add: less_mult_imp_div_less)
  ultimately show ?thesis
    by (metis mod_less div_mult_mod_eq add.commute mult.commute)
qed

lemma unat_drop_bit_32: "unat (drop_bit n w) = unat w div 2 ^ n" for w :: u32
  using unsigned_less [of w, where ?'a = nat]
  by (subst unsigned_drop_bit_eq) (simp only: take_bit_nat_eq_self drop_bit_eq_div)

lemma be_bytes_inj: "be_bytes v = be_bytes w \<Longrightarrow> v = w"
proof -
  assume eq: "be_bytes v = be_bytes w"
  have b: "unat v div 2 ^ n mod 256 = unat w div 2 ^ n mod 256" if "n \<in> {24, 16, 8, 0}" for n
  proof -
    have "(of_char (char_of (unat (drop_bit n v)) :: char) :: nat) = of_char (char_of (unat (drop_bit n w)) :: char)"
      using eq that by (auto simp only: be_bytes_def list.map list.inject insert_iff)
    then show ?thesis by (simp only: unat_drop_bit_32 of_char_of)
  qed
  have "unat v < 2 ^ 32" "unat w < 2 ^ 32" using unsigned_less [of v] unsigned_less [of w] by simp_all
  then have "unat v = unat w"
    using nat_of_four_bytes [of "unat v"] nat_of_four_bytes [of "unat w"] b [of 24] b [of 16] b [of 8] b [of 0] by simp
  then show ?thesis by (rule unsigned_word_eqI)
qed

lemma u32_of_usize_inj: "m < 2 ^ 32 \<Longrightarrow> n < 2 ^ 32 \<Longrightarrow> u32_of_usize m = u32_of_usize n \<Longrightarrow> m = n"
proof -
  assume "m < 2 ^ 32" "n < 2 ^ 32" "u32_of_usize m = u32_of_usize n"
  then have "unat (of_nat m :: u32) = unat (of_nat n :: u32)" by (simp add: u32_of_usize_def)
  with \<open>m < 2 ^ 32\<close> \<open>n < 2 ^ 32\<close> show "m = n" by (simp add: unat_of_nat take_bit_nat_eq_self)
qed

lemma encode_field_prefix_free:
  assumes "encode_field a @ s = encode_field b @ t" "length a < 2 ^ 32" "length b < 2 ^ 32"
  shows "a = b \<and> s = t"
proof -
  have "be_bytes (u32_of_usize (length a)) = be_bytes (u32_of_usize (length b)) \<and> a @ s = b @ t"
    using assms(1) by (simp add: encode_field_def append_eq_append_conv)
  then have "length a = length b" "a @ s = b @ t"
    using assms(2,3) be_bytes_inj u32_of_usize_inj by blast+
  then show ?thesis by simp
qed

lemma encode_fields_inj:
  "length as = length bs \<Longrightarrow> concat (map encode_field as) @ s = concat (map encode_field bs) @ t
    \<Longrightarrow> \<forall>x \<in> set as \<union> set bs. length x < 2 ^ 32 \<Longrightarrow> as = bs \<and> s = t"
proof (induction as bs rule: list_induct2)
  case (Cons a as b bs)
  then have "a = b \<and> concat (map encode_field as) @ s = concat (map encode_field bs) @ t"
    by (intro encode_field_prefix_free) simp_all
  with Cons show ?case by simp
qed simp

definition encodable :: "cookie_input \<Rightarrow> bool" where
  "encodable input \<longleftrightarrow> length (ci_request_uri input) < 2 ^ 32 \<and> length (or_empty (ci_to_tag input)) < 2 ^ 32
    \<and> length (or_empty (ci_from_tag input)) < 2 ^ 32 \<and> length (ci_call_id input) < 2 ^ 32
    \<and> length (ci_routes input) < 2 ^ 32 \<and> (\<forall>r \<in> set (ci_routes input). length r < 2 ^ 32)"

section \<open>Branches are read back\<close>

lemma nibble_chars: "n < 16 \<Longrightarrow> nibble n \<noteq> CHR ''-'' \<and> nibble n \<noteq> CHR '';'' \<and> is_ascii_char (nibble n)"
  by (auto simp: nibble_def is_ascii_char_def char_of_eq_iff take_bit_eq_mod)

lemma hex_chars: "c \<in> set (hex bs) \<Longrightarrow> c \<noteq> CHR ''-'' \<and> c \<noteq> CHR '';'' \<and> is_ascii_char c"
proof -
  assume "c \<in> set (hex bs)"
  then obtain b :: char where "c = nibble (of_char b div 16) \<or> c = nibble (of_char b mod 16)"
    by (auto simp: hex_def)
  moreover have "(of_char b :: nat) < 256" by (metis of_char_mod_256 mod_less_divisor zero_less_numeral)
  then have "(of_char b :: nat) div 16 < 16" by (simp add: less_mult_imp_div_less)
  ultimately show ?thesis using nibble_chars [of "of_char b div 16"] nibble_chars [of "of_char b mod 16"] by auto
qed

lemma length_hex [simp]: "length (hex bs) = 2 * length bs"
  by (induction bs) (simp_all add: hex_def)

lemma cookie_length: "mac_laws M \<Longrightarrow> length (cookie M input key) = 16"
  by (simp add: cookie_def mac_def mac_laws_def Let_def COOKIE_BYTES_def)

lemma takeWhile_rev_hex: "takeWhile (\<lambda>x. x \<noteq> CHR ''-'') (rev (hex bs) @ CHR ''-'' # xs) = rev (hex bs)"
  by (subst takeWhile_append2) (use hex_chars in auto)

lemma dropWhile_rev_hex: "dropWhile (\<lambda>x. x \<noteq> CHR ''-'') (rev (hex bs) @ CHR ''-'' # xs) = CHR ''-'' # xs"
  by (subst dropWhile_append2) (use hex_chars in auto)

lemma cookie_of_minted:
  "hex bs \<noteq> [] \<Longrightarrow> cookie_of (MAGIC_COOKIE @ ''-'' @ unique @ ''-'' @ hex bs) = Some (hex bs)"
  by (simp add: cookie_of_def strip_prefix_def MAGIC_COOKIE_def rsplit_once_def takeWhile_rev_hex)

lemma branch_ascii: "list_all is_ascii_char (branch_for M config input index)"
  using hex_chars by (auto simp: branch_for_def list_all_iff Let_def MAGIC_COOKIE_def cookie_def)
    (simp_all add: is_ascii_char_def)

lemma branch_no_semicolon: "CHR '';'' \<notin> set (branch_for M config input index)"
  using hex_chars by (auto simp: branch_for_def Let_def MAGIC_COOKIE_def cookie_def)

lemma cookie_of_branch:
  assumes "mac_laws M"
  shows "cookie_of (branch_for M config input index) = Some (cookie M input (config_cookie_key config))"
proof -
  have "cookie M input (config_cookie_key config) \<noteq> []"
    using cookie_length [OF assms, of input "config_cookie_key config"] by auto
  then show ?thesis
    unfolding branch_for_def Let_def cookie_def by (rule cookie_of_minted)
qed

lemma hex_inj: "hex a = hex b \<Longrightarrow> a = b"
proof (induction a arbitrary: b)
  case (Cons x a)
  then obtain y b' where b: "b = y # b'" by (cases b) (simp_all add: hex_def)
  have n: "m = n" if "nibble m = nibble n" "m < 16" "n < 16" for m n
    using that by (auto simp: nibble_def char_of_eq_iff take_bit_eq_mod split: if_splits)
  have "(of_char x :: nat) < 256" "(of_char y :: nat) < 256" by (metis of_char_mod_256 mod_less_divisor zero_less_numeral)+
  then have "(of_char x :: nat) div 16 < 16" "(of_char y :: nat) div 16 < 16" by (simp_all add: less_mult_imp_div_less)
  moreover have "nibble (of_char x div 16) = nibble (of_char y div 16)" "nibble (of_char x mod 16) = nibble (of_char y mod 16)"
    "hex a = hex b'"
    using Cons.prems by (simp_all add: b hex_def)
  ultimately have "(of_char x :: nat) div 16 = of_char y div 16" "(of_char x :: nat) mod 16 = of_char y mod 16" "a = b'"
    using n Cons.IH by simp_all
  then have "(of_char x :: nat) = of_char y" by (metis div_mult_mod_eq)
  with \<open>a = b'\<close> b show ?case by simp
qed (simp add: hex_def)

section \<open>Properties\<close>

definition same_state :: "cookie_input \<Rightarrow> cookie_input \<Rightarrow> bool" where
  "same_state a b \<longleftrightarrow> ci_request_uri a = ci_request_uri b \<and> or_empty (ci_to_tag a) = or_empty (ci_to_tag b)
    \<and> or_empty (ci_from_tag a) = or_empty (ci_from_tag b) \<and> ci_call_id a = ci_call_id b \<and> ci_cseq a = ci_cseq b
    \<and> ci_routes a = ci_routes b"

lemma encode_same_state: "same_state a b \<Longrightarrow> encode_routing_state a = encode_routing_state b"
  by (simp add: same_state_def encode_routing_state_def)

definition head_fields :: "cookie_input \<Rightarrow> bytes list" where
  "head_fields input = [ci_request_uri input, or_empty (ci_to_tag input), or_empty (ci_from_tag input), ci_call_id input,
     be_bytes (ci_cseq input), be_bytes (u32_of_usize (length (ci_routes input)))]"

lemma encode_head_fields:
  "encode_routing_state input = concat (map encode_field (head_fields input)) @ concat (map encode_field (ci_routes input))"
  by (simp add: encode_routing_state_def head_fields_def)

lemma head_fields_short: "encodable input \<Longrightarrow> x \<in> set (head_fields input) \<Longrightarrow> length x < 2 ^ 32"
  unfolding head_fields_def encodable_def by (elim conjE) (simp only: list.set insert_iff empty_iff, elim disjE; simp)

lemma encode_state_prefix_free:
  assumes enc: "encodable a" "encodable b" and eq: "encode_routing_state a @ s = encode_routing_state b @ t"
  shows "same_state a b \<and> s = t"
proof -
  have heads: "head_fields a = head_fields b
      \<and> concat (map encode_field (ci_routes a)) @ s = concat (map encode_field (ci_routes b)) @ t"
  proof (rule encode_fields_inj)
    show "concat (map encode_field (head_fields a)) @ concat (map encode_field (ci_routes a)) @ s
      = concat (map encode_field (head_fields b)) @ concat (map encode_field (ci_routes b)) @ t"
      using eq by (simp only: encode_head_fields append_assoc)
    show "\<forall>x \<in> set (head_fields a) \<union> set (head_fields b). length x < 2 ^ 32"
      using head_fields_short enc by blast
  qed (simp add: head_fields_def)
  then have "be_bytes (u32_of_usize (length (ci_routes a))) = be_bytes (u32_of_usize (length (ci_routes b)))"
    by (simp add: head_fields_def)
  then have "u32_of_usize (length (ci_routes a)) = u32_of_usize (length (ci_routes b))" by (rule be_bytes_inj)
  then have "length (ci_routes a) = length (ci_routes b)"
    by (rule u32_of_usize_inj [rotated 2]) (use enc in \<open>simp_all add: encodable_def\<close>)
  then have "ci_routes a = ci_routes b \<and> s = t"
    by (rule encode_fields_inj [OF _ conjunct2 [OF heads]]) (use enc in \<open>auto simp: encodable_def\<close>)
  with heads show ?thesis by (simp add: same_state_def head_fields_def be_bytes_inj)
qed

text \<open>The loop cookie is computed over an injective encoding: two routing states encode alike exactly
  when Request-URI, tags (an absent one reads as empty), \<^verbatim>\<open>Call-ID\<close>, \<^verbatim>\<open>CSeq\<close> number
  and \<^verbatim>\<open>Route\<close> values agree, whatever the topmost \<^verbatim>\<open>Via\<close>; lengths are under the
  four-byte prefix.\<close>

theorem routing_state_injective:
  assumes "encodable a" and "encodable b"
  shows "encode_routing_state a = encode_routing_state b \<longleftrightarrow> same_state a b"
  using encode_state_prefix_free [OF assms, of "[]" "[]"] encode_same_state [of a b] by auto

definition sample_input :: "bytes \<Rightarrow> bytes \<Rightarrow> cookie_input" where
  "sample_input cid tag = \<lparr>ci_request_uri = ''sip:bob@b.example'', ci_to_tag = None, ci_from_tag = Some tag,
     ci_call_id = cid, ci_cseq = 1, ci_top_via = None, ci_routes = []\<rparr>"

lemma sample_encodable: "encodable (sample_input ''x'' ''yz'')" "encodable (sample_input ''xy'' ''z'')"
  by (simp_all add: encodable_def sample_input_def or_empty_def)

theorem routing_state_injective_witness:
  "encode_routing_state (sample_input ''x'' ''yz'') \<noteq> encode_routing_state (sample_input ''xy'' ''z'')"
  using routing_state_injective [OF sample_encodable] by (simp add: same_state_def sample_input_def)

definition unique_message :: "cookie_input \<Rightarrow> nat \<Rightarrow> bytes" where
  "unique_message input index = encode_routing_state input @ ''/via/'' @ or_empty (ci_top_via input)
     @ ''/branch/'' @ be_bytes (u32_of_usize index)"

lemma unique_message_inj:
  assumes "encodable a" "encodable b" "i < 2 ^ 32" "j < 2 ^ 32" "unique_message a i = unique_message b j"
  shows "same_state a b \<and> or_empty (ci_top_via a) = or_empty (ci_top_via b) \<and> i = j"
proof -
  from assms(5) have "same_state a b
    \<and> ''/via/'' @ or_empty (ci_top_via a) @ ''/branch/'' @ be_bytes (u32_of_usize i)
      = ''/via/'' @ or_empty (ci_top_via b) @ ''/branch/'' @ be_bytes (u32_of_usize j)"
    unfolding unique_message_def by (rule encode_state_prefix_free [OF assms(1,2)])
  then have s: "same_state a b" and t: "(or_empty (ci_top_via a) @ ''/branch/'') @ be_bytes (u32_of_usize i)
      = (or_empty (ci_top_via b) @ ''/branch/'') @ be_bytes (u32_of_usize j)"
    by simp_all
  from t have "or_empty (ci_top_via a) @ ''/branch/'' = or_empty (ci_top_via b) @ ''/branch/''
      \<and> be_bytes (u32_of_usize i) = be_bytes (u32_of_usize j)"
    by (subst (asm) append_eq_append_conv) simp_all
  then show ?thesis using s assms(3,4) u32_of_usize_inj be_bytes_inj by (metis append_same_eq)
qed

lemma branch_eq_MAC:
  assumes "mac_laws M" "branch_for M config a i = branch_for M config b j"
  shows "take 8 (mac M (config_cookie_key config) (unique_message a i))
    = take 8 (mac M (config_cookie_key config) (unique_message b j))"
proof -
  have l: "length (hex (take COOKIE_BYTES (mac M key m))) = 16" for key m
    using assms(1) by (simp add: mac_def mac_laws_def Let_def COOKIE_BYTES_def)
  have "hex (take COOKIE_BYTES (mac M (config_cookie_key config) (unique_message a i)))
      = hex (take COOKIE_BYTES (mac M (config_cookie_key config) (unique_message b j)))"
    using assms(2) l unfolding branch_for_def Let_def unique_message_def [symmetric]
    by (metis append_eq_append_conv)
  then show ?thesis using hex_inj by (metis COOKIE_BYTES_def)
qed

text \<open>That the truncated MAC tells the messages of a set apart.\<close>

definition no_collision :: "mac_kernel \<Rightarrow> cookie_key \<Rightarrow> bytes set \<Rightarrow> bool" where
  "no_collision M key messages \<longleftrightarrow> inj_on (\<lambda>m. take COOKIE_BYTES (mac M key m)) messages"

lemma cookie_eq_same_state:
  assumes "encodable a" "encodable b" "no_collision M key {encode_routing_state a, encode_routing_state b}"
  shows "cookie M a key = cookie M b key \<longleftrightarrow> same_state a b"
proof -
  have "cookie M a key = cookie M b key \<longleftrightarrow> encode_routing_state a = encode_routing_state b"
  proof
    assume "cookie M a key = cookie M b key"
    then have "take COOKIE_BYTES (mac M key (encode_routing_state a)) = take COOKIE_BYTES (mac M key (encode_routing_state b))"
      unfolding cookie_def by (rule hex_inj)
    then show "encode_routing_state a = encode_routing_state b"
      by (rule inj_onD [OF assms(3) [unfolded no_collision_def]]) simp_all
  qed (simp add: cookie_def)
  then show ?thesis
    using encode_state_prefix_free [OF assms(1,2), of "[]" "[]"] encode_same_state [of a b] by auto
qed

text \<open>A branch reads back as the cookie it was minted with and has a fixed shape of 41 characters
  behind the magic cookie; while the truncated MAC tells their messages apart, two forks share a branch
  exactly when they have the same routing state, topmost \<^verbatim>\<open>Via\<close> and fork index, so a
  retransmission repeats its branch and distinct forks never share one.\<close>

theorem branch_identifies_fork:
  assumes "mac_laws M" and "encodable a" and "encodable b" and "i < 2 ^ 32" and "j < 2 ^ 32"
    and "no_collision M (config_cookie_key config) {unique_message a i, unique_message b j}"
  shows "cookie_of (branch_for M config a i) = Some (cookie M a (config_cookie_key config))
    \<and> length (branch_for M config a i) = 41 \<and> take 7 (branch_for M config a i) = MAGIC_COOKIE
    \<and> (branch_for M config a i = branch_for M config b j \<longleftrightarrow>
        same_state a b \<and> or_empty (ci_top_via a) = or_empty (ci_top_via b) \<and> i = j)"
proof (intro conjI)
  show "cookie_of (branch_for M config a i) = Some (cookie M a (config_cookie_key config))"
    by (rule cookie_of_branch [OF assms(1)])
  show "length (branch_for M config a i) = 41" "take 7 (branch_for M config a i) = MAGIC_COOKIE"
    using assms(1) by (simp_all add: branch_for_def Let_def cookie_def mac_def mac_laws_def COOKIE_BYTES_def MAGIC_COOKIE_def)
  show "branch_for M config a i = branch_for M config b j \<longleftrightarrow>
      same_state a b \<and> or_empty (ci_top_via a) = or_empty (ci_top_via b) \<and> i = j"
  proof
    assume "branch_for M config a i = branch_for M config b j"
    from branch_eq_MAC [OF assms(1) this] have "unique_message a i = unique_message b j"
      unfolding COOKIE_BYTES_def [symmetric] by (rule inj_onD [OF assms(6) [unfolded no_collision_def]]) simp_all
    then show "same_state a b \<and> or_empty (ci_top_via a) = or_empty (ci_top_via b) \<and> i = j"
      by (rule unique_message_inj [OF assms(2-5)])
  qed (simp add: branch_for_def Let_def cookie_def encode_same_state [of a b])
qed

definition plain_mac :: mac_kernel where
  "plain_mac = \<lparr>sha256 = (\<lambda>bs. bs), hmac_sha256 = (\<lambda>key message. take 32 (rev message @ replicate 32 (CHR 0x00)))\<rparr>"

lemma plain_mac_laws: "mac_laws plain_mac"
  by (simp add: mac_laws_def plain_mac_def min_def)

theorem branch_identifies_fork_witness:
  "branch_for plain_mac (config_new ''e'' ''<sip:e>'' (CookieKey ''k'')) (sample_input ''x'' ''yz'') 0
    \<noteq> branch_for plain_mac (config_new ''e'' ''<sip:e>'' (CookieKey ''k'')) (sample_input ''x'' ''yz'') 1"
proof -
  let ?a = "sample_input ''x'' ''yz''" and ?c = "config_new ''e'' ''<sip:e>'' (CookieKey ''k'')"
  have u: "take 8 (mac plain_mac key (unique_message ?a i)) = rev (be_bytes (u32_of_usize i)) @ ''/hcn''" for key i
    by (simp add: mac_def plain_mac_def unique_message_def Let_def be_bytes_def)
  have "be_bytes (u32_of_usize 0) \<noteq> be_bytes (u32_of_usize 1)"
    using be_bytes_inj [of "u32_of_usize 0" "u32_of_usize 1"] by (auto simp: u32_of_usize_def)
  then have "no_collision plain_mac (config_cookie_key ?c) {unique_message ?a 0, unique_message ?a 1}"
    by (auto simp: no_collision_def COOKIE_BYTES_def u)
  then show ?thesis
    using branch_identifies_fork [OF plain_mac_laws sample_encodable(1) sample_encodable(1), of 0 1 ?c] by simp
qed

end
