(* ===== verification/Sample.thy ===== *)
theory Sample imports Prelude Ascii Message Proxy begin

text \<open>
  A concrete message kernel, for evaluating the proxy's theorems at a point: a URI is its text, a
  header a name with its value, a message the list of its headers.  It satisfies the laws of the
  header collection.
\<close>

type_synonym text_header = "header_name \<times> bytes"

record text_message =
  tm_method :: string
  tm_uri :: bytes
  tm_status :: u16
  tm_headers :: "text_header list"

definition param_of :: "bytes \<Rightarrow> string \<Rightarrow> bytes option" where
  "param_of text name = List.find (\<lambda>p. takeWhile (\<lambda>c. c \<noteq> CHR ''='') p = name) (tl (split_on (CHR '';'') text))"

definition param_value_of :: "bytes \<Rightarrow> string \<Rightarrow> bytes option" where
  "param_value_of text name = map_option (\<lambda>p. tl (dropWhile (\<lambda>c. c \<noteq> CHR ''='') p)) (param_of text name)"

definition authority_of :: "bytes \<Rightarrow> bytes" where
  "authority_of text = takeWhile (\<lambda>c. c \<noteq> CHR '';'') (drop 4 text)"

definition host_of :: "bytes \<Rightarrow> bytes" where
  "host_of text =
    (let a = authority_of text in if CHR ''@'' \<in> set a then tl (dropWhile (\<lambda>c. c \<noteq> CHR ''@'') a) else a)"

definition user_of :: "bytes \<Rightarrow> bytes option" where
  "user_of text =
    (let a = authority_of text in if CHR ''@'' \<in> set a then Some (takeWhile (\<lambda>c. c \<noteq> CHR ''@'') a) else None)"

definition address_of :: "bytes \<Rightarrow> (bytes \<times> bytes) option" where
  "address_of text =
    (case text of
       [] \<Rightarrow> None
     | c # rest \<Rightarrow>
        if c = CHR ''<'' then Some (takeWhile (\<lambda>c. c \<noteq> CHR ''>'') rest, dropWhile (\<lambda>c. c \<noteq> CHR ''>'') rest) else None)"

definition base_kernel :: "bytes uri_kernel" where
  "base_kernel = \<lparr>uri_parse = (\<lambda>raw. if raw = [] then None else Some raw), equivalent = (=), uri_scheme = (\<lambda>_. Sip),
     scheme_is_sip = (\<lambda>_. True), has_headers = (\<lambda>_. False), password = (\<lambda>_. None), user = user_of,
     decoded_user = user_of, uri_host = (\<lambda>u. Some (Name (host_of u))), uri_port = (\<lambda>_. None)\<rparr>"

definition values_of :: "text_header list \<Rightarrow> header_name \<Rightarrow> bytes list" where
  "values_of hs n = map snd (filter (\<lambda>h. fst h = n) hs)"

definition reading_kernel :: "(bytes, text_message, bytes \<times> bytes) sip_kernel" where
  "reading_kernel = uri_kernel.extend base_kernel
    \<lparr>uri_to_bytes = (\<lambda>u. u), req_uri = tm_uri, req_method = tm_method,
     header_value = (\<lambda>r n. case values_of (tm_headers r) n of [] \<Rightarrow> None | v # _ \<Rightarrow> Some v),
     header_all = (\<lambda>r n. values_of (tm_headers r) n), address_parse = address_of,
     address_parse_list = (\<lambda>raw. map_option (\<lambda>a. [a]) (address_of raw)), addr_uri = fst,
     addr_param = (\<lambda>a n. param_value_of (snd a) n)\<rparr>"

definition sample_kernel ::
  "(bytes, text_message, bytes \<times> bytes, text_header, bytes, text_message) message_kernel" where
  "sample_kernel = sip_kernel.extend reading_kernel
    \<lparr>uri_scheme_bytes = (\<lambda>u. take 3 u), host_bytes = (\<lambda>h. case h of Name n \<Rightarrow> n | Ip _ \<Rightarrow> []),
     uri_param = param_value_of, has_param = (\<lambda>u n. param_of u n \<noteq> None),
     addr_tag = (\<lambda>a. param_value_of (snd a) ''tag''),
     via_parse_one = (\<lambda>v. Some (drop 8 v)), via_host = (\<lambda>v. Name (host_of v)), via_port = (\<lambda>_. None),
     via_branch = (\<lambda>v. param_value_of v ''branch''),
     set_uri = (\<lambda>r u. r\<lparr>tm_uri := u\<rparr>), header_build = (\<lambda>n v. Some (n, v)),
     push_back = (\<lambda>r h. r\<lparr>tm_headers := tm_headers r @ [h]\<rparr>), push_front = (\<lambda>r h. r\<lparr>tm_headers := h # tm_headers r\<rparr>),
     remove_all = (\<lambda>r n. r\<lparr>tm_headers := filter (\<lambda>h. fst h \<noteq> n) (tm_headers r)\<rparr>),
     valid_status = (\<lambda>s. 100 \<le> s \<and> s < 700),
     respond_to = (\<lambda>r s reason. Some (r\<lparr>tm_status := s\<rparr>)), resp_status = tm_status,
     resp_provisional = (\<lambda>r. tm_status r < 200),
     resp_headers = (\<lambda>r n. filter (\<lambda>h. fst h = n) (tm_headers r)),
     resp_push = (\<lambda>r h. r\<lparr>tm_headers := tm_headers r @ [h]\<rparr>),
     resp_remove_first = (\<lambda>r n. r\<lparr>tm_headers :=
       takeWhile (\<lambda>h. fst h \<noteq> n) (tm_headers r) @ tl (dropWhile (\<lambda>h. fst h \<noteq> n) (tm_headers r))\<rparr>)\<rparr>"

lemma values_of_simps [simp]:
  "values_of [] n = []" "values_of (h # hs) n = (if fst h = n then snd h # values_of hs n else values_of hs n)"
  "values_of (hs @ hs') n = values_of hs n @ values_of hs' n"
  by (simp_all add: values_of_def)

lemma values_of_remove: "values_of (filter (\<lambda>h. fst h \<noteq> n) hs) m = (if m = n then [] else values_of hs m)"
  by (induction hs) auto

lemma sample_fields [simp]:
  "uri_parse sample_kernel raw = (if raw = [] then None else Some raw)" "user sample_kernel = user_of"
  "uri_host sample_kernel u = Some (Name (host_of u))" "uri_port sample_kernel u = None"
  "uri_to_bytes sample_kernel u = u" "req_uri sample_kernel = tm_uri" "req_method sample_kernel = tm_method"
  "header_value sample_kernel r n = (case values_of (tm_headers r) n of [] \<Rightarrow> None | v # _ \<Rightarrow> Some v)"
  "header_all sample_kernel r n = values_of (tm_headers r) n" "address_parse sample_kernel = address_of"
  "addr_uri sample_kernel = fst" "uri_scheme_bytes sample_kernel u = take 3 u" "host_bytes sample_kernel (Name s) = s"
  "uri_param sample_kernel = param_value_of" "has_param sample_kernel u s = (param_of u s \<noteq> None)"
  "addr_tag sample_kernel a = param_value_of (snd a) ''tag''" "via_parse_one sample_kernel v = Some (drop 8 v)"
  "via_host sample_kernel v = Name (host_of v)" "via_port sample_kernel v = None"
  "via_branch sample_kernel v = param_value_of v ''branch''" "set_uri sample_kernel r u = r\<lparr>tm_uri := u\<rparr>"
  "header_build sample_kernel n s = Some (n, s)" "push_back sample_kernel r h = r\<lparr>tm_headers := tm_headers r @ [h]\<rparr>"
  "push_front sample_kernel r h = r\<lparr>tm_headers := h # tm_headers r\<rparr>"
  "remove_all sample_kernel r n = r\<lparr>tm_headers := filter (\<lambda>h. fst h \<noteq> n) (tm_headers r)\<rparr>"
  "valid_status sample_kernel c = (100 \<le> c \<and> c < 700)" "respond_to sample_kernel r c reason = Some (r\<lparr>tm_status := c\<rparr>)"
  "resp_status sample_kernel = tm_status" "resp_provisional sample_kernel r = (tm_status r < 200)"
  by (simp_all add: sample_kernel_def sip_kernel.defs reading_kernel_def uri_kernel.defs base_kernel_def)

lemma sample_header_laws: "header_laws sample_kernel"
  unfolding header_laws_def by (auto simp: values_of_remove)

end
