(* ===== verification/Validate.thy ===== *)
theory Validate imports Prelude Ascii Message Proxy Cookie Sample begin

text \<open>
  \<^verbatim>\<open>validate.rs\<close> of \<^verbatim>\<open>crates/sipx-clstr-proxy\<close>: the checks a request passes
  before it is forwarded, in order, the first failure answering.  The lemmas show which checks a
  validated request passed, that a request in a routing state this platform already forwarded is
  refused as a loop, and that one in a new state (a spiral) is not.
\<close>

datatype refusal = Drop | UnsupportedScheme | TooManyHops | LoopDetected | MaxBreadthExceeded
  | BadExtension "string list"

fun refusal_status :: "refusal \<Rightarrow> u16 option" where
  "refusal_status Drop = None"
| "refusal_status UnsupportedScheme = Some 416"
| "refusal_status TooManyHops = Some 483"
| "refusal_status LoopDetected = Some 482"
| "refusal_status MaxBreadthExceeded = Some 440"
| "refusal_status (BadExtension _) = Some 420"

fun refusal_reason :: "refusal \<Rightarrow> string" where
  "refusal_reason Drop = ''''"
| "refusal_reason UnsupportedScheme = ''Unsupported URI Scheme''"
| "refusal_reason TooManyHops = ''Too Many Hops''"
| "refusal_reason LoopDetected = ''Loop Detected''"
| "refusal_reason MaxBreadthExceeded = ''Max-Breadth Exceeded''"
| "refusal_reason (BadExtension _) = ''Bad Extension''"

record validated =
  va_max_forwards :: u8
  va_max_breadth :: u32
  va_cookie_input :: cookie_input

definition is_respondable ::
  "('u, 'req, 'addr, 'hdr, 'via, 'resp, 'x) message_kernel_scheme \<Rightarrow> 'req \<Rightarrow> bool" where
  "is_respondable K request \<longleftrightarrow>
    header_value K request Via \<noteq> None \<and> header_value K request CallId \<noteq> None
    \<and> header_value K request CSeq \<noteq> None \<and> header_value K request From \<noteq> None
    \<and> header_value K request To \<noteq> None"

definition via_is_ours ::
  "('u, 'req, 'addr, 'hdr, 'via, 'resp, 'x) message_kernel_scheme \<Rightarrow> 'via \<Rightarrow> proxy_config \<Rightarrow> bool" where
  "via_is_ours K via config =
    (let sent_by = strip_dot (map ascii_lower (string_lossy (host_bytes K (via_host K via))))
     in list_ex (\<lambda>identity. id_host identity = sent_by
          \<and> (case id_port identity of
               None \<Rightarrow> True
             | Some port \<Rightarrow> (case via_port K via of None \<Rightarrow> True | Some actual \<Rightarrow> actual = port)))
        (identities config))"

definition via_cookie ::
  "('u, 'req, 'addr, 'hdr, 'via, 'resp, 'x) message_kernel_scheme \<Rightarrow> 'via \<Rightarrow> string option" where
  "via_cookie K via = Option.bind (via_branch K via) (\<lambda>branch. cookie_of (string_lossy branch))"

definition is_loop ::
  "('u, 'req, 'addr, 'hdr, 'via, 'resp, 'x) message_kernel_scheme \<Rightarrow> 'req \<Rightarrow> proxy_config \<Rightarrow> string \<Rightarrow> bool" where
  "is_loop K request config expected =
    list_ex (\<lambda>via. via_cookie K via = Some expected)
      (filter (\<lambda>via. via_is_ours K via config)
        (List.map_filter (via_parse_one K) (header_all K request Via)))"

definition header_number ::
  "nat \<Rightarrow> ('u, 'req, 'addr, 'hdr, 'via, 'resp, 'x) message_kernel_scheme \<Rightarrow> 'req \<Rightarrow> header_name
    \<Rightarrow> 'w::len word option" where
  "header_number width K request name =
    Option.bind (header_value K request name)
      (\<lambda>value. map_option of_nat (parse_unsigned width (trim_text (from_utf8_lossy value))))"

definition required_tags ::
  "('u, 'req, 'addr, 'hdr, 'via, 'resp, 'x) message_kernel_scheme \<Rightarrow> 'req \<Rightarrow> header_name \<Rightarrow> string list" where
  "required_tags K request name =
    concat (map (\<lambda>value.
      filter (\<lambda>tag. tag \<noteq> [])
        (map (\<lambda>tag. to_bytes (trim_text tag)) (split_points 44 (from_utf8_lossy value))))
      (header_all K request name))"

definition validate ::
  "('u, 'req, 'addr, 'hdr, 'via, 'resp, 'x) message_kernel_scheme \<Rightarrow> mac_kernel \<Rightarrow> 'req \<Rightarrow> proxy_config
    \<Rightarrow> refusal + validated" where
  "validate K M request config =
    (if \<not> is_respondable K request then Inl Drop
     else if \<not> understands_scheme K config (req_uri K request) then Inl UnsupportedScheme
     else
       and_then (case header_number 8 K request MaxForwards of
           Some value \<Rightarrow> if value = 0 then Inl TooManyHops else Inr value
         | None \<Rightarrow> Inr (default_max_forwards config)) (\<lambda>max_forwards :: u8.
       let input = cookie_input_from K request;
           expected = cookie M input (config_cookie_key config)
       in if is_loop K request config expected then Inl LoopDetected
          else
            and_then (case header_number 32 K request MAX_BREADTH of
                Some value \<Rightarrow> if value = 0 then Inl MaxBreadthExceeded else Inr value
              | None \<Rightarrow> Inr (default_max_breadth config)) (\<lambda>max_breadth :: u32.
            let unsupported = filter (\<lambda>tag. \<not> supports config tag) (required_tags K request ProxyRequire)
            in if unsupported \<noteq> [] then Inl (BadExtension unsupported)
               else Inr \<lparr>va_max_forwards = max_forwards, va_max_breadth = max_breadth, va_cookie_input = input\<rparr>)))"

section \<open>What a validated request passed\<close>

lemma validate_Inr:
  assumes "validate K M request config = Inr v"
  shows "is_respondable K request" "understands_scheme K config (req_uri K request)"
    "header_number 8 K request MaxForwards = Some (va_max_forwards v) \<and> va_max_forwards v \<noteq> 0
      \<or> header_number 8 K request MaxForwards = (None :: u8 option) \<and> va_max_forwards v = default_max_forwards config"
    "\<not> is_loop K request config (cookie M (cookie_input_from K request) (config_cookie_key config))"
    "header_number 32 K request MAX_BREADTH = Some (va_max_breadth v) \<and> va_max_breadth v \<noteq> 0
      \<or> header_number 32 K request MAX_BREADTH = (None :: u32 option) \<and> va_max_breadth v = default_max_breadth config"
    "\<forall>tag \<in> set (required_tags K request ProxyRequire). supports config tag"
    "va_cookie_input v = cookie_input_from K request"
  using assms
  by (auto simp: validate_def and_then_Inr Let_def filter_empty_conv split: if_splits option.splits)

lemma validate_reaches_loop:
  assumes "is_loop K request config (cookie M (cookie_input_from K request) (config_cookie_key config))"
  shows "validate K M request config \<in> {Inl Drop, Inl UnsupportedScheme, Inl TooManyHops, Inl LoopDetected}"
  using assms by (auto simp: validate_def and_then_def Let_def split: option.splits)

lemma validate_loop:
  "validate K M request config = Inl LoopDetected \<Longrightarrow>
    is_loop K request config (cookie M (cookie_input_from K request) (config_cookie_key config))"
  by (auto simp: validate_def and_then_Inl Let_def split: if_splits option.splits)

lemma via_cookie_minted:
  "mac_laws M \<Longrightarrow> via_branch K via = Some (branch_for M config input index) \<Longrightarrow>
    via_cookie K via = Some (cookie M input (config_cookie_key config))"
  by (simp add: via_cookie_def branch_ascii cookie_of_branch)

definition own_vias where
  "own_vias K config request =
    filter (\<lambda>via. via_is_ours K via config) (List.map_filter (via_parse_one K) (header_all K request Via))"

lemma validate_loop_exact:
  "validate K M request config = Inl LoopDetected \<longleftrightarrow>
    is_respondable K request \<and> understands_scheme K config (req_uri K request)
    \<and> header_number 8 K request MaxForwards \<noteq> Some (0 :: u8)
    \<and> is_loop K request config (cookie M (cookie_input_from K request) (config_cookie_key config))"
  by (auto simp: validate_def and_then_def Let_def split: option.splits)

section \<open>Properties\<close>

text \<open>C35. A request is refused as a loop exactly when it passes the checks before and carries a
  \<^verbatim>\<open>Via\<close> of this platform minted over the routing state it has now: coming back unchanged is
  a loop however many hops it made, while a request whose own \<^verbatim>\<open>Via\<close>s were all minted over
  other routing states is a spiral and is not refused as a loop.\<close>

theorem loop_verdict_exact:
  assumes "mac_laws M" and "encodable (cookie_input_from K request)"
    and "\<forall>via \<in> set (own_vias K config request). via_branch K via = Some (branch_for M config (origin via) (fork via))
      \<and> encodable (origin via) \<and> no_collision M (config_cookie_key config)
          {encode_routing_state (origin via), encode_routing_state (cookie_input_from K request)}"
  shows "validate K M request config = Inl LoopDetected \<longleftrightarrow>
    is_respondable K request \<and> understands_scheme K config (req_uri K request)
    \<and> header_number 8 K request MaxForwards \<noteq> Some (0 :: u8)
    \<and> (\<exists>via \<in> set (own_vias K config request). same_state (origin via) (cookie_input_from K request))"
proof -
  let ?current = "cookie_input_from K request" and ?key = "config_cookie_key config"
  have "via_cookie K via = Some (cookie M ?current ?key) \<longleftrightarrow> same_state (origin via) ?current"
    if "via \<in> set (own_vias K config request)" for via
    using assms(3) that via_cookie_minted [OF assms(1), of K via config "origin via" "fork via"]
      cookie_eq_same_state [OF _ assms(2), of "origin via" M ?key] by auto
  then have "is_loop K request config (cookie M ?current ?key)
      \<longleftrightarrow> (\<exists>via \<in> set (own_vias K config request). same_state (origin via) ?current)"
    by (auto simp: is_loop_def list_ex_iff own_vias_def)
  then show ?thesis by (simp add: validate_loop_exact)
qed

lemma split_on_none: "d \<notin> set s \<Longrightarrow> split_on d s = [s]"
  by (induction s) auto

lemma split_on_at: "d \<notin> set s \<Longrightarrow> split_on d (s @ d # t) = s # split_on d t"
  by (induction s) auto

lemma sample_via_branch:
  "CHR '';'' \<notin> set b \<Longrightarrow> param_value_of (''UDP edge.example;branch='' @ b) ''branch'' = Some b"
  using split_on_at [of "CHR '';''" "''UDP edge.example''" "''branch='' @ b"] split_on_none [of "CHR '';''" "''branch='' @ b"]
  by (simp add: param_value_of_def param_of_def)

definition sample_config :: proxy_config where
  "sample_config = config_new ''edge.example'' ''<sip:edge.example;lr>'' (CookieKey ''k'')"

text \<open>An INVITE, and the same INVITE as it comes back behind our own \<^verbatim>\<open>Via\<close>.\<close>

definition sample_invite :: "text_header list \<Rightarrow> text_message" where
  "sample_invite hs = \<lparr>tm_method = ''INVITE'', tm_uri = ''sip:bob@b.example'', tm_status = 0,
     tm_headers = hs @ [(CallId, ''c1''), (CSeq, ''1''), (From, ''<sip:a@a.example>;tag=af''), (To, ''<sip:bob@b.example>'')]\<rparr>"

definition sample_state :: cookie_input where
  "sample_state = \<lparr>ci_request_uri = ''sip:bob@b.example'', ci_to_tag = None, ci_from_tag = Some ''af'', ci_call_id = ''c1'',
     ci_cseq = 1, ci_top_via = None, ci_routes = []\<rparr>"

lemma sample_cseq: "first_word (from_utf8_lossy ''1'') = Some [49]" "parse_u32 [49] = Some 1"
  by (simp_all add: from_utf8_lossy_def first_word_def white_space_def parse_u32_def parse_unsigned_def
      is_digit_point_def digits_value_def)

lemma sample_tags:
  "address_of ''<sip:a@a.example>;tag=af'' = Some (''sip:a@a.example'', ''>;tag=af'')"
  "address_of ''<sip:bob@b.example>'' = Some (''sip:bob@b.example'', ''>'')"
  "param_value_of ''>;tag=af'' ''tag'' = Some ''af''" "param_value_of ''>'' ''tag'' = None"
  by (simp_all add: address_of_def param_value_of_def param_of_def)

lemma sample_invite_state:
  "cookie_input_from sample_kernel (sample_invite [(Via, v)]) = sample_state\<lparr>ci_top_via := Some (trim v)\<rparr>"
  "cookie_input_from sample_kernel (sample_invite []) = sample_state"
proof -
  have "trim ''c1'' = ''c1''" by (simp add: trim_def is_ascii_space_def get_range_def Let_def)
  then show "cookie_input_from sample_kernel (sample_invite [(Via, v)]) = sample_state\<lparr>ci_top_via := Some (trim v)\<rparr>"
    "cookie_input_from sample_kernel (sample_invite []) = sample_state"
    by (simp_all add: cookie_input_from_def tag_of_def cseq_number_def sample_invite_def sample_tags sample_cseq sample_state_def)
qed

lemma sample_understands: "understands_scheme sample_kernel sample_config (''sip:'' @ rest)"
  by (simp add: understands_scheme_def sample_config_def config_new_def is_ascii_char_def eq_ignore_case_def)

lemma sample_via_ours: "via_is_ours sample_kernel (''UDP edge.example;branch='' @ b) sample_config"
  by (simp add: via_is_ours_def sample_config_def config_new_def edge_host_def host_of_def authority_of_def
      Let_def strip_dot_def is_ascii_char_def ascii_lower_def)

theorem loop_verdict_exact_witness:
  "validate sample_kernel plain_mac
      (sample_invite [(Via, ''SIP/2.0/UDP edge.example;branch='' @ branch_for plain_mac sample_config sample_state 0)])
      sample_config = Inl LoopDetected"
proof -
  let ?b = "branch_for plain_mac sample_config sample_state 0"
  let ?r = "sample_invite [(Via, ''SIP/2.0/UDP edge.example;branch='' @ ?b)]"
  have own: "own_vias sample_kernel sample_config ?r = [''UDP edge.example;branch='' @ ?b]"
    and branch: "param_value_of (''UDP edge.example;branch='' @ ?b) ''branch'' = Some ?b"
    using sample_via_ours [of ?b] sample_via_branch [OF branch_no_semicolon [of plain_mac sample_config sample_state 0]] by (simp_all add: own_vias_def sample_invite_def List.map_filter_def)
  have same: "same_state sample_state (cookie_input_from sample_kernel ?r)"
    by (simp add: sample_invite_state same_state_def)
  have enc: "encodable sample_state" "encodable (cookie_input_from sample_kernel ?r)"
    by (simp_all add: sample_invite_state encodable_def sample_state_def or_empty_def)
  have "is_respondable sample_kernel ?r" "header_number 8 sample_kernel ?r MaxForwards = (None :: u8 option)"
    by (simp_all add: is_respondable_def header_number_def sample_invite_def)
  moreover have "understands_scheme sample_kernel sample_config (tm_uri ?r)"
    using sample_understands [of "''bob@b.example''"] by (simp add: sample_invite_def)
  ultimately show ?thesis
    using loop_verdict_exact [OF plain_mac_laws enc(2), of sample_config "\<lambda>_. sample_state" "\<lambda>_. 0"]
      own branch same enc encode_same_state [OF same]
    by (simp add: no_collision_def)
qed

end
