(* ===== verification/Route.thy ===== *)
theory Route imports Prelude Codec Message Proxy Sample begin

text \<open>
  \<^verbatim>\<open>route.rs\<close> of \<^verbatim>\<open>crates/sipx-clstr-proxy\<close>: recovering the Request-URI from
  a strict router, popping the platform's own \<^verbatim>\<open>Route\<close>s and reading their tokens, target
  determination and the next hop of a forwarded copy.  The lemmas show what preprocessing removes, what
  it leaves alone, and which token it reports.
\<close>

definition SOLE_TARGET_Q :: u16 where "SOLE_TARGET_Q = 1000"

definition token_of ::
  "('u, 'req, 'addr, 'hdr, 'via, 'resp, 'x) message_kernel_scheme \<Rightarrow> 'u \<Rightarrow> bytes option" where
  "token_of K uri = uri_param K uri TOKEN_PARAM"

definition is_our_record_route_value ::
  "('u, 'req, 'addr, 'hdr, 'via, 'resp, 'x) message_kernel_scheme \<Rightarrow> 'req \<Rightarrow> proxy_config \<Rightarrow> bool" where
  "is_our_record_route_value K request config \<longleftrightarrow>
    is_ours K config (req_uri K request) \<and> user K (req_uri K request) = None \<and> has_param K (req_uri K request) ''lr''"

definition routes_of ::
  "('u, 'req, 'addr, 'hdr, 'via, 'resp, 'x) message_kernel_scheme \<Rightarrow> 'req \<Rightarrow> bytes list" where
  "routes_of K request = header_all K request Route"

definition push_route ::
  "('u, 'req, 'addr, 'hdr, 'via, 'resp, 'x) message_kernel_scheme \<Rightarrow> 'req \<Rightarrow> bytes \<Rightarrow> 'req" where
  "push_route K request value =
    (case header_build K Route value of None \<Rightarrow> request | Some header \<Rightarrow> push_back K request header)"

definition set_routes ::
  "('u, 'req, 'addr, 'hdr, 'via, 'resp, 'x) message_kernel_scheme \<Rightarrow> 'req \<Rightarrow> bytes list \<Rightarrow> 'req" where
  "set_routes K request values = foldl (push_route K) (remove_all K request Route) values"

text \<open>P1: a strict router put our \<^verbatim>\<open>Record-Route\<close> value in the Request-URI.\<close>

definition recover_request_uri ::
  "('u, 'req, 'addr, 'hdr, 'via, 'resp, 'x) message_kernel_scheme \<Rightarrow> 'req \<Rightarrow> proxy_config \<Rightarrow> 'req" where
  "recover_request_uri K request config =
    (if is_our_record_route_value K request config
     then
       let routes = routes_of K request in
       if routes = [] then request
       else case address_parse K (last routes) of
           None \<Rightarrow> request
         | Some address \<Rightarrow>
            set_routes K (set_uri K request (addr_uri K address)) (take (length routes - 1) routes)
     else request)"

text \<open>P2: the tokens of the leading \<^verbatim>\<open>Route\<close>s that are ours.\<close>

fun popped_tokens ::
  "('u, 'req, 'addr, 'hdr, 'via, 'resp, 'x) message_kernel_scheme \<Rightarrow> proxy_config \<Rightarrow> bytes list \<Rightarrow> bytes option list" where
  "popped_tokens K config [] = []"
| "popped_tokens K config (value # values) =
    (case address_parse K value of
       None \<Rightarrow> []
     | Some address \<Rightarrow>
        if \<not> is_ours K config (addr_uri K address) then []
        else token_of K (addr_uri K address) # popped_tokens K config values)"

definition preprocess ::
  "('u, 'req, 'addr, 'hdr, 'via, 'resp, 'x) message_kernel_scheme \<Rightarrow> 'req \<Rightarrow> proxy_config
    \<Rightarrow> 'req \<times> token_carriage option" where
  "preprocess K request config =
    (let request = recover_request_uri K request config;
         routes = routes_of K request;
         popped = popped_tokens K config (take 2 routes)
     in case popped of
          [] \<Rightarrow> (request, None)
        | first # others \<Rightarrow>
           let request = set_routes K request (drop (length popped) routes)
           in case first of
                None \<Rightarrow> (request, None)
              | Some token \<Rightarrow> (request, Some \<lparr>tc_token = token, tc_partner = Option.bind (get_at popped 1) id\<rparr>))"

definition is_in_dialog ::
  "('u, 'req, 'addr, 'hdr, 'via, 'resp, 'x) message_kernel_scheme \<Rightarrow> 'req \<Rightarrow> bool" where
  "is_in_dialog K request =
    (case Option.bind (header_value K request To) (address_parse K) of
       None \<Rightarrow> False
     | Some address \<Rightarrow> addr_tag K address \<noteq> None)"

definition predetermined_target ::
  "('u, 'req, 'addr, 'hdr, 'via, 'resp, 'x) message_kernel_scheme \<Rightarrow> 'req \<Rightarrow> proxy_target" where
  "predetermined_target K request =
    \<lparr>pt_uri = uri_to_bytes K (req_uri K request), pt_route_set = [], pt_q = SOLE_TARGET_Q\<rparr>"

definition route_set_survived ::
  "('u, 'req, 'addr, 'hdr, 'via, 'resp, 'x) message_kernel_scheme \<Rightarrow> 'req \<Rightarrow> bool" where
  "route_set_survived K request = (header_value K request Route \<noteq> None)"

definition aor_query ::
  "('u, 'req, 'addr, 'hdr, 'via, 'resp, 'x) message_kernel_scheme \<Rightarrow> 'req \<Rightarrow> target_query" where
  "aor_query K request = \<lparr>tq_uri = uri_to_bytes K (req_uri K request)\<rparr>"

definition first_route ::
  "('u, 'req, 'addr, 'hdr, 'via, 'resp, 'x) message_kernel_scheme \<Rightarrow> 'req \<Rightarrow> 'addr option" where
  "first_route K request = Option.bind (header_value K request Route) (address_parse K)"

definition next_hop_of ::
  "('u, 'req, 'addr, 'hdr, 'via, 'resp, 'x) message_kernel_scheme \<Rightarrow> 'req \<Rightarrow> bool \<Rightarrow> bytes" where
  "next_hop_of K request reformatted_for_strict_router =
    (if reformatted_for_strict_router then uri_to_bytes K (req_uri K request)
     else case first_route K request of
         Some address \<Rightarrow> uri_to_bytes K (addr_uri K address)
       | None \<Rightarrow> uri_to_bytes K (req_uri K request))"

section \<open>Replacing the route set\<close>

lemma push_route_ops:
  assumes "header_laws K"
  shows "header_all K (push_route K r v) Route = header_all K r Route @ (if header_build K Route v = None then [] else [v])"
    and "edited_name m \<Longrightarrow> m \<noteq> Route \<Longrightarrow> header_all K (push_route K r v) m = header_all K r m"
    and "req_uri K (push_route K r v) = req_uri K r" "req_method K (push_route K r v) = req_method K r"
  by (simp_all add: push_route_def header_push [OF assms] header_ops [OF assms] split: option.split)

lemma foldl_push_route:
  assumes "header_laws K"
  shows "header_all K (foldl (push_route K) r vs) Route = header_all K r Route @ filter (\<lambda>v. header_build K Route v \<noteq> None) vs"
    and "edited_name m \<Longrightarrow> m \<noteq> Route \<Longrightarrow> header_all K (foldl (push_route K) r vs) m = header_all K r m"
    and "req_uri K (foldl (push_route K) r vs) = req_uri K r" "req_method K (foldl (push_route K) r vs) = req_method K r"
  by (induction vs arbitrary: r) (simp_all add: push_route_ops [OF assms])

lemma set_routes_ops [header_simps]:
  assumes "header_laws K"
  shows "header_all K (set_routes K r vs) Route = filter (\<lambda>v. header_build K Route v \<noteq> None) vs"
    and "edited_name m \<Longrightarrow> m \<noteq> Route \<Longrightarrow> header_all K (set_routes K r vs) m = header_all K r m"
    and "req_uri K (set_routes K r vs) = req_uri K r" "req_method K (set_routes K r vs) = req_method K r"
  by (simp_all add: set_routes_def foldl_push_route [OF assms] header_ops [OF assms])

text \<open>What was read from a message builds again.\<close>

definition route_values_rebuild :: "('u, 'req, 'addr, 'hdr, 'via, 'resp, 'x) message_kernel_scheme \<Rightarrow> bool" where
  "route_values_rebuild K \<longleftrightarrow> (\<forall>r. \<forall>v \<in> set (header_all K r Route). header_build K Route v \<noteq> None)"

lemma set_routes_of_message:
  assumes "header_laws K" "route_values_rebuild K" "set vs \<subseteq> set (header_all K r Route)"
  shows "header_all K (set_routes K r' vs) Route = vs"
  using assms(2,3) unfolding set_routes_ops(1) [OF assms(1)] route_values_rebuild_def
  by (subst filter_True) blast+

section \<open>What preprocessing removes\<close>

definition platform_route ::
  "('u, 'req, 'addr, 'hdr, 'via, 'resp, 'x) message_kernel_scheme \<Rightarrow> proxy_config \<Rightarrow> bytes \<Rightarrow> bool" where
  "platform_route K config value =
    (case address_parse K value of None \<Rightarrow> False | Some address \<Rightarrow> is_ours K config (addr_uri K address))"

definition route_token ::
  "('u, 'req, 'addr, 'hdr, 'via, 'resp, 'x) message_kernel_scheme \<Rightarrow> bytes \<Rightarrow> bytes option" where
  "route_token K value = Option.bind (address_parse K value) (\<lambda>address. token_of K (addr_uri K address))"

lemma popped_tokens_eq: "popped_tokens K config vs = map (route_token K) (takeWhile (platform_route K config) vs)"
  by (induction vs) (auto simp: platform_route_def route_token_def split: option.split)

lemma recover_keeps:
  assumes "header_laws K" "edited_name m" "m \<noteq> Route"
  shows "header_all K (recover_request_uri K r config) m = header_all K r m"
    and "req_method K (recover_request_uri K r config) = req_method K r"
  using assms by (simp_all add: recover_request_uri_def Let_def header_simps split: option.split)

lemma preprocess_cases:
  fixes K M config r
  defines "r1 \<equiv> recover_request_uri K r config"
  defines "own \<equiv> takeWhile (platform_route K config) (take 2 (routes_of K r1))"
  shows "own = [] \<Longrightarrow> preprocess K r config = (r1, None)"
    and "own = v # vs \<Longrightarrow> preprocess K r config = (set_routes K r1 (drop (length own) (routes_of K r1)),
      map_option (\<lambda>token. \<lparr>tc_token = token, tc_partner = (case vs of [] \<Rightarrow> None | w # _ \<Rightarrow> route_token K w)\<rparr>) (route_token K v))"
  unfolding preprocess_def Let_def r1_def [symmetric] popped_tokens_eq own_def [symmetric]
  by (simp_all add: get_at_def split: option.split list.split)

section \<open>Properties\<close>

text \<open>Preprocessing pops exactly the leading platform \<^verbatim>\<open>Route\<close>s, two at most, and nothing
  else: every other route, the Request-URI, the method and every other header survive in place; the token
  reported is the first popped one's, with its partner only if the second carries one, and nothing of ours
  in front means nothing touched.\<close>

theorem preprocess_pops_own:
  assumes "header_laws K" and "route_values_rebuild K" and "preprocess K r config = (r2, carriage)"
    and "r1 = recover_request_uri K r config"
    and "own = takeWhile (platform_route K config) (take 2 (routes_of K r1))"
  shows "routes_of K r1 = own @ routes_of K r2 \<and> req_uri K r2 = req_uri K r1 \<and> req_method K r2 = req_method K r
    \<and> (\<forall>m. edited_name m \<and> m \<noteq> Route \<longrightarrow> header_all K r2 m = header_all K r m)
    \<and> (own = [] \<longrightarrow> r2 = r1)
    \<and> carriage = (case own of
        [] \<Rightarrow> None
      | v # vs \<Rightarrow> map_option (\<lambda>token. \<lparr>tc_token = token, tc_partner = Option.bind (get_at vs 0) (route_token K)\<rparr>)
          (route_token K v))"
proof -
  have drop: "routes_of K r1 = own @ drop (length own) (routes_of K r1)"
    using takeWhile_eq_take [of "platform_route K config" "take 2 (routes_of K r1)"] assms(5)
    by (metis append_take_drop_id length_takeWhile_le min.absorb1 take_take le_trans length_take min.cobounded2)
  note keep = recover_keeps [OF assms(1), of _ r config, folded assms(4)]
  show ?thesis
  proof (cases own)
    case Nil
    with preprocess_cases(1) [of K config r] assms(3-5) have "r2 = r1" "carriage = None" by simp_all
    with Nil keep keep(2) [of Via] show ?thesis by simp
  next
    case (Cons v vs)
    from preprocess_cases(2) [where K = K and config = config and r = r, folded assms(4), folded assms(5), OF Cons] assms(3)
    have r2: "r2 = set_routes K r1 (drop (length own) (routes_of K r1))"
      "carriage = map_option (\<lambda>token. \<lparr>tc_token = token, tc_partner = (case vs of [] \<Rightarrow> None | w # _ \<Rightarrow> route_token K w)\<rparr>)
        (route_token K v)" by simp_all
    have "routes_of K r2 = drop (length own) (routes_of K r1)"
      unfolding r2 routes_of_def
      by (rule set_routes_of_message [OF assms(1,2), of _ r1]) (simp add: set_drop_subset)
    moreover have "(case vs of [] \<Rightarrow> None | w # _ \<Rightarrow> route_token K w) = Option.bind (get_at vs 0) (route_token K)"
      by (simp add: get_at_def split: list.split)
    ultimately show ?thesis
      using drop Cons r2 keep keep(2) [of Via] assms(1) by (simp add: set_routes_ops)
  qed
qed

text \<open>A BYE that arrives with both of the platform's own routes, tokens and all.\<close>

definition edge_config :: proxy_config where
  "edge_config = config_new ''e.x'' ''<sip:e.x;lr>'' (CookieKey ''k'')"

definition tokened :: text_message where
  "tokened = \<lparr>tm_method = ''BYE'', tm_uri = ''sip:b@p.x'', tm_status = 0,
     tm_headers = [(Route, ''<sip:e.x;aft=A>''), (Route, ''<sip:e.x;aft=B>''), (Route, ''<sip:f.x;lr>'')]\<rparr>"

lemma tokened_params:
  "split_on (CHR '';'') ''sip:e.x;aft=A'' = [''sip:e.x'', ''aft=A'']" "split_on (CHR '';'') ''sip:e.x;aft=B'' = [''sip:e.x'', ''aft=B'']"
  by simp_all

lemma tokened_text:
  "address_of ''<sip:e.x;aft=A>'' = Some (''sip:e.x;aft=A'', ''>'')" "address_of ''<sip:e.x;aft=B>'' = Some (''sip:e.x;aft=B'', ''>'')"
  "host_of ''sip:e.x;aft=A'' = ''e.x''" "host_of ''sip:e.x;aft=B'' = ''e.x''" "host_of ''sip:b@p.x'' = ''p.x''"
  "param_value_of ''sip:e.x;aft=A'' ''aft'' = Some ''A''" "param_value_of ''sip:e.x;aft=B'' ''aft'' = Some ''B''"
  by (simp_all only: param_value_of_def param_of_def tokened_params)
    (simp_all add: address_of_def host_of_def authority_of_def Let_def)

lemma edge_ours:
  "host_of u = ''e.x'' \<Longrightarrow> is_ours sample_kernel edge_config u" "host_of u = ''p.x'' \<Longrightarrow> \<not> is_ours sample_kernel edge_config u"
  by (simp_all add: is_ours_def edge_config_def config_new_def edge_host_def identity_matches_def
      Let_def strip_dot_def is_ascii_char_def ascii_lower_def)

theorem preprocess_pops_own_witness:
  "routes_of sample_kernel (fst (preprocess sample_kernel tokened edge_config)) = [''<sip:f.x;lr>'']
    \<and> snd (preprocess sample_kernel tokened edge_config) = Some \<lparr>tc_token = ''A'', tc_partner = Some ''B''\<rparr>"
proof -
  have rebuild: "route_values_rebuild sample_kernel" by (simp add: route_values_rebuild_def)
  have rec: "recover_request_uri sample_kernel tokened edge_config = tokened"
    by (simp add: recover_request_uri_def is_our_record_route_value_def tokened_def edge_ours(2) tokened_text(5))
  have routes: "routes_of sample_kernel tokened = [''<sip:e.x;aft=A>'', ''<sip:e.x;aft=B>'', ''<sip:f.x;lr>'']"
    by (simp add: routes_of_def tokened_def)
  have own: "takeWhile (platform_route sample_kernel edge_config) (take 2 (routes_of sample_kernel tokened))
      = [''<sip:e.x;aft=A>'', ''<sip:e.x;aft=B>'']"
    by (simp add: routes platform_route_def tokened_text edge_ours(1))
  obtain r2 c where p: "preprocess sample_kernel tokened edge_config = (r2, c)" by (cases "preprocess sample_kernel tokened edge_config")
  note all = preprocess_pops_own [OF sample_header_laws rebuild p refl refl, unfolded rec, unfolded own, unfolded routes]
  have r2: "routes_of sample_kernel r2 = [''<sip:f.x;lr>'']" using conjunct1 [OF all] by (simp only: append.simps list.inject)
  have token: "route_token sample_kernel ''<sip:e.x;aft=A>'' = Some ''A''" "route_token sample_kernel ''<sip:e.x;aft=B>'' = Some ''B''"
    by (simp_all only: route_token_def token_of_def tokened_text TOKEN_PARAM_def sample_fields bind.simps fst_conv)
  from all have "c = Some \<lparr>tc_token = ''A'', tc_partner = Some ''B''\<rparr>"
    by (elim conjE) (simp only: list.case token option.map get_at_def list.size nth_Cons_0 bind.simps simp_thms if_True zero_less_Suc add_Suc_right add_0_right)
  with r2 p show ?thesis by (simp only: fst_conv snd_conv simp_thms)
qed

end
