(* ===== verification/Forward.thy ===== *)
theory Forward imports Prelude Ascii Codec Message Proxy Cookie Validate Route Sample begin

text \<open>
  \<^verbatim>\<open>forward.rs\<close> of \<^verbatim>\<open>crates/sipx-clstr-proxy\<close>: the copy of a request that goes
  to one target, its branch and its next hop.  The lemmas show every edit of the copy and that nothing
  else changes, that the next hop is the first route toward the target for loose and strict routers
  alike, and that forwarding wears \<^verbatim>\<open>Max-Forwards\<close> out.
\<close>

record 'req forward_plan =
  fp_original :: 'req
  fp_validated :: validated
  fp_target :: proxy_target
  fp_index :: nat
  fp_parallel_branches :: u32
  fp_record_route :: bool
  fp_tokens :: "record_route_tokens option"

datatype forward_error = BadTarget | TokenTooLarge nat | BadRecordRoute

definition rfind :: "char \<Rightarrow> string \<Rightarrow> nat option" where
  "rfind c s = map_option (\<lambda>i. length s - 1 - i) (position (\<lambda>x. x = c) (rev s))"

definition record_route_value :: "proxy_config \<Rightarrow> bytes option \<Rightarrow> forward_error + string" where
  "record_route_value config token =
    (let base = string_lossy (record_route_uri config) in
     case token of
       None \<Rightarrow> Inr base
     | Some token \<Rightarrow>
        let parameter = '';'' @ TOKEN_PARAM @ ''='' @ string_lossy token in
        if length parameter > TOKEN_PARAM_BUDGET then Inl (TokenTooLarge (length parameter))
        else case rfind (CHR ''>'') base of
            Some close \<Rightarrow> Inr (take close base @ parameter @ drop close base)
          | None \<Rightarrow> Inr (''<'' @ base @ parameter @ ''>''))"

definition record_route_values ::
  "proxy_config \<Rightarrow> record_route_tokens option \<Rightarrow> forward_error + string list" where
  "record_route_values config tokens =
    (case tokens of
       None \<Rightarrow> Inr [string_lossy (record_route_uri config)]
     | Some tokens \<Rightarrow>
        and_then (record_route_value config (Some (rrt_originating tokens))) (\<lambda>originating.
        and_then (record_route_value config (Some (rrt_terminating tokens))) (\<lambda>terminating.
        Inr [originating, terminating])))"

fun push_record_routes ::
  "('u, 'req, 'addr, 'hdr, 'via, 'resp, 'x) message_kernel_scheme \<Rightarrow> 'req \<Rightarrow> string list \<Rightarrow> forward_error + 'req" where
  "push_record_routes K request [] = Inr request"
| "push_record_routes K request (value # values) =
    (case header_build K RecordRoute value of
       None \<Rightarrow> Inl BadRecordRoute
     | Some header \<Rightarrow> push_record_routes K (push_front K request header) values)"

definition bracketed :: "bytes \<Rightarrow> string" where
  "bracketed route =
    (if take 1 route = ''<'' then string_lossy route else ''<'' @ string_lossy route @ ''>'')"

definition push_target_route ::
  "('u, 'req, 'addr, 'hdr, 'via, 'resp, 'x) message_kernel_scheme \<Rightarrow> bytes \<Rightarrow> 'req \<Rightarrow> 'req" where
  "push_target_route K route request =
    (case header_build K Route (bracketed route) of
       None \<Rightarrow> request
     | Some header \<Rightarrow> push_front K request header)"

definition apply_route_set ::
  "('u, 'req, 'addr, 'hdr, 'via, 'resp, 'x) message_kernel_scheme \<Rightarrow> bytes list \<Rightarrow> 'req \<Rightarrow> 'req" where
  "apply_route_set K route_set request = foldr (push_target_route K) route_set request"

definition apply_strict_route_swap ::
  "('u, 'req, 'addr, 'hdr, 'via, 'resp, 'x) message_kernel_scheme \<Rightarrow> 'req \<Rightarrow> 'req \<times> bool" where
  "apply_strict_route_swap K request =
    (case header_all K request Route of
       [] \<Rightarrow> (request, False)
     | first # others \<Rightarrow>
        (case address_parse K first of
           None \<Rightarrow> (request, False)
         | Some address \<Rightarrow>
            if has_param K (addr_uri K address) ''lr'' then (request, False)
            else
              let target = uri_to_bytes K (req_uri K request);
                  request = foldl (push_route K) (remove_all K request Route) others;
                  request = push_route K request (''<'' @ string_lossy target @ ''>'')
              in (set_uri K request (addr_uri K address), True)))"

definition set_header ::
  "('u, 'req, 'addr, 'hdr, 'via, 'resp, 'x) message_kernel_scheme \<Rightarrow> 'req \<Rightarrow> header_name \<Rightarrow> string \<Rightarrow> 'req" where
  "set_header K request name value =
    (let request = remove_all K request name
     in case header_build K name value of None \<Rightarrow> request | Some header \<Rightarrow> push_front K request header)"

definition record_route_host :: "proxy_config \<Rightarrow> bytes" where
  "record_route_host config =
    (let text = string_lossy (record_route_uri config);
         stripped = rev (dropWhile (\<lambda>c. c = CHR ''>'') (rev (dropWhile (\<lambda>c. c = CHR ''<'') text)));
         inner = hd (split_on (CHR '';'') stripped)
     in if CHR '':'' \<in> set inner then tl (dropWhile (\<lambda>c. c \<noteq> CHR '':'') inner) else inner)"

definition via_value :: "proxy_config \<Rightarrow> string \<Rightarrow> string" where
  "via_value config branch = ''SIP/2.0/UDP '' @ string_lossy (record_route_host config) @ '';branch='' @ branch"

definition branch_breadth :: "u32 \<Rightarrow> u32 \<Rightarrow> u32" where
  "branch_breadth max_breadth parallel = max 1 (max_breadth div max 1 parallel)"

definition forward ::
  "('u, 'req, 'addr, 'hdr, 'via, 'resp, 'x) message_kernel_scheme \<Rightarrow> mac_kernel \<Rightarrow> 'req forward_plan \<Rightarrow> proxy_config
    \<Rightarrow> forward_error + branch_id \<times> 'req \<times> bytes" where
  "forward K M plan config =
    and_then (ok_or BadTarget (uri_parse K (pt_uri (fp_target plan)))) (\<lambda>target.
    let request = set_uri K (fp_original plan) target;
        hops = saturating_sub (va_max_forwards (fp_validated plan)) 1;
        request = set_header K request MaxForwards (decimal (unat hops));
        breadth = branch_breadth (va_max_breadth (fp_validated plan)) (fp_parallel_branches plan);
        request = set_header K request MAX_BREADTH (decimal (unat breadth))
    in
      and_then (if fp_record_route plan
                then and_then (record_route_values config (fp_tokens plan)) (push_record_routes K request)
                else Inr request) (\<lambda>request.
      let request = apply_route_set K (pt_route_set (fp_target plan)) request;
          (request, reformatted) = apply_strict_route_swap K request;
          branch = branch_for M config (va_cookie_input (fp_validated plan)) (fp_index plan)
      in
        and_then (ok_or BadRecordRoute (header_build K Via (via_value config branch))) (\<lambda>header.
        let request = push_front K request header;
            next_hop = next_hop_of K request reformatted
        in Inr (BranchId branch, request, next_hop))))"

section \<open>What each step does to the headers\<close>

lemma set_header_ops [header_simps]:
  assumes "header_laws K" "edited_name n"
  shows "header_all K (set_header K r n s) n = (if header_build K n s = None then [] else [s])"
    and "edited_name m \<Longrightarrow> m \<noteq> n \<Longrightarrow> header_all K (set_header K r n s) m = header_all K r m"
    and "req_uri K (set_header K r n s) = req_uri K r" "req_method K (set_header K r n s) = req_method K r"
  using assms by (simp_all add: set_header_def Let_def header_push [OF assms(1)] header_ops [OF assms(1)] split: option.split)

lemma push_record_routes_ops:
  assumes "header_laws K" "push_record_routes K r vs = Inr r'"
  shows "header_all K r' RecordRoute = rev vs @ header_all K r RecordRoute"
    and "edited_name m \<Longrightarrow> m \<noteq> RecordRoute \<Longrightarrow> header_all K r' m = header_all K r m"
    and "req_uri K r' = req_uri K r" "req_method K r' = req_method K r"
  using assms(2)
  by (induction vs arbitrary: r) (auto simp: header_push [OF assms(1)] header_ops [OF assms(1)] split: option.splits)

lemma push_target_route_ops:
  assumes "header_laws K"
  shows "header_all K (push_target_route K v r) Route
      = (if header_build K Route (bracketed v) = None then [] else [bracketed v]) @ header_all K r Route"
    and "edited_name m \<Longrightarrow> m \<noteq> Route \<Longrightarrow> header_all K (push_target_route K v r) m = header_all K r m"
    and "req_uri K (push_target_route K v r) = req_uri K r" "req_method K (push_target_route K v r) = req_method K r"
  by (simp_all add: push_target_route_def header_push [OF assms] header_ops [OF assms] split: option.split)

lemma apply_route_set_ops [header_simps]:
  assumes "header_laws K"
  shows "header_all K (apply_route_set K vs r) Route
      = filter (\<lambda>v. header_build K Route v \<noteq> None) (map bracketed vs) @ header_all K r Route"
    and "edited_name m \<Longrightarrow> m \<noteq> Route \<Longrightarrow> header_all K (apply_route_set K vs r) m = header_all K r m"
    and "req_uri K (apply_route_set K vs r) = req_uri K r" "req_method K (apply_route_set K vs r) = req_method K r"
  unfolding apply_route_set_def by (induction vs) (simp_all add: push_target_route_ops [OF assms])

text \<open>Whether step 6 reformats for a strict router, given the routes of the copy.\<close>

definition strict_first ::
  "('u, 'req, 'addr, 'hdr, 'via, 'resp, 'x) message_kernel_scheme \<Rightarrow> bytes list \<Rightarrow> 'addr option" where
  "strict_first K routes =
    (case routes of
       [] \<Rightarrow> None
     | first # _ \<Rightarrow> Option.bind (address_parse K first) (\<lambda>a. if has_param K (addr_uri K a) ''lr'' then None else Some a))"

lemma strict_swap_None:
  "strict_first K (header_all K r Route) = None \<Longrightarrow> apply_strict_route_swap K r = (r, False)"
  by (auto simp: strict_first_def apply_strict_route_swap_def Option.bind_def split: list.splits option.splits if_splits)

lemma strict_swap_Some:
  assumes "header_laws K" "strict_first K (header_all K r Route) = Some a"
  shows "\<exists>r'. apply_strict_route_swap K r = (r', True) \<and> req_uri K r' = addr_uri K a \<and> req_method K r' = req_method K r
    \<and> header_all K r' Route = filter (\<lambda>v. header_build K Route v \<noteq> None)
        (tl (header_all K r Route) @ [''<'' @ string_lossy (uri_to_bytes K (req_uri K r)) @ ''>''])
    \<and> (\<forall>m. edited_name m \<and> m \<noteq> Route \<longrightarrow> header_all K r' m = header_all K r m)"
proof -
  from assms(2) obtain first others where "header_all K r Route = first # others" "address_parse K first = Some a"
    "\<not> has_param K (addr_uri K a) ''lr''"
    by (auto simp: strict_first_def bind_eq_Some_conv split: list.splits if_splits)
  then show ?thesis
    by (simp add: apply_strict_route_swap_def Let_def header_ops [OF assms(1)] push_route_ops [OF assms(1)]
        foldl_push_route [OF assms(1)])
qed

lemma strict_swap_keeps:
  assumes "header_laws K" "edited_name m" "m \<noteq> Route"
  shows "header_all K (fst (apply_strict_route_swap K r)) m = header_all K r m"
    and "req_method K (fst (apply_strict_route_swap K r)) = req_method K r"
  using assms strict_swap_None [of K r] strict_swap_Some [of K r]
  by (cases "strict_first K (header_all K r Route)"; fastforce)+

text \<open>The copy before its \<^verbatim>\<open>Via\<close> and after F1 to F4.\<close>

lemma forward_Inr:
  assumes "forward K M plan config = Inr (branch, r', hop)"
  obtains target r2 vals header where
    "uri_parse K (pt_uri (fp_target plan)) = Some target"
    "push_record_routes K (set_header K (set_header K (set_uri K (fp_original plan) target) MaxForwards
        (decimal (unat (saturating_sub (va_max_forwards (fp_validated plan)) 1)))) MAX_BREADTH
        (decimal (unat (branch_breadth (va_max_breadth (fp_validated plan)) (fp_parallel_branches plan))))) vals = Inr r2"
    "if fp_record_route plan then record_route_values config (fp_tokens plan) = Inr vals else vals = []"
    "branch = BranchId (branch_for M config (va_cookie_input (fp_validated plan)) (fp_index plan))"
    "header_build K Via (via_value config (branch_str branch)) = Some header"
    "r' = push_front K (fst (apply_strict_route_swap K (apply_route_set K (pt_route_set (fp_target plan)) r2))) header" "hop = next_hop_of K r' (snd (apply_strict_route_swap K (apply_route_set K (pt_route_set (fp_target plan)) r2)))"
proof (cases "fp_record_route plan")
  case True
  with assms obtain target r2 vals header where
    "uri_parse K (pt_uri (fp_target plan)) = Some target" "record_route_values config (fp_tokens plan) = Inr vals"
    "push_record_routes K (set_header K (set_header K (set_uri K (fp_original plan) target) MaxForwards
        (decimal (unat (saturating_sub (va_max_forwards (fp_validated plan)) 1)))) MAX_BREADTH
        (decimal (unat (branch_breadth (va_max_breadth (fp_validated plan)) (fp_parallel_branches plan))))) vals = Inr r2"
    "branch = BranchId (branch_for M config (va_cookie_input (fp_validated plan)) (fp_index plan))"
    "header_build K Via (via_value config (branch_str branch)) = Some header"
    "r' = push_front K (fst (apply_strict_route_swap K (apply_route_set K (pt_route_set (fp_target plan)) r2))) header" "hop = next_hop_of K r' (snd (apply_strict_route_swap K (apply_route_set K (pt_route_set (fp_target plan)) r2)))"
    unfolding forward_def Let_def by (auto simp: and_then_Inr split_def)
  with True show thesis by (intro that) simp_all
next
  case False
  let ?r2 = "\<lambda>target. set_header K (set_header K (set_uri K (fp_original plan) target) MaxForwards
        (decimal (unat (saturating_sub (va_max_forwards (fp_validated plan)) 1)))) MAX_BREADTH
        (decimal (unat (branch_breadth (va_max_breadth (fp_validated plan)) (fp_parallel_branches plan))))"
  from False assms obtain target header where
    "uri_parse K (pt_uri (fp_target plan)) = Some target"
    "branch = BranchId (branch_for M config (va_cookie_input (fp_validated plan)) (fp_index plan))"
    "header_build K Via (via_value config (branch_str branch)) = Some header"
    "r' = push_front K (fst (apply_strict_route_swap K (apply_route_set K (pt_route_set (fp_target plan)) (?r2 target)))) header"
    "hop = next_hop_of K r' (snd (apply_strict_route_swap K (apply_route_set K (pt_route_set (fp_target plan)) (?r2 target))))"
    unfolding forward_def Let_def by (auto simp: and_then_Inr split_def)
  with False show thesis by (intro that [of target "[]"]) simp_all
qed

section \<open>Properties\<close>

text \<open>The routes toward the target: its own, in angle brackets, and then those of the request.\<close>

definition target_routes ::
  "('u, 'req, 'addr, 'hdr, 'via, 'resp, 'x) message_kernel_scheme \<Rightarrow> 'req forward_plan \<Rightarrow> bytes list" where
  "target_routes K plan =
    filter (\<lambda>v. header_build K Route v \<noteq> None)
      (map (\<lambda>v. if take 1 v = ''<'' then string_lossy v else ''<'' @ string_lossy v @ ''>'') (pt_route_set (fp_target plan)))
    @ header_all K (fp_original plan) Route"

text \<open>What a replaced header is: the one new value, or nothing where the library does not build it.\<close>

definition only_value ::
  "('u, 'req, 'addr, 'hdr, 'via, 'resp, 'x) message_kernel_scheme \<Rightarrow> header_name \<Rightarrow> string \<Rightarrow> bytes list" where
  "only_value K name v = (if header_build K name v = None then [] else [v])"

lemma routes_before_swap:
  assumes "header_laws K" "push_record_routes K (set_header K (set_header K (set_uri K (fp_original plan) target) MaxForwards s)
      MAX_BREADTH s') vals = Inr r2"
  shows "header_all K (apply_route_set K (pt_route_set (fp_target plan)) r2) Route = target_routes K plan"
    "req_uri K (apply_route_set K (pt_route_set (fp_target plan)) r2) = target"
    "req_method K (apply_route_set K (pt_route_set (fp_target plan)) r2) = req_method K (fp_original plan)"
  using push_record_routes_ops [OF assms] assms(1) by (simp_all add: target_routes_def header_simps bracketed_def [abs_def])

lemma forward_edits:
  assumes "header_laws K" and "forward K M plan config = Inr (branch, r', hop)"
  shows "branch_str branch = branch_for M config (va_cookie_input (fp_validated plan)) (fp_index plan)"
    and "req_method K r' = req_method K (fp_original plan)"
    and "header_all K r' Via = via_value config (branch_str branch) # header_all K (fp_original plan) Via"
    and "\<exists>entries. header_all K r' RecordRoute = rev entries @ header_all K (fp_original plan) RecordRoute
        \<and> (if fp_record_route plan then record_route_values config (fp_tokens plan) = Inr entries else entries = [])"
    and "header_all K r' MaxForwards = only_value K MaxForwards (decimal (unat (va_max_forwards (fp_validated plan)) - 1))"
    and "header_all K r' MAX_BREADTH =
        only_value K MAX_BREADTH (decimal (unat (branch_breadth (va_max_breadth (fp_validated plan)) (fp_parallel_branches plan))))"
    and "\<forall>m. edited_name m \<and> m \<notin> {Via, RecordRoute, MaxForwards, MAX_BREADTH, Route}
        \<longrightarrow> header_all K r' m = header_all K (fp_original plan) m"
proof -
  have "branch_str branch = branch_for M config (va_cookie_input (fp_validated plan)) (fp_index plan)
    \<and> req_method K r' = req_method K (fp_original plan)
    \<and> header_all K r' Via = via_value config (branch_str branch) # header_all K (fp_original plan) Via
    \<and> (\<exists>entries. header_all K r' RecordRoute = rev entries @ header_all K (fp_original plan) RecordRoute
        \<and> (if fp_record_route plan then record_route_values config (fp_tokens plan) = Inr entries else entries = []))
    \<and> header_all K r' MaxForwards = only_value K MaxForwards (decimal (unat (va_max_forwards (fp_validated plan)) - 1))
    \<and> header_all K r' MAX_BREADTH =
        only_value K MAX_BREADTH (decimal (unat (branch_breadth (va_max_breadth (fp_validated plan)) (fp_parallel_branches plan))))
    \<and> (\<forall>m. edited_name m \<and> m \<notin> {Via, RecordRoute, MaxForwards, MAX_BREADTH, Route}
        \<longrightarrow> header_all K r' m = header_all K (fp_original plan) m)"
    using assms(2)
  proof (cases rule: forward_Inr)
    case (1 target r2 vals hdr)
    let ?r3 = "apply_route_set K (pt_route_set (fp_target plan)) r2"
    note rr = push_record_routes_ops [OF assms(1) 1(2)]
    have keep: "header_all K r' m = header_all K r2 m" if "edited_name m" "m \<noteq> Via" "m \<noteq> Route" for m
      using that strict_swap_keeps(1) [OF assms(1), of m ?r3] assms(1) 1(5,6) by (simp add: header_push header_simps)
    have via: "header_all K r' Via = via_value config (branch_str branch) # header_all K r2 Via"
      using strict_swap_keeps(1) [OF assms(1), of Via ?r3] assms(1) 1(5,6) by (simp add: header_push header_simps)
    have h: "unat (saturating_sub (va_max_forwards (fp_validated plan)) 1) = unat (va_max_forwards (fp_validated plan)) - 1"
      by (simp add: unat_saturating_sub)
    have "header_all K r' RecordRoute = rev vals @ header_all K (fp_original plan) RecordRoute"
      using keep [of RecordRoute] rr(1) assms(1) by (simp add: header_simps)
    moreover have "req_method K r' = req_method K (fp_original plan)"
      using strict_swap_keeps(2) [OF assms(1), of Via ?r3] routes_before_swap(3) [OF assms(1) 1(2)] 1(6) assms(1)
      by (simp add: header_ops)
    ultimately show ?thesis
      using 1(3,4) via keep rr(2) assms(1) by (auto simp: header_simps h only_value_def)
  qed
  then show "branch_str branch = branch_for M config (va_cookie_input (fp_validated plan)) (fp_index plan)"
    "req_method K r' = req_method K (fp_original plan)"
    "header_all K r' Via = via_value config (branch_str branch) # header_all K (fp_original plan) Via"
    "\<exists>entries. header_all K r' RecordRoute = rev entries @ header_all K (fp_original plan) RecordRoute
        \<and> (if fp_record_route plan then record_route_values config (fp_tokens plan) = Inr entries else entries = [])"
    "header_all K r' MaxForwards = only_value K MaxForwards (decimal (unat (va_max_forwards (fp_validated plan)) - 1))"
    "header_all K r' MAX_BREADTH =
        only_value K MAX_BREADTH (decimal (unat (branch_breadth (va_max_breadth (fp_validated plan)) (fp_parallel_branches plan))))"
    "\<forall>m. edited_name m \<and> m \<notin> {Via, RecordRoute, MaxForwards, MAX_BREADTH, Route}
        \<longrightarrow> header_all K r' m = header_all K (fp_original plan) m" by blast+
qed

text \<open>The next hop is the first route toward the target, whatever kind of router it is: the topmost
  value of the target's route set, else of the request's own routes, else the target.  A strict router's
  own address becomes the Request-URI and the target goes to the end of the routes; otherwise the
  Request-URI is the target and the routes stand.\<close>

lemma next_hop_is_first_route:
  assumes "header_laws K" and "forward K M plan config = Inr (branch, r', hop)"
    and "uri_parse K (pt_uri (fp_target plan)) = Some target"
  shows "hop = (case Option.bind (get_at (target_routes K plan) 0) (address_parse K) of
        Some first \<Rightarrow> uri_to_bytes K (addr_uri K first)
      | None \<Rightarrow> uri_to_bytes K target)
    \<and> (case strict_first K (target_routes K plan) of
        Some first \<Rightarrow> req_uri K r' = addr_uri K first
          \<and> header_all K r' Route = filter (\<lambda>v. header_build K Route v \<noteq> None)
              (tl (target_routes K plan) @ [''<'' @ string_lossy (uri_to_bytes K target) @ ''>''])
      | None \<Rightarrow> req_uri K r' = target \<and> header_all K r' Route = target_routes K plan)"
  using assms(2)
proof (cases rule: forward_Inr)
  case (1 target' r2 vals hdr)
  with assms(3) have [simp]: "target' = target" by simp
  let ?r3 = "apply_route_set K (pt_route_set (fp_target plan)) r2"
  note r3 = routes_before_swap [OF assms(1) 1(2)]
  have push: "header_all K (push_front K r hdr) Route = header_all K r Route" "req_uri K (push_front K r hdr) = req_uri K r" for r
    using header_push(2) [OF assms(1) 1(5), of Route] assms(1) by (simp_all add: header_ops)
  show ?thesis
  proof (cases "strict_first K (target_routes K plan)")
    case None
    then have swap: "apply_strict_route_swap K ?r3 = (?r3, False)" using strict_swap_None r3(1) by metis
    show ?thesis
      using None 1(6,7) r3(1,2) assms(1)
      by (auto simp: swap push next_hop_of_def first_route_def header_ops get_at_def hd_conv_nth split: list.splits option.splits)
  next
    case (Some first)
    then obtain r4 where swap: "apply_strict_route_swap K ?r3 = (r4, True)" "req_uri K r4 = addr_uri K first"
        "header_all K r4 Route = filter (\<lambda>v. header_build K Route v \<noteq> None)
          (tl (target_routes K plan) @ [''<'' @ string_lossy (uri_to_bytes K target) @ ''>''])"
      using strict_swap_Some [OF assms(1), of ?r3 first] r3 by auto
    moreover have "Option.bind (get_at (target_routes K plan) 0) (address_parse K) = Some first"
      using Some by (auto simp: strict_first_def get_at_def bind_eq_Some_conv split: list.splits if_splits)
    ultimately show ?thesis using Some 1(6,7) by (simp add: push next_hop_of_def)
  qed
qed

text \<open>C16. The forwarded copy differs from the request by exactly the listed edits: one \<^verbatim>\<open>Via\<close>
  with the fork's branch on top, one \<^verbatim>\<open>Max-Forwards\<close> one lower, one
  \<^verbatim>\<open>Max-Breadth\<close> with the branch's share, and for a dialog-forming request the
  \<^verbatim>\<open>Record-Route\<close> entries with the terminating one topmost; the method and every other
  header that has a name of its own in the library, but \<^verbatim>\<open>Route\<close>, are as they came.  A value
  the library does not build is left out.  The copy is sent to the first route
  toward the target, else to the target.  Where that route is a loose router, or there is none, the
  Request-URI is the target and the \<^verbatim>\<open>Route\<close> values are the target's followed by the request's
  own; a strict router's address becomes the Request-URI, its value is dropped and the target is
  appended as the last route.\<close>

theorem forward_edits_exact:
  assumes "header_laws K" and "forward K M plan config = Inr (branch, r', hop)"
  shows "branch_str branch = branch_for M config (va_cookie_input (fp_validated plan)) (fp_index plan)
    \<and> req_method K r' = req_method K (fp_original plan)
    \<and> header_all K r' Via =
        (''SIP/2.0/UDP '' @ string_lossy (record_route_host config) @ '';branch='' @ branch_str branch)
        # header_all K (fp_original plan) Via
    \<and> (\<exists>entries. header_all K r' RecordRoute = rev entries @ header_all K (fp_original plan) RecordRoute
        \<and> (if fp_record_route plan then record_route_values config (fp_tokens plan) = Inr entries else entries = [])
        \<and> (fp_record_route plan \<and> fp_tokens plan = None \<longrightarrow> entries = [string_lossy (record_route_uri config)]))
    \<and> header_all K r' MaxForwards = only_value K MaxForwards (decimal (unat (va_max_forwards (fp_validated plan)) - 1))
    \<and> header_all K r' MAX_BREADTH =
        only_value K MAX_BREADTH
          (decimal (unat (max 1 (va_max_breadth (fp_validated plan) div max 1 (fp_parallel_branches plan)))))
    \<and> (\<forall>m. edited_name m \<and> m \<notin> {Via, RecordRoute, MaxForwards, MAX_BREADTH, Route}
        \<longrightarrow> header_all K r' m = header_all K (fp_original plan) m)
    \<and> (\<exists>target. uri_parse K (pt_uri (fp_target plan)) = Some target
        \<and> hop = (case Option.bind (get_at (target_routes K plan) 0) (address_parse K) of
              Some first \<Rightarrow> uri_to_bytes K (addr_uri K first)
            | None \<Rightarrow> uri_to_bytes K target)
        \<and> (case strict_first K (target_routes K plan) of
              Some first \<Rightarrow> req_uri K r' = addr_uri K first
                \<and> header_all K r' Route = filter (\<lambda>v. header_build K Route v \<noteq> None)
                    (tl (target_routes K plan) @ [''<'' @ string_lossy (uri_to_bytes K target) @ ''>''])
            | None \<Rightarrow> req_uri K r' = target \<and> header_all K r' Route = target_routes K plan))"
proof -
  from assms(2) obtain target where target: "uri_parse K (pt_uri (fp_target plan)) = Some target" by (rule forward_Inr)
  obtain entries where "header_all K r' RecordRoute = rev entries @ header_all K (fp_original plan) RecordRoute"
    "if fp_record_route plan then record_route_values config (fp_tokens plan) = Inr entries else entries = []"
    using forward_edits(4) [OF assms] by blast
  then have entries: "\<exists>entries. header_all K r' RecordRoute = rev entries @ header_all K (fp_original plan) RecordRoute
      \<and> (if fp_record_route plan then record_route_values config (fp_tokens plan) = Inr entries else entries = [])
      \<and> (fp_record_route plan \<and> fp_tokens plan = None \<longrightarrow> entries = [string_lossy (record_route_uri config)])"
    by (intro exI [of _ entries]) (auto simp: record_route_values_def split: if_splits)
  show ?thesis
    by (intro conjI exI [of _ target] target entries forward_edits(1,2,7) [OF assms]
        forward_edits(3) [OF assms, unfolded via_value_def] forward_edits(5,6) [OF assms, unfolded branch_breadth_def]
        next_hop_is_first_route [OF assms target, THEN conjunct1] next_hop_is_first_route [OF assms target, THEN conjunct2])
qed

definition sample_plan :: "bytes \<Rightarrow> text_message forward_plan" where
  "sample_plan route = \<lparr>fp_original = sample_invite [(Via, ''SIP/2.0/UDP a.example'')],
     fp_validated = \<lparr>va_max_forwards = 70, va_max_breadth = 60, va_cookie_input = sample_state\<rparr>,
     fp_target = \<lparr>pt_uri = ''sip:bob@b.example'', pt_route_set = [route], pt_q = 1000\<rparr>,
     fp_index = 0, fp_parallel_branches = 1, fp_record_route = True, fp_tokens = None\<rparr>"

lemma sample_forward:
  "\<exists>branch r' hop. forward sample_kernel plain_mac (sample_plan route) sample_config = Inr (branch, r', hop)"
  "\<exists>branch r' hop. forward sample_kernel plain_mac ((sample_plan route)\<lparr>fp_validated := v\<rparr>) sample_config = Inr (branch, r', hop)"
  by (simp_all add: forward_def Let_def sample_plan_def and_then_def record_route_values_def split: prod.split)

theorem forward_edits_exact_witness:
  "\<exists>branch r'. forward sample_kernel plain_mac (sample_plan ''sip:p1.example'') sample_config = Inr (branch, r', ''sip:p1.example'')
    \<and> values_of (tm_headers r') RecordRoute = [''<sip:edge.example;lr>''] \<and> values_of (tm_headers r') MaxForwards = [''69'']
    \<and> tm_uri r' = ''sip:p1.example'' \<and> values_of (tm_headers r') Route = [''<sip:bob@b.example>'']"
proof -
  obtain branch r' hop where f: "forward sample_kernel plain_mac (sample_plan ''sip:p1.example'') sample_config = Inr (branch, r', hop)"
    using sample_forward by blast
  have rr: "record_route_values sample_config None = Inr [''<sip:edge.example;lr>'']"
    by (simp add: record_route_values_def sample_config_def config_new_def is_ascii_char_def)
  have r: "target_routes sample_kernel (sample_plan ''sip:p1.example'') = [''<sip:p1.example>'']"
    by (simp add: target_routes_def sample_plan_def sample_invite_def bracketed_def is_ascii_char_def)
  have a: "address_of ''<sip:p1.example>'' = Some (''sip:p1.example'', ''>'')" "param_of ''sip:p1.example'' ''lr'' = None"
    by (simp_all add: address_of_def param_of_def)
  then have s: "strict_first sample_kernel [''<sip:p1.example>''] = Some (''sip:p1.example'', ''>'')"
    by (simp add: strict_first_def)
  have d: "decimal 69 = ''69''" by code_simp
  have plan: "va_max_forwards (fp_validated (sample_plan route)) = 70" "fp_tokens (sample_plan route) = None"
    "fp_record_route (sample_plan route)" "values_of (tm_headers (fp_original (sample_plan route))) RecordRoute = []"
    "pt_uri (fp_target (sample_plan route)) = ''sip:bob@b.example''" for route
    by (simp_all add: sample_plan_def sample_invite_def)
  show ?thesis
    using forward_edits_exact [OF sample_header_laws f] f
    by (simp add: r s a rr d plan get_at_def is_ascii_char_def only_value_def)
qed

section \<open>Max-Forwards wears out\<close>

lemma parse_decimal:
  assumes "n < 2 ^ width"
  shows "parse_unsigned width (trim_text (from_utf8_lossy (decimal n))) = Some n"
proof -
  have "list_all is_ascii_char (decimal n)" using decimal_digits [of n] digit_ascii by (auto simp: list_all_iff)
  then have "from_utf8_lossy (decimal n) = map of_char (decimal n)" by (rule from_utf8_lossy_ascii)
  moreover have "trim_text (map of_char (decimal n)) = map of_char (decimal n)"
    using decimal_points [of _ n] by (simp add: trim_text_def dropWhile_none)
  ultimately show ?thesis using parse_unsigned_decimal [OF assms] by simp
qed

lemma forward_max_forwards:
  assumes "header_laws K" "forward K M plan config = Inr (branch, r', hop)"
    and "header_build K MaxForwards (decimal (unat (va_max_forwards (fp_validated plan)) - 1)) \<noteq> None"
  shows "header_value K r' MaxForwards = Some (decimal (unat (va_max_forwards (fp_validated plan)) - 1))"
  using assms(2)
proof (cases rule: forward_Inr)
  case (1 target r2 vals hdr)
  let ?r3 = "apply_route_set K (pt_route_set (fp_target plan)) r2"
  have "header_all K r' MaxForwards = header_all K r2 MaxForwards"
    using strict_swap_keeps(1) [OF assms(1), of MaxForwards ?r3] assms(1) 1(5,6) by (simp add: header_push header_simps)
  moreover have "header_all K r2 MaxForwards = [decimal (unat (va_max_forwards (fp_validated plan)) - 1)]"
    using push_record_routes_ops(2) [OF assms(1) 1(2), of MaxForwards] assms(1,3) by (simp add: header_simps unat_saturating_sub)
  ultimately show ?thesis by (simp add: header_ops(1) [OF assms(1)])
qed

text \<open>One hop: some proxy of whatever configuration validates the request, preprocesses it and forwards
  a copy of it.  A journey is a number of hops.\<close>

definition proxied ::
  "('u, 'req, 'addr, 'hdr, 'via, 'resp, 'x) message_kernel_scheme \<Rightarrow> mac_kernel \<Rightarrow> 'req \<Rightarrow> 'req \<Rightarrow> bool" where
  "proxied K M r r' \<longleftrightarrow> (\<exists>config plan branch hop. validate K M r config = Inr (fp_validated plan)
     \<and> fp_original plan = fst (preprocess K r config) \<and> forward K M plan config = Inr (branch, r', hop))"

inductive journey ::
  "('u, 'req, 'addr, 'hdr, 'via, 'resp, 'x) message_kernel_scheme \<Rightarrow> mac_kernel \<Rightarrow> nat \<Rightarrow> 'req \<Rightarrow> 'req \<Rightarrow> bool"
  for K M where
  start: "journey K M 0 r r"
| hop: "proxied K M r r' \<Longrightarrow> journey K M n r' r'' \<Longrightarrow> journey K M (Suc n) r r''"

definition hops_left ::
  "('u, 'req, 'addr, 'hdr, 'via, 'resp, 'x) message_kernel_scheme \<Rightarrow> 'req \<Rightarrow> nat" where
  "hops_left K r = (case header_number 8 K r MaxForwards of Some n \<Rightarrow> unat (n :: u8) | None \<Rightarrow> 256)"

lemma proxied_wears:
  assumes "header_laws K" "\<forall>n < 256. header_build K MaxForwards (decimal n) \<noteq> None" "proxied K M r r'"
  shows "hops_left K r' < hops_left K r"
proof -
  from assms(3) obtain config plan branch hop where
    v: "validate K M r config = Inr (fp_validated plan)" and f: "forward K M plan config = Inr (branch, r', hop)"
    unfolding proxied_def by blast
  let ?m = "va_max_forwards (fp_validated plan)"
  have m: "unat ?m < 256" using unsigned_less [of ?m, where ?'a = nat] by simp
  then have "header_value K r' MaxForwards = Some (decimal (unat ?m - 1))"
    by (intro forward_max_forwards [OF assms(1) f]) (use assms(2) in simp)
  then have "header_number 8 K r' MaxForwards = Some (of_nat (unat ?m - 1) :: u8)"
    using parse_decimal [of "unat ?m - 1" 8] m by (simp add: header_number_def)
  moreover have "unat (of_nat (unat ?m - 1) :: u8) = unat ?m - 1"
    using m by (simp add: unat_of_nat take_bit_nat_eq_self)
  ultimately have left: "hops_left K r' = unat ?m - 1" by (simp add: hops_left_def)
  from validate_Inr(3) [OF v] show ?thesis
  proof
    assume "header_number 8 K r MaxForwards = Some ?m \<and> ?m \<noteq> 0"
    moreover from this have "unat ?m \<noteq> 0" by (simp add: unat_eq_zero)
    ultimately show ?thesis using left by (simp add: hops_left_def)
  next
    assume "header_number 8 K r MaxForwards = (None :: u8 option) \<and> ?m = default_max_forwards config"
    then have "hops_left K r = 256" by (simp add: hops_left_def)
    then show ?thesis using left m by simp
  qed
qed

text \<open>No request is forwarded for ever: whatever loops the routes make and however the proxies on the
  way are configured, a request that arrives with \<^verbatim>\<open>Max-Forwards: n\<close> makes at most
  \<open>n\<close> hops, and one without the header at most 256.\<close>

theorem hops_bounded:
  assumes "journey K M n r r'" and "header_laws K" and "\<forall>n < 256. header_build K MaxForwards (decimal n) \<noteq> None"
  shows "n + hops_left K r' \<le> hops_left K r"
  using assms(1)
proof induction
  case (hop r r' n r'')
  with proxied_wears [OF assms(2,3) hop(1)] show ?case by simp
qed simp

lemma sample_validated:
  "validate sample_kernel plain_mac (sample_invite [(Via, ''SIP/2.0/UDP a.example'')]) sample_config
    = Inr \<lparr>va_max_forwards = 70, va_max_breadth = 60,
        va_cookie_input = cookie_input_from sample_kernel (sample_invite [(Via, ''SIP/2.0/UDP a.example'')])\<rparr>"
proof -
  have "\<not> via_is_ours sample_kernel ''UDP a.example'' sample_config"
    by (simp add: via_is_ours_def sample_config_def config_new_def edge_host_def host_of_def authority_of_def
        Let_def strip_dot_def is_ascii_char_def ascii_lower_def)
  then have "\<not> is_loop sample_kernel (sample_invite [(Via, ''SIP/2.0/UDP a.example'')]) sample_config c" for c
    by (simp add: is_loop_def sample_invite_def List.map_filter_def)
  then show ?thesis
    using sample_understands [of "''bob@b.example''"]
    by (simp add: validate_def Let_def is_respondable_def header_number_def required_tags_def sample_invite_def
        MAX_BREADTH_def) (simp add: sample_config_def config_new_def)
qed

lemma sample_preprocess:
  "preprocess sample_kernel (sample_invite [(Via, ''SIP/2.0/UDP a.example'')]) sample_config
    = (sample_invite [(Via, ''SIP/2.0/UDP a.example'')], None)"
proof -
  have "\<not> is_ours sample_kernel sample_config ''sip:bob@b.example''"
    by (simp add: is_ours_def sample_config_def config_new_def edge_host_def identity_matches_def host_of_def authority_of_def
        Let_def strip_dot_def is_ascii_char_def ascii_lower_def)
  then show ?thesis
    by (simp add: preprocess_def recover_request_uri_def is_our_record_route_value_def routes_of_def sample_invite_def Let_def)
qed

theorem hops_bounded_witness:
  "\<exists>r'. journey sample_kernel plain_mac 1 (sample_invite [(Via, ''SIP/2.0/UDP a.example'')]) r'
    \<and> 1 + hops_left sample_kernel r' \<le> 256"
proof -
  let ?r = "sample_invite [(Via, ''SIP/2.0/UDP a.example'')]"
  let ?plan = "(sample_plan ''sip:p1.example'')\<lparr>fp_validated := \<lparr>va_max_forwards = 70, va_max_breadth = 60,
        va_cookie_input = cookie_input_from sample_kernel ?r\<rparr>\<rparr>"
  obtain branch r' hop where "forward sample_kernel plain_mac ?plan sample_config = Inr (branch, r', hop)"
    using sample_forward(2) by blast
  then have "proxied sample_kernel plain_mac ?r r'"
    unfolding proxied_def using sample_validated sample_preprocess
    by (intro exI [of _ sample_config] exI [of _ ?plan]) (simp add: sample_plan_def)
  then have j: "journey sample_kernel plain_mac 1 ?r r'" by (auto intro: journey.intros)
  moreover have "hops_left sample_kernel ?r = 256" by (simp add: hops_left_def header_number_def sample_invite_def)
  ultimately show ?thesis using hops_bounded [OF j sample_header_laws] by auto
qed

end
