(* ===== verification/Context.thy ===== *)
theory Context imports Prelude Ascii Message Proxy Cookie Validate Route Forward begin

text \<open>
  \<^verbatim>\<open>context.rs\<close> of \<^verbatim>\<open>crates/sipx-clstr-proxy\<close>: the response context, one
  state machine per server transaction.  Every handler takes the context and returns it with the effects
  to perform, in order.  The theories after this one state what every run of the machine guarantees.
\<close>

section \<open>State\<close>

text \<open>\<open>Pending saw_provisional cancel_queued\<close>.\<close>

datatype branch_state = Pending bool bool | Concluded u16 | Cancelling

type_synonym branch = "branch_id \<times> branch_state \<times> proxy_target"

record ('req, 'resp) response_context =
  cx_config :: proxy_config
  cx_request :: "'req option"
  cx_validated :: "validated option"
  cx_branches :: "branch list"
  cx_queued :: "proxy_target list"
  cx_finals :: "'resp list"
  cx_answered :: bool
  cx_finished :: bool
  cx_tokens :: "record_route_tokens option"
  cx_awaiting_verdict :: bool

type_synonym ('req, 'resp) handled = "('req, 'resp) response_context \<times> ('req, 'resp) effect list"

definition context_new :: "proxy_config \<Rightarrow> ('req, 'resp) response_context" where
  "context_new config =
    \<lparr>cx_config = config, cx_request = None, cx_validated = None, cx_branches = [], cx_queued = [], cx_finals = [],
     cx_answered = False, cx_finished = False, cx_tokens = None, cx_awaiting_verdict = False\<rparr>"

section \<open>Helpers\<close>

definition pop_via ::
  "('u, 'req, 'addr, 'hdr, 'via, 'resp, 'x) message_kernel_scheme \<Rightarrow> 'resp \<Rightarrow> 'resp" where
  "pop_via K response = resp_remove_first K response Via"

definition build_response ::
  "('u, 'req, 'addr, 'hdr, 'via, 'resp, 'x) message_kernel_scheme \<Rightarrow> 'req \<Rightarrow> u16 \<Rightarrow> string \<Rightarrow> 'resp option" where
  "build_response K request status reason =
    (if valid_status K status then respond_to K request status reason else None)"

definition is_invite ::
  "('u, 'req, 'addr, 'hdr, 'via, 'resp, 'x) message_kernel_scheme \<Rightarrow> 'req \<Rightarrow> bool" where
  "is_invite K request = (req_method K request = ''INVITE'')"

definition is_dialog_forming ::
  "('u, 'req, 'addr, 'hdr, 'via, 'resp, 'x) message_kernel_scheme \<Rightarrow> 'req \<Rightarrow> bool" where
  "is_dialog_forming K request \<longleftrightarrow> is_invite K request \<and> \<not> is_in_dialog K request"

fun is_pending :: "branch_state \<Rightarrow> bool" where
  "is_pending (Pending _ _) = True"
| "is_pending _ = False"

fun is_concluded :: "branch_state \<Rightarrow> bool" where
  "is_concluded (Concluded _) = True"
| "is_concluded _ = False"

definition pending_branch_ids :: "('req, 'resp) response_context \<Rightarrow> branch_id list" where
  "pending_branch_ids c = map fst (filter (\<lambda>(_, state, _). is_pending state) (cx_branches c))"

definition has_pending :: "('req, 'resp) response_context \<Rightarrow> bool" where
  "has_pending c = list_ex (\<lambda>(_, state, _). is_pending state \<or> state = Cancelling) (cx_branches c)"

definition knows_branch :: "('req, 'resp) response_context \<Rightarrow> branch_id \<Rightarrow> bool" where
  "knows_branch c branch = list_ex (\<lambda>(bid, _, _). bid = branch) (cx_branches c)"

definition update_branches ::
  "(branch_id \<Rightarrow> branch_state \<Rightarrow> branch_state) \<Rightarrow> ('req, 'resp) response_context \<Rightarrow> ('req, 'resp) response_context" where
  "update_branches f c = c\<lparr>cx_branches := map (\<lambda>(bid, state, target). (bid, f bid state, target)) (cx_branches c)\<rparr>"

definition set_cancelling :: "branch_id \<Rightarrow> ('req, 'resp) response_context \<Rightarrow> ('req, 'resp) response_context" where
  "set_cancelling branch = update_branches (\<lambda>bid state. if bid = branch then Cancelling else state)"

definition queue_cancel :: "branch_id \<Rightarrow> ('req, 'resp) response_context \<Rightarrow> ('req, 'resp) response_context" where
  "queue_cancel branch = update_branches (\<lambda>bid state.
     if bid = branch then (case state of Pending saw _ \<Rightarrow> Pending saw True | _ \<Rightarrow> state) else state)"

definition conclude_branch ::
  "branch_id \<Rightarrow> u16 \<Rightarrow> ('req, 'resp) response_context \<Rightarrow> ('req, 'resp) response_context" where
  "conclude_branch branch status = update_branches (\<lambda>bid state. if bid = branch then Concluded status else state)"

text \<open>Returns whether a queued CANCEL is now sendable.\<close>

definition mark_provisional ::
  "branch_id \<Rightarrow> ('req, 'resp) response_context \<Rightarrow> ('req, 'resp) response_context \<times> bool" where
  "mark_provisional branch c =
    (update_branches (\<lambda>bid state.
        if bid = branch then (case state of Pending _ _ \<Rightarrow> Pending True False | _ \<Rightarrow> state) else state) c,
     foldl (\<lambda>release (bid, state, _).
        if bid = branch then (case state of Pending _ queued \<Rightarrow> queued | _ \<Rightarrow> release) else release) False (cx_branches c))"

definition conclude_target_set :: "('req, 'resp) response_context \<Rightarrow> ('req, 'resp) response_context" where
  "conclude_target_set c = c\<lparr>cx_queued := []\<rparr>"

definition may_fork_next_group :: "('req, 'resp) response_context \<Rightarrow> bool" where
  "may_fork_next_group c \<longleftrightarrow> cx_queued c \<noteq> [] \<and> \<not> cx_answered c \<and> \<not> cx_finished c"

definition terminate :: "('req, 'resp) response_context \<Rightarrow> ('req, 'resp) handled" where
  "terminate c = (c\<lparr>cx_finished := True\<rparr>, [Terminate])"

definition finish_if_settled :: "('req, 'resp) response_context \<Rightarrow> ('req, 'resp) handled" where
  "finish_if_settled c =
    (if has_pending c \<or> may_fork_next_group c then (c, []) else (c\<lparr>cx_finished := True\<rparr>, [Terminate]))"

definition cancel_pending :: "('req, 'resp) response_context \<Rightarrow> ('req, 'resp) handled" where
  "cancel_pending c =
    (let ids = pending_branch_ids c
     in (update_branches (\<lambda>bid state. if bid \<in> set ids then Cancelling else state) c, map CancelBranch ids))"

definition respond_and_finish ::
  "('u, 'req, 'addr, 'hdr, 'via, 'resp, 'x) message_kernel_scheme \<Rightarrow> ('req, 'resp) response_context \<Rightarrow> 'req \<Rightarrow> u16 \<Rightarrow> string
    \<Rightarrow> ('req, 'resp) handled" where
  "respond_and_finish K c request status reason =
    (let c = c\<lparr>cx_answered := True, cx_finished := True\<rparr>
     in case build_response K request status reason of
          Some response \<Rightarrow> (c, Respond response # map CancelBranch (pending_branch_ids c) @ [Terminate])
        | None \<Rightarrow> (c, [Terminate]))"

fun join_tags :: "string list \<Rightarrow> string" where
  "join_tags [] = ''''"
| "join_tags [tag] = tag"
| "join_tags (tag # tags) = tag @ '', '' @ join_tags tags"

definition refuse ::
  "('u, 'req, 'addr, 'hdr, 'via, 'resp, 'x) message_kernel_scheme \<Rightarrow> ('req, 'resp) response_context \<Rightarrow> 'req \<Rightarrow> refusal
    \<Rightarrow> ('req, 'resp) handled" where
  "refuse K c request refusal =
    (let c = c\<lparr>cx_finished := True\<rparr> in
     case refusal_status refusal of
       None \<Rightarrow> (c, [Terminate])
     | Some status \<Rightarrow>
        (case build_response K request status (refusal_reason refusal) of
           None \<Rightarrow> (c, [Terminate])
         | Some response \<Rightarrow>
            let response = (case refusal of
                BadExtension tags \<Rightarrow>
                  (case header_build K Unsupported (join_tags tags) of
                     Some header \<Rightarrow> resp_push K response header
                   | None \<Rightarrow> response)
              | _ \<Rightarrow> response)
            in (c, [Respond response, Terminate])))"

section \<open>Forking\<close>

text \<open>The loop over one group: the effects and the branches of the targets a copy could be built for.\<close>

fun launch ::
  "('u, 'req, 'addr, 'hdr, 'via, 'resp, 'x) message_kernel_scheme \<Rightarrow> mac_kernel \<Rightarrow> proxy_config \<Rightarrow> 'req \<Rightarrow> validated
    \<Rightarrow> u32 \<Rightarrow> record_route_tokens option \<Rightarrow> nat \<Rightarrow> proxy_target list
    \<Rightarrow> ('req, 'resp) effect list \<times> branch list" where
  "launch K M config request validated parallel tokens index [] = ([], [])"
| "launch K M config request validated parallel tokens index (target # targets) =
    (let plan = \<lparr>fp_original = request, fp_validated = validated, fp_target = target, fp_index = index,
         fp_parallel_branches = parallel, fp_record_route = is_dialog_forming K request, fp_tokens = tokens\<rparr>;
         (effects, branches) = launch K M config request validated parallel tokens (Suc index) targets
     in case forward K M plan config of
          Inl _ \<Rightarrow> (effects, branches)
        | Inr (branch, forwarded, next_hop) \<Rightarrow>
            (Forward branch forwarded target next_hop
              # (if is_invite K request then [SetTimer TimerC (Some branch) (effective_timer_c config)] else [])
              @ effects,
             (branch, Pending False False, target) # branches))"

definition group_size :: "u32 \<Rightarrow> proxy_target list \<Rightarrow> nat" where
  "group_size max_breadth queued =
    (let leading_q = (case queued of [] \<Rightarrow> 0 | target # _ \<Rightarrow> pt_q target);
         split = (case position (\<lambda>target. pt_q target \<noteq> leading_q) queued of Some i \<Rightarrow> i | None \<Rightarrow> length queued);
         budget = max (unat max_breadth) 1
     in min split budget)"

definition fork_next_group ::
  "('u, 'req, 'addr, 'hdr, 'via, 'resp, 'x) message_kernel_scheme \<Rightarrow> mac_kernel \<Rightarrow> ('req, 'resp) response_context
    \<Rightarrow> ('req, 'resp) handled" where
  "fork_next_group K M c =
    (case cx_request c of None \<Rightarrow> terminate c | Some request \<Rightarrow>
     case cx_validated c of None \<Rightarrow> terminate c | Some validated \<Rightarrow>
     if cx_queued c = [] then (c, [])
     else
       let split = group_size (va_max_breadth validated) (cx_queued c);
           group = take split (cx_queued c);
           (effects, branches) = launch K M (cx_config c) request validated (u32_of_usize (length group)) (cx_tokens c)
             (length (cx_branches c)) group;
           c = c\<lparr>cx_queued := drop split (cx_queued c), cx_branches := cx_branches c @ branches\<rparr>
       in if cx_branches c = [] \<and> cx_queued c = []
          then respond_and_finish K c request 480 ''Temporarily Unavailable''
          else (c, effects))"

section \<open>Choosing a final response\<close>

definition within_class_rank :: "u16 \<Rightarrow> nat" where
  "within_class_rank status =
    (if status \<in> {401, 407, 415, 420, 484} then 1 else if status \<in> {480, 486} then 2 else 3)"

definition preferred :: "u16 \<Rightarrow> u16 \<Rightarrow> bool" where
  "preferred a b \<longleftrightarrow> a div 100 < b div 100
    \<or> a div 100 = b div 100 \<and> (within_class_rank a < within_class_rank b
        \<or> within_class_rank a = within_class_rank b \<and> a < b)"

text \<open>\<^verbatim>\<open>min_by_key\<close>: the first element no other is preferred to.\<close>

fun best_status :: "u16 list \<Rightarrow> u16 option" where
  "best_status [] = None"
| "best_status (status # rest) =
    (case best_status rest of
       None \<Rightarrow> Some status
     | Some best \<Rightarrow> Some (if preferred best status then best else status))"

definition best_final ::
  "('u, 'req, 'addr, 'hdr, 'via, 'resp, 'x) message_kernel_scheme \<Rightarrow> ('req, 'resp) response_context \<Rightarrow> u16 option" where
  "best_final K c = best_status (map (resp_status K) (cx_finals c))"

definition aggregate_challenges ::
  "('u, 'req, 'addr, 'hdr, 'via, 'resp, 'x) message_kernel_scheme \<Rightarrow> ('req, 'resp) response_context \<Rightarrow> 'req \<Rightarrow> u16
    \<Rightarrow> 'resp option" where
  "aggregate_challenges K c request status =
    (let header = (if status = 401 then WwwAuthenticate else ProxyAuthenticate);
         sources = filter (\<lambda>candidate. resp_status K candidate = status) (cx_finals c)
     in map_option (\<lambda>response. foldl (resp_push K) response (concat (map (\<lambda>source. resp_headers K source header) sources)))
          (build_response K request status
            (if status = 401 then ''Unauthorized'' else ''Proxy Authentication Required'')))"

definition select_and_answer ::
  "('u, 'req, 'addr, 'hdr, 'via, 'resp, 'x) message_kernel_scheme \<Rightarrow> ('req, 'resp) response_context \<Rightarrow> 'req
    \<Rightarrow> ('req, 'resp) handled" where
  "select_and_answer K c request =
    (if cx_answered c then finish_if_settled c
     else case best_final K c of
       None \<Rightarrow> respond_and_finish K c request 500 ''Server Internal Error''
     | Some best \<Rightarrow>
        if best = 503 then respond_and_finish K c request 500 ''Server Internal Error''
        else
          case (if best = 401 \<or> best = 407 then aggregate_challenges K c request best
                else List.find (\<lambda>response. resp_status K response = best) (cx_finals c)) of
            Some response \<Rightarrow>
              let (c, cancels) = cancel_pending (c\<lparr>cx_answered := True\<rparr>);
                  (c, ends) = finish_if_settled c
              in (c, Respond (pop_via K response) # cancels @ ends)
          | None \<Rightarrow> respond_and_finish K c request 500 ''Server Internal Error'')"

text \<open>The tail three handlers share: wait for the other branches, fork the next group, or answer.\<close>

definition continue_selection ::
  "('u, 'req, 'addr, 'hdr, 'via, 'resp, 'x) message_kernel_scheme \<Rightarrow> mac_kernel \<Rightarrow> ('req, 'resp) response_context \<Rightarrow> 'req
    \<Rightarrow> ('req, 'resp) handled" where
  "continue_selection K M c request =
    (if has_pending c then (c, [])
     else if may_fork_next_group c then fork_next_group K M c
     else select_and_answer K c request)"

section \<open>Handlers\<close>

definition on_targets ::
  "('u, 'req, 'addr, 'hdr, 'via, 'resp, 'x) message_kernel_scheme \<Rightarrow> mac_kernel \<Rightarrow> ('req, 'resp) response_context
    \<Rightarrow> proxy_target list \<Rightarrow> ('req, 'resp) handled" where
  "on_targets K M c targets =
    (case cx_request c of None \<Rightarrow> terminate c | Some request \<Rightarrow>
     if targets = [] then respond_and_finish K c request 480 ''Temporarily Unavailable''
     else fork_next_group K M (c\<lparr>cx_queued := sort_by (\<lambda>a b. pt_q b \<le> pt_q a) targets\<rparr>))"

definition on_targets_unavailable ::
  "('u, 'req, 'addr, 'hdr, 'via, 'resp, 'x) message_kernel_scheme \<Rightarrow> ('req, 'resp) response_context
    \<Rightarrow> ('req, 'resp) handled" where
  "on_targets_unavailable K c =
    (case cx_request c of None \<Rightarrow> terminate c | Some request \<Rightarrow>
     respond_and_finish K c request 503 ''Service Unavailable'')"

definition route_it ::
  "('u, 'req, 'addr, 'hdr, 'via, 'resp, 'x) message_kernel_scheme \<Rightarrow> mac_kernel \<Rightarrow> ('req, 'resp) response_context
    \<Rightarrow> ('req, 'resp) handled" where
  "route_it K M c =
    (case cx_request c of None \<Rightarrow> terminate c | Some request \<Rightarrow>
     if is_in_dialog K request then on_targets K M c [predetermined_target K request]
     else if route_set_survived K request then on_targets K M c [predetermined_target K request]
     else (c, [ResolveTargets (aor_query K request)]))"

definition on_upstream ::
  "('u, 'req, 'addr, 'hdr, 'via, 'resp, 'x) message_kernel_scheme \<Rightarrow> mac_kernel \<Rightarrow> ('req, 'resp) response_context
    \<Rightarrow> 'req \<Rightarrow> ('req, 'resp) handled" where
  "on_upstream K M c request =
    (case validate K M request (cx_config c) of
       Inl refusal \<Rightarrow> refuse K c request refusal
     | Inr validated \<Rightarrow>
        let (request, carriage) = preprocess K request (cx_config c);
            c = c\<lparr>cx_request := Some request, cx_validated := Some validated\<rparr>
        in case carriage of
             Some carried \<Rightarrow> (c\<lparr>cx_awaiting_verdict := True\<rparr>, [VerifyToken (tc_token carried) (tc_partner carried)])
           | None \<Rightarrow> route_it K M c)"

definition reject_token ::
  "('u, 'req, 'addr, 'hdr, 'via, 'resp, 'x) message_kernel_scheme \<Rightarrow> ('req, 'resp) response_context
    \<Rightarrow> ('req, 'resp) handled" where
  "reject_token K c =
    (case cx_request c of None \<Rightarrow> terminate c | Some request \<Rightarrow> respond_and_finish K c request 403 ''Forbidden'')"

definition on_token ::
  "('u, 'req, 'addr, 'hdr, 'via, 'resp, 'x) message_kernel_scheme \<Rightarrow> mac_kernel \<Rightarrow> ('req, 'resp) response_context
    \<Rightarrow> token_verdict \<Rightarrow> ('req, 'resp) handled" where
  "on_token K M c verdict =
    (if \<not> cx_awaiting_verdict c then (c, [])
     else
       let c = c\<lparr>cx_awaiting_verdict := False\<rparr> in
       case verdict of ValidToken _ \<Rightarrow> route_it K M c | InvalidToken \<Rightarrow> reject_token K c)"

definition on_branch_failure ::
  "('u, 'req, 'addr, 'hdr, 'via, 'resp, 'x) message_kernel_scheme \<Rightarrow> mac_kernel \<Rightarrow> ('req, 'resp) response_context
    \<Rightarrow> branch_id \<Rightarrow> ('req, 'resp) handled" where
  "on_branch_failure K M c branch =
    (case cx_request c of None \<Rightarrow> terminate c | Some request \<Rightarrow>
     if \<not> knows_branch c branch then (c, [])
     else
       let c = conclude_branch branch 503 c;
           c = (case build_response K request 503 ''Service Unavailable'' of
               Some response \<Rightarrow> c\<lparr>cx_finals := cx_finals c @ [response]\<rparr> | None \<Rightarrow> c)
       in continue_selection K M c request)"

definition conclude_as_timeout ::
  "('u, 'req, 'addr, 'hdr, 'via, 'resp, 'x) message_kernel_scheme \<Rightarrow> mac_kernel \<Rightarrow> ('req, 'resp) response_context
    \<Rightarrow> branch_id \<Rightarrow> ('req, 'resp) handled" where
  "conclude_as_timeout K M c branch =
    (case cx_request c of None \<Rightarrow> terminate c | Some request \<Rightarrow>
     let c = conclude_branch branch 408 c;
         c = (case build_response K request 408 ''Request Timeout'' of
             Some response \<Rightarrow> c\<lparr>cx_finals := cx_finals c @ [response]\<rparr> | None \<Rightarrow> c)
     in continue_selection K M c request)"

definition on_provisional ::
  "('u, 'req, 'addr, 'hdr, 'via, 'resp, 'x) message_kernel_scheme \<Rightarrow> ('req, 'resp) response_context \<Rightarrow> 'req \<Rightarrow> 'resp
    \<Rightarrow> branch_id \<Rightarrow> ('req, 'resp) handled" where
  "on_provisional K c request response branch =
    (let (c, cancel_now_sendable) = mark_provisional branch c;
         effects = Respond (pop_via K response)
           # (if is_invite K request then [SetTimer TimerC (Some branch) (effective_timer_c (cx_config c))] else [])
     in if cancel_now_sendable then (set_cancelling branch c, effects @ [CancelBranch branch]) else (c, effects))"

definition on_branch_response ::
  "('u, 'req, 'addr, 'hdr, 'via, 'resp, 'x) message_kernel_scheme \<Rightarrow> mac_kernel \<Rightarrow> ('req, 'resp) response_context
    \<Rightarrow> 'resp \<Rightarrow> branch_id \<Rightarrow> ('req, 'resp) handled" where
  "on_branch_response K M c response branch =
    (case cx_request c of None \<Rightarrow> terminate c | Some request \<Rightarrow>
     if \<not> knows_branch c branch then (c, [])
     else
       let status = resp_status K response in
       if status = 100 then (c, [])
       else if resp_provisional K response then on_provisional K c request response branch
       else if status = 503 then on_branch_failure K M c branch
       else
         let c = conclude_branch branch status c in
         if status div 100 = 2 \<and> is_invite K request then
           let (c, cancels) = cancel_pending (conclude_target_set (c\<lparr>cx_answered := True\<rparr>))
           in (c, Respond (pop_via K response) # cancels)
         else if status div 100 = 6 then
           let c = c\<lparr>cx_finals := cx_finals c @ [response]\<rparr>;
               (c, cancels) = cancel_pending (conclude_target_set (c\<lparr>cx_answered := True\<rparr>));
               (c, ends) = finish_if_settled c
           in (c, Respond (pop_via K response) # cancels @ ends)
         else continue_selection K M (c\<lparr>cx_finals := cx_finals c @ [response]\<rparr>) request)"

text \<open>The loop of \<^verbatim>\<open>on_upstream_cancelled\<close> over the branches pending when it starts.\<close>

fun cancel_each :: "(branch_id \<times> bool) list \<Rightarrow> ('req, 'resp) response_context \<Rightarrow> ('req, 'resp) handled" where
  "cancel_each [] c = (c, [])"
| "cancel_each ((branch, saw_provisional) # pending) c =
    (if saw_provisional
     then let (c, effects) = cancel_each pending (set_cancelling branch c) in (c, CancelBranch branch # effects)
     else cancel_each pending (queue_cancel branch c))"

definition pending_provisionals :: "('req, 'resp) response_context \<Rightarrow> (branch_id \<times> bool) list" where
  "pending_provisionals c =
    List.map_filter (\<lambda>(bid, state, _). case state of Pending saw _ \<Rightarrow> Some (bid, saw) | _ \<Rightarrow> None) (cx_branches c)"

definition on_upstream_cancelled :: "('req, 'resp) response_context \<Rightarrow> ('req, 'resp) handled" where
  "on_upstream_cancelled c =
    (let c = conclude_target_set c;
         (c, effects) = cancel_each (pending_provisionals c) c
     in (c, AnswerCancel # effects))"

definition on_timer_c ::
  "('u, 'req, 'addr, 'hdr, 'via, 'resp, 'x) message_kernel_scheme \<Rightarrow> mac_kernel \<Rightarrow> ('req, 'resp) response_context
    \<Rightarrow> branch_id option \<Rightarrow> ('req, 'resp) handled" where
  "on_timer_c K M c branch =
    (case branch of None \<Rightarrow> (c, []) | Some branch \<Rightarrow>
     case List.find (\<lambda>(bid, _). bid = branch) (pending_provisionals c) of
       Some (_, True) \<Rightarrow> (set_cancelling branch c, [CancelBranch branch])
     | Some (_, False) \<Rightarrow> conclude_as_timeout K M c branch
     | None \<Rightarrow> (c, []))"

definition on_input ::
  "('u, 'req, 'addr, 'hdr, 'via, 'resp, 'x) message_kernel_scheme \<Rightarrow> mac_kernel \<Rightarrow> ('req, 'resp) response_context
    \<Rightarrow> ('req, 'resp) input \<Rightarrow> ('req, 'resp) handled" where
  "on_input K M c input =
    (if cx_finished c then (c, [])
     else case input of
         Upstream request \<Rightarrow> on_upstream K M c request
       | TargetsResolved targets \<Rightarrow> on_targets K M c targets
       | TargetsUnavailable \<Rightarrow> on_targets_unavailable K c
       | BranchResponse response branch \<Rightarrow> on_branch_response K M c response branch
       | BranchTransportError branch \<Rightarrow> on_branch_failure K M c branch
       | TokenFact verdict \<Rightarrow> on_token K M c verdict
       | TokensMinted tokens \<Rightarrow> (c\<lparr>cx_tokens := Some tokens\<rparr>, [])
       | TimerFired TimerC branch \<Rightarrow> on_timer_c K M c branch
       | UpstreamCancelled \<Rightarrow> on_upstream_cancelled c)"

text \<open>Inputs fed in order, and the effects of all of them.\<close>

fun run ::
  "('u, 'req, 'addr, 'hdr, 'via, 'resp, 'x) message_kernel_scheme \<Rightarrow> mac_kernel \<Rightarrow> ('req, 'resp) response_context
    \<Rightarrow> ('req, 'resp) input list \<Rightarrow> ('req, 'resp) handled" where
  "run K M c [] = (c, [])"
| "run K M c (input # inputs) =
    (let (c, effects) = on_input K M c input; (c, more) = run K M c inputs in (c, effects @ more))"

end
