(* ===== verification/Steps.thy ===== *)
theory Steps imports Prelude "HOL-Library.Sublist" Message Proxy Validate Route Forward Context begin

text \<open>
  How one step of the response context can change it: a step is \<open>quiet\<close> (it asks and forwards
  nothing and keeps the branches) or it \<open>forks\<close> the next group of the queue, and which handlers do
  which.  The runs of \<open>Runs\<close> are reasoned about over these two relations only.
\<close>

definition forwards_of :: "('req, 'resp) effect list \<Rightarrow> (branch_id \<times> proxy_target) list" where
  "forwards_of es = List.map_filter (\<lambda>e. case e of Forward branch _ target _ \<Rightarrow> Some (branch, target) | _ \<Rightarrow> None) es"

definition spine :: "('req, 'resp) response_context \<Rightarrow> (branch_id \<times> proxy_target) list" where
  "spine c = map (\<lambda>(bid, _, target). (bid, target)) (cx_branches c)"

lemma forwards_of_simps [simp]:
  "forwards_of [] = []" "forwards_of (es @ es') = forwards_of es @ forwards_of es'"
  "forwards_of (Forward b r t h # es) = (b, t) # forwards_of es"
  "effect_kind e \<noteq> KForward \<Longrightarrow> forwards_of (e # es) = forwards_of es"
  by (simp_all add: forwards_of_def List.map_filter_def) (cases e; simp)+

lemma forwards_of_none: "\<forall>e \<in> set es. effect_kind e \<noteq> KForward \<Longrightarrow> forwards_of es = []"
  by (induction es) simp_all

section \<open>Steps that do not fork\<close>

text \<open>A handler's result that asks nothing and forwards nothing, keeps the branches and what was asked,
  keeps or drops the queue, and never takes an answer back.\<close>

definition quiet :: "('req, 'resp) response_context \<Rightarrow> ('req, 'resp) handled \<Rightarrow> bool" where
  "quiet c h \<longleftrightarrow>
    cx_config (fst h) = cx_config c \<and> cx_request (fst h) = cx_request c \<and> cx_validated (fst h) = cx_validated c
    \<and> cx_awaiting_verdict (fst h) = cx_awaiting_verdict c \<and> spine (fst h) = spine c
    \<and> (cx_queued (fst h) = cx_queued c \<or> cx_queued (fst h) = [])
    \<and> (cx_answered c \<longrightarrow> cx_answered (fst h)) \<and> (cx_finished c \<longrightarrow> cx_finished (fst h))
    \<and> (\<forall>e \<in> set (snd h). effect_kind e \<notin> {KForward, KVerifyToken, KResolveTargets})"

lemma quiet_trans: "quiet c (c1, out1) \<Longrightarrow> quiet c1 (c2, out2) \<Longrightarrow> quiet c (c2, out1 @ out2)"
  by (auto simp: quiet_def)

lemma update_branches_fields [simp]:
  "cx_config (update_branches f c) = cx_config c" "cx_request (update_branches f c) = cx_request c"
  "cx_validated (update_branches f c) = cx_validated c" "cx_awaiting_verdict (update_branches f c) = cx_awaiting_verdict c"
  "cx_queued (update_branches f c) = cx_queued c" "cx_answered (update_branches f c) = cx_answered c"
  "cx_finished (update_branches f c) = cx_finished c" "cx_finals (update_branches f c) = cx_finals c"
  "cx_tokens (update_branches f c) = cx_tokens c" "spine (update_branches f c) = spine c"
  "cx_branches (update_branches f c) = map (\<lambda>(bid, state, target). (bid, f bid state, target)) (cx_branches c)"
  by (auto simp: update_branches_def spine_def)

lemma spine_fields [simp]:
  "spine (c\<lparr>cx_queued := q\<rparr>) = spine c" "spine (c\<lparr>cx_answered := a\<rparr>) = spine c" "spine (c\<lparr>cx_finished := f\<rparr>) = spine c"
  "spine (c\<lparr>cx_finals := fs\<rparr>) = spine c" "spine (c\<lparr>cx_tokens := ts\<rparr>) = spine c" "spine (c\<lparr>cx_awaiting_verdict := w\<rparr>) = spine c"
  "spine (c\<lparr>cx_request := r\<rparr>) = spine c" "spine (c\<lparr>cx_validated := v\<rparr>) = spine c"
  by (simp_all add: spine_def)

lemmas branch_updates = set_cancelling_def queue_cancel_def conclude_branch_def conclude_target_set_def

lemma quiet_terminate: "quiet c (terminate c)"
  by (simp add: terminate_def quiet_def)

lemma quiet_finish: "quiet c (finish_if_settled c)"
  by (simp add: finish_if_settled_def quiet_def)

lemma quiet_cancel_pending: "quiet c (cancel_pending c)"
  by (auto simp: cancel_pending_def Let_def quiet_def)

lemma quiet_respond: "quiet c (respond_and_finish K c request status reason)"
  by (auto simp: respond_and_finish_def Let_def quiet_def split: option.split)

lemma quiet_refuse: "quiet c (refuse K c request refusal)"
  by (auto simp: refuse_def Let_def quiet_def split: option.split)

lemma quiet_select: "quiet c (select_and_answer K c request)"
proof -
  obtain c1 cancels where cp: "cancel_pending (c\<lparr>cx_answered := True\<rparr>) = (c1, cancels)" by (rule prod.exhaust)
  obtain c2 ends where fi: "finish_if_settled c1 = (c2, ends)" by (rule prod.exhaust)
  have "quiet (c\<lparr>cx_answered := True\<rparr>) (c2, cancels @ ends)"
    using quiet_cancel_pending [of "c\<lparr>cx_answered := True\<rparr>"] quiet_finish [of c1] cp fi by (metis quiet_trans)
  then have "quiet c (c2, Respond response # cancels @ ends)" for response by (auto simp: quiet_def)
  with quiet_finish [of c] quiet_respond [of c] cp fi show ?thesis
    by (auto simp: select_and_answer_def split: option.split)
qed

lemma quiet_provisional: "quiet c (on_provisional K c request response branch)"
  by (auto simp: on_provisional_def mark_provisional_def Let_def set_cancelling_def quiet_def)

lemma quiet_cancel_each: "quiet c (cancel_each pending c)"
proof (induction pending c rule: cancel_each.induct)
  case (2 branch saw pending c)
  obtain c1 es where s: "cancel_each pending (set_cancelling branch c) = (c1, es)" by (rule prod.exhaust)
  show ?case
    using 2 s by (auto simp: quiet_def set_cancelling_def queue_cancel_def)
qed (simp add: quiet_def)

lemma quiet_cancelled: "quiet c (on_upstream_cancelled c)"
proof -
  obtain c1 es where s: "cancel_each (pending_provisionals (conclude_target_set c)) (conclude_target_set c) = (c1, es)"
    by (rule prod.exhaust)
  then show ?thesis
    using quiet_cancel_each [of "conclude_target_set c" "pending_provisionals (conclude_target_set c)"]
    by (auto simp: on_upstream_cancelled_def quiet_def conclude_target_set_def)
qed

section \<open>Steps that fork\<close>

lemma launch_spec:
  "launch K M config request validated par tokens index targets = (effects, branches) \<Longrightarrow>
    forwards_of effects = map (\<lambda>(bid, _, target). (bid, target)) branches
    \<and> subseq (map (\<lambda>(_, _, target). target) branches) targets
    \<and> (\<forall>b \<in> set branches. fst (snd b) = Pending False False)
    \<and> (\<forall>e \<in> set effects. effect_kind e \<in> {KForward, KSetTimer})
    \<and> length branches \<le> length targets"
proof (induction targets arbitrary: index effects branches)
  case (Cons target targets)
  obtain es bs where rest: "launch K M config request validated par tokens (Suc index) targets = (es, bs)"
    by (rule prod.exhaust)
  from Cons.IH [OF rest] Cons.prems rest show ?case
    by (auto simp: Let_def split: sum.splits if_splits prod.splits)
qed simp

lemma group_size_bounds: "queued \<noteq> [] \<Longrightarrow> 0 < group_size max_breadth queued \<and> group_size max_breadth queued \<le> length queued"
  by (cases queued) (auto simp: group_size_def Let_def min_def dest: position_less split: option.splits)

lemma group_same_q: "t \<in> set (take (group_size max_breadth queued) queued) \<Longrightarrow> pt_q t = pt_q (hd queued)"
proof (cases queued)
  case (Cons u us)
  assume t: "t \<in> set (take (group_size max_breadth queued) queued)"
  then obtain i where i: "i < group_size max_breadth queued" "t = queued ! i"
    by (auto simp: in_set_conv_nth)
  show ?thesis
  proof (cases "position (\<lambda>t. pt_q t \<noteq> pt_q u) queued")
    case None
    moreover have "t \<in> set queued" using t by (rule in_set_takeD)
    ultimately show ?thesis using Cons by (auto simp: position_None simp del: position.simps)
  next
    case (Some k)
    then have "i < k" using i(1) Cons by (simp add: group_size_def Let_def del: position.simps)
    with position_SomeD [OF Some] i(2) Cons show ?thesis by auto
  qed
qed simp

text \<open>A fork keeps what was asked, appends branches for a subsequence of the next group, each announced by
  one \<^verbatim>\<open>Forward\<close> in order, and shortens the queue by the whole group.\<close>

definition forks :: "('req, 'resp) response_context \<Rightarrow> ('req, 'resp) handled \<Rightarrow> bool" where
  "forks c h \<longleftrightarrow>
    cx_config (fst h) = cx_config c \<and> cx_request (fst h) = cx_request c \<and> cx_validated (fst h) = cx_validated c
    \<and> cx_awaiting_verdict (fst h) = cx_awaiting_verdict c
    \<and> (cx_answered c \<longrightarrow> cx_answered (fst h)) \<and> (cx_finished c \<longrightarrow> cx_finished (fst h))
    \<and> (\<forall>e \<in> set (snd h). effect_kind e \<notin> {KVerifyToken, KResolveTargets})
    \<and> (\<exists>validated new n. cx_validated c = Some validated \<and> n = group_size (va_max_breadth validated) (cx_queued c)
        \<and> cx_queued c \<noteq> [] \<and> cx_branches (fst h) = cx_branches c @ new
        \<and> forwards_of (snd h) = map (\<lambda>(bid, _, target). (bid, target)) new
        \<and> subseq (map (\<lambda>(_, _, target). target) new) (take n (cx_queued c)) \<and> cx_queued (fst h) = drop n (cx_queued c)
        \<and> (\<forall>b \<in> set new. fst (snd b) = Pending False False))"

lemma fork_cases:
  obtains (quiet) "quiet c (fork_next_group K M c)" "cx_finished (fst (fork_next_group K M c)) \<or> cx_queued c = []"
  | (forks) "forks c (fork_next_group K M c)"
proof (cases "cx_request c")
  case None
  then show thesis by (intro that(1)) (simp_all add: fork_next_group_def quiet_terminate, simp add: terminate_def)
next
  case (Some request)
  show thesis
  proof (cases "cx_validated c")
    case None
    then show thesis using Some by (intro that(1)) (simp_all add: fork_next_group_def quiet_terminate, simp add: terminate_def)
  next
    case v: (Some validated)
    show thesis
    proof (cases "cx_queued c = []")
      case True
      then show thesis using Some v by (intro that(1)) (simp_all add: fork_next_group_def quiet_def)
    next
      case False
      let ?n = "group_size (va_max_breadth validated) (cx_queued c)"
      let ?group = "take ?n (cx_queued c)"
      obtain es new where l: "launch K M (cx_config c) request validated (u32_of_usize (length ?group)) (cx_tokens c)
          (length (cx_branches c)) ?group = (es, new)" by (rule prod.exhaust)
      note spec = launch_spec [OF l]
      let ?c = "c\<lparr>cx_queued := drop ?n (cx_queued c), cx_branches := cx_branches c @ new\<rparr>"
      have fork: "fork_next_group K M c = (if cx_branches ?c = [] \<and> cx_queued ?c = []
          then respond_and_finish K ?c request 480 ''Temporarily Unavailable'' else (?c, es))"
        using Some v False l by (simp add: fork_next_group_def Let_def)
      show thesis
      proof (cases "cx_branches ?c = [] \<and> cx_queued ?c = []")
        case True
        then have "quiet c (fork_next_group K M c)"
          using fork quiet_respond [of ?c K request 480 "''Temporarily Unavailable''"] by (auto simp: quiet_def spine_def)
        moreover have "cx_finished (fst (fork_next_group K M c))"
          using fork True by (simp add: respond_and_finish_def Let_def split: option.split)
        ultimately show thesis by (intro that(1)) simp_all
      next
        case proper: False
        have "forks c (fork_next_group K M c)"
          using fork proper spec v False by (auto simp: forks_def)
        then show thesis by (rule that(2))
      qed
    qed
  qed
qed

lemma forks_spine:
  assumes "forks c h"
  shows "spine (fst h) = spine c @ forwards_of (snd h)"
    and "subseq (map snd (forwards_of (snd h)) @ cx_queued (fst h)) (cx_queued c)"
proof -
  from assms obtain new n where n: "cx_branches (fst h) = cx_branches c @ new" 
    "forwards_of (snd h) = map (\<lambda>(bid, _, target). (bid, target)) new"
    "subseq (map (\<lambda>(_, _, target). target) new) (take n (cx_queued c))" "cx_queued (fst h) = drop n (cx_queued c)"
    unfolding forks_def by blast
  then show "spine (fst h) = spine c @ forwards_of (snd h)" by (simp add: spine_def)
  have "map snd (forwards_of (snd h)) = map (\<lambda>(_, _, target). target) new"
    by (simp add: n(2) o_def split_def)
  then show "subseq (map snd (forwards_of (snd h)) @ cx_queued (fst h)) (cx_queued c)"
    using list_emb_append_mono [OF n(3) subseq_order.order_refl [of "drop n (cx_queued c)"]] by (simp add: n(4))
qed

section \<open>Which handler does which\<close>

lemma continue_cases:
  obtains (quiet) "quiet c (continue_selection K M c request)"
  | (forks) "\<not> has_pending c" "may_fork_next_group c" "forks c (continue_selection K M c request)"
proof (cases "has_pending c")
  case True
  then show thesis by (intro that(1)) (simp add: continue_selection_def quiet_def)
next
  case np: False
  show thesis
  proof (cases "may_fork_next_group c")
    case True
    with np have "continue_selection K M c request = fork_next_group K M c" by (simp add: continue_selection_def)
    then show thesis using that np True by (cases rule: fork_cases [of c K M]) simp_all
  next
    case False
    with np show thesis by (intro that(1)) (simp add: continue_selection_def quiet_select)
  qed
qed

text \<open>Quiet, or quiet up to a context with nothing outstanding that forks.\<close>

definition quiet_or_forks :: "('req, 'resp) response_context \<Rightarrow> ('req, 'resp) handled \<Rightarrow> bool" where
  "quiet_or_forks c h \<longleftrightarrow>
    quiet c h \<or> (\<exists>c1. quiet c (c1, []) \<and> \<not> has_pending c1 \<and> may_fork_next_group c1 \<and> forks c1 h)"

lemma quiet_then_continue: "quiet c (c1, []) \<Longrightarrow> quiet_or_forks c (continue_selection K M c1 request)"
  by (cases rule: continue_cases [of c1 K M request])
    (use quiet_trans [of c c1 "[]" "fst (continue_selection K M c1 request)" "snd (continue_selection K M c1 request)"]
      in \<open>auto simp: quiet_or_forks_def\<close>)

lemma quiet_or_forks_quiet: "quiet c h \<Longrightarrow> quiet_or_forks c h"
  by (simp add: quiet_or_forks_def)

lemma quiet_concluded:
  "quiet c (case response of
      None \<Rightarrow> conclude_branch branch status c
    | Some response \<Rightarrow> (conclude_branch branch status c)\<lparr>cx_finals := cx_finals (conclude_branch branch status c) @ [response]\<rparr>, [])"
  by (simp add: quiet_def conclude_branch_def split: option.split)

lemma failure_steps: "quiet_or_forks c (on_branch_failure K M c branch)"
proof (cases "cx_request c")
  case None
  then show ?thesis by (simp add: on_branch_failure_def quiet_or_forks_quiet quiet_terminate)
next
  case (Some request)
  show ?thesis
  proof (cases "knows_branch c branch")
    case True
    with Some show ?thesis
      unfolding on_branch_failure_def Let_def by (simp only: option.case if_True simp_thms if_False)
        (rule quiet_then_continue [OF quiet_concluded])
  qed (simp add: Some on_branch_failure_def quiet_or_forks_def quiet_def)
qed

lemma timeout_steps: "quiet_or_forks c (conclude_as_timeout K M c branch)"
proof (cases "cx_request c")
  case None
  then show ?thesis by (simp add: conclude_as_timeout_def quiet_or_forks_quiet quiet_terminate)
next
  case (Some request)
  then show ?thesis
    unfolding conclude_as_timeout_def Let_def by (simp only: option.case)
      (rule quiet_then_continue [OF quiet_concluded])
qed

lemma quiet_accepted:
  assumes "cancel_pending (conclude_target_set (c1\<lparr>cx_answered := True\<rparr>)) = (c2, cancels)" "quiet c (c1, [])"
  shows "quiet c (c2, Respond response # cancels)"
proof -
  have "quiet c (conclude_target_set (c1\<lparr>cx_answered := True\<rparr>), [])"
    using assms(2) by (simp add: quiet_def conclude_target_set_def)
  with quiet_cancel_pending [of "conclude_target_set (c1\<lparr>cx_answered := True\<rparr>)"] assms(1)
  have "quiet c (c2, [] @ cancels)" by (metis quiet_trans)
  then show ?thesis by (simp add: quiet_def)
qed

lemma response_steps: "quiet_or_forks c (on_branch_response K M c response branch)"
proof (cases "cx_request c")
  case None
  then show ?thesis by (simp add: on_branch_response_def quiet_or_forks_quiet quiet_terminate)
next
  case (Some request)
  let ?status = "resp_status K response"
  consider "\<not> knows_branch c branch \<or> ?status = 100" | "knows_branch c branch" "?status \<noteq> 100" "resp_provisional K response"
    | "knows_branch c branch" "?status \<noteq> 100" "\<not> resp_provisional K response" "?status = 503"
    | "knows_branch c branch" "?status \<noteq> 100" "\<not> resp_provisional K response" "?status \<noteq> 503" by blast
  then show ?thesis
  proof cases
    case 1
    then show ?thesis using Some by (auto simp: on_branch_response_def quiet_or_forks_def quiet_def)
  next
    case 2
    with Some show ?thesis by (simp add: on_branch_response_def quiet_or_forks_quiet quiet_provisional)
  next
    case 3
    with Some show ?thesis by (simp add: on_branch_response_def failure_steps)
  next
    case 4
    let ?c = "conclude_branch branch ?status c"
    have q: "quiet c (?c, [])" "quiet c (?c\<lparr>cx_finals := cx_finals ?c @ [response]\<rparr>, [])"
      using quiet_concluded [of c branch ?status None] quiet_concluded [of c branch ?status "Some response"] by simp_all
    obtain c2 cancels where p2: "cancel_pending (conclude_target_set (?c\<lparr>cx_answered := True\<rparr>)) = (c2, cancels)"
      by (rule prod.exhaust)
    obtain c6 cancels6 where p6: "cancel_pending (conclude_target_set ((?c\<lparr>cx_finals := cx_finals ?c @ [response]\<rparr>)\<lparr>cx_answered := True\<rparr>))
        = (c6, cancels6)" by (rule prod.exhaust)
    obtain c7 ends where f6: "finish_if_settled c6 = (c7, ends)" by (rule prod.exhaust)
    have "quiet c (c7, (Respond (pop_via K response) # cancels6) @ ends)"
      using quiet_trans [OF quiet_accepted [OF p6 q(2)]] quiet_finish [of c6] f6 by metis
    then show ?thesis
      using 4 Some p2 p6 f6 quiet_accepted [OF p2 q(1), of "pop_via K response"] quiet_then_continue [OF q(2), of K M request]
      by (simp add: on_branch_response_def Let_def quiet_or_forks_quiet)
  qed
qed

lemma timer_steps: "quiet_or_forks c (on_timer_c K M c branch)"
proof -
  have "quiet c (set_cancelling b c, [CancelBranch b])" "quiet c (c, [])" for b
    by (simp_all add: quiet_def set_cancelling_def)
  then show ?thesis
    by (auto simp: on_timer_c_def intro: quiet_or_forks_quiet timeout_steps split: option.split bool.split)
qed

lemma targets_steps:
  "quiet c (on_targets K M c targets)
    \<or> targets \<noteq> [] \<and> forks (c\<lparr>cx_queued := sort_by (\<lambda>a b. pt_q b \<le> pt_q a) targets\<rparr>) (on_targets K M c targets)
    \<or> targets \<noteq> [] \<and> quiet (c\<lparr>cx_queued := sort_by (\<lambda>a b. pt_q b \<le> pt_q a) targets\<rparr>) (on_targets K M c targets)"
proof (cases "cx_request c")
  case None
  then show ?thesis by (simp add: on_targets_def quiet_terminate)
next
  case (Some request)
  then show ?thesis
    by (cases rule: fork_cases [of "c\<lparr>cx_queued := sort_by (\<lambda>a b. pt_q b \<le> pt_q a) targets\<rparr>" K M])
      (simp_all add: on_targets_def quiet_respond)
qed

end
