(* ===== verification/Runs.thy ===== *)
theory Runs imports Prelude Message Proxy Validate Route Forward Context Steps begin

text \<open>
  What every run of the response context guarantees, under the protocol the contract of
  \<^verbatim>\<open>types.rs\<close> gives its driver: the request arrives once, and a question the context asks
  (verify a token, resolve targets) is answered at most once and only when it was asked.  The step
  relation carries the effects performed so far, so that the theorems speak of the order of effects and
  not only of states.
\<close>

section \<open>Driven runs\<close>

datatype phase = Arriving | Verifying | Resolving | Routed

fun answers :: "phase \<Rightarrow> ('req, 'resp) input \<Rightarrow> bool" where
  "answers p (Upstream _) = (p = Arriving)"
| "answers p (TokensMinted _) = (p = Arriving)"
| "answers p (TokenFact _) = (p = Verifying)"
| "answers p (TargetsResolved _) = (p = Resolving)"
| "answers p TargetsUnavailable = (p = Resolving)"
| "answers p _ = True"

fun settles_question :: "('req, 'resp) input \<Rightarrow> bool" where
  "settles_question (Upstream _) = True"
| "settles_question (TokenFact _) = True"
| "settles_question (TargetsResolved _) = True"
| "settles_question TargetsUnavailable = True"
| "settles_question _ = False"

definition next_phase :: "phase \<Rightarrow> ('req, 'resp) input \<Rightarrow> ('req, 'resp) effect list \<Rightarrow> phase" where
  "next_phase p input out =
    (if list_ex (\<lambda>e. effect_kind e = KVerifyToken) out then Verifying
     else if list_ex (\<lambda>e. effect_kind e = KResolveTargets) out then Resolving
     else if settles_question input then Routed else p)"

inductive driven ::
  "('u, 'req, 'addr, 'hdr, 'via, 'resp, 'x) message_kernel_scheme \<Rightarrow> mac_kernel \<Rightarrow> proxy_config
    \<Rightarrow> phase \<Rightarrow> ('req, 'resp) response_context \<Rightarrow> ('req, 'resp) effect list \<Rightarrow> bool"
  for K M config where
  created: "driven K M config Arriving (context_new config) []"
| fed: "driven K M config p c es \<Longrightarrow> answers p input \<Longrightarrow> on_input K M c input = (c', out) \<Longrightarrow>
    driven K M config (next_phase p input out) c' (es @ out)"

inductive_cases drivenE: "driven K M config p c es"

section \<open>The invariant of every run\<close>

abbreviation prefers :: "proxy_target \<Rightarrow> proxy_target \<Rightarrow> bool" where
  "prefers a b \<equiv> pt_q b \<le> pt_q a"

definition run_inv ::
  "proxy_config \<Rightarrow> phase \<Rightarrow> ('req, 'resp) response_context \<Rightarrow> ('req, 'resp) effect list \<Rightarrow> bool" where
  "run_inv config p c es \<longleftrightarrow>
    cx_config c = config \<and> spine c = forwards_of es
    \<and> sorted_wrt prefers (map snd (forwards_of es) @ cx_queued c)
    \<and> (p \<noteq> Routed \<longrightarrow> cx_branches c = [] \<and> cx_queued c = [] \<and> \<not> cx_answered c)
    \<and> (\<not> cx_finished c \<longrightarrow> cx_awaiting_verdict c = (p = Verifying)
        \<and> (p \<noteq> Arriving \<longrightarrow> cx_request c \<noteq> None \<and> cx_validated c \<noteq> None))
    \<and> (p = Arriving \<longrightarrow> cx_request c = None)"

lemma sorted_wrt_subseq: "subseq xs ys \<Longrightarrow> sorted_wrt P ys \<Longrightarrow> sorted_wrt P xs"
proof (induction rule: list_emb.induct)
  case (list_emb_Cons2 x y xs ys)
  then show ?case using list_emb_set [of "(=)" xs ys] by fastforce
qed simp_all

lemma quiet_no_forwards: "quiet c h \<Longrightarrow> forwards_of (snd h) = []"
  by (rule forwards_of_none) (auto simp: quiet_def)

lemma inv_quiet:
  assumes "run_inv config p c es" "quiet c h" "cx_finished (fst h) \<or> \<not> cx_awaiting_verdict c \<and> p \<noteq> Arriving"
  shows "run_inv config Routed (fst h) (es @ snd h)"
proof -
  have "sorted_wrt prefers (map snd (forwards_of es) @ cx_queued (fst h))"
    using assms(1,2) by (auto simp: run_inv_def quiet_def sorted_wrt_append)
  then show ?thesis
    using assms quiet_no_forwards [OF assms(2)] by (auto simp: run_inv_def quiet_def)
qed

lemma inv_forks:
  assumes "run_inv config p c es" "forks c h" "cx_finished (fst h) \<or> \<not> cx_awaiting_verdict c \<and> p \<noteq> Arriving"
  shows "run_inv config Routed (fst h) (es @ snd h)"
proof -
  have "subseq (map snd (forwards_of es) @ map snd (forwards_of (snd h)) @ cx_queued (fst h))
      (map snd (forwards_of es) @ cx_queued c)"
    using forks_spine(2) [OF assms(2)] by (simp add: list_emb_append_mono)
  then have "sorted_wrt prefers (map snd (forwards_of (es @ snd h)) @ cx_queued (fst h))"
    using assms(1) by (auto simp: run_inv_def dest: sorted_wrt_subseq)
  then show ?thesis
    using assms forks_spine(1) [OF assms(2)] by (auto simp: run_inv_def forks_def)
qed

lemma inv_steps:
  assumes "run_inv config Routed c es" "quiet_or_forks c h" "cx_finished (fst h) \<or> \<not> cx_awaiting_verdict c"
  shows "run_inv config Routed (fst h) (es @ snd h)"
  using assms(2) unfolding quiet_or_forks_def
proof (elim disjE exE conjE)
  assume "quiet c h"
  then show ?thesis using inv_quiet [OF assms(1)] assms(3) by blast
next
  fix c1 assume c1: "quiet c (c1, [])" and f: "forks c1 h"
  have "cx_awaiting_verdict c1 = cx_awaiting_verdict c" "cx_finished c1 \<longrightarrow> cx_finished (fst h)"
    using c1 f by (auto simp: quiet_def forks_def)
  moreover have "run_inv config Routed c1 es"
    using inv_quiet [OF assms(1) c1] assms(1) c1 by (auto simp: quiet_def run_inv_def sorted_wrt_append)
  ultimately show ?thesis using inv_forks [OF _ f] assms(3) by blast
qed

lemma inv_targets:
  assumes "run_inv config Resolving c es" "\<not> cx_finished c"
  shows "run_inv config Routed (fst (on_targets K M c targets)) (es @ snd (on_targets K M c targets))"
proof -
  let ?c = "c\<lparr>cx_queued := sort_by prefers targets\<rparr>"
  have "sorted_wrt prefers (sort_by prefers targets)" by (rule sorted_sort_by) auto
  moreover have "spine c = []" using assms(1) by (simp add: run_inv_def spine_def)
  then have "forwards_of es = []" using assms(1) by (simp add: run_inv_def)
  ultimately have c: "run_inv config Routed ?c es" using assms by (auto simp: run_inv_def)
  have w: "\<not> cx_awaiting_verdict c" using assms by (simp add: run_inv_def)
  from targets_steps [of c K M targets] show ?thesis
    by (elim disjE conjE) (intro inv_quiet [OF assms(1)] inv_forks [OF c] inv_quiet [OF c]; simp add: w)+
qed

lemma no_questions:
  assumes "\<forall>e \<in> set out. effect_kind e \<notin> {KVerifyToken, KResolveTargets}"
  shows "next_phase p input out = (if settles_question input then Routed else p)"
  using assms by (auto simp: next_phase_def list_ex_iff)

lemma quiet_questions: "quiet c h \<Longrightarrow> \<forall>e \<in> set (snd h). effect_kind e \<notin> {KVerifyToken, KResolveTargets}"
  by (auto simp: quiet_def)

lemma forks_questions: "forks c h \<Longrightarrow> \<forall>e \<in> set (snd h). effect_kind e \<notin> {KVerifyToken, KResolveTargets}"
  by (auto simp: forks_def)

lemma targets_questions:
  "\<forall>e \<in> set (snd (on_targets K M c targets)). effect_kind e \<notin> {KVerifyToken, KResolveTargets}"
  using targets_steps [of c K M targets] quiet_questions forks_questions by blast

lemma inv_route_it:
  assumes "run_inv config Resolving c es" "\<not> cx_finished c" "settles_question input" "route_it K M c = (c', out)"
  shows "run_inv config (next_phase q input out) c' (es @ out)"
proof -
  from assms(1,2) obtain request where r: "cx_request c = Some request" by (auto simp: run_inv_def)
  show ?thesis
  proof (cases "is_in_dialog K request \<or> route_set_survived K request")
    case True
    with r assms(4) have t: "on_targets K M c [predetermined_target K request] = (c', out)"
      by (auto simp: route_it_def split: if_splits)
    then have "next_phase q input out = Routed"
      using no_questions [of out q input] targets_questions [of K M c "[predetermined_target K request]"] assms(3) by auto
    with inv_targets [OF assms(1,2), of K M "[predetermined_target K request]"] t show ?thesis by simp
  next
    case False
    with r assms(4) have "c' = c" "out = [ResolveTargets (aor_query K request)]" by (auto simp: route_it_def)
    then show ?thesis using assms(1,3) by (simp add: next_phase_def run_inv_def sorted_wrt_append)
  qed
qed

lemma idle_steps:
  assumes "cx_branches c = []"
  shows "on_branch_failure K M c b \<in> {terminate c, (c, [])}" "on_branch_response K M c response b \<in> {terminate c, (c, [])}"
    "on_timer_c K M c bo = (c, [])" "on_upstream_cancelled c = (c\<lparr>cx_queued := []\<rparr>, [AnswerCancel])"
  using assms
  by (auto simp: on_branch_failure_def on_branch_response_def on_timer_c_def on_upstream_cancelled_def knows_branch_def
      pending_provisionals_def conclude_target_set_def List.map_filter_def split: option.split)

lemma inv_upstream:
  assumes "run_inv config Arriving c es" "\<not> cx_finished c" "on_upstream K M c request = (c', out)"
  shows "run_inv config (next_phase Arriving (Upstream request) out) c' (es @ out)"
proof (cases "validate K M request (cx_config c)")
  case (Inl refusal)
  with assms(3) have h: "refuse K c request refusal = (c', out)" by (simp add: on_upstream_def)
  have q: "quiet c (c', out)" using quiet_refuse [of c K request refusal] h by simp
  moreover have "cx_finished c'" using h by (auto simp: refuse_def Let_def split: option.splits)
  ultimately show ?thesis
    using inv_quiet [OF assms(1) q] no_questions [of out] quiet_questions [OF q] by simp
next
  case (Inr v)
  obtain request' carriage where p: "preprocess K request (cx_config c) = (request', carriage)" by (rule prod.exhaust)
  let ?c = "c\<lparr>cx_request := Some request', cx_validated := Some v\<rparr>"
  have c: "run_inv config Resolving ?c es" using assms(1,2) by (simp add: run_inv_def sorted_wrt_append)
  show ?thesis
  proof (cases carriage)
    case None
    with Inr p assms(3) have "route_it K M ?c = (c', out)" by (simp add: on_upstream_def)
    then show ?thesis using assms(2) by (intro inv_route_it [OF c]) simp_all
  next
    case (Some carried)
    with Inr p assms(3) have "c' = ?c\<lparr>cx_awaiting_verdict := True\<rparr>" "out = [VerifyToken (tc_token carried) (tc_partner carried)]"
      by (auto simp: on_upstream_def)
    then show ?thesis using c by (simp add: next_phase_def run_inv_def sorted_wrt_append)
  qed
qed

lemma inv_token:
  assumes "run_inv config Verifying c es" "\<not> cx_finished c" "on_token K M c verdict = (c', out)"
  shows "run_inv config (next_phase Verifying (TokenFact verdict) out) c' (es @ out)"
proof -
  let ?c = "c\<lparr>cx_awaiting_verdict := False\<rparr>"
  have c: "run_inv config Resolving ?c es" and w: "cx_awaiting_verdict c" using assms(1,2) by (simp_all add: run_inv_def sorted_wrt_append)
  show ?thesis
  proof (cases verdict)
    case (ValidToken tenant)
    with w assms(3) have "route_it K M ?c = (c', out)" by (simp add: on_token_def)
    then show ?thesis using assms(2) by (intro inv_route_it [OF c]) simp_all
  next
    case InvalidToken
    with w assms(3) have h: "reject_token K ?c = (c', out)" by (simp add: on_token_def)
    have q: "quiet ?c (c', out)"
      using h quiet_respond [of ?c K _ 403 "''Forbidden''"] quiet_terminate [of ?c]
      by (auto simp: reject_token_def split: option.splits) (metis)
    show ?thesis
      using inv_quiet [OF c q] no_questions [of out] quiet_questions [OF q] by simp
  qed
qed

lemma inv_unavailable:
  assumes "run_inv config Resolving c es" "\<not> cx_finished c" "on_targets_unavailable K c = (c', out)"
  shows "run_inv config (next_phase p TargetsUnavailable out) c' (es @ out)"
proof -
  have q: "quiet c (c', out)"
    using assms(3) quiet_respond [of c K _ 503 "''Service Unavailable''"] quiet_terminate [of c]
    by (auto simp: on_targets_unavailable_def split: option.splits) (metis)
  show ?thesis
    using inv_quiet [OF assms(1) q] no_questions [of out] quiet_questions [OF q] assms(1,2) by (auto simp: run_inv_def)
qed

lemma inv_step:
  assumes inv: "run_inv config p c es" and legal: "answers p input" and step: "on_input K M c input = (c', out)"
  shows "run_inv config (next_phase p input out) c' (es @ out)"
proof (cases "cx_finished c")
  case True
  with step have "c' = c" "out = []" by (simp_all add: on_input_def)
  with inv True show ?thesis by (auto simp: next_phase_def run_inv_def)
next
  case live: False
  have branch_input: ?thesis
    if h: "quiet_or_forks c (c', out)" "p \<noteq> Routed \<Longrightarrow> c' \<in> {c, fst (terminate c), c\<lparr>cx_queued := []\<rparr>} \<and> set out \<subseteq> {Terminate, AnswerCancel}"
      "\<not> settles_question input"
  proof -
    have q: "\<forall>e \<in> set out. effect_kind e \<notin> {KVerifyToken, KResolveTargets}"
      using h(1) quiet_questions [of _ "(c', out)"] forks_questions [of _ "(c', out)"] unfolding quiet_or_forks_def by auto
    then have np: "next_phase p input out = p" using no_questions [of out p input] h(3) by simp
    show ?thesis
    proof (cases "p = Routed")
      case True
      with inv live have "\<not> cx_awaiting_verdict c" by (simp add: run_inv_def)
      with inv_steps [of config c es "(c', out)"] inv h(1) True np show ?thesis by simp
    next
      case False
      have "forwards_of out = []" using h(2) [OF False] by (intro forwards_of_none) auto
      with h(2) [OF False] inv live False np show ?thesis by (auto simp: run_inv_def terminate_def)
    qed
  qed
  have idle: "cx_branches c = []" if "p \<noteq> Routed" using inv that by (simp add: run_inv_def)
  note live_input = step [unfolded on_input_def, simplified live if_False]
  show ?thesis
  proof (cases input)
    case (Upstream request)
    with inv_upstream [of config c es K M request c' out] inv live legal live_input show ?thesis by simp
  next
    case (BranchResponse response b)
    with live_input have h: "on_branch_response K M c response b = (c', out)" by simp
    show ?thesis
      by (rule branch_input)
        (use response_steps [of c K M response b] idle_steps(2) [of c K M response b] idle h BranchResponse
          in \<open>auto simp: terminate_def\<close>)
  next
    case (BranchTransportError b)
    with live_input have h: "on_branch_failure K M c b = (c', out)" by simp
    show ?thesis
      by (rule branch_input)
        (use failure_steps [of c K M b] idle_steps(1) [of c K M b] idle h BranchTransportError in \<open>auto simp: terminate_def\<close>)
  next
    case (TargetsResolved targets)
    with legal inv live_input have p: "run_inv config Resolving c es" and h: "on_targets K M c targets = (c', out)" by simp_all
    have "next_phase p input out = Routed"
      using no_questions [of out p input] targets_questions [of K M c targets] TargetsResolved h by simp
    with inv_targets [OF p live, of K M targets] h show ?thesis by simp
  next
    case TargetsUnavailable
    with inv_unavailable [of config c es K c' out p] inv live legal live_input show ?thesis by simp
  next
    case (TokenFact verdict)
    with inv_token [of config c es K M verdict c' out] inv live legal live_input show ?thesis by simp
  next
    case (TokensMinted tokens)
    with live_input have "c' = c\<lparr>cx_tokens := Some tokens\<rparr>" "out = []" by simp_all
    with inv TokensMinted show ?thesis by (simp add: next_phase_def run_inv_def)
  next
    case (TimerFired timer b)
    with live_input have h: "on_timer_c K M c b = (c', out)" by (cases timer) simp
    show ?thesis
      by (rule branch_input)
        (use timer_steps [of c K M b] idle_steps(3) [of c K M b] idle h TimerFired in \<open>auto simp: terminate_def\<close>)
  next
    case UpstreamCancelled
    with live_input have h: "on_upstream_cancelled c = (c', out)" by simp
    show ?thesis
      by (rule branch_input)
        (use quiet_cancelled [of c] idle_steps(4) [of c] idle h UpstreamCancelled in \<open>auto simp: quiet_or_forks_def\<close>)
  qed
qed

theorem driven_inv: "driven K M config p c es \<Longrightarrow> run_inv config p c es"
proof (induction rule: driven.induct)
  case created
  show ?case by (simp add: run_inv_def context_new_def spine_def)
next
  case (fed p c es input c' out)
  then show ?case by (intro inv_step)
qed

end
