(* ===== verification/Scenario.thy ===== *)
theory Scenario imports Prelude Message Proxy Cookie Sample Validate Route Forward Context Steps Runs begin

text \<open>
  Concrete runs of the response context over the text kernel of \<open>Sample\<close>: an INVITE forked to two
  targets of different preference, and one whose route carries a token.  The properties' witnesses are
  evaluated on these.
\<close>

definition scene_invite :: text_message where
  "scene_invite = sample_invite [(Via, ''SIP/2.0/UDP a.example'')]"

definition scene_target :: "u16 \<Rightarrow> proxy_target" where
  "scene_target q = \<lparr>pt_uri = ''sip:bob@b.example'', pt_route_set = [''sip:p1.example''], pt_q = q\<rparr>"

definition scene_response :: "u16 \<Rightarrow> text_message" where
  "scene_response status = \<lparr>tm_method = ''INVITE'', tm_uri = [], tm_status = status, tm_headers = []\<rparr>"

lemma scene_response_simps [simp]: "tm_status (scene_response s) = s" "tm_method (scene_response s) = ''INVITE''"
  by (simp_all add: scene_response_def)

lemma scene_dialog: "\<not> is_in_dialog sample_kernel scene_invite" "is_invite sample_kernel scene_invite"
  "\<not> route_set_survived sample_kernel scene_invite"
  by (simp_all add: is_in_dialog_def is_invite_def route_set_survived_def scene_invite_def sample_invite_def sample_tags)

definition scene_validated :: validated where
  "scene_validated = \<lparr>va_max_forwards = 70, va_max_breadth = 60,
     va_cookie_input = cookie_input_from sample_kernel scene_invite\<rparr>"

definition scene_resolving :: "(text_message, text_message) response_context" where
  "scene_resolving = (context_new sample_config)\<lparr>cx_request := Some scene_invite, cx_validated := Some scene_validated\<rparr>"

lemma scene_upstream:
  "on_input sample_kernel plain_mac (context_new sample_config) (Upstream scene_invite)
    = (scene_resolving, [ResolveTargets (aor_query sample_kernel scene_invite)])"
  using sample_validated sample_preprocess scene_dialog
  by (simp add: on_input_def on_upstream_def scene_invite_def [symmetric] route_it_def scene_resolving_def scene_validated_def
      context_new_def)

lemma scene_resolves: "driven sample_kernel plain_mac sample_config Resolving scene_resolving
    [ResolveTargets (aor_query sample_kernel scene_invite)]"
  using driven.fed [OF driven.created _ scene_upstream] by (simp add: next_phase_def)

lemma scene_forward:
  "\<exists>branch r' hop. forward sample_kernel plain_mac \<lparr>fp_original = scene_invite, fp_validated = v, fp_target = scene_target q,
     fp_index = i, fp_parallel_branches = n, fp_record_route = b, fp_tokens = None\<rparr> sample_config = Inr (branch, r', hop)"
  by (simp add: forward_def Let_def scene_invite_def scene_target_def and_then_def record_route_values_def split: prod.split)

text \<open>The request, forked to its first target with the second still queued.\<close>

definition scene_routed :: "branch_id \<Rightarrow> branch_state \<Rightarrow> (text_message, text_message) response_context" where
  "scene_routed b state = scene_resolving\<lparr>cx_queued := [scene_target 500], cx_branches := [(b, state, scene_target 1000)]\<rparr>"

lemma scene_group: "group_size 60 [scene_target 1000, scene_target 500] = 1"
  by (simp add: group_size_def scene_target_def Let_def)

lemma scene_forks:
  "\<exists>b r hop. on_input sample_kernel plain_mac scene_resolving (TargetsResolved [scene_target 500, scene_target 1000])
    = (scene_routed b (Pending False False),
       [Forward b r (scene_target 1000) hop, SetTimer TimerC (Some b) (effective_timer_c sample_config)])"
proof -
  obtain b r hop where f: "forward sample_kernel plain_mac \<lparr>fp_original = scene_invite, fp_validated = scene_validated,
      fp_target = scene_target 1000, fp_index = 0, fp_parallel_branches = u32_of_usize (Suc 0),
      fp_record_route = is_dialog_forming sample_kernel scene_invite, fp_tokens = None\<rparr> sample_config = Inr (b, r, hop)"
    using scene_forward by blast
  have s: "sort_by (\<lambda>a b. pt_q b \<le> pt_q a) [scene_target 500, scene_target 1000] = [scene_target 1000, scene_target 500]"
    by (simp add: scene_target_def sort_by_def)
  show ?thesis
    using f scene_group scene_dialog
    by (simp add: on_input_def on_targets_def scene_resolving_def scene_routed_def s fork_next_group_def Let_def context_new_def)
      (simp add: scene_validated_def)
qed

lemma scene_runs:
  obtains b r hop where "driven sample_kernel plain_mac sample_config Routed (scene_routed b (Pending False False))
    [ResolveTargets (aor_query sample_kernel scene_invite), Forward b r (scene_target 1000) hop,
     SetTimer TimerC (Some b) (effective_timer_c sample_config)]"
proof -
  obtain b r hop where f: "on_input sample_kernel plain_mac scene_resolving (TargetsResolved [scene_target 500, scene_target 1000])
    = (scene_routed b (Pending False False),
       [Forward b r (scene_target 1000) hop, SetTimer TimerC (Some b) (effective_timer_c sample_config)])"
    using scene_forks by blast
  show thesis using driven.fed [OF scene_resolves _ f] by (intro that [of b r hop]) (simp add: next_phase_def)
qed

text \<open>An INVITE whose first route is the platform's own and carries a token.\<close>

definition forged_invite :: text_message where
  "forged_invite = \<lparr>tm_method = ''INVITE'', tm_uri = ''sip:b@p.x'', tm_status = 0,
     tm_headers = [(Via, ''SIP/2.0/UDP a.x''), (CallId, ''c1''), (CSeq, ''1''), (From, ''<sip:a@a.x>''),
       (To, ''<sip:b@p.x>''), (Route, ''<sip:e.x;aft=A>''), (Route, ''<sip:f.x;lr>'')]\<rparr>"

lemma forged_preprocess:
  "\<exists>r. preprocess sample_kernel forged_invite edge_config = (r, Some \<lparr>tc_token = ''A'', tc_partner = None\<rparr>)"
proof -
  have rec: "recover_request_uri sample_kernel forged_invite edge_config = forged_invite"
    by (simp add: recover_request_uri_def is_our_record_route_value_def forged_invite_def edge_ours(2) tokened_text(5))
  have own: "popped_tokens sample_kernel edge_config [''<sip:e.x;aft=A>'', ''<sip:f.x;lr>''] = [Some ''A'']"
  proof -
    have "address_of ''<sip:f.x;lr>'' = Some (''sip:f.x;lr'', ''>'')" "host_of ''sip:f.x;lr'' = ''f.x''"
      by (simp_all add: address_of_def host_of_def authority_of_def Let_def)
    moreover from this(2) have "\<not> is_ours sample_kernel edge_config ''sip:f.x;lr''"
      by (simp add: is_ours_def edge_config_def config_new_def edge_host_def identity_matches_def
        Let_def strip_dot_def is_ascii_char_def ascii_lower_def)
    moreover have "token_of sample_kernel ''sip:e.x;aft=A'' = Some ''A''"
      by (simp only: token_of_def tokened_text TOKEN_PARAM_def sample_fields bind.simps fst_conv)
    ultimately show ?thesis by (simp add: tokened_text edge_ours(1))
  qed
  have routes: "routes_of sample_kernel forged_invite = [''<sip:e.x;aft=A>'', ''<sip:f.x;lr>'']"
    by (simp add: routes_of_def forged_invite_def)
  have two: "take 2 [''<sip:e.x;aft=A>'', ''<sip:f.x;lr>''] = [''<sip:e.x;aft=A>'', ''<sip:f.x;lr>'']" by simp
  have "get_at [Some ''A''] 1 = None" by (simp add: get_at_def)
  then show ?thesis
    by (simp only: preprocess_def rec routes Let_def two own list.case option.case bind.simps) blast
qed

lemma forged_verifies:
  "\<exists>c. driven sample_kernel plain_mac edge_config Verifying c [VerifyToken ''A'' None]"
proof -
  have "\<not> via_is_ours sample_kernel ''UDP a.x'' edge_config"
    by (simp add: via_is_ours_def edge_config_def config_new_def edge_host_def host_of_def authority_of_def
        Let_def strip_dot_def is_ascii_char_def ascii_lower_def)
  then have "\<not> is_loop sample_kernel forged_invite edge_config c" for c
    by (simp add: is_loop_def forged_invite_def List.map_filter_def)
  moreover have "understands_scheme sample_kernel edge_config ''sip:b@p.x''"
    by (simp add: understands_scheme_def edge_config_def config_new_def is_ascii_char_def eq_ignore_case_def)
  ultimately obtain v where v: "validate sample_kernel plain_mac forged_invite edge_config = Inr v"
    by (simp add: validate_def Let_def is_respondable_def header_number_def required_tags_def forged_invite_def
        MAX_BREADTH_def and_then_def)
  obtain r where "preprocess sample_kernel forged_invite edge_config = (r, Some \<lparr>tc_token = ''A'', tc_partner = None\<rparr>)"
    using forged_preprocess by blast
  with v have "\<exists>c. on_input sample_kernel plain_mac (context_new edge_config) (Upstream forged_invite) = (c, [VerifyToken ''A'' None])"
    by (simp add: on_input_def on_upstream_def context_new_def)
  then obtain c where c: "on_input sample_kernel plain_mac (context_new edge_config) (Upstream forged_invite) = (c, [VerifyToken ''A'' None])"
    by blast
  show ?thesis using driven.fed [OF driven.created _ c] by (auto simp: next_phase_def)
qed

end
