(* ===== verification/Outcomes.thy ===== *)
theory Outcomes imports Prelude Message Proxy Sample Validate Route Forward Context Steps Runs Scenario begin

text \<open>
  The properties of the response context: nothing is forwarded before the questions that could forbid it
  are answered, targets go out in order of preference and one group at a time, a concluded target set
  stays concluded, a branch's \<^verbatim>\<open>503\<close> is never passed on, the best final response does not
  depend on arrival order, and a context with nothing outstanding has concluded.
\<close>

section \<open>The order of a run\<close>

lemma run_finished: "cx_finished c \<Longrightarrow> run K M c inputs = (c, [])"
  by (induction inputs) (simp_all add: on_input_def)

text \<open>C10. Nothing is forwarded before the verdict: until a carried token is verified and the targets are
  known no copy has left, and a token that does not verify ends the request there and then with at most a
  \<^verbatim>\<open>403\<close>, after which no input whatever forwards, answers or asks anything.\<close>

theorem forged_token_never_routed:
  assumes "driven K M config Verifying c es" and "on_input K M c (TokenFact InvalidToken) = (c', out)"
  shows "forwards_of (es @ out) = [] \<and> cx_finished c' \<and> run K M c' inputs = (c', [])
    \<and> (\<forall>e \<in> set out. e = Terminate \<or> (\<exists>request response. cx_request c = Some request
        \<and> e = Respond response \<and> respond_to K request 403 ''Forbidden'' = Some response))"
proof -
  from driven_inv [OF assms(1)] have inv: "cx_branches c = []" "forwards_of es = []" "\<not> cx_finished c \<longrightarrow> cx_awaiting_verdict c"
    by (auto simp: run_inv_def spine_def)
  have "cx_finished c' \<and> (\<forall>e \<in> set out. e = Terminate \<or> (\<exists>request response. cx_request c = Some request
        \<and> e = Respond response \<and> respond_to K request 403 ''Forbidden'' = Some response))"
    using assms(2) inv(1,3)
    by (auto simp: on_input_def on_token_def reject_token_def respond_and_finish_def terminate_def Let_def
        build_response_def pending_branch_ids_def split: if_splits option.splits)
  then show ?thesis
    using inv(2) run_finished [of c' K M inputs] by (auto intro!: forwards_of_none)
qed

text \<open>C8. Targets go out in order of preference, each once: in every run the branches are exactly the copies
  forwarded, in the order they were forwarded, and their preferences followed by those of the targets still
  queued never rise.\<close>

theorem forwards_in_preference_order:
  assumes "driven K M config p c es"
  shows "map (\<lambda>(bid, _, target). (bid, target)) (cx_branches c) = forwards_of es
    \<and> sorted_wrt (\<lambda>a b. pt_q b \<le> pt_q a) (map snd (forwards_of es) @ cx_queued c)"
  using driven_inv [OF assms] by (simp add: run_inv_def spine_def)

lemma not_waiting_concluded: "\<not> has_pending c \<Longrightarrow> b \<in> set (cx_branches c) \<Longrightarrow> is_concluded (fst (snd b))"
  by (cases "fst (snd b)") (auto simp: has_pending_def list_ex_iff)

lemma forks_group:
  assumes "forks c h" "forwards_of (snd h) \<noteq> []"
  shows "\<exists>v. cx_validated c = Some v \<and> length (forwards_of (snd h)) \<le> max (unat (va_max_breadth v)) 1
    \<and> (\<forall>f \<in> set (forwards_of (snd h)). pt_q (snd f) = pt_q (hd (cx_queued c)))"
proof -
  from assms(1) obtain v n and new :: "branch list" where n: "cx_validated c = Some v" "n = group_size (va_max_breadth v) (cx_queued c)"
    "forwards_of (snd h) = map (\<lambda>(bid, _, target). (bid, target)) new"
    "subseq (map (\<lambda>(_, _, target). target) new) (take n (cx_queued c))"
    unfolding forks_def by blast
  have "length (forwards_of (snd h)) \<le> n" using list_emb_length [OF n(4)] n(3) by simp
  also have "n \<le> max (unat (va_max_breadth v)) 1" by (simp add: n(2) group_size_def Let_def)
  finally have width: "length (forwards_of (snd h)) \<le> max (unat (va_max_breadth v)) 1" .
  have "pt_q (snd f) = pt_q (hd (cx_queued c))" if "f \<in> set (forwards_of (snd h))" for f
  proof -
    have "map snd (forwards_of (snd h)) = map (\<lambda>(_, _, target). target) new" by (simp add: n(3) split_def)
    moreover have "snd f \<in> set (map snd (forwards_of (snd h)))" using that by simp
    ultimately have "snd f \<in> set (map (\<lambda>(_, _, target). target) new)" by (simp only:)
    then have "snd f \<in> set (take n (cx_queued c))" by (rule list_emb_set [OF n(4), rule_format]) simp
    then show ?thesis unfolding n(2) by (rule group_same_q)
  qed
  with n(1) width show ?thesis by blast
qed

lemma spine_length: "spine c = spine c' \<Longrightarrow> length (cx_branches c) = length (cx_branches c')"
  unfolding spine_def by (metis length_map)

lemma routed_steps:
  assumes "answers Routed input" "on_input K M c input = h"
  shows "quiet_or_forks c h"
proof (cases "cx_finished c")
  case True
  with assms(2) show ?thesis by (auto simp: on_input_def quiet_or_forks_def quiet_def)
next
  case False
  show ?thesis
  proof (cases input)
    case (TimerFired timer b)
    with False assms timer_steps [of c K M b] show ?thesis by (cases timer) (simp add: on_input_def)
  qed (use False assms response_steps [of c K M] failure_steps [of c K M] quiet_or_forks_quiet [OF quiet_cancelled, of c]
      in \<open>auto simp: on_input_def\<close>)
qed

text \<open>Groups are tried in sequence: once the request is routed, an input that forwards anything finds
  every earlier branch concluded and nothing answered, and forwards one group, of one preference and no wider
  than \<^verbatim>\<open>Max-Breadth\<close>.\<close>

theorem next_group_waits:
  assumes "driven K M config Routed c es" and "answers Routed input" and "on_input K M c input = (c', out)"
    and "forwards_of out \<noteq> []"
  shows "\<not> cx_answered c \<and> (\<forall>b \<in> set (take (length (cx_branches c)) (cx_branches c')). is_concluded (fst (snd b)))
    \<and> (\<exists>v q. cx_validated c = Some v \<and> length (forwards_of out) \<le> max (unat (va_max_breadth v)) 1
        \<and> (\<forall>f \<in> set (forwards_of out). pt_q (snd f) = q))"
proof -
  have "\<not> quiet c (c', out)" using quiet_no_forwards [of c "(c', out)"] assms(4) by auto
  with routed_steps [OF assms(2,3)] obtain c1 where c1: "quiet c (c1, [])" "\<not> has_pending c1" "may_fork_next_group c1"
    and f: "forks c1 (c', out)" unfolding quiet_or_forks_def by blast
  have same: "cx_answered c \<longrightarrow> cx_answered c1" "cx_validated c1 = cx_validated c" "spine c1 = spine c"
    using c1(1) by (auto simp: quiet_def)
  from f obtain new where "cx_branches c' = cx_branches c1 @ new" unfolding forks_def by auto
  then have "take (length (cx_branches c)) (cx_branches c') = cx_branches c1" using spine_length [OF same(3)] by simp
  then show ?thesis
    using forks_group [OF f] assms(4) same(1,2) c1(3) not_waiting_concluded [OF c1(2)]
    by (auto simp: may_fork_next_group_def)
qed

section \<open>A concluded target set\<close>

lemma no_queue_no_forward:
  assumes "quiet_or_forks c h" "cx_queued c = []"
  shows "forwards_of (snd h) = [] \<and> cx_queued (fst h) = []"
proof -
  have "quiet c h"
    using assms unfolding quiet_or_forks_def may_fork_next_group_def quiet_def by auto
  then show ?thesis using quiet_no_forwards [of c h] assms(2) by (auto simp: quiet_def)
qed

lemma run_no_queue:
  assumes "cx_queued c = []" "\<forall>input \<in> set inputs. answers Routed input"
  shows "forwards_of (snd (run K M c inputs)) = []"
  using assms
proof (induction inputs arbitrary: c)
  case (Cons input inputs)
  obtain c1 out where s: "on_input K M c input = (c1, out)" by (rule prod.exhaust)
  with Cons.prems no_queue_no_forward [OF routed_steps [OF _ s]] have "forwards_of out = []" "cx_queued c1 = []" by simp_all
  with Cons.IH [of c1] Cons.prems s show ?case by (simp add: Let_def split_def)
qed simp

text \<open>What concludes the target set: the caller's CANCEL, a \<^verbatim>\<open>2xx\<close> to an INVITE and any
  \<^verbatim>\<open>6xx\<close>.\<close>

definition concludes ::
  "('u, 'req, 'addr, 'hdr, 'via, 'resp, 'x) message_kernel_scheme \<Rightarrow> ('req, 'resp) response_context \<Rightarrow> ('req, 'resp) input \<Rightarrow> bool" where
  "concludes K c input =
    (case input of
       UpstreamCancelled \<Rightarrow> True
     | BranchResponse response branch \<Rightarrow>
        knows_branch c branch \<and> \<not> resp_provisional K response
        \<and> (resp_status K response div 100 = 6
          \<or> resp_status K response div 100 = 2 \<and> (\<exists>request. cx_request c = Some request \<and> is_invite K request))
     | _ \<Rightarrow> False)"

lemma cancel_pending_queue: "cx_queued (fst (cancel_pending c)) = cx_queued c"
  by (simp add: cancel_pending_def Let_def)

lemma finish_queue: "cx_queued (fst (finish_if_settled c)) = cx_queued c"
  by (simp add: finish_if_settled_def)

lemma cancel_each_queue: "cx_queued (fst (cancel_each pending c)) = cx_queued c"
  by (induction pending c rule: cancel_each.induct)
    (simp_all add: set_cancelling_def queue_cancel_def Let_def split_def)

lemma concludes_empties:
  assumes "concludes K c input" "on_input K M c input = (c1, out)" "\<not> cx_finished c" "cx_request c \<noteq> None"
  shows "cx_queued c1 = []"
proof (cases input)
  case (BranchResponse response branch)
  have "(100 :: u16) div 100 = 1" "(503 :: u16) div 100 = 5" by simp_all
  with BranchResponse assms(1) have "resp_status K response \<noteq> 100" "resp_status K response \<noteq> 503"
    by (auto simp: concludes_def)
  with BranchResponse assms show ?thesis
    by (auto simp: on_input_def on_branch_response_def concludes_def Let_def split_def conclude_target_set_def
        cancel_pending_queue finish_queue split: if_splits)
next
  case UpstreamCancelled
  with assms show ?thesis
    by (auto simp: on_input_def on_upstream_cancelled_def Let_def split_def conclude_target_set_def cancel_each_queue)
qed (use assms(1) in \<open>simp_all add: concludes_def\<close>)

text \<open>C7. A concluded target set stays concluded: after the caller's CANCEL, a \<^verbatim>\<open>2xx\<close> to an
  INVITE or a \<^verbatim>\<open>6xx\<close> reaches a routed request, no sequence of responses, failures, timers
  and CANCELs makes it forward another copy.\<close>

theorem concluded_set_forwards_nothing:
  assumes "driven K M config Routed c es" and "\<not> cx_finished c" and "concludes K c input"
    and "on_input K M c input = (c1, out)" and "\<forall>later \<in> set inputs. answers Routed later"
  shows "forwards_of (snd (run K M c1 inputs)) = []"
proof -
  have "cx_request c \<noteq> None" using driven_inv [OF assms(1)] assms(2) by (simp add: run_inv_def)
  with assms show ?thesis by (intro run_no_queue concludes_empties)
qed

section \<open>Choosing the final response\<close>

lemma preferred_irrefl: "\<not> preferred a a" and preferred_trans: "preferred a b \<Longrightarrow> preferred b c \<Longrightarrow> preferred a c"
  and preferred_total: "a \<noteq> b \<Longrightarrow> preferred a b \<or> preferred b a"
  unfolding preferred_def by auto

lemma best_status_in: "best_status ss = Some s \<Longrightarrow> s \<in> set ss"
  by (induction ss arbitrary: s) (auto split: option.splits if_splits)

lemma best_status_least: "best_status ss = Some s \<Longrightarrow> t \<in> set ss \<Longrightarrow> \<not> preferred t s"
proof (induction ss arbitrary: s)
  case (Cons u us)
  show ?case
  proof (cases "best_status us")
    case None
    then have "us = []" by (cases us) (simp_all split: option.splits)
    with Cons show ?thesis by (auto simp: preferred_irrefl)
  next
    case (Some best)
    have "\<not> preferred t best" if "t \<in> set us" using Cons.IH [OF Some that] .
    moreover have "best = u \<or> preferred u best" if "\<not> preferred best u" using that preferred_total by blast
    ultimately show ?thesis
      using Cons.prems Some preferred_irrefl [of u] preferred_irrefl [of best] preferred_trans [of t u best]
        preferred_trans [of u best u] by (auto split: if_splits)
  qed
qed simp

lemma best_status_None: "best_status ss = None \<longleftrightarrow> ss = []"
  by (cases ss) (auto split: option.splits)

lemma best_status_unique: "s \<in> set ss \<Longrightarrow> \<forall>t \<in> set ss. \<not> preferred t s \<Longrightarrow> best_status ss = Some s"
proof (cases "best_status ss")
  case None
  assume "s \<in> set ss"
  with None show ?thesis by (simp add: best_status_None)
next
  case (Some s')
  assume "s \<in> set ss" "\<forall>t \<in> set ss. \<not> preferred t s"
  then have "\<not> preferred s s'" "\<not> preferred s' s" using best_status_least [OF Some] best_status_in [OF Some] by blast+
  with Some preferred_total [of s s'] show ?thesis by auto
qed

text \<open>The best final response is the least under class, then rank, then code among those received, there
  is one as soon as any was received, and it depends only on which statuses were received, not on the order in
  which the branches concluded.\<close>

theorem best_final_exact:
  "(best_final K c = Some s \<longleftrightarrow> s \<in> resp_status K ` set (cx_finals c) \<and> (\<forall>r \<in> set (cx_finals c). \<not> preferred (resp_status K r) s))
    \<and> (best_final K c = None \<longleftrightarrow> cx_finals c = [])
    \<and> preferred 486 404 \<and> preferred 407 486 \<and> preferred 404 408 \<and> preferred 300 401 \<and> preferred 499 500"
proof (intro conjI)
  show "best_final K c = Some s \<longleftrightarrow> s \<in> resp_status K ` set (cx_finals c) \<and> (\<forall>r \<in> set (cx_finals c). \<not> preferred (resp_status K r) s)"
  proof
    assume "best_final K c = Some s"
    then show "s \<in> resp_status K ` set (cx_finals c) \<and> (\<forall>r \<in> set (cx_finals c). \<not> preferred (resp_status K r) s)"
      using best_status_in [of "map (resp_status K) (cx_finals c)" s] best_status_least [of "map (resp_status K) (cx_finals c)" s]
      by (auto simp: best_final_def)
  qed (auto simp: best_final_def intro!: best_status_unique)
qed (simp_all add: best_final_def best_status_None preferred_def within_class_rank_def)

section \<open>A branch's 503\<close>

text \<open>What the context relies on of responses: they carry the status they were built with, the edits keep it, and
  the provisional ones are those below \<^verbatim>\<open>200\<close>.\<close>

definition response_laws :: "('u, 'req, 'addr, 'hdr, 'via, 'resp, 'x) message_kernel_scheme \<Rightarrow> bool" where
  "response_laws K \<longleftrightarrow>
    (\<forall>r s t response. respond_to K r s t = Some response \<longrightarrow> resp_status K response = s)
    \<and> (\<forall>response n. resp_status K (resp_remove_first K response n) = resp_status K response)
    \<and> (\<forall>response h. resp_status K (resp_push K response h) = resp_status K response)
    \<and> (\<forall>response. resp_provisional K response = (resp_status K response < 200))"

lemma response_simps:
  assumes "response_laws K"
  shows "build_response K r s t = Some response \<Longrightarrow> resp_status K response = s"
    and "resp_status K (pop_via K response) = resp_status K response"
    and "resp_status K (foldl (resp_push K) response hs) = resp_status K response"
    and "resp_provisional K response = (resp_status K response < 200)"
proof -
  show "build_response K r s t = Some response \<Longrightarrow> resp_status K response = s"
    using assms by (auto simp: response_laws_def build_response_def split: if_splits)
  show "resp_status K (foldl (resp_push K) response hs) = resp_status K response"
    using assms by (induction hs arbitrary: response) (simp_all add: response_laws_def)
qed (use assms in \<open>simp_all add: response_laws_def pop_via_def\<close>)

definition never_answers :: "('u, 'req, 'addr, 'hdr, 'via, 'resp, 'x) message_kernel_scheme \<Rightarrow> u16 \<Rightarrow> ('req, 'resp) effect list \<Rightarrow> bool" where
  "never_answers K status es \<longleftrightarrow> (\<forall>response. Respond response \<in> set es \<longrightarrow> resp_status K response \<noteq> status)"

lemma never_answers_simps [simp]:
  "never_answers K s []" "never_answers K s (Respond response # es) = (resp_status K response \<noteq> s \<and> never_answers K s es)"
  "effect_kind e \<noteq> KRespond \<Longrightarrow> never_answers K s (e # es) = never_answers K s es"
  "never_answers K s (es @ es') = (never_answers K s es \<and> never_answers K s es')"
  "never_answers K s (map CancelBranch ids)"
  by (auto simp: never_answers_def)

lemma respond_answers:
  "response_laws K \<Longrightarrow> status \<noteq> s \<Longrightarrow> never_answers K s (snd (respond_and_finish K c request status reason))"
  by (auto simp: respond_and_finish_def Let_def response_simps split: option.split)

lemma cancels_answer [simp]: "never_answers K s (snd (cancel_pending c))" "never_answers K s (snd (finish_if_settled c))"
  "never_answers K s (snd (terminate c))"
  by (simp_all add: cancel_pending_def finish_if_settled_def terminate_def Let_def)

lemma launch_answers: "never_answers K s (fst (launch K M config request validated par tokens index targets))"
  by (induction targets arbitrary: index) (auto simp: Let_def split_def split: sum.split)

lemma fork_answers:
  assumes "response_laws K" "480 \<noteq> s"
  shows "never_answers K s (snd (fork_next_group K M c))"
proof (cases "cx_request c = None \<or> cx_validated c = None \<or> cx_queued c = []")
  case True
  then show ?thesis by (auto simp: fork_next_group_def split: option.split)
next
  case False
  then obtain request validated where some: "cx_request c = Some request" "cx_validated c = Some validated" "cx_queued c \<noteq> []"
    by auto
  let ?n = "group_size (va_max_breadth validated) (cx_queued c)"
  let ?group = "take ?n (cx_queued c)"
  obtain es new where l: "launch K M (cx_config c) request validated (u32_of_usize (length ?group)) (cx_tokens c)
      (length (cx_branches c)) ?group = (es, new)" by (rule prod.exhaust)
  let ?c = "c\<lparr>cx_queued := drop ?n (cx_queued c), cx_branches := cx_branches c @ new\<rparr>"
  have fork: "fork_next_group K M c = (if cx_branches ?c = [] \<and> cx_queued ?c = []
      then respond_and_finish K ?c request 480 ''Temporarily Unavailable'' else (?c, es))"
    using some l by (simp add: fork_next_group_def Let_def)
  have "never_answers K s es" using launch_answers [of K s M "cx_config c" request validated _ "cx_tokens c" _ ?group] l
    by (metis fst_conv)
  then show ?thesis
    unfolding fork using respond_answers [OF assms, of ?c request "''Temporarily Unavailable''"]
    by (split if_split) (simp only: snd_conv simp_thms)
qed

lemma select_answers: 
  assumes "response_laws K"
  shows "never_answers K 503 (snd (select_and_answer K c request))"
proof -
  have agg: "resp_status K response = best" if "aggregate_challenges K c request best = Some response" for best response
  proof -
    from that obtain built hs t where "build_response K request best t = Some built" "foldl (resp_push K) built hs = response"
      unfolding aggregate_challenges_def Let_def map_option_eq_Some by blast
    then show ?thesis using response_simps(1,3) [OF assms] by metis
  qed
  have find: "resp_status K response = best" if "List.find (\<lambda>r. resp_status K r = best) (cx_finals c) = Some response" for best response
    using that by (auto simp: find_Some_iff)
  have answer: "never_answers K 503 (snd (case chosen of
        Some response \<Rightarrow>
          let (c, cancels) = cancel_pending (c\<lparr>cx_answered := True\<rparr>); (c, ends) = finish_if_settled c
          in (c, Respond (pop_via K response) # cancels @ ends)
      | None \<Rightarrow> respond_and_finish K c request 500 ''Server Internal Error''))"
    if "\<And>response. chosen = Some response \<Longrightarrow> resp_status K response \<noteq> 503" for chosen
    using that by (cases chosen) (simp_all add: split_def Let_def respond_answers [OF assms] response_simps [OF assms])
  show ?thesis
  proof (cases "best_final K c")
    case None
    then show ?thesis by (simp add: select_and_answer_def respond_answers [OF assms])
  next
    case (Some best)
    show ?thesis
    proof (cases "best = 503")
      case True
      with Some show ?thesis by (simp add: select_and_answer_def respond_answers [OF assms])
    next
      case False
      have "never_answers K 503 (snd (case (if best = 401 \<or> best = 407 then aggregate_challenges K c request best
          else List.find (\<lambda>response. resp_status K response = best) (cx_finals c)) of
        Some response \<Rightarrow>
          let (c, cancels) = cancel_pending (c\<lparr>cx_answered := True\<rparr>); (c, ends) = finish_if_settled c
          in (c, Respond (pop_via K response) # cancels @ ends)
      | None \<Rightarrow> respond_and_finish K c request 500 ''Server Internal Error''))"
      proof (rule answer)
        fix response
        assume "(if best = 401 \<or> best = 407 then aggregate_challenges K c request best
          else List.find (\<lambda>response. resp_status K response = best) (cx_finals c)) = Some response"
        then have "aggregate_challenges K c request best = Some response
            \<or> List.find (\<lambda>response. resp_status K response = best) (cx_finals c) = Some response"
          by (cases "best = 401 \<or> best = 407") (simp_all only: if_True if_False simp_thms)
        then have "resp_status K response = best" using agg find by blast
        with False show "resp_status K response \<noteq> 503" by simp
      qed
      with Some False show ?thesis by (simp add: select_and_answer_def)
    qed
  qed
qed

lemma continue_answers: "response_laws K \<Longrightarrow> never_answers K 503 (snd (continue_selection K M c request))"
  by (simp add: continue_selection_def fork_answers select_answers)

lemma failure_answers: "response_laws K \<Longrightarrow> never_answers K 503 (snd (on_branch_failure K M c branch))"
  by (simp add: on_branch_failure_def Let_def continue_answers split: option.split)

lemma timer_answers: "response_laws K \<Longrightarrow> never_answers K 503 (snd (on_timer_c K M c branch))"
  by (simp add: on_timer_c_def conclude_as_timeout_def Let_def continue_answers split: option.split bool.split prod.split)

lemma provisional_answers:
  "response_laws K \<Longrightarrow> resp_status K response \<noteq> 503 \<Longrightarrow> never_answers K 503 (snd (on_provisional K c request response branch))"
  by (simp add: on_provisional_def mark_provisional_def Let_def response_simps(2))

lemma response_answers:
  assumes "response_laws K"
  shows "never_answers K 503 (snd (on_branch_response K M c response branch))"
proof (cases "resp_status K response = 503")
  case True
  then have "\<not> resp_provisional K response" using response_simps(4) [OF assms] by simp
  with True show ?thesis by (simp add: on_branch_response_def failure_answers [OF assms] split: option.split)
next
  case False
  then show ?thesis
    using response_simps(2) [OF assms] provisional_answers [OF assms False] continue_answers [OF assms]
    by (simp add: on_branch_response_def Let_def split_def split: option.split)
qed

lemma targets_answers: "response_laws K \<Longrightarrow> never_answers K 503 (snd (on_targets K M c targets))"
  by (simp add: on_targets_def respond_answers fork_answers split: option.split)

lemma route_answers: "response_laws K \<Longrightarrow> never_answers K 503 (snd (route_it K M c))"
  by (simp add: route_it_def targets_answers split: option.split)

lemma refuse_answers:
  assumes "response_laws K"
  shows "never_answers K 503 (snd (refuse K c request refusal))"
proof -
  have "s \<noteq> 503" if "refusal_status refusal = Some s" for s using that by (cases refusal) auto
  moreover have "resp_status K (resp_push K response h) = resp_status K response" for response h
    using assms by (simp add: response_laws_def)
  ultimately show ?thesis
    using response_simps(1) [OF assms]
    by (auto simp: refuse_def Let_def split: option.split refusal.split)
qed

lemma upstream_answers: "response_laws K \<Longrightarrow> never_answers K 503 (snd (on_upstream K M c request))"
  by (simp add: on_upstream_def Let_def split_def refuse_answers route_answers split: sum.split option.split)

lemma token_answers: "response_laws K \<Longrightarrow> never_answers K 503 (snd (on_token K M c verdict))"
  by (simp add: on_token_def reject_token_def Let_def route_answers respond_answers split: option.split token_verdict.split)

lemma cancel_each_answers: "never_answers K s (snd (cancel_each pending c))"
  by (induction pending c rule: cancel_each.induct) (simp_all add: Let_def split_def)

text \<open>A branch's \<^verbatim>\<open>503\<close> is never passed on: whatever reaches a context, in whatever
  state, the only input answered upstream with \<^verbatim>\<open>503\<close> is that the targets could not be
  resolved.\<close>

theorem branch_503_never_forwarded:
  assumes "response_laws K" and "on_input K M c input = (c', out)" and "Respond response \<in> set out"
    and "resp_status K response = 503"
  shows "input = TargetsUnavailable"
proof (rule ccontr)
  assume "input \<noteq> TargetsUnavailable"
  then have "never_answers K 503 (snd (on_input K M c input))"
    using upstream_answers [OF assms(1)] response_answers [OF assms(1)] failure_answers [OF assms(1)] targets_answers [OF assms(1)]
      token_answers [OF assms(1)] timer_answers [OF assms(1)]
    by (simp add: cancel_each_answers on_input_def on_upstream_cancelled_def Let_def split_def split: input.split proxy_timer.split)
  with assms(2-4) show False by (simp add: never_answers_def)
qed

section \<open>Nothing is left waiting\<close>

abbreviation waiting :: "branch_state \<Rightarrow> bool" where
  "waiting state \<equiv> is_pending state \<or> state = Cancelling"

lemma has_pending_iff: "has_pending c \<longleftrightarrow> (\<exists>b \<in> set (cx_branches c). waiting (fst (snd b)))"
  by (simp add: has_pending_def list_ex_iff split_def)

lemma has_pending_update:
  "has_pending c \<Longrightarrow> (\<And>bid state. waiting state \<Longrightarrow> waiting (f bid state)) \<Longrightarrow> has_pending (update_branches f c)"
  unfolding has_pending_iff by (auto simp: split_def)

definition settled :: "('req, 'resp) response_context \<Rightarrow> bool" where
  "settled c \<longleftrightarrow> cx_finished c \<or> has_pending c \<or> cx_answered c"

text \<open>A group none of whose targets could be copied was taken off the queue.\<close>

definition strands :: "('req, 'resp) response_context \<Rightarrow> ('req, 'resp) handled \<Rightarrow> bool" where
  "strands c h \<longleftrightarrow> forwards_of (snd h) = [] \<and> length (cx_queued (fst h)) < length (cx_queued c)"

lemma forksE:
  assumes "forks c h"
  obtains n and new :: "branch list" where "0 < n" "n \<le> length (cx_queued c)" "cx_branches (fst h) = cx_branches c @ new"
    "forwards_of (snd h) = map (\<lambda>(bid, _, target). (bid, target)) new" "cx_queued (fst h) = drop n (cx_queued c)"
    "\<forall>b \<in> set new. fst (snd b) = Pending False False"
  using assms unfolding forks_def
proof (elim conjE exE)
  fix v n and new :: "branch list"
  assume n: "n = group_size (va_max_breadth v) (cx_queued c)" "cx_queued c \<noteq> []"
  assume "cx_branches (fst h) = cx_branches c @ new"
    "forwards_of (snd h) = map (\<lambda>(bid, _, target). (bid, target)) new" "cx_queued (fst h) = drop n (cx_queued c)"
    "\<forall>b \<in> set new. fst (snd b) = Pending False False"
  with group_size_bounds [OF n(2), of "va_max_breadth v"] n(1) show thesis by (intro that) simp_all
qed

lemma forks_settled:
  assumes "forks c h"
  shows "settled (fst h) \<or> strands c h"
  using assms
proof (cases rule: forksE)
  case (1 n new)
  show ?thesis
  proof (cases new)
    case Nil
    with 1 have "strands c h" by (simp add: strands_def)
    then show ?thesis ..
  next
    case (Cons b bs)
    then have "has_pending (fst h)" using 1(3,6) by (simp add: has_pending_iff)
    then show ?thesis by (simp add: settled_def)
  qed
qed

lemma continue_settled: "settled (fst (continue_selection K M c request)) \<or> strands c (continue_selection K M c request)"
proof -
  consider "has_pending c" | "\<not> has_pending c" "may_fork_next_group c" | "\<not> has_pending c" "\<not> may_fork_next_group c" by blast
  then show ?thesis
  proof cases
    case 1
    then show ?thesis by (simp add: continue_selection_def settled_def)
  next
    case 2
    then have eq: "continue_selection K M c request = fork_next_group K M c" by (simp add: continue_selection_def)
    have "cx_finished (fst (fork_next_group K M c)) \<or> forks c (fork_next_group K M c)"
      using 2(2) by (cases rule: fork_cases [of c K M]) (auto simp: may_fork_next_group_def)
    then show ?thesis using forks_settled unfolding eq settled_def by blast
  next
    case 3
    then have "settled (fst (select_and_answer K c request))"
      by (auto simp: select_and_answer_def finish_if_settled_def settled_def respond_and_finish_def Let_def split_def
          cancel_pending_def split: option.split)
    with 3 show ?thesis by (simp add: continue_selection_def)
  qed
qed

lemma settled_same: "settled c \<Longrightarrow> settled c \<or> strands c h" by simp

lemma concluded_queue:
  "cx_queued (case response of None \<Rightarrow> conclude_branch branch status c
    | Some response \<Rightarrow> (conclude_branch branch status c)\<lparr>cx_finals := cx_finals (conclude_branch branch status c) @ [response]\<rparr>)
    = cx_queued c"
  by (simp add: conclude_branch_def split: option.split)

lemma continue_from:
  "cx_queued c1 = cx_queued c \<Longrightarrow>
    settled (fst (continue_selection K M c1 request)) \<or> strands c (continue_selection K M c1 request)"
  using continue_settled [of K M c1 request] by (simp add: strands_def)

lemma failure_settled:
  assumes "settled c"
  shows "settled (fst (on_branch_failure K M c branch)) \<or> strands c (on_branch_failure K M c branch)"
proof (cases "cx_request c")
  case None
  then show ?thesis by (simp add: on_branch_failure_def terminate_def settled_def)
next
  case (Some request)
  show ?thesis
  proof (cases "knows_branch c branch")
    case True
    with Some show ?thesis
      unfolding on_branch_failure_def Let_def by (simp only: option.case simp_thms if_False)
        (rule continue_from [OF concluded_queue])
  qed (use assms in \<open>simp add: Some on_branch_failure_def\<close>)
qed

lemma timeout_settled: "settled (fst (conclude_as_timeout K M c branch)) \<or> strands c (conclude_as_timeout K M c branch)"
proof (cases "cx_request c")
  case None
  then show ?thesis by (simp add: conclude_as_timeout_def terminate_def settled_def)
next
  case (Some request)
  then show ?thesis
    unfolding conclude_as_timeout_def Let_def by (simp only: option.case) (rule continue_from [OF concluded_queue])
qed

lemma settled_update:
  "settled c \<Longrightarrow> (\<And>bid state. waiting state \<Longrightarrow> waiting (f bid state)) \<Longrightarrow> settled (update_branches f c)"
  unfolding settled_def update_branches_fields by (meson has_pending_update)

lemma still_waiting:
  "waiting state \<Longrightarrow> waiting (if bid = branch then Cancelling else state)"
  "waiting state \<Longrightarrow> waiting (if bid = branch then (case state of Pending saw _ \<Rightarrow> Pending saw True | _ \<Rightarrow> state) else state)"
  "waiting state \<Longrightarrow> waiting (if bid = branch then (case state of Pending _ _ \<Rightarrow> Pending True False | _ \<Rightarrow> state) else state)"
  by (cases state; simp)+

lemma settled_marks:
  assumes "settled c"
  shows "settled (set_cancelling branch c)" "settled (queue_cancel branch c)" "settled (fst (mark_provisional branch c))"
  using assms by (simp_all add: set_cancelling_def queue_cancel_def mark_provisional_def settled_update still_waiting
      del: update_branches_fields)

lemma provisional_settled: "settled c \<Longrightarrow> settled (fst (on_provisional K c request response branch))"
  by (simp add: on_provisional_def Let_def split_def settled_marks)

lemma timer_settled: "settled c \<Longrightarrow> settled (fst (on_timer_c K M c branch)) \<or> strands c (on_timer_c K M c branch)"
  using timeout_settled [of K M c] by (simp add: on_timer_c_def settled_marks split: option.split bool.split)

lemma cancel_each_settled: "settled c \<Longrightarrow> settled (fst (cancel_each pending c))"
  by (induction pending c rule: cancel_each.induct) (simp_all add: Let_def split_def settled_marks)

lemma response_settled:
  assumes "settled c"
  shows "settled (fst (on_branch_response K M c response branch)) \<or> strands c (on_branch_response K M c response branch)"
proof (cases "cx_request c")
  case None
  then show ?thesis by (simp add: on_branch_response_def terminate_def settled_def)
next
  case (Some request)
  let ?c = "conclude_branch branch (resp_status K response) c"
  let ?ok = "conclude_target_set (?c\<lparr>cx_answered := True\<rparr>)"
  let ?global = "conclude_target_set (?c\<lparr>cx_finals := cx_finals ?c @ [response], cx_answered := True\<rparr>)"
  let ?next = "continue_selection K M (?c\<lparr>cx_finals := cx_finals ?c @ [response]\<rparr>) request"
  have proceeds: "settled (fst ?next) \<or> strands c ?next"
    by (rule continue_from) (simp add: conclude_branch_def)
  have ok: "settled (fst (cancel_pending ?ok))" and global: "settled (fst (finish_if_settled (fst (cancel_pending ?global))))"
    by (simp_all add: finish_if_settled_def cancel_pending_def conclude_target_set_def settled_def Let_def)
  show ?thesis
  proof (cases "knows_branch c branch")
    case False
    then show ?thesis using Some assms by (simp add: on_branch_response_def)
  next
    case True
    then show ?thesis
      using Some assms proceeds ok global failure_settled [OF assms, of K M branch]
        provisional_settled [OF assms, of K request response branch]
      by (simp add: on_branch_response_def Let_def split_def)
  qed
qed

text \<open>C9. No request is left hanging: while a routed request has a branch outstanding or is answered, every
  further input leaves it so or ends it, so the last branch to conclude yields the answer or the next group; the
  one exception is a group none of whose targets can be copied, which is taken off the queue and forwards
  nothing.\<close>

theorem nothing_left_hanging:
  assumes "answers Routed input" and "on_input K M c input = (c', out)"
    and "cx_finished c \<or> has_pending c \<or> cx_answered c"
  shows "cx_finished c' \<or> has_pending c' \<or> cx_answered c'
    \<or> forwards_of out = [] \<and> length (cx_queued c') < length (cx_queued c)"
proof -
  have s: "settled c" using assms(3) by (simp add: settled_def)
  have "settled (fst (on_input K M c input)) \<or> strands c (on_input K M c input)"
  proof (cases "cx_finished c")
    case True
    then show ?thesis by (simp add: on_input_def settled_def)
  next
    case False
    show ?thesis
    proof (cases input)
      case UpstreamCancelled
      have "settled (conclude_target_set c)" using s by (simp add: settled_def conclude_target_set_def has_pending_iff)
      then show ?thesis
        using UpstreamCancelled False cancel_each_settled [of "conclude_target_set c" "pending_provisionals (conclude_target_set c)"]
        by (simp add: on_input_def on_upstream_cancelled_def Let_def split_def)
    next
      case (TimerFired timer b)
      then show ?thesis using False timer_settled [OF s] by (cases timer) (simp add: on_input_def)
    next
      case (BranchResponse response branch)
      then show ?thesis using False response_settled [OF s, of K M response branch] by (simp add: on_input_def)
    next
      case (BranchTransportError branch)
      then show ?thesis using False failure_settled [OF s, of K M branch] by (simp add: on_input_def)
    qed (use assms(1) False s in \<open>auto simp: on_input_def settled_def has_pending_iff\<close>)
  qed
  with assms(2) show ?thesis by (simp add: settled_def strands_def)
qed

section \<open>The caller's CANCEL\<close>

definition cancel_mark :: "(branch_id \<times> bool) list \<Rightarrow> branch_id \<Rightarrow> branch_state \<Rightarrow> branch_state" where
  "cancel_mark pending bid state =
    (case map_of pending bid of
       None \<Rightarrow> state
     | Some True \<Rightarrow> Cancelling
     | Some False \<Rightarrow> (case state of Pending saw _ \<Rightarrow> Pending saw True | _ \<Rightarrow> state))"

lemma update_branches_comp: "update_branches f (update_branches g c) = update_branches (\<lambda>bid state. f bid (g bid state)) c"
  by (simp add: update_branches_def o_def split_def)

lemma update_branches_id: "update_branches (\<lambda>bid state. state) c = c"
  by (simp add: update_branches_def split_def)

lemma cancel_each_exact:
  "distinct (map fst pending) \<Longrightarrow>
    cancel_each pending c = (update_branches (cancel_mark pending) c, map (\<lambda>p. CancelBranch (fst p)) (filter snd pending))"
proof (induction pending c rule: cancel_each.induct)
  case (1 c)
  then show ?case by (simp add: cancel_mark_def update_branches_id)
next
  case (2 branch saw pending c)
  then have fresh: "map_of pending branch = None" by (simp add: map_of_eq_None_iff)
  show ?case
  proof (cases saw)
    case True
    have "cancel_mark ((branch, True) # pending) = (\<lambda>bid state. cancel_mark pending bid (if bid = branch then Cancelling else state))"
      using fresh by (auto simp: cancel_mark_def fun_eq_iff split: option.split bool.split branch_state.split)
    with 2 True show ?thesis by (simp add: set_cancelling_def update_branches_comp del: update_branches_fields)
  next
    case False
    have "cancel_mark ((branch, False) # pending) = (\<lambda>bid state. cancel_mark pending bid
        (if bid = branch then (case state of Pending saw _ \<Rightarrow> Pending saw True | _ \<Rightarrow> state) else state))"
      using fresh by (auto simp: cancel_mark_def fun_eq_iff split: option.split bool.split branch_state.split)
    with 2 False show ?thesis by (simp add: queue_cancel_def update_branches_comp del: update_branches_fields)
  qed
qed

lemma in_pending_provisionals:
  "(bid, saw) \<in> set (pending_provisionals c) \<longleftrightarrow> (\<exists>queued target. (bid, Pending saw queued, target) \<in> set (cx_branches c))"
  (is "?l \<longleftrightarrow> ?r")
proof
  assume ?l
  then obtain state target where "(bid, state, target) \<in> set (cx_branches c)" "\<exists>queued. state = Pending saw queued"
    by (auto simp: pending_provisionals_def List.map_filter_def split: branch_state.splits)
  then show ?r by blast
qed (force simp: pending_provisionals_def List.map_filter_def)

lemma pending_provisionals_distinct:
  "distinct (map fst (cx_branches c)) \<Longrightarrow> distinct (map fst (pending_provisionals c))"
proof -
  have *: "map fst (List.map_filter (\<lambda>(bid, state, _). case state of Pending saw _ \<Rightarrow> Some (bid, saw) | _ \<Rightarrow> None) bs)
      = map fst (filter (\<lambda>(_, state, _). is_pending state) bs)" for bs :: "branch list"
    by (induction bs) (auto simp: List.map_filter_simps split: branch_state.split)
  then show "distinct (map fst (cx_branches c)) \<Longrightarrow> ?thesis"
    by (simp add: pending_provisionals_def distinct_map_filter)
qed

lemma branch_unique:
  "distinct (map fst bs) \<Longrightarrow> (b, s, t) \<in> set bs \<Longrightarrow> (b, s', t') \<in> set bs \<Longrightarrow> s = s' \<and> t = (t' :: proxy_target)"
  using eq_key_imp_eq_value [of bs b "(s, t)" "(s', t')"] by simp

lemma pending_provisionals_lookup:
  assumes "distinct (map fst (cx_branches c))" "(b, state, t) \<in> set (cx_branches c)"
  shows "map_of (pending_provisionals c) b = (case state of Pending saw _ \<Rightarrow> Some saw | _ \<Rightarrow> None)"
proof (cases "map_of (pending_provisionals c) b")
  case None
  then have "(b, saw) \<notin> set (pending_provisionals c)" for saw by (force simp: map_of_eq_None_iff)
  with assms(2) None show ?thesis by (cases state) (simp_all add: in_pending_provisionals)
next
  case (Some saw)
  then obtain queued t' where "(b, Pending saw queued, t') \<in> set (cx_branches c)"
    using in_pending_provisionals by (metis map_of_SomeD)
  with Some branch_unique [OF assms(1,2)] show ?thesis by simp
qed

lemma release_other:
  "b \<notin> fst ` set bs \<Longrightarrow> foldl (\<lambda>release (bid, state, _ :: proxy_target).
      if bid = b then (case state of Pending _ queued \<Rightarrow> queued | _ \<Rightarrow> release) else release) r bs = r"
  by (induction bs arbitrary: r) auto

lemma released:
  assumes "distinct (map fst (cx_branches c))" "(b, Pending saw queued, t) \<in> set (cx_branches c)"
  shows "snd (mark_provisional b c) = queued"
proof -
  from assms(2) obtain xs ys where s: "cx_branches c = xs @ (b, Pending saw queued, t) # ys" by (auto simp: in_set_conv_decomp)
  with assms(1) have "b \<notin> fst ` set ys" by auto
  from release_other [OF this] show ?thesis by (simp add: mark_provisional_def s)
qed

text \<open>The caller's CANCEL reaches every branch, each when it may: it is answered at once, CANCEL goes to
  exactly the branches that have sent a provisional, the ones that have not are marked, the queue is dropped, and
  the first provisional a marked branch sends is passed on and answered by its CANCEL.\<close>

theorem cancel_waits_for_provisional:
  assumes "distinct (map fst (cx_branches c))" and "\<not> cx_finished c" and "on_input K M c UpstreamCancelled = (c1, out)"
  shows "hd out = AnswerCancel \<and> cx_queued c1 = []
    \<and> (\<forall>b state t. (b, state, t) \<in> set (cx_branches c) \<longrightarrow>
        (CancelBranch b \<in> set out \<longleftrightarrow> (\<exists>queued. state = Pending True queued))
        \<and> (b, case state of Pending True _ \<Rightarrow> Cancelling | Pending False _ \<Rightarrow> Pending False True | _ \<Rightarrow> state, t) \<in> set (cx_branches c1)
        \<and> (\<forall>queued response. state = Pending False queued \<and> cx_request c \<noteq> None \<and> resp_provisional K response \<and> resp_status K response \<noteq> 100
            \<longrightarrow> {Respond (pop_via K response), CancelBranch b} \<subseteq> set (snd (on_input K M c1 (BranchResponse response b)))))"
proof -
  let ?ps = "pending_provisionals (conclude_target_set c)"
  have same: "cx_branches (conclude_target_set c) = cx_branches c" "cx_request (conclude_target_set c) = cx_request c"
     "cx_finished (conclude_target_set c) = cx_finished c" "cx_queued (conclude_target_set c) = []"
    by (simp_all add: conclude_target_set_def)
  then have ps: "?ps = pending_provisionals c" by (simp add: pending_provisionals_def)
  note each = cancel_each_exact [OF pending_provisionals_distinct [OF assms(1)], of "conclude_target_set c"]
  have out: "out = AnswerCancel # map (\<lambda>p. CancelBranch (fst p)) (filter snd (pending_provisionals c))"
    and c1: "c1 = update_branches (cancel_mark (pending_provisionals c)) (conclude_target_set c)"
    using assms(2,3) each by (simp_all add: on_input_def on_upstream_cancelled_def ps Let_def)
  have branches: "cx_branches c1 = map (\<lambda>(b, s, t). (b, cancel_mark (pending_provisionals c) b s, t)) (cx_branches c)"
    by (simp add: c1 same)
  show ?thesis
  proof (intro conjI allI impI)
    show "hd out = AnswerCancel" "cx_queued c1 = []" by (simp_all add: out c1 same)
  next
    fix b state t assume b: "(b, state, t) \<in> set (cx_branches c)"
    note look = pending_provisionals_lookup [OF assms(1) b]
    have "CancelBranch b \<in> set out \<longleftrightarrow> (b, True) \<in> set (pending_provisionals c)" by (force simp: out)
    also have "\<dots> \<longleftrightarrow> map_of (pending_provisionals c) b = Some True"
      using pending_provisionals_distinct [OF assms(1)] by simp
    finally show "CancelBranch b \<in> set out \<longleftrightarrow> (\<exists>queued. state = Pending True queued)" 
      by (simp add: look split: branch_state.split)
    have mark: "cancel_mark (pending_provisionals c) b state
        = (case state of Pending True _ \<Rightarrow> Cancelling | Pending False _ \<Rightarrow> Pending False True | _ \<Rightarrow> state)"
      by (auto simp: cancel_mark_def look split: branch_state.split bool.split)
    then show b1: "(b, case state of Pending True _ \<Rightarrow> Cancelling | Pending False _ \<Rightarrow> Pending False True | _ \<Rightarrow> state, t) \<in> set (cx_branches c1)"
      using b by (force simp: branches)
    fix queued response
    assume r: "state = Pending False queued \<and> cx_request c \<noteq> None \<and> resp_provisional K response \<and> resp_status K response \<noteq> 100"
    then have q: "(b, Pending False True, t) \<in> set (cx_branches c1)" using b1 by simp
    have d: "distinct (map fst (cx_branches c1))" using assms(1) by (simp add: branches o_def split_def)
    note now = released [OF d q]
    have known: "knows_branch c1 b" using q by (auto simp: knows_branch_def list_ex_iff)
    from r obtain request where request: "cx_request c1 = Some request" by (auto simp: c1 same)
    have unfinished: "\<not> cx_finished c1" using assms(2) by (simp add: c1 same)
    show "{Respond (pop_via K response), CancelBranch b} \<subseteq> set (snd (on_input K M c1 (BranchResponse response b)))"
      using r unfinished known request now
      by (simp add: on_input_def on_branch_response_def on_provisional_def Let_def split_def)
  qed
qed

section \<open>The properties on concrete runs\<close>

theorem forged_token_never_routed_witness:
  "\<exists>c c' out. driven sample_kernel plain_mac edge_config Verifying c [VerifyToken ''A'' None]
    \<and> on_input sample_kernel plain_mac c (TokenFact InvalidToken) = (c', out) \<and> forwards_of out = [] \<and> cx_finished c'
    \<and> run sample_kernel plain_mac c' [TargetsResolved [scene_target 1000]] = (c', [])"
proof -
  obtain c where d: "driven sample_kernel plain_mac edge_config Verifying c [VerifyToken ''A'' None]" using forged_verifies by blast
  obtain c' out where s: "on_input sample_kernel plain_mac c (TokenFact InvalidToken) = (c', out)" by (rule prod.exhaust)
  from forged_token_never_routed [OF d s, of "[TargetsResolved [scene_target 1000]]"] d s show ?thesis by auto
qed

theorem forwards_in_preference_order_witness:
  "\<exists>b r hop. driven sample_kernel plain_mac sample_config Routed (scene_routed b (Pending False False))
      [ResolveTargets (aor_query sample_kernel scene_invite), Forward b r (scene_target 1000) hop,
       SetTimer TimerC (Some b) (effective_timer_c sample_config)]
    \<and> sorted_wrt (\<lambda>a b. pt_q b \<le> pt_q a) (map snd [(b, scene_target 1000)] @ cx_queued (scene_routed b (Pending False False)))"
proof -
  obtain b r hop where d: "driven sample_kernel plain_mac sample_config Routed (scene_routed b (Pending False False))
    [ResolveTargets (aor_query sample_kernel scene_invite), Forward b r (scene_target 1000) hop,
     SetTimer TimerC (Some b) (effective_timer_c sample_config)]" by (rule scene_runs)
  from forwards_in_preference_order [OF d] d show ?thesis by auto
qed

lemma scene_advances:
  "\<exists>c' b' r hop. on_input sample_kernel plain_mac (scene_routed b (Pending False False)) (BranchResponse (scene_response 404) b)
    = (c', [Forward b' r (scene_target 500) hop, SetTimer TimerC (Some b') (effective_timer_c sample_config)])
    \<and> cx_branches c' = [(b, Concluded 404, scene_target 1000), (b', Pending False False, scene_target 500)]"
proof -
  obtain b' r hop where f: "forward sample_kernel plain_mac \<lparr>fp_original = scene_invite, fp_validated = scene_validated,
      fp_target = scene_target 500, fp_index = Suc 0, fp_parallel_branches = u32_of_usize (Suc 0),
      fp_record_route = is_dialog_forming sample_kernel scene_invite, fp_tokens = None\<rparr> sample_config = Inr (b', r, hop)"
    using scene_forward by blast
  have "group_size 60 [scene_target 500] = 1" by (simp add: group_size_def)
  then show ?thesis
    using f scene_dialog
    by (simp add: on_input_def on_branch_response_def scene_routed_def scene_resolving_def context_new_def knows_branch_def Let_def
        conclude_branch_def update_branches_def continue_selection_def has_pending_def may_fork_next_group_def fork_next_group_def)
      (simp add: scene_validated_def)
qed

theorem next_group_waits_witness:
  "\<exists>b c' out. on_input sample_kernel plain_mac (scene_routed b (Pending False False)) (BranchResponse (scene_response 404) b) = (c', out)
    \<and> forwards_of out \<noteq> [] \<and> is_concluded (fst (snd (hd (cx_branches c'))))"
proof -
  obtain b r hop where d: "driven sample_kernel plain_mac sample_config Routed (scene_routed b (Pending False False))
    [ResolveTargets (aor_query sample_kernel scene_invite), Forward b r (scene_target 1000) hop,
     SetTimer TimerC (Some b) (effective_timer_c sample_config)]" by (rule scene_runs)
  obtain c' b' r' hop' where s: "on_input sample_kernel plain_mac (scene_routed b (Pending False False)) (BranchResponse (scene_response 404) b)
    = (c', [Forward b' r' (scene_target 500) hop', SetTimer TimerC (Some b') (effective_timer_c sample_config)])"
    "cx_branches c' = [(b, Concluded 404, scene_target 1000), (b', Pending False False, scene_target 500)]"
    using scene_advances by blast
  let ?out = "[Forward b' r' (scene_target 500) hop', SetTimer TimerC (Some b') (effective_timer_c sample_config)]"
  have "is_concluded (fst (snd (hd (cx_branches c'))))"
    using next_group_waits [OF d _ s(1)] s(2) by (simp add: scene_routed_def)
  with s(1) show ?thesis by (intro exI [of _ b] exI [of _ c'] exI [of _ ?out]) simp
qed

theorem concluded_set_forwards_nothing_witness:
  "\<exists>b c1 out. on_input sample_kernel plain_mac (scene_routed b (Pending False False)) UpstreamCancelled = (c1, out)
    \<and> forwards_of (snd (run sample_kernel plain_mac c1 [BranchResponse (scene_response 404) b])) = []"
proof -
  obtain b r hop where d: "driven sample_kernel plain_mac sample_config Routed (scene_routed b (Pending False False))
    [ResolveTargets (aor_query sample_kernel scene_invite), Forward b r (scene_target 1000) hop,
     SetTimer TimerC (Some b) (effective_timer_c sample_config)]" by (rule scene_runs)
  obtain c1 out where s: "on_input sample_kernel plain_mac (scene_routed b (Pending False False)) UpstreamCancelled = (c1, out)"
    by (rule prod.exhaust)
  have "\<not> cx_finished (scene_routed b (Pending False False))" by (simp add: scene_routed_def scene_resolving_def context_new_def)
  from concluded_set_forwards_nothing [OF d this _ s, of "[BranchResponse (scene_response 404) b]"] s
  show ?thesis by (auto simp: concludes_def)
qed

lemma sample_response_laws: "response_laws sample_kernel"
  by (auto simp: response_laws_def)
    (simp_all add: sample_kernel_def sip_kernel.defs reading_kernel_def uri_kernel.defs base_kernel_def)

theorem branch_503_never_forwarded_witness:
  "\<exists>input c' out response. on_input sample_kernel plain_mac scene_resolving input = (c', out)
    \<and> Respond response \<in> set out \<and> tm_status response = 503 \<and> input = TargetsUnavailable"
proof -
  let ?r = "scene_invite\<lparr>tm_status := 503\<rparr>"
  let ?h = "on_input sample_kernel plain_mac scene_resolving TargetsUnavailable"
  have r: "Respond ?r \<in> set (snd ?h)"
    by (simp add: on_input_def on_targets_unavailable_def respond_and_finish_def build_response_def Let_def
        scene_resolving_def context_new_def)
  have "(TargetsUnavailable :: (text_message, text_message) input) = TargetsUnavailable"
    using branch_503_never_forwarded [OF sample_response_laws prod.collapse [symmetric] r] by simp
  with r show ?thesis by (intro exI [of _ TargetsUnavailable] exI [of _ "fst ?h"] exI [of _ "snd ?h"] exI [of _ ?r]) simp
qed

theorem nothing_left_hanging_witness:
  "\<exists>c' out. on_input sample_kernel plain_mac (scene_routed (BranchId ''b'') (Pending False False))
        (BranchResponse (scene_response 404) (BranchId ''b'')) = (c', out)
    \<and> (cx_finished c' \<or> has_pending c' \<or> cx_answered c' \<or> forwards_of out = [] \<and> length (cx_queued c') < 1)"
proof -
  let ?c = "scene_routed (BranchId ''b'') (Pending False False)"
  let ?i = "BranchResponse (scene_response 404) (BranchId ''b'')"
  have "has_pending ?c" by (simp add: has_pending_def scene_routed_def)
  moreover have "length (cx_queued ?c) = 1" by (simp add: scene_routed_def)
  ultimately show ?thesis
    using nothing_left_hanging [of ?i sample_kernel plain_mac ?c "fst (on_input sample_kernel plain_mac ?c ?i)"
        "snd (on_input sample_kernel plain_mac ?c ?i)"]
    by (intro exI [of _ "fst (on_input sample_kernel plain_mac ?c ?i)"] exI [of _ "snd (on_input sample_kernel plain_mac ?c ?i)"]) simp
qed

theorem best_final_exact_witness:
  "best_final sample_kernel (scene_resolving\<lparr>cx_finals := [scene_response 408, scene_response 486, scene_response 404]\<rparr>) = Some 486"
proof -
  let ?c = "scene_resolving\<lparr>cx_finals := [scene_response 408, scene_response 486, scene_response 404]\<rparr>"
  have "486 \<in> resp_status sample_kernel ` set (cx_finals ?c) \<and> (\<forall>r \<in> set (cx_finals ?c). \<not> preferred (resp_status sample_kernel r) 486)"
    by (simp add: preferred_def within_class_rank_def)
  with best_final_exact [of sample_kernel ?c 486] show ?thesis by blast
qed

theorem cancel_waits_for_provisional_witness:
  "\<exists>c1 out. on_input sample_kernel plain_mac (scene_routed (BranchId ''b'') (Pending False False)) UpstreamCancelled = (c1, out)
    \<and> CancelBranch (BranchId ''b'') \<notin> set out
    \<and> CancelBranch (BranchId ''b'') \<in> set (snd (on_input sample_kernel plain_mac c1 (BranchResponse (scene_response 180) (BranchId ''b''))))"
proof -
  let ?c = "scene_routed (BranchId ''b'') (Pending False False)"
  obtain c1 out where s: "on_input sample_kernel plain_mac ?c UpstreamCancelled = (c1, out)" by (rule prod.exhaust)
  have c: "distinct (map fst (cx_branches ?c))" "\<not> cx_finished ?c" "(BranchId ''b'', Pending False False, scene_target 1000) \<in> set (cx_branches ?c)"
    "cx_request ?c \<noteq> None"
    by (simp_all add: scene_routed_def scene_resolving_def context_new_def)
  from cancel_waits_for_provisional [OF c(1,2) s] c(3,4)
  have "CancelBranch (BranchId ''b'') \<notin> set out"
    "CancelBranch (BranchId ''b'') \<in> set (snd (on_input sample_kernel plain_mac c1 (BranchResponse (scene_response 180) (BranchId ''b''))))"
    by (fastforce simp del: sample_fields, force)
  with s show ?thesis by blast
qed


section \<open>Where the code differs from its specification\<close>

text \<open>A \<^verbatim>\<open>503\<close> is not removed from the candidates: it wins over a
  \<^verbatim>\<open>504\<close>, which the caller then never sees.\<close>

lemma branch_503_stays_a_candidate: "best_status [504, 503] = Some 503"
  by (simp add: preferred_def within_class_rank_def)

text \<open>Answering cancels a branch that has sent no provisional, which the queued CANCEL exists to avoid.\<close>

lemma answering_cancels_unheard_branches:
  "(b, Pending False queued, t) \<in> set (cx_branches c) \<Longrightarrow> CancelBranch b \<in> set (snd (cancel_pending c))"
  by (force simp: cancel_pending_def pending_branch_ids_def Let_def)

text \<open>A \<^verbatim>\<open>6xx\<close> is passed on even when a final response already went upstream.\<close>

lemma late_6xx_answers_again:
  assumes "cx_request c = Some request" "knows_branch c b" "\<not> cx_finished c" "resp_status K response = 603" "\<not> resp_provisional K response"
  shows "Respond (pop_via K response) \<in> set (snd (on_input K M c (BranchResponse response b)))"
  using assms by (simp add: on_input_def on_branch_response_def Let_def split_def)

text \<open>A CANCEL that arrives while the targets are being resolved empties a queue that is not there yet; the
  targets are forked when they arrive.\<close>

lemma cancel_before_targets_still_forks:
  "\<exists>c1. on_input sample_kernel plain_mac scene_resolving UpstreamCancelled = (c1, [AnswerCancel])
    \<and> forwards_of (snd (on_input sample_kernel plain_mac c1 (TargetsResolved [scene_target 500, scene_target 1000]))) \<noteq> []"
proof -
  have "on_input sample_kernel plain_mac scene_resolving UpstreamCancelled = (scene_resolving, [AnswerCancel])"
    by (simp add: on_input_def on_upstream_cancelled_def conclude_target_set_def pending_provisionals_def List.map_filter_def
        scene_resolving_def context_new_def)
  moreover obtain b r hop where "on_input sample_kernel plain_mac scene_resolving (TargetsResolved [scene_target 500, scene_target 1000])
    = (scene_routed b (Pending False False),
       [Forward b r (scene_target 1000) hop, SetTimer TimerC (Some b) (effective_timer_c sample_config)])"
    using scene_forks by blast
  ultimately show ?thesis by auto
qed

text \<open>When the last queued group has only targets no copy can be built for, the context neither answers nor ends.\<close>

lemma unbuildable_group_strands:
  "\<exists>c1. on_input sample_kernel plain_mac ((scene_routed b (Pending False False))\<lparr>cx_queued := [(scene_target 500)\<lparr>pt_uri := []\<rparr>]\<rparr>)
        (BranchResponse (scene_response 404) b) = (c1, [])
    \<and> \<not> has_pending c1 \<and> cx_queued c1 = [] \<and> \<not> cx_answered c1 \<and> \<not> cx_finished c1"
proof -
  have "group_size n [t] = 1" for n t by (simp add: group_size_def)
  then show ?thesis
    using scene_dialog
    by (simp add: on_input_def on_branch_response_def scene_routed_def scene_resolving_def context_new_def knows_branch_def Let_def
        conclude_branch_def update_branches_def continue_selection_def has_pending_def may_fork_next_group_def fork_next_group_def
        forward_def and_then_def)
qed

end
