(* ===== verification/Ack.thy ===== *)
theory Ack imports Prelude Message Proxy Cookie Sample Validate Route Forward Context Steps Runs Scenario begin

text \<open>
  \<^verbatim>\<open>ack.rs\<close> of \<^verbatim>\<open>crates/sipx-clstr-proxy\<close>: the ACK of a
  \<^verbatim>\<open>2xx\<close>, which has no server transaction to answer: it is forwarded once, held for its
  token's verdict, or dropped for a stated reason.
\<close>

datatype ack_refusal = Refused refusal | NotForwardable forward_error | UnverifiableToken

datatype 'req ack_route = AckForward 'req bytes | AckVerify bytes "bytes option" | Unroutable ack_refusal

fun ack_describe :: "ack_refusal \<Rightarrow> string" where
  "ack_describe (Refused Drop) = ''the ACK is not well-formed enough to forward''"
| "ack_describe (Refused UnsupportedScheme) = ''the Request-URI's scheme is not forwarded''"
| "ack_describe (Refused TooManyHops) = ''Max-Forwards reached zero''"
| "ack_describe (Refused LoopDetected) = ''the ACK came back round a loop''"
| "ack_describe (Refused MaxBreadthExceeded) = ''Max-Breadth reached zero''"
| "ack_describe (Refused (BadExtension _)) = ''Proxy-Require names an unsupported extension''"
| "ack_describe (NotForwardable _) = ''no forwardable copy could be built''"
| "ack_describe UnverifiableToken = ''the Route's affinity token did not verify''"

definition ack_plan ::
  "('u, 'req, 'addr, 'hdr, 'via, 'resp, 'x) message_kernel_scheme \<Rightarrow> 'req \<Rightarrow> validated \<Rightarrow> 'req forward_plan" where
  "ack_plan K request validated =
    \<lparr>fp_original = request, fp_validated = validated, fp_target = predetermined_target K request, fp_index = 0,
     fp_parallel_branches = 1, fp_record_route = False, fp_tokens = None\<rparr>"

definition route_ack ::
  "('u, 'req, 'addr, 'hdr, 'via, 'resp, 'x) message_kernel_scheme \<Rightarrow> mac_kernel \<Rightarrow> 'req \<Rightarrow> proxy_config
    \<Rightarrow> token_verdict option \<Rightarrow> 'req ack_route" where
  "route_ack K M request config verdict =
    (case validate K M request config of
       Inl refusal \<Rightarrow> Unroutable (Refused refusal)
     | Inr validated \<Rightarrow>
        let (request, carriage) = preprocess K request config;
            forwarded = (case forward K M (ack_plan K request validated) config of
                Inr (_, forwarded, next_hop) \<Rightarrow> AckForward forwarded next_hop
              | Inl error \<Rightarrow> Unroutable (NotForwardable error))
        in case (carriage, verdict) of
             (Some _, Some InvalidToken) \<Rightarrow> Unroutable UnverifiableToken
           | (Some carried, None) \<Rightarrow> AckVerify (tc_token carried) (tc_partner carried)
           | (Some _, Some (ValidToken _)) \<Rightarrow> forwarded
           | (None, _) \<Rightarrow> forwarded)"

section \<open>Properties\<close>

lemma route_ack_AckForward:
  assumes "route_ack K M r config verdict = AckForward r' hop"
  obtains v r1 carriage branch where "validate K M r config = Inr v" "preprocess K r config = (r1, carriage)"
    "forward K M (ack_plan K r1 v) config = Inr (branch, r', hop)" "carriage = None \<or> (\<exists>node. verdict = Some (ValidToken node))"
  using assms
  by (auto simp: route_ack_def Let_def split: sum.splits prod.splits option.splits token_verdict.splits)

lemma preprocess_other:
  assumes "header_laws K" "preprocess K r config = (r1, carriage)" "edited_name m" "m \<noteq> Route"
  shows "header_all K r1 m = header_all K r m" "req_method K r1 = req_method K r"
proof -
  let ?r = "recover_request_uri K r config"
  have "r1 = ?r \<or> (\<exists>vs. r1 = set_routes K ?r vs)"
    using assms(2) by (auto simp: preprocess_def Let_def split: list.splits option.splits)
  then show "header_all K r1 m = header_all K r m" "req_method K r1 = req_method K r"
    using set_routes_ops(2,4) [OF assms(1)] recover_keeps [OF assms(1), of _ r config] assms(3,4) by auto
qed

text \<open>The ACK takes no private path: one that is forwarded passed validation, carried no token or one that
  verified, keeps its method and its \<^verbatim>\<open>Record-Route\<close>, and gains exactly the fork-0
  \<^verbatim>\<open>Via\<close> and one hop less; a carried token that has no verdict, or a bad one, never
  forwards.\<close>

theorem ack_takes_no_shortcut:
  assumes "header_laws K" and "route_ack K M r config verdict = AckForward r' hop"
  shows "\<exists>v. validate K M r config = Inr v
    \<and> (snd (preprocess K r config) = None \<or> (\<exists>node. verdict = Some (ValidToken node)))
    \<and> req_method K r' = req_method K r
    \<and> header_all K r' RecordRoute = header_all K r RecordRoute
    \<and> header_all K r' Via = via_value config (branch_for M config (va_cookie_input v) 0) # header_all K r Via
    \<and> set (header_all K r' MaxForwards) \<subseteq> {decimal (unat (va_max_forwards v) - 1)}"
  using assms(2)
proof (cases rule: route_ack_AckForward)
  case (1 v r1 carriage branch)
  let ?plan = "ack_plan K r1 v"
  have plan: "fp_original ?plan = r1" "fp_validated ?plan = v" "fp_index ?plan = 0" "\<not> fp_record_route ?plan"
    by (simp_all add: ack_plan_def)
  note same = preprocess_other [OF assms(1) 1(2)]
  note edits = forward_edits [OF assms(1) 1(3), unfolded plan]
  show ?thesis
    using edits(1-5) plan(4) same(1) [of Via] same(1) [of RecordRoute] same(2) [of Via] 1(1,2,4)
    by (intro exI [of _ v]) (auto simp: only_value_def split: if_splits)
qed

theorem ack_takes_no_shortcut_witness:
  "\<exists>r' hop. route_ack sample_kernel plain_mac scene_invite sample_config None = AckForward r' hop
    \<and> values_of (tm_headers r') RecordRoute = []"
proof -
  have pre: "preprocess sample_kernel scene_invite sample_config = (scene_invite, None)"
    using sample_preprocess by (simp add: scene_invite_def)
  have val: "validate sample_kernel plain_mac scene_invite sample_config = Inr scene_validated"
    using sample_validated by (simp add: scene_validated_def scene_invite_def)
  have "\<exists>branch r' hop. forward sample_kernel plain_mac (ack_plan sample_kernel scene_invite scene_validated) sample_config
      = Inr (branch, r', hop)"
    by (simp add: forward_def ack_plan_def predetermined_target_def scene_invite_def sample_invite_def Let_def and_then_def split: prod.split)
  then obtain r' hop where f: "route_ack sample_kernel plain_mac scene_invite sample_config None = AckForward r' hop"
    using pre val by (auto simp: route_ack_def)
  from ack_takes_no_shortcut [OF sample_header_laws f] f show ?thesis
    by (auto simp: scene_invite_def sample_invite_def)
qed

end
