(* ===== verification/Netaddr.thy ===== *)
theory Netaddr imports Prelude Ascii begin

text \<open>
  The textual IP addresses of the Rust standard library (\<^verbatim>\<open>core::net::parser\<close>), and
  the \<^verbatim>\<open>str\<close> operations the node crate reads its configuration with.  A reader takes the
  text that is left and returns its value and the rest, or nothing and consumes nothing.
\<close>

section \<open>Operations on str\<close>

definition str_trim :: "string \<Rightarrow> string" where
  "str_trim s = to_bytes (trim_text (from_utf8_lossy s))"

definition text_split_once :: "char \<Rightarrow> string \<Rightarrow> (string \<times> string) option" where
  "text_split_once d s = map_option (\<lambda>i. (take i s, drop (Suc i) s)) (position (\<lambda>c. c = d) s)"

definition rsplit_at :: "char \<Rightarrow> string \<Rightarrow> (string \<times> string) option" where
  "rsplit_at d s = map_option (\<lambda>(after, before). (rev before, rev after)) (text_split_once d (rev s))"

definition strip_suffix :: "char \<Rightarrow> string \<Rightarrow> string option" where
  "strip_suffix d s = (if s \<noteq> [] \<and> last s = d then Some (butlast s) else None)"

definition str_parse :: "nat \<Rightarrow> string \<Rightarrow> nat option" where
  "str_parse width s = parse_unsigned width (map of_char s)"

section \<open>Readers\<close>

type_synonym 'a reader = "string \<Rightarrow> ('a \<times> string) option"

definition read_char :: "char \<Rightarrow> unit reader" where
  "read_char d s = (case s of c # rest \<Rightarrow> if c = d then Some ((), rest) else None | [] \<Rightarrow> None)"

definition radix_digit :: "nat \<Rightarrow> char \<Rightarrow> nat option" where
  "radix_digit radix c =
    (let n = of_char c :: nat;
         v = (if 48 \<le> n \<and> n \<le> 57 then n - 48 else if 97 \<le> n \<and> n \<le> 122 then n - 87
              else if 65 \<le> n \<and> n \<le> 90 then n - 55 else 36)
     in if v < radix then Some v else None)"

definition read_number :: "nat \<Rightarrow> nat \<Rightarrow> bool \<Rightarrow> nat \<Rightarrow> nat reader" where
  "read_number radix max_digits allow_zero_prefix bound s =
    (let digits = takeWhile (\<lambda>c. radix_digit radix c \<noteq> None) s;
         value = foldl (\<lambda>v c. radix * v + the (radix_digit radix c)) 0 digits
     in if digits = [] \<or> length digits > max_digits then None
        else if \<not> allow_zero_prefix \<and> hd digits = CHR ''0'' \<and> length digits > 1 then None
        else if value < bound then Some (value, drop (length digits) s) else None)"

text \<open>\<^verbatim>\<open>read_separator\<close>: the separator comes before every item but the first.\<close>

definition read_separated :: "char \<Rightarrow> nat \<Rightarrow> 'a reader \<Rightarrow> 'a reader" where
  "read_separated d i inner s =
    (if i = 0 then inner s else case read_char d s of None \<Rightarrow> None | Some (_, rest) \<Rightarrow> inner rest)"

fun read_octets :: "nat \<Rightarrow> nat \<Rightarrow> nat list reader" where
  "read_octets i 0 s = Some ([], s)"
| "read_octets i (Suc n) s =
    (case read_separated (CHR ''.'') i (read_number 10 3 False 256) s of
       None \<Rightarrow> None
     | Some (octet, rest) \<Rightarrow> map_option (\<lambda>(octets, rest). (octet # octets, rest)) (read_octets (Suc i) n rest))"

definition read_v4 :: "nat list reader" where
  "read_v4 s = read_octets 0 4 s"

text \<open>\<^verbatim>\<open>read_groups\<close>: at most \<open>n\<close> more groups, the \<open>i\<close>-th first, and whether they
  end in an IPv4 address.\<close>

fun read_groups :: "nat \<Rightarrow> nat \<Rightarrow> string \<Rightarrow> (nat list \<times> bool) \<times> string" where
  "read_groups i 0 s = (([], False), s)"
| "read_groups i (Suc n) s =
    (case (if 0 < n then read_separated (CHR '':'') i read_v4 s else None) of
       Some ([a, b, c, d], rest) \<Rightarrow> (([256 * a + b, 256 * c + d], True), rest)
     | _ \<Rightarrow>
        (case read_separated (CHR '':'') i (read_number 16 4 True 65536) s of
           None \<Rightarrow> (([], False), s)
         | Some (g, rest) \<Rightarrow> (case read_groups (Suc i) n rest of ((gs, v4), rest) \<Rightarrow> ((g # gs, v4), rest))))"

definition read_v6 :: "nat list reader" where
  "read_v6 s =
    (case read_groups 0 8 s of ((front, ends_v4), rest) \<Rightarrow>
      if length front = 8 then Some (front, rest)
      else if ends_v4 then None
      else
        (case read_char (CHR '':'') rest of None \<Rightarrow> None | Some (_, rest) \<Rightarrow>
         case read_char (CHR '':'') rest of None \<Rightarrow> None | Some (_, rest) \<Rightarrow>
         case read_groups 0 (8 - (length front + 1)) rest of ((back, _), rest) \<Rightarrow>
           Some (front @ replicate (8 - length front - length back) 0 @ back, rest)))"

definition parse_v4 :: "string \<Rightarrow> nat list option" where
  "parse_v4 s = (case read_v4 s of Some (octets, []) \<Rightarrow> Some octets | _ \<Rightarrow> None)"

definition parse_v6 :: "string \<Rightarrow> nat list option" where
  "parse_v6 s = (case read_v6 s of Some (groups, []) \<Rightarrow> Some groups | _ \<Rightarrow> None)"

definition v4_of_octets :: "nat list \<Rightarrow> u32" where
  "v4_of_octets octets = of_nat (foldl (\<lambda>v n. 256 * v + n) 0 octets)"

definition v6_of_groups :: "nat list \<Rightarrow> 128 word" where
  "v6_of_groups groups = of_nat (foldl (\<lambda>v n. 65536 * v + n) 0 groups)"

text \<open>\<^verbatim>\<open>str::parse::<IpAddr>\<close>.  The whole text must be read.\<close>

definition parse_ip :: "string \<Rightarrow> ip_addr option" where
  "parse_ip s =
    (case read_v4 s of
       Some (octets, rest) \<Rightarrow> if rest = [] then Some (V4 (v4_of_octets octets)) else None
     | None \<Rightarrow> map_option (\<lambda>groups. V6 (v6_of_groups groups)) (parse_v6 s))"

definition is_unspecified :: "ip_addr \<Rightarrow> bool" where
  "is_unspecified ip = (case ip of V4 v \<Rightarrow> v = 0 | V6 v \<Rightarrow> v = 0)"

record socket_addr =
  sa_ip :: ip_addr
  sa_port :: u16
  sa_flowinfo :: u32
  sa_scope :: u32

section \<open>Facts\<close>

lemma read_number_rest:
  assumes "read_number radix m z bound s = Some (v, rest)"
  shows "\<exists>ds. s = ds @ rest \<and> (\<forall>c \<in> set ds. radix_digit radix c \<noteq> None)"
proof -
  let ?ds = "takeWhile (\<lambda>c. radix_digit radix c \<noteq> None) s"
  have "rest = drop (length ?ds) s" using assms by (simp add: read_number_def Let_def split: if_splits)
  then have "s = ?ds @ rest" by (metis takeWhile_dropWhile_id dropWhile_eq_drop)
  then show ?thesis using set_takeWhileD by fast
qed

definition address_char :: "char \<Rightarrow> bool" where
  "address_char c \<longleftrightarrow> radix_digit 16 c \<noteq> None \<or> c = CHR '':'' \<or> c = CHR ''.''"

text \<open>What a reader consumed, and the colons in it.\<close>

definition colons :: "string \<Rightarrow> nat" where
  "colons s = length (filter (\<lambda>c. c = CHR '':'') s)"

lemma colons_simps [simp]: "colons [] = 0" "colons (c # s) = (if c = CHR '':'' then Suc (colons s) else colons s)"
  "colons (s @ t) = colons s + colons t"
  by (simp_all add: colons_def)

lemma separated_cases:
  assumes "read_separated d i inner s = Some (v, rest)"
  obtains t where "inner t = Some (v, rest)" "s = (if i = 0 then t else d # t)"
  using assms by (cases "i = 0") (auto simp: read_separated_def read_char_def split: option.splits list.splits if_splits)

lemma decimal_digit_address: "radix_digit 10 c \<noteq> None \<Longrightarrow> address_char c"
  by (auto simp: radix_digit_def address_char_def Let_def split: if_splits)

lemma number_read:
  assumes "read_number radix m z bound s = Some (v, rest)" "radix = 10 \<or> radix = 16"
  shows "\<exists>ds. s = ds @ rest \<and> (\<forall>c \<in> set ds. address_char c)"
proof -
  from read_number_rest [OF assms(1)] obtain ds where ds: "s = ds @ rest" "\<forall>c \<in> set ds. radix_digit radix c \<noteq> None" by blast
  then have "address_char c" if "c \<in> set ds" for c
    using that assms(2) decimal_digit_address [of c] by (auto simp: address_char_def)
  with ds(1) show ?thesis by blast
qed

lemma octets_chars: "read_octets i n s = Some (os, rest) \<Longrightarrow>
    \<exists>ds. s = ds @ rest \<and> (\<forall>c \<in> set ds. radix_digit 10 c \<noteq> None \<or> c = CHR ''.'')"
proof (induction i n s arbitrary: os rest rule: read_octets.induct)
  case (2 i n s)
  then obtain octet r os' where r: "read_separated (CHR ''.'') i (read_number 10 3 False 256) s = Some (octet, r)"
    "read_octets (Suc i) n r = Some (os', rest)" by (auto split: option.splits)
  from separated_cases [OF r(1)] obtain t where t: "read_number 10 3 False 256 t = Some (octet, r)"
    "s = (if i = 0 then t else CHR ''.'' # t)" by blast
  from read_number_rest [OF t(1)] obtain ds where ds: "t = ds @ r" "\<forall>c \<in> set ds. radix_digit 10 c \<noteq> None" by auto
  from "2.IH" [OF r(1) refl r(2)] obtain es where es: "r = es @ rest" "\<forall>c \<in> set es. radix_digit 10 c \<noteq> None \<or> c = CHR ''.''"
    by blast
  show ?case
    using t(2) ds es by (cases "i = 0") (rule exI [of _ "ds @ es"], force, rule exI [of _ "CHR ''.'' # ds @ es"], force)
qed (rule exI [of _ "[]"], simp)

lemma octets_read:
  assumes "read_octets i n s = Some (os, rest)"
  shows "\<exists>ds. s = ds @ rest \<and> (\<forall>c \<in> set ds. address_char c)"
proof -
  obtain ds where "s = ds @ rest" "\<forall>c \<in> set ds. radix_digit 10 c \<noteq> None \<or> c = CHR ''.''"
    using octets_chars [OF assms] by blast
  moreover have "address_char c" if "radix_digit 10 c \<noteq> None \<or> c = CHR ''.''" for c
    using that decimal_digit_address [of c] by (cases "c = CHR ''.''") (auto simp: address_char_def)
  ultimately show ?thesis by blast
qed

lemma groups_read:
  "read_groups i n s = ((gs, v4), rest) \<Longrightarrow>
    \<exists>ds. s = ds @ rest \<and> (\<forall>c \<in> set ds. address_char c)
      \<and> length gs \<le> colons ds + (if i = 0 then 1 else 0) + (if v4 then 1 else 0)"
proof (induction n arbitrary: i s gs v4 rest)
  case (Suc n)
  show ?case
  proof (cases "\<exists>a b c d r. (if 0 < n then read_separated (CHR '':'') i read_v4 s else None) = Some ([a, b, c, d], r)")
    case True
    then obtain a b c d r where r: "read_separated (CHR '':'') i read_v4 s = Some ([a, b, c, d], r)" "0 < n"
      by (auto split: if_splits)
    with Suc.prems have out: "gs = [256 * a + b, 256 * c + d]" "v4" "rest = r" by auto
    from separated_cases [OF r(1)] obtain t where t: "read_v4 t = Some ([a, b, c, d], r)"
      "s = (if i = 0 then t else CHR '':'' # t)" by blast
    from octets_read t(1) obtain ds where "t = ds @ r" "\<forall>c \<in> set ds. address_char c" unfolding read_v4_def by blast
    with t(2) out show ?thesis
      by (cases "i = 0") (rule exI [of _ ds], simp, rule exI [of _ "CHR '':'' # ds"], simp add: address_char_def)
  next
    case False
    then have other: "read_groups i (Suc n) s =
        (case read_separated (CHR '':'') i (read_number 16 4 True 65536) s of
           None \<Rightarrow> (([], False), s)
         | Some (g, rest) \<Rightarrow> (case read_groups (Suc i) n rest of ((gs, v4), rest) \<Rightarrow> ((g # gs, v4), rest)))"
      by (auto split: option.splits list.splits if_splits)
    show ?thesis
    proof (cases "read_separated (CHR '':'') i (read_number 16 4 True 65536) s")
      case None
      with other Suc.prems show ?thesis by (intro exI [of _ "[]"]) simp
    next
      case (Some p)
      then obtain g r where p: "read_separated (CHR '':'') i (read_number 16 4 True 65536) s = Some (g, r)" by (cases p) simp
      obtain gs' v4' r' where rec: "read_groups (Suc i) n r = ((gs', v4'), r')" by (metis prod.exhaust)
      with other p Suc.prems have out: "gs = g # gs'" "v4 = v4'" "rest = r'" by simp_all
      from separated_cases [OF p] obtain t where t: "read_number 16 4 True 65536 t = Some (g, r)"
        "s = (if i = 0 then t else CHR '':'' # t)" by blast
      from number_read [OF t(1)] obtain ds where ds: "t = ds @ r" "\<forall>c \<in> set ds. address_char c" by auto
      have "\<exists>es. r = es @ rest \<and> (\<forall>c \<in> set es. address_char c) \<and> length gs' \<le> colons es + (if v4 then 1 else 0)"
        using Suc.IH [OF rec] out by simp
      then obtain es where es: "r = es @ rest" "\<forall>c \<in> set es. address_char c" "length gs' \<le> colons es + (if v4 then 1 else 0)"
        by blast
      show ?thesis
        using t(2) ds es out(1) by (cases "i = 0") (rule exI [of _ "ds @ es"], force,
          rule exI [of _ "CHR '':'' # ds @ es"], force simp: address_char_def)
    qed
  qed
qed (rule exI [of _ "[]"], simp)

text \<open>An IPv6 literal is hexadecimal digits, colons and dots, with at least two colons.\<close>

lemma parse_v6_chars:
  assumes "parse_v6 s = Some groups"
  shows "\<forall>c \<in> set s. address_char c" "2 \<le> colons s"
proof -
  have v6: "read_v6 s = Some (groups, [])" using assms by (auto simp: parse_v6_def split: option.splits list.splits)
  obtain front v4 r where f: "read_groups 0 8 s = ((front, v4), r)" by (metis prod.exhaust)
  from groups_read [OF f] obtain ds where ds: "s = ds @ r" "\<forall>c \<in> set ds. address_char c"
    "length front \<le> colons ds + 1 + (if v4 then 1 else 0)" by auto
  have "(\<forall>c \<in> set s. address_char c) \<and> 2 \<le> colons s"
  proof (cases "length front = 8")
    case True
    with v6 f have "r = []" by (simp add: read_v6_def)
    with ds True show ?thesis by (simp split: if_splits)
  next
    case False
    with v6 f obtain r' where r': "r = CHR '':'' # CHR '':'' # r'"
      by (auto simp: read_v6_def read_char_def split: if_splits option.splits list.splits)
    obtain ts v q where b: "read_groups 0 (8 - (length front + 1)) r' = ((ts, v), q)" by (metis prod.exhaust)
    from groups_read [OF b] obtain es where es: "r' = es @ q" "\<forall>c \<in> set es. address_char c" by auto
    have "q = []" using v6 f b r' False by (auto simp: read_v6_def read_char_def split: if_splits)
    with ds es r' show ?thesis by (auto simp: address_char_def)
  qed
  then show "\<forall>c \<in> set s. address_char c" "2 \<le> colons s" by blast+
qed

section \<open>Splitting\<close>

lemma split_once_exact: "text_split_once d s = Some (a, b) \<longleftrightarrow> s = a @ d # b \<and> d \<notin> set a"
proof
  assume "text_split_once d s = Some (a, b)"
  then obtain i where i: "position (\<lambda>c. c = d) s = Some i" "a = take i s" "b = drop (Suc i) s"
    by (auto simp: text_split_once_def)
  have "\<forall>c \<in> set a. c \<noteq> d" using position_SomeD [OF i(1)] position_less [OF i(1)] i(2)
    by (auto simp: in_set_conv_nth)
  then show "s = a @ d # b \<and> d \<notin> set a"
    using i position_SomeD [OF i(1)] position_less [OF i(1)] by (auto simp: id_take_nth_drop)
next
  assume s: "s = a @ d # b \<and> d \<notin> set a"
  then have "position (\<lambda>c. c = d) a = None" by (auto simp: position_None)
  with s show "text_split_once d s = Some (a, b)" by (simp add: text_split_once_def position_append)
qed

lemma split_once_None: "text_split_once d s = None \<longleftrightarrow> d \<notin> set s"
  by (auto simp: text_split_once_def position_None)

lemma strip_suffix_exact: "strip_suffix d s = Some a \<longleftrightarrow> s = a @ [d]"
  by (cases s rule: rev_cases) (auto simp: strip_suffix_def)

lemma str_trim_plain:
  assumes "\<forall>c \<in> set s. is_ascii_char c \<and> \<not> white_space (of_char c)"
  shows "str_trim s = s"
proof -
  have p: "from_utf8_lossy s = map of_char s" using assms by (intro from_utf8_lossy_ascii) (simp add: list_all_iff)
  have none: "\<forall>p \<in> set (map of_char s). \<not> white_space p" using assms by auto
  then have "trim_text (map of_char s) = map of_char s"
    by (simp add: trim_text_def dropWhile_none)
  with p assms show ?thesis by (simp add: str_trim_def to_bytes_ascii list_all_iff is_ascii_char_def o_def)
qed

end
