(* ===== verification/Listen.thy ===== *)
theory Listen imports Prelude Ascii Netaddr begin

text \<open>
  \<^verbatim>\<open>listen.rs\<close> of \<^verbatim>\<open>crates/sipx-clstr-node\<close>: the addresses a node binds and the
  ones it advertises, and the checks a declared set of listeners passes.  The names the transport crate
  gives its transports, and the endpoint configuration it starts from, are arguments.
\<close>

section \<open>Advertised addresses\<close>

datatype listener_error = EmptyHost | UnspecifiedHost string | ZeroPort | MalformedAddress string
  | DuplicateTransport string | NoListener | ClearTextDisagreement string | UnsupportedTransport string

fun listener_error_text :: "listener_error \<Rightarrow> string" where
  "listener_error_text EmptyHost = ''a listener must advertise a host''"
| "listener_error_text (UnspecifiedHost h) = ''`'' @ h
    @ ''` cannot be advertised: an unspecified address is where to listen, not where to be reached''"
| "listener_error_text ZeroPort = ''port 0 cannot be advertised: it names no port''"
| "listener_error_text (MalformedAddress t) = ''`'' @ t @ ''` is not a host or a host:port''"
| "listener_error_text (DuplicateTransport t) =
    t @ '' is declared twice: a message arriving on it would have two addresses to give''"
| "listener_error_text NoListener = ''a node must declare at least one listener''"
| "listener_error_text (ClearTextDisagreement w) = ''the UDP and TCP listeners disagree about the '' @ w
    @ '': sipx binds one endpoint for the cleartext pair''"
| "listener_error_text (UnsupportedTransport t) = ''a '' @ t @ '' listener is not supported here yet''"

record advertised =
  ad_host :: string
  ad_port :: "u16 option"

definition strip_brackets :: "string \<Rightarrow> string" where
  "strip_brackets s = rev (dropWhile (\<lambda>c. c = CHR '']'') (rev (dropWhile (\<lambda>c. c = CHR ''['') s)))"

definition advertised_new :: "string \<Rightarrow> u16 option \<Rightarrow> listener_error + advertised" where
  "advertised_new host port =
    (let host = strip_brackets (str_trim host) in
     if host = [] then Inl EmptyHost
     else if (case parse_ip host of Some ip \<Rightarrow> is_unspecified ip | None \<Rightarrow> False) then Inl (UnspecifiedHost host)
     else if port = Some 0 then Inl ZeroPort
     else Inr \<lparr>ad_host = host, ad_port = port\<rparr>)"

definition parse_port :: "string \<Rightarrow> u16 option" where
  "parse_port s = map_option of_nat (str_parse 16 s)"

definition strip_char :: "char \<Rightarrow> string \<Rightarrow> string option" where
  "strip_char d s = (if s \<noteq> [] \<and> hd s = d then Some (tl s) else None)"

definition advertised_parse :: "string \<Rightarrow> listener_error + advertised" where
  "advertised_parse text =
    (let text = str_trim text; malformed = MalformedAddress text in
     case strip_char (CHR ''['') text of
       Some rest \<Rightarrow>
        (case text_split_once (CHR '']'') rest of
           None \<Rightarrow> Inl malformed
         | Some (host, tail) \<Rightarrow>
            if tail = [] then advertised_new host None
            else
              and_then (ok_or malformed (strip_char (CHR '':'') tail)) (\<lambda>port.
              and_then (ok_or malformed (parse_port port)) (\<lambda>port.
              advertised_new host (Some port))))
     | None \<Rightarrow>
        if parse_ip text \<noteq> None then advertised_new text None
        else case rsplit_at (CHR '':'') text of
            Some (host, port) \<Rightarrow>
              and_then (ok_or malformed (parse_port port)) (\<lambda>port. advertised_new host (Some port))
          | None \<Rightarrow> advertised_new text None)"

definition host_in_uri :: "advertised \<Rightarrow> string" where
  "host_in_uri a = (if parse_v6 (ad_host a) \<noteq> None then ''['' @ ad_host a @ '']'' else ad_host a)"

section \<open>Listeners\<close>

datatype transport_kind = Udp | Tcp | Tls | Ws | Wss | Quic

record listener =
  li_transport :: transport_kind
  li_bind :: socket_addr
  li_advertise :: advertised

definition listener_new ::
  "(transport_kind \<Rightarrow> string) \<Rightarrow> transport_kind \<Rightarrow> socket_addr \<Rightarrow> advertised \<Rightarrow> listener_error + listener" where
  "listener_new name transport bind advertise =
    (if transport \<in> {Udp, Tcp, Tls}
     then Inr \<lparr>li_transport = transport, li_bind = bind, li_advertise = advertise\<rparr>
     else Inl (UnsupportedTransport (name transport)))"

definition ip_text :: "ip_addr \<Rightarrow> string" where
  "ip_text ip = (case ip of V4 v \<Rightarrow> v4_display v | V6 v \<Rightarrow> v6_display v)"

definition listener_bound ::
  "(transport_kind \<Rightarrow> string) \<Rightarrow> transport_kind \<Rightarrow> socket_addr \<Rightarrow> listener_error + listener" where
  "listener_bound name transport bind =
    and_then (advertised_new (ip_text (sa_ip bind)) (Some (sa_port bind))) (listener_new name transport bind)"

definition advertising :: "listener \<Rightarrow> advertised \<Rightarrow> listener" where
  "advertising l advertise = l\<lparr>li_advertise := advertise\<rparr>"

definition advertised_port :: "listener \<Rightarrow> u16" where
  "advertised_port l = (case ad_port (li_advertise l) of Some port \<Rightarrow> port | None \<Rightarrow> sa_port (li_bind l))"

definition sent_by :: "listener \<Rightarrow> string" where
  "sent_by l = host_in_uri (li_advertise l) @ '':'' @ decimal (unat (advertised_port l))"

definition transport_param :: "listener \<Rightarrow> string" where
  "transport_param l =
    (case li_transport l of Tcp \<Rightarrow> '';transport=tcp'' | Tls \<Rightarrow> '';transport=tls'' | _ \<Rightarrow> '''')"

definition listener_record_route :: "listener \<Rightarrow> bytes" where
  "listener_record_route l = ''<sip:'' @ sent_by l @ transport_param l @ '';lr>''"

definition contact_uri :: "listener \<Rightarrow> string option \<Rightarrow> bytes" where
  "contact_uri l user =
    ''<sip:'' @ (case user of Some user \<Rightarrow> user @ ''@'' | None \<Rightarrow> '''') @ sent_by l @ transport_param l @ ''>''"

section \<open>The set of listeners\<close>

definition receiving :: "listener list \<Rightarrow> transport_kind \<Rightarrow> listener option" where
  "receiving ls transport = List.find (\<lambda>l. li_transport l = transport) ls"

text \<open>The first listener whose transport an earlier one already has.\<close>

fun first_duplicate :: "transport_kind list \<Rightarrow> listener list \<Rightarrow> transport_kind option" where
  "first_duplicate seen [] = None"
| "first_duplicate seen (l # ls) =
    (if li_transport l \<in> set seen then Some (li_transport l) else first_duplicate (li_transport l # seen) ls)"

definition listeners_new :: "(transport_kind \<Rightarrow> string) \<Rightarrow> listener list \<Rightarrow> listener_error + listener list" where
  "listeners_new name ls =
    (if ls = [] then Inl NoListener
     else case first_duplicate [] ls of
       Some transport \<Rightarrow> Inl (DuplicateTransport (name transport))
     | None \<Rightarrow>
        (case (receiving ls Udp, receiving ls Tcp) of
           (Some udp, Some tcp) \<Rightarrow>
             if li_bind udp \<noteq> li_bind tcp then Inl (ClearTextDisagreement ''bind address'')
             else if li_advertise udp \<noteq> li_advertise tcp then Inl (ClearTextDisagreement ''advertised address'')
             else Inr ls
         | _ \<Rightarrow> Inr ls))"

definition cleartext :: "listener list \<Rightarrow> listener option" where
  "cleartext ls = (case receiving ls Udp of Some l \<Rightarrow> Some l | None \<Rightarrow> receiving ls Tcp)"

text \<open>What the node sets of the transport crate's configuration.\<close>

record endpoint_settings =
  es_bind :: socket_addr
  es_sent_by :: string
  es_sent_by_port :: "u16 option"
  es_tcp :: bool

definition endpoint_config ::
  "(socket_addr \<Rightarrow> 'x endpoint_settings_scheme) \<Rightarrow> listener list \<Rightarrow> 'x endpoint_settings_scheme option" where
  "endpoint_config base ls =
    map_option (\<lambda>l. (base (li_bind l))\<lparr>es_sent_by := ad_host (li_advertise l),
        es_sent_by_port := Some (advertised_port l), es_tcp := receiving ls Tcp \<noteq> None\<rparr>)
      (cleartext ls)"

section \<open>What is advertised can be reached\<close>

lemma advertised_new_Inr:
  assumes "advertised_new host port = Inr a"
  shows "ad_host a = strip_brackets (str_trim host)" "ad_host a \<noteq> []" "ad_port a = port" "port \<noteq> Some 0"
    "parse_ip (ad_host a) = Some ip \<Longrightarrow> \<not> is_unspecified ip"
  using assms by (auto simp: advertised_new_def Let_def split: if_splits option.splits)

lemma advertised_parse_new:
  assumes "advertised_parse text = Inr a"
  shows "\<exists>host port. advertised_new host port = Inr a"
  using assms by (clarsimp simp: advertised_parse_def Let_def and_then_Inr split: if_splits option.splits) blast+

text \<open>An advertised address names a place: one that parses has a host, which is not an unspecified
  address, and no port 0; and the host is the text between its brackets.\<close>

theorem advertised_names_a_place:
  assumes "advertised_parse text = Inr a"
  shows "ad_host a \<noteq> [] \<and> ad_port a \<noteq> Some 0 \<and> parse_ip (ad_host a) \<noteq> Some (V4 0) \<and> parse_ip (ad_host a) \<noteq> Some (V6 0)"
proof -
  obtain host port where "advertised_new host port = Inr a" using advertised_parse_new [OF assms] by blast
  from advertised_new_Inr [OF this] show ?thesis by (auto simp: is_unspecified_def)
qed


text \<open>Text of host characters only: nothing to trim, no brackets.\<close>

definition host_char :: "char \<Rightarrow> bool" where
  "host_char c \<longleftrightarrow> is_alphanumeric c \<or> c = CHR ''-'' \<or> c = CHR ''.'' \<or> c = CHR '':''"

lemma host_char_points: "host_char c \<Longrightarrow> is_ascii_char c \<and> \<not> white_space (of_char c) \<and> c \<noteq> CHR ''['' \<and> c \<noteq> CHR '']''"
  by (auto simp: host_char_def is_alphanumeric_def is_ascii_char_def white_space_def Let_def)

lemma address_char_host: "address_char c \<Longrightarrow> host_char c"
  by (auto simp: address_char_def host_char_def is_alphanumeric_def radix_digit_def Let_def split: if_splits)

lemma strip_brackets_plain:
  assumes "CHR ''['' \<notin> set s" "CHR '']'' \<notin> set s"
  shows "strip_brackets s = s"
proof -
  have "dropWhile (\<lambda>c. c = CHR ''['') s = s" "dropWhile (\<lambda>c. c = CHR '']'') (rev s) = rev s"
    using assms by (intro dropWhile_none, auto)+
  then show ?thesis by (simp add: strip_brackets_def)
qed

lemma advertised_new_plain:
  assumes "\<forall>c \<in> set host. host_char c" "host \<noteq> []" "parse_ip host \<noteq> Some (V4 0)" "parse_ip host \<noteq> Some (V6 0)" "port \<noteq> Some 0"
  shows "advertised_new host port = Inr \<lparr>ad_host = host, ad_port = port\<rparr>"
proof -
  have "str_trim host = host" "strip_brackets host = host"
    using assms(1) host_char_points by (auto intro!: str_trim_plain strip_brackets_plain)
  with assms(2-5) show ?thesis
    by (auto simp: advertised_new_def Let_def is_unspecified_def split: option.split ip_addr.splits)
qed

lemma parse_port_decimal: "parse_port (decimal (unat (p :: u16))) = Some p"
proof -
  have "unat p < 2 ^ 16" using unsigned_less [of p, where ?'a = nat] by simp
  then show ?thesis by (simp add: parse_port_def str_parse_def parse_unsigned_decimal)
qed

lemma split_once_at: "d \<notin> set s \<Longrightarrow> text_split_once d (s @ d # t) = Some (s, t)"
proof -
  assume "d \<notin> set s"
  then have "position (\<lambda>c. c = d) s = None" by (auto simp: position_None)
  then show ?thesis by (simp add: text_split_once_def position_append)
qed

lemma rsplit_at_end: "d \<notin> set t \<Longrightarrow> rsplit_at d (s @ d # t) = Some (s, t)"
  using split_once_at [of d "rev t" "rev s"] by (simp add: rsplit_at_def)

lemma decimal_host_chars: "c \<in> set (decimal n) \<Longrightarrow> host_char c \<and> c \<noteq> CHR '':''"
  using decimal_digits [of n] by (auto simp: host_char_def is_digit_def is_alphanumeric_def Let_def)

lemma one_colon_no_ip:
  assumes "CHR '':'' \<notin> set host"
  shows "parse_ip (host @ '':'' @ decimal n) = None"
proof -
  let ?s = "host @ '':'' @ decimal n"
  have "colons host = 0" "colons (decimal n) = 0"
    using assms decimal_host_chars [of _ n] by (auto simp: colons_def filter_empty_conv)
  then have "colons ?s = 1" by simp
  then have v6: "parse_v6 ?s = None" using parse_v6_chars(2) [of ?s] by (cases "parse_v6 ?s") auto
  have "rest \<noteq> []" if r: "read_v4 ?s = Some (os, rest)" for os rest
  proof
    assume "rest = []"
    with r have "\<forall>c \<in> set ?s. radix_digit 10 c \<noteq> None \<or> c = CHR ''.''" using octets_chars [of 0 4 ?s os "[]"] by (simp add: read_v4_def)
    then show False by (simp add: radix_digit_def)
  qed
  with v6 show ?thesis by (auto simp: parse_ip_def split: option.split)
qed

text \<open>C36. What a node writes into a \<^verbatim>\<open>Via\<close> reads back as what it advertises: the sent-by of a
  listener whose host is a host name, an IPv4 or an IPv6 literal parses to that very host and the advertised
  port, the brackets of an IPv6 literal included.\<close>

theorem sent_by_reads_back:
  assumes "ad_host (li_advertise l) \<noteq> []" and "parse_v6 (ad_host (li_advertise l)) \<noteq> None
      \<or> (\<forall>c \<in> set (ad_host (li_advertise l)). host_char c \<and> c \<noteq> CHR '':'')"
    and "parse_ip (ad_host (li_advertise l)) \<notin> {Some (V4 0), Some (V6 0)}" and "advertised_port l \<noteq> 0"
  shows "advertised_parse (sent_by l) = Inr \<lparr>ad_host = ad_host (li_advertise l), ad_port = Some (advertised_port l)\<rparr>"
proof -
  let ?h = "ad_host (li_advertise l)" and ?p = "decimal (unat (advertised_port l))"
  have host: "\<forall>c \<in> set ?h. host_char c"
    using assms(2) parse_v6_chars(1) [of ?h] address_char_host by (cases "parse_v6 ?h") auto
  have new: "advertised_new ?h (Some (advertised_port l)) = Inr \<lparr>ad_host = ?h, ad_port = Some (advertised_port l)\<rparr>"
    using assms(1,3,4) host by (intro advertised_new_plain) auto
  show ?thesis
  proof (cases "parse_v6 ?h = None")
    case False
    have "str_trim (sent_by l) = sent_by l"
      using host host_char_points decimal_host_chars by (intro str_trim_plain)
        (auto simp: sent_by_def host_in_uri_def is_ascii_char_def white_space_def)
    moreover have "strip_char (CHR ''['') (sent_by l) = Some (?h @ CHR '']'' # '':'' @ ?p)"
      using False by (simp add: sent_by_def host_in_uri_def strip_char_def)
    moreover have "text_split_once (CHR '']'') (?h @ CHR '']'' # '':'' @ ?p) = Some (?h, '':'' @ ?p)"
      using host host_char_points by (intro split_once_at) blast
    ultimately show ?thesis
      by (simp add: advertised_parse_def strip_char_def parse_port_decimal new)
  next
    case True
    with assms(2) have plain: "\<forall>c \<in> set ?h. host_char c \<and> c \<noteq> CHR '':''" by simp
    have s: "sent_by l = ?h @ '':'' @ ?p" using True by (simp add: sent_by_def host_in_uri_def)
    have "str_trim (sent_by l) = sent_by l"
      using host host_char_points decimal_host_chars unfolding s by (intro str_trim_plain) (auto simp: is_ascii_char_def white_space_def)
    moreover have "strip_char (CHR ''['') (sent_by l) = None"
      using assms(1) host host_char_points unfolding s by (cases ?h) (auto simp: strip_char_def)
    moreover have "parse_ip (sent_by l) = None" unfolding s using plain by (intro one_colon_no_ip) auto
    moreover have "rsplit_at (CHR '':'') (sent_by l) = Some (?h, ?p)"
      unfolding s using rsplit_at_end [of "CHR '':''" ?p ?h] decimal_host_chars by auto
    ultimately show ?thesis by (simp add: advertised_parse_def parse_port_decimal new)
  qed
qed

section \<open>One endpoint serves the cleartext pair\<close>

lemma first_duplicate_None:
  "first_duplicate seen ls = None \<longleftrightarrow> distinct (map li_transport ls) \<and> set (map li_transport ls) \<inter> set seen = {}"
  by (induction ls arbitrary: seen) auto

lemma receiving_only:
  "distinct (map li_transport ls) \<Longrightarrow> l \<in> set ls \<Longrightarrow> receiving ls (li_transport l) = Some l"
  unfolding receiving_def by (induction ls) auto

lemma listeners_new_Inr:
  assumes "listeners_new name ls = Inr ls'"
  shows "ls' = ls" "ls \<noteq> []" "distinct (map li_transport ls)"
    "receiving ls Udp = Some u \<Longrightarrow> receiving ls Tcp = Some t \<Longrightarrow> li_bind u = li_bind t \<and> li_advertise u = li_advertise t"
  using assms by (auto simp: listeners_new_def first_duplicate_None split: if_splits option.splits)

text \<open>An accepted set is served as declared: each transport has one listener, and the one endpoint that is
  bound for UDP and TCP binds, and writes as its sent-by, exactly what every cleartext listener of the set
  declares, with TCP on only if a TCP listener is declared.\<close>

theorem endpoint_serves_declared:
  assumes "listeners_new name ls = Inr ls'" and "l \<in> set ls'" and "li_transport l \<in> {Udp, Tcp}"
  shows "receiving ls' (li_transport l) = Some l
    \<and> (\<exists>settings. endpoint_config base ls' = Some settings \<and> es_bind settings = es_bind (base (li_bind l))
        \<and> es_sent_by settings = ad_host (li_advertise l) \<and> es_sent_by_port settings = Some (advertised_port l)
        \<and> es_tcp settings = (\<exists>t \<in> set ls'. li_transport t = Tcp))"
proof -
  note new = listeners_new_Inr [OF assms(1)]
  have mine: "receiving ls (li_transport l) = Some l" using new(1,3) assms(2) by (simp add: receiving_only)
  obtain c where c: "cleartext ls = Some c" "li_bind c = li_bind l" "li_advertise c = li_advertise l"
    using mine new(4) assms(3) by (cases "receiving ls Udp") (auto simp: cleartext_def)
  have "(receiving ls Tcp \<noteq> None) = (\<exists>t \<in> set ls. li_transport t = Tcp)"
    by (auto simp: receiving_def find_None_iff)
  moreover have "advertised_port c = advertised_port l" by (simp only: advertised_port_def c(2,3))
  ultimately show ?thesis using c mine new(1) by (simp add: endpoint_config_def)
qed

section \<open>The properties on concrete listeners\<close>

definition sample_bind :: socket_addr where
  "sample_bind = \<lparr>sa_ip = V4 0x0A000007, sa_port = 5060, sa_flowinfo = 0, sa_scope = 0\<rparr>"

definition sample_listener :: "transport_kind \<Rightarrow> string \<Rightarrow> u16 option \<Rightarrow> listener" where
  "sample_listener t host port = \<lparr>li_transport = t, li_bind = sample_bind, li_advertise = \<lparr>ad_host = host, ad_port = port\<rparr>\<rparr>"

theorem endpoint_serves_declared_witness:
  "\<exists>settings. endpoint_config (\<lambda>bind. \<lparr>es_bind = bind, es_sent_by = [], es_sent_by_port = None, es_tcp = True\<rparr>)
      [sample_listener Udp ''e.x'' None, sample_listener Tls ''t.x'' (Some 5061)] = Some settings
    \<and> es_sent_by settings = ''e.x'' \<and> es_sent_by_port settings = Some 5060 \<and> \<not> es_tcp settings"
proof -
  let ?ls = "[sample_listener Udp ''e.x'' None, sample_listener Tls ''t.x'' (Some 5061)]"
  let ?base = "\<lambda>bind. \<lparr>es_bind = bind, es_sent_by = [], es_sent_by_port = None, es_tcp = True\<rparr>"
  have "listeners_new (\<lambda>_. []) ?ls = Inr ?ls" by (simp add: listeners_new_def sample_listener_def receiving_def)
  from endpoint_serves_declared [OF this, of "sample_listener Udp ''e.x'' None" ?base] show ?thesis
    by (auto simp: sample_listener_def advertised_port_def sample_bind_def)
qed

lemma sample_digits:
  "radix_digit 10 (CHR '':'') = None" "radix_digit 16 (CHR '':'') = None" "radix_digit r (CHR ''1'') = (if 1 < r then Some 1 else None)"
  by (simp_all add: radix_digit_def)

lemma sample_numbers:
  "read_number 10 3 False 256 ''::1'' = None" "read_number 16 4 True 65536 ''::1'' = None"
  "read_number 10 3 False 256 ''1'' = Some (1, [])" "read_number 16 4 True 65536 ''1'' = Some (1, [])"
  by (simp_all add: read_number_def sample_digits)

lemma sample_v4: "read_v4 ''::1'' = None" "read_v4 ''1'' = None"
proof -
  have four: "(4 :: nat) = Suc (Suc (Suc (Suc 0)))" by simp
  show "read_v4 ''::1'' = None" "read_v4 ''1'' = None"
    by (simp_all add: read_v4_def four read_separated_def sample_numbers read_char_def del: One_nat_def)
qed

lemma sample_groups:
  "read_groups 0 (Suc n) ''::1'' = (([], False), ''::1'')" "read_groups 0 (Suc (Suc n)) ''1'' = (([1], False), [])"
  by (simp_all add: read_separated_def sample_v4 sample_numbers read_char_def)

lemma sample_v6: "parse_v6 ''::1'' = Some [0, 0, 0, 0, 0, 0, 0, 1]"
proof -
  have n: "(8 :: nat) = Suc 7" "(7 :: nat) = Suc (Suc 5)" by simp_all
  have z: "replicate 7 (0 :: nat) = [0, 0, 0, 0, 0, 0, 0]" by (simp add: numeral_eq_Suc)
  have "read_groups 0 8 ''::1'' = (([], False), ''::1'')" "read_groups 0 7 ''1'' = (([1], False), [])"
    by (simp_all only: n sample_groups)
  then show ?thesis by (simp add: parse_v6_def read_v6_def read_char_def z)
qed

lemma sample_v6_ip: "parse_ip ''::1'' = Some (V6 1)"
  by (simp add: parse_ip_def sample_v4 sample_v6 v6_of_groups_def)

theorem sent_by_reads_back_witness:
  "advertised_parse (sent_by (sample_listener Udp ''::1'' None)) = Inr \<lparr>ad_host = ''::1'', ad_port = Some 5060\<rparr>"
  using sent_by_reads_back [of "sample_listener Udp ''::1'' None"] sample_v6 sample_v6_ip
  by (simp add: sample_listener_def sample_bind_def advertised_port_def)

lemma parse_loopback: "advertised_parse ''::1'' = Inr \<lparr>ad_host = ''::1'', ad_port = None\<rparr>"
proof -
  have "str_trim ''::1'' = ''::1''" by (rule str_trim_plain) (simp add: is_ascii_char_def white_space_def)
  moreover have "advertised_new ''::1'' None = Inr \<lparr>ad_host = ''::1'', ad_port = None\<rparr>"
    by (rule advertised_new_plain) (simp_all add: sample_v6_ip host_char_def is_alphanumeric_def)
  ultimately show ?thesis by (simp add: advertised_parse_def strip_char_def sample_v6_ip)
qed

theorem advertised_names_a_place_witness:
  "\<exists>a. advertised_parse ''::1'' = Inr a \<and> ad_host a \<noteq> []"
  using advertised_names_a_place [OF parse_loopback] parse_loopback by blast

text \<open>A listener that leaves its port out advertises the one it bound, which may be the port 0 that a written
  port is refused for.\<close>

lemma bound_port_zero_is_advertised:
  "advertised_parse text = Inr a \<Longrightarrow> ad_port a = None \<Longrightarrow> li_advertise l = a \<Longrightarrow> sa_port (li_bind l) = 0 \<Longrightarrow>
    advertised_port l = 0"
  by (simp add: advertised_port_def)

end
