(* ===== verification/Errors.thy ===== *)
theory Errors imports Prelude Ascii "HOL-Library.Char_ord" "HOL-Library.List_Lexorder" "HOL-Library.Product_Lexorder" "HOL-Library.Option_ord" begin

text \<open>
  \<^verbatim>\<open>config/error.rs\<close> of \<^verbatim>\<open>crates/sipx-clstr-node\<close>: paths into a document, the
  refusals a document is answered with, and the order they are reported in.  A path, a rule and a message are
  strings of UTF-8 bytes, compared byte by byte as Rust compares them.
\<close>

section \<open>Paths\<close>

type_synonym path = string

definition path_field :: "path \<Rightarrow> string \<Rightarrow> path" where
  "path_field p key = (if p = [] then key else p @ ''.'' @ key)"

definition path_index :: "path \<Rightarrow> nat \<Rightarrow> path" where
  "path_index p i = p @ ''['' @ decimal i @ '']''"

definition path_leaf :: "path \<Rightarrow> string" where
  "path_leaf p = last (split_on (CHR ''.'') p)"

definition path_display :: "path \<Rightarrow> string" where
  "path_display p = (if p = [] then ''<document>'' else p)"

section \<open>Refusals\<close>

datatype config_error =
  ConfigError (err_path: path) (err_rule: string) (err_found: "string option") (err_expected: string)

definition config_error_text :: "config_error \<Rightarrow> string" where
  "config_error_text e =
    path_display (err_path e) @ '' ['' @ err_rule e @ '']: '' @
    (case err_found e of
       Some found \<Rightarrow> ''found '' @ found @ '', expected '' @ err_expected e
     | None \<Rightarrow> ''expected '' @ err_expected e)"

text \<open>The derived order: the fields in the order they are declared.\<close>

definition err_key :: "config_error \<Rightarrow> string \<times> string \<times> string option \<times> string" where
  "err_key e = (err_path e, err_rule e, err_found e, err_expected e)"

lemma err_key_inj: "err_key a = err_key b \<longleftrightarrow> a = b"
  by (cases a; cases b) (simp add: err_key_def)

instantiation config_error :: linorder
begin

definition less_eq_config_error :: "config_error \<Rightarrow> config_error \<Rightarrow> bool" where
  "less_eq_config_error a b \<longleftrightarrow> err_key a \<le> err_key b"

definition less_config_error :: "config_error \<Rightarrow> config_error \<Rightarrow> bool" where
  "less_config_error a b \<longleftrightarrow> err_key a < err_key b"

instance
proof
  fix a b c :: config_error
  show "(a < b) = (a \<le> b \<and> \<not> b \<le> a)" by (auto simp: less_eq_config_error_def less_config_error_def)
  show "a \<le> a" by (simp add: less_eq_config_error_def)
  show "a \<le> b \<Longrightarrow> b \<le> c \<Longrightarrow> a \<le> c" by (auto simp: less_eq_config_error_def)
  show "a \<le> b \<Longrightarrow> b \<le> a \<Longrightarrow> a = b" by (auto simp: less_eq_config_error_def err_key_inj)
  show "a \<le> b \<or> b \<le> a" by (auto simp: less_eq_config_error_def)
qed

end

definition ordered :: "config_error list \<Rightarrow> config_error list" where
  "ordered errors = remdups_adj (sort errors)"

lemma set_ordered [simp]: "set (ordered es) = set es"
  by (simp add: ordered_def)

lemma distinct_remdups_sorted: "sorted xs \<Longrightarrow> distinct (remdups_adj xs)"
  by (induction xs rule: remdups_adj.induct) auto

lemma ordered_canonical: "ordered es = sorted_list_of_set (set es)"
proof (rule sorted_distinct_set_unique)
  show "sorted (ordered es)" by (simp add: ordered_def)
  show "distinct (ordered es)" by (simp add: ordered_def distinct_remdups_sorted)
qed simp_all

lemma ordered_empty [simp]: "ordered es = [] \<longleftrightarrow> es = []"
  by (metis set_empty set_ordered)

section \<open>Paths name one place\<close>

text \<open>Keys without a dot or a bracket are told apart by the paths built from them.\<close>

lemma path_field_inj: "path_field p a = path_field p b \<Longrightarrow> a = b"
  by (simp add: path_field_def split: if_splits)

lemma path_index_inj: "path_index p i = path_index p j \<Longrightarrow> i = j"
  by (auto simp: path_index_def dest: decimal_inj)

lemma path_leaf_field: "CHR ''.'' \<notin> set key \<Longrightarrow> path_leaf (path_field p key) = key"
  by (simp add: path_leaf_def path_field_def split_on_plain split_on_append)

end
