(* ===== verification/Document.thy ===== *)
theory Document imports Prelude Ascii Netaddr Errors "HOL-Library.State_Monad" begin

text \<open>
  The lower half of \<^verbatim>\<open>config/mod.rs\<close>: the value tree a document is parsed into, the
  substitution of \<^verbatim>\<open>${NAME}\<close>, and the checks every reader uses.  What the YAML and TOML
  crates do (parsing, the number type, looking through a tag, printing a value) is the argument
  \<^verbatim>\<open>y\<close>.  A reader is a computation of the state monad over the refusals found so far and
  the paths that are recognised but not applied, as the code threads both vectors through every call.
\<close>

section \<open>Values\<close>

datatype 'n yaml = YNull | YBool bool | YNumber 'n | YString string | YSequence "'n yaml list"
  | YMapping "('n yaml \<times> 'n yaml) list" | YTagged string "'n yaml"

type_synonym 'n entries = "('n yaml \<times> 'n yaml) list"

datatype 'f toml = TString string | TInteger "64 word" | TFloat 'f | TBoolean bool | TDatetime string
  | TArray "'f toml list" | TTable "(string \<times> 'f toml) list"

record ('n, 'f) yaml_lib =
  parse_yaml :: "string \<Rightarrow> string + 'n yaml"
  parse_toml :: "string \<Rightarrow> string + 'f toml"
  of_integer :: "64 word \<Rightarrow> 'n"
  of_float :: "'f \<Rightarrow> 'n"
  untag :: "'n yaml \<Rightarrow> 'n yaml"
  number_u64 :: "'n \<Rightarrow> u64 option"
  number_i64 :: "'n \<Rightarrow> int option"
  number_f64 :: "'n \<Rightarrow> string option"
  number_text :: "'n \<Rightarrow> string"
  string_debug :: "string \<Rightarrow> string"
  value_debug :: "'n yaml \<Rightarrow> string"

definition as_str :: "('n, 'f) yaml_lib \<Rightarrow> 'n yaml \<Rightarrow> string option" where
  "as_str y v = (case untag y v of YString s \<Rightarrow> Some s | _ \<Rightarrow> None)"

definition as_bool :: "('n, 'f) yaml_lib \<Rightarrow> 'n yaml \<Rightarrow> bool option" where
  "as_bool y v = (case untag y v of YBool b \<Rightarrow> Some b | _ \<Rightarrow> None)"

definition as_u64 :: "('n, 'f) yaml_lib \<Rightarrow> 'n yaml \<Rightarrow> u64 option" where
  "as_u64 y v = (case untag y v of YNumber n \<Rightarrow> number_u64 y n | _ \<Rightarrow> None)"

definition as_sequence :: "('n, 'f) yaml_lib \<Rightarrow> 'n yaml \<Rightarrow> 'n yaml list option" where
  "as_sequence y v = (case untag y v of YSequence vs \<Rightarrow> Some vs | _ \<Rightarrow> None)"

definition as_entries :: "('n, 'f) yaml_lib \<Rightarrow> 'n yaml \<Rightarrow> 'n entries option" where
  "as_entries y v = (case untag y v of YMapping m \<Rightarrow> Some m | _ \<Rightarrow> None)"

definition lookup :: "'n entries \<Rightarrow> string \<Rightarrow> 'n yaml option" where
  "lookup m key = map_of m (YString key)"

definition contains_key :: "'n entries \<Rightarrow> string \<Rightarrow> bool" where
  "contains_key m key \<longleftrightarrow> lookup m key \<noteq> None"

definition type_of :: "'n yaml \<Rightarrow> string" where
  "type_of v = (case v of
     YNull \<Rightarrow> ''null'' | YBool _ \<Rightarrow> ''a boolean'' | YNumber _ \<Rightarrow> ''a number'' | YString _ \<Rightarrow> ''a string''
   | YSequence _ \<Rightarrow> ''a sequence'' | YMapping _ \<Rightarrow> ''a mapping'' | YTagged _ _ \<Rightarrow> ''a tagged value'')"

fun join :: "string \<Rightarrow> string list \<Rightarrow> string" where
  "join sep [] = []"
| "join sep [s] = s"
| "join sep (s # ss) = s @ sep @ join sep ss"

text \<open>One value, rendered so that two documents meaning the same thing render the same bytes.\<close>

definition int_text :: "int \<Rightarrow> string" where
  "int_text i = (if i < 0 then ''-'' @ decimal (nat (- i)) else decimal (nat i))"

definition canonical_number :: "('n, 'f) yaml_lib \<Rightarrow> 'n \<Rightarrow> string" where
  "canonical_number y n =
    (case number_u64 y n of Some u \<Rightarrow> decimal (unat u)
     | None \<Rightarrow> (case number_i64 y n of Some i \<Rightarrow> int_text i
     | None \<Rightarrow> (case number_f64 y n of Some f \<Rightarrow> f
     | None \<Rightarrow> number_text y n)))"

fun canonical :: "('n, 'f) yaml_lib \<Rightarrow> 'n yaml \<Rightarrow> string" where
  "canonical y YNull = ''~''"
| "canonical y (YBool flag) = (if flag then ''true'' else ''false'')"
| "canonical y (YNumber n) = canonical_number y n"
| "canonical y (YString text) = string_debug y text"
| "canonical y (YSequence items) = ''['' @ join '','' (map (canonical y) items) @ '']''"
| "canonical y (YMapping m) =
    ''{'' @ join '','' (sort (map (\<lambda>(key, item). canonical y key @ '':'' @ canonical y item) m)) @ ''}''"
| "canonical y (YTagged tag v) = ''!'' @ tag @ '' '' @ canonical y v"

section \<open>Parsing\<close>

fun toml_to_value :: "('n, 'f) yaml_lib \<Rightarrow> 'f toml \<Rightarrow> 'n yaml" where
  "toml_to_value y (TString s) = YString s"
| "toml_to_value y (TInteger i) = YNumber (of_integer y i)"
| "toml_to_value y (TFloat f) = YNumber (of_float y f)"
| "toml_to_value y (TBoolean b) = YBool b"
| "toml_to_value y (TDatetime d) = YString d"
| "toml_to_value y (TArray items) = YSequence (map (toml_to_value y) items)"
| "toml_to_value y (TTable table) = YMapping (map (\<lambda>(key, item). (YString key, toml_to_value y item)) table)"

text \<open>\<^verbatim>\<open>str::lines\<close>, \<^verbatim>\<open>str::contains\<close>, and the lines that
  make a text look like TOML.\<close>

definition str_lines :: "string \<Rightarrow> string list" where
  "str_lines s =
    (let lines = split_on (CHR ''\<newline>'') s
     in map (\<lambda>l. case strip_suffix (char_of (13 :: nat)) l of Some l' \<Rightarrow> l' | None \<Rightarrow> l) (butlast lines)
        @ (if last lines = [] then [] else [last lines]))"

fun contains :: "string \<Rightarrow> string \<Rightarrow> bool" where
  "contains needle [] \<longleftrightarrow> needle = []"
| "contains needle (c # cs) \<longleftrightarrow> take (length needle) (c # cs) = needle \<or> contains needle cs"

definition looks_like_toml :: "string \<Rightarrow> bool" where
  "looks_like_toml s =
    (case List.find (\<lambda>line. line \<noteq> [] \<and> hd line \<noteq> CHR ''#'') (map str_trim (str_lines s)) of
       None \<Rightarrow> False
     | Some line \<Rightarrow> hd line = CHR ''['' \<or> contains '' = '' line \<and> \<not> contains '': '' line)"

definition parse_document :: "('n, 'f) yaml_lib \<Rightarrow> string \<Rightarrow> string + 'n yaml" where
  "parse_document y s =
    (if looks_like_toml s
     then case parse_toml y s of
         Inr v \<Rightarrow> Inr (toml_to_value y v)
       | Inl toml_error \<Rightarrow>
          (case parse_yaml y s of
             Inr v \<Rightarrow> Inr v
           | Inl _ \<Rightarrow> Inl (''not valid TOML ('' @ toml_error @ '') and not valid YAML either''))
     else case parse_yaml y s of
         Inr v \<Rightarrow> Inr v
       | Inl yaml_error \<Rightarrow>
          (case parse_toml y s of
             Inr _ \<Rightarrow> Inl ''valid TOML that did not sniff as TOML; please report this''
           | Inl _ \<Rightarrow> Inl yaml_error))"

section \<open>Substitution\<close>

type_synonym env = "string \<Rightarrow> string option"

definition is_upper :: "char \<Rightarrow> bool" where
  "is_upper c \<longleftrightarrow> (let n = of_char c :: nat in 65 \<le> n \<and> n \<le> 90)"

definition is_var_name :: "string \<Rightarrow> bool" where
  "is_var_name name =
    (case name of
       [] \<Rightarrow> False
     | c # cs \<Rightarrow> (is_upper c \<or> c = CHR ''_'') \<and> list_all (\<lambda>c. is_upper c \<or> is_digit c \<or> c = CHR ''_'') cs)"

text \<open>\<^verbatim>\<open>rest.find("${")\<close>: what comes before the first one and what comes after it.\<close>

fun find_reference :: "string \<Rightarrow> (string \<times> string) option" where
  "find_reference (c # d # cs) =
    (if c = CHR ''$'' \<and> d = CHR ''{'' then Some ([], cs)
     else map_option (\<lambda>(before, after). (c # before, after)) (find_reference (d # cs)))"
| "find_reference _ = None"

lemma find_reference_rest: "find_reference s = Some (before, after) \<Longrightarrow> s = before @ ''${'' @ after"
  by (induction s arbitrary: before rule: find_reference.induct) (auto split: if_splits)

text \<open>The loop of \<^verbatim>\<open>substitute\<close>: the output and the names that did not resolve, in order.\<close>

definition reference :: "string \<Rightarrow> string" where
  "reference name = ''${'' @ name @ ''}''"

function substitute_from :: "env \<Rightarrow> string \<Rightarrow> string \<Rightarrow> string list \<Rightarrow> string \<times> string list" where
  "substitute_from env rest out unresolved =
    (case find_reference rest of
       None \<Rightarrow> (out @ rest, unresolved)
     | Some (before, after) \<Rightarrow>
        (case text_split_once (CHR ''}'') after of
           None \<Rightarrow> (out @ before @ ''${'' @ after, unresolved)
         | Some (name, rest') \<Rightarrow>
            (case env name of
               Some value \<Rightarrow>
                 if is_var_name name then substitute_from env rest' (out @ before @ value) unresolved
                 else substitute_from env rest' (out @ before @ reference name) (insort_insert name unresolved)
             | None \<Rightarrow> substitute_from env rest' (out @ before @ reference name) (insort_insert name unresolved))))"
  by pat_completeness auto
termination
  by (relation "measure (\<lambda>(env, rest, out, unresolved). length rest)")
    (auto dest!: find_reference_rest simp: split_once_exact)

definition substitute :: "env \<Rightarrow> string \<Rightarrow> string \<times> string list" where
  "substitute env s = substitute_from env s [] []"

section \<open>Refusals\<close>

record walk =
  wk_errors :: "config_error list"
  wk_unapplied :: "path list"

type_synonym 'a reading = "(walk, 'a) state"

abbreviation ret :: "'a \<Rightarrow> 'a reading" where
  "ret \<equiv> State_Monad.return"

definition refuse :: "path \<Rightarrow> string \<Rightarrow> string option \<Rightarrow> string \<Rightarrow> unit reading" where
  "refuse at rule found expected =
    State (\<lambda>w. ((), w\<lparr>wk_errors := wk_errors w @ [ConfigError at rule found expected]\<rparr>))"

definition unapplied_at :: "path \<Rightarrow> unit reading" where
  "unapplied_at at = State (\<lambda>w. ((), w\<lparr>wk_unapplied := wk_unapplied w @ [at]\<rparr>))"

definition clear_errors :: "unit reading" where
  "clear_errors = State (\<lambda>w. ((), w\<lparr>wk_errors := []\<rparr>))"

definition guarded :: "bool \<Rightarrow> unit reading \<Rightarrow> unit reading" where
  "guarded c m = (if c then m else ret ())"

text \<open>A loop over the items of a sequence, with what it accumulates.\<close>

fun for_each :: "nat \<Rightarrow> 'a list \<Rightarrow> 'b \<Rightarrow> (nat \<Rightarrow> 'a \<Rightarrow> 'b \<Rightarrow> 'b reading) \<Rightarrow> 'b reading" where
  "for_each i [] acc body = ret acc"
| "for_each i (x # xs) acc body = do { acc \<leftarrow> body i x acc; for_each (Suc i) xs acc body }"

definition expected_variable :: "string \<Rightarrow> string" where
  "expected_variable name =
    (if is_var_name name then ''a variable defined in the environment passed to load''
     else ''a name matching [A-Z_][A-Z0-9_]*'')"

text \<open>The references a value still holds, with the path each was written at.\<close>

fun locate_references :: "('n, 'f) yaml_lib \<Rightarrow> string list \<Rightarrow> 'n yaml \<Rightarrow> path \<Rightarrow> (path \<times> string) list"
and locate_items :: "('n, 'f) yaml_lib \<Rightarrow> string list \<Rightarrow> nat \<Rightarrow> 'n yaml list \<Rightarrow> path \<Rightarrow> (path \<times> string) list"
and locate_entries :: "('n, 'f) yaml_lib \<Rightarrow> string list \<Rightarrow> 'n entries \<Rightarrow> path \<Rightarrow> (path \<times> string) list" where
  "locate_references y unresolved (YString s) at =
    map (\<lambda>name. (at, name)) (filter (\<lambda>name. contains (reference name) s) unresolved)"
| "locate_references y unresolved (YSequence items) at = locate_items y unresolved 0 items at"
| "locate_references y unresolved (YMapping m) at = locate_entries y unresolved m at"
| "locate_references y unresolved (YTagged _ v) at = locate_references y unresolved v at"
| "locate_references y unresolved YNull at = []"
| "locate_references y unresolved (YBool _) at = []"
| "locate_references y unresolved (YNumber _) at = []"
| "locate_items y unresolved i [] at = []"
| "locate_items y unresolved i (v # vs) at =
    locate_references y unresolved v (path_index at i) @ locate_items y unresolved (Suc i) vs at"
| "locate_entries y unresolved [] at = []"
| "locate_entries y unresolved ((key, v) # m) at =
    locate_references y unresolved v (case as_str y key of Some k \<Rightarrow> path_field at k | None \<Rightarrow> at)
      @ locate_entries y unresolved m at"

definition refuse_reference :: "path \<Rightarrow> string \<Rightarrow> unit reading" where
  "refuse_reference at name = refuse at ''CC-V4'' (Some (reference name)) (expected_variable name)"

definition report_unresolved :: "('n, 'f) yaml_lib \<Rightarrow> 'n yaml \<Rightarrow> path \<Rightarrow> string list \<Rightarrow> unit reading" where
  "report_unresolved y document root unresolved =
    (if unresolved = [] then ret ()
     else let located = locate_references y unresolved document root in
       do {
         for_each 0 located () (\<lambda>_ (at, name) _. refuse_reference at name);
         for_each 0 unresolved () (\<lambda>_ name _.
           guarded (name \<notin> set (map snd located)) (refuse_reference root name))
       })"

section \<open>What every reader asks\<close>

definition closed_world :: "('n, 'f) yaml_lib \<Rightarrow> 'n entries \<Rightarrow> string list \<Rightarrow> path \<Rightarrow> unit reading" where
  "closed_world y m known at =
    for_each 0 (map fst m) () (\<lambda>_ key _.
      case as_str y key of
        None \<Rightarrow> refuse at ''CC-V2'' (Some (value_debug y key)) ''a string key''
      | Some name \<Rightarrow>
          guarded (name \<notin> set known)
            (refuse (path_field at name) ''CC-V2'' (Some name) (''one of: '' @ join '', '' known)))"

definition as_mapping :: "('n, 'f) yaml_lib \<Rightarrow> 'n yaml \<Rightarrow> path \<Rightarrow> 'n entries option reading" where
  "as_mapping y v at =
    (case as_entries y v of
       Some m \<Rightarrow> ret (Some m)
     | None \<Rightarrow> do { refuse at ''CC-D3'' (Some (type_of v)) ''a mapping''; ret None })"

definition required_str ::
  "('n, 'f) yaml_lib \<Rightarrow> 'n entries \<Rightarrow> string \<Rightarrow> path \<Rightarrow> string \<Rightarrow> string option reading" where
  "required_str y m key at rule =
    (let at = path_field at key in
     case lookup m key of
       None \<Rightarrow> do { refuse at rule None ''a string; it is required''; ret None }
     | Some v \<Rightarrow>
        (case as_str y v of
           Some s \<Rightarrow>
             if s \<noteq> [] then ret (Some s)
             else do { refuse at rule (Some [CHR 0x22, CHR 0x22]) ''a non-empty string''; ret None }
         | None \<Rightarrow> do { refuse at rule (Some (type_of v)) ''a string''; ret None }))"

definition required_uint ::
  "('n, 'f) yaml_lib \<Rightarrow> 'n entries \<Rightarrow> string \<Rightarrow> path \<Rightarrow> string \<Rightarrow> u64 \<Rightarrow> u64 option reading" where
  "required_uint y m key at rule bound =
    (let at = path_field at key in
     case lookup m key of
       None \<Rightarrow> do { refuse at rule None ''an integer; it is required''; ret None }
     | Some v \<Rightarrow>
        (case as_u64 y v of
           Some n \<Rightarrow>
             if n \<le> bound then ret (Some n)
             else do {
               refuse at rule (Some (decimal (unat n))) (''an integer in 0..='' @ decimal (unat bound));
               ret None }
         | None \<Rightarrow> do { refuse at rule (Some (type_of v)) ''a non-negative integer''; ret None }))"

text \<open>\<^verbatim>\<open>as_str\<close> of a value, or what it is instead.\<close>

definition quoted :: "('n, 'f) yaml_lib \<Rightarrow> 'n yaml \<Rightarrow> string option" where
  "quoted y v = (case as_str y v of Some s \<Rightarrow> Some s | None \<Rightarrow> Some (type_of v))"

definition narrow :: "u64 \<Rightarrow> 'a::len word option" where
  "narrow n = (if unat n < 2 ^ LENGTH('a) then Some (ucast n) else None)"

section \<open>Readers only append\<close>

text \<open>
  A reader is \<^emph>\<open>uniform\<close> when what it returns and what it appends to the two vectors does not depend
  on them, and it is \<^emph>\<open>clean\<close> with a value when it returns that value and appends no refusal.  Both
  are computed along the code, so that what a reader accepts is an equation over what its parts accept.
\<close>

definition appending :: "walk \<Rightarrow> config_error list \<Rightarrow> path list \<Rightarrow> walk" where
  "appending w es us = w\<lparr>wk_errors := wk_errors w @ es, wk_unapplied := wk_unapplied w @ us\<rparr>"

definition uniform :: "'a reading \<Rightarrow> bool" where
  "uniform m \<longleftrightarrow> (\<exists>a es us. \<forall>w. run_state m w = (a, appending w es us))"

definition clean :: "'a reading \<Rightarrow> 'a \<Rightarrow> bool" where
  "clean m a \<longleftrightarrow> (\<exists>us. \<forall>w. run_state m w = (a, appending w [] us))"

lemma appending_simps [simp]:
  "wk_errors (appending w es us) = wk_errors w @ es" "wk_unapplied (appending w es us) = wk_unapplied w @ us"
  "appending (appending w es us) es' us' = appending w (es @ es') (us @ us')" "appending w [] [] = w"
  by (simp_all add: appending_def)

named_theorems reader \<open>readers are uniform\<close>
named_theorems clean_simps \<open>what a reader accepts\<close>

lemma uniform_ret [reader]: "uniform (ret a)"
  by (auto simp: uniform_def intro!: exI [of _ "[]"])

lemma uniform_refuse [reader]: "uniform (refuse at rule found expected)"
  unfolding uniform_def refuse_def appending_def
  by (intro exI [of _ "()"] exI [of _ "[ConfigError at rule found expected]"] exI [of _ "[]"]) simp

lemma uniform_unapplied_at [reader]: "uniform (unapplied_at at)"
  unfolding uniform_def unapplied_at_def appending_def
  by (intro exI [of _ "()"] exI [of _ "[at]"] exI [of _ "[]"]) simp

lemma uniform_bind [reader]:
  assumes "uniform m" "\<And>a. uniform (f a)"
  shows "uniform (State_Monad.bind m f)"
proof -
  obtain a es us where m: "\<And>w. run_state m w = (a, appending w es us)" using assms(1) by (auto simp: uniform_def)
  obtain b es' us' where f: "\<And>w. run_state (f a) w = (b, appending w es' us')" using assms(2) [of a] by (auto simp: uniform_def)
  show ?thesis unfolding uniform_def
    by (intro exI [of _ b] exI [of _ "es @ es'"] exI [of _ "us @ us'"]) (simp add: m f)
qed

lemma uniform_guarded [reader]: "uniform m \<Longrightarrow> uniform (guarded c m)"
  by (simp add: guarded_def uniform_ret)

lemma uniform_for_each [reader]: "(\<And>i x acc. uniform (body i x acc)) \<Longrightarrow> uniform (for_each i xs acc body)"
  by (induction xs arbitrary: i acc) (auto intro!: reader)

lemma uniform_option [reader]: "uniform m \<Longrightarrow> (\<And>x. uniform (f x)) \<Longrightarrow> uniform (case v of None \<Rightarrow> m | Some x \<Rightarrow> f x)"
  by (simp split: option.split)

lemma uniform_if [reader]: "uniform m \<Longrightarrow> uniform m' \<Longrightarrow> uniform (if c then m else m')"
  by simp

lemma uniform_let [reader]: "(\<And>x. uniform (f x)) \<Longrightarrow> uniform (let x = v in f x)"
  by simp

lemma uniform_prod [reader]: "(\<And>a b. uniform (f a b)) \<Longrightarrow> uniform (case p of (a, b) \<Rightarrow> f a b)"
  by (simp split: prod.split)

lemma uniform_prod_fun [reader]: "(\<And>a b. uniform (f a b x)) \<Longrightarrow> uniform ((case p of (a, b) \<Rightarrow> f a b) x)"
  by (simp split: prod.split)

lemma appending_cancel: "appending w es us = appending w es' us' \<longleftrightarrow> es = es' \<and> us = us'"
  by (metis appending_simps(1,2) same_append_eq)

lemma ex_unit: "Ex P \<longleftrightarrow> P ()"
  by (metis old.unit.exhaust)

lemma run_refuse: "run_state (refuse at rule found expected) w = ((), appending w [ConfigError at rule found expected] [])"
  by (simp add: refuse_def appending_def)

lemma clean_ret [clean_simps]: "clean (ret a) b \<longleftrightarrow> a = b"
  by (auto simp: clean_def intro: exI [of _ "[]"])

lemma clean_refuse [clean_simps]: "clean (refuse at rule found expected) u \<longleftrightarrow> False"
  by (simp add: clean_def run_refuse appending_cancel)

lemma clean_unapplied_at [clean_simps]: "clean (unapplied_at at) u \<longleftrightarrow> True"
  by (auto simp: clean_def unapplied_at_def appending_def intro!: exI [of _ "[at]"])

lemma clean_bind [clean_simps]:
  assumes "uniform m" "\<And>a. uniform (f a)"
  shows "clean (State_Monad.bind m f) b \<longleftrightarrow> (\<exists>a. clean m a \<and> clean (f a) b)"
proof -
  obtain a es us where m: "\<And>w. run_state m w = (a, appending w es us)" using assms(1) by (auto simp: uniform_def)
  obtain c es' us' where f: "\<And>w. run_state (f a) w = (c, appending w es' us')" using assms(2) [of a] by (auto simp: uniform_def)
  have "clean m x \<longleftrightarrow> x = a \<and> es = []" for x by (auto simp: clean_def m appending_cancel)
  moreover have "clean (f a) b \<longleftrightarrow> b = c \<and> es' = []" by (auto simp: clean_def f appending_cancel)
  moreover have "clean (State_Monad.bind m f) b \<longleftrightarrow> b = c \<and> es @ es' = []" by (auto simp: clean_def m f appending_cancel)
  ultimately show ?thesis by auto
qed

lemma clean_option [clean_simps]:
  "clean (case v of None \<Rightarrow> m | Some x \<Rightarrow> f x) b \<longleftrightarrow> (case v of None \<Rightarrow> clean m b | Some x \<Rightarrow> clean (f x) b)"
  by (simp split: option.split)

lemma clean_if [clean_simps]: "clean (if c then m else m') b \<longleftrightarrow> (c \<longrightarrow> clean m b) \<and> (\<not> c \<longrightarrow> clean m' b)"
  by simp

lemma clean_let [clean_simps]: "clean (let x = v in f x) b \<longleftrightarrow> clean (f v) b"
  by simp

lemma clean_guarded [clean_simps]: "clean (guarded c m) u \<longleftrightarrow> (c \<longrightarrow> clean m u)"
  by (simp add: guarded_def clean_ret)

lemma clean_for_each_Nil [clean_simps]: "clean (for_each i [] acc body) r \<longleftrightarrow> acc = r"
  by (simp add: clean_ret)

lemma clean_for_each_Cons [clean_simps]:
  "(\<And>i x acc. uniform (body i x acc)) \<Longrightarrow>
    clean (for_each i (x # xs) acc body) r \<longleftrightarrow> (\<exists>acc'. clean (body i x acc) acc' \<and> clean (for_each (Suc i) xs acc' body) r)"
  by (simp add: clean_bind reader)

declare for_each.simps [simp del]

lemma clean_for_each_unit:
  fixes u v :: unit
  assumes "\<And>i x acc. uniform (body i x acc)"
  shows "clean (for_each i xs u body) v \<longleftrightarrow> (\<forall>k < length xs. clean (body (i + k) (xs ! k) u) v)"
  using assms
proof (induction xs arbitrary: i)
  case (Cons x xs)
  then show ?case by (simp add: clean_for_each_Cons All_less_Suc2 ex_unit)
qed (simp add: clean_simps)

lemma clean_for_each_inv:
  assumes "clean (for_each i xs acc body) r" "\<And>i x acc. uniform (body i x acc)" "I acc"
    "\<And>i x acc acc'. x \<in> set xs \<Longrightarrow> I acc \<Longrightarrow> clean (body i x acc) acc' \<Longrightarrow> I acc'"
  shows "I r"
  using assms
proof (induction xs arbitrary: i acc)
  case (Cons x xs)
  from Cons.prems(1,2) obtain acc' where a: "clean (body i x acc) acc'" "clean (for_each (Suc i) xs acc' body) r"
    by (auto simp: clean_for_each_Cons)
  then show ?case using Cons.IH [OF a(2) Cons.prems(2)] Cons.prems(3,4) by (meson list.set_intros)
qed (simp add: clean_simps)

lemma clean_for_each_count:
  assumes "clean (for_each i xs acc body) r" "\<And>i x acc. uniform (body i x acc)"
    "\<And>i x acc acc'. clean (body i x acc) acc' \<Longrightarrow> length acc' \<le> Suc (length acc)"
  shows "length r \<le> length acc + length xs"
  using assms
proof (induction xs arbitrary: i acc)
  case (Cons x xs)
  from Cons.prems(1,2) obtain acc' where a: "clean (body i x acc) acc'" "clean (for_each (Suc i) xs acc' body) r"
    by (auto simp: clean_for_each_Cons)
  have "length r \<le> length acc' + length xs" by (rule Cons.IH [OF a(2)]) (fact Cons.prems)+
  with Cons.prems(3) [OF a(1)] show ?case by simp
qed (simp add: clean_simps)

text \<open>What a whole run says: its value is clean exactly when no refusal was appended.\<close>

lemma uniformD: "uniform m \<Longrightarrow> \<exists>a es us. run_state m w = (a, appending w es us)"
  by (auto simp: uniform_def)

lemma clean_run:
  assumes "uniform m" "run_state m w = (a, w')"
  shows "clean m a \<longleftrightarrow> wk_errors w' = wk_errors w"
proof -
  obtain b es us where m: "\<And>w. run_state m w = (b, appending w es us)" using assms(1) by (auto simp: uniform_def)
  with assms(2) show ?thesis by (auto simp: clean_def appending_cancel)
qed

section \<open>The checks, as readers\<close>

lemma uniform_report_unresolved [reader]: "uniform (report_unresolved y document root unresolved)"
  by (auto simp: report_unresolved_def refuse_reference_def Let_def split: prod.split intro!: reader)

lemma uniform_closed_world [reader]: "uniform (closed_world y m known at)"
  by (auto simp: closed_world_def intro!: reader)

lemma uniform_as_mapping [reader]: "uniform (as_mapping y v at)"
  by (auto simp: as_mapping_def intro!: reader)

lemma uniform_required_str [reader]: "uniform (required_str y m key at rule)"
  by (auto simp: required_str_def Let_def intro!: reader)

lemma uniform_required_uint [reader]: "uniform (required_uint y m key at rule bound)"
  by (auto simp: required_uint_def Let_def intro!: reader)

text \<open>What a required field holds, and how a value that is known to be there is passed on.\<close>

definition str_field :: "('n, 'f) yaml_lib \<Rightarrow> 'n entries \<Rightarrow> string \<Rightarrow> string \<Rightarrow> bool" where
  "str_field y m key s \<longleftrightarrow> (\<exists>v. lookup m key = Some v \<and> as_str y v = Some s \<and> s \<noteq> [])"

definition uint_field :: "('n, 'f) yaml_lib \<Rightarrow> 'n entries \<Rightarrow> string \<Rightarrow> u64 \<Rightarrow> u64 \<Rightarrow> bool" where
  "uint_field y m key bound n \<longleftrightarrow> (\<exists>v. lookup m key = Some v \<and> as_u64 y v = Some n \<and> n \<le> bound)"

lemma ex_Some [clean_simps]: "(\<exists>r. (\<exists>n. r = Some n \<and> U n) \<and> P r) \<longleftrightarrow> (\<exists>n. U n \<and> P (Some n))"
  by auto

lemma clean_as_mapping [clean_simps]: "clean (as_mapping y v at) r \<longleftrightarrow> (\<exists>m. r = Some m \<and> as_entries y v = Some m)"
  by (auto simp: as_mapping_def clean_simps reader split: option.split)

lemma clean_required_str [clean_simps]:
  "clean (required_str y m key at rule) r \<longleftrightarrow> (\<exists>s. r = Some s \<and> str_field y m key s)"
  by (auto simp: required_str_def str_field_def Let_def clean_simps reader split: option.split)

lemma clean_required_uint [clean_simps]:
  "clean (required_uint y m key at rule bound) r \<longleftrightarrow> (\<exists>n. r = Some n \<and> uint_field y m key bound n)"
  by (auto simp: required_uint_def uint_field_def Let_def clean_simps reader split: option.split)

lemma str_field_nonempty: "str_field y m key s \<Longrightarrow> s \<noteq> []"
  by (auto simp: str_field_def)

lemma uint_field_bound: "uint_field y m key bound n \<Longrightarrow> n \<le> bound"
  by (auto simp: uint_field_def)

lemma clean_closed_world [clean_simps]:
  "clean (closed_world y m known at) u \<longleftrightarrow> (\<forall>key \<in> set (map fst m). \<exists>k \<in> set known. as_str y key = Some k)"
  unfolding closed_world_def
  by (subst clean_for_each_unit) (auto simp: clean_simps reader all_set_conv_all_nth split: option.split)

lemma narrow_Some: "narrow n = Some (v :: 'a::len word) \<Longrightarrow> unat v = unat n"
  by (auto simp: narrow_def unsigned_ucast_eq take_bit_eq_mod split: if_splits)

lemma narrow_bounded: "n \<le> b \<Longrightarrow> unat b < 2 ^ LENGTH('a) \<Longrightarrow> narrow n \<noteq> (None :: 'a::len word option)"
  by (auto simp: narrow_def word_le_nat_alt)

section \<open>Substitution is one pass over the text\<close>

text \<open>A template: literal text and references in turn, the literal text without the start of a reference and the
  names without a closing brace, up to a tail that starts no complete reference.\<close>

definition template :: "(string \<times> string) list \<Rightarrow> string \<Rightarrow> bool" where
  "template parts tail \<longleftrightarrow>
    (\<forall>(literal, name) \<in> set parts. find_reference literal = None \<and> CHR ''}'' \<notin> set name)
    \<and> (case find_reference tail of None \<Rightarrow> True | Some (_, after) \<Rightarrow> CHR ''}'' \<notin> set after)"

definition template_text :: "(string \<times> string) list \<Rightarrow> string \<Rightarrow> string" where
  "template_text parts tail = concat (map (\<lambda>(literal, name). literal @ reference name) parts) @ tail"

definition resolves :: "env \<Rightarrow> string \<Rightarrow> bool" where
  "resolves env name \<longleftrightarrow> is_var_name name \<and> env name \<noteq> None"

definition value_of :: "env \<Rightarrow> string \<Rightarrow> string" where
  "value_of env name = (if resolves env name then the (env name) else reference name)"

lemma find_reference_append:
  "find_reference literal = None \<Longrightarrow> find_reference (literal @ ''${'' @ rest) = Some (literal, rest)"
proof (induction literal rule: find_reference.induct [case_names pair empty single])
  case (pair c d cs)
  then show ?case by (auto split: if_splits)
next
  case (single c)
  then show ?case by (cases "c = CHR ''$''") auto
qed simp

lemma find_reference_before: "find_reference s = Some (before, after) \<Longrightarrow> find_reference before = None"
proof (induction s arbitrary: before rule: find_reference.induct)
  case (1 c d cs)
  show ?case
  proof (cases "c = CHR ''$'' \<and> d = CHR ''{''")
    case False
    with "1.prems" obtain b where b: "find_reference (d # cs) = Some (b, after)" "before = c # b" by auto
    with "1.IH" [OF False b(1)] False find_reference_rest [OF b(1)] show ?thesis by (cases b) auto
  qed (use "1.prems" in simp)
qed auto

lemma split_reference:
  assumes "find_reference literal = None" "CHR ''}'' \<notin> set name"
  shows "find_reference (literal @ reference name @ rest) = Some (literal, name @ CHR ''}'' # rest)"
    "text_split_once (CHR ''}'') (name @ CHR ''}'' # rest) = Some (name, rest)"
  using find_reference_append [OF assms(1), of "name @ CHR ''}'' # rest"] assms(2)
  by (simp_all add: reference_def split_once_exact)

declare substitute_from.simps [simp del]

lemma substitute_tail:
  assumes "template [] tail"
  shows "substitute_from env tail out unresolved = (out @ tail, unresolved)"
  using assms
  by (auto simp: template_def split_once_None [symmetric] substitute_from.simps [of env tail]
      split: option.splits dest!: find_reference_rest)

lemma substitute_template:
  assumes "template parts tail"
  shows "substitute_from env (template_text parts tail) out unresolved =
    (out @ concat (map (\<lambda>(literal, name). literal @ value_of env name) parts) @ tail,
     fold insort_insert (filter (\<lambda>name. \<not> resolves env name) (map snd parts)) unresolved)"
  using assms
proof (induction parts arbitrary: out unresolved)
  case Nil
  then show ?case by (simp add: template_text_def substitute_tail)
next
  case (Cons part parts)
  obtain literal name where part: "part = (literal, name)" by (cases part)
  have plain: "find_reference literal = None" "CHR ''}'' \<notin> set name" and rest: "template parts tail"
    using Cons.prems by (auto simp: template_def part)
  have s: "template_text (part # parts) tail = literal @ reference name @ template_text parts tail"
    by (simp add: template_text_def part)
  show ?case
    unfolding s substitute_from.simps [of env "literal @ _"] split_reference [OF plain] option.case prod.case
    using Cons.IH [OF rest] by (auto simp: part value_of_def resolves_def split: option.split)
qed

lemma fold_insort_insert: "sorted xs \<Longrightarrow> distinct xs \<Longrightarrow>
    fold insort_insert ys xs = sorted_list_of_set (set xs \<union> set ys)" for xs ys :: "'a::linorder list"
proof (induction ys arbitrary: xs)
  case Nil
  then show ?case by (simp add: sorted_list_of_set.idem_if_sorted_distinct)
next
  case (Cons v ys)
  then have "sorted (insort_insert v xs)" "distinct (insort_insert v xs)" "set (insort_insert v xs) = insert v (set xs)"
    by (simp_all add: sorted_insort_insert distinct_insort_insert set_insort_insert)
  with Cons.IH show ?case by simp
qed

text \<open>Every text is such a template.\<close>

lemma template_exists: "\<exists>parts tail. template parts tail \<and> s = template_text parts tail"
proof (induction s rule: length_induct)
  case (1 s)
  show ?case
  proof (cases "\<exists>before after name rest. find_reference s = Some (before, after) \<and> text_split_once (CHR ''}'') after = Some (name, rest)")
    case True
    then obtain before after name rest where f: "find_reference s = Some (before, after)"
      and s: "after = name @ CHR ''}'' # rest" "CHR ''}'' \<notin> set name" by (auto simp: split_once_exact)
    then have eq: "s = before @ reference name @ rest" using find_reference_rest [OF f] by (simp add: reference_def)
    then obtain parts tail where "template parts tail" "rest = template_text parts tail"
      using 1 by (metis (no_types, lifting) add_gr_0 length_append length_greater_0_conv less_add_same_cancel2
          list.distinct(1) reference_def append_Cons add.commute trans_less_add2)
    moreover have "find_reference before = None" using find_reference_before [OF f] .
    ultimately show ?thesis using s(2) eq
      by (intro exI [of _ "(before, name) # parts"] exI [of _ tail]) (simp add: template_def template_text_def)
  next
    case False
    then have "find_reference s = Some (before, after) \<Longrightarrow> text_split_once (CHR ''}'') after = None" for before after
      by (cases "text_split_once (CHR ''}'') after") auto
    then have "template [] s" by (auto simp: template_def split_once_None [symmetric] split: option.split)
    then show ?thesis by (intro exI [of _ "[]"] exI [of _ s]) (simp add: template_text_def)
  qed
qed

text \<open>Substitution reads the text once: the text is literal text and references in turn, each
  reference becomes the value of a defined variable or stays as it stands, whatever the values contain, everything
  else is left as it is, and the names that did not resolve are reported once each, in order.\<close>

theorem substitution_is_one_pass:
  "\<exists>parts tail. template parts tail \<and> s = template_text parts tail \<and> substitute env s =
    (concat (map (\<lambda>(literal, name). literal @ value_of env name) parts) @ tail,
     sorted_list_of_set {name \<in> set (map snd parts). \<not> resolves env name})"
proof -
  obtain parts tail where t: "template parts tail" "s = template_text parts tail" using template_exists [of s] by blast
  then show ?thesis using substitute_template [OF t(1), of env "[]" "[]"]
    by (intro exI [of _ parts] exI [of _ tail]) (simp add: substitute_def fold_insort_insert)
qed

end
