(* ===== verification/Config.thy ===== *)
theory Config imports Prelude Ascii Netaddr Listen Errors Document begin

text \<open>
  The data of \<^verbatim>\<open>config/mod.rs\<close>: roles and the paths they wire, a node's identity, and
  the sections of a cluster document with their defaults.  A \<^verbatim>\<open>BTreeSet\<close> of roles is a set,
  listed in the order the roles are declared; a 64-bit \<^verbatim>\<open>usize\<close> is a \<^typ>\<open>u64\<close>.
\<close>

section \<open>Constants\<close>

definition API_VERSION :: string where "API_VERSION = ''sipx.dev/v1alpha1''"
definition MAX_FORWARDS :: u8 where "MAX_FORWARDS = 70"
definition DEFAULT_MAX_IN_FLIGHT_TRANSACTIONS :: u64 where "DEFAULT_MAX_IN_FLIGHT_TRANSACTIONS = 1024"
definition MAX_IN_FLIGHT_CEILING :: u64 where "MAX_IN_FLIGHT_CEILING = 65536"
definition MAX_KEYS :: nat where "MAX_KEYS = 16"
definition TOKEN_LIFETIME_SECONDS :: int where "TOKEN_LIFETIME_SECONDS = 86400"
definition SKEW_ALLOWANCE_SECONDS :: int where "SKEW_ALLOWANCE_SECONDS = 30"
definition DEFAULT_DRAIN_TIMEOUT_MS :: u64 where "DEFAULT_DRAIN_TIMEOUT_MS = 30000"
definition MIN_DRAIN_TIMEOUT_MS :: u64 where "MIN_DRAIN_TIMEOUT_MS = 5000"
definition MAX_DRAIN_TIMEOUT_MS :: u64 where "MAX_DRAIN_TIMEOUT_MS = 300000"
definition TIMER_C_FLOOR_MS :: u64 where "TIMER_C_FLOOR_MS = 180000"
definition DEFAULT_TIMER_C_MS :: u64 where "DEFAULT_TIMER_C_MS = 240000"

section \<open>Roles\<close>

datatype role = Edge | Registrar | InboundProxy | OutboundProxy | E2eTester | Echo

definition role_all :: "role list" where
  "role_all = [Edge, Registrar, InboundProxy, OutboundProxy, E2eTester, Echo]"

definition role_str :: "role \<Rightarrow> string" where
  "role_str r = (case r of Edge \<Rightarrow> ''edge'' | Registrar \<Rightarrow> ''registrar'' | InboundProxy \<Rightarrow> ''inbound-proxy''
    | OutboundProxy \<Rightarrow> ''outbound-proxy'' | E2eTester \<Rightarrow> ''e2e-tester'' | Echo \<Rightarrow> ''echo'')"

definition role_parse :: "string \<Rightarrow> role option" where
  "role_parse s = List.find (\<lambda>r. role_str r = s) role_all"

definition is_call_path :: "role \<Rightarrow> bool" where
  "is_call_path r \<longleftrightarrow> r \<in> {Edge, Registrar, InboundProxy, OutboundProxy}"

definition is_proxying :: "role \<Rightarrow> bool" where
  "is_proxying r \<longleftrightarrow> r \<in> {Edge, InboundProxy, OutboundProxy}"

definition closed_set :: string where
  "closed_set = join '', '' (map role_str role_all)"

text \<open>A set of roles, spelled in its order.\<close>

definition spell_roles :: "role set \<Rightarrow> string" where
  "spell_roles roles = join '', '' (map role_str (filter (\<lambda>r. r \<in> roles) role_all))"

record capabilities =
  cap_registrar :: bool
  cap_proxy :: bool

definition CALL_PATH :: capabilities where
  "CALL_PATH = \<lparr>cap_registrar = True, cap_proxy = True\<rparr>"

definition capabilities_of :: "role set \<Rightarrow> capabilities" where
  "capabilities_of roles = \<lparr>cap_registrar = Registrar \<in> roles, cap_proxy = list_ex (\<lambda>r. r \<in> roles \<and> is_proxying r) role_all\<rparr>"

definition capabilities_describe :: "capabilities \<Rightarrow> string" where
  "capabilities_describe c =
    (case (cap_registrar c, cap_proxy c) of
       (True, True) \<Rightarrow> ''registrar+proxy'' | (True, False) \<Rightarrow> ''registrar''
     | (False, True) \<Rightarrow> ''proxy'' | (False, False) \<Rightarrow> ''nothing'')"

record node_identity =
  id_node :: u16
  id_zone :: string
  id_roles :: "role set"

section \<open>The sections of a document\<close>

record listener_spec =
  ls_roles :: "role set"
  ls_transport :: string
  ls_bind :: string
  ls_advertise :: "string option"

datatype incarnation_source = BootSecond | PersistedCounter

definition incarnation_str :: "incarnation_source \<Rightarrow> string" where
  "incarnation_str s = (case s of BootSecond \<Rightarrow> ''boot-second'' | PersistedCounter \<Rightarrow> ''persisted-counter'')"

definition incarnation_parse :: "string \<Rightarrow> incarnation_source option" where
  "incarnation_parse s = List.find (\<lambda>i. incarnation_str i = s) [BootSecond, PersistedCounter]"

record member_spec =
  mb_node :: u16
  mb_name :: string
  mb_zone :: string
  mb_roles :: "role set"
  mb_rpc :: "string option"
  mb_incarnation_source :: incarnation_source
  mb_incarnation_ref :: "string option"

datatype key_algorithm = ChaCha20Poly1305 | HmacSha256_96

definition algorithm_str :: "key_algorithm \<Rightarrow> string" where
  "algorithm_str a = (case a of ChaCha20Poly1305 \<Rightarrow> ''chacha20-poly1305'' | HmacSha256_96 \<Rightarrow> ''hmac-sha256-96'')"

definition algorithm_parse :: "string \<Rightarrow> key_algorithm option" where
  "algorithm_parse s = List.find (\<lambda>a. algorithm_str a = s) [ChaCha20Poly1305, HmacSha256_96]"

record key_spec =
  ky_id :: u8
  ky_algorithm :: key_algorithm
  ky_secret_ref :: string
  ky_verify_from :: int
  ky_verify_until :: int
  ky_mint :: bool

record shard_spec =
  sh_id :: u16
  sh_owner :: string

record shard_map_spec =
  sm_drain_timeout_ms :: u64
  sm_shards :: "shard_spec list"

record location_store_spec =
  st_backend :: string
  st_dsn_ref :: "string option"

record tenant_policy_spec =
  tp_default_expires :: u32
  tp_min_expires :: u32
  tp_max_expires :: u32
  tp_max_bindings_per_aor :: u64

definition default_tenant_policy :: tenant_policy_spec where
  "default_tenant_policy = \<lparr>tp_default_expires = 3600, tp_min_expires = 60, tp_max_expires = 86400, tp_max_bindings_per_aor = 10\<rparr>"

record auth_spec =
  au_realm :: string
  au_secret_ref :: string

record tenant_spec =
  tn_name :: string
  tn_id :: u32
  tn_domains :: "string list"
  tn_policy :: tenant_policy_spec
  tn_auth :: "auth_spec option"

definition UNAPPLIED_SECURITY_CONTROLS :: "(string \<times> string) list" where
  "UNAPPLIED_SECURITY_CONTROLS =
    [(''unknownSource'', ''whether a request from an unconfigured source reaches a SIP decision path''),
     (''sanityCheck'', ''which malformed messages are refused before a decision is taken on them''),
     (''userAgentDenyList'', ''which User-Agent values are turned away''),
     (''internalZone'', ''which addresses count as internal, and so what the other three are relative to'')]"

record security_spec =
  sc_max_forwards :: u8

definition default_security :: security_spec where
  "default_security = \<lparr>sc_max_forwards = MAX_FORWARDS\<rparr>"

record admission_spec =
  ad_max_in_flight_transactions :: u64

definition default_admission :: admission_spec where
  "default_admission = \<lparr>ad_max_in_flight_transactions = DEFAULT_MAX_IN_FLIGHT_TRANSACTIONS\<rparr>"

record timers_spec =
  ti_t1_ms :: u64
  ti_timer_b_ms :: u64
  ti_timer_f_ms :: u64
  ti_timer_c_ms :: u64

definition default_timers :: timers_spec where
  "default_timers = \<lparr>ti_t1_ms = 500, ti_timer_b_ms = 64 * 500, ti_timer_f_ms = 64 * 500, ti_timer_c_ms = DEFAULT_TIMER_C_MS\<rparr>"

record config =
  cf_api_version :: string
  cf_version :: u32
  cf_name :: string
  cf_environment :: string
  cf_zones :: "string list"
  cf_listeners :: "listener_spec list"
  cf_membership :: "member_spec list"
  cf_keys :: "key_spec list"
  cf_shard_map :: "shard_map_spec option"
  cf_location_store :: "location_store_spec option"
  cf_tenants :: "tenant_spec list"
  cf_security :: security_spec
  cf_admission :: admission_spec
  cf_timers :: timers_spec
  cf_unapplied :: "path list"
  cf_sections :: "(string \<times> string) list"

record projected_config =
  pj_identity :: node_identity
  pj_version :: u32
  pj_listeners :: "listener_spec list"
  pj_location_store :: "location_store_spec option"
  pj_tenants :: "tenant_spec list"
  pj_security :: security_spec
  pj_admission :: admission_spec
  pj_timers :: timers_spec

definition DEFERRED_SECTIONS :: "string list" where
  "DEFERRED_SECTIONS = [''profile'', ''management'', ''registrar'', ''normalisation'', ''trunk'', ''domain'',
    ''destinationSet'', ''routeRule'', ''ingress'', ''rateLimit'', ''nat'', ''mediaPool'', ''observability'',
    ''probe'', ''echo'']"

definition CLUSTER_KEYS :: "string list" where
  "CLUSTER_KEYS = [''name'', ''environment'', ''zones'', ''listener'', ''membership'', ''keys'', ''shardMap'',
    ''locationStore'', ''tenant'', ''security'', ''admission'', ''timers'']"

datatype reload_class = Rollout | Reloadable

definition RELOAD_CLASSES :: "(string \<times> reload_class) list" where
  "RELOAD_CLASSES =
    [(''name'', Rollout), (''environment'', Rollout), (''zones'', Rollout), (''profile'', Rollout),
     (''listener'', Rollout), (''management'', Rollout), (''membership'', Reloadable), (''keys'', Reloadable),
     (''shardMap'', Reloadable), (''locationStore'', Rollout), (''registrar'', Rollout), (''tenant'', Reloadable),
     (''normalisation'', Reloadable), (''trunk'', Reloadable), (''domain'', Reloadable),
     (''destinationSet'', Reloadable), (''routeRule'', Reloadable), (''ingress'', Reloadable),
     (''rateLimit'', Reloadable), (''timers'', Reloadable), (''security'', Reloadable), (''admission'', Reloadable),
     (''nat'', Reloadable), (''mediaPool'', Rollout), (''observability'', Reloadable), (''probe'', Reloadable),
     (''echo'', Reloadable)]"

definition class_of_section :: "string \<Rightarrow> reload_class" where
  "class_of_section section_name =
    (case map_of RELOAD_CLASSES section_name of None \<Rightarrow> Rollout | Some class \<Rightarrow> class)"

section \<open>Facts\<close>

lemma role_all [simp]: "r \<in> set role_all"
  by (cases r) (simp_all add: role_all_def)

lemma role_parse_str: "role_parse (role_str r) = Some r"
  by (cases r) (simp_all add: role_parse_def role_all_def role_str_def)

lemma role_parse_Some: "role_parse s = Some r \<longleftrightarrow> s = role_str r"
  using role_parse_str by (auto simp: role_parse_def find_Some_iff)

lemma capabilities_of_proxy: "cap_proxy (capabilities_of roles) \<longleftrightarrow> (\<exists>r \<in> roles. is_proxying r)"
  by (auto simp: capabilities_of_def list_ex_iff)

lemma every_section_classified: "section_name \<in> set CLUSTER_KEYS \<union> set DEFERRED_SECTIONS \<Longrightarrow> map_of RELOAD_CLASSES section_name \<noteq> None"
  by (auto simp: CLUSTER_KEYS_def DEFERRED_SECTIONS_def RELOAD_CLASSES_def)

text \<open>A call-path node is exactly one that serves a path or carries requests onward.\<close>

lemma call_path_capabilities:
  "(\<exists>r \<in> roles. is_call_path r) \<longleftrightarrow> cap_registrar (capabilities_of roles) \<or> cap_proxy (capabilities_of roles)"
  by (auto simp: capabilities_of_proxy capabilities_of_def is_call_path_def is_proxying_def list_ex_iff)

end
