(* ===== verification/Cluster.thy ===== *)
theory Cluster imports Prelude Ascii Netaddr Listen Errors Document Config begin

text \<open>
  The readers of \<^verbatim>\<open>config/mod.rs\<close> for roles, zones, listeners and membership, and the
  checks of a node's identity against them.
\<close>

section \<open>Roles\<close>

definition read_roles :: "('n, 'f) yaml_lib \<Rightarrow> 'n yaml option \<Rightarrow> path \<Rightarrow> role set reading" where
  "read_roles y value_at at =
    (case value_at of
       None \<Rightarrow> do { refuse at ''CC-R2'' None ''a sequence of roles; roles is a set, not a value''; ret {} }
     | Some v \<Rightarrow>
        (case as_sequence y v of
           None \<Rightarrow> do {
             refuse at ''CC-R2'' (Some (type_of v)) ''a sequence of roles; roles is a set, not a value'';
             ret {} }
         | Some items \<Rightarrow>
             for_each 0 items {} (\<lambda>i item roles.
               case Option.bind (as_str y item) role_parse of
                 Some role \<Rightarrow> ret (insert role roles)
               | None \<Rightarrow> do {
                   refuse (path_index at i) ''CC-R1'' (quoted y item) (''one of the closed role set: '' @ closed_set);
                   ret roles })))"

definition check_role_combination :: "role set \<Rightarrow> path \<Rightarrow> unit reading" where
  "check_role_combination roles at =
    (if roles = {}
     then refuse at ''CC-R4'' (Some ''[]'') ''at least one role; a node that runs nothing should not have been started''
     else for_each 0 [Echo, E2eTester] () (\<lambda>_ offender _.
       guarded (offender \<in> roles \<and> list_ex (\<lambda>r. r \<in> roles \<and> is_call_path r) role_all)
         (refuse at ''CC-R6'' (Some (spell_roles roles))
           (''`'' @ role_str offender @ ''` not combined with edge, registrar, inbound-proxy or outbound-proxy''))))"

section \<open>Zones\<close>

definition read_zone :: "('n, 'f) yaml_lib \<Rightarrow> 'n yaml \<Rightarrow> path \<Rightarrow> string list \<Rightarrow> string list reading" where
  "read_zone y item at zones =
    (case as_str y item of
       Some zone \<Rightarrow>
         if zone \<noteq> [] then ret (zones @ [zone])
         else do { refuse at ''CC-7'' (Some (type_of item)) ''a non-empty zone name''; ret zones }
     | None \<Rightarrow> do { refuse at ''CC-7'' (Some (type_of item)) ''a non-empty zone name''; ret zones })"

definition read_zones :: "('n, 'f) yaml_lib \<Rightarrow> 'n entries \<Rightarrow> path \<Rightarrow> string list reading" where
  "read_zones y cluster at =
    (let at = path_field at ''zones'' in
     case lookup cluster ''zones'' of
       None \<Rightarrow> do { refuse at ''CC-7'' None ''a sequence of zone names''; ret [] }
     | Some v \<Rightarrow>
        (case as_sequence y v of
           None \<Rightarrow> do { refuse at ''CC-7'' (Some (type_of v)) ''a sequence of zone names''; ret [] }
         | Some items \<Rightarrow> do {
             guarded (length items > 64) (refuse at ''CC-V8'' (Some (decimal (length items))) ''at most 64 zones'');
             for_each 0 items [] (\<lambda>i item zones. read_zone y item (path_index at i) zones) }))"

section \<open>Listeners\<close>

definition refuse_inline_tls_key :: "('n, 'f) yaml_lib \<Rightarrow> 'n yaml \<Rightarrow> path \<Rightarrow> unit reading" where
  "refuse_inline_tls_key y v at =
    (case as_entries y v of
       None \<Rightarrow> ret ()
     | Some tls \<Rightarrow>
         guarded (contains_key tls ''key'')
           (refuse (path_field at ''key'') ''CC-V9'' (Some ''an inline TLS private key'')
             ''keyRef naming a private key the driver resolves; no secret value appears in the document''))"

definition check_transport :: "string \<Rightarrow> path \<Rightarrow> string option reading" where
  "check_transport declared at =
    (if declared \<in> {''udp'', ''tcp''} then ret (Some declared)
     else if declared \<in> {''tls'', ''ws'', ''wss''} then do {
       refuse at ''CC-V10'' (Some declared)
         (''udp or tcp; this build cannot serve tls, ws or wss, and will not silently ''
          @ ''substitute cleartext for a transport that was asked for'');
       ret None }
     else do { refuse at ''CC-V2'' (Some declared) ''one of: udp, tcp, tls, ws, wss''; ret None })"

definition LISTENER_KEYS :: "string list" where
  "LISTENER_KEYS = [''roles'', ''transport'', ''bind'', ''advertise'', ''connectionLifetime'', ''maxConnections'', ''tls'']"

text \<open>The keys of a list a mapping declares, recorded as not applied.\<close>

definition record_unapplied :: "'n entries \<Rightarrow> string list \<Rightarrow> path \<Rightarrow> unit reading" where
  "record_unapplied m keys at =
    for_each 0 keys () (\<lambda>_ key _. guarded (contains_key m key) (unapplied_at (path_field at key)))"

definition read_listener :: "('n, 'f) yaml_lib \<Rightarrow> 'n yaml \<Rightarrow> path \<Rightarrow> listener_spec option reading" where
  "read_listener y item at = do {
    m \<leftarrow> as_mapping y item at;
    case m of
      None \<Rightarrow> ret None
    | Some m \<Rightarrow> do {
        closed_world y m LISTENER_KEYS at;
        record_unapplied m [''connectionLifetime'', ''maxConnections'', ''tls''] at;
        (case lookup m ''tls'' of None \<Rightarrow> ret () | Some tls \<Rightarrow> refuse_inline_tls_key y tls (path_field at ''tls''));
        roles \<leftarrow> read_roles y (lookup m ''roles'') (path_field at ''roles'');
        declared \<leftarrow> required_str y m ''transport'' at ''CC-7'';
        transport \<leftarrow> (case declared of
          None \<Rightarrow> ret None | Some declared \<Rightarrow> check_transport declared (path_field at ''transport''));
        bind_text \<leftarrow> required_str y m ''bind'' at ''CC-7'';
        (let advertise = Option.bind (lookup m ''advertise'') (as_str y) in
         case (transport, bind_text) of
           (Some transport, Some bind_text) \<Rightarrow>
             ret (Some \<lparr>ls_roles = roles, ls_transport = transport, ls_bind = bind_text, ls_advertise = advertise\<rparr>)
         | _ \<Rightarrow> ret None) } }"

definition push_option :: "'a option \<Rightarrow> 'a list \<Rightarrow> 'a list" where
  "push_option v acc = (case v of None \<Rightarrow> acc | Some x \<Rightarrow> acc @ [x])"

definition read_listeners :: "('n, 'f) yaml_lib \<Rightarrow> 'n entries \<Rightarrow> path \<Rightarrow> listener_spec list reading" where
  "read_listeners y cluster at =
    (let at = path_field at ''listener'' in
     case lookup cluster ''listener'' of
       None \<Rightarrow> do { refuse at ''CC-7'' None ''a sequence of listeners; a cluster with none can serve nothing''; ret [] }
     | Some v \<Rightarrow>
        (case as_sequence y v of
           None \<Rightarrow> do { refuse at ''CC-7'' (Some (type_of v)) ''a sequence of listeners''; ret [] }
         | Some items \<Rightarrow>
             for_each 0 items [] (\<lambda>i item listeners. do {
               l \<leftarrow> read_listener y item (path_index at i);
               ret (push_option l listeners) })))"

section \<open>Membership\<close>

definition call_path_roles :: "role set \<Rightarrow> bool" where
  "call_path_roles roles \<longleftrightarrow> list_ex (\<lambda>r. r \<in> roles \<and> is_call_path r) role_all"

definition read_rpc :: "('n, 'f) yaml_lib \<Rightarrow> 'n entries \<Rightarrow> role set \<Rightarrow> path \<Rightarrow> string option reading" where
  "read_rpc y m roles at =
    (let at = path_field at ''rpc''; owns_flows = call_path_roles roles in
     case lookup m ''rpc'' of
       None \<Rightarrow> do {
         guarded owns_flows (refuse at ''CC-MB5'' None
           (''an advertised host:port; a member on the call path owns flows, and a peer with no ''
            @ ''endpoint to dial cannot deliver a request toward a client this node owns''));
         ret None }
     | Some v \<Rightarrow>
        if \<not> owns_flows then do {
          refuse at ''CC-MB5'' (Some ''an advertised endpoint'')
            (''no rpc key: this member's roles are off the call path, so it owns no flow and no peer ''
             @ ''dials it'');
          ret None }
        else case as_str y v of
            None \<Rightarrow> do { refuse at ''CC-MB6'' (Some (type_of v)) ''a host:port string''; ret None }
          | Some endpoint_text \<Rightarrow>
             (case advertised_parse endpoint_text of
                Inr endpoint \<Rightarrow>
                  if ad_port endpoint \<noteq> None then ret (Some endpoint_text)
                  else do {
                    refuse at ''CC-MB6'' (Some endpoint_text)
                      (''a host:port; the RPC port is a deployment fact with no default, and a defaulted ''
                       @ ''one is a port the far side has to guess'');
                    ret None }
              | Inl why \<Rightarrow> do {
                  refuse at ''CC-MB6'' (Some endpoint_text) (listener_error_text why);
                  ret None }))"

definition read_incarnation ::
  "('n, 'f) yaml_lib \<Rightarrow> 'n entries \<Rightarrow> path \<Rightarrow> (incarnation_source \<times> string option) reading" where
  "read_incarnation y m at =
    (let declared = (case lookup m ''incarnationSource'' of
           None \<Rightarrow> Inr BootSecond
         | Some v \<Rightarrow> ok_or v (Option.bind (as_str y v) incarnation_parse)) in
     case declared of
       Inl v \<Rightarrow> do {
         refuse (path_field at ''incarnationSource'') ''CC-MB8'' (quoted y v)
           (''one of: '' @ incarnation_str BootSecond @ '', '' @ incarnation_str PersistedCounter);
         ret (BootSecond, None) }
     | Inr src \<Rightarrow>
        (let r = Option.bind (lookup m ''incarnationRef'') (as_str y) in do {
          guarded (src = PersistedCounter \<and> r = None)
            (refuse (path_field at ''incarnationRef'') ''CC-MB8'' None
              (''a reference the driver resolves the counter from; a persisted counter with nowhere to ''
               @ ''persist is a boot-second with extra words''));
          ret (src, r) }))"

definition quote :: "string \<Rightarrow> string" where
  "quote s = CHR 0x22 # s @ [CHR 0x22]"

definition check_member_is_unique ::
  "member_spec list \<Rightarrow> string option \<Rightarrow> string option \<Rightarrow> path \<Rightarrow> unit reading" where
  "check_member_is_unique members name_opt rpc at = do {
    (case name_opt of
       None \<Rightarrow> ret ()
     | Some declared \<Rightarrow>
        (case List.find (\<lambda>m. mb_name m = declared) members of
           None \<Rightarrow> ret ()
         | Some existing \<Rightarrow>
             refuse (path_field at ''name'') ''CC-MB4'' (Some declared)
               (''a name not already held by node '' @ decimal (unat (mb_node existing)))));
    (case rpc of
       None \<Rightarrow> ret ()
     | Some declared \<Rightarrow>
        (case List.find (\<lambda>m. mb_rpc m = Some declared) members of
           None \<Rightarrow> ret ()
         | Some existing \<Rightarrow>
             refuse (path_field at ''rpc'') ''CC-MB6'' (Some declared)
               (''an endpoint not already advertised by '' @ quote (mb_name existing)))) }"

definition MEMBER_KEYS :: "string list" where
  "MEMBER_KEYS = [''node'', ''name'', ''zone'', ''roles'', ''rpc'', ''incarnationSource'', ''incarnationRef'']"

text \<open>The body of the loop over \<^verbatim>\<open>membership[]\<close>: the members so far, and one entry more.\<close>

definition read_member :: "('n, 'f) yaml_lib \<Rightarrow> 'n yaml \<Rightarrow> path \<Rightarrow> member_spec list \<Rightarrow> member_spec list reading" where
  "read_member y item at members = do {
    m \<leftarrow> as_mapping y item at;
    case m of
      None \<Rightarrow> ret members
    | Some m \<Rightarrow> do {
        closed_world y m MEMBER_KEYS at;
        record_unapplied m [''rpc'', ''incarnationSource'', ''incarnationRef''] at;
        node \<leftarrow> required_uint y m ''node'' at ''CC-I1'' 0xFFFF;
        name_opt \<leftarrow> required_str y m ''name'' at ''CC-I1'';
        zone \<leftarrow> required_str y m ''zone'' at ''CC-I1'';
        roles \<leftarrow> read_roles y (lookup m ''roles'') (path_field at ''roles'');
        check_role_combination roles (path_field at ''roles'');
        rpc \<leftarrow> read_rpc y m roles at;
        incarnation \<leftarrow> read_incarnation y m at;
        case node of
          None \<Rightarrow> ret members
        | Some node \<Rightarrow> do {
            guarded (node = 0) (refuse (path_field at ''node'') ''CC-I2'' (Some ''0'')
              (''a node id of 1 or greater; 0 is reserved for '' @ quote ''none''));
            case narrow node of
              None \<Rightarrow> ret members
            | Some node \<Rightarrow> do {
                (case List.find (\<lambda>m. mb_node m = node) members of
                   None \<Rightarrow> ret ()
                 | Some existing \<Rightarrow>
                     refuse (path_field at ''node'') ''CC-I2'' (Some (decimal (unat node)))
                       (''an id not already held by '' @ quote (mb_name existing)));
                check_member_is_unique members name_opt rpc at;
                case (name_opt, zone) of
                  (Some member_name, Some zone) \<Rightarrow>
                    ret (members @ [\<lparr>mb_node = node, mb_name = member_name, mb_zone = zone, mb_roles = roles, mb_rpc = rpc,
                      mb_incarnation_source = fst incarnation, mb_incarnation_ref = snd incarnation\<rparr>])
                | _ \<Rightarrow> ret members } } } }"

definition read_membership :: "('n, 'f) yaml_lib \<Rightarrow> 'n entries \<Rightarrow> path \<Rightarrow> member_spec list reading" where
  "read_membership y cluster at =
    (let at = path_field at ''membership'' in
     case lookup cluster ''membership'' of
       None \<Rightarrow> ret []
     | Some v \<Rightarrow>
        (case as_sequence y v of
           None \<Rightarrow> do { refuse at ''CC-7'' (Some (type_of v)) ''a sequence of membership entries''; ret [] }
         | Some items \<Rightarrow> for_each 0 items [] (\<lambda>i item members. read_member y item (path_index at i) members)))"

section \<open>The node against the document\<close>

definition check_membership_agrees :: "member_spec list \<Rightarrow> node_identity \<Rightarrow> path \<Rightarrow> unit reading" where
  "check_membership_agrees membership identity at =
    (case List.find (\<lambda>m. mb_node m = id_node identity) membership of
       None \<Rightarrow> ret ()
     | Some entry \<Rightarrow>
        (let at = path_field at ''membership'' in do {
          guarded (mb_zone entry \<noteq> id_zone identity)
            (refuse at ''CC-P3'' (Some (''zone '' @ quote (mb_zone entry) @ '' in the document''))
              (''zone '' @ quote (id_zone identity) @ '', which this node was started with''));
          guarded (mb_roles entry \<noteq> id_roles identity)
            (refuse at ''CC-P3'' (Some (''roles ['' @ spell_roles (mb_roles entry) @ ''] in the document''))
              (''roles ['' @ spell_roles (id_roles identity) @ ''], which this node was started with'')) }))"

definition serves :: "listener_spec \<Rightarrow> node_identity \<Rightarrow> bool" where
  "serves l identity \<longleftrightarrow> list_ex (\<lambda>r. r \<in> ls_roles l \<and> r \<in> id_roles identity) role_all"

definition check_projection_has_a_listener :: "listener_spec list \<Rightarrow> node_identity \<Rightarrow> path \<Rightarrow> unit reading" where
  "check_projection_has_a_listener listeners identity at =
    (if id_roles identity = {} then ret ()
     else guarded (filter (\<lambda>l. serves l identity) listeners = [])
       (refuse (path_field at ''listener'') ''CC-P4'' (Some ''0 listeners for this node's roles'')
         ''at least one listener whose roles intersect this node's''))"

section \<open>The readers are uniform\<close>

lemma uniform_read_roles [reader]: "uniform (read_roles y v at)"
  by (auto simp: read_roles_def intro!: reader split: option.split)

lemma uniform_check_role_combination [reader]: "uniform (check_role_combination roles at)"
  by (auto simp: check_role_combination_def intro!: reader)

lemma uniform_read_zone [reader]: "uniform (read_zone y item at zones)"
  by (auto simp: read_zone_def intro!: reader)

lemma uniform_read_zones [reader]: "uniform (read_zones y cluster at)"
  by (auto simp: read_zones_def Let_def intro!: reader)

lemma uniform_refuse_inline_tls_key [reader]: "uniform (refuse_inline_tls_key y v at)"
  by (auto simp: refuse_inline_tls_key_def intro!: reader)

lemma uniform_check_transport [reader]: "uniform (check_transport declared at)"
  by (auto simp: check_transport_def intro!: reader)

lemma uniform_record_unapplied [reader]: "uniform (record_unapplied m keys at)"
  by (auto simp: record_unapplied_def intro!: reader)

lemma uniform_read_listener [reader]: "uniform (read_listener y item at)"
  by (auto simp: read_listener_def Let_def intro!: reader)

lemma uniform_read_listeners [reader]: "uniform (read_listeners y cluster at)"
  by (auto simp: read_listeners_def Let_def intro!: reader)

lemma uniform_sum [reader]: "(\<And>e. uniform (f e)) \<Longrightarrow> (\<And>x. uniform (g x)) \<Longrightarrow> uniform (case v of Inl e \<Rightarrow> f e | Inr x \<Rightarrow> g x)"
  by (simp split: sum.split)

lemma uniform_read_rpc [reader]: "uniform (read_rpc y m roles at)"
  by (auto simp: read_rpc_def Let_def intro!: reader)

lemma uniform_read_incarnation [reader]: "uniform (read_incarnation y m at)"
  by (auto simp: read_incarnation_def Let_def intro!: reader)

lemma uniform_check_member_is_unique [reader]: "uniform (check_member_is_unique members name_opt rpc at)"
  by (auto simp: check_member_is_unique_def intro!: reader)

lemma uniform_read_member [reader]: "uniform (read_member y item at members)"
  unfolding read_member_def by (intro reader)

lemma uniform_read_membership [reader]: "uniform (read_membership y cluster at)"
  by (auto simp: read_membership_def Let_def intro!: reader)

lemma uniform_check_membership_agrees [reader]: "uniform (check_membership_agrees membership identity at)"
  by (auto simp: check_membership_agrees_def Let_def intro!: reader)

lemma uniform_check_projection_has_a_listener [reader]:
  "uniform (check_projection_has_a_listener listeners identity at)"
  by (auto simp: check_projection_has_a_listener_def intro!: reader)

section \<open>What the readers accept\<close>

text \<open>A set of roles a node may hold, and the sections as a loaded document has them.\<close>

definition roles_ok :: "role set \<Rightarrow> bool" where
  "roles_ok roles \<longleftrightarrow> roles \<noteq> {} \<and> \<not> (call_path_roles roles \<and> (Echo \<in> roles \<or> E2eTester \<in> roles))"

definition zones_ok :: "string list \<Rightarrow> bool" where
  "zones_ok zones \<longleftrightarrow> length zones \<le> 64 \<and> (\<forall>zone \<in> set zones. zone \<noteq> [])"

definition listener_ok :: "listener_spec \<Rightarrow> bool" where
  "listener_ok l \<longleftrightarrow> ls_transport l \<in> {''udp'', ''tcp''} \<and> ls_bind l \<noteq> []"

definition rpc_ok :: "role set \<Rightarrow> string option \<Rightarrow> bool" where
  "rpc_ok roles rpc \<longleftrightarrow>
    (case rpc of None \<Rightarrow> \<not> call_path_roles roles
     | Some endpoint \<Rightarrow> call_path_roles roles \<and> (\<exists>a. advertised_parse endpoint = Inr a \<and> ad_port a \<noteq> None))"

definition member_ok :: "member_spec \<Rightarrow> bool" where
  "member_ok m \<longleftrightarrow> mb_node m \<noteq> 0 \<and> mb_name m \<noteq> [] \<and> mb_zone m \<noteq> [] \<and> roles_ok (mb_roles m)
    \<and> rpc_ok (mb_roles m) (mb_rpc m)
    \<and> (mb_incarnation_source m = PersistedCounter \<longrightarrow> mb_incarnation_ref m \<noteq> None)"

definition membership_ok :: "member_spec list \<Rightarrow> bool" where
  "membership_ok ms \<longleftrightarrow> (\<forall>m \<in> set ms. member_ok m) \<and> distinct (map mb_node ms) \<and> distinct (map mb_name ms)
    \<and> distinct (List.map_filter mb_rpc ms)"

lemma clean_check_role_combination [clean_simps]: "clean (check_role_combination roles at) u \<longleftrightarrow> roles_ok roles"
  by (auto simp: check_role_combination_def roles_ok_def call_path_roles_def clean_simps reader ex_unit)

lemma clean_record_unapplied [clean_simps]: "clean (record_unapplied m keys at) u"
  unfolding record_unapplied_def by (subst clean_for_each_unit) (auto simp: clean_simps reader)

lemma clean_read_zone [clean_simps]:
  "clean (read_zone y item at zones) zones' \<longleftrightarrow> (\<exists>zone. as_str y item = Some zone \<and> zone \<noteq> [] \<and> zones' = zones @ [zone])"
  by (auto simp: read_zone_def clean_simps reader split: option.split)

lemma read_zones_ok:
  assumes "clean (read_zones y cluster at) zones"
  shows "zones_ok zones"
proof -
  obtain items where len: "length items \<le> 64"
    and loop: "clean (for_each 0 items [] (\<lambda>i item. read_zone y item (path_index (path_field at ''zones'') i))) zones"
    using assms by (auto simp: read_zones_def clean_simps reader ex_unit not_less split: option.splits)
  have "length zones \<le> length ([] :: string list) + length items"
    by (rule clean_for_each_count [OF loop]) (auto simp: reader clean_simps)
  moreover have "\<forall>zone \<in> set zones. zone \<noteq> []"
    by (rule clean_for_each_inv [OF loop]) (auto simp: reader clean_simps)
  ultimately show ?thesis using len by (simp add: zones_ok_def)
qed

lemma clean_check_transport [clean_simps]:
  "clean (check_transport declared at) r \<longleftrightarrow> declared \<in> {''udp'', ''tcp''} \<and> r = Some declared"
  by (auto simp: check_transport_def clean_simps reader)

lemma read_listener_ok:
  assumes "clean (read_listener y item at) l"
  shows "\<exists>l'. l = Some l' \<and> listener_ok l'"
  using assms by (auto simp: read_listener_def listener_ok_def clean_simps reader ex_unit str_field_def)

lemma read_listeners_ok:
  assumes "clean (read_listeners y cluster at) ls"
  shows "\<forall>l \<in> set ls. listener_ok l"
proof -
  obtain items where loop: "clean (for_each 0 items [] (\<lambda>i item listeners. do {
      l \<leftarrow> read_listener y item (path_index (path_field at ''listener'') i);
      ret (push_option l listeners) })) ls"
    using assms by (auto simp: read_listeners_def clean_simps reader ex_unit split: option.splits)
  show ?thesis
    by (rule clean_for_each_inv [OF loop])
      (auto simp: clean_simps reader push_option_def dest!: read_listener_ok)
qed

lemma clean_read_rpc [clean_simps]:
  "clean (read_rpc y m roles at) rpc \<longleftrightarrow> rpc_ok roles rpc \<and> (case lookup m ''rpc'' of None \<Rightarrow> rpc = None
    | Some v \<Rightarrow> as_str y v = rpc \<and> rpc \<noteq> None)"
  by (auto simp: read_rpc_def rpc_ok_def Let_def clean_simps reader ex_unit split: option.splits sum.splits)

lemma read_incarnation_ok:
  assumes "clean (read_incarnation y m at) (src, r)"
  shows "src = PersistedCounter \<longrightarrow> r \<noteq> None"
  using assms by (auto simp: read_incarnation_def clean_simps reader ex_unit split: option.splits sum.splits)

lemma find_case [clean_simps]:
  "(case List.find (\<lambda>x. f x = a) xs of None \<Rightarrow> True | Some e \<Rightarrow> False) \<longleftrightarrow> a \<notin> set (map f xs)"
  by (induction xs) auto

lemma find_distinct: "distinct (map f xs) \<Longrightarrow> x \<in> set xs \<Longrightarrow> f x = a \<Longrightarrow> List.find (\<lambda>x. f x = a) xs = Some x"
  by (induction xs) (auto dest: rev_image_eqI)

lemma clean_check_member_is_unique [clean_simps]:
  "clean (check_member_is_unique ms name_opt rpc at) u \<longleftrightarrow>
    (\<forall>n. name_opt = Some n \<longrightarrow> n \<notin> set (map mb_name ms)) \<and> (\<forall>r. rpc = Some r \<longrightarrow> Some r \<notin> set (map mb_rpc ms))"
  by (simp add: check_member_is_unique_def clean_simps reader ex_unit cong: option.case_cong split: option.split)

lemma map_filter_Some: "r \<in> set (List.map_filter f xs) \<longleftrightarrow> Some r \<in> set (map f xs)"
  by (auto simp: List.map_filter_def image_iff) (metis option.sel)+

lemma read_member_ok:
  assumes "clean (read_member y item at members) members'" and "membership_ok members"
  shows "membership_ok members'"
proof -
  from assms(1) obtain n nm z roles rpc src r node where new: "members' = members @ [\<lparr>mb_node = node, mb_name = nm,
      mb_zone = z, mb_roles = roles, mb_rpc = rpc, mb_incarnation_source = src, mb_incarnation_ref = r\<rparr>]"
    and node: "narrow n = Some node" "n \<noteq> 0" "node \<notin> set (map mb_node members)"
    and nm: "nm \<noteq> []" "nm \<notin> set (map mb_name members)" and "z \<noteq> []" and roles: "roles_ok roles" "rpc_ok roles rpc"
    and rpc: "\<forall>e. rpc = Some e \<longrightarrow> Some e \<notin> set (map mb_rpc members)"
    and src: "src = PersistedCounter \<longrightarrow> r \<noteq> None"
  proof -
    from assms(1) obtain m n nm z roles rpc src r where
      n: "uint_field y m ''node'' 0xFFFF n" "n \<noteq> 0" "str_field y m ''name'' nm" "str_field y m ''zone'' z"
      and r: "roles_ok roles" "rpc_ok roles rpc" "clean (read_incarnation y m at) (src, r)"
      and rest: "case narrow n of None \<Rightarrow> members = members' | Some node \<Rightarrow> node \<notin> set (map mb_node members)
        \<and> nm \<notin> set (map mb_name members) \<and> (\<forall>e. rpc = Some e \<longrightarrow> Some e \<notin> set (map mb_rpc members))
        \<and> members @ [\<lparr>mb_node = node, mb_name = nm, mb_zone = z, mb_roles = roles, mb_rpc = rpc,
            mb_incarnation_source = src, mb_incarnation_ref = r\<rparr>] = members'"
      by (simp add: read_member_def clean_simps reader ex_unit cong: option.case_cong) blast
    moreover obtain node :: u16 where "narrow n = Some node"
      using narrow_bounded [OF uint_field_bound [OF n(1)], where ?'a = 16] by auto
    ultimately show ?thesis using that str_field_nonempty read_incarnation_ok by fastforce
  qed
  have "node \<noteq> 0" using narrow_Some [OF node(1)] node(2) by (metis unat_eq_zero)
  moreover have "distinct (List.map_filter mb_rpc members')"
    using assms(2) rpc by (auto simp: new membership_ok_def map_filter_Some List.map_filter_def) (metis rev_image_eqI)
  ultimately show ?thesis using assms(2) node(3) nm \<open>z \<noteq> []\<close> roles src by (simp add: new membership_ok_def member_ok_def)
qed

lemma read_membership_ok:
  assumes "clean (read_membership y cluster at) ms"
  shows "membership_ok ms"
proof (cases "lookup cluster ''membership''")
  case None
  with assms show ?thesis by (auto simp: read_membership_def clean_simps membership_ok_def List.map_filter_def)
next
  case (Some v)
  with assms obtain items where loop: "clean (for_each 0 items [] (\<lambda>i item members.
      read_member y item (path_index (path_field at ''membership'') i) members)) ms"
    by (auto simp: read_membership_def clean_simps reader split: option.splits)
  show ?thesis
    by (rule clean_for_each_inv [OF loop]) (auto simp: reader membership_ok_def [of "[]"] List.map_filter_def intro: read_member_ok)
qed

text \<open>What the checks of the identity accept.\<close>

definition agrees :: "member_spec list \<Rightarrow> node_identity \<Rightarrow> bool" where
  "agrees ms identity \<longleftrightarrow>
    (\<forall>m \<in> set ms. mb_node m = id_node identity \<longrightarrow> mb_zone m = id_zone identity \<and> mb_roles m = id_roles identity)"

lemma check_membership_agrees_ok:
  assumes "clean (check_membership_agrees ms identity at) ()" "distinct (map mb_node ms)"
  shows "agrees ms identity"
proof -
  have only: "List.find (\<lambda>m. mb_node m = id_node identity) ms = Some m" if "m \<in> set ms" "mb_node m = id_node identity" for m
    using find_distinct [OF assms(2) that] .
  then show ?thesis using assms(1)
    by (auto simp: agrees_def check_membership_agrees_def clean_simps reader ex_unit Let_def)
qed

definition served :: "listener_spec list \<Rightarrow> node_identity \<Rightarrow> bool" where
  "served ls identity \<longleftrightarrow> (\<exists>l \<in> set ls. serves l identity)"

lemma clean_check_projection [clean_simps]:
  "clean (check_projection_has_a_listener ls identity at) u \<longleftrightarrow> id_roles identity = {} \<or> served ls identity"
  by (auto simp: check_projection_has_a_listener_def served_def clean_simps filter_empty_conv)

end
