(* ===== verification/Instant.thy ===== *)
theory Instant imports Prelude Ascii Netaddr "HOL-Library.Signed_Division" begin

text \<open>
  The instants of \<^verbatim>\<open>config/mod.rs\<close>: an RFC 3339 UTC text read into UNIX seconds.  An
  \<^verbatim>\<open>i64\<close> is an \<^typ>\<open>int\<close> with its range written where the code checks
  it; the unchecked arithmetic is on fields of at most four digits.  Division truncates, as Rust's does.
\<close>

section \<open>The calendar\<close>

definition is_leap_year :: "int \<Rightarrow> bool" where
  "is_leap_year year \<longleftrightarrow> year smod 4 = 0 \<and> (year smod 100 \<noteq> 0 \<or> year smod 400 = 0)"

definition days_in_month :: "int \<Rightarrow> int \<Rightarrow> int" where
  "days_in_month year month =
    (if month \<in> {1, 3, 5, 7, 8, 10, 12} then 31
     else if month \<in> {4, 6, 9, 11} then 30
     else if month = 2 \<and> is_leap_year year then 29
     else if month = 2 then 28 else 0)"

definition days_from_civil :: "int \<Rightarrow> int \<Rightarrow> int \<Rightarrow> int" where
  "days_from_civil year month day =
    (let year = (if month \<le> 2 then year - 1 else year);
         era = (if year \<ge> 0 then year else year - 399) sdiv 400;
         year_of_era = year - era * 400;
         day_of_year = (153 * (if month > 2 then month - 3 else month + 9) + 2) sdiv 5 + day - 1;
         day_of_era = year_of_era * 365 + year_of_era sdiv 4 - year_of_era sdiv 100 + day_of_year
     in era * 146097 + day_of_era - 719468)"

section \<open>Reading an instant\<close>

definition fixed_digits :: "string \<Rightarrow> nat \<Rightarrow> int option" where
  "fixed_digits s width =
    (if length s \<noteq> width \<or> \<not> list_all is_digit s then None
     else let n = int (digits_value (map of_char s)) in if s \<noteq> [] \<and> n < 2 ^ 63 then Some n else None)"

text \<open>Three fields of a date or a time, and no fourth.\<close>

definition three_fields :: "char \<Rightarrow> nat \<Rightarrow> string \<Rightarrow> (int \<times> int \<times> int) option" where
  "three_fields d width s =
    (case split_on d s of
       [a, b, c] \<Rightarrow>
        (case (fixed_digits a width, fixed_digits b 2, fixed_digits c 2) of
           (Some a, Some b, Some c) \<Rightarrow> Some (a, b, c)
         | _ \<Rightarrow> None)
     | _ \<Rightarrow> None)"

text \<open>The time of day with its optional fraction.\<close>

definition read_time :: "string \<Rightarrow> (int \<times> int \<times> int) option" where
  "read_time time =
    (let (time, fraction) = (case text_split_once (CHR ''.'') time of Some parts \<Rightarrow> parts | None \<Rightarrow> (time, ''0''))
     in if fraction = [] \<or> \<not> list_all is_digit fraction then None else three_fields (CHR '':'') 2 time)"

definition checked_i64 :: "int \<Rightarrow> int option" where
  "checked_i64 i = (if - (2 ^ 63) \<le> i \<and> i < 2 ^ 63 then Some i else None)"

definition either :: "'a option \<Rightarrow> 'a option \<Rightarrow> 'a option" where
  "either a b = (case a of Some x \<Rightarrow> Some x | None \<Rightarrow> b)"

definition parse_rfc3339_utc :: "string \<Rightarrow> int option" where
  "parse_rfc3339_utc s =
    (case either (strip_suffix (CHR ''Z'') s) (strip_suffix (CHR ''z'') s) of
       None \<Rightarrow> None
     | Some body \<Rightarrow>
        (case either (text_split_once (CHR ''T'') body) (text_split_once (CHR ''t'') body) of
           None \<Rightarrow> None
         | Some (date, time) \<Rightarrow>
            (case three_fields (CHR ''-'') 4 date of
               None \<Rightarrow> None
             | Some (year, month, day) \<Rightarrow>
                if \<not> (1 \<le> month \<and> month \<le> 12) then None
                else if day < 1 \<or> day > days_in_month year month then None
                else case read_time time of
                    None \<Rightarrow> None
                  | Some (hour, minute, second) \<Rightarrow>
                     if hour > 23 \<or> minute > 59 \<or> second > 60 then None
                     else case checked_i64 (days_from_civil year month day * 86400) of
                         None \<Rightarrow> None
                       | Some seconds \<Rightarrow> checked_i64 (seconds + (hour * 3600 + minute * 60 + second)))))"

section \<open>The civil days are the calendar's\<close>

text \<open>The reference: whole years, whole months and the days of the month, counted one by one.\<close>

definition year_length :: "int \<Rightarrow> int" where
  "year_length year = (if is_leap_year year then 366 else 365)"

definition days_before_year :: "int \<Rightarrow> int" where
  "days_before_year year = (\<Sum>y \<in> {1970..<year}. year_length y) - (\<Sum>y \<in> {year..<1970}. year_length y)"

definition days_before_month :: "int \<Rightarrow> int \<Rightarrow> int" where
  "days_before_month year month = (\<Sum>m \<in> {1..<month}. days_in_month year m)"

definition calendar_days :: "int \<Rightarrow> int \<Rightarrow> int \<Rightarrow> int" where
  "calendar_days year month day = days_before_year year + days_before_month year month + (day - 1)"

lemma sdiv_pos: "0 \<le> a \<Longrightarrow> 0 < b \<Longrightarrow> a sdiv b = a div b" for a b :: int
  by (auto simp: signed_divide_int_def sgn_if)

lemma smod_zero: "a smod b = 0 \<longleftrightarrow> b dvd a" for a b :: int
  unfolding signed_modulo_int_def mult_eq_0_iff sgn_0_0 mod_eq_0_iff_dvd by auto

lemma leap_dvd: "is_leap_year year \<longleftrightarrow> 4 dvd year \<and> (\<not> 100 dvd year \<or> 400 dvd year)"
  by (simp add: is_leap_year_def smod_zero)

lemma era_floor: "(if year \<ge> 0 then year else year - 399) sdiv 400 = year div 400" for year :: int
  by (auto simp: signed_divide_int_def sgn_if; presburger)

text \<open>The days before a year, in closed form: leap days are counted by three divisions.\<close>

definition leap_days :: "int \<Rightarrow> int" where
  "leap_days year = year div 4 - year div 100 + year div 400"

lemma div_step: "0 < n \<Longrightarrow> year div n = (year - 1) div n + (if n dvd year then 1 else 0)" for n :: int
proof -
  assume n: "0 < n"
  define q r where qr: "q = (year - 1) div n" "r = (year - 1) mod n"
  have y: "year = n * q + (r + 1)" and r: "0 \<le> r" "r < n" using n by (simp_all add: qr)
  show ?thesis
  proof (cases "r + 1 = n")
    case True
    then have "year = n * (q + 1)" using y by (simp add: algebra_simps)
    with n qr(1) show ?thesis by simp
  next
    case False
    with r have "year div n = q" "year mod n = r + 1" using y
      by (intro int_div_pos_eq [of _ _ _ "r + 1"] int_mod_pos_eq [of _ _ q]; simp)+
    with r qr(1) show ?thesis by (auto simp: dvd_eq_mod_eq_0)
  qed
qed

lemma leap_sum: "(c \<longrightarrow> b) \<Longrightarrow> (b \<longrightarrow> a) \<Longrightarrow>
    (p + (if a then 1 else 0)) - (q + (if b then 1 else 0)) + (r + (if c then 1 else 0)) =
    p - q + r + (if a \<and> (\<not> b \<or> c) then 1 else 0)" for p q r :: int
  by (cases a; cases b; cases c) simp_all

lemma leap_days_step: "leap_days year = leap_days (year - 1) + (if is_leap_year year then 1 else 0)"
  unfolding leap_days_def leap_dvd div_step [of 4 year, OF zero_less_numeral]
    div_step [of 100 year, OF zero_less_numeral] div_step [of 400 year, OF zero_less_numeral]
proof (rule leap_sum)
  have "(100 :: int) dvd 400" "(4 :: int) dvd 100" by simp_all
  then show "400 dvd year \<longrightarrow> 100 dvd year" "100 dvd year \<longrightarrow> 4 dvd year" by (blast intro: dvd_trans)+
qed

lemma days_before_year_step: "days_before_year (year + 1) = days_before_year year + year_length year"
proof (cases "1970 \<le> year")
  case True
  then have "{1970..<year + 1} = insert year {1970..<year}" by auto
  with True show ?thesis by (simp add: days_before_year_def)
next
  case False
  then have "{year..<1970} = insert year {year + 1..<1970}" by auto
  with False show ?thesis by (simp add: days_before_year_def)
qed

lemma days_before_year_closed: "days_before_year year = 365 * year + leap_days (year - 1) - 719527"
proof (induction year rule: int_induct [where k = 1970])
  case base
  then show ?case by (simp add: days_before_year_def leap_days_def)
next
  case (step1 year)
  then show ?case using days_before_year_step [of year] leap_days_step [of year] by (simp add: year_length_def)
next
  case (step2 year)
  then show ?case using days_before_year_step [of "year - 1"] leap_days_step [of "year - 1"] by (simp add: year_length_def split: if_splits)
qed

lemma civil_closed:
  "days_from_civil year month day =
    (let year = (if month \<le> 2 then year - 1 else year) in
     365 * year + leap_days year
       + (153 * (if month > 2 then month - 3 else month + 9) + 2) sdiv 5 + day - 1 - 719468)"
proof -
  have split: "(era :: int) * 146097 + ((y - era * 400) * 365 + (y - era * 400) sdiv 4 - (y - era * 400) sdiv 100 + d) - 719468
      = 365 * y + leap_days y + d - 719468" if "era = y div 400" for era y d
  proof -
    have pos: "0 \<le> y - era * 400" using that by (simp add: minus_div_mult_eq_mod)
    then have "(y - era * 400) sdiv 4 = y div 4 - 100 * era" "(y - era * 400) sdiv 100 = y div 100 - 4 * era"
      by (simp_all add: sdiv_pos; presburger)+
    then show ?thesis unfolding leap_days_def that by (simp add: algebra_simps)
  qed
  show ?thesis unfolding days_from_civil_def Let_def era_floor
    by (subst split) auto
qed

lemma sum_below: "(\<Sum>m \<in> {1..<k}. f m) = (if k \<le> 1 then 0 else (\<Sum>m \<in> {1..<k - 1}. f m) + f (k - 1))"
  for f :: "int \<Rightarrow> int" and k :: int
proof (cases "k \<le> 1")
  case False
  then have "{1..<k} = insert (k - 1) {1..<k - 1}" by auto
  with False show ?thesis by simp
qed simp

lemmas month_sum = sum_below [of _ "numeral n" for n]

lemma month_days:
  assumes "1 \<le> month" "month \<le> 12"
  shows "days_before_month year month =
    (153 * (if month > 2 then month - 3 else month + 9) + 2) sdiv 5
      + (if month > 2 then (if is_leap_year year then 60 else 59) else - 306)"
proof -
  have "month \<in> {1, 2, 3, 4, 5, 6, 7, 8, 9, 10, 11, 12}" using assms by (simp; presburger)
  then show ?thesis
    by (auto simp: days_before_month_def month_sum sdiv_pos days_in_month_def)
qed

lemma civil_calendar: "1 \<le> month \<Longrightarrow> month \<le> 12 \<Longrightarrow> days_from_civil year month day = calendar_days year month day"
  unfolding calendar_days_def days_before_year_closed civil_closed Let_def
  using leap_days_step [of year] month_days [of month year] by (cases "month > 2") (auto simp: algebra_simps)

section \<open>The grammar of an instant\<close>

fun pad :: "nat \<Rightarrow> nat \<Rightarrow> string" where
  "pad 0 n = []"
| "pad (Suc w) n = pad w (n div 10) @ [digit_char (n mod 10)]"

lemma length_pad [simp]: "length (pad w n) = w"
  by (induction w arbitrary: n) auto

lemma pad_digits: "c \<in> set (pad w n) \<Longrightarrow> is_digit c"
  by (induction w arbitrary: n) (auto simp: digit_char_less)

lemma digit_point: "is_digit c \<Longrightarrow> 48 \<le> (of_char c :: nat) \<and> (of_char c :: nat) \<le> 57"
  by (simp add: is_digit_def Let_def)

lemma digits_value_pad: "n < 10 ^ w \<Longrightarrow> digits_value (map of_char (pad w n)) = n"
proof (induction w arbitrary: n)
  case 0
  then show ?case by (simp add: digits_value_def)
next
  case (Suc w)
  have "(of_char (digit_char (n mod 10)) :: nat) = 48 + n mod 10"
    unfolding digit_char_def by (rule of_char_of_nat) simp
  with Suc show ?case by (simp add: digits_value_snoc)
qed

lemma digits_value_limit:
  "list_all is_digit s \<Longrightarrow> digits_value (map of_char s) < 10 ^ length s \<and> pad (length s) (digits_value (map of_char s)) = s"
proof (induction s rule: rev_induct)
  case Nil
  then show ?case by (simp add: digits_value_def)
next
  case (snoc c s)
  let ?v = "digits_value (map of_char s)" and ?c = "of_char c :: nat"
  have c: "48 \<le> ?c" "?c \<le> 57" using snoc.prems digit_point [of c] by auto
  have v: "digits_value (map of_char (s @ [c])) = 10 * ?v + (?c - 48)" by (simp add: digits_value_snoc)
  have "digit_char (?c - 48) = c" using c by (simp add: digit_char_def)
  moreover have low: "(10 * ?v + k) div 10 = ?v" "(10 * ?v + k) mod 10 = k" if "k < 10" for k using that by simp_all
  have "(10 * ?v + (?c - 48)) div 10 = ?v" "(10 * ?v + (?c - 48)) mod 10 = ?c - 48" by (rule low; use c in simp)+
  moreover have "10 * ?v + (?c - 48) < 10 ^ length (s @ [c])"
  proof -
    have "?v < 10 ^ length s" using snoc by simp
    moreover have "?c - 48 < 10" using c by simp
    ultimately show ?thesis by simp
  qed
  ultimately show ?case using snoc unfolding v by simp
qed

lemma fixed_digits_exact:
  assumes "0 < w" "w \<le> 4"
  shows "fixed_digits s w = Some i \<longleftrightarrow> 0 \<le> i \<and> i < 10 ^ w \<and> s = pad w (nat i)"
proof
  assume f: "fixed_digits s w = Some i"
  then have s: "length s = w" "list_all is_digit s" "i = int (digits_value (map of_char s))"
    by (auto simp: fixed_digits_def Let_def split: if_splits)
  with digits_value_limit [of s] show "0 \<le> i \<and> i < 10 ^ w \<and> s = pad w (nat i)"
    by simp
next
  assume i: "0 \<le> i \<and> i < 10 ^ w \<and> s = pad w (nat i)"
  then have n: "nat i < 10 ^ w" by (simp add: nat_less_iff)
  have "s \<noteq> []" using i assms(1) length_pad [of w "nat i"] by (metis length_greater_0_conv)
  moreover have "(10 :: int) ^ w \<le> 10 ^ 4" using assms by (intro power_increasing) auto
  ultimately show "fixed_digits s w = Some i"
    using i assms digits_value_pad [OF n] by (auto simp: fixed_digits_def Let_def list_all_iff pad_digits)
qed

lemma three_fields_exact:
  assumes "\<not> is_digit d" "0 < w" "w \<le> 4"
  shows "three_fields d w s = Some (a, b, c) \<longleftrightarrow> 0 \<le> a \<and> a < 10 ^ w \<and> 0 \<le> b \<and> b < 100 \<and> 0 \<le> c \<and> c < 100
    \<and> s = pad w (nat a) @ d # pad 2 (nat b) @ d # pad 2 (nat c)" (is "?l \<longleftrightarrow> ?r")
proof
  assume ?l
  then obtain x y z where s: "split_on d s = [x, y, z]"
    and f: "fixed_digits x w = Some a" "fixed_digits y 2 = Some b" "fixed_digits z 2 = Some c"
    by (auto simp: three_fields_def split: list.splits option.splits)
  from split_on_first [OF s] obtain r where r: "s = x @ d # r" "split_on d r = [y, z]" by blast
  from split_on_first [OF r(2)] obtain q where q: "r = y @ d # q" "split_on d q = [z]" by blast
  with split_on_join [OF q(2)] r f assms show ?r by (simp add: fixed_digits_exact)
next
  assume r: ?r
  have d: "d \<notin> set (pad k n)" for k n using assms(1) pad_digits by blast
  have "split_on d s = [pad w (nat a), pad 2 (nat b), pad 2 (nat c)]"
    using r split_on_append [OF d [of 2 "nat c"], of "pad w (nat a) @ d # pad 2 (nat b)"]
    by (simp add: split_on_append split_on_plain d)
  moreover have "fixed_digits (pad w (nat a)) w = Some a" "fixed_digits (pad 2 (nat b)) 2 = Some b"
    "fixed_digits (pad 2 (nat c)) 2 = Some c" using r assms by (simp_all add: fixed_digits_exact)
  ultimately show ?l by (simp add: three_fields_def)
qed

definition fraction :: "string \<Rightarrow> bool" where
  "fraction f \<longleftrightarrow> f = [] \<or> hd f = CHR ''.'' \<and> tl f \<noteq> [] \<and> list_all is_digit (tl f)"

definition valid_instant :: "int \<times> int \<times> int \<Rightarrow> int \<times> int \<times> int \<Rightarrow> bool" where
  "valid_instant date time \<longleftrightarrow> (case (date, time) of ((year, month, day), (hour, minute, second)) \<Rightarrow>
    0 \<le> year \<and> year < 10000 \<and> 1 \<le> month \<and> month \<le> 12 \<and> 1 \<le> day \<and> day \<le> days_in_month year month
    \<and> 0 \<le> hour \<and> hour \<le> 23 \<and> 0 \<le> minute \<and> minute \<le> 59 \<and> 0 \<le> second \<and> second \<le> 60)"

definition fields_text :: "char \<Rightarrow> nat \<Rightarrow> int \<times> int \<times> int \<Rightarrow> string" where
  "fields_text d w abc = (case abc of (a, b, c) \<Rightarrow> pad w (nat a) @ d # pad 2 (nat b) @ d # pad 2 (nat c))"

definition instant_text :: "int \<times> int \<times> int \<Rightarrow> int \<times> int \<times> int \<Rightarrow> string \<Rightarrow> char \<Rightarrow> char \<Rightarrow> string" where
  "instant_text date time f t z = fields_text (CHR ''-'') 4 date @ t # fields_text (CHR '':'') 2 time @ f @ [z]"

definition instant_seconds :: "int \<times> int \<times> int \<Rightarrow> int \<times> int \<times> int \<Rightarrow> int" where
  "instant_seconds date time = (case (date, time) of ((year, month, day), (hour, minute, second)) \<Rightarrow>
    calendar_days year month day * 86400 + (hour * 3600 + minute * 60 + second))"

lemma days_in_month_bound: "days_in_month year month \<le> 31"
  by (simp add: days_in_month_def)

lemma civil_range:
  assumes "0 \<le> year" "year < 10000" "1 \<le> month" "month \<le> 12" "1 \<le> day" "day \<le> 31"
  shows "- 800000 \<le> days_from_civil year month day \<and> days_from_civil year month day \<le> 5000000"
proof -
  define y where "y = (if month \<le> 2 then year - 1 else year)"
  define m where "m = (if month > 2 then month - 3 else month + 9)"
  have y: "- 1 \<le> y" "y < 10000" and m: "0 \<le> m" "m \<le> 11" using assms by (auto simp: y_def m_def)
  have "- 1 \<le> y div 4" "y div 4 \<le> 2500" "- 1 \<le> y div 100" "y div 100 \<le> 100" "- 1 \<le> y div 400" "y div 400 \<le> 25"
    using y by linarith+
  moreover have "0 \<le> (153 * m + 2) div 5" "(153 * m + 2) div 5 \<le> 337" using m by linarith+
  ultimately show ?thesis
    using y assms(5,6) m(1) unfolding civil_closed Let_def leap_days_def
    unfolding y_def [symmetric] m_def [symmetric] by (simp add: sdiv_pos)
qed

lemma fields_text_chars: "c \<in> set (fields_text d w abc) \<Longrightarrow> is_digit c \<or> c = d"
  using pad_digits by (auto simp: fields_text_def split: prod.splits)

lemma either_Some: "either a b = Some x \<longleftrightarrow> a = Some x \<or> a = None \<and> b = Some x"
  by (auto simp: either_def split: option.split)

lemma three_fields_text:
  "\<not> is_digit d \<Longrightarrow> 0 < w \<Longrightarrow> w \<le> 4 \<Longrightarrow> three_fields d w s = Some (a, b, c) \<longleftrightarrow>
    0 \<le> a \<and> a < 10 ^ w \<and> 0 \<le> b \<and> b < 100 \<and> 0 \<le> c \<and> c < 100 \<and> s = fields_text d w (a, b, c)"
  by (simp add: three_fields_exact fields_text_def)

lemma read_time_exact:
  "read_time s = Some (a, b, c) \<longleftrightarrow> (\<exists>f. fraction f \<and> s = fields_text (CHR '':'') 2 (a, b, c) @ f) \<and>
    0 \<le> a \<and> a < 100 \<and> 0 \<le> b \<and> b < 100 \<and> 0 \<le> c \<and> c < 100" (is "?l \<longleftrightarrow> ?r")
proof
  assume l: ?l
  show ?r
  proof (cases "text_split_once (CHR ''.'') s")
    case None
    with l have "three_fields (CHR '':'') 2 s = Some (a, b, c)" by (auto simp: read_time_def is_digit_def)
    then show ?thesis by (auto simp: three_fields_text is_digit_def fraction_def)
  next
    case (Some parts)
    then obtain time f where s: "s = time @ CHR ''.'' # f" "parts = (time, f)" by (cases parts) (auto simp: split_once_exact)
    with l Some have "f \<noteq> []" "list_all is_digit f" "three_fields (CHR '':'') 2 time = Some (a, b, c)"
      by (auto simp: read_time_def split: if_splits)
    with s show ?thesis by (auto simp: three_fields_text is_digit_def fraction_def intro!: exI [of _ "CHR ''.'' # f"])
  qed
next
  assume r: ?r
  then obtain f where f: "fraction f" "s = fields_text (CHR '':'') 2 (a, b, c) @ f" by blast
  have fields: "three_fields (CHR '':'') 2 (fields_text (CHR '':'') 2 (a, b, c)) = Some (a, b, c)"
    using r by (simp add: three_fields_text is_digit_def)
  have dot: "CHR ''.'' \<notin> set (fields_text (CHR '':'') 2 (a, b, c))"
    using fields_text_chars [of "CHR ''.''" "CHR '':''"] by (auto simp: is_digit_def)
  show ?l
  proof (cases f)
    case Nil
    with f dot have "text_split_once (CHR ''.'') s = None" by (simp add: split_once_None)
    with f Nil fields show ?thesis by (simp add: read_time_def is_digit_def)
  next
    case (Cons x ds)
    with f have "f = CHR ''.'' # ds" "ds \<noteq> []" "list_all is_digit ds" by (auto simp: fraction_def)
    moreover from this f dot have "text_split_once (CHR ''.'') s = Some (fields_text (CHR '':'') 2 (a, b, c), ds)"
      by (simp add: split_once_exact)
    ultimately show ?thesis using fields by (simp add: read_time_def)
  qed
qed

lemma strip_either: "z \<in> {CHR ''Z'', CHR ''z''} \<Longrightarrow>
    either (strip_suffix (CHR ''Z'') (b @ [z])) (strip_suffix (CHR ''z'') (b @ [z])) = Some b"
  by (auto simp: either_Some strip_suffix_def)

lemma instant_fields:
  assumes "valid_instant date time" "fraction f" "t \<in> {CHR ''T'', CHR ''t''}" "z \<in> {CHR ''Z'', CHR ''z''}"
  shows "parse_rfc3339_utc (instant_text date time f t z) = Some (instant_seconds date time)"
proof -
  obtain y mo d h mi se where fields: "date = (y, mo, d)" "time = (h, mi, se)" by (metis prod.exhaust)
  note v = assms(1) [unfolded fields valid_instant_def, simplified]
  let ?date = "fields_text (CHR ''-'') 4 (y, mo, d)" and ?time = "fields_text (CHR '':'') 2 (h, mi, se) @ f"
  have d31: "d \<le> 31" using v days_in_month_bound [of y mo] by linarith
  have date: "three_fields (CHR ''-'') 4 ?date = Some (y, mo, d)"
    using v d31 by (simp add: three_fields_text is_digit_def)
  have time: "read_time ?time = Some (h, mi, se)" using v assms(2) by (auto simp: read_time_exact)
  have whole: "instant_text date time f t z = (?date @ t # ?time) @ [z]" by (simp add: instant_text_def fields)
  note Z = strip_either [OF assms(4), of "?date @ t # ?time"]
  have fc: "c \<in> set f \<Longrightarrow> is_digit c \<or> c = CHR ''.''" for c
    using assms(2) by (cases f) (auto simp: fraction_def list_all_iff)
  have letter: "\<not> is_digit (CHR ''T'')" "\<not> is_digit (CHR ''t'')" by (simp_all add: is_digit_def)
  then have no: "CHR ''T'' \<notin> set ?date" "CHR ''t'' \<notin> set ?date"
    using fields_text_chars [of "CHR ''T''" "CHR ''-''" 4 "(y, mo, d)"] fields_text_chars [of "CHR ''t''" "CHR ''-''" 4 "(y, mo, d)"]
    by auto
  moreover have "CHR ''T'' \<notin> set ?time"
    using fields_text_chars [of "CHR ''T''" "CHR '':''" 2 "(h, mi, se)"] fc [of "CHR ''T''"] letter by auto
  ultimately have T: "either (text_split_once (CHR ''T'') (?date @ t # ?time)) (text_split_once (CHR ''t'') (?date @ t # ?time)) = Some (?date, ?time)"
    using assms(3) by (auto simp: either_Some split_once_exact split_once_None)
  have range: "- 800000 \<le> days_from_civil y mo d \<and> days_from_civil y mo d \<le> 5000000"
    using v d31 by (intro civil_range) auto
  then have day: "checked_i64 (days_from_civil y mo d * 86400) = Some (days_from_civil y mo d * 86400)"
    by (simp add: checked_i64_def)
  have all: "checked_i64 (days_from_civil y mo d * 86400 + (h * 3600 + mi * 60 + se))
      = Some (calendar_days y mo d * 86400 + (h * 3600 + mi * 60 + se))"
    using range v civil_calendar [of mo y d] by (simp add: checked_i64_def)
  show ?thesis
    unfolding whole parse_rfc3339_utc_def Z T option.case prod.case
    using v by (simp add: date time day all instant_seconds_def fields)
qed

lemma instant_shape:
  assumes "parse_rfc3339_utc s = Some n"
  shows "\<exists>date time f t z. valid_instant date time \<and> fraction f \<and> t \<in> {CHR ''T'', CHR ''t''} \<and> z \<in> {CHR ''Z'', CHR ''z''}
    \<and> s = instant_text date time f t z"
proof -
  obtain body date time where Z: "either (strip_suffix (CHR ''Z'') s) (strip_suffix (CHR ''z'') s) = Some body"
    and T: "either (text_split_once (CHR ''T'') body) (text_split_once (CHR ''t'') body) = Some (date, time)"
    using assms by (auto simp: parse_rfc3339_utc_def split: option.splits)
  note s = assms [unfolded parse_rfc3339_utc_def Z T option.case prod.case]
  then obtain y mo d h mi se where date: "three_fields (CHR ''-'') 4 date = Some (y, mo, d)"
    and time: "read_time time = Some (h, mi, se)"
    and ok: "1 \<le> mo" "mo \<le> 12" "1 \<le> d" "d \<le> days_in_month y mo" "h \<le> 23" "mi \<le> 59" "se \<le> 60"
    by (auto split: option.splits if_splits)
  have dt: "0 \<le> y" "y < 10000" "date = fields_text (CHR ''-'') 4 (y, mo, d)"
    using date by (simp_all add: three_fields_text is_digit_def)
  obtain f where f: "fraction f" "time = fields_text (CHR '':'') 2 (h, mi, se) @ f" "0 \<le> h" "0 \<le> mi" "0 \<le> se"
    using time by (auto simp: read_time_exact)
  have "valid_instant (y, mo, d) (h, mi, se)" using ok dt f by (simp add: valid_instant_def)
  moreover obtain z where "z \<in> {CHR ''Z'', CHR ''z''}" "s = body @ [z]" using Z by (auto simp: either_Some strip_suffix_exact)
  moreover obtain t where "t \<in> {CHR ''T'', CHR ''t''}" "body = date @ t # time" using T by (auto simp: either_Some split_once_exact)
  ultimately show ?thesis using f(1,2) dt(3)
    by (intro exI [of _ "(y, mo, d)"] exI [of _ "(h, mi, se)"] exI [of _ f]) (auto simp: instant_text_def)
qed

text \<open>The instants a document may name are exactly RFC 3339's in UTC: a text is read if and only if it
  is four-digit year, month, day, hour, minute and second in their ranges, with leap years and leap seconds, an
  optional fraction of at least one digit and the letter Z, and what is read is the calendar's count of seconds
  since 1970, without overflow.\<close>

theorem instants_exact:
  "parse_rfc3339_utc s = Some n \<longleftrightarrow> (\<exists>date time f t z. valid_instant date time \<and> fraction f
    \<and> t \<in> {CHR ''T'', CHR ''t''} \<and> z \<in> {CHR ''Z'', CHR ''z''} \<and> s = instant_text date time f t z
    \<and> n = instant_seconds date time)"
  using instant_shape [of s n] instant_fields by (metis option.inject)

end
