(* ===== verification/Shards.thy ===== *)
theory Shards imports Prelude Ascii Netaddr Errors Document Instant Config Cluster begin

text \<open>
  The readers of \<^verbatim>\<open>config/mod.rs\<close> for the key set and the shard map, with the checks that
  need the membership beside them.
\<close>

section \<open>Keys\<close>

definition sect :: string where
  "sect = [CHR 0xC2, CHR 0xA7]"

definition dash :: string where
  "dash = [CHR 0xE2, CHR 0x80, CHR 0x94]"

definition read_algorithm :: "('n, 'f) yaml_lib \<Rightarrow> 'n entries \<Rightarrow> path \<Rightarrow> key_algorithm reading" where
  "read_algorithm y m at =
    (let at = path_field at ''algorithm'' in
     case lookup m ''algorithm'' of
       None \<Rightarrow> ret ChaCha20Poly1305
     | Some v \<Rightarrow>
        (case Option.bind (as_str y v) algorithm_parse of
           Some algorithm \<Rightarrow> ret algorithm
         | None \<Rightarrow> do {
             refuse at ''CC-KY1'' (quoted y v)
               (''one of: '' @ algorithm_str ChaCha20Poly1305 @ '', '' @ algorithm_str HmacSha256_96);
             ret ChaCha20Poly1305 }))"

definition read_bool :: "('n, 'f) yaml_lib \<Rightarrow> 'n entries \<Rightarrow> string \<Rightarrow> path \<Rightarrow> bool option reading" where
  "read_bool y m key at =
    (case lookup m key of
       None \<Rightarrow> ret None
     | Some v \<Rightarrow>
        (case as_bool y v of
           Some flag \<Rightarrow> ret (Some flag)
         | None \<Rightarrow> do { refuse (path_field at key) ''CC-KY1'' (Some (type_of v)) ''a boolean''; ret None }))"

definition read_instant :: "('n, 'f) yaml_lib \<Rightarrow> 'n entries \<Rightarrow> string \<Rightarrow> path \<Rightarrow> int option reading" where
  "read_instant y m key at =
    (let at = path_field at key in
     case lookup m key of
       None \<Rightarrow> do {
         refuse at ''CC-KY4'' None
           (''an RFC 3339 UTC instant such as 2026-07-28T12:00:00Z; it is required, and a relative ''
            @ ''window is unrepresentable because the loader has no clock'');
         ret None }
     | Some v \<Rightarrow>
        (case as_str y v of
           None \<Rightarrow> do {
             refuse at ''CC-KY4'' (Some (type_of v)) ''an RFC 3339 UTC instant such as 2026-07-28T12:00:00Z'';
             ret None }
         | Some written \<Rightarrow>
            (case parse_rfc3339_utc written of
               None \<Rightarrow> do {
                 refuse at ''CC-KY4'' (Some written)
                   (''an RFC 3339 UTC instant such as 2026-07-28T12:00:00Z; UTC is spelled `Z`, because one ''
                    @ ''instant with two spellings is a window nobody can review in a diff'');
                 ret None }
             | Some seconds \<Rightarrow> ret (Some seconds))))"

definition KEY_KEYS :: "string list" where
  "KEY_KEYS = [''id'', ''algorithm'', ''secretRef'', ''verifyFrom'', ''verifyUntil'', ''mint'', ''secret'']"

definition read_key_entry :: "('n, 'f) yaml_lib \<Rightarrow> 'n yaml \<Rightarrow> path \<Rightarrow> key_spec option reading" where
  "read_key_entry y item at = do {
    m \<leftarrow> as_mapping y item at;
    case m of
      None \<Rightarrow> ret None
    | Some m \<Rightarrow> do {
        closed_world y m KEY_KEYS at;
        if contains_key m ''secret'' then do {
          refuse (path_field at ''secret'') ''CC-V9'' (Some ''an inline key secret'')
            ''secretRef naming a secret the driver resolves; no secret value appears in the document'';
          ret None }
        else do {
          key_id \<leftarrow> required_uint y m ''id'' at ''CC-KY1'' 0xFF;
          secret_ref \<leftarrow> required_str y m ''secretRef'' at ''CC-V9'';
          algorithm \<leftarrow> read_algorithm y m at;
          verify_from \<leftarrow> read_instant y m ''verifyFrom'' at;
          verify_until \<leftarrow> read_instant y m ''verifyUntil'' at;
          mint \<leftarrow> read_bool y m ''mint'' at;
          guarded (case (verify_from, verify_until) of (Some from_s, Some until_s) \<Rightarrow> from_s \<ge> until_s | _ \<Rightarrow> False)
            (refuse (path_field at ''verifyUntil'') ''CC-KY4'' (Some ''a window that never opens'')
              ''a verifyUntil strictly after verifyFrom'');
          ret (case (Option.bind key_id narrow, secret_ref, verify_from, verify_until) of
            (Some key_id, Some secret_ref, Some verify_from, Some verify_until) \<Rightarrow>
              Some \<lparr>ky_id = key_id, ky_algorithm = algorithm, ky_secret_ref = secret_ref, ky_verify_from = verify_from,
                ky_verify_until = verify_until, ky_mint = (mint = Some True)\<rparr>
          | _ \<Rightarrow> None) } } }"

definition key_windows_overlap :: "key_spec \<Rightarrow> key_spec \<Rightarrow> bool" where
  "key_windows_overlap key entry \<longleftrightarrow> ky_verify_from key \<le> ky_verify_until entry \<and> ky_verify_from entry \<le> ky_verify_until key"

text \<open>The body of the loop over \<^verbatim>\<open>keys[]\<close>.\<close>

definition read_key :: "('n, 'f) yaml_lib \<Rightarrow> 'n yaml \<Rightarrow> path \<Rightarrow> key_spec list \<Rightarrow> key_spec list reading" where
  "read_key y item at keys = do {
    entry \<leftarrow> read_key_entry y item at;
    case entry of
      None \<Rightarrow> ret keys
    | Some entry \<Rightarrow> do {
        (case List.find (\<lambda>key. ky_id key = ky_id entry \<and> key_windows_overlap key entry) keys of
           None \<Rightarrow> ret ()
         | Some existing \<Rightarrow>
             refuse (path_field at ''id'') ''CC-KY1'' (Some (decimal (unat (ky_id entry))))
               (''an id whose verify window does not overlap the one already declared for id ''
                @ decimal (unat (ky_id existing)) @ '' (affinity-token '' @ sect @ ''6)''));
        ret (keys @ [entry]) } }"

definition read_keys :: "('n, 'f) yaml_lib \<Rightarrow> 'n entries \<Rightarrow> path \<Rightarrow> key_spec list reading" where
  "read_keys y cluster at =
    (let at = path_field at ''keys'' in
     case lookup cluster ''keys'' of
       None \<Rightarrow> ret []
     | Some v \<Rightarrow> do {
         unapplied_at at;
         case as_sequence y v of
           None \<Rightarrow> do { refuse at ''CC-7'' (Some (type_of v)) ''a sequence of key entries''; ret [] }
         | Some items \<Rightarrow> do {
             guarded (length items > MAX_KEYS) (refuse at ''CC-V8'' (Some (decimal (length items)))
               (''at most '' @ decimal MAX_KEYS @ '' key entries; a document approaching the ceiling is a document ''
                @ ''whose rotations are not being retired''));
             keys \<leftarrow> for_each 0 items [] (\<lambda>i item keys. read_key y item (path_index at i) keys);
             let minting = filter ky_mint keys;
             guarded (length minting \<noteq> 1 \<and> keys \<noteq> []) (refuse at ''CC-KY5''
               (Some (if minting = [] then ''no key marked mint: true''
                  else decimal (length minting) @ '' keys marked mint: true''))
               (''exactly one minting key at any configuration version (affinity-token '' @ sect @ ''6)''));
             ret keys } })"

section \<open>The shard map\<close>

text \<open>The whole seconds of a duration, \<^verbatim>\<open>30s\<close>, as milliseconds.\<close>

definition parse_seconds :: "string \<Rightarrow> u64 option" where
  "parse_seconds written =
    (case strip_suffix (CHR ''s'') written of
       None \<Rightarrow> None
     | Some digits \<Rightarrow>
        (case str_parse 64 digits of
           None \<Rightarrow> None
         | Some seconds \<Rightarrow> if seconds * 1000 < 2 ^ 64 then Some (of_nat (seconds * 1000)) else None))"

definition read_drain_timeout :: "('n, 'f) yaml_lib \<Rightarrow> 'n entries \<Rightarrow> path \<Rightarrow> u64 reading" where
  "read_drain_timeout y m at =
    (let at = path_field at ''drainTimeout'' in
     case lookup m ''drainTimeout'' of
       None \<Rightarrow> ret DEFAULT_DRAIN_TIMEOUT_MS
     | Some v \<Rightarrow>
        (case Option.bind (as_str y v) parse_seconds of
           None \<Rightarrow> do {
             refuse at ''CC-DS4'' (quoted y v)
               (''a duration in whole seconds, spelled with its unit '' @ dash @ '' `30s`'');
             ret DEFAULT_DRAIN_TIMEOUT_MS }
         | Some declared \<Rightarrow>
             if \<not> (MIN_DRAIN_TIMEOUT_MS \<le> declared \<and> declared \<le> MAX_DRAIN_TIMEOUT_MS) then do {
               refuse at ''CC-DS4'' (Some (decimal (unat declared div 1000) @ ''s''))
                 (''a drain timeout between '' @ decimal (unat MIN_DRAIN_TIMEOUT_MS div 1000) @ ''s and ''
                  @ decimal (unat MAX_DRAIN_TIMEOUT_MS div 1000)
                  @ ''s; below the floor a drain would expire while an ''
                  @ ''ordinary contended write was still legitimately retrying (location-service '' @ sect @ ''5.1 S10)'');
               ret DEFAULT_DRAIN_TIMEOUT_MS }
             else ret declared))"

definition read_shard :: "('n, 'f) yaml_lib \<Rightarrow> 'n yaml \<Rightarrow> path \<Rightarrow> shard_spec option reading" where
  "read_shard y item at = do {
    entry \<leftarrow> as_mapping y item at;
    case entry of
      None \<Rightarrow> ret None
    | Some entry \<Rightarrow> do {
        closed_world y entry [''id'', ''owner''] at;
        shard_id \<leftarrow> required_uint y entry ''id'' at ''CC-I1'' 0xFFFF;
        owner \<leftarrow> required_str y entry ''owner'' at ''CC-SM2'';
        case (shard_id, owner) of
          (Some shard_id, Some owner) \<Rightarrow>
            if shard_id = 0 then do {
              refuse (path_field at ''id'') ''CC-I2'' (Some ''0'')
                (''a shard id of 1 or greater; 0 is reserved for '' @ quote ''none'');
              ret None }
            else ret (map_option (\<lambda>i. \<lparr>sh_id = i, sh_owner = owner\<rparr>) (narrow shard_id))
        | _ \<Rightarrow> ret None } }"

text \<open>The ids of \<^verbatim>\<open>1..=total\<close> no shard declares; the total is clamped to what a
  \<^verbatim>\<open>u16\<close> holds.\<close>

definition missing_shards :: "shard_spec list \<Rightarrow> nat list" where
  "missing_shards shards =
    (let total = (if length shards < 2 ^ 16 then length shards else 2 ^ 16 - 1)
     in filter (\<lambda>i. i \<notin> set (map (\<lambda>s. unat (sh_id s)) shards)) [1..<Suc total])"

definition read_shards :: "('n, 'f) yaml_lib \<Rightarrow> 'n entries \<Rightarrow> path \<Rightarrow> shard_spec list reading" where
  "read_shards y m at =
    (let at = path_field at ''shards'' in
     case lookup m ''shards'' of
       None \<Rightarrow> do {
         refuse at ''CC-SM1'' None
           ''a shard list; the list is the shard space, and a shardMap without one assigns nothing'';
         ret [] }
     | Some v \<Rightarrow>
        (case as_sequence y v of
           None \<Rightarrow> do { refuse at ''CC-SM1'' (Some (type_of v)) ''a sequence of shards''; ret [] }
         | Some items \<Rightarrow> do {
             shards \<leftarrow> for_each 0 items [] (\<lambda>i item shards. do {
               shard \<leftarrow> read_shard y item (path_index at i);
               ret (push_option shard shards) });
             guarded (shards \<noteq> [] \<and> missing_shards shards \<noteq> [])
               (refuse at ''CC-SM1'' (Some (''no owner for shard '' @ join '', '' (map decimal (missing_shards shards))))
                 ''a total map: ids 1..=N with no gap and no repeat, where N is the length of the list'');
             ret shards }))"

definition read_shard_map :: "('n, 'f) yaml_lib \<Rightarrow> 'n entries \<Rightarrow> path \<Rightarrow> shard_map_spec option reading" where
  "read_shard_map y cluster at =
    (let at = path_field at ''shardMap'' in
     case lookup cluster ''shardMap'' of
       None \<Rightarrow> ret None
     | Some v \<Rightarrow> do {
         unapplied_at at;
         m \<leftarrow> as_mapping y v at;
         case m of
           None \<Rightarrow> ret None
         | Some m \<Rightarrow> do {
             closed_world y m [''drainTimeout'', ''shards''] at;
             drain_timeout \<leftarrow> read_drain_timeout y m at;
             shards \<leftarrow> read_shards y m at;
             ret (Some \<lparr>sm_drain_timeout_ms = drain_timeout, sm_shards = shards\<rparr>) } })"

definition check_shard_owners :: "shard_map_spec option \<Rightarrow> member_spec list \<Rightarrow> path \<Rightarrow> unit reading" where
  "check_shard_owners shard_map membership at =
    (case shard_map of
       None \<Rightarrow> ret ()
     | Some shard_map \<Rightarrow>
        (let at = path_field (path_field at ''shardMap'') ''shards'' in
         for_each 0 (sm_shards shard_map) () (\<lambda>i shard _.
           let at = path_field (path_index at i) ''owner'' in
           case List.find (\<lambda>m. mb_name m = sh_owner shard) membership of
             None \<Rightarrow> refuse at ''CC-V5'' (Some (sh_owner shard))
               (''a name declared in cluster.membership; a shard owned by nobody is a slice of the ''
                @ ''registration key space with nowhere to write'')
           | Some owner \<Rightarrow>
               guarded (Registrar \<notin> mb_roles owner)
                 (refuse at ''CC-SM3'' (Some (sh_owner shard)) ''a member whose roles include registrar''))))"

section \<open>The readers are uniform\<close>

lemma uniform_read_algorithm [reader]: "uniform (read_algorithm y m at)"
  by (auto simp: read_algorithm_def Let_def intro!: reader)

lemma uniform_read_bool [reader]: "uniform (read_bool y m key at)"
  by (auto simp: read_bool_def intro!: reader)

lemma uniform_read_instant [reader]: "uniform (read_instant y m key at)"
  by (auto simp: read_instant_def Let_def intro!: reader)

lemma uniform_read_key_entry [reader]: "uniform (read_key_entry y item at)"
  unfolding read_key_entry_def by (intro reader)

lemma uniform_read_key [reader]: "uniform (read_key y item at keys)"
  unfolding read_key_def by (intro reader)

lemma uniform_read_keys [reader]: "uniform (read_keys y cluster at)"
  unfolding read_keys_def by (intro reader)

lemma uniform_read_drain_timeout [reader]: "uniform (read_drain_timeout y m at)"
  unfolding read_drain_timeout_def by (intro reader)

lemma uniform_read_shard [reader]: "uniform (read_shard y item at)"
  unfolding read_shard_def by (intro reader)

lemma uniform_read_shards [reader]: "uniform (read_shards y m at)"
  unfolding read_shards_def by (intro reader)

lemma uniform_read_shard_map [reader]: "uniform (read_shard_map y cluster at)"
  unfolding read_shard_map_def by (intro reader)

lemma uniform_check_shard_owners [reader]: "uniform (check_shard_owners shard_map membership at)"
  unfolding check_shard_owners_def by (intro reader)

section \<open>What the readers accept\<close>

definition key_ok :: "key_spec \<Rightarrow> bool" where
  "key_ok k \<longleftrightarrow> ky_secret_ref k \<noteq> [] \<and> ky_verify_from k < ky_verify_until k"

definition keys_ok :: "key_spec list \<Rightarrow> bool" where
  "keys_ok keys \<longleftrightarrow> length keys \<le> MAX_KEYS \<and> (\<forall>k \<in> set keys. key_ok k)
    \<and> sorted_wrt (\<lambda>k e. ky_id k = ky_id e \<longrightarrow> \<not> key_windows_overlap k e) keys
    \<and> (keys \<noteq> [] \<longrightarrow> length (filter ky_mint keys) = 1)"

definition shards_ok :: "shard_spec list \<Rightarrow> bool" where
  "shards_ok shards \<longleftrightarrow> (\<forall>s \<in> set shards. sh_id s \<noteq> 0 \<and> sh_owner s \<noteq> []) \<and> missing_shards shards = []"

definition shard_map_ok :: "shard_map_spec \<Rightarrow> bool" where
  "shard_map_ok m \<longleftrightarrow> MIN_DRAIN_TIMEOUT_MS \<le> sm_drain_timeout_ms m \<and> sm_drain_timeout_ms m \<le> MAX_DRAIN_TIMEOUT_MS
    \<and> shards_ok (sm_shards m)"

definition owners_ok :: "shard_map_spec option \<Rightarrow> member_spec list \<Rightarrow> bool" where
  "owners_ok shard_map ms \<longleftrightarrow>
    (case shard_map of None \<Rightarrow> True
     | Some m \<Rightarrow> \<forall>s \<in> set (sm_shards m). \<exists>owner \<in> set ms. mb_name owner = sh_owner s \<and> Registrar \<in> mb_roles owner)"

text \<open>A total map of at most 65535 shards assigns each id of its space exactly once.\<close>

lemma total_shards:
  assumes "missing_shards shards = []" "length shards < 2 ^ 16"
  shows "distinct (map sh_id shards)" "(unat \<circ> sh_id) ` set shards = {1..length shards}"
proof -
  let ?ids = "map (\<lambda>s. unat (sh_id s)) shards"
  have sub: "{1..length shards} \<subseteq> set ?ids"
    using assms by (auto simp: missing_shards_def Let_def filter_empty_conv image_iff subset_eq less_Suc_eq_le simp del: upt_Suc)
  have "card {1..length shards} = length shards" by simp
  moreover have "card (set ?ids) \<le> length shards" using card_length [of ?ids] by simp
  ultimately have eq: "set ?ids = {1..length shards}" using sub
    by (metis card_subset_eq card_mono List.finite_set le_antisym)
  then have "distinct ?ids" by (intro card_distinct) simp
  then show "distinct (map sh_id shards)" by (auto simp: distinct_map inj_on_def)
  show "(unat \<circ> sh_id) ` set shards = {1..length shards}" using eq by (simp add: image_image o_def)
qed

definition instant_field :: "('n, 'f) yaml_lib \<Rightarrow> 'n entries \<Rightarrow> string \<Rightarrow> int \<Rightarrow> bool" where
  "instant_field y m key i \<longleftrightarrow> (\<exists>v s. lookup m key = Some v \<and> as_str y v = Some s \<and> parse_rfc3339_utc s = Some i)"

lemma clean_read_instant [clean_simps]: "clean (read_instant y m key at) r \<longleftrightarrow> (\<exists>i. r = Some i \<and> instant_field y m key i)"
  by (auto simp: read_instant_def instant_field_def clean_simps reader Let_def split: option.split)

lemma read_key_entry_ok:
  assumes "clean (read_key_entry y item at) r"
  shows "r \<noteq> None \<longrightarrow> key_ok (the r)"
  using assms by (auto simp: read_key_entry_def clean_simps reader ex_unit key_ok_def str_field_def split: option.splits)

lemma read_key_ok:
  assumes "clean (read_key y item at keys) keys'"
  shows "keys' = keys \<or> (\<exists>k. keys' = keys @ [k] \<and> key_ok k \<and> (\<forall>e \<in> set keys. ky_id e = ky_id k \<longrightarrow> \<not> key_windows_overlap e k))"
  using assms by (auto simp: read_key_def clean_simps reader ex_unit find_None_iff split: option.splits dest!: read_key_entry_ok)

lemma read_keys_ok:
  assumes "clean (read_keys y cluster at) keys"
  shows "keys_ok keys"
proof (cases "lookup cluster ''keys''")
  case None
  with assms show ?thesis by (auto simp: read_keys_def clean_simps keys_ok_def)
next
  case (Some v)
  with assms obtain items where len: "length items \<le> MAX_KEYS"
    and loop: "clean (for_each 0 items [] (\<lambda>i item keys. read_key y item (path_index (path_field at ''keys'') i) keys)) keys"
    and mint: "keys \<noteq> [] \<longrightarrow> length (filter ky_mint keys) = 1"
    by (auto simp: read_keys_def clean_simps reader ex_unit not_less split: option.splits)
  let ?I = "\<lambda>keys. (\<forall>k \<in> set keys. key_ok k) \<and> sorted_wrt (\<lambda>k e. ky_id k = ky_id e \<longrightarrow> \<not> key_windows_overlap k e) keys"
  have "?I keys"
    by (rule clean_for_each_inv [where I = ?I, OF loop]) (auto simp: reader sorted_wrt_append dest!: read_key_ok)
  moreover have "length keys \<le> length ([] :: key_spec list) + length items"
    by (rule clean_for_each_count [OF loop]) (auto simp: reader dest!: read_key_ok)
  ultimately show ?thesis using len mint by (simp add: keys_ok_def)
qed

lemma read_drain_timeout_ok:
  assumes "clean (read_drain_timeout y m at) ms"
  shows "MIN_DRAIN_TIMEOUT_MS \<le> ms \<and> ms \<le> MAX_DRAIN_TIMEOUT_MS"
  using assms by (auto simp: read_drain_timeout_def clean_simps reader ex_unit MIN_DRAIN_TIMEOUT_MS_def
      MAX_DRAIN_TIMEOUT_MS_def DEFAULT_DRAIN_TIMEOUT_MS_def split: option.splits if_splits)

lemma read_shard_ok:
  assumes "clean (read_shard y item at) r"
  shows "\<exists>s. r = Some s \<and> sh_id s \<noteq> 0 \<and> sh_owner s \<noteq> []"
proof -
  obtain m n owner where n: "uint_field y m ''id'' 0xFFFF n" "n \<noteq> 0" "str_field y m ''owner'' owner"
    and r: "r = map_option (\<lambda>i. \<lparr>sh_id = i, sh_owner = owner\<rparr>) (narrow n)"
    using assms by (auto simp: read_shard_def clean_simps reader ex_unit split: if_splits)
  obtain i :: u16 where i: "narrow n = Some i"
    using narrow_bounded [OF uint_field_bound [OF n(1)], where ?'a = 16] by auto
  moreover have "i \<noteq> 0" using narrow_Some [OF i] n(2) by (metis unat_eq_zero)
  ultimately show ?thesis using r str_field_nonempty [OF n(3)] by simp
qed

lemma read_shards_ok:
  assumes "clean (read_shards y m at) shards"
  shows "shards_ok shards"
proof -
  obtain items where loop: "clean (for_each 0 items [] (\<lambda>i item shards. do {
      shard \<leftarrow> read_shard y item (path_index (path_field at ''shards'') i);
      ret (push_option shard shards) })) shards" and total: "shards = [] \<or> missing_shards shards = []"
    using assms by (auto simp: read_shards_def clean_simps reader ex_unit split: option.splits)
  have "\<forall>s \<in> set shards. sh_id s \<noteq> 0 \<and> sh_owner s \<noteq> []"
    by (rule clean_for_each_inv [OF loop]) (auto simp: reader clean_simps push_option_def dest!: read_shard_ok)
  moreover have "missing_shards [] = []" by (simp add: missing_shards_def)
  ultimately show ?thesis using total by (auto simp: shards_ok_def)
qed

lemma read_shard_map_ok:
  assumes "clean (read_shard_map y cluster at) r"
  shows "pred_option shard_map_ok r"
  using assms by (auto simp: read_shard_map_def clean_simps reader ex_unit shard_map_ok_def
      split: option.splits dest: read_drain_timeout_ok read_shards_ok)

lemma find_Some_mem: "List.find p xs = Some x \<Longrightarrow> x \<in> set xs \<and> p x"
  by (auto simp: find_Some_iff)

lemma check_shard_owners_ok:
  assumes "clean (check_shard_owners shard_map ms at) ()"
  shows "owners_ok shard_map ms"
proof (cases shard_map)
  case None
  then show ?thesis by (simp add: owners_ok_def)
next
  case (Some m)
  have "\<exists>owner \<in> set ms. mb_name owner = sh_owner s \<and> Registrar \<in> mb_roles owner" if "s \<in> set (sm_shards m)" for s
  proof -
    from that obtain k where "k < length (sm_shards m)" "s = sm_shards m ! k" by (auto simp: in_set_conv_nth)
    moreover have "\<forall>k < length (sm_shards m). \<exists>owner. List.find (\<lambda>x. mb_name x = sh_owner (sm_shards m ! k)) ms = Some owner
        \<and> Registrar \<in> mb_roles owner"
      using assms unfolding check_shard_owners_def Some
      by (auto simp: Let_def clean_for_each_unit reader clean_simps split: option.splits)
    ultimately show ?thesis using find_Some_mem by fast
  qed
  with Some show ?thesis by (simp add: owners_ok_def)
qed

end
