(* ===== verification/Tenants.thy ===== *)
theory Tenants imports Prelude Ascii Errors Document Config Cluster Shards begin

text \<open>
  The readers of \<^verbatim>\<open>config/mod.rs\<close> for the location store, the tenants, and the security,
  admission and timer sections.
\<close>

section \<open>Location store\<close>

definition read_location_store :: "('n, 'f) yaml_lib \<Rightarrow> 'n entries \<Rightarrow> path \<Rightarrow> location_store_spec option reading" where
  "read_location_store y cluster at =
    (let at = path_field at ''locationStore'' in
     case lookup cluster ''locationStore'' of
       None \<Rightarrow> ret None
     | Some v \<Rightarrow> do {
         m \<leftarrow> as_mapping y v at;
         case m of
           None \<Rightarrow> ret None
         | Some m \<Rightarrow> do {
             closed_world y m [''backend'', ''dsnRef'', ''ha''] at;
             record_unapplied m [''ha''] at;
             guarded (contains_key m ''dsn'') (refuse (path_field at ''dsn'') ''CC-V9'' (Some ''an inline DSN'')
               ''dsnRef naming a secret the driver resolves; no secret value appears in the document'');
             backend \<leftarrow> required_str y m ''backend'' at ''CC-7'';
             case backend of
               None \<Rightarrow> ret None
             | Some backend \<Rightarrow>
                (let dsn_ref = Option.bind (lookup m ''dsnRef'') (as_str y) in do {
                  guarded (backend \<noteq> ''memory'' \<and> dsn_ref = None) (refuse (path_field at ''dsnRef'') ''CC-V9'' None
                    ''a dsnRef; a store that is not in-process needs one'');
                  ret (Some \<lparr>st_backend = backend, st_dsn_ref = dsn_ref\<rparr>) }) } })"

section \<open>Tenants\<close>

definition read_auth :: "('n, 'f) yaml_lib \<Rightarrow> 'n entries \<Rightarrow> path \<Rightarrow> auth_spec option reading" where
  "read_auth y m at =
    (let at = path_field at ''auth'' in
     case lookup m ''auth'' of
       None \<Rightarrow> ret None
     | Some v \<Rightarrow> do {
         block \<leftarrow> as_mapping y v at;
         case block of
           None \<Rightarrow> ret None
         | Some block \<Rightarrow> do {
             closed_world y block [''realm'', ''secretRef'', ''algorithm''] at;
             if contains_key block ''credentials'' \<or> contains_key block ''users'' then do {
               refuse (path_field at ''credentials'') ''CC-V9'' (Some ''credentials declared in the document'')
                 (''no credentials here '' @ dash @ '' where they come from is RG-7's, and a document that tries to ''
                  @ ''supply them cannot be honoured yet'');
               ret None }
             else do {
               realm \<leftarrow> required_str y block ''realm'' at ''CC-RA-A3'';
               secret_ref \<leftarrow> required_str y block ''secretRef'' at ''CC-V9'';
               if contains_key block ''secret'' then do {
                 refuse (path_field at ''secret'') ''CC-V9'' (Some ''an inline nonce secret'')
                   ''secretRef naming a secret the driver resolves; no secret value appears in the document'';
                 ret None }
               else ret (case (realm, secret_ref) of
                   (Some realm, Some secret_ref) \<Rightarrow> Some \<lparr>au_realm = realm, au_secret_ref = secret_ref\<rparr>
                 | _ \<Rightarrow> None) } } })"

text \<open>One duration of \<^verbatim>\<open>expiry\<close>: what is written, or the value that stands.\<close>

definition read_seconds :: "('n, 'f) yaml_lib \<Rightarrow> 'n entries \<Rightarrow> string \<Rightarrow> path \<Rightarrow> u32 \<Rightarrow> u32 reading" where
  "read_seconds y block key at slot =
    (case lookup block key of
       None \<Rightarrow> ret slot
     | Some found \<Rightarrow>
        (case Option.bind (as_u64 y found) narrow of
           Some seconds \<Rightarrow> ret seconds
         | None \<Rightarrow> do {
             refuse (path_field at key) ''CC-S2'' (Some (type_of found)) ''a duration in seconds'';
             ret slot }))"

definition read_quota :: "('n, 'f) yaml_lib \<Rightarrow> 'n entries \<Rightarrow> path \<Rightarrow> u64 \<Rightarrow> u64 reading" where
  "read_quota y m at slot =
    (case lookup m ''maxBindingsPerAor'' of
       None \<Rightarrow> ret slot
     | Some quota \<Rightarrow>
        (case as_u64 y quota of
           Some n \<Rightarrow>
             if n = 0 then do {
               refuse (path_field at ''maxBindingsPerAor'') ''CC-S2'' (Some ''0'')
                 (''at least 1; a quota of zero is a tenant that can register nothing, which is a ''
                  @ ''disabled tenant spelled as a limit'');
               ret slot }
             else ret n
         | None \<Rightarrow> do {
             refuse (path_field at ''maxBindingsPerAor'') ''CC-S2'' (Some (type_of quota)) ''a positive integer'';
             ret slot }))"

definition read_tenant_policy :: "('n, 'f) yaml_lib \<Rightarrow> 'n entries \<Rightarrow> path \<Rightarrow> tenant_policy_spec reading" where
  "read_tenant_policy y m at = do {
    quota \<leftarrow> read_quota y m at (tp_max_bindings_per_aor default_tenant_policy);
    let policy = default_tenant_policy\<lparr>tp_max_bindings_per_aor := quota\<rparr>;
    let at = path_field at ''expiry'';
    case lookup m ''expiry'' of
      None \<Rightarrow> ret policy
    | Some v \<Rightarrow> do {
        block \<leftarrow> as_mapping y v at;
        case block of
          None \<Rightarrow> ret policy
        | Some block \<Rightarrow> do {
            closed_world y block [''default'', ''min'', ''max''] at;
            default_s \<leftarrow> read_seconds y block ''default'' at (tp_default_expires policy);
            min_s \<leftarrow> read_seconds y block ''min'' at (tp_min_expires policy);
            max_s \<leftarrow> read_seconds y block ''max'' at (tp_max_expires policy);
            guarded (min_s > max_s) (refuse at ''CC-S2''
              (Some (''min '' @ decimal (unat min_s) @ '' above max '' @ decimal (unat max_s)))
              (''a minimum at or below the maximum; which of the two was meant is not this ''
               @ ''schema's to guess''));
            ret (policy\<lparr>tp_default_expires := default_s, tp_min_expires := min_s, tp_max_expires := max_s\<rparr>) } } }"

definition TENANT_KEYS :: "string list" where
  "TENANT_KEYS = [''name'', ''id'', ''domains'', ''auth'', ''expiry'', ''maxBindingsPerAor'']"

definition read_domains :: "('n, 'f) yaml_lib \<Rightarrow> 'n entries \<Rightarrow> string list" where
  "read_domains y m =
    (case Option.bind (lookup m ''domains'') (as_sequence y) of
       None \<Rightarrow> [] | Some items \<Rightarrow> List.map_filter (as_str y) items)"

definition read_tenant :: "('n, 'f) yaml_lib \<Rightarrow> 'n yaml \<Rightarrow> path \<Rightarrow> tenant_spec list \<Rightarrow> tenant_spec list reading" where
  "read_tenant y item at tenants = do {
    m \<leftarrow> as_mapping y item at;
    case m of
      None \<Rightarrow> ret tenants
    | Some m \<Rightarrow> do {
        closed_world y m TENANT_KEYS at;
        name_opt \<leftarrow> required_str y m ''name'' at ''CC-I1'';
        tenant_id \<leftarrow> required_uint y m ''id'' at ''CC-I1'' 0xFFFFFFFF;
        auth \<leftarrow> read_auth y m at;
        policy \<leftarrow> read_tenant_policy y m at;
        case tenant_id of
          None \<Rightarrow> ret tenants
        | Some tenant_id \<Rightarrow> do {
            guarded (tenant_id = 0) (refuse (path_field at ''id'') ''CC-I2'' (Some ''0'')
              (''a tenant id of 1 or greater; 0 is reserved for '' @ quote ''none/system''));
            case narrow tenant_id of
              None \<Rightarrow> ret tenants
            | Some tenant_id \<Rightarrow> do {
                (case List.find (\<lambda>t. tn_id t = tenant_id) tenants of
                   None \<Rightarrow> ret ()
                 | Some existing \<Rightarrow>
                     refuse (path_field at ''id'') ''CC-I2'' (Some (decimal (unat tenant_id)))
                       (''an id not already held by '' @ quote (tn_name existing)));
                case name_opt of
                  None \<Rightarrow> ret tenants
                | Some tenant_name \<Rightarrow> do {
                    (case List.find (\<lambda>t. tn_name t = tenant_name) tenants of
                       None \<Rightarrow> ret ()
                     | Some existing \<Rightarrow>
                         refuse (path_field at ''name'') ''CC-I2'' (Some tenant_name)
                           (''a name not already held by id '' @ decimal (unat (tn_id existing))));
                    ret (tenants @ [\<lparr>tn_name = tenant_name, tn_id = tenant_id, tn_domains = read_domains y m,
                      tn_policy = policy, tn_auth = auth\<rparr>]) } } } } }"

definition read_tenants :: "('n, 'f) yaml_lib \<Rightarrow> 'n entries \<Rightarrow> path \<Rightarrow> tenant_spec list reading" where
  "read_tenants y cluster at =
    (let at = path_field at ''tenant'' in
     case lookup cluster ''tenant'' of
       None \<Rightarrow> ret []
     | Some v \<Rightarrow>
        (case as_sequence y v of
           None \<Rightarrow> do { refuse at ''CC-7'' (Some (type_of v)) ''a sequence of tenants''; ret [] }
         | Some items \<Rightarrow> for_each 0 items [] (\<lambda>i item tenants. read_tenant y item (path_index at i) tenants)))"

section \<open>Security, admission and timers\<close>

definition read_security :: "('n, 'f) yaml_lib \<Rightarrow> 'n entries \<Rightarrow> path \<Rightarrow> security_spec reading" where
  "read_security y cluster at =
    (let at = path_field at ''security'' in
     case lookup cluster ''security'' of
       None \<Rightarrow> ret default_security
     | Some v \<Rightarrow> do {
         m \<leftarrow> as_mapping y v at;
         case m of
           None \<Rightarrow> ret default_security
         | Some m \<Rightarrow> do {
             closed_world y m [''unknownSource'', ''sanityCheck'', ''userAgentDenyList'', ''internalZone''] at;
             guarded (contains_key m ''maxForwards'')
               (refuse (path_field at ''maxForwards'') ''CC-V6'' (Some ''a maxForwards setting'')
                 (''no maxForwards key; RFC 3261 '' @ sect @ ''16.6 step 3 fixes it at '' @ decimal (unat MAX_FORWARDS)
                  @ '' and it is not a hop budget to be tuned downward''));
             for_each 0 UNAPPLIED_SECURITY_CONTROLS () (\<lambda>_ (key, decides) _.
               guarded (contains_key m key)
                 (refuse (path_field at key) ''CC-V10'' (Some (''a declared '' @ key @ '' policy''))
                   (''no '' @ key @ '' key until a consumer applies it: nothing in this build decides '' @ decides
                    @ '', so a node started with this declared would serve the posture the key was written ''
                    @ ''to narrow. Remove it, or wait for the story that specifies the control'')));
             ret default_security } })"

definition read_max_in_flight :: "('n, 'f) yaml_lib \<Rightarrow> 'n entries \<Rightarrow> path \<Rightarrow> admission_spec \<Rightarrow> admission_spec reading" where
  "read_max_in_flight y m at admission =
    (case lookup m ''maxInFlightTransactions'' of
       None \<Rightarrow> ret admission
     | Some v \<Rightarrow>
        (let at = path_field at ''maxInFlightTransactions'' in
         case as_u64 y v of
           Some declared \<Rightarrow>
             if declared \<ge> 1 \<and> declared \<le> MAX_IN_FLIGHT_CEILING
             then ret (admission\<lparr>ad_max_in_flight_transactions := declared\<rparr>)
             else do {
               refuse at ''CC-V8'' (Some (decimal (unat declared)))
                 (''an integer in 1..='' @ decimal (unat MAX_IN_FLIGHT_CEILING)
                  @ ''; 0 is a node that answers 503 to every call, and there is no way to spell '' @ quote ''no bound'');
               ret admission }
         | None \<Rightarrow> do {
             refuse at ''CC-V8'' (Some (type_of v)) ''a count of concurrent transactions'';
             ret admission }))"

definition read_admission :: "('n, 'f) yaml_lib \<Rightarrow> 'n entries \<Rightarrow> path \<Rightarrow> admission_spec reading" where
  "read_admission y cluster at =
    (let at = path_field at ''admission'' in
     case lookup cluster ''admission'' of
       None \<Rightarrow> ret default_admission
     | Some v \<Rightarrow> do {
         m \<leftarrow> as_mapping y v at;
         case m of
           None \<Rightarrow> ret default_admission
         | Some m \<Rightarrow> do {
             closed_world y m [''maxInFlightTransactions''] at;
             read_max_in_flight y m at default_admission } })"

definition read_ms :: "('n, 'f) yaml_lib \<Rightarrow> 'n entries \<Rightarrow> string \<Rightarrow> path \<Rightarrow> u64 \<Rightarrow> u64 reading" where
  "read_ms y m key at slot =
    (case lookup m key of
       None \<Rightarrow> ret slot
     | Some v \<Rightarrow>
        (case as_u64 y v of
           Some ms \<Rightarrow> ret ms
         | None \<Rightarrow> do {
             refuse (path_field at key) ''CC-V7'' (Some (type_of v)) ''a duration in milliseconds'';
             ret slot }))"

definition read_timers :: "('n, 'f) yaml_lib \<Rightarrow> 'n entries \<Rightarrow> path \<Rightarrow> timers_spec reading" where
  "read_timers y cluster at = do {
    let at = path_field at ''timers'';
    m \<leftarrow> (case lookup cluster ''timers'' of None \<Rightarrow> ret None | Some v \<Rightarrow> as_mapping y v at);
    timers \<leftarrow> (case m of
      None \<Rightarrow> ret default_timers
    | Some m \<Rightarrow> do {
        closed_world y m [''t1'', ''timerB'', ''timerC'', ''timerF'', ''maxCallDuration''] at;
        record_unapplied m [''t1'', ''timerB'', ''timerF'', ''maxCallDuration''] at;
        t1 \<leftarrow> read_ms y m ''t1'' at (ti_t1_ms default_timers);
        timer_b \<leftarrow> read_ms y m ''timerB'' at (ti_timer_b_ms default_timers);
        timer_f \<leftarrow> read_ms y m ''timerF'' at (ti_timer_f_ms default_timers);
        timer_c \<leftarrow> read_ms y m ''timerC'' at (ti_timer_c_ms default_timers);
        ret \<lparr>ti_t1_ms = t1, ti_timer_b_ms = timer_b, ti_timer_f_ms = timer_f, ti_timer_c_ms = timer_c\<rparr> });
    guarded (ti_timer_c_ms timers \<le> TIMER_C_FLOOR_MS)
      (refuse (path_field at ''timerC'') ''CC-V7'' (Some (decimal (unat (ti_timer_c_ms timers)) @ '' ms''))
        (''greater than '' @ decimal (unat TIMER_C_FLOOR_MS) @ '' ms (3 minutes), per RFC 3261 '' @ sect
         @ ''16.6 step 11''));
    ret timers }"

section \<open>The readers are uniform\<close>

lemma uniform_read_location_store [reader]: "uniform (read_location_store y cluster at)"
  unfolding read_location_store_def by (intro reader)

lemma uniform_read_auth [reader]: "uniform (read_auth y m at)"
  unfolding read_auth_def by (intro reader)

lemma uniform_read_seconds [reader]: "uniform (read_seconds y block key at slot)"
  unfolding read_seconds_def by (intro reader)

lemma uniform_read_quota [reader]: "uniform (read_quota y m at slot)"
  unfolding read_quota_def by (intro reader)

lemma uniform_read_tenant_policy [reader]: "uniform (read_tenant_policy y m at)"
  unfolding read_tenant_policy_def by (intro reader)

lemma uniform_read_tenant [reader]: "uniform (read_tenant y item at tenants)"
  unfolding read_tenant_def by (intro reader)

lemma uniform_read_tenants [reader]: "uniform (read_tenants y cluster at)"
  unfolding read_tenants_def by (intro reader)

lemma uniform_read_security [reader]: "uniform (read_security y cluster at)"
  unfolding read_security_def by (intro reader)

lemma uniform_read_max_in_flight [reader]: "uniform (read_max_in_flight y m at admission)"
  unfolding read_max_in_flight_def by (intro reader)

lemma uniform_read_admission [reader]: "uniform (read_admission y cluster at)"
  unfolding read_admission_def by (intro reader)

lemma uniform_read_ms [reader]: "uniform (read_ms y m key at slot)"
  unfolding read_ms_def by (intro reader)

lemma uniform_read_timers [reader]: "uniform (read_timers y cluster at)"
  unfolding read_timers_def by (intro reader)

section \<open>What the readers accept\<close>

definition store_ok :: "location_store_spec \<Rightarrow> bool" where
  "store_ok s \<longleftrightarrow> st_backend s \<noteq> [] \<and> (st_backend s \<noteq> ''memory'' \<longrightarrow> st_dsn_ref s \<noteq> None)"

definition policy_ok :: "tenant_policy_spec \<Rightarrow> bool" where
  "policy_ok p \<longleftrightarrow> tp_min_expires p \<le> tp_max_expires p \<and> tp_max_bindings_per_aor p \<noteq> 0"

definition auth_ok :: "auth_spec \<Rightarrow> bool" where
  "auth_ok a \<longleftrightarrow> au_realm a \<noteq> [] \<and> au_secret_ref a \<noteq> []"

definition tenant_ok :: "tenant_spec \<Rightarrow> bool" where
  "tenant_ok t \<longleftrightarrow> tn_id t \<noteq> 0 \<and> tn_name t \<noteq> [] \<and> policy_ok (tn_policy t) \<and> pred_option auth_ok (tn_auth t)"

definition tenants_ok :: "tenant_spec list \<Rightarrow> bool" where
  "tenants_ok ts \<longleftrightarrow> (\<forall>t \<in> set ts. tenant_ok t) \<and> distinct (map tn_id ts) \<and> distinct (map tn_name ts)"

definition admission_ok :: "admission_spec \<Rightarrow> bool" where
  "admission_ok a \<longleftrightarrow> 1 \<le> ad_max_in_flight_transactions a \<and> ad_max_in_flight_transactions a \<le> MAX_IN_FLIGHT_CEILING"

lemma read_location_store_ok: "clean (read_location_store y cluster at) r \<Longrightarrow> pred_option store_ok r"
  by (auto simp: read_location_store_def clean_simps reader ex_unit store_ok_def str_field_def split: option.splits)

lemma read_auth_ok: "clean (read_auth y m at) r \<Longrightarrow> pred_option auth_ok r"
  by (auto simp: read_auth_def clean_simps reader ex_unit auth_ok_def str_field_def split: option.splits)

lemma read_quota_ok: "clean (read_quota y m at slot) 0 \<Longrightarrow> slot = 0"
  by (auto simp: read_quota_def clean_simps reader ex_unit split: option.splits)

lemma read_tenant_policy_ok: "clean (read_tenant_policy y m at) p \<Longrightarrow> policy_ok p"
  using read_quota_ok [of y m at 10]
  by (auto simp: read_tenant_policy_def clean_simps reader ex_unit policy_ok_def default_tenant_policy_def not_less
      split: option.splits)

lemma read_tenant_ok:
  assumes "clean (read_tenant y item at ts) ts'" "tenants_ok ts"
  shows "tenants_ok ts'"
proof -
  from assms(1) obtain m n nm auth policy where
    n: "uint_field y m ''id'' 0xFFFFFFFF n" "n \<noteq> 0" "str_field y m ''name'' nm" "clean (read_auth y m at) auth"
      "clean (read_tenant_policy y m at) policy"
    and rest: "case narrow n of None \<Rightarrow> ts = ts' | Some i \<Rightarrow> i \<notin> set (map tn_id ts) \<and> nm \<notin> set (map tn_name ts)
      \<and> ts @ [\<lparr>tn_name = nm, tn_id = i, tn_domains = read_domains y m, tn_policy = policy, tn_auth = auth\<rparr>] = ts'"
    by (simp add: read_tenant_def clean_simps reader ex_unit cong: option.case_cong) blast
  obtain i :: u32 where i: "narrow n = Some i"
    using narrow_bounded [OF uint_field_bound [OF n(1)], where ?'a = 32] by auto
  moreover have "i \<noteq> 0" using narrow_Some [OF i] n(2) by (metis unat_eq_zero)
  ultimately show ?thesis
    using rest assms(2) str_field_nonempty [OF n(3)] read_tenant_policy_ok [OF n(5)] read_auth_ok [OF n(4)]
    by (auto simp: tenants_ok_def tenant_ok_def)
qed

lemma read_tenants_ok:
  assumes "clean (read_tenants y cluster at) ts"
  shows "tenants_ok ts"
proof (cases "lookup cluster ''tenant''")
  case None
  with assms show ?thesis by (auto simp: read_tenants_def clean_simps tenants_ok_def)
next
  case (Some v)
  with assms obtain items where loop: "clean (for_each 0 items [] (\<lambda>i item tenants.
      read_tenant y item (path_index (path_field at ''tenant'') i) tenants)) ts"
    by (auto simp: read_tenants_def clean_simps reader split: option.splits)
  show ?thesis
    by (rule clean_for_each_inv [OF loop]) (auto simp: reader tenants_ok_def [of "[]"] intro: read_tenant_ok)
qed

lemma read_security_ok: "clean (read_security y cluster at) s \<Longrightarrow> s = default_security"
  by (auto simp: read_security_def clean_simps reader ex_unit split: option.splits)

lemma read_max_in_flight_ok: "clean (read_max_in_flight y m at admission) a \<Longrightarrow> admission_ok admission \<Longrightarrow> admission_ok a"
  by (auto simp: read_max_in_flight_def clean_simps reader ex_unit admission_ok_def split: option.splits)

lemma read_admission_ok:
  assumes "clean (read_admission y cluster at) a"
  shows "admission_ok a"
proof -
  have "admission_ok default_admission"
    by (simp add: admission_ok_def default_admission_def DEFAULT_MAX_IN_FLIGHT_TRANSACTIONS_def MAX_IN_FLIGHT_CEILING_def)
  with assms show ?thesis
    by (auto simp: read_admission_def clean_simps reader ex_unit split: option.splits intro: read_max_in_flight_ok)
qed

lemma read_timers_ok: "clean (read_timers y cluster at) t \<Longrightarrow> TIMER_C_FLOOR_MS < ti_timer_c_ms t"
  by (auto simp: read_timers_def clean_simps reader ex_unit not_le)

end
