(* ===== verification/Load.thy ===== *)
theory Load imports Prelude Ascii Netaddr Errors Document Instant Listen Config Cluster Shards Tenants "HOL-Library.AList" begin

text \<open>
  \<^verbatim>\<open>load\<close> and \<^verbatim>\<open>project\<close> of \<^verbatim>\<open>config/mod.rs\<close>: a document
  read whole or refused with every reason, and one node's view of it.
\<close>

section \<open>Reading the document\<close>

definition canonical_sections :: "('n, 'f) yaml_lib \<Rightarrow> 'n entries \<Rightarrow> (string \<times> string) list" where
  "canonical_sections y cluster =
    fold (\<lambda>(key, v) sections. case as_str y key of Some k \<Rightarrow> AList.update k (canonical y v) sections | None \<Rightarrow> sections)
      cluster []"

text \<open>The inline TLS key of the section that is not descended into.\<close>

definition check_management :: "('n, 'f) yaml_lib \<Rightarrow> 'n entries \<Rightarrow> path \<Rightarrow> unit reading" where
  "check_management y cluster at =
    (case Option.bind (lookup cluster ''management'') (as_entries y) of
       None \<Rightarrow> ret ()
     | Some management \<Rightarrow>
        (case lookup management ''tls'' of
           None \<Rightarrow> ret ()
         | Some tls \<Rightarrow> refuse_inline_tls_key y tls (path_field (path_field at ''management'') ''tls'')))"

definition sort_unapplied :: "path list reading" where
  "sort_unapplied = State (\<lambda>w. (remdups_adj (sort (wk_unapplied w)), w))"

text \<open>The cluster section, once the version of the schema is known to be this one: its sections in turn, then the
  checks across them; the paths not applied are put in order last.\<close>

definition read_sections ::
  "('n, 'f) yaml_lib \<Rightarrow> 'n entries \<Rightarrow> node_identity \<Rightarrow> path \<Rightarrow> string option \<Rightarrow> u64 option \<Rightarrow> config option reading" where
  "read_sections y cluster identity at api_version version = do {
    closed_world y cluster (CLUSTER_KEYS @ DEFERRED_SECTIONS) at;
    record_unapplied cluster DEFERRED_SECTIONS at;
    check_management y cluster at;
    cluster_name \<leftarrow> required_str y cluster ''name'' at ''CC-7'';
    environment \<leftarrow> required_str y cluster ''environment'' at ''CC-7'';
    zones \<leftarrow> read_zones y cluster at;
    listeners \<leftarrow> read_listeners y cluster at;
    membership \<leftarrow> read_membership y cluster at;
    keys \<leftarrow> read_keys y cluster at;
    shard_map \<leftarrow> read_shard_map y cluster at;
    location_store \<leftarrow> read_location_store y cluster at;
    tenants \<leftarrow> read_tenants y cluster at;
    security \<leftarrow> read_security y cluster at;
    admission \<leftarrow> read_admission y cluster at;
    timers \<leftarrow> read_timers y cluster at;
    check_role_combination (id_roles identity) (path_field [] ''<identity>.roles'');
    check_membership_agrees membership identity at;
    check_projection_has_a_listener listeners identity at;
    check_shard_owners shard_map membership at;
    ret (case (api_version, Option.bind version narrow, cluster_name, environment) of
      (Some api_version, Some version, Some cluster_name, Some environment) \<Rightarrow>
        Some \<lparr>cf_api_version = api_version, cf_version = version, cf_name = cluster_name, cf_environment = environment,
          cf_zones = zones, cf_listeners = listeners, cf_membership = membership, cf_keys = keys,
          cf_shard_map = shard_map, cf_location_store = location_store, cf_tenants = tenants, cf_security = security,
          cf_admission = admission, cf_timers = timers, cf_unapplied = [],
          cf_sections = canonical_sections y cluster\<rparr>
    | _ \<Rightarrow> None) }"

definition read_cluster ::
  "('n, 'f) yaml_lib \<Rightarrow> 'n entries \<Rightarrow> node_identity \<Rightarrow> path \<Rightarrow> string option \<Rightarrow> u64 option \<Rightarrow> config option reading" where
  "read_cluster y cluster identity at api_version version = do {
    config \<leftarrow> read_sections y cluster identity at api_version version;
    unapplied \<leftarrow> sort_unapplied;
    ret (map_option (\<lambda>c. c\<lparr>cf_unapplied := unapplied\<rparr>) config) }"

definition read_top ::
  "('n, 'f) yaml_lib \<Rightarrow> 'n entries \<Rightarrow> node_identity \<Rightarrow> path \<Rightarrow> string option \<Rightarrow> config option reading" where
  "read_top y doc identity root api_version = do {
    closed_world y doc [''apiVersion'', ''version'', ''cluster''] root;
    version \<leftarrow> required_uint y doc ''version'' root ''CC-D9'' 0xFFFFFFFF;
    let cluster_path = path_field root ''cluster'';
    case lookup doc ''cluster'' of
      None \<Rightarrow> do { refuse cluster_path ''CC-2'' None ''the cluster section; it is required''; ret None }
    | Some v \<Rightarrow> do {
        cluster \<leftarrow> as_mapping y v cluster_path;
        case cluster of
          None \<Rightarrow> ret None
        | Some cluster \<Rightarrow> read_cluster y cluster identity cluster_path api_version version } }"

text \<open>A document of another schema version is answered with that alone.\<close>

definition read_document ::
  "('n, 'f) yaml_lib \<Rightarrow> 'n yaml \<Rightarrow> node_identity \<Rightarrow> path \<Rightarrow> config option reading" where
  "read_document y document identity root = do {
    doc \<leftarrow> as_mapping y document root;
    case doc of
      None \<Rightarrow> ret None
    | Some doc \<Rightarrow> do {
        api_version \<leftarrow> required_str y doc ''apiVersion'' root ''CC-D6'';
        if api_version \<noteq> None \<and> api_version \<noteq> Some API_VERSION then do {
          clear_errors;
          refuse (path_field root ''apiVersion'') ''CC-D6'' api_version API_VERSION;
          ret None }
        else read_top y doc identity root api_version } }"

section \<open>UTF-8\<close>

text \<open>The width of the well-formed character a text starts with, and the first byte that starts none.\<close>

definition char_width :: "nat list \<Rightarrow> nat option" where
  "char_width bs =
    (case bs of
       [] \<Rightarrow> None
     | b # rest \<Rightarrow>
        if b < 128 then Some 1
        else if 0xC2 \<le> b \<and> b \<le> 0xDF then
          (case rest of c # _ \<Rightarrow> if continuation c then Some 2 else None | _ \<Rightarrow> None)
        else if 0xE0 \<le> b \<and> b \<le> 0xEF then
          (case rest of c # d # _ \<Rightarrow> if second_ok b c \<and> continuation d then Some 3 else None | _ \<Rightarrow> None)
        else if 0xF0 \<le> b \<and> b \<le> 0xF4 then
          (case rest of c # d # e # _ \<Rightarrow>
             if second_ok b c \<and> continuation d \<and> continuation e then Some 4 else None | _ \<Rightarrow> None)
        else None)"

lemma char_width_pos: "char_width bs = Some n \<Longrightarrow> 0 < n \<and> bs \<noteq> []"
  by (auto simp: char_width_def split: list.splits if_splits)

function valid_up_to :: "nat \<Rightarrow> nat list \<Rightarrow> nat option" where
  "valid_up_to n bs =
    (if bs = [] then None
     else case char_width bs of None \<Rightarrow> Some n | Some width \<Rightarrow> valid_up_to (n + width) (drop width bs))"
  by pat_completeness auto
termination by (relation "measure (\<lambda>(n, bs). length bs)") (auto dest: char_width_pos)

section \<open>Load and project\<close>

definition fresh_walk :: walk where
  "fresh_walk = \<lparr>wk_errors = [], wk_unapplied = []\<rparr>"

text \<open>What becomes of a parsed document: the whole configuration, or every refusal in order.\<close>

definition load_document ::
  "('n, 'f) yaml_lib \<Rightarrow> 'n yaml \<Rightarrow> string list \<Rightarrow> node_identity \<Rightarrow> config_error list + config" where
  "load_document y document unresolved identity =
    (let (found, w) = run_state (do {
           report_unresolved y document [] unresolved;
           read_document y document identity [] }) fresh_walk;
         errors = wk_errors w
     in case found of
          Some config \<Rightarrow> if errors = [] then Inr config else Inl (ordered errors)
        | None \<Rightarrow> Inl (ordered (if errors = []
             then [ConfigError [] ''CC-V10'' None ''a document this loader could read to completion''] else errors)))"

definition load ::
  "('n, 'f) yaml_lib \<Rightarrow> bytes \<Rightarrow> node_identity \<Rightarrow> env \<Rightarrow> config_error list + config" where
  "load y bytes identity env =
    (case valid_up_to 0 (map of_char bytes) of
       Some n \<Rightarrow> Inl [ConfigError [] ''CC-D3'' (Some (''invalid UTF-8 at byte '' @ decimal n))
         ''a UTF-8 encoded YAML or JSON document'']
     | None \<Rightarrow>
        (let (substituted, unresolved) = substitute env bytes in
         case parse_document y substituted of
           Inl why \<Rightarrow>
             Inl (ordered (wk_errors (snd (run_state (do {
               report_unresolved y YNull [] unresolved;
               refuse [] ''CC-D3'' (Some why) ''a well-formed YAML, JSON or TOML document'' }) fresh_walk))))
         | Inr document \<Rightarrow> load_document y document unresolved identity))"

definition project :: "config \<Rightarrow> node_identity \<Rightarrow> projected_config" where
  "project config identity =
    \<lparr>pj_identity = identity, pj_version = cf_version config,
     pj_listeners = filter (\<lambda>l. serves l identity) (cf_listeners config),
     pj_location_store = (if Registrar \<in> id_roles identity then cf_location_store config else None),
     pj_tenants = cf_tenants config, pj_security = cf_security config, pj_admission = cf_admission config,
     pj_timers = cf_timers config\<rparr>"

section \<open>What load accepts\<close>

lemma uniform_check_management [reader]: "uniform (check_management y cluster at)"
  unfolding check_management_def by (intro reader)

lemma uniform_read_sections [reader]: "uniform (read_sections y cluster identity at api_version version)"
  unfolding read_sections_def by (intro reader)

text \<open>A run is \<^emph>\<open>honest\<close> when it ends without refusals only if it began without any, and
  \<^emph>\<open>accepts\<close> a value that some run without refusals at its end returns.  Clearing the refusals to replace
  them by one is honest.\<close>

definition honest :: "'a reading \<Rightarrow> bool" where
  "honest m \<longleftrightarrow> (\<forall>w a w'. run_state m w = (a, w') \<longrightarrow> wk_errors w' = [] \<longrightarrow> wk_errors w = [])"

definition accepts :: "'a reading \<Rightarrow> 'a \<Rightarrow> bool" where
  "accepts m a \<longleftrightarrow> (\<exists>w w'. run_state m w = (a, w') \<and> wk_errors w' = [])"

lemma uniform_honest: "uniform m \<Longrightarrow> honest m"
  by (auto simp: uniform_def honest_def)

lemma uniform_accepts: "uniform m \<Longrightarrow> accepts m a \<Longrightarrow> clean m a"
  by (auto simp: uniform_def accepts_def clean_def)

lemma honest_ret: "honest (ret a)"
  by (simp add: honest_def)

lemma honest_bind: "honest m \<Longrightarrow> (\<And>a. honest (f a)) \<Longrightarrow> honest (State_Monad.bind m f)"
  unfolding honest_def by (auto split: prod.splits)

lemma accepts_bind:
  assumes "accepts (State_Monad.bind m f) b" "\<And>a. honest (f a)"
  shows "\<exists>a. accepts m a \<and> accepts (f a) b"
proof -
  obtain w w'' where run: "run_state (State_Monad.bind m f) w = (b, w'')" "wk_errors w'' = []"
    using assms(1) by (auto simp: accepts_def)
  obtain a w' where m: "run_state m w = (a, w')" by fastforce
  with run have f: "run_state (f a) w' = (b, w'')" by simp
  with run(2) assms(2) have "wk_errors w' = []" unfolding honest_def by blast
  with m f run(2) show ?thesis unfolding accepts_def by blast
qed

lemma honest_sort: "honest sort_unapplied"
  by (simp add: honest_def sort_unapplied_def)

lemma accepts_sort: "accepts sort_unapplied us \<Longrightarrow> sorted us \<and> distinct us"
  by (auto simp: accepts_def sort_unapplied_def distinct_remdups_sorted)

lemma honest_read_cluster: "honest (read_cluster y cluster identity at api_version version)"
  unfolding read_cluster_def by (intro honest_bind uniform_honest honest_sort reader)

lemma honest_read_top: "honest (read_top y doc identity root api_version)"
  unfolding read_top_def
  by (intro honest_bind uniform_honest [OF uniform_closed_world] uniform_honest [OF uniform_required_uint])
    (auto simp: Let_def split: option.split intro!: honest_bind honest_ret honest_read_cluster intro: uniform_honest reader)

lemma honest_read_document: "honest (read_document y document identity root)"
proof -
  have clear: "honest (do { clear_errors; refuse at rule found expected; ret None })" for at rule found and expected
    by (auto simp: honest_def clear_errors_def refuse_def)
  show ?thesis
    unfolding read_document_def
    by (intro honest_bind uniform_honest [OF uniform_as_mapping])
      (auto split: option.split intro!: honest_bind honest_ret honest_read_top clear intro: uniform_honest reader)
qed

text \<open>What holds of a configuration that was loaded.\<close>

definition config_ok :: "config \<Rightarrow> bool" where
  "config_ok c \<longleftrightarrow> cf_api_version c = API_VERSION \<and> cf_name c \<noteq> [] \<and> cf_environment c \<noteq> [] \<and> zones_ok (cf_zones c)
    \<and> (\<forall>l \<in> set (cf_listeners c). listener_ok l) \<and> membership_ok (cf_membership c) \<and> keys_ok (cf_keys c)
    \<and> pred_option shard_map_ok (cf_shard_map c) \<and> owners_ok (cf_shard_map c) (cf_membership c)
    \<and> pred_option store_ok (cf_location_store c) \<and> tenants_ok (cf_tenants c)
    \<and> cf_security c = default_security \<and> admission_ok (cf_admission c)
    \<and> TIMER_C_FLOOR_MS < ti_timer_c_ms (cf_timers c) \<and> sorted (cf_unapplied c) \<and> distinct (cf_unapplied c)"

text \<open>What a node finds in it.\<close>

definition config_fits :: "config \<Rightarrow> node_identity \<Rightarrow> bool" where
  "config_fits c identity \<longleftrightarrow> roles_ok (id_roles identity) \<and> agrees (cf_membership c) identity
    \<and> served (cf_listeners c) identity"

lemma roles_ok_nonempty: "roles_ok roles \<Longrightarrow> roles \<noteq> {}"
  by (simp add: roles_ok_def)

lemma read_sections_ok:
  assumes "clean (read_sections y cluster identity at (Some api) version) (Some c)"
  shows "config_ok (c\<lparr>cf_unapplied := us\<rparr>) \<longleftrightarrow> api = API_VERSION \<and> sorted us \<and> distinct us" "config_fits c identity"
    "cf_sections c = canonical_sections y cluster"
proof -
  obtain nm env zones ls ms keys sm st ts sec adm tim v where
    r: "str_field y cluster ''name'' nm" "str_field y cluster ''environment'' env" "clean (read_zones y cluster at) zones"
      "clean (read_listeners y cluster at) ls" "clean (read_membership y cluster at) ms" "clean (read_keys y cluster at) keys"
      "clean (read_shard_map y cluster at) sm" "clean (read_location_store y cluster at) st"
      "clean (read_tenants y cluster at) ts" "clean (read_security y cluster at) sec"
      "clean (read_admission y cluster at) adm" "clean (read_timers y cluster at) tim" "roles_ok (id_roles identity)"
      "clean (check_membership_agrees ms identity at) ()" "served ls identity"
      "clean (check_shard_owners sm ms at) ()"
    and c: "c = \<lparr>cf_api_version = api, cf_version = v, cf_name = nm, cf_environment = env,
          cf_zones = zones, cf_listeners = ls, cf_membership = ms, cf_keys = keys, cf_shard_map = sm, cf_location_store = st,
          cf_tenants = ts, cf_security = sec, cf_admission = adm, cf_timers = tim, cf_unapplied = [],
          cf_sections = canonical_sections y cluster\<rparr>"
    using assms
    by (auto simp: read_sections_def clean_simps reader ex_unit roles_ok_nonempty split: option.splits)
  note ms = read_membership_ok [OF r(5)]
  show "config_ok (c\<lparr>cf_unapplied := us\<rparr>) \<longleftrightarrow> api = API_VERSION \<and> sorted us \<and> distinct us"
    using str_field_nonempty [OF r(1)] str_field_nonempty [OF r(2)] read_zones_ok [OF r(3)] read_listeners_ok [OF r(4)]
      ms read_keys_ok [OF r(6)] read_shard_map_ok [OF r(7)] read_location_store_ok [OF r(8)] read_tenants_ok [OF r(9)]
      read_security_ok [OF r(10)] read_admission_ok [OF r(11)] read_timers_ok [OF r(12)] check_shard_owners_ok [OF r(16)]
    by (simp add: config_ok_def c)
  have "agrees ms identity" using check_membership_agrees_ok [OF r(14)] ms by (simp add: membership_ok_def)
  with r(13,15) show "config_fits c identity" by (auto simp: config_fits_def c roles_ok_def)
  show "cf_sections c = canonical_sections y cluster" by (simp add: c)
qed

lemma read_cluster_ok:
  assumes "accepts (read_cluster y cluster identity at (Some API_VERSION) version) (Some c)"
  shows "config_ok c \<and> config_fits c identity"
proof -
  obtain c0 us where "clean (read_sections y cluster identity at (Some API_VERSION) version) (Some c0)" "sorted us" "distinct us"
    and c: "c = c0\<lparr>cf_unapplied := us\<rparr>"
    using assms unfolding read_cluster_def
    by (auto dest!: accepts_bind accepts_sort uniform_accepts [OF uniform_read_sections]
        uniform_accepts [OF uniform_ret] simp: honest_bind honest_sort honest_ret clean_simps)
  note read = read_sections_ok [OF this(1)]
  show ?thesis using read(1) [of us] read(2) \<open>sorted us\<close> \<open>distinct us\<close> by (simp add: c config_fits_def)
qed

lemma accepts_ret: "accepts (ret a) b \<longleftrightarrow> a = b"
  by (auto simp: accepts_def intro: exI [of _ "\<lparr>wk_errors = [], wk_unapplied = []\<rparr>"])

lemma accepts_option: "accepts (case v of None \<Rightarrow> ret None | Some x \<Rightarrow> f x) (Some c) \<Longrightarrow> \<exists>x. v = Some x \<and> accepts (f x) (Some c)"
  by (cases v) (auto simp: accepts_ret)

lemma accepts_after: "(\<And>a. honest (f a)) \<Longrightarrow> accepts (State_Monad.bind m f) b \<Longrightarrow> \<exists>a. accepts (f a) b"
  by (blast dest: accepts_bind)

lemma accepts_foreign: "\<not> accepts (do { clear_errors; refuse at rule found expected; ret None }) c"
  by (auto simp: accepts_def clear_errors_def refuse_def)

lemma honest_foreign: "honest (do { clear_errors; refuse at rule found expected; ret None })"
  by (auto simp: honest_def clear_errors_def refuse_def)

lemma honest_option: "(\<And>x. honest (f x)) \<Longrightarrow> honest (case v of None \<Rightarrow> ret None | Some x \<Rightarrow> f x)"
  by (simp add: honest_ret split: option.split)

lemma honest_version: "honest (if b then do { clear_errors; refuse at rule found expected; ret None } else read_top y doc identity root api)"
  by (simp add: honest_foreign honest_read_top)

lemma read_top_ok:
  assumes "accepts (read_top y doc identity root (Some API_VERSION)) (Some c)"
  shows "\<exists>v cluster. lookup doc ''cluster'' = Some v \<and> as_entries y v = Some cluster \<and> config_ok c \<and> config_fits c identity"
proof -
  have tail: "honest (case lookup doc ''cluster'' of
      None \<Rightarrow> do { refuse p ''CC-2'' None expected; ret None }
    | Some v \<Rightarrow> do {
        cluster \<leftarrow> as_mapping y v p;
        case cluster of None \<Rightarrow> ret None | Some cluster \<Rightarrow> read_cluster y cluster identity p (Some API_VERSION) version })"
    for p expected version
    by (auto split: option.split intro!: honest_bind honest_option honest_read_cluster honest_ret intro: uniform_honest reader)
  obtain version p expected where "accepts (case lookup doc ''cluster'' of
      None \<Rightarrow> do { refuse p ''CC-2'' None expected; ret None }
    | Some v \<Rightarrow> do {
        cluster \<leftarrow> as_mapping y v p;
        case cluster of None \<Rightarrow> ret None | Some cluster \<Rightarrow> read_cluster y cluster identity p (Some API_VERSION) version }) (Some c)"
    using assms unfolding read_top_def Let_def
    by (blast dest!: accepts_after [rotated] intro: honest_bind tail uniform_honest uniform_required_uint)
  then obtain v where v: "lookup doc ''cluster'' = Some v" and "accepts (do {
        cluster \<leftarrow> as_mapping y v p;
        case cluster of None \<Rightarrow> ret None | Some cluster \<Rightarrow> read_cluster y cluster identity p (Some API_VERSION) version }) (Some c)"
    by (cases "lookup doc ''cluster''") (auto dest: uniform_accepts [OF uniform_bind [OF uniform_refuse uniform_ret]] simp: clean_simps reader)
  then obtain cluster where "accepts (as_mapping y v p) (Some cluster)"
      "accepts (read_cluster y cluster identity p (Some API_VERSION) version) (Some c)"
    by (blast dest: accepts_bind accepts_option intro: honest_option honest_read_cluster)
  with v show ?thesis using read_cluster_ok uniform_accepts [OF uniform_as_mapping] by (force simp: clean_simps)
qed

lemma read_document_ok:
  assumes "accepts (read_document y document identity root) (Some c)"
  shows "config_ok c \<and> config_fits c identity"
proof -
  obtain doc where "accepts (do {
        api_version \<leftarrow> required_str y doc ''apiVersion'' root ''CC-D6'';
        if api_version \<noteq> None \<and> api_version \<noteq> Some API_VERSION then do {
          clear_errors;
          refuse (path_field root ''apiVersion'') ''CC-D6'' api_version API_VERSION;
          ret None }
        else read_top y doc identity root api_version }) (Some c)"
    using assms unfolding read_document_def
    by (blast dest: accepts_bind accepts_option intro: honest_option honest_bind honest_version uniform_honest uniform_required_str)
  from accepts_bind [OF this honest_version] obtain api where api: "accepts (required_str y doc ''apiVersion'' root ''CC-D6'') api"
    "accepts (if api \<noteq> None \<and> api \<noteq> Some API_VERSION then do {
          clear_errors;
          refuse (path_field root ''apiVersion'') ''CC-D6'' api API_VERSION;
          ret None }
        else read_top y doc identity root api) (Some c)" by blast
  from uniform_accepts [OF uniform_required_str api(1)] have "api \<noteq> None" by (auto simp: clean_simps)
  with api(2) have "api = Some API_VERSION" by (auto simp: accepts_foreign simp del: run_state_bind split: if_split_asm)
  with api(2) have "accepts (read_top y doc identity root (Some API_VERSION)) (Some c)" by simp
  from read_top_ok [OF this] show ?thesis by blast
qed

end
