(* ===== verification/Loaded.thy ===== *)
theory Loaded imports Prelude Ascii Errors Document Config Cluster Shards Tenants Load begin

text \<open>
  What \<^verbatim>\<open>load\<close> answers: a configuration that is well formed as a whole, or every refusal,
  each once and in order.  The witnesses load a small document through a concrete value library.
\<close>

section \<open>Runs\<close>

lemma accepts_run: "run_state m w = (a, w') \<Longrightarrow> wk_errors w' = [] \<Longrightarrow> accepts m a"
  by (auto simp: accepts_def)

lemma load_document_ok:
  assumes "load_document y document unresolved identity = Inr c"
  shows "config_ok c \<and> config_fits c identity"
proof -
  have "accepts (do { report_unresolved y document [] unresolved; read_document y document identity [] }) (Some c)"
    using assms by (auto simp: load_document_def Let_def simp del: run_state_bind split: prod.splits option.splits if_splits
        intro: accepts_run)
  from accepts_after [OF honest_read_document this] have "accepts (read_document y document identity []) (Some c)" by blast
  then show ?thesis by (rule read_document_ok)
qed

declare valid_up_to.simps [simp del]

lemma load_cases:
  assumes "load y bytes identity env = r"
  obtains (document) document unresolved where "load_document y document unresolved identity = r"
    "unresolved = snd (substitute env bytes)" "parse_document y (fst (substitute env bytes)) = Inr document"
    "valid_up_to 0 (map of_char bytes) = None"
  | (parsing) es where "r = Inl (ordered es)" "es \<noteq> []"
proof (cases "valid_up_to 0 (map of_char bytes)")
  case None
  show thesis
  proof (cases "parse_document y (fst (substitute env bytes))")
    case (Inl why)
    let ?m = "do { report_unresolved y YNull [] (snd (substitute env bytes));
        refuse [] ''CC-D3'' (Some why) ''a well-formed YAML, JSON or TOML document'' }"
    obtain a w where run: "run_state ?m fresh_walk = (a, w)" by (cases "run_state ?m fresh_walk")
    have "\<not> accepts ?m a"
      by (auto dest!: uniform_accepts [OF uniform_bind [OF uniform_report_unresolved uniform_refuse]] simp: clean_simps reader)
    with run have "wk_errors w \<noteq> []" by (auto intro: accepts_run)
    with run show thesis using assms None Inl
      by (intro parsing [of "wk_errors w"]) (simp_all add: load_def case_prod_beta del: run_state_bind)
  next
    case (Inr document)
    then show thesis using assms None
      by (intro document [of document "snd (substitute env bytes)"]) (auto simp: load_def case_prod_beta)
  qed
next
  case (Some n)
  let ?e = "ConfigError [] ''CC-D3'' (Some (''invalid UTF-8 at byte '' @ decimal n)) ''a UTF-8 encoded YAML or JSON document''"
  show thesis using assms Some by (intro parsing [of "[?e]"]) (auto simp: load_def ordered_def)
qed

lemma load_document_refuses:
  assumes "load_document y document unresolved identity = Inl es"
  obtains es' where "es = ordered es'" "es' \<noteq> []"
proof -
  from assms show thesis
    by (auto simp: load_document_def Let_def simp del: run_state_bind split: prod.splits option.splits if_splits intro: that)
qed

section \<open>A document and a library to load it with\<close>

definition library_sample :: "u64 yaml \<Rightarrow> (u64, unit) yaml_lib" where
  "library_sample document =
    \<lparr>parse_yaml = (\<lambda>_. Inr document), parse_toml = (\<lambda>_. Inl ''not TOML''), of_integer = (\<lambda>i. i), of_float = (\<lambda>_. 0),
     untag = (\<lambda>v. case v of YTagged _ u \<Rightarrow> u | _ \<Rightarrow> v), number_u64 = Some, number_i64 = (\<lambda>_. None),
     number_f64 = (\<lambda>_. None), number_text = (\<lambda>_. ''''), string_debug = (\<lambda>s. s), value_debug = (\<lambda>_. ''?'')\<rparr>"

definition document_sample :: "string \<Rightarrow> u64 \<Rightarrow> u64 entries \<Rightarrow> u64 yaml" where
  "document_sample version_text version sections = YMapping
    [(YString ''apiVersion'', YString version_text),
     (YString ''version'', YNumber version),
     (YString ''cluster'', YMapping
       ([(YString ''name'', YString ''lab''), (YString ''environment'', YString ''test''),
        (YString ''zones'', YSequence [YString ''a'']),
        (YString ''listener'', YSequence [YMapping
          [(YString ''roles'', YSequence [YString ''edge'']), (YString ''transport'', YString ''udp''),
           (YString ''bind'', YString ''h:1'')]])] @ sections))]"

definition node_sample :: node_identity where
  "node_sample = \<lparr>id_node = 1, id_zone = ''a'', id_roles = {Edge}\<rparr>"


text \<open>How the guards and the narrowing of a number are evaluated.\<close>

declare guarded_def [code_unfold]

lemma narrow_int [code]: "(narrow n :: 'a::len word option) = (if uint n < 2 ^ LENGTH('a) then Some (ucast n) else None)"
proof -
  have "unat n < 2 ^ LENGTH('a) \<longleftrightarrow> uint n < 2 ^ LENGTH('a)"
    unfolding uint_nat by (subst of_nat_less_iff [where ?'a = int, symmetric]) (simp only: of_nat_power of_nat_numeral)
  then show ?thesis by (simp only: narrow_def)
qed

lemma library_sample_as [simp]: "as_str (library_sample d) = as_str (library_sample YNull)"
  "as_entries (library_sample d) = as_entries (library_sample YNull)"
  by (simp_all add: library_sample_def as_str_def as_entries_def fun_eq_iff)

lemma load_sample:
  "load (library_sample document) ''c'' identity (\<lambda>_. None) = load_document (library_sample document) document [] identity"
  by (simp add: load_def valid_up_to.simps char_width_def substitute_def substitute_from.simps parse_document_def
      looks_like_toml_def str_lines_def library_sample_def)

lemma load_document_sample:
  "case load_document (library_sample (document_sample API_VERSION 3 [])) (document_sample API_VERSION 3 []) [] node_sample of
     Inr c \<Rightarrow> cf_name c = ''lab'' \<and> cf_version c = 3 \<and> length (cf_listeners c) = 1 | Inl _ \<Rightarrow> False"
  by code_simp

section \<open>What load promises\<close>

text \<open>C17. A document that loads is well formed as a whole: it is of this schema version; its name and environment are
  not empty; zones and listeners are within their bounds, with transports this build serves; node ids, names and
  endpoints are unique and not zero; at most one key mints, with disjoint verify windows per id; the shards are complete
  and owned by members; tenant ids and names are unique and their policies consistent; the bounds of
  the admission and timer sections hold; and the node that loads it has roles that combine, agrees with its own entry
  and serves at least one listener.\<close>

theorem loaded_config_wellformed:
  assumes "load y bytes identity env = Inr c"
  shows "config_ok c \<and> config_fits c identity"
  using assms by (rule load_cases) (auto dest: load_document_ok)

lemma loaded_config_wellformed_witness:
  "\<exists>c. load (library_sample (document_sample API_VERSION 3 [])) ''c'' node_sample (\<lambda>_. None) = Inr c \<and> cf_name c = ''lab''
    \<and> config_ok c \<and> config_fits c node_sample"
  using load_document_sample loaded_config_wellformed [of "library_sample (document_sample API_VERSION 3 [])" "''c''" node_sample "\<lambda>_. None"]
  by (auto simp: load_sample split: sum.splits)

text \<open>A refusal is complete and canonical: whatever stage it comes from, it is never empty, never repeats a
  reason, and its reasons stand in the order of path, rule, finding and expectation, so that the same document is
  answered with the same bytes.\<close>

theorem refusals_are_canonical:
  assumes "load y bytes identity env = Inl es"
  shows "es \<noteq> [] \<and> sorted_wrt (<) es"
proof -
  obtain es' where "es = ordered es'" "es' \<noteq> []"
    using assms by (rule load_cases) (auto elim: load_document_refuses)
  then show ?thesis by (simp add: ordered_canonical strict_sorted_iff)
qed

lemma refusals_are_canonical_witness:
  "case load (library_sample YNull) ''c'' node_sample (\<lambda>_. None) of Inr c \<Rightarrow> False | Inl es \<Rightarrow> es \<noteq> [] \<and> sorted_wrt (<) es"
proof -
  have "load_document (library_sample YNull) YNull [] node_sample = Inl [ConfigError [] ''CC-D3'' (Some ''null'') ''a mapping'']"
    by (simp add: load_document_def report_unresolved_def read_document_def as_mapping_def as_entries_def
        library_sample_def refuse_def fresh_walk_def ordered_def type_of_def)
  then have "load (library_sample YNull) ''c'' node_sample (\<lambda>_. None) = Inl [ConfigError [] ''CC-D3'' (Some ''null'') ''a mapping'']"
    by (simp only: load_sample)
  from refusals_are_canonical [OF this] this show ?thesis by simp
qed

text \<open>A document written for another version of the schema is answered with that alone: none of its other
  content is judged by rules it was not written for, not even a variable that does not resolve.\<close>

theorem foreign_version_reported_alone:
  assumes "as_entries y document = Some doc" "lookup doc ''apiVersion'' = Some v" "as_str y v = Some version"
    "version \<noteq> []" "version \<noteq> API_VERSION"
  shows "load_document y document unresolved identity = Inl [ConfigError ''apiVersion'' ''CC-D6'' (Some version) API_VERSION]"
proof -
  obtain es us where "run_state (report_unresolved y document [] unresolved) fresh_walk = ((), appending fresh_walk es us)"
    using uniformD [OF uniform_report_unresolved, of y document "[]" unresolved fresh_walk] by auto
  then show ?thesis using assms
    by (simp add: load_document_def read_document_def as_mapping_def required_str_def clear_errors_def refuse_def
        ordered_def path_field_def)
qed

lemma foreign_version_reported_alone_witness:
  "load_document (library_sample YNull) (document_sample ''sipx.dev/v2'' 3 []) [''HOME''] node_sample =
    Inl [ConfigError ''apiVersion'' ''CC-D6'' (Some ''sipx.dev/v2'') API_VERSION]"
  by (rule foreign_version_reported_alone [of _ _ "case document_sample ''sipx.dev/v2'' 3 [] of YMapping m \<Rightarrow> m" "YString ''sipx.dev/v2''"])
    (simp_all add: library_sample_def document_sample_def as_entries_def as_str_def lookup_def API_VERSION_def)

end
