(* ===== verification/Secrets.thy ===== *)
theory Secrets imports Prelude Ascii Errors Document Config Cluster Shards Tenants Load Loaded begin

text \<open>
  Secret values and what \<^verbatim>\<open>load\<close> says of a document.  The keys under which a document
  could carry a secret are refused by their name; the readers never look at what stands under them.  The
  report of unresolved variables does: of what stands under such a key it shows the names of those
  variables and the places where they are used, and nothing else.
\<close>

section \<open>Redaction\<close>

definition SECRET_KEYS :: "string list" where
  "SECRET_KEYS = [''key'', ''secret'', ''dsn'', ''credentials'', ''users'']"

text \<open>What may show of a value that stands under a secret key, where the variables \<open>us\<close> could not be
  resolved: the names of those it refers to, and the places inside it where it does.  Every scalar is
  taken out, a string keeps the names of the references it holds, an entry of a mapping or a whole
  collection that holds none is dropped, and so is every tag.\<close>

definition names_in :: "string list \<Rightarrow> string \<Rightarrow> string list" where
  "names_in us s = filter (\<lambda>name. contains (reference name) s) us"

definition covered_items :: "'n yaml list \<Rightarrow> 'n yaml" where
  "covered_items vs = (if list_all (\<lambda>v. v = YNull) vs then YNull else YSequence vs)"

definition covered_entries :: "'n entries \<Rightarrow> 'n yaml" where
  "covered_entries m = (case filter (\<lambda>(k, v). v \<noteq> YNull) m of [] \<Rightarrow> YNull | e # es \<Rightarrow> YMapping (e # es))"

fun cover :: "string list \<Rightarrow> 'n yaml \<Rightarrow> 'n yaml" where
  "cover us (YString s) =
    (if names_in us s = [] then YNull else YTagged ''names'' (YSequence (map YString (names_in us s))))"
| "cover us (YSequence vs) = covered_items (map (cover us) vs)"
| "cover us (YMapping m) = covered_entries (map (\<lambda>(k, v). (k, cover us v)) m)"
| "cover us (YTagged t v) = cover us v"
| "cover us _ = YNull"

text \<open>A value with everything under a secret key covered.\<close>

fun redact :: "string list \<Rightarrow> 'n yaml \<Rightarrow> 'n yaml"
and redact_items :: "string list \<Rightarrow> 'n yaml list \<Rightarrow> 'n yaml list"
and redact_entries :: "string list \<Rightarrow> 'n entries \<Rightarrow> 'n entries" where
  "redact us YNull = YNull"
| "redact us (YBool b) = YBool b"
| "redact us (YNumber n) = YNumber n"
| "redact us (YString s) = YString s"
| "redact us (YSequence vs) = YSequence (redact_items us vs)"
| "redact us (YMapping m) = YMapping (redact_entries us m)"
| "redact us (YTagged t v) = YTagged t (redact us v)"
| "redact_items us [] = []"
| "redact_items us (v # vs) = redact us v # redact_items us vs"
| "redact_entries us [] = []"
| "redact_entries us ((k, v) # m) =
    (k, case k of YString key \<Rightarrow> if key \<in> set SECRET_KEYS then cover us v else redact us v | _ \<Rightarrow> redact us v)
      # redact_entries us m"

text \<open>Looking through a tag is looking through it in the redacted value.\<close>

definition transparent :: "('n, 'f) yaml_lib \<Rightarrow> bool" where
  "transparent y \<longleftrightarrow> (\<forall>us v. untag y (redact us v) = redact us (untag y v))"

named_theorems redacting \<open>a reader does not see what is redacted\<close>

lemma redact_items_map: "redact_items us vs = map (redact us) vs"
  by (induction vs) auto

lemma redact_keys [redacting]: "map fst (redact_entries us m) = map fst m"
  by (induction m) auto

lemma lookup_redact [redacting]: "key \<notin> set SECRET_KEYS \<Longrightarrow> lookup (redact_entries us m) key = map_option (redact us) (lookup m key)"
  unfolding lookup_def by (induction m) auto

lemma contains_redact [redacting]: "contains_key (redact_entries us m) key = contains_key m key"
  unfolding contains_key_def lookup_def by (induction m) auto

lemma type_of_redact [redacting]: "type_of (redact us v) = type_of v"
  by (cases v) (auto simp: type_of_def)

lemma as_redact [redacting]:
  assumes "transparent y"
  shows "as_str y (redact us v) = as_str y v" "as_bool y (redact us v) = as_bool y v" "as_u64 y (redact us v) = as_u64 y v"
    "as_sequence y (redact us v) = map_option (map (redact us)) (as_sequence y v)"
    "as_entries y (redact us v) = map_option (redact_entries us) (as_entries y v)"
  using assms
  by (cases "untag y v"; simp add: transparent_def as_str_def as_bool_def as_u64_def as_sequence_def as_entries_def
      redact_items_map)+

lemma quoted_redact [redacting]: "transparent y \<Longrightarrow> quoted y (redact us v) = quoted y v"
  by (simp add: quoted_def redacting Let_def cong: option.case_cong if_cong)

lemma case_redact [redacting]:
  "(case map_option f v of None \<Rightarrow> a | Some x \<Rightarrow> g x) = (case v of None \<Rightarrow> a | Some x \<Rightarrow> g (f x))"
  "Option.bind (map_option f v) h = Option.bind v (\<lambda>x. h (f x))" "map_option f v = None \<longleftrightarrow> v = None"
  by (cases v; simp)+

lemma for_each_redact [redacting]: "for_each i (map f xs) acc body = for_each i xs acc (\<lambda>i x. body i (f x))"
  by (induction xs arbitrary: i acc) (simp_all add: for_each.simps)

lemma as_mapping_redact [redacting]:
  "transparent y \<Longrightarrow> State_Monad.bind (as_mapping y (redact us v) at) f =
    State_Monad.bind (as_mapping y v at) (\<lambda>m. f (map_option (redact_entries us) m))"
  by (cases "as_entries y v") (simp_all add: as_mapping_def redacting)

lemma as_mapping_redact_entries [redacting]:
  "transparent y \<Longrightarrow> as_mapping y (redact us v) at = do { m \<leftarrow> as_mapping y v at; ret (map_option (redact_entries us) m) }"
  by (cases "as_entries y v") (simp_all add: as_mapping_def redacting)

lemma secret_names [simp]: "set SECRET_KEYS = {''key'', ''secret'', ''dsn'', ''credentials'', ''users''}"
  by (simp add: SECRET_KEYS_def)

section \<open>The readers do not look\<close>

lemma redact_closed_world [redacting]: "closed_world y (redact_entries us m) known at = closed_world y m known at"
  by (simp add: closed_world_def redacting Let_def cong: option.case_cong if_cong)

lemma redact_required_str [redacting]:
  "transparent y \<Longrightarrow> key \<notin> set SECRET_KEYS \<Longrightarrow> required_str y (redact_entries us m) key at rule = required_str y m key at rule"
  by (simp add: required_str_def redacting Let_def cong: option.case_cong if_cong)

lemma redact_required_uint [redacting]:
  "transparent y \<Longrightarrow> key \<notin> set SECRET_KEYS \<Longrightarrow> required_uint y (redact_entries us m) key at rule bound = required_uint y m key at rule bound"
  by (simp add: required_uint_def redacting Let_def cong: option.case_cong if_cong)

lemma redact_read_roles [redacting]: "transparent y \<Longrightarrow> read_roles y (map_option (redact us) v) at = read_roles y v at"
  by (simp add: read_roles_def redacting Let_def cong: option.case_cong if_cong)

lemma redact_read_zone [redacting]: "transparent y \<Longrightarrow> read_zone y (redact us v) at = read_zone y v at"
  by (rule ext) (simp add: read_zone_def redacting Let_def cong: option.case_cong if_cong)

lemma redact_read_zones [redacting]: "transparent y \<Longrightarrow> read_zones y (redact_entries us m) at = read_zones y m at"
  by (simp add: read_zones_def redacting Let_def cong: option.case_cong if_cong)

lemma redact_inline_tls [redacting]: "transparent y \<Longrightarrow> refuse_inline_tls_key y (redact us v) at = refuse_inline_tls_key y v at"
  by (simp add: refuse_inline_tls_key_def redacting Let_def cong: option.case_cong if_cong)

lemma redact_record_unapplied [redacting]: "record_unapplied (redact_entries us m) keys at = record_unapplied m keys at"
  by (simp add: record_unapplied_def redacting Let_def cong: option.case_cong if_cong)

lemma redact_read_listener [redacting]: "transparent y \<Longrightarrow> read_listener y (redact us v) at = read_listener y v at"
  by (simp add: read_listener_def redacting Let_def cong: option.case_cong if_cong)

lemma redact_read_listeners [redacting]: "transparent y \<Longrightarrow> read_listeners y (redact_entries us m) at = read_listeners y m at"
  by (simp add: read_listeners_def redacting Let_def cong: option.case_cong if_cong)

lemma redact_read_rpc [redacting]: "transparent y \<Longrightarrow> read_rpc y (redact_entries us m) roles at = read_rpc y m roles at"
  by (simp add: read_rpc_def redacting Let_def cong: option.case_cong if_cong)

lemma redact_read_incarnation [redacting]: "transparent y \<Longrightarrow> read_incarnation y (redact_entries us m) at = read_incarnation y m at"
  by (cases "lookup m ''incarnationSource''") (auto simp: read_incarnation_def redacting ok_or_def split: option.splits)

lemma redact_read_member [redacting]: "transparent y \<Longrightarrow> read_member y (redact us v) at = read_member y v at"
  by (rule ext) (simp add: read_member_def redacting Let_def cong: option.case_cong if_cong)

lemma redact_read_membership [redacting]: "transparent y \<Longrightarrow> read_membership y (redact_entries us m) at = read_membership y m at"
  by (simp add: read_membership_def redacting Let_def cong: option.case_cong if_cong)

lemma redact_read_algorithm [redacting]: "transparent y \<Longrightarrow> read_algorithm y (redact_entries us m) at = read_algorithm y m at"
  by (simp add: read_algorithm_def redacting Let_def cong: option.case_cong if_cong)

lemma redact_read_bool [redacting]:
  "transparent y \<Longrightarrow> key \<notin> set SECRET_KEYS \<Longrightarrow> read_bool y (redact_entries us m) key at = read_bool y m key at"
  by (simp add: read_bool_def redacting Let_def cong: option.case_cong if_cong)

lemma redact_read_instant [redacting]:
  "transparent y \<Longrightarrow> key \<notin> set SECRET_KEYS \<Longrightarrow> read_instant y (redact_entries us m) key at = read_instant y m key at"
  by (simp add: read_instant_def redacting Let_def cong: option.case_cong if_cong)

lemma redact_read_key_entry [redacting]: "transparent y \<Longrightarrow> read_key_entry y (redact us v) at = read_key_entry y v at"
  by (simp add: read_key_entry_def redacting Let_def cong: option.case_cong if_cong)

lemma redact_read_key [redacting]: "transparent y \<Longrightarrow> read_key y (redact us v) at = read_key y v at"
  by (rule ext) (simp add: read_key_def redacting)

lemma redact_read_keys [redacting]: "transparent y \<Longrightarrow> read_keys y (redact_entries us m) at = read_keys y m at"
  by (simp add: read_keys_def redacting Let_def cong: option.case_cong if_cong)

lemma redact_read_drain_timeout [redacting]: "transparent y \<Longrightarrow> read_drain_timeout y (redact_entries us m) at = read_drain_timeout y m at"
  by (simp add: read_drain_timeout_def redacting Let_def cong: option.case_cong if_cong)

lemma redact_read_shard [redacting]: "transparent y \<Longrightarrow> read_shard y (redact us v) at = read_shard y v at"
  by (simp add: read_shard_def redacting Let_def cong: option.case_cong if_cong)

lemma redact_read_shards [redacting]: "transparent y \<Longrightarrow> read_shards y (redact_entries us m) at = read_shards y m at"
  by (simp add: read_shards_def redacting Let_def cong: option.case_cong if_cong)

lemma redact_read_shard_map [redacting]: "transparent y \<Longrightarrow> read_shard_map y (redact_entries us m) at = read_shard_map y m at"
  by (simp add: read_shard_map_def redacting Let_def cong: option.case_cong if_cong)

lemma redact_read_location_store [redacting]: "transparent y \<Longrightarrow> read_location_store y (redact_entries us m) at = read_location_store y m at"
  by (simp add: read_location_store_def redacting Let_def cong: option.case_cong if_cong)

lemma redact_read_auth [redacting]: "transparent y \<Longrightarrow> read_auth y (redact_entries us m) at = read_auth y m at"
  by (simp add: read_auth_def redacting Let_def cong: option.case_cong if_cong)

lemma redact_read_seconds [redacting]:
  "transparent y \<Longrightarrow> key \<notin> set SECRET_KEYS \<Longrightarrow> read_seconds y (redact_entries us m) key at slot = read_seconds y m key at slot"
  by (simp add: read_seconds_def redacting Let_def cong: option.case_cong if_cong)

lemma redact_read_quota [redacting]: "transparent y \<Longrightarrow> read_quota y (redact_entries us m) at slot = read_quota y m at slot"
  by (simp add: read_quota_def redacting Let_def cong: option.case_cong if_cong)

lemma redact_read_tenant_policy [redacting]: "transparent y \<Longrightarrow> read_tenant_policy y (redact_entries us m) at = read_tenant_policy y m at"
  by (simp add: read_tenant_policy_def redacting Let_def cong: option.case_cong if_cong)

lemma map_filter_map: "List.map_filter f (map g xs) = List.map_filter (\<lambda>x. f (g x)) xs"
  by (induction xs) (simp_all add: List.map_filter_def)

lemma redact_read_domains [redacting]: "transparent y \<Longrightarrow> read_domains y (redact_entries us m) = read_domains y m"
  by (cases "lookup m ''domains''"; cases "Option.bind (lookup m ''domains'') (as_sequence y)")
    (simp_all add: read_domains_def redacting map_filter_map)

lemma redact_read_tenant [redacting]: "transparent y \<Longrightarrow> read_tenant y (redact us v) at = read_tenant y v at"
  by (rule ext) (simp add: read_tenant_def redacting Let_def cong: option.case_cong if_cong)

lemma redact_read_tenants [redacting]: "transparent y \<Longrightarrow> read_tenants y (redact_entries us m) at = read_tenants y m at"
  by (simp add: read_tenants_def redacting Let_def cong: option.case_cong if_cong)

lemma redact_read_security [redacting]: "transparent y \<Longrightarrow> read_security y (redact_entries us m) at = read_security y m at"
  by (simp add: read_security_def redacting Let_def cong: option.case_cong if_cong)

lemma redact_read_max_in_flight [redacting]:
  "transparent y \<Longrightarrow> read_max_in_flight y (redact_entries us m) at a = read_max_in_flight y m at a"
  by (simp add: read_max_in_flight_def redacting Let_def cong: option.case_cong if_cong)

lemma redact_read_admission [redacting]: "transparent y \<Longrightarrow> read_admission y (redact_entries us m) at = read_admission y m at"
  by (simp add: read_admission_def redacting Let_def cong: option.case_cong if_cong)

lemma redact_read_ms [redacting]:
  "transparent y \<Longrightarrow> key \<notin> set SECRET_KEYS \<Longrightarrow> read_ms y (redact_entries us m) key at slot = read_ms y m key at slot"
  by (simp add: read_ms_def redacting Let_def cong: option.case_cong if_cong)

lemma case_bind: "State_Monad.bind (case v of None \<Rightarrow> ret a | Some x \<Rightarrow> g x) f =
    (case v of None \<Rightarrow> f a | Some x \<Rightarrow> State_Monad.bind (g x) f)"
  by (cases v) simp_all

lemma redact_read_timers [redacting]: "transparent y \<Longrightarrow> read_timers y (redact_entries us m) at = read_timers y m at"
  by (simp add: read_timers_def case_bind redacting Let_def cong: option.case_cong if_cong)

lemma redact_check_management [redacting]: "transparent y \<Longrightarrow> check_management y (redact_entries us m) at = check_management y m at"
  by (cases "lookup m ''management''"; cases "Option.bind (lookup m ''management'') (as_entries y)")
    (simp_all add: check_management_def redacting cong: option.case_cong)

text \<open>Two runs are \<^emph>\<open>alike\<close> when they refuse the same and both or neither return something.\<close>

definition alike :: "'a option reading \<Rightarrow> 'a option reading \<Rightarrow> bool" where
  "alike m m' \<longleftrightarrow> (\<forall>w. snd (run_state m w) = snd (run_state m' w) \<and> (fst (run_state m w) = None \<longleftrightarrow> fst (run_state m' w) = None))"

lemma alike_refl: "alike m m"
  by (simp add: alike_def)

lemma alike_bind: "(\<And>a. alike (f a) (g a)) \<Longrightarrow> alike (State_Monad.bind m f) (State_Monad.bind m g)"
  by (simp add: alike_def split: prod.split)

lemma alike_map:
  assumes "alike m m'"
  shows "alike (do { v \<leftarrow> m; u \<leftarrow> k; ret (map_option (f u) v) }) (do { v \<leftarrow> m'; u \<leftarrow> k; ret (map_option (f u) v) })"
  using assms by (auto simp: alike_def split: prod.splits) (metis fst_conv snd_conv)+

lemma redact_read_sections:
  assumes "transparent y"
  shows "alike (read_sections y (redact_entries us m) identity at api_version version) (read_sections y m identity at api_version version)"
proof -
  have last: "alike (ret (case (a, v, n, e) of (Some a, Some v, Some n, Some e) \<Rightarrow> Some (f a v n e) | _ \<Rightarrow> None))
      (ret (case (a, v, n, e) of (Some a, Some v, Some n, Some e) \<Rightarrow> Some (g a v n e) | _ \<Rightarrow> None))" for a v n e f g
    by (simp add: alike_def split: option.split)
  have names: "required_str y (redact_entries us m) ''name'' at rule = required_str y m ''name'' at rule"
    "required_str y (redact_entries us m) ''environment'' at rule = required_str y m ''environment'' at rule" for rule
    using assms by (simp_all add: redacting)
  show ?thesis using assms unfolding read_sections_def
    by (simp only: redacting names) (intro alike_bind last)
qed

lemma redact_read_cluster:
  "transparent y \<Longrightarrow> alike (read_cluster y (redact_entries us m) identity at api_version version) (read_cluster y m identity at api_version version)"
  unfolding read_cluster_def by (intro alike_map redact_read_sections)

lemma alike_option: "(\<And>x. alike (f x) (g x)) \<Longrightarrow> alike (case v of None \<Rightarrow> m | Some x \<Rightarrow> f x) (case v of None \<Rightarrow> m | Some x \<Rightarrow> g x)"
  by (simp add: alike_refl split: option.split)

lemma redact_read_top:
  assumes "transparent y"
  shows "alike (read_top y (redact_entries us doc) identity root api_version) (read_top y doc identity root api_version)"
  using assms unfolding read_top_def Let_def
  by (simp add: redacting cong: option.case_cong) (intro alike_bind alike_option redact_read_cluster)

lemma redact_read_document:
  assumes "transparent y"
  shows "alike (read_document y (redact us document) identity root) (read_document y document identity root)"
proof -
  have branch: "alike m a \<Longrightarrow> alike (if b then c else m) (if b then c else a)" for b and c m a :: "config option reading"
    by (simp add: alike_refl)
  show ?thesis using assms unfolding read_document_def
    by (simp add: redacting cong: option.case_cong) (intro alike_bind alike_option branch redact_read_top)
qed

section \<open>What is said of unresolved variables\<close>

text \<open>The references of a value, read from what its cover keeps.\<close>

fun names_of :: "'n yaml list \<Rightarrow> string list" where
  "names_of [] = []"
| "names_of (YString s # vs) = s # names_of vs"
| "names_of (_ # vs) = names_of vs"

lemma names_of_map [simp]: "names_of (map YString ns) = ns"
  by (induction ns) auto

fun uncover :: "('n, 'f) yaml_lib \<Rightarrow> 'n yaml \<Rightarrow> path \<Rightarrow> (path \<times> string) list"
and uncover_items :: "('n, 'f) yaml_lib \<Rightarrow> nat \<Rightarrow> 'n yaml list \<Rightarrow> path \<Rightarrow> (path \<times> string) list"
and uncover_entries :: "('n, 'f) yaml_lib \<Rightarrow> 'n entries \<Rightarrow> path \<Rightarrow> (path \<times> string) list" where
  "uncover y (YTagged _ v) at = (case v of YSequence vs \<Rightarrow> map (\<lambda>name. (at, name)) (names_of vs) | _ \<Rightarrow> [])"
| "uncover y (YSequence vs) at = uncover_items y 0 vs at"
| "uncover y (YMapping m) at = uncover_entries y m at"
| "uncover y _ at = []"
| "uncover_items y i [] at = []"
| "uncover_items y i (v # vs) at = uncover y v (path_index at i) @ uncover_items y (Suc i) vs at"
| "uncover_entries y [] at = []"
| "uncover_entries y ((key, v) # m) at =
    uncover y v (case as_str y key of Some k \<Rightarrow> path_field at k | None \<Rightarrow> at) @ uncover_entries y m at"

lemma uncover_covered_items: "uncover y (covered_items vs) at = uncover_items y 0 vs at"
proof -
  have "uncover_items y i vs at = []" if "list_all (\<lambda>v. v = YNull) vs" for i
    using that by (induction vs arbitrary: i) auto
  then show ?thesis by (simp add: covered_items_def)
qed

lemma uncover_covered_entries: "uncover y (covered_entries m) at = uncover_entries y m at"
proof -
  have "uncover_entries y (filter (\<lambda>(k, v). v \<noteq> YNull) m) at = uncover_entries y m at" by (induction m) auto
  then show ?thesis by (auto simp: covered_entries_def split: list.split)
qed

lemma uncover_cover:
  "uncover y (cover us v) at = locate_references y us v at"
  "uncover_items y i (map (cover us) vs) at = locate_items y us i vs at"
  "uncover_entries y (map (\<lambda>(k, v). (k, cover us v)) m) at = locate_entries y us m at"
  by (induction y us v at and y us i vs at and y us m at rule: locate_references_locate_items_locate_entries.induct)
    (simp_all add: uncover_covered_items uncover_covered_entries names_in_def)

text \<open>So the references the loader locates in a document are a matter of the redacted document alone.\<close>

lemma locate_redacted:
  "redact us v = redact us v' \<Longrightarrow> locate_references y us v at = locate_references y us v' at"
  "redact_items us vs = redact_items us vs' \<Longrightarrow> locate_items y us i vs at = locate_items y us i vs' at"
  "redact_entries us m = redact_entries us m' \<Longrightarrow> locate_entries y us m at = locate_entries y us m' at"
proof (induction y us v at and y us i vs at and y us m at arbitrary: v' and vs' and m'
    rule: locate_references_locate_items_locate_entries.induct)
  case (2 y us vs at)
  from "2.prems" obtain ws where "v' = YSequence ws" "redact_items us vs = redact_items us ws" by (cases v') auto
  with "2.IH" [of ws] show ?case by simp
next
  case (3 y us m at)
  from "3.prems" obtain m' where "v' = YMapping m'" "redact_entries us m = redact_entries us m'" by (cases v') auto
  with "3.IH" [of m'] show ?case by simp
next
  case (4 y us t v at)
  from "4.prems" obtain w where "v' = YTagged t w" "redact us v = redact us w" by (cases v') auto
  with "4.IH" [of w] show ?case by simp
next
  case (9 y us i v vs at)
  from "9.prems" obtain w ws where "vs' = w # ws" "redact us v = redact us w" "redact_items us vs = redact_items us ws"
    by (cases vs') auto
  with "9.IH"(1) [of w] "9.IH"(2) [of ws] show ?case by simp
next
  case (11 y us key v m at)
  from "11.prems" obtain v' m'' where m': "m' = (key, v') # m''" "redact_entries us m = redact_entries us m''"
    by (cases m') auto
  have "locate_references y us v p = locate_references y us v' p" if "cover us v = cover us v'" for p
    using that uncover_cover(1) by metis
  moreover have "redact us v = redact us v' \<or> cover us v = cover us v'"
    using "11.prems" m'(1) by (auto split: yaml.splits if_splits)
  ultimately have "locate_references y us v p = locate_references y us v' p"
    if "p = (case as_str y key of Some k \<Rightarrow> path_field at k | None \<Rightarrow> at)" for p
    unfolding that using "11.IH"(1) [of v'] by blast
  with "11.IH"(2) [OF m'(2)] m'(1) show ?case by simp
next
  case (8 y us i at)
  then show ?case by (cases vs') simp_all
next
  case (10 y us at)
  then show ?case by (cases m') auto
qed (case_tac v'; simp)+

lemma redact_load_document:
  assumes "transparent y" "report_unresolved y d [] us = report_unresolved y d' [] us"
    "redact us d = redact us d'"
  shows "load_document y d us identity = Inl es \<longleftrightarrow> load_document y d' us identity = Inl es"
proof -
  let ?run = "\<lambda>d. run_state (do { report_unresolved y d [] us; read_document y d identity [] }) fresh_walk"
  have "alike (read_document y (redact us d) identity []) (read_document y e identity [])" if "redact us d = redact us e" for e
    unfolding that by (rule redact_read_document [OF assms(1)])
  from this [OF refl] this [OF assms(3)]
  have "alike (read_document y d identity []) (read_document y d' identity [])" by (auto simp: alike_def)
  then have "alike (do { report_unresolved y d [] us; read_document y d identity [] })
      (do { report_unresolved y d' [] us; read_document y d' identity [] })"
    unfolding assms(2) by (rule alike_bind)
  then have "snd (?run d) = snd (?run d') \<and> (fst (?run d) = None \<longleftrightarrow> fst (?run d') = None)" by (simp add: alike_def)
  then show ?thesis
    by (cases "?run d"; cases "?run d'"; cases "fst (?run d)"; cases "fst (?run d')") (auto simp: load_document_def Let_def)
qed

text \<open>C18. No secret reaches a refusal: two documents that differ only in what stands under a key that could carry a
  secret are refused with the very same reasons, so that nothing a refusal says was computed from a secret value.
  Where variables of the document could not be resolved, the refusals name each where it is used, also
  under such a key: there the two documents are to refer to the same unresolved variables in the same places,
  and still nothing else of what stands there shows.\<close>

theorem refusals_reveal_no_secret:
  assumes "transparent y" "redact us document = redact us document'" "load_document y document us identity = Inl es"
  shows "load_document y document' us identity = Inl es"
proof -
  have "report_unresolved y document [] us = report_unresolved y document' [] us"
    using locate_redacted(1) [OF assms(2), of y "[]"] by (simp add: report_unresolved_def)
  from redact_load_document [OF assms(1) this assms(2)] assms(3) show ?thesis by simp
qed

text \<open>A location store with its connection string in the document, part of which is a variable that is not set.\<close>

definition document_secret :: "string \<Rightarrow> u64 yaml" where
  "document_secret dsn = YMapping
    [(YString ''apiVersion'', YString API_VERSION), (YString ''version'', YNumber 3),
     (YString ''cluster'', YMapping
       [(YString ''name'', YString ''lab''), (YString ''environment'', YString ''test''),
        (YString ''locationStore'', YMapping [(YString ''backend'', YString ''memory''), (YString ''dsn'', YString dsn)])])]"

lemma document_secret_refused:
  "case load_document (library_sample YNull) (document_secret ''${DSN} a'') [''DSN''] node_sample of
     Inl es \<Rightarrow> (''CC-V4'', Some ''${DSN}'') \<in> set (map (\<lambda>e. (err_rule e, err_found e)) es) | Inr _ \<Rightarrow> False"
  by code_simp

lemma refusals_reveal_no_secret_witness:
  "\<exists>es. load_document (library_sample YNull) (document_secret ''${DSN} a'') [''DSN''] node_sample = Inl es
    \<and> load_document (library_sample YNull) (document_secret ''${DSN} b'') [''DSN''] node_sample = Inl es
    \<and> (''CC-V4'', Some ''${DSN}'') \<in> set (map (\<lambda>e. (err_rule e, err_found e)) es)"
proof -
  obtain es where es: "load_document (library_sample YNull) (document_secret ''${DSN} a'') [''DSN''] node_sample = Inl es"
      "(''CC-V4'', Some ''${DSN}'') \<in> set (map (\<lambda>e. (err_rule e, err_found e)) es)"
    using document_secret_refused by (auto split: sum.splits)
  have "transparent (library_sample YNull)"
    by (auto simp: transparent_def library_sample_def split: yaml.split)
  moreover have "redact [''DSN''] (document_secret ''${DSN} a'') = redact [''DSN''] (document_secret ''${DSN} b'')"
    by code_simp
  ultimately show ?thesis using refusals_reveal_no_secret es by blast
qed

end
