(* ===== verification/Reload.thy ===== *)
theory Reload imports Prelude Ascii Errors Document Config Cluster Shards Tenants Load begin

text \<open>
  \<^verbatim>\<open>reload\<close> of \<^verbatim>\<open>config/mod.rs\<close>: a new document judged against the active
  one, by the class of the sections that changed and by the rules for node ids and minting keys.
\<close>

section \<open>Reload\<close>

definition paths_or :: "path \<Rightarrow> path list \<Rightarrow> path list" where
  "paths_or at paths = (if paths = [] then [at] else paths)"

definition changed_fields :: "path \<Rightarrow> (string \<times> bool) list \<Rightarrow> path list" where
  "changed_fields at flags = map (\<lambda>(key, _). path_field at key) (filter snd flags)"

definition listener_changes :: "path \<Rightarrow> nat \<Rightarrow> listener_spec \<times> listener_spec \<Rightarrow> path list" where
  "listener_changes at i ba =
    (case ba of (before, after) \<Rightarrow>
      changed_fields (path_index at i)
        [(''roles'', ls_roles before \<noteq> ls_roles after), (''transport'', ls_transport before \<noteq> ls_transport after),
         (''bind'', ls_bind before \<noteq> ls_bind after), (''advertise'', ls_advertise before \<noteq> ls_advertise after)])"

definition rollout_paths :: "string \<Rightarrow> config \<Rightarrow> config \<Rightarrow> path \<Rightarrow> path list" where
  "rollout_paths section_name active new at =
    (if section_name = ''listener'' \<and> length (cf_listeners active) = length (cf_listeners new)
     then paths_or at (concat (map (\<lambda>(i, ba). listener_changes at i ba)
       (List.enumerate 0 (zip (cf_listeners active) (cf_listeners new)))))
     else if section_name = ''locationStore''
     then case (cf_location_store active, cf_location_store new) of
         (Some before, Some after) \<Rightarrow>
           paths_or at (changed_fields at
             [(''backend'', st_backend before \<noteq> st_backend after), (''dsnRef'', st_dsn_ref before \<noteq> st_dsn_ref after)])
       | _ \<Rightarrow> [at]
     else [at])"

definition check_id_reassignment :: "config \<Rightarrow> config \<Rightarrow> path \<Rightarrow> unit reading" where
  "check_id_reassignment active new cluster =
    (let at = path_field cluster ''membership'' in
     for_each 0 (cf_membership new) () (\<lambda>i member _.
       case List.find (\<lambda>held. mb_node held = mb_node member) (cf_membership active) of
         None \<Rightarrow> ret ()
       | Some previous \<Rightarrow>
           guarded (mb_name previous \<noteq> mb_name member)
             (refuse (path_field (path_index at i) ''node'') ''CC-I3''
               (Some (''id '' @ decimal (unat (mb_node member)) @ '' re-pointed from '' @ quote (mb_name previous)
                  @ '' to '' @ quote (mb_name member)))
               (''an id that still names what it named at the active version; a retired id waits ''
                @ ''max(L, E_max) + S before it names something else (cluster-membership '' @ sect @ ''7.2 RB11)''))))"

definition overlap_window :: "config \<Rightarrow> int" where
  "overlap_window new =
    (let expiries = map (\<lambda>t. int (unat (tp_max_expires (tn_policy t)))) (cf_tenants new);
         e_max = (if expiries = [] then int (unat (tp_max_expires default_tenant_policy)) else Max (set expiries))
     in max TOKEN_LIFETIME_SECONDS e_max + SKEW_ALLOWANCE_SECONDS)"

text \<open>The first entry of an enumerated list that meets a condition.\<close>

definition find_index :: "('a \<Rightarrow> bool) \<Rightarrow> 'a list \<Rightarrow> (nat \<times> 'a) option" where
  "find_index p xs = List.find (\<lambda>(_, x). p x) (List.enumerate 0 xs)"

definition check_mint_known :: "config \<Rightarrow> config \<Rightarrow> path \<Rightarrow> unit reading" where
  "check_mint_known active new at =
    (case find_index ky_mint (cf_keys new) of
       None \<Rightarrow> ret ()
     | Some (i, minting) \<Rightarrow>
         guarded (\<not> list_ex (\<lambda>held. ky_id held = ky_id minting) (cf_keys active))
           (refuse (path_field (path_index at i) ''mint'') ''CC-RL10''
             (Some (''key id '' @ decimal (unat (ky_id minting)) @ '' minting at version '' @ decimal (unat (cf_version new))
                @ '', absent from version '' @ decimal (unat (cf_version active))))
             (''a mint key already distributed at the active version; flipping mint to a key no peer ''
              @ ''holds produces records a healthy node cannot verify (affinity-token '' @ sect @ ''6 K1, K3)'')))"

definition check_mint_window :: "config \<Rightarrow> path \<Rightarrow> unit reading" where
  "check_mint_window new at =
    (case find_index ky_mint (cf_keys new) of
       None \<Rightarrow> ret ()
     | Some (i, minting) \<Rightarrow>
        (let window = overlap_window new; width = ky_verify_until minting - ky_verify_from minting in
         guarded (width < window)
           (refuse (path_field (path_index at i) ''verifyUntil'') ''CC-RL11''
             (Some (''a verify window of '' @ int_text width @ '' s for minting key id '' @ decimal (unat (ky_id minting))))
             (''a window at least max(L, E_max) + S = '' @ int_text window @ '' s wide; a key mints for as long ''
              @ ''as it is the mint key, and every record it mints must still verify that long ''
              @ ''afterwards (cluster-membership '' @ sect @ ''7.1 RB2, affinity-token '' @ sect @ ''6 K4)''))))"

definition check_outgoing_key :: "config \<Rightarrow> config \<Rightarrow> path \<Rightarrow> unit reading" where
  "check_outgoing_key active new at =
    (case List.find ky_mint (cf_keys active) of
       None \<Rightarrow> ret ()
     | Some outgoing \<Rightarrow>
        (case find_index (\<lambda>key. ky_id key = ky_id outgoing) (cf_keys new) of
           None \<Rightarrow> refuse at ''CC-RL11''
             (Some (''key id '' @ decimal (unat (ky_id outgoing)) @ '' removed while it was minting''))
             (''a document that keeps the outgoing mint key verify-valid for max(L, E_max) + S after ''
              @ ''the flip; retiring it sooner is a rolling restart (cluster-membership '' @ sect @ ''7.1 RB9)'')
         | Some (i, incoming) \<Rightarrow>
             guarded (ky_verify_until incoming < ky_verify_until outgoing)
               (refuse (path_field (path_index at i) ''verifyUntil'') ''CC-RL11''
                 (Some (''the verify window of key id '' @ decimal (unat (ky_id outgoing)) @ '' brought forward''))
                 (''a verifyUntil no earlier than the active version's; a key that stops verifying ''
                  @ ''early strands every record minted under it inside max(L, E_max) + S''))))"

definition check_key_transition :: "config \<Rightarrow> config \<Rightarrow> path \<Rightarrow> unit reading" where
  "check_key_transition active new cluster =
    (let at = path_field cluster ''keys'' in do {
      check_mint_known active new at;
      check_mint_window new at;
      check_outgoing_key active new at })"

text \<open>The sections either document has, in order, each with what became of it.\<close>

definition section_names :: "config \<Rightarrow> config \<Rightarrow> string list" where
  "section_names active new = fold insort_insert (map fst (cf_sections active) @ map fst (cf_sections new)) []"

definition section_changed :: "config \<Rightarrow> config \<Rightarrow> string \<Rightarrow> bool" where
  "section_changed active new section_name \<longleftrightarrow>
    map_of (cf_sections active) section_name \<noteq> map_of (cf_sections new) section_name"

definition judge_section :: "config \<Rightarrow> config \<Rightarrow> path \<Rightarrow> string \<Rightarrow> path list \<Rightarrow> path list reading" where
  "judge_section active new cluster section_name changed =
    (if \<not> section_changed active new section_name then ret changed
     else let at = path_field cluster section_name in
       case class_of_section section_name of
         Reloadable \<Rightarrow> ret (changed @ [at])
       | Rollout \<Rightarrow> do {
           for_each 0 (rollout_paths section_name active new at) () (\<lambda>_ at _.
             refuse at ''CC-RL2'' (Some ''a rollout-class change'')
               (''no change to a rollout-class field; applying one is a restart, staged by ''
                @ ''the operator (KO-8), and the node keeps running the active version''));
           ret changed })"

definition judge_reload :: "config \<Rightarrow> config \<Rightarrow> path list reading" where
  "judge_reload active new =
    (let cluster = path_field [] ''cluster'' in do {
      guarded (cf_version new \<le> cf_version active)
        (refuse (path_field [] ''version'') ''CC-D10'' (Some (decimal (unat (cf_version new))))
          (''a configuration version above the active '' @ decimal (unat (cf_version active))
           @ ''; a rollback is a new, higher version carrying the old content''));
      changed \<leftarrow> for_each 0 (section_names active new) [] (\<lambda>_ section_name changed.
        judge_section active new cluster section_name changed);
      check_id_reassignment active new cluster;
      check_key_transition active new cluster;
      ret changed })"

definition reload ::
  "('n, 'f) yaml_lib \<Rightarrow> config \<Rightarrow> bytes \<Rightarrow> node_identity \<Rightarrow> env \<Rightarrow> config_error list + config \<times> path list" where
  "reload y active bytes identity env =
    and_then (load y bytes identity env) (\<lambda>new.
      let (changed, w) = run_state (judge_reload active new) fresh_walk in
      if wk_errors w = [] then Inr (new, changed) else Inl (ordered (wk_errors w)))"

end
