(* ===== verification/Reloaded.thy ===== *)
theory Reloaded imports Prelude Ascii Errors Document Config Cluster Shards Tenants Load Loaded Reload begin

text \<open>
  When \<^verbatim>\<open>reload\<close> accepts a document: the conditions, written over the two
  configurations, that its checks amount to.
\<close>

section \<open>The checks are uniform\<close>

lemma uniform_check_id_reassignment [reader]: "uniform (check_id_reassignment active new cluster)"
  unfolding check_id_reassignment_def by (intro reader)

lemma uniform_check_mint_known [reader]: "uniform (check_mint_known active new at)"
  unfolding check_mint_known_def by (intro reader)

lemma uniform_check_mint_window [reader]: "uniform (check_mint_window new at)"
  unfolding check_mint_window_def by (intro reader)

lemma uniform_check_outgoing_key [reader]: "uniform (check_outgoing_key active new at)"
  unfolding check_outgoing_key_def by (intro reader)

lemma uniform_check_key_transition [reader]: "uniform (check_key_transition active new cluster)"
  unfolding check_key_transition_def by (intro reader)

lemma uniform_judge_section [reader]: "uniform (judge_section active new cluster s changed)"
  by (cases "class_of_section s") (auto simp: judge_section_def Let_def intro!: reader)

lemma uniform_judge_reload [reader]: "uniform (judge_reload active new)"
  unfolding judge_reload_def by (intro reader)

section \<open>Sections\<close>

definition changed_sections :: "config \<Rightarrow> config \<Rightarrow> string set" where
  "changed_sections active new =
    {s \<in> set (map fst (cf_sections active) @ map fst (cf_sections new)). section_changed active new s}"

lemma rollout_paths_nonempty: "rollout_paths s active new at \<noteq> []"
  by (auto simp: rollout_paths_def paths_or_def split: option.splits if_splits)

lemma clean_judge_section [clean_simps]:
  "clean (judge_section active new cluster s changed) r \<longleftrightarrow>
    (if section_changed active new s then class_of_section s = Reloadable \<and> r = changed @ [path_field cluster s] else r = changed)"
proof (cases "class_of_section s")
  case Rollout
  then show ?thesis using rollout_paths_nonempty [of s active new "path_field cluster s"]
    by (auto simp: judge_section_def Let_def clean_simps reader ex_unit clean_for_each_unit)
qed (auto simp: judge_section_def Let_def clean_simps)

lemma clean_judge_sections:
  "clean (for_each i ss changed (\<lambda>_ s changed. judge_section active new cluster s changed)) r \<longleftrightarrow>
    (\<forall>s \<in> set ss. section_changed active new s \<longrightarrow> class_of_section s = Reloadable)
    \<and> r = changed @ map (path_field cluster) (filter (section_changed active new) ss)"
  by (induction ss arbitrary: i changed) (auto simp: clean_simps reader)

lemma filter_sorted_set: "finite A \<Longrightarrow> filter P (sorted_list_of_set A) = sorted_list_of_set {x \<in> A. P x}" for A :: "'a::linorder set"
  by (rule sorted_distinct_set_unique) (auto intro: sorted_wrt_filter)

lemma changed_names:
  "filter (section_changed active new) (section_names active new) = sorted_list_of_set (changed_sections active new)"
  "set (section_names active new) = set (map fst (cf_sections active) @ map fst (cf_sections new))"
  by (simp_all add: section_names_def fold_insort_insert filter_sorted_set changed_sections_def del: fold_append)

section \<open>Node ids and keys\<close>

text \<open>Where the entries a condition picks agree, the first of them speaks for all.\<close>

lemma case_find_all:
  assumes "\<And>x z. x \<in> set xs \<Longrightarrow> z \<in> set xs \<Longrightarrow> P x \<Longrightarrow> P z \<Longrightarrow> Q x \<Longrightarrow> Q z"
  shows "(case List.find P xs of None \<Rightarrow> True | Some x \<Rightarrow> Q x) \<longleftrightarrow> (\<forall>x \<in> set xs. P x \<longrightarrow> Q x)"
proof (cases "List.find P xs")
  case None
  then show ?thesis using find_None_iff [of P xs] by auto
next
  case (Some x)
  then have "x \<in> set xs" "P x" by (auto simp: find_Some_iff)
  with assms have "Q x \<longleftrightarrow> (\<forall>x \<in> set xs. P x \<longrightarrow> Q x)" by blast
  with Some show ?thesis by simp
qed

lemma filter_one: "length (filter P xs) = 1 \<Longrightarrow> x \<in> set xs \<Longrightarrow> z \<in> set xs \<Longrightarrow> P x \<Longrightarrow> P z \<Longrightarrow> z = x"
proof -
  assume "length (filter P xs) = 1"
  then obtain v where "filter P xs = [v]" by (auto simp: length_Suc_conv)
  then have "set (filter P xs) = {v}" by (simp only: list.set)
  then have "x \<in> set xs \<Longrightarrow> P x \<Longrightarrow> x = v" for x unfolding set_filter by blast
  then show "x \<in> set xs \<Longrightarrow> z \<in> set xs \<Longrightarrow> P x \<Longrightarrow> P z \<Longrightarrow> z = x" by blast
qed

lemma find_index_find: "map_option snd (find_index P xs) = List.find P xs"
proof -
  have "map_option snd (List.find (\<lambda>(_, x). P x) (List.enumerate i xs)) = List.find P xs" for i
    by (induction xs arbitrary: i) auto
  then show ?thesis by (simp add: find_index_def)
qed

lemma case_find_index:
  "(case find_index P xs of None \<Rightarrow> a | Some (_, x) \<Rightarrow> f x) = (case List.find P xs of None \<Rightarrow> a | Some x \<Rightarrow> f x)"
  unfolding find_index_find [symmetric] by (cases "find_index P xs") auto

lemma clean_check_id [clean_simps]:
  assumes "distinct (map mb_node (cf_membership active))"
  shows "clean (check_id_reassignment active new cluster) u \<longleftrightarrow>
    (\<forall>m \<in> set (cf_membership active). \<forall>m' \<in> set (cf_membership new). mb_node m = mb_node m' \<longrightarrow> mb_name m = mb_name m')"
proof -
  have held: "(case List.find (\<lambda>held. mb_node held = n) (cf_membership active) of None \<Rightarrow> True | Some m \<Rightarrow> mb_name m = s) \<longleftrightarrow>
      (\<forall>m \<in> set (cf_membership active). mb_node m = n \<longrightarrow> mb_name m = s)" for n s
    by (rule case_find_all) (use assms in \<open>auto dest: inj_onD simp: distinct_map\<close>)
  have "clean (check_id_reassignment active new cluster) u \<longleftrightarrow>
      (\<forall>m' \<in> set (cf_membership new). case List.find (\<lambda>held. mb_node held = mb_node m') (cf_membership active) of
        None \<Rightarrow> True | Some m \<Rightarrow> mb_name m = mb_name m')"
    unfolding check_id_reassignment_def Let_def
    by (subst clean_for_each_unit) (auto simp: clean_simps reader all_set_conv_all_nth split: option.splits)
  then show ?thesis unfolding held by auto
qed

lemma keys_ok_mint: "keys_ok keys \<Longrightarrow> k \<in> set keys \<Longrightarrow> k' \<in> set keys \<Longrightarrow> ky_mint k \<Longrightarrow> ky_mint k' \<Longrightarrow> k' = k"
  unfolding keys_ok_def by (metis filter_one list.set_cases list.distinct(1))

lemma case_find_index_True:
  "(case find_index P xs of None \<Rightarrow> True | Some ix \<Rightarrow> Q (snd ix)) \<longleftrightarrow> (case List.find P xs of None \<Rightarrow> True | Some x \<Rightarrow> Q x)"
  unfolding find_index_find [symmetric] by (cases "find_index P xs") auto

lemma clean_check_mint_known [clean_simps]:
  assumes "keys_ok (cf_keys new)"
  shows "clean (check_mint_known active new at) u \<longleftrightarrow>
    (\<forall>k \<in> set (cf_keys new). ky_mint k \<longrightarrow> (\<exists>held \<in> set (cf_keys active). ky_id held = ky_id k))"
proof -
  have "clean (check_mint_known active new at) u \<longleftrightarrow>
      (case find_index ky_mint (cf_keys new) of None \<Rightarrow> True | Some ix \<Rightarrow> (\<exists>held \<in> set (cf_keys active). ky_id held = ky_id (snd ix)))"
    by (auto simp: check_mint_known_def clean_simps list_ex_iff split: option.split)
  then show ?thesis unfolding case_find_index_True [where Q = "\<lambda>k. \<exists>held \<in> set (cf_keys active). ky_id held = ky_id k"]
    by (subst (asm) case_find_all) (auto dest: keys_ok_mint [OF assms])
qed

lemma clean_check_mint_window [clean_simps]:
  assumes "keys_ok (cf_keys new)"
  shows "clean (check_mint_window new at) u \<longleftrightarrow>
    (\<forall>k \<in> set (cf_keys new). ky_mint k \<longrightarrow> overlap_window new \<le> ky_verify_until k - ky_verify_from k)"
proof -
  have "clean (check_mint_window new at) u \<longleftrightarrow>
      (case find_index ky_mint (cf_keys new) of None \<Rightarrow> True
       | Some ix \<Rightarrow> overlap_window new \<le> ky_verify_until (snd ix) - ky_verify_from (snd ix))"
    by (auto simp: check_mint_window_def Let_def clean_simps split: option.split)
  then show ?thesis unfolding case_find_index_True [where Q = "\<lambda>k. overlap_window new \<le> ky_verify_until k - ky_verify_from k"]
    by (subst (asm) case_find_all) (auto dest: keys_ok_mint [OF assms])
qed

text \<open>The outgoing minting key keeps verifying: the first entry of its id is there and does not end earlier.\<close>

definition keeps_verifying :: "key_spec \<Rightarrow> config \<Rightarrow> bool" where
  "keeps_verifying k new \<longleftrightarrow>
    (case List.find (\<lambda>k'. ky_id k' = ky_id k) (cf_keys new) of None \<Rightarrow> False | Some k' \<Rightarrow> ky_verify_until k \<le> ky_verify_until k')"

lemma clean_check_outgoing_key [clean_simps]:
  assumes "keys_ok (cf_keys active)"
  shows "clean (check_outgoing_key active new at) u \<longleftrightarrow> (\<forall>k \<in> set (cf_keys active). ky_mint k \<longrightarrow> keeps_verifying k new)"
proof -
  have "clean (check_outgoing_key active new at) u \<longleftrightarrow>
      (case List.find ky_mint (cf_keys active) of None \<Rightarrow> True | Some k \<Rightarrow> keeps_verifying k new)"
    by (auto simp: check_outgoing_key_def keeps_verifying_def find_index_find [symmetric] clean_simps split: option.split)
  also have "\<dots> \<longleftrightarrow> (\<forall>k \<in> set (cf_keys active). ky_mint k \<longrightarrow> keeps_verifying k new)"
    by (rule case_find_all) (auto dest: keys_ok_mint [OF assms])
  finally show ?thesis .
qed

section \<open>What reload accepts\<close>

lemma reload_clean:
  "reload y active bytes identity env = Inr (new, changed) \<longleftrightarrow>
    load y bytes identity env = Inr new \<and> clean (judge_reload active new) changed"
proof (cases "load y bytes identity env")
  case (Inr c)
  obtain paths w where run: "run_state (judge_reload active c) fresh_walk = (paths, w)" by (cases "run_state (judge_reload active c) fresh_walk")
  have w: "clean (judge_reload active c) paths \<longleftrightarrow> wk_errors w = []"
    using clean_run [OF uniform_judge_reload run] by (simp add: fresh_walk_def)
  have "clean (judge_reload active c) changed \<Longrightarrow> changed = paths" using run by (auto simp: clean_def)
  with run w Inr show ?thesis by (auto simp: reload_def and_then_def)
qed (simp add: reload_def and_then_def)

text \<open>C19. Reload accepts a document exactly when it loads, its version rises, every section that changed is one a
  running node may change, no node id is re-pointed, the minting key is one the peers already hold with a window wide
  enough for every record it mints, and the key it replaces keeps verifying; the plan then names the changed sections,
  each once and in order.\<close>

theorem reload_accepts_iff:
  assumes "config_ok active"
  shows "reload y active bytes identity env = Inr (new, changed) \<longleftrightarrow>
    load y bytes identity env = Inr new \<and> cf_version active < cf_version new
    \<and> (\<forall>s \<in> changed_sections active new. class_of_section s = Reloadable)
    \<and> (\<forall>m \<in> set (cf_membership active). \<forall>m' \<in> set (cf_membership new). mb_node m = mb_node m' \<longrightarrow> mb_name m = mb_name m')
    \<and> (\<forall>k \<in> set (cf_keys new). ky_mint k \<longrightarrow>
        (\<exists>held \<in> set (cf_keys active). ky_id held = ky_id k) \<and> overlap_window new \<le> ky_verify_until k - ky_verify_from k)
    \<and> (\<forall>k \<in> set (cf_keys active). ky_mint k \<longrightarrow> keeps_verifying k new)
    \<and> changed = map (path_field ''cluster'') (sorted_list_of_set (changed_sections active new))"
proof (cases "load y bytes identity env = Inr new")
  case True
  then have new: "config_ok new" by (rule load_cases) (auto dest: load_document_ok)
  have sections: "changed_sections active new = {s \<in> set (section_names active new). section_changed active new s}"
    by (auto simp: changed_sections_def changed_names)
  note ok = assms [unfolded config_ok_def membership_ok_def] new [unfolded config_ok_def]
  have judged: "clean (judge_reload active new) changed \<longleftrightarrow>
    cf_version active < cf_version new
    \<and> (\<forall>s \<in> set (section_names active new). section_changed active new s \<longrightarrow> class_of_section s = Reloadable)
    \<and> clean (check_id_reassignment active new ''cluster'') ()
    \<and> clean (check_mint_known active new ''cluster.keys'') ()
    \<and> clean (check_mint_window new ''cluster.keys'') ()
    \<and> clean (check_outgoing_key active new ''cluster.keys'') ()
    \<and> changed = map (path_field ''cluster'') (filter (section_changed active new) (section_names active new))"
    by (auto simp: judge_reload_def check_key_transition_def clean_simps clean_judge_sections reader ex_unit path_field_def [of "[]"]
        path_field_def [of "''cluster''" "''keys''"] not_le)
  have ids: "clean (check_id_reassignment active new at) () \<longleftrightarrow>
      (\<forall>m \<in> set (cf_membership active). \<forall>m' \<in> set (cf_membership new). mb_node m = mb_node m' \<longrightarrow> mb_name m = mb_name m')" for at
    by (rule clean_check_id) (use ok in blast)
  have keys: "keys_ok (cf_keys active)" "keys_ok (cf_keys new)" using ok by blast+
  show ?thesis
    unfolding reload_clean judged ids clean_check_mint_known [OF keys(2)] clean_check_mint_window [OF keys(2)]
      clean_check_outgoing_key [OF keys(1)] changed_names(1)
    using sections by blast
qed (simp add: reload_clean)

text \<open>The sample, published again with a security section.\<close>

definition document_next :: "u64 yaml" where
  "document_next = document_sample API_VERSION 4 [(YString ''security'', YMapping [])]"

lemma reload_sample:
  "case load_document (library_sample YNull) (document_sample API_VERSION 3 []) [] node_sample of
     Inl _ \<Rightarrow> False
   | Inr active \<Rightarrow> (case load_document (library_sample document_next) document_next [] node_sample of
       Inl _ \<Rightarrow> False
     | Inr new \<Rightarrow> cf_version active < cf_version new \<and> cf_membership active = [] \<and> cf_keys active = [] \<and> cf_keys new = []
         \<and> changed_sections active new = {''security''})"
  by code_simp

lemma reload_accepts_iff_witness:
  "\<exists>active new. config_ok active \<and> reload (library_sample document_next) active ''c'' node_sample (\<lambda>_. None) = Inr (new, [''cluster.security''])"
proof -
  obtain active new where active: "load_document (library_sample YNull) (document_sample API_VERSION 3 []) [] node_sample = Inr active"
    and new: "load_document (library_sample document_next) document_next [] node_sample = Inr new" "cf_version active < cf_version new"
      "cf_membership active = []" "cf_keys active = []" "cf_keys new = []" "changed_sections active new = {''security''}"
    using reload_sample by (auto split: sum.splits)
  have "config_ok active" using load_document_ok [OF active] by blast
  moreover have "load (library_sample document_next) ''c'' node_sample (\<lambda>_. None) = Inr new"
    using new(1) by (simp only: load_sample)
  ultimately show ?thesis using new(2-)
    by (intro exI [of _ active] exI [of _ new]) (simp add: reload_accepts_iff class_of_section_def RELOAD_CLASSES_def path_field_def)
qed

end
