(* ===== verification/Clock.thy ===== *)
theory Clock imports Prelude Ascii begin

text \<open>
  \<^verbatim>\<open>time.rs\<close> of \<^verbatim>\<open>crates/sipx-clstr-sim\<close>: virtual time, in nanoseconds since
  the scenario started.  A \<^verbatim>\<open>std::time::Duration\<close> is its number of nanoseconds, which
  does not fit a \<^verbatim>\<open>u64\<close> beyond 584 years.
\<close>

type_synonym sim_time = u64
type_synonym sim_duration = nat

definition SIM_START :: sim_time where
  "SIM_START = 0"

definition END_OF_TIME :: sim_time where
  "END_OF_TIME = - 1"

definition from_millis :: "u64 \<Rightarrow> sim_time" where
  "from_millis millis = saturating_mul millis 1000000"

definition from_secs :: "u64 \<Rightarrow> sim_time" where
  "from_secs secs = saturating_mul secs 1000000000"

text \<open>\<^verbatim>\<open>u64::try_from(nanos).unwrap_or(u64::MAX)\<close>.\<close>

definition clamp_nanos :: "sim_duration \<Rightarrow> u64" where
  "clamp_nanos d = (if d < 2 ^ 64 then of_nat d else - 1)"

definition sim_add :: "sim_time \<Rightarrow> sim_duration \<Rightarrow> sim_time" where
  "sim_add t d = saturating_add t (clamp_nanos d)"

definition since :: "sim_time \<Rightarrow> sim_time \<Rightarrow> sim_duration" where
  "since t earlier = unat (saturating_sub t earlier)"

text \<open>Seconds in seven columns, a point and six digits of microseconds.\<close>

fun zero_pad :: "nat \<Rightarrow> nat \<Rightarrow> string" where
  "zero_pad 0 n = []"
| "zero_pad (Suc w) n = zero_pad w (n div 10) @ [digit_char (n mod 10)]"

definition align_right :: "nat \<Rightarrow> string \<Rightarrow> string" where
  "align_right w s = replicate (w - length s) CHR '' '' @ s"

definition align_left :: "nat \<Rightarrow> string \<Rightarrow> string" where
  "align_left w s = s @ replicate (w - length s) CHR '' ''"

definition sim_time_text :: "sim_time \<Rightarrow> string" where
  "sim_time_text t =
    (let micros = unat t div 1000
     in align_right 7 (decimal (micros div 1000000)) @ ''.'' @ zero_pad 6 (micros mod 1000000))"

section \<open>Time does not run backwards\<close>

lemma unat_clamp: "unat (clamp_nanos d) = min d (2 ^ 64 - 1)"
  by (auto simp: clamp_nanos_def unat_max_word unat_of_nat take_bit_eq_mod)

lemma unat_sim_add: "unat (sim_add t d) = min (unat t + d) (2 ^ 64 - 1)"
  by (simp add: sim_add_def unat_saturating_add unat_clamp)

lemma sim_add_le [simp]: "t \<le> sim_add t d"
  by (simp add: sim_add_def le_saturating_add)

lemma sim_add_mono: "d \<le> d' \<Longrightarrow> sim_add t d \<le> sim_add t d'"
  by (simp add: word_le_nat_alt unat_sim_add)

lemma unat_end: "unat t < 2 ^ 64" for t :: u64
proof -
  have "unat t < 2 ^ LENGTH(64)" by (rule unsigned_less)
  then show ?thesis by simp
qed

lemma sim_time_eq: "t = t' \<longleftrightarrow> unat t = unat t'" for t t' :: u64
  by (rule word_unat_eq_iff)

lemma sim_add_zero [simp]: "sim_add t 0 = t"
  using unat_end [of t] by (simp add: sim_time_eq [of "sim_add t 0"] unat_sim_add)

lemma sim_add_since: "t \<le> t' \<Longrightarrow> sim_add t (since t' t) = t'"
  using unat_end [of t'] by (simp add: sim_time_eq [of _ t'] unat_sim_add since_def unat_saturating_sub word_le_nat_alt)

lemma since_none: "t \<le> earlier \<Longrightarrow> since t earlier = 0"
  by (simp add: since_def unat_saturating_sub word_le_nat_alt)

lemma end_of_time [simp]: "t \<le> END_OF_TIME"
  by (simp add: END_OF_TIME_def)

text \<open>A nanosecond later is later, short of the end of time.\<close>

lemma sim_add_later: "t \<noteq> END_OF_TIME \<Longrightarrow> 0 < d \<Longrightarrow> t < sim_add t d"
proof -
  assume "t \<noteq> END_OF_TIME" "0 < d"
  then have "unat t \<noteq> 2 ^ 64 - 1" unfolding END_OF_TIME_def sim_time_eq [of t] unat_max_word by simp
  then show "t < sim_add t d" using \<open>0 < d\<close> unat_end [of t] by (simp add: word_less_nat_alt unat_sim_add)
qed

lemma length_zero_pad [simp]: "length (zero_pad w n) = w"
  by (induction w arbitrary: n) auto

end
