(* ===== verification/Rng.thy ===== *)
theory Rng imports Complex_Main Prelude Clock begin

text \<open>
  \<^verbatim>\<open>rng.rs\<close> of \<^verbatim>\<open>crates/sipx-clstr-sim\<close>: named streams of random numbers from one
  seed.  A probability is a finite \<^verbatim>\<open>f64\<close>, which is a rational number; the draws it is compared
  with are multiples of \<open>2\<^sup>-\<^sup>5\<^sup>3\<close>, which a \<^verbatim>\<open>f64\<close> holds exactly.
\<close>

section \<open>The generator\<close>

definition rotate_left :: "nat \<Rightarrow> u64 \<Rightarrow> u64" where
  "rotate_left n x = push_bit n x OR drop_bit (64 - n) x"

text \<open>The new state and the mixed word.\<close>

definition split_mix64 :: "u64 \<Rightarrow> u64 \<times> u64" where
  "split_mix64 state =
    (let state = state + 0x9e3779b97f4a7c15;
         x = (state XOR drop_bit 30 state) * 0xbf58476d1ce4e5b9;
         x = (x XOR drop_bit 27 x) * 0x94d049bb133111eb
     in (x XOR drop_bit 31 x, state))"

record sim_rng =
  rng0 :: u64
  rng1 :: u64
  rng2 :: u64
  rng3 :: u64

definition from_seed :: "u64 \<Rightarrow> sim_rng" where
  "from_seed seed =
    (let (a, z) = split_mix64 seed; (b, z) = split_mix64 z; (c, z) = split_mix64 z; (d, z) = split_mix64 z
     in \<lparr>rng0 = a, rng1 = b, rng2 = c, rng3 = d\<rparr>)"

text \<open>FNV-1a over the bytes of a label.\<close>

definition hash_label :: "string \<Rightarrow> u64" where
  "hash_label label = fold (\<lambda>c hash. (hash XOR of_nat (of_char c)) * 0x100000001b3) label 0xcbf29ce484222325"

definition stream :: "u64 \<Rightarrow> string \<Rightarrow> sim_rng" where
  "stream master label = from_seed (master XOR hash_label label)"

definition next_u64 :: "sim_rng \<Rightarrow> u64 \<times> sim_rng" where
  "next_u64 r =
    (let s0 = rng0 r; s1 = rng1 r; s2 = rng2 r; s3 = rng3 r;
         result = rotate_left 7 (s1 * 5) * 9;
         t = push_bit 17 s1;
         s2 = s2 XOR s0;
         s3 = s3 XOR s1;
         s1 = s1 XOR s2;
         s0 = s0 XOR s3;
         s2 = s2 XOR t;
         s3 = rotate_left 45 s3
     in (result, \<lparr>rng0 = s0, rng1 = s1, rng2 = s2, rng3 = s3\<rparr>))"

section \<open>Draws\<close>

definition unit :: "sim_rng \<Rightarrow> rat \<times> sim_rng" where
  "unit r = (let (x, r) = next_u64 r in (of_nat (unat (drop_bit 11 x)) / 9007199254740992, r))"

definition chance :: "rat \<Rightarrow> sim_rng \<Rightarrow> bool \<times> sim_rng" where
  "chance probability r =
    (if probability \<le> 0 then (False, r)
     else if probability \<ge> 1 then (True, r)
     else let (x, r) = unit r in (x < probability, r))"

text \<open>The loop that draws again above the limit: none of its values is the result of a run that does not end.\<close>

definition draw_limit :: "u64 \<Rightarrow> u64" where
  "draw_limit bound = - 1 - (- 1) mod bound"

partial_function (option) draw_below :: "u64 \<Rightarrow> sim_rng \<Rightarrow> (u64 \<times> sim_rng) option" where
  "draw_below limit r = (case next_u64 r of (draw, r) \<Rightarrow> if draw < limit then Some (draw, r) else draw_below limit r)"

definition range_inclusive :: "u64 \<Rightarrow> u64 \<Rightarrow> sim_rng \<Rightarrow> (u64 \<times> sim_rng) option" where
  "range_inclusive low high r =
    (if high \<le> low then Some (low, r)
     else let span = high - low in
       if span = - 1 then Some (next_u64 r)
       else let bound = span + 1 in
         map_option (\<lambda>(draw, r). (low + draw mod bound, r)) (draw_below (draw_limit bound) r))"

text \<open>\<^verbatim>\<open>fill_bytes\<close>: little-endian words, the last one cut short.\<close>

definition le_bytes :: "u64 \<Rightarrow> u8 list" where
  "le_bytes x = map (\<lambda>i. ucast (drop_bit (8 * i) x)) [0..<8]"

fun fill_bytes :: "nat \<Rightarrow> sim_rng \<Rightarrow> u8 list \<times> sim_rng" where
  "fill_bytes n r =
    (if n = 0 then ([], r)
     else case next_u64 r of (x, r) \<Rightarrow>
       if n \<le> 8 then (take n (le_bytes x), r)
       else case fill_bytes (n - 8) r of (rest, r) \<Rightarrow> (le_bytes x @ rest, r))"

declare fill_bytes.simps [simp del]

definition next_u32 :: "sim_rng \<Rightarrow> u32 \<times> sim_rng" where
  "next_u32 r = (let (x, r) = next_u64 r in (ucast (drop_bit 32 x), r))"


section \<open>Reference values\<close>

text \<open>The published first output of SplitMix64, and xoshiro256** from the state 1, 2, 3, 4.\<close>

lemma split_mix_reference: "fst (split_mix64 0) = 0xe220a8397b1dcdaf"
  by code_simp

lemma xoshiro_reference:
  "next_u64 \<lparr>rng0 = 1, rng1 = 2, rng2 = 3, rng3 = 4\<rparr> = (11520, \<lparr>rng0 = 7, rng1 = 0, rng2 = 262146, rng3 = push_bit 45 6\<rparr>)"
  by code_simp

lemma generator_pinned: "fst (next_u64 (from_seed 0x5eed)) = 17236385663644093300"
  by code_simp

section \<open>Draws stay inside their bounds\<close>

lemma unit_bounds: "0 \<le> fst (unit r)" "fst (unit r) < 1"
proof -
  obtain x r' where x: "next_u64 r = (x, r')" by fastforce
  have "unat (drop_bit 11 x) < 9007199254740992"
    using unat_end [of x] by (simp add: drop_bit_eq_div unat_div_distrib div_less_iff_less_mult)
  then have "(of_nat (unat (drop_bit 11 x)) :: rat) < of_nat 9007199254740992" by (simp only: of_nat_less_iff)
  then show "0 \<le> fst (unit r)" "fst (unit r) < 1" by (simp_all add: unit_def x del: of_nat_unat)
qed

text \<open>A certain outcome draws nothing.\<close>

lemma chance_certain: "p \<le> 0 \<Longrightarrow> chance p r = (False, r)" "1 \<le> p \<Longrightarrow> chance p r = (True, r)"
  by (auto simp: chance_def)

lemma chance_possible: "fst (chance p r) \<Longrightarrow> 0 < p" "\<not> fst (chance p r) \<Longrightarrow> p < 1"
  by (auto simp: chance_def split: if_splits prod.splits)

lemma draw_below_less: "draw_below limit r = Some p \<Longrightarrow> fst p < limit"
  by (rule draw_below.raw_induct [where P = "\<lambda>limit r p. fst p < limit"]) (auto split: prod.splits if_splits)

lemma unat_span: "low \<le> high \<Longrightarrow> unat (high - low) = unat high - unat low" for low high :: u64
  by (rule unat_sub)

lemma whole_difference: "a - b = n \<Longrightarrow> a \<le> n \<Longrightarrow> 0 < n \<Longrightarrow> b = 0 \<and> a = n" for a b n :: nat
  by arith

lemma unat_bound:
  fixes low high :: u64
  assumes "low \<le> high" "high - low \<noteq> - 1"
  shows "unat (high - low + 1) = unat high - unat low + 1"
proof -
  have "unat (high - low) \<noteq> 2 ^ 64 - 1" using assms(2) unfolding sim_time_eq [of "high - low"] unat_max_word by simp
  then have "unat (high - low) + 1 < 2 ^ 64" using unat_end [of "high - low"] by linarith
  then show ?thesis using unat_span [OF assms(1)] by (subst unat_word_ariths) simp
qed

text \<open>A drawn value lies between the bounds it was asked for.\<close>

lemma range_within:
  assumes "range_inclusive low high r = Some (v, r')" "low \<le> high"
  shows "low \<le> v \<and> v \<le> high"
proof -
  consider (point) "high \<le> low" | (full) "high - low = - 1" | (part) "\<not> high \<le> low" "high - low \<noteq> - 1" by blast
  then show ?thesis
  proof cases
    case full
    then have "unat high - unat low = 2 ^ 64 - 1" using unat_span [OF assms(2)] by (simp add: unat_max_word)
    then have "unat low = 0 \<and> unat high = 2 ^ 64 - 1" using unat_end [of high] by (intro whole_difference) simp_all
    then show ?thesis using unat_end [of v] by (simp add: word_le_nat_alt)
  next
    case part
    define bound where "bound = high - low + 1"
    have bound: "unat bound = unat high - unat low + 1" unfolding bound_def by (rule unat_bound [OF assms(2) part(2)])
    obtain draw where v: "v = low + draw mod bound"
      using assms part by (auto simp: range_inclusive_def Let_def bound_def)
    have "unat (draw mod bound) < unat bound" using bound by (simp add: unat_mod_distrib)
    then have "unat low + unat (draw mod bound) \<le> unat high" using bound assms(2) by (simp add: word_le_nat_alt)
    moreover from this have "unat v = unat low + unat (draw mod bound)"
      unfolding v using unat_end [of high] by (subst unat_word_ariths) simp
    ultimately show ?thesis by (simp add: word_le_nat_alt)
  qed (use assms in \<open>auto simp: range_inclusive_def\<close>)
qed

text \<open>No value is preferred: below the limit every value of the range is the remainder of equally many draws.\<close>

lemma draw_limit_multiple: "bound \<noteq> 0 \<Longrightarrow> unat (draw_limit bound) mod unat bound = 0"
proof -
  have "(2 ^ 64 - 1 :: nat) mod unat bound \<le> 2 ^ 64 - 1" by (rule mod_less_eq_dividend)
  moreover have "unat ((- 1 :: u64) mod bound) = (2 ^ 64 - 1) mod unat bound" by (simp add: unat_mod_distrib unat_max_word)
  ultimately have "unat (draw_limit bound) = (2 ^ 64 - 1) - (2 ^ 64 - 1) mod unat bound"
    unfolding draw_limit_def by (subst unat_sub) (simp_all add: word_le_nat_alt unat_max_word)
  then show ?thesis by (simp add: minus_mod_eq_mult_div)
qed

lemma even_draws:
  fixes limit bound v :: nat
  assumes "limit mod bound = 0" "v < bound"
  shows "card {d. d < limit \<and> d mod bound = v} = limit div bound"
proof -
  have "{d. d < limit \<and> d mod bound = v} = (\<lambda>k. k * bound + v) ` {..< limit div bound}"
  proof (intro set_eqI iffI)
    fix d assume d: "d \<in> {d. d < limit \<and> d mod bound = v}"
    then have "d div bound < limit div bound" using assms by (auto simp: div_less_iff_less_mult)
    then show "d \<in> (\<lambda>k. k * bound + v) ` {..< limit div bound}" using d by (intro image_eqI [of _ _ "d div bound"]) auto
  next
    fix d assume "d \<in> (\<lambda>k. k * bound + v) ` {..< limit div bound}"
    then obtain k where k: "k < limit div bound" "d = k * bound + v" by auto
    then have "(k + 1) * bound \<le> limit div bound * bound" by (intro mult_le_mono1) simp
    then show "d \<in> {d. d < limit \<and> d mod bound = v}" using k(2) assms by auto
  qed
  moreover have "inj_on (\<lambda>k. k * bound + v) {..< limit div bound}" using assms(2) by (auto intro: inj_onI)
  ultimately show ?thesis by (simp add: card_image)
qed

text \<open>A draw is fair: what is drawn from a range lies in it, and among the draws that are not rejected every value
  of the range is the result of equally many.\<close>

theorem range_is_fair:
  assumes "low < high" "high - low \<noteq> - 1"
  shows "(\<forall>v r'. range_inclusive low high r = Some (v, r') \<longrightarrow> low \<le> v \<and> v \<le> high)
    \<and> (\<forall>v \<in> {low .. high}. card {draw. draw < draw_limit (high - low + 1) \<and> low + draw mod (high - low + 1) = v} =
        unat (draw_limit (high - low + 1)) div unat (high - low + 1))"
proof (intro conjI allI impI ballI)
  fix v r' assume "range_inclusive low high r = Some (v, r')"
  then show "low \<le> v" "v \<le> high" using range_within assms(1) by (auto simp: order.strict_implies_order)
next
  fix v assume v: "v \<in> {low .. high}"
  define bound where "bound = high - low + 1"
  define limit where "limit = draw_limit bound"
  have bound: "unat bound = unat high - unat low + 1" unfolding bound_def using unat_bound assms by simp
  have place: "low + draw mod bound = v \<longleftrightarrow> unat draw mod unat bound = unat (v - low)" for draw
  proof -
    have "low + draw mod bound = v \<longleftrightarrow> draw mod bound = v - low" by (auto simp: algebra_simps)
    then show ?thesis by (simp add: word_unat_eq_iff [of "draw mod bound"] unat_mod_distrib)
  qed
  have draws: "{draw. draw < limit \<and> low + draw mod bound = v} = {draw. unat draw < unat limit \<and> unat draw mod unat bound = unat (v - low)}"
    unfolding place word_less_nat_alt ..
  have "unat ` {draw :: u64. unat draw < unat limit \<and> unat draw mod unat bound = unat (v - low)} = {d. d < unat limit \<and> d mod unat bound = unat (v - low)}"
  proof (intro set_eqI iffI)
    fix d assume d: "d \<in> {d. d < unat limit \<and> d mod unat bound = unat (v - low)}"
    then have "unat (of_nat d :: u64) = d" using unat_end [of limit] by (simp add: unat_of_nat take_bit_eq_mod)
    then obtain w :: u64 where w: "d = unat w" by metis
    show "d \<in> unat ` {draw :: u64. unat draw < unat limit \<and> unat draw mod unat bound = unat (v - low)}"
      unfolding w by (rule imageI) (use d w in simp)
  qed auto
  then have "card {draw. draw < limit \<and> low + draw mod bound = v} = card {d. d < unat limit \<and> d mod unat bound = unat (v - low)}"
    unfolding draws using card_image [of unat "{draw :: u64. unat draw < unat limit \<and> unat draw mod unat bound = unat (v - low)}"]
    by (simp only: inj_on_def word_unat_eq_iff simp_thms ball_simps HOL.implies_True_equals Ball_def)
  also have "\<dots> = unat limit div unat bound"
  proof (rule even_draws)
    show "unat limit mod unat bound = 0" unfolding limit_def using bound by (intro draw_limit_multiple) auto
    show "unat (v - low) < unat bound" using v bound unat_span [of low v] by (auto simp: word_le_nat_alt)
  qed
  finally show "card {draw. draw < draw_limit (high - low + 1) \<and> low + draw mod (high - low + 1) = v} =
    unat (draw_limit (high - low + 1)) div unat (high - low + 1)" by (simp add: limit_def bound_def)
qed

lemma range_is_fair_witness:
  "card {draw. draw < draw_limit (8 - 5 + 1) \<and> 5 + draw mod (8 - 5 + 1) = 6} = unat (draw_limit (8 - 5 + 1)) div unat (8 - 5 + 1 :: u64)"
proof -
  have "(5 :: u64) < 8" "(8 :: u64) - 5 \<noteq> - 1" "(6 :: u64) \<in> {5 .. 8}" by simp_all
  with range_is_fair [of 5 8 "from_seed 0"] show ?thesis by blast
qed

end
