(* ===== verification/Event_Queue.thy ===== *)
theory Event_Queue imports Prelude Clock "HOL-Library.Product_Lexorder" begin

text \<open>
  \<^verbatim>\<open>queue.rs\<close> of \<^verbatim>\<open>crates/sipx-clstr-sim\<close>: the discrete-event queue, and the agenda it
  implements, a list of things to happen in the order they will.  A \<^verbatim>\<open>BinaryHeap\<close> is the bag
  of its items, whose greatest one is on top.
\<close>

section \<open>The agenda\<close>

text \<open>Something new happens after everything that is due no later.\<close>

fun agenda_insert :: "sim_time \<Rightarrow> 'a \<Rightarrow> (sim_time \<times> 'a) list \<Rightarrow> (sim_time \<times> 'a) list" where
  "agenda_insert at p [] = [(at, p)]"
| "agenda_insert at p ((t, x) # rest) = (if t \<le> at then (t, x) # agenda_insert at p rest else (at, p) # (t, x) # rest)"

text \<open>What a client of the queue relies on: every operation is one of the agenda.\<close>

locale event_queue =
  fixes empty :: 'q
    and insert_at :: "sim_time \<Rightarrow> 'a \<Rightarrow> 'q \<Rightarrow> 'q"
    and front :: "'q \<Rightarrow> (sim_time \<times> 'a) option"
    and take_front :: "'q \<Rightarrow> ((sim_time \<times> 'a) \<times> 'q) option"
    and agenda :: "'q \<Rightarrow> (sim_time \<times> 'a) list"
    and valid :: "'q \<Rightarrow> bool"
    and room :: "'q \<Rightarrow> bool"
  assumes agenda_empty: "agenda empty = []"
    and valid_empty: "valid empty"
    and agenda_insert_at: "valid q \<Longrightarrow> room q \<Longrightarrow> agenda (insert_at at p q) = agenda_insert at p (agenda q)"
    and valid_insert_at: "valid q \<Longrightarrow> room q \<Longrightarrow> valid (insert_at at p q)"
    and agenda_front: "valid q \<Longrightarrow> front q = (case agenda q of [] \<Rightarrow> None | e # _ \<Rightarrow> Some e)"
    and agenda_take: "valid q \<Longrightarrow> take_front q = Some (e, q') \<Longrightarrow> agenda q = e # agenda q'"
    and valid_take: "valid q \<Longrightarrow> take_front q = Some (e, q') \<Longrightarrow> valid q'"
    and take_none: "valid q \<Longrightarrow> take_front q = None \<longleftrightarrow> agenda q = []"
begin

text \<open>What happens in a number of steps is the beginning of the agenda.\<close>

fun drain :: "nat \<Rightarrow> 'q \<Rightarrow> (sim_time \<times> 'a) list" where
  "drain 0 q = []"
| "drain (Suc n) q = (case take_front q of None \<Rightarrow> [] | Some (e, q') \<Rightarrow> e # drain n q')"

lemma drain_agenda: "valid q \<Longrightarrow> drain n q = take n (agenda q)"
proof (induction n arbitrary: q)
  case (Suc n)
  show ?case
  proof (cases "take_front q")
    case None
    with Suc.prems show ?thesis by (simp add: take_none [OF Suc.prems, symmetric])
  next
    case (Some ep)
    then obtain e q' where ep: "take_front q = Some (e, q')" by (cases ep) auto
    with Suc.IH [OF valid_take [OF Suc.prems ep]] agenda_take [OF Suc.prems ep] show ?thesis by simp
  qed
qed simp

end

lemma set_agenda_insert [simp]: "set (agenda_insert at p xs) = insert (at, p) (set xs)"
  by (induction at p xs rule: agenda_insert.induct) auto

lemma sorted_agenda_insert: "sorted (map fst xs) \<Longrightarrow> sorted (map fst (agenda_insert at p xs))"
  by (induction at p xs rule: agenda_insert.induct) (auto intro: order.trans)

lemma length_agenda_insert [simp]: "length (agenda_insert at p xs) = Suc (length xs)"
  by (induction at p xs rule: agenda_insert.induct) auto

text \<open>Things due at the same instant keep the order they were scheduled in.\<close>

lemma agenda_insert_last: "\<forall>e \<in> set xs. fst e \<le> at \<Longrightarrow> agenda_insert at p xs = xs @ [(at, p)]"
  by (induction xs) auto

section \<open>The queue\<close>

record 'a scheduled =
  sc_at :: sim_time
  sc_seq :: u64
  sc_payload :: 'a

record 'a event_heap =
  eq_heap :: "'a scheduled list"
  eq_next_seq :: u64

text \<open>The inverted order: the earlier item is the greater one.\<close>

definition sc_le :: "'a scheduled \<Rightarrow> 'a scheduled \<Rightarrow> bool" where
  "sc_le a b \<longleftrightarrow> sc_at b < sc_at a \<or> (sc_at b = sc_at a \<and> sc_seq b \<le> sc_seq a)"

text \<open>\<^verbatim>\<open>BinaryHeap::pop\<close> and \<^verbatim>\<open>peek\<close>: a greatest item, and the rest.\<close>

fun heap_pop :: "'a scheduled list \<Rightarrow> ('a scheduled \<times> 'a scheduled list) option" where
  "heap_pop [] = None"
| "heap_pop (x # xs) =
    (case heap_pop xs of
       None \<Rightarrow> Some (x, [])
     | Some (top_item, rest) \<Rightarrow> if sc_le top_item x then Some (x, xs) else Some (top_item, x # rest))"

definition queue_new :: "'a event_heap" where
  "queue_new = \<lparr>eq_heap = [], eq_next_seq = 0\<rparr>"

text \<open>\<^verbatim>\<open>schedule_at\<close> also returns the sequence number it gave out, \<open>eq_next_seq q\<close>; nothing in the crate reads it.\<close>

definition schedule_at :: "sim_time \<Rightarrow> 'a \<Rightarrow> 'a event_heap \<Rightarrow> 'a event_heap" where
  "schedule_at at payload q =
    \<lparr>eq_heap = \<lparr>sc_at = at, sc_seq = eq_next_seq q, sc_payload = payload\<rparr> # eq_heap q, eq_next_seq = eq_next_seq q + 1\<rparr>"

definition schedule_after :: "sim_time \<Rightarrow> sim_duration \<Rightarrow> 'a \<Rightarrow> 'a event_heap \<Rightarrow> 'a event_heap" where
  "schedule_after now after payload q = schedule_at (sim_add now after) payload q"

definition queue_pop :: "'a event_heap \<Rightarrow> ((sim_time \<times> 'a) \<times> 'a event_heap) option" where
  "queue_pop q = map_option (\<lambda>(s, rest). ((sc_at s, sc_payload s), q\<lparr>eq_heap := rest\<rparr>)) (heap_pop (eq_heap q))"

definition next_deadline :: "'a event_heap \<Rightarrow> sim_time option" where
  "next_deadline q = map_option (\<lambda>(s, _). sc_at s) (heap_pop (eq_heap q))"

definition queue_peek :: "'a event_heap \<Rightarrow> 'a option" where
  "queue_peek q = map_option (\<lambda>(s, _). sc_payload s) (heap_pop (eq_heap q))"

definition queue_len :: "'a event_heap \<Rightarrow> nat" where
  "queue_len q = length (eq_heap q)"

definition queue_is_empty :: "'a event_heap \<Rightarrow> bool" where
  "queue_is_empty q \<longleftrightarrow> eq_heap q = []"

section \<open>The queue implements the agenda\<close>

definition sc_key :: "'a scheduled \<Rightarrow> sim_time \<times> u64" where
  "sc_key s = (sc_at s, sc_seq s)"

definition queue_agenda :: "'a event_heap \<Rightarrow> (sim_time \<times> 'a) list" where
  "queue_agenda q = map (\<lambda>s. (sc_at s, sc_payload s)) (sort_key sc_key (eq_heap q))"

text \<open>No two items share a sequence number, and all of them were given out already.\<close>

definition queue_valid :: "'a event_heap \<Rightarrow> bool" where
  "queue_valid q \<longleftrightarrow> distinct (map sc_seq (eq_heap q)) \<and> (\<forall>s \<in> set (eq_heap q). sc_seq s < eq_next_seq q)"

text \<open>A sequence number is left to give out.\<close>

definition queue_room :: "'a event_heap \<Rightarrow> bool" where
  "queue_room q \<longleftrightarrow> eq_next_seq q \<noteq> - 1"

definition queue_front :: "'a event_heap \<Rightarrow> (sim_time \<times> 'a) option" where
  "queue_front q = (case (next_deadline q, queue_peek q) of (Some at, Some p) \<Rightarrow> Some (at, p) | _ \<Rightarrow> None)"

lemma sc_le_key: "sc_le a b \<longleftrightarrow> sc_key b \<le> sc_key a"
  by (auto simp: sc_le_def sc_key_def less_eq_prod_def)

lemma heap_pop_None: "heap_pop xs = None \<longleftrightarrow> xs = []"
  by (cases xs) (auto split: option.splits if_splits)

text \<open>With distinct keys, what is popped is the head of the sorted items and what is left their tail.\<close>

lemma heap_pop_greatest:
  "heap_pop xs = Some (s, rest) \<Longrightarrow> mset xs = add_mset s (mset rest) \<and> (\<forall>x \<in> set rest. sc_key s \<le> sc_key x)"
proof (induction xs arbitrary: s rest)
  case (Cons x xs)
  show ?case
  proof (cases "heap_pop xs")
    case None
    with Cons.prems show ?thesis by (simp add: heap_pop_None)
  next
    case (Some tr)
    then obtain t r where tr: "heap_pop xs = Some (t, r)" by (cases tr) auto
    note IH = Cons.IH [OF tr]
    then have "set xs = insert t (set r)" by (metis set_mset_add_mset_insert set_mset_mset)
    with IH Cons.prems tr show ?thesis by (auto simp: sc_le_key split: if_splits intro: order.trans)
  qed
qed simp

lemma sort_key_unique:
  assumes "distinct (map f xs)" "mset ys = mset xs" "sorted (map f ys)"
  shows "sort_key f xs = ys"
proof (rule map_sorted_distinct_set_unique)
  have "mset (map f ys) = mset (map f xs)" using assms(2) by simp
  then show "distinct (map f ys)" using assms(1) by (metis mset_eq_imp_distinct_iff)
  have "mset (map f (sort_key f xs)) = mset (map f xs)" by simp
  then show "distinct (map f (sort_key f xs))" using assms(1) by (metis mset_eq_imp_distinct_iff)
  show "inj_on f (set (sort_key f xs) \<union> set ys)"
    using assms(1) mset_eq_setD [OF assms(2)] by (simp add: distinct_map)
qed (use assms mset_eq_setD [OF assms(2)] in auto)

lemma sort_key_empty: "sort_key f xs = [] \<longleftrightarrow> xs = []"
  by (metis length_0_conv length_sort)

lemma heap_pop_sorted:
  assumes "distinct (map sc_key xs)" "heap_pop xs = Some (s, rest)"
  shows "sort_key sc_key xs = s # sort_key sc_key rest"
  using assms heap_pop_greatest [OF assms(2)] by (intro sort_key_unique) auto

lemma insort_agenda:
  assumes "\<forall>y \<in> set ys. sc_seq y < sc_seq s"
  shows "map (\<lambda>s. (sc_at s, sc_payload s)) (insort_key sc_key s ys) =
    agenda_insert (sc_at s) (sc_payload s) (map (\<lambda>s. (sc_at s, sc_payload s)) ys)"
  using assms by (induction ys) (auto simp: sc_key_def less_eq_prod_def)

lemma valid_keys: "queue_valid q \<Longrightarrow> distinct (map sc_key (eq_heap q))"
  by (auto simp: queue_valid_def distinct_map sc_key_def inj_on_def)

lemma next_seq_less:
  assumes "queue_room q"
  shows "eq_next_seq q < eq_next_seq q + 1" "n < eq_next_seq q \<Longrightarrow> n < eq_next_seq q + 1"
proof -
  have "unat (eq_next_seq q) \<noteq> 2 ^ 64 - 1"
    using assms unfolding queue_room_def sim_time_eq [of "eq_next_seq q"] unat_max_word by simp
  then have "unat (eq_next_seq q) + 1 < 2 ^ 64" using unat_end [of "eq_next_seq q"] by linarith
  then have "unat (eq_next_seq q + 1) = unat (eq_next_seq q) + 1" by (subst unat_word_ariths) simp
  then show "eq_next_seq q < eq_next_seq q + 1" "n < eq_next_seq q \<Longrightarrow> n < eq_next_seq q + 1"
    by (simp_all add: word_less_nat_alt)
qed

lemma heap_pop_kept:
  assumes "heap_pop xs = Some (s, rest)"
  shows "set xs = insert s (set rest)" "distinct (map f xs) \<Longrightarrow> distinct (map f rest)"
proof -
  have m: "mset xs = mset (s # rest)" using heap_pop_greatest [OF assms] by simp
  from mset_eq_setD [OF m] show "set xs = insert s (set rest)" by simp
  have "mset (map f xs) = mset (map f (s # rest))" using m by simp
  then show "distinct (map f xs) \<Longrightarrow> distinct (map f rest)" by (metis mset_eq_imp_distinct_iff distinct.simps(2) list.simps(9))
qed

interpretation heap_queue: event_queue queue_new schedule_at queue_front queue_pop queue_agenda queue_valid queue_room
proof
  fix q :: "'a event_heap" and at p and e :: "sim_time \<times> 'a" and q'
  show "queue_agenda (queue_new :: 'a event_heap) = []" by (simp add: queue_agenda_def queue_new_def)
  show "queue_valid (queue_new :: 'a event_heap)" by (simp add: queue_valid_def queue_new_def)
  show "queue_valid q \<Longrightarrow> queue_room q \<Longrightarrow> queue_agenda (schedule_at at p q) = agenda_insert at p (queue_agenda q)"
    using insort_agenda [of "sort_key sc_key (eq_heap q)" "\<lparr>sc_at = at, sc_seq = eq_next_seq q, sc_payload = p\<rparr>"]
    by (simp add: queue_agenda_def schedule_at_def queue_valid_def)
  show "queue_valid q \<Longrightarrow> queue_room q \<Longrightarrow> queue_valid (schedule_at at p q)"
    by (auto simp: queue_valid_def schedule_at_def next_seq_less)
  show "queue_valid q \<Longrightarrow> queue_front q = (case queue_agenda q of [] \<Rightarrow> None | e # _ \<Rightarrow> Some e)"
    using heap_pop_sorted [OF valid_keys, of q]
    by (cases "heap_pop (eq_heap q)") (auto simp: queue_front_def next_deadline_def queue_peek_def queue_agenda_def heap_pop_None)
  show "queue_valid q \<Longrightarrow> queue_pop q = Some (e, q') \<Longrightarrow> queue_agenda q = e # queue_agenda q'"
    using heap_pop_sorted [OF valid_keys, of q] by (auto simp: queue_pop_def queue_agenda_def)
  show "queue_valid q \<Longrightarrow> queue_pop q = Some (e, q') \<Longrightarrow> queue_valid q'"
    by (auto simp: queue_pop_def queue_valid_def heap_pop_kept)
  show "queue_valid q \<Longrightarrow> queue_pop q = None \<longleftrightarrow> queue_agenda q = []"
    by (simp add: queue_pop_def queue_agenda_def heap_pop_None sort_key_empty)
qed

section \<open>What the scheduler relies on\<close>

lemma agenda_sorted: "sorted (map fst (queue_agenda q))"
proof -
  have "sorted (map sc_key (sort_key sc_key (eq_heap q)))" by simp
  then have "sorted (map (fst \<circ> sc_key) (sort_key sc_key (eq_heap q)))"
    by (auto simp: sorted_map elim!: sorted_wrt_mono_rel [rotated] simp: sc_key_def less_eq_prod_def)
  then show ?thesis by (simp add: queue_agenda_def comp_def sc_key_def)
qed

text \<open>C27. The heap refines the agenda: scheduling inserts after everything due no later, the front and the pop are the
  head, what is left is the tail, the length agrees, and draining the queue yields the agenda, in the order of the
  deadlines with equal deadlines in the order they were scheduled, whatever shape the heap has.\<close>

theorem queue_refines_agenda:
  assumes "queue_valid q" "queue_room q"
  shows "queue_agenda (schedule_at at p q) = agenda_insert at p (queue_agenda q) \<and> queue_valid (schedule_at at p q)
    \<and> (queue_pop q = None \<longleftrightarrow> queue_agenda q = [])
    \<and> (\<forall>e q'. queue_pop q = Some (e, q') \<longrightarrow> queue_agenda q = e # queue_agenda q' \<and> queue_valid q')
    \<and> next_deadline q = map_option fst (get_at (queue_agenda q) 0) \<and> queue_peek q = map_option snd (get_at (queue_agenda q) 0)
    \<and> queue_len q = length (queue_agenda q) \<and> heap_queue.drain n q = take n (queue_agenda q)
    \<and> sorted (map fst (queue_agenda q))"
proof -
  have "next_deadline q = map_option fst (get_at (queue_agenda q) 0) \<and> queue_peek q = map_option snd (get_at (queue_agenda q) 0)"
    using heap_pop_sorted [OF valid_keys, of q] assms(1)
    by (cases "heap_pop (eq_heap q)") (auto simp: next_deadline_def queue_peek_def queue_agenda_def get_at_def heap_pop_None)
  moreover have "queue_len q = length (queue_agenda q)" by (simp add: queue_len_def queue_agenda_def)
  ultimately show ?thesis
    using heap_queue.agenda_insert_at [OF assms] heap_queue.valid_insert_at [OF assms] heap_queue.take_none [OF assms(1)]
      heap_queue.agenda_take [OF assms(1)] heap_queue.valid_take [OF assms(1)] heap_queue.drain_agenda [OF assms(1)] agenda_sorted
    by simp
qed

text \<open>Three things, two of them at the same instant.\<close>

definition queue_sample :: "string event_heap" where
  "queue_sample = schedule_at 7 ''second'' (schedule_at 9 ''last'' (schedule_at 7 ''first'' queue_new))"

lemma queue_refines_agenda_witness:
  "heap_queue.drain 2 queue_sample = [(7, ''first''), (7, ''second'')]"
proof -
  have "queue_valid queue_sample" "queue_room queue_sample"
    by (simp_all add: queue_valid_def queue_room_def queue_sample_def schedule_at_def queue_new_def)
  moreover have "queue_agenda queue_sample = [(7, ''first''), (7, ''second''), (9, ''last'')]"
    by (simp add: queue_agenda_def queue_sample_def schedule_at_def queue_new_def sc_key_def)
  ultimately show ?thesis using queue_refines_agenda [of queue_sample] by simp
qed

end
