(* ===== verification/Network.thy ===== *)
theory Network imports Complex_Main Prelude Ascii Clock Rng begin

text \<open>
  \<^verbatim>\<open>net.rs\<close> of \<^verbatim>\<open>crates/sipx-clstr-sim\<close>: what a link does to a message.  A draw from a
  latency is an option, because the rejection loop behind it is not known to end.
\<close>

section \<open>Links\<close>

type_synonym node_id = nat

definition node_id_text :: "node_id \<Rightarrow> string" where
  "node_id_text n = CHR ''n'' # decimal n"

datatype latency = ConstantLatency sim_duration | UniformLatency sim_duration sim_duration

definition INSTANT :: latency where
  "INSTANT = ConstantLatency 0"

definition uniform_ms :: "u64 \<Rightarrow> u64 \<Rightarrow> latency" where
  "uniform_ms lo hi = UniformLatency (unat lo * 1000000) (unat hi * 1000000)"

definition sample_latency :: "latency \<Rightarrow> sim_rng \<Rightarrow> (sim_duration \<times> sim_rng) option" where
  "sample_latency lat rng =
    (case lat of
       ConstantLatency delay \<Rightarrow> Some (delay, rng)
     | UniformLatency lo hi \<Rightarrow>
         map_option (\<lambda>(n, rng). (unat n, rng)) (range_inclusive (clamp_nanos lo) (clamp_nanos hi) rng))"

definition is_deterministic :: "latency \<Rightarrow> bool" where
  "is_deterministic lat = (case lat of ConstantLatency _ \<Rightarrow> True | UniformLatency lo hi \<Rightarrow> lo \<ge> hi)"

record link_policy =
  lp_loss :: rat
  lp_duplicate :: rat
  lp_latency :: latency
  lp_partitioned :: bool

definition CLEAN :: link_policy where
  "CLEAN = \<lparr>lp_loss = 0, lp_duplicate = 0, lp_latency = INSTANT, lp_partitioned = False\<rparr>"

definition jittery :: "u64 \<Rightarrow> u64 \<Rightarrow> link_policy" where
  "jittery lo hi = CLEAN\<lparr>lp_latency := uniform_ms lo hi\<rparr>"

definition with_loss :: "rat \<Rightarrow> link_policy \<Rightarrow> link_policy" where
  "with_loss loss p = p\<lparr>lp_loss := loss\<rparr>"

definition with_duplication :: "rat \<Rightarrow> link_policy \<Rightarrow> link_policy" where
  "with_duplication duplicate p = p\<lparr>lp_duplicate := duplicate\<rparr>"

datatype link_kind = DatagramLink | StreamLink

datatype delivery = DeliverOnce sim_duration | DeliverTwice sim_duration sim_duration | DeliverDropped | DeliverBroken

record link =
  lk_kind :: link_kind
  lk_policy :: link_policy
  lk_rng :: sim_rng
  lk_last_arrival :: "sim_time option"

definition link_new :: "link_kind \<Rightarrow> link_policy \<Rightarrow> u64 \<Rightarrow> string \<Rightarrow> link" where
  "link_new kind policy master_seed label =
    \<lparr>lk_kind = kind, lk_policy = policy, lk_rng = stream master_seed label, lk_last_arrival = None\<rparr>"

definition cut_outcome :: "link \<Rightarrow> delivery" where
  "cut_outcome l = (case lk_kind l of DatagramLink \<Rightarrow> DeliverDropped | StreamLink \<Rightarrow> DeliverBroken)"

text \<open>A probability that only a datagram link draws for.\<close>

definition datagram_chance :: "link_kind \<Rightarrow> rat \<Rightarrow> sim_rng \<Rightarrow> bool \<times> sim_rng" where
  "datagram_chance kind p rng = (if kind = DatagramLink then chance p rng else (False, rng))"

text \<open>The arrival on a stream: never before, and never together with, the one before it.\<close>

definition stream_arrival :: "sim_time option \<Rightarrow> sim_time \<Rightarrow> sim_time" where
  "stream_arrival last_arrival arrival =
    (case last_arrival of
       Some previous \<Rightarrow> if arrival \<le> previous then sim_add previous 1 else arrival
     | None \<Rightarrow> arrival)"

definition decide :: "sim_time \<Rightarrow> link \<Rightarrow> (delivery \<times> link) option" where
  "decide now l =
    (if lp_partitioned (lk_policy l) then Some (cut_outcome l, l)
     else let (lost, rng) = datagram_chance (lk_kind l) (lp_loss (lk_policy l)) (lk_rng l) in
       if lost then Some (DeliverDropped, l\<lparr>lk_rng := rng\<rparr>)
       else case sample_latency (lp_latency (lk_policy l)) rng of
           None \<Rightarrow> None
         | Some (first, rng) \<Rightarrow>
            (let (duplicated, rng) = datagram_chance (lk_kind l) (lp_duplicate (lk_policy l)) rng in
             if lk_kind l = StreamLink then
               (let arrival = stream_arrival (lk_last_arrival l) (sim_add now first) in
                Some (DeliverOnce (since arrival now), l\<lparr>lk_rng := rng, lk_last_arrival := Some arrival\<rparr>))
             else if duplicated then
               map_option (\<lambda>(second, rng).
                   (if first \<le> second then DeliverTwice first second else DeliverTwice second first, l\<lparr>lk_rng := rng\<rparr>))
                 (sample_latency (lp_latency (lk_policy l)) rng)
             else Some (DeliverOnce first, l\<lparr>lk_rng := rng\<rparr>)))"

section \<open>What a link never does\<close>

lemma sample_constant [simp]: "sample_latency (ConstantLatency d) rng = Some (d, rng)"
  by (simp add: sample_latency_def)

text \<open>A constant or empty latency draws nothing.\<close>

lemma sample_deterministic: "is_deterministic lat \<Longrightarrow> \<exists>d. sample_latency lat rng = Some (d, rng)"
  by (auto simp: is_deterministic_def sample_latency_def range_inclusive_def clamp_nanos_def word_le_nat_alt unat_of_nat
      take_bit_eq_mod unat_max_word split: latency.splits)

lemma decide_cut: "lp_partitioned (lk_policy l) \<Longrightarrow> decide now l = Some (cut_outcome l, l)"
  by (simp add: decide_def)

text \<open>Adding a clean link to a topology does not shift what any other link draws: it draws nothing itself.\<close>

lemma decide_clean:
  "lk_kind l = DatagramLink \<Longrightarrow> lk_policy l = CLEAN \<Longrightarrow> decide now l = Some (DeliverOnce 0, l)"
  by (simp add: decide_def CLEAN_def INSTANT_def datagram_chance_def chance_certain)

lemma decide_policy: "decide now l = Some (d, l') \<Longrightarrow> lk_kind l' = lk_kind l \<and> lk_policy l' = lk_policy l"
  by (auto simp: decide_def Let_def split: if_splits prod.splits option.splits)

text \<open>How long a latency may take.\<close>

definition latency_least :: "latency \<Rightarrow> sim_duration" where
  "latency_least lat = (case lat of ConstantLatency d \<Rightarrow> d | UniformLatency lo hi \<Rightarrow> unat (clamp_nanos lo))"

definition latency_most :: "latency \<Rightarrow> sim_duration" where
  "latency_most lat = (case lat of ConstantLatency d \<Rightarrow> d | UniformLatency lo hi \<Rightarrow> max (unat (clamp_nanos lo)) (unat (clamp_nanos hi)))"

lemma range_least: "range_inclusive lo hi r = Some (v, r') \<Longrightarrow> lo \<le> v \<and> v \<le> max lo hi"
proof (cases "lo \<le> hi")
  case True
  assume "range_inclusive lo hi r = Some (v, r')"
  from range_within [OF this True] True show ?thesis by (simp add: max_def)
qed (auto simp: range_inclusive_def split: if_splits)

lemma sample_within: "sample_latency lat rng = Some (d, rng') \<Longrightarrow> latency_least lat \<le> d \<and> d \<le> latency_most lat"
  by (auto simp: sample_latency_def latency_least_def latency_most_def word_le_nat_alt max_def dest!: range_least
      split: latency.splits if_splits)

text \<open>What a link decides is what its transport could do: a cut datagram link drops and a cut stream link breaks;
  a stream link that is not cut delivers exactly once; a datagram is lost, delivered once or twice only where the
  policy gives it a chance, the duplicate never before the original, and within the bounds of the latency.\<close>

theorem decision_possible:
  assumes "decide now l = Some (d, l')"
  shows "if lp_partitioned (lk_policy l) then d = cut_outcome l
    else if lk_kind l = StreamLink then \<exists>after. d = DeliverOnce after
    else (case d of
        DeliverOnce after \<Rightarrow> latency_least (lp_latency (lk_policy l)) \<le> after \<and> after \<le> latency_most (lp_latency (lk_policy l))
          \<and> lp_loss (lk_policy l) < 1 \<and> lp_duplicate (lk_policy l) < 1
      | DeliverTwice early late \<Rightarrow> latency_least (lp_latency (lk_policy l)) \<le> early \<and> early \<le> late
          \<and> late \<le> latency_most (lp_latency (lk_policy l)) \<and> lp_loss (lk_policy l) < 1 \<and> 0 < lp_duplicate (lk_policy l)
      | DeliverDropped \<Rightarrow> 0 < lp_loss (lk_policy l)
      | DeliverBroken \<Rightarrow> False)"
proof -
  have possible: "chance p r = (True, r') \<Longrightarrow> 0 < p" "chance p r = (False, r') \<Longrightarrow> p < 1" for p r r'
    using chance_possible [of p r] by auto
  show ?thesis
  proof (cases "lp_partitioned (lk_policy l)")
    case False
    then show ?thesis
    proof (cases "lk_kind l")
      case DatagramLink
      then show ?thesis using assms False
        by (auto simp: decide_def Let_def datagram_chance_def split: if_splits prod.splits option.splits
            dest!: possible sample_within)
    qed (use assms in \<open>auto simp: decide_def Let_def datagram_chance_def split: if_splits prod.splits option.splits\<close>)
  qed (use assms in \<open>auto simp: decide_cut\<close>)
qed

lemma decision_possible_witness:
  "latency_least INSTANT \<le> (0 :: sim_duration) \<and> (0 :: rat) < 1"
proof -
  have "decide 5 (link_new DatagramLink CLEAN 7 ''l'') = Some (DeliverOnce 0, link_new DatagramLink CLEAN 7 ''l'')"
    by (rule decide_clean) (simp_all add: link_new_def)
  from decision_possible [OF this] show ?thesis by (simp add: link_new_def CLEAN_def)
qed

section \<open>A stream keeps its order\<close>

text \<open>The decisions for messages sent one after another.\<close>

fun decide_all :: "sim_time list \<Rightarrow> link \<Rightarrow> (delivery list \<times> link) option" where
  "decide_all [] l = Some ([], l)"
| "decide_all (now # nows) l =
    (case decide now l of
       None \<Rightarrow> None
     | Some (d, l) \<Rightarrow> map_option (\<lambda>(ds, l). (d # ds, l)) (decide_all nows l))"

text \<open>Later, unless both are at the end of time.\<close>

definition arrives_after :: "sim_time \<Rightarrow> sim_time \<Rightarrow> bool" where
  "arrives_after a b \<longleftrightarrow> a < b \<or> (a = END_OF_TIME \<and> b = END_OF_TIME)"

lemma arrives_after_trans: "arrives_after a b \<Longrightarrow> arrives_after b c \<Longrightarrow> arrives_after a c"
  unfolding arrives_after_def using end_of_time by (metis order.strict_trans linorder_not_less)

lemma stream_arrival_after: "arrives_after previous (stream_arrival (Some previous) arrival)"
proof (cases "previous = END_OF_TIME")
  case True
  have "sim_add END_OF_TIME 1 = END_OF_TIME" using sim_add_le [of END_OF_TIME 1] end_of_time by (rule order.antisym [rotated])
  with True show ?thesis by (simp add: arrives_after_def stream_arrival_def)
next
  case False
  then show ?thesis using sim_add_later [OF False, of 1] by (auto simp: arrives_after_def stream_arrival_def)
qed

lemma stream_arrival_later: "now \<le> arrival \<Longrightarrow> now \<le> stream_arrival last_arrival arrival"
  by (auto simp: stream_arrival_def split: option.split intro: order.trans)

lemma decide_stream:
  assumes "decide now l = Some (d, l')" "lk_kind l = StreamLink" "\<not> lp_partitioned (lk_policy l)"
  shows "\<exists>arrival. d = DeliverOnce (since arrival now) \<and> now \<le> arrival \<and> lk_last_arrival l' = Some arrival
    \<and> (\<forall>previous. lk_last_arrival l = Some previous \<longrightarrow> arrives_after previous arrival)
    \<and> lk_kind l' = StreamLink \<and> \<not> lp_partitioned (lk_policy l')"
proof -
  obtain first where "d = DeliverOnce (since (stream_arrival (lk_last_arrival l) (sim_add now first)) now)"
      "lk_last_arrival l' = Some (stream_arrival (lk_last_arrival l) (sim_add now first))"
    using assms by (auto simp: decide_def Let_def datagram_chance_def split: option.splits)
  then show ?thesis using stream_arrival_after stream_arrival_later decide_policy [OF assms(1)] assms by auto
qed

text \<open>A stream keeps its order: on a stream link that is not cut every message sent arrives exactly once, not before
  it was sent, and strictly after every message sent before it, however the latency falls; only at the
  end of time do arrivals meet.\<close>

theorem stream_keeps_order:
  assumes "decide_all nows l = Some (ds, l')" "lk_kind l = StreamLink" "\<not> lp_partitioned (lk_policy l)"
  shows "\<exists>arrivals. ds = map2 (\<lambda>arrival now. DeliverOnce (since arrival now)) arrivals nows
    \<and> list_all2 (\<le>) nows arrivals \<and> sorted_wrt arrives_after arrivals"
proof -
  have "\<exists>arrivals. ds = map2 (\<lambda>arrival now. DeliverOnce (since arrival now)) arrivals nows
    \<and> list_all2 (\<le>) nows arrivals \<and> sorted_wrt arrives_after arrivals
    \<and> (\<forall>previous \<in> set_option (lk_last_arrival l). \<forall>a \<in> set arrivals. arrives_after previous a)"
    using assms
  proof (induction nows arbitrary: l ds)
    case (Cons now nows)
    from Cons.prems(1) obtain d l1 ds' where step: "decide now l = Some (d, l1)" "decide_all nows l1 = Some (ds', l')" "ds = d # ds'"
      by (auto split: option.splits)
    from decide_stream [OF step(1) Cons.prems(2,3)] obtain arrival where
      a: "d = DeliverOnce (since arrival now)" "now \<le> arrival" "lk_last_arrival l1 = Some arrival"
        "\<forall>previous. lk_last_arrival l = Some previous \<longrightarrow> arrives_after previous arrival"
        "lk_kind l1 = StreamLink" "\<not> lp_partitioned (lk_policy l1)" by blast
    from Cons.IH [OF step(2) a(5,6)] obtain arrivals where
      as: "ds' = map2 (\<lambda>arrival now. DeliverOnce (since arrival now)) arrivals nows" "list_all2 (\<le>) nows arrivals"
        "sorted_wrt arrives_after arrivals" "\<forall>x \<in> set arrivals. arrives_after arrival x"
      using a(3) by auto
    show ?case
      using a as step(3) by (intro exI [of _ "arrival # arrivals"]) (auto intro: arrives_after_trans)
  qed simp
  then show ?thesis by blast
qed

lemma stream_keeps_order_witness:
  "\<exists>arrivals. [DeliverOnce 0, DeliverOnce 1, DeliverOnce 0] = map2 (\<lambda>arrival now. DeliverOnce (since arrival now)) arrivals [5, 5, 9]
    \<and> list_all2 (\<le>) [5, 5, 9] arrivals \<and> sorted_wrt arrives_after arrivals"
proof -
  let ?l = "link_new StreamLink CLEAN 7 ''l''"
  have "decide_all [5, 5, 9] ?l = Some ([DeliverOnce 0, DeliverOnce 1, DeliverOnce 0], ?l\<lparr>lk_last_arrival := Some 9\<rparr>)"
    by (simp add: decide_def link_new_def CLEAN_def INSTANT_def datagram_chance_def stream_arrival_def sim_add_def
        saturating_add_def clamp_nanos_def since_def saturating_sub_def)
  then show ?thesis by (rule stream_keeps_order) (simp_all add: link_new_def CLEAN_def)
qed

end
