(* ===== verification/Trace.thy ===== *)
theory Trace imports Complex_Main Prelude Ascii Netaddr Clock Rng Network begin

text \<open>
  \<^verbatim>\<open>fault.rs\<close> and \<^verbatim>\<open>trace.rs\<close> of \<^verbatim>\<open>crates/sipx-clstr-sim\<close>: the faults a
  scenario schedules, the log of what happened, and how both are rendered.  The SIP message and its
  kernel are the record \<^verbatim>\<open>wire\<close>; how a floating point number prints is an argument.
\<close>

section \<open>Faults\<close>

datatype fault =
    KillNode node_id
  | Partition "node_id list" "node_id list"
  | Heal "node_id list" "node_id list"
  | SetLinkPolicy node_id node_id link_policy
  | TimerSkew node_id u32
  | Reconnect node_id node_id
  | RestartNode node_id
  | StopReading node_id
  | ResumeReading node_id

fun comma_list :: "string list \<Rightarrow> string" where
  "comma_list [] = []"
| "comma_list [s] = s"
| "comma_list (s # ss) = s @ '','' @ comma_list ss"

definition node_group_text :: "node_id list \<Rightarrow> string" where
  "node_group_text nodes = comma_list (map node_id_text nodes)"

definition bool_text :: "bool \<Rightarrow> string" where
  "bool_text b = (if b then ''true'' else ''false'')"

definition fault_summary :: "(rat \<Rightarrow> string) \<Rightarrow> fault \<Rightarrow> string" where
  "fault_summary f64_text f =
    (case f of
       KillNode node \<Rightarrow> ''kill '' @ node_id_text node
     | Partition a b \<Rightarrow> ''partition {'' @ node_group_text a @ ''} | {'' @ node_group_text b @ ''}''
     | Heal a b \<Rightarrow> ''heal {'' @ node_group_text a @ ''} | {'' @ node_group_text b @ ''}''
     | SetLinkPolicy from_node to_node policy \<Rightarrow>
         ''policy '' @ node_id_text from_node @ ''->'' @ node_id_text to_node @ '' loss='' @ f64_text (lp_loss policy)
           @ '' dup='' @ f64_text (lp_duplicate policy) @ '' cut='' @ bool_text (lp_partitioned policy)
     | TimerSkew node per_mille \<Rightarrow> ''skew '' @ node_id_text node @ '' '' @ decimal (unat per_mille) @ ''permille''
     | Reconnect a b \<Rightarrow> ''reconnect '' @ node_id_text a @ ''|'' @ node_id_text b
     | RestartNode node \<Rightarrow> ''restart '' @ node_id_text node
     | StopReading node \<Rightarrow> ''stop-reading '' @ node_id_text node
     | ResumeReading node \<Rightarrow> ''resume-reading '' @ node_id_text node)"

type_synonym fault_schedule = "(sim_time \<times> fault) list"

definition schedule_fault :: "fault_schedule \<Rightarrow> sim_time \<Rightarrow> fault \<Rightarrow> fault_schedule" where
  "schedule_fault s instant f = s @ [(instant, f)]"

definition schedule_fault_after :: "fault_schedule \<Rightarrow> sim_duration \<Rightarrow> fault \<Rightarrow> fault_schedule" where
  "schedule_fault_after s after f = schedule_fault s (sim_add SIM_START after) f"

definition partition_during ::
  "fault_schedule \<Rightarrow> sim_time \<Rightarrow> sim_time \<Rightarrow> node_id list \<Rightarrow> node_id list \<Rightarrow> fault_schedule" where
  "partition_during s from_time until_time a b =
    schedule_fault (schedule_fault s from_time (Partition a b)) until_time (Heal a b)"

definition stalled_during :: "fault_schedule \<Rightarrow> sim_time \<Rightarrow> sim_time \<Rightarrow> node_id \<Rightarrow> fault_schedule" where
  "stalled_during s from_time until_time node =
    schedule_fault (schedule_fault s from_time (StopReading node)) until_time (ResumeReading node)"

definition merge_schedules :: "fault_schedule \<Rightarrow> fault_schedule \<Rightarrow> fault_schedule" where
  "merge_schedules s other = s @ other"

section \<open>Messages on the wire\<close>

datatype method_shape = OtherMethod bytes | KnownMethod string

datatype start_line = RequestLine method_shape string | StatusLine u16 bytes

record 'm wire =
  wire_start :: "'m \<Rightarrow> start_line"
  wire_header :: "'m \<Rightarrow> string \<Rightarrow> bytes option"
  wire_bytes :: "'m \<Rightarrow> bytes"
  wire_parse :: "bytes \<Rightarrow> string + 'm"

definition method_name :: "method_shape \<Rightarrow> string" where
  "method_name m = (case m of OtherMethod name \<Rightarrow> to_bytes (from_utf8_lossy name) | KnownMethod shown \<Rightarrow> map ascii_upper shown)"

definition summarize :: "'m wire \<Rightarrow> 'm \<Rightarrow> string" where
  "summarize K message =
    (let header = (\<lambda>name. case wire_header K message name of None \<Rightarrow> ''-'' | Some v \<Rightarrow> str_trim v);
         call_id = header ''Call-ID'';
         cseq = header ''CSeq''
     in (case wire_start K message of
           RequestLine method uri \<Rightarrow> method_name method @ '' '' @ uri @ '' ['' @ call_id @ '' #'' @ cseq @ '']''
         | StatusLine code reason \<Rightarrow>
             decimal (unat code) @ '' '' @ str_trim reason @ '' ['' @ call_id @ '' #'' @ cseq @ '']''))"

section \<open>The trace\<close>

type_synonym timer_id = u64

definition timer_id_text :: "timer_id \<Rightarrow> string" where
  "timer_id_text t = CHR ''t'' # decimal (unat t)"

datatype trace_event =
    EvStarted
  | EvSent node_id string
  | EvReceived node_id string
  | EvDropped node_id string
  | EvDuplicated node_id string
  | EvBroken node_id
  | EvMalformed node_id string
  | EvTimerSet timer_id sim_time
  | EvTimerFired timer_id
  | EvTimerCleared timer_id
  | EvNote string
  | EvFault string

record trace_entry =
  te_at :: sim_time
  te_seq :: u64
  te_node :: node_id
  te_name :: string
  te_event :: trace_event

record trace_log =
  tr_entries :: "trace_entry list"
  tr_next_seq :: u64

definition trace_new :: trace_log where
  "trace_new = \<lparr>tr_entries = [], tr_next_seq = 0\<rparr>"

definition trace_record :: "sim_time \<Rightarrow> node_id \<Rightarrow> string \<Rightarrow> trace_event \<Rightarrow> trace_log \<Rightarrow> trace_log" where
  "trace_record instant node node_name event t =
    \<lparr>tr_entries = tr_entries t @ [\<lparr>te_at = instant, te_seq = tr_next_seq t, te_node = node, te_name = node_name, te_event = event\<rparr>],
     tr_next_seq = tr_next_seq t + 1\<rparr>"

definition trace_count :: "(trace_entry \<Rightarrow> bool) \<Rightarrow> trace_log \<Rightarrow> nat" where
  "trace_count matching t = length (filter matching (tr_entries t))"

definition received_by :: "node_id \<Rightarrow> trace_log \<Rightarrow> string list" where
  "received_by node t =
    List.map_filter (\<lambda>e. case te_event e of EvReceived _ summary \<Rightarrow> Some summary | _ \<Rightarrow> None)
      (filter (\<lambda>e. te_node e = node) (tr_entries t))"

definition trace_notes :: "trace_log \<Rightarrow> string list" where
  "trace_notes t = List.map_filter (\<lambda>e. case te_event e of EvNote note \<Rightarrow> Some note | _ \<Rightarrow> None) (tr_entries t)"

definition render_event :: "trace_event \<Rightarrow> string" where
  "render_event event =
    (case event of
       EvStarted \<Rightarrow> ''started''
     | EvSent to_node summary \<Rightarrow> ''-> '' @ node_id_text to_node @ '' '' @ summary
     | EvReceived from_node summary \<Rightarrow> ''<- '' @ node_id_text from_node @ '' '' @ summary
     | EvDropped to_node summary \<Rightarrow> ''xx '' @ node_id_text to_node @ '' '' @ summary @ '' (lost)''
     | EvDuplicated to_node summary \<Rightarrow> ''== '' @ node_id_text to_node @ '' '' @ summary @ '' (duplicated)''
     | EvBroken to_node \<Rightarrow> ''!! '' @ node_id_text to_node @ '' link broken''
     | EvMalformed from_node reason \<Rightarrow> ''?? '' @ node_id_text from_node @ '' unparseable: '' @ reason
     | EvTimerSet timer instant \<Rightarrow> ''timer '' @ timer_id_text timer @ '' set for '' @ sim_time_text instant
     | EvTimerFired timer \<Rightarrow> ''timer '' @ timer_id_text timer @ '' fired''
     | EvTimerCleared timer \<Rightarrow> ''timer '' @ timer_id_text timer @ '' cleared''
     | EvNote note \<Rightarrow> ''note '' @ note
     | EvFault what \<Rightarrow> ''** FAULT '' @ what)"

text \<open>A column is as wide as its characters, not its bytes.\<close>

definition column :: "nat \<Rightarrow> string \<Rightarrow> string" where
  "column w s = s @ replicate (w - length (from_utf8_lossy s)) CHR '' ''"

definition render_entry :: "trace_entry \<Rightarrow> string" where
  "render_entry e =
    sim_time_text (te_at e) @ '' '' @ align_right 4 (decimal (unat (te_seq e))) @ '' '' @ column 10 (te_name e) @ '' ''
      @ render_event (te_event e) @ [CHR 0x0A]"

definition render :: "trace_log \<Rightarrow> string" where
  "render t = concat (map render_entry (tr_entries t))"

section \<open>The log only grows\<close>

lemma trace_record_entries [simp]:
  "tr_entries (trace_record instant node node_name event t) =
    tr_entries t @ [\<lparr>te_at = instant, te_seq = tr_next_seq t, te_node = node, te_name = node_name, te_event = event\<rparr>]"
  by (simp add: trace_record_def)

text \<open>A trace is \<^emph>\<open>chronological\<close> up to an instant when its entries are in the order of their time, none is later,
  and they are numbered one by one.\<close>

definition chronological :: "sim_time \<Rightarrow> trace_log \<Rightarrow> bool" where
  "chronological now t \<longleftrightarrow> sorted (map te_at (tr_entries t)) \<and> (\<forall>e \<in> set (tr_entries t). te_at e \<le> now)
    \<and> map te_seq (tr_entries t) = map of_nat [0 ..< length (tr_entries t)] \<and> tr_next_seq t = of_nat (length (tr_entries t))"

lemma chronological_new: "chronological now trace_new"
  by (simp add: chronological_def trace_new_def)

lemma chronological_record: "chronological now t \<Longrightarrow> chronological now (trace_record now node node_name event t)"
  by (auto simp: chronological_def trace_record_def sorted_append)

lemma chronological_later: "chronological now t \<Longrightarrow> now \<le> now' \<Longrightarrow> chronological now' t"
  by (auto simp: chronological_def intro: order.trans)

end
