(* ===== verification/Sim.thy ===== *)
theory Sim imports Complex_Main Prelude Ascii Clock Rng Event_Queue Network Trace "HOL-Library.Monad_Syntax" begin

text \<open>
  \<^verbatim>\<open>node.rs\<close> and \<^verbatim>\<open>sim.rs\<close> of \<^verbatim>\<open>crates/sipx-clstr-sim\<close>: the scheduler.  The
  simulated nodes (\<^verbatim>\<open>dyn SimNode\<close>), the SIP message and the kernel's timer queue
  (\<^verbatim>\<open>sipx_transport::timers\<close>) are an argument of every operation.  An operation that puts bytes
  on a link is an option: the draw of a latency is not known to end.
\<close>

section \<open>Nodes\<close>

datatype 'm sim_input =
    InStarted
  | InMessage node_id 'm
  | InTimer timer_id
  | InTransportError node_id
  | InConnected node_id
  | InRestarted u32
  | InWriteStalled node_id
  | InWriteFlushed node_id

datatype 'm sim_effect =
    EffSend node_id 'm
  | EffSetTimer timer_id sim_duration
  | EffClearTimer timer_id
  | EffNote string

record ('s, 'm) node_code =
  node_name :: "'s \<Rightarrow> string"
  on_input :: "sim_time \<Rightarrow> 'm sim_input \<Rightarrow> 's \<Rightarrow> 'm sim_effect list \<times> 's"

type_synonym timer_key = "node_id \<times> timer_id"

record 't timer_lib =
  timers_new :: 't
  timers_set :: "timer_key \<Rightarrow> sim_time \<Rightarrow> sim_duration \<Rightarrow> 't \<Rightarrow> 't"
  timers_clear :: "timer_key \<Rightarrow> 't \<Rightarrow> 't"
  timers_forget :: "(timer_key \<Rightarrow> bool) \<Rightarrow> 't \<Rightarrow> 't"
  timers_deadline :: "'t \<Rightarrow> sim_time option"
  timers_take_due :: "sim_time \<Rightarrow> 't \<Rightarrow> timer_key list \<times> 't"

record ('s, 'm, 't) sim_env =
  env_wire :: "'m wire"
  env_code :: "('s, 'm) node_code"
  env_timers :: "'t timer_lib"
  env_f64 :: "rat \<Rightarrow> string"

section \<open>The state of a run\<close>

datatype sim_error = StepBudgetExhausted u64 sim_time

datatype notice = NoticeConnected node_id | NoticeRestarted u32 | NoticeWriteStalled node_id | NoticeWriteFlushed node_id

datatype sim_event =
    DeliverEvent node_id node_id bytes u64
  | BreakEvent node_id node_id
  | FaultEvent fault
  | NotifyEvent node_id notice

record held_write =
  hw_from :: node_id
  hw_bytes :: bytes
  hw_summary :: string

record ('s, 't) sim =
  sim_seed :: u64
  sim_now :: sim_time
  sim_nodes :: "'s list"
  sim_links :: "node_id \<times> node_id \<Rightarrow> link option"
  sim_default_kind :: link_kind
  sim_default_policy :: link_policy
  sim_queue :: "sim_event event_heap"
  sim_timers :: 't
  sim_trace :: trace_log
  sim_budget :: u64
  sim_started :: bool
  sim_killed :: "node_id set"
  sim_skew :: "node_id \<Rightarrow> u32 option"
  sim_restarts :: "node_id \<Rightarrow> u32 option"
  sim_connections :: "node_id \<times> node_id \<Rightarrow> u64 option"
  sim_not_reading :: "node_id set"
  sim_held :: "node_id \<Rightarrow> held_write list option"

definition sim_new :: "('s, 'm, 't) sim_env \<Rightarrow> u64 \<Rightarrow> ('s, 't) sim" where
  "sim_new E seed =
    \<lparr>sim_seed = seed, sim_now = SIM_START, sim_nodes = [], sim_links = Map.empty, sim_default_kind = DatagramLink,
     sim_default_policy = CLEAN, sim_queue = queue_new, sim_timers = timers_new (env_timers E), sim_trace = trace_new,
     sim_budget = 100000, sim_started = False, sim_killed = {}, sim_skew = Map.empty, sim_restarts = Map.empty,
     sim_connections = Map.empty, sim_not_reading = {}, sim_held = Map.empty\<rparr>"

definition link_default :: "link_kind \<Rightarrow> link_policy \<Rightarrow> ('s, 't) sim \<Rightarrow> ('s, 't) sim" where
  "link_default kind policy S = S\<lparr>sim_default_kind := kind, sim_default_policy := policy\<rparr>"

definition step_budget :: "u64 \<Rightarrow> ('s, 't) sim \<Rightarrow> ('s, 't) sim" where
  "step_budget budget S = S\<lparr>sim_budget := budget\<rparr>"

definition add_node :: "'s \<Rightarrow> ('s, 't) sim \<Rightarrow> node_id \<times> ('s, 't) sim" where
  "add_node node S = (length (sim_nodes S), S\<lparr>sim_nodes := sim_nodes S @ [node]\<rparr>)"

definition name_of :: "('s, 'm, 't) sim_env \<Rightarrow> ('s, 't) sim \<Rightarrow> node_id \<Rightarrow> string" where
  "name_of E S n = (case get_at (sim_nodes S) n of None \<Rightarrow> ''?'' | Some node \<Rightarrow> node_name (env_code E) node)"

definition link_label :: "string \<Rightarrow> string \<Rightarrow> string" where
  "link_label from_name to_name = ''link:'' @ from_name @ ''->'' @ to_name"

text \<open>A line of the trace, at the current instant.\<close>

definition log_event :: "('s, 'm, 't) sim_env \<Rightarrow> node_id \<Rightarrow> trace_event \<Rightarrow> ('s, 't) sim \<Rightarrow> ('s, 't) sim" where
  "log_event E n event S = S\<lparr>sim_trace := trace_record (sim_now S) n (name_of E S n) event (sim_trace S)\<rparr>"

definition enqueue :: "sim_event \<Rightarrow> ('s, 't) sim \<Rightarrow> ('s, 't) sim" where
  "enqueue event S = S\<lparr>sim_queue := schedule_at (sim_now S) event (sim_queue S)\<rparr>"

definition enqueue_after :: "sim_duration \<Rightarrow> sim_event \<Rightarrow> ('s, 't) sim \<Rightarrow> ('s, 't) sim" where
  "enqueue_after after event S = S\<lparr>sim_queue := schedule_after (sim_now S) after event (sim_queue S)\<rparr>"

section \<open>Links and connections\<close>

definition link_one_way ::
  "('s, 'm, 't) sim_env \<Rightarrow> node_id \<Rightarrow> node_id \<Rightarrow> link_kind \<Rightarrow> link_policy \<Rightarrow> ('s, 't) sim \<Rightarrow> ('s, 't) sim" where
  "link_one_way E a b kind policy S =
    S\<lparr>sim_links := (sim_links S)((a, b) \<mapsto>
      link_new kind policy (sim_seed S) (link_label (name_of E S a) (name_of E S b)))\<rparr>"

definition link_both ::
  "('s, 'm, 't) sim_env \<Rightarrow> node_id \<Rightarrow> node_id \<Rightarrow> link_kind \<Rightarrow> link_policy \<Rightarrow> ('s, 't) sim \<Rightarrow> ('s, 't) sim" where
  "link_both E a b kind policy S = link_one_way E b a kind policy (link_one_way E a b kind policy S)"

text \<open>The link of a pair, created from a kind and a policy where there is none.\<close>

definition link_or_new ::
  "('s, 'm, 't) sim_env \<Rightarrow> ('s, 't) sim \<Rightarrow> node_id \<Rightarrow> node_id \<Rightarrow> link_kind \<Rightarrow> link_policy \<Rightarrow> link" where
  "link_or_new E S a b kind policy =
    (case sim_links S (a, b) of
       Some l \<Rightarrow> l
     | None \<Rightarrow> link_new kind policy (sim_seed S) (link_label (name_of E S a) (name_of E S b)))"

definition link_between :: "('s, 'm, 't) sim_env \<Rightarrow> ('s, 't) sim \<Rightarrow> node_id \<Rightarrow> node_id \<Rightarrow> link" where
  "link_between E S a b = link_or_new E S a b (sim_default_kind S) (sim_default_policy S)"

definition set_partitioned ::
  "('s, 'm, 't) sim_env \<Rightarrow> node_id \<Rightarrow> node_id \<Rightarrow> bool \<Rightarrow> ('s, 't) sim \<Rightarrow> ('s, 't) sim" where
  "set_partitioned E a b severed S =
    (let (kind, policy) = (case sim_links S (a, b) of
           None \<Rightarrow> (sim_default_kind S, sim_default_policy S) | Some l \<Rightarrow> (lk_kind l, lk_policy l));
         policy = policy\<lparr>lp_partitioned := severed\<rparr>
     in S\<lparr>sim_links := (sim_links S)((a, b) \<mapsto> (link_or_new E S a b kind policy)\<lparr>lk_policy := policy\<rparr>)\<rparr>)"

definition set_link_policy ::
  "('s, 'm, 't) sim_env \<Rightarrow> node_id \<Rightarrow> node_id \<Rightarrow> link_policy \<Rightarrow> ('s, 't) sim \<Rightarrow> ('s, 't) sim" where
  "set_link_policy E a b policy S =
    (let kind = (case sim_links S (a, b) of None \<Rightarrow> sim_default_kind S | Some l \<Rightarrow> lk_kind l)
     in S\<lparr>sim_links := (sim_links S)((a, b) \<mapsto> (link_or_new E S a b kind policy)\<lparr>lk_policy := policy\<rparr>)\<rparr>)"

definition cut_between ::
  "('s, 'm, 't) sim_env \<Rightarrow> node_id list \<Rightarrow> node_id list \<Rightarrow> bool \<Rightarrow> ('s, 't) sim \<Rightarrow> ('s, 't) sim" where
  "cut_between E as bs severed S =
    fold (\<lambda>a. fold (\<lambda>b S. set_partitioned E b a severed (set_partitioned E a b severed S)) bs) as S"

definition connection_of :: "('s, 't) sim \<Rightarrow> node_id \<Rightarrow> node_id \<Rightarrow> u64" where
  "connection_of S a b = (case sim_connections S (a, b) of None \<Rightarrow> 0 | Some c \<Rightarrow> c)"

definition bump_connection :: "node_id \<Rightarrow> node_id \<Rightarrow> ('s, 't) sim \<Rightarrow> ('s, 't) sim" where
  "bump_connection a b S = S\<lparr>sim_connections := (sim_connections S)((a, b) \<mapsto> connection_of S a b + 1)\<rparr>"

definition has_stream_link :: "('s, 't) sim \<Rightarrow> node_id \<Rightarrow> node_id \<Rightarrow> bool" where
  "has_stream_link S a b \<longleftrightarrow>
    list_ex (\<lambda>pair. case sim_links S pair of None \<Rightarrow> False | Some l \<Rightarrow> lk_kind l = StreamLink) [(a, b), (b, a)]"

definition retain_held :: "(held_write \<Rightarrow> bool) \<Rightarrow> node_id \<Rightarrow> ('s, 't) sim \<Rightarrow> ('s, 't) sim" where
  "retain_held keep holder S = S\<lparr>sim_held := (sim_held S)(holder := map_option (filter keep) (sim_held S holder))\<rparr>"

definition discard_held_between :: "node_id \<Rightarrow> node_id \<Rightarrow> ('s, 't) sim \<Rightarrow> ('s, 't) sim" where
  "discard_held_between a b S = retain_held (\<lambda>w. hw_from w \<noteq> a) b (retain_held (\<lambda>w. hw_from w \<noteq> b) a S)"

definition discard_held_involving :: "node_id \<Rightarrow> ('s, 't) sim \<Rightarrow> ('s, 't) sim" where
  "discard_held_involving n S =
    S\<lparr>sim_held := (\<lambda>holder. map_option (filter (\<lambda>w. hw_from w \<noteq> n)) (((sim_held S)(n := None)) holder))\<rparr>"

definition skewed :: "('s, 't) sim \<Rightarrow> node_id \<Rightarrow> sim_duration \<Rightarrow> sim_duration" where
  "skewed S n after =
    (case sim_skew S n of
       None \<Rightarrow> after
     | Some per_mille \<Rightarrow> if per_mille = 1000 then after else unat (clamp_nanos (after * unat per_mille div 1000)))"

section \<open>Sending\<close>

text \<open>Put bytes on the link and schedule what it decided.\<close>

definition dispatch ::
  "('s, 'm, 't) sim_env \<Rightarrow> node_id \<Rightarrow> node_id \<Rightarrow> bytes \<Rightarrow> string \<Rightarrow> ('s, 't) sim \<Rightarrow> ('s, 't) sim option" where
  "dispatch E a b payload summary S =
    (let l = link_between E S a b in do {
      (decision, l) \<leftarrow> (if a \<in> sim_killed S \<or> b \<in> sim_killed S then Some (cut_outcome l, l) else decide (sim_now S) l);
      let S = S\<lparr>sim_links := (sim_links S)((a, b) \<mapsto> l)\<rparr>;
          connection = connection_of S a b;
          deliver_event = DeliverEvent a b payload connection
      in Some (case decision of
          DeliverDropped \<Rightarrow> log_event E a (EvDropped b summary) S
        | DeliverBroken \<Rightarrow> enqueue (BreakEvent a b) S
        | DeliverOnce after \<Rightarrow> enqueue_after after deliver_event S
        | DeliverTwice first second \<Rightarrow>
            enqueue_after second deliver_event (enqueue_after first deliver_event (log_event E a (EvDuplicated b summary) S))) })"

definition hold_write :: "node_id \<Rightarrow> held_write \<Rightarrow> ('s, 't) sim \<Rightarrow> ('s, 't) sim" where
  "hold_write n w S =
    S\<lparr>sim_held := (sim_held S)(n \<mapsto> (case sim_held S n of None \<Rightarrow> [] | Some ws \<Rightarrow> ws) @ [w])\<rparr>"

definition sim_send :: "('s, 'm, 't) sim_env \<Rightarrow> node_id \<Rightarrow> node_id \<Rightarrow> 'm \<Rightarrow> ('s, 't) sim \<Rightarrow> ('s, 't) sim option" where
  "sim_send E a b message S =
    (let summary = summarize (env_wire E) message;
         S = log_event E a (EvSent b summary) S;
         payload = wire_bytes (env_wire E) message
     in if \<not> (a \<in> sim_killed S \<or> b \<in> sim_killed S) \<and> b \<in> sim_not_reading S
        then Some (enqueue (NotifyEvent a (NoticeWriteStalled b))
          (hold_write b \<lparr>hw_from = a, hw_bytes = payload, hw_summary = summary\<rparr> S))
        else dispatch E a b payload summary S)"

definition set_timer :: "('s, 'm, 't) sim_env \<Rightarrow> node_id \<Rightarrow> timer_id \<Rightarrow> sim_duration \<Rightarrow> ('s, 't) sim \<Rightarrow> ('s, 't) sim" where
  "set_timer E n timer after S =
    (let after = skewed S n after
     in log_event E n (EvTimerSet timer (sim_add (sim_now S) after))
          (S\<lparr>sim_timers := timers_set (env_timers E) (n, timer) (sim_now S) after (sim_timers S)\<rparr>))"

definition clear_timer :: "('s, 'm, 't) sim_env \<Rightarrow> node_id \<Rightarrow> timer_id \<Rightarrow> ('s, 't) sim \<Rightarrow> ('s, 't) sim" where
  "clear_timer E n timer S =
    log_event E n (EvTimerCleared timer) (S\<lparr>sim_timers := timers_clear (env_timers E) (n, timer) (sim_timers S)\<rparr>)"

text \<open>One effect, and the effects of one input in order.\<close>

definition perform_one :: "('s, 'm, 't) sim_env \<Rightarrow> node_id \<Rightarrow> 'm sim_effect \<Rightarrow> ('s, 't) sim \<Rightarrow> ('s, 't) sim option" where
  "perform_one E n eff S =
    (case eff of
       EffSend b message \<Rightarrow> sim_send E n b message S
     | EffSetTimer timer after \<Rightarrow> Some (set_timer E n timer after S)
     | EffClearTimer timer \<Rightarrow> Some (clear_timer E n timer S)
     | EffNote what \<Rightarrow> Some (log_event E n (EvNote what) S))"

fun perform :: "('s, 'm, 't) sim_env \<Rightarrow> node_id \<Rightarrow> 'm sim_effect list \<Rightarrow> ('s, 't) sim \<Rightarrow> ('s, 't) sim option" where
  "perform E n [] S = Some S"
| "perform E n (eff # effs) S = do { S \<leftarrow> perform_one E n eff S; perform E n effs S }"

definition deliver :: "('s, 'm, 't) sim_env \<Rightarrow> node_id \<Rightarrow> 'm sim_input \<Rightarrow> ('s, 't) sim \<Rightarrow> 'm sim_effect list \<times> ('s, 't) sim" where
  "deliver E n inp S =
    (if n \<in> sim_killed S then ([], S)
     else case get_at (sim_nodes S) n of
         None \<Rightarrow> ([], S)
       | Some node \<Rightarrow>
           (let (effs, node) = on_input (env_code E) (sim_now S) inp node in (effs, S\<lparr>sim_nodes := (sim_nodes S)[n := node]\<rparr>)))"

text \<open>Hand a node an input and perform what it answers.\<close>

definition react :: "('s, 'm, 't) sim_env \<Rightarrow> node_id \<Rightarrow> 'm sim_input \<Rightarrow> ('s, 't) sim \<Rightarrow> ('s, 't) sim option" where
  "react E n inp S = (let (effs, S) = deliver E n inp S in perform E n effs S)"


section \<open>Faults\<close>

definition queue_faults :: "fault_schedule \<Rightarrow> ('s, 't) sim \<Rightarrow> ('s, 't) sim" where
  "queue_faults schedule S =
    S\<lparr>sim_queue := fold (\<lambda>(instant, f). schedule_at instant (FaultEvent f)) schedule (sim_queue S)\<rparr>"

definition is_killed :: "('s, 't) sim \<Rightarrow> node_id \<Rightarrow> bool" where
  "is_killed S n \<longleftrightarrow> n \<in> sim_killed S"

definition incarnation :: "('s, 't) sim \<Rightarrow> node_id \<Rightarrow> u32" where
  "incarnation S n = (case sim_restarts S n of None \<Rightarrow> 0 | Some r \<Rightarrow> r) + 1"

definition held_writes :: "('s, 't) sim \<Rightarrow> node_id \<Rightarrow> nat" where
  "held_writes S n = (case sim_held S n of None \<Rightarrow> 0 | Some ws \<Rightarrow> length ws)"

definition reconnect :: "node_id \<Rightarrow> node_id \<Rightarrow> ('s, 't) sim \<Rightarrow> ('s, 't) sim" where
  "reconnect a b S =
    (let S = discard_held_between a b (bump_connection b a (bump_connection a b S));
         S = enqueue (BreakEvent b a) (enqueue (BreakEvent a b) S)
     in enqueue (NotifyEvent b (NoticeConnected a)) (enqueue (NotifyEvent a (NoticeConnected b)) S))"

definition forget_timers :: "('s, 'm, 't) sim_env \<Rightarrow> node_id \<Rightarrow> ('s, 't) sim \<Rightarrow> ('s, 't) sim" where
  "forget_timers E n S = S\<lparr>sim_timers := timers_forget (env_timers E) (\<lambda>(owner, _). owner = n) (sim_timers S)\<rparr>"

text \<open>Every connection a node had is replaced, and its stream peers learn of it.\<close>

definition bump_all :: "node_id \<Rightarrow> node_id list \<Rightarrow> ('s, 't) sim \<Rightarrow> ('s, 't) sim" where
  "bump_all n peers S = fold (\<lambda>peer S. bump_connection peer n (bump_connection n peer S)) peers S"

definition break_all :: "node_id \<Rightarrow> node_id list \<Rightarrow> ('s, 't) sim \<Rightarrow> ('s, 't) sim" where
  "break_all n peers S =
    fold (\<lambda>peer S. if has_stream_link S peer n then enqueue (BreakEvent peer n) S else S) peers S"

definition restart :: "('s, 'm, 't) sim_env \<Rightarrow> node_id \<Rightarrow> ('s, 't) sim \<Rightarrow> ('s, 't) sim" where
  "restart E n S =
    (let S = forget_timers E n (S\<lparr>sim_killed := sim_killed S - {n}\<rparr>);
         peers = filter (\<lambda>peer. peer \<noteq> n) [0 ..< length (sim_nodes S)];
         S = bump_all n peers S;
         S = discard_held_involving n (S\<lparr>sim_not_reading := sim_not_reading S - {n}\<rparr>);
         S = break_all n peers S;
         restarts = (case sim_restarts S n of None \<Rightarrow> 0 | Some r \<Rightarrow> r) + 1
     in enqueue (NotifyEvent n (NoticeRestarted (restarts + 1))) (S\<lparr>sim_restarts := (sim_restarts S)(n \<mapsto> restarts)\<rparr>))"

fun release_writes :: "('s, 'm, 't) sim_env \<Rightarrow> node_id \<Rightarrow> held_write list \<Rightarrow> ('s, 't) sim \<Rightarrow> ('s, 't) sim option" where
  "release_writes E n [] S = Some S"
| "release_writes E n (w # ws) S = do {
    S \<leftarrow> dispatch E (hw_from w) n (hw_bytes w) (hw_summary w) (enqueue (NotifyEvent (hw_from w) (NoticeWriteFlushed n)) S);
    release_writes E n ws S }"

definition resume_reading :: "('s, 'm, 't) sim_env \<Rightarrow> node_id \<Rightarrow> ('s, 't) sim \<Rightarrow> ('s, 't) sim option" where
  "resume_reading E n S =
    release_writes E n (case sim_held S n of None \<Rightarrow> [] | Some ws \<Rightarrow> ws)
      (S\<lparr>sim_not_reading := sim_not_reading S - {n}, sim_held := (sim_held S)(n := None)\<rparr>)"

definition first_of :: "node_id list \<Rightarrow> node_id option" where
  "first_of ns = get_at ns 0"

definition fault_anchor :: "fault \<Rightarrow> node_id" where
  "fault_anchor f =
    (let group = (\<lambda>a b. case first_of a of Some n \<Rightarrow> n | None \<Rightarrow> (case first_of b of Some n \<Rightarrow> n | None \<Rightarrow> 0))
     in case f of
       KillNode n \<Rightarrow> n | TimerSkew n _ \<Rightarrow> n | RestartNode n \<Rightarrow> n | StopReading n \<Rightarrow> n | ResumeReading n \<Rightarrow> n
     | Partition a b \<Rightarrow> group a b | Heal a b \<Rightarrow> group a b
     | SetLinkPolicy a _ _ \<Rightarrow> a | Reconnect a _ \<Rightarrow> a)"

definition kill_node :: "('s, 'm, 't) sim_env \<Rightarrow> node_id \<Rightarrow> ('s, 't) sim \<Rightarrow> ('s, 't) sim" where
  "kill_node E n S =
    (let S = forget_timers E n (S\<lparr>sim_killed := insert n (sim_killed S)\<rparr>)
     in discard_held_involving n (S\<lparr>sim_not_reading := sim_not_reading S - {n}\<rparr>))"

definition stop_reading :: "node_id \<Rightarrow> ('s, 't) sim \<Rightarrow> ('s, 't) sim" where
  "stop_reading n S = (if n \<in> sim_killed S then S else S\<lparr>sim_not_reading := insert n (sim_not_reading S)\<rparr>)"

definition apply_fault :: "('s, 'm, 't) sim_env \<Rightarrow> fault \<Rightarrow> ('s, 't) sim \<Rightarrow> ('s, 't) sim option" where
  "apply_fault E f S =
    (let S = log_event E (fault_anchor f) (EvFault (fault_summary (env_f64 E) f)) S
     in case f of
       KillNode n \<Rightarrow> Some (kill_node E n S)
     | Partition a b \<Rightarrow> Some (cut_between E a b True S)
     | Heal a b \<Rightarrow> Some (cut_between E a b False S)
     | SetLinkPolicy a b policy \<Rightarrow> Some (set_link_policy E a b policy S)
     | TimerSkew n per_mille \<Rightarrow> Some (S\<lparr>sim_skew := (sim_skew S)(n \<mapsto> per_mille)\<rparr>)
     | Reconnect a b \<Rightarrow> Some (reconnect a b S)
     | RestartNode n \<Rightarrow> Some (restart E n S)
     | StopReading n \<Rightarrow> Some (stop_reading n S)
     | ResumeReading n \<Rightarrow> resume_reading E n S)"

section \<open>The loop\<close>

definition handle_delivery ::
  "('s, 'm, 't) sim_env \<Rightarrow> node_id \<Rightarrow> node_id \<Rightarrow> bytes \<Rightarrow> u64 \<Rightarrow> ('s, 't) sim \<Rightarrow> ('s, 't) sim option" where
  "handle_delivery E a b payload connection S =
    (case wire_parse (env_wire E) payload of
       Inr message \<Rightarrow>
         if connection \<noteq> connection_of S a b
         then Some (log_event E a (EvDropped b (summarize (env_wire E) message)) S)
         else react E b (InMessage a message) (log_event E b (EvReceived a (summarize (env_wire E) message)) S)
     | Inl reason \<Rightarrow> Some (log_event E b (EvMalformed a reason) S))"

definition notify :: "('s, 'm, 't) sim_env \<Rightarrow> node_id \<Rightarrow> notice \<Rightarrow> ('s, 't) sim \<Rightarrow> ('s, 't) sim option" where
  "notify E n what S =
    (case what of
       NoticeConnected peer \<Rightarrow> react E n (InConnected peer) S
     | NoticeRestarted r \<Rightarrow> react E n (InRestarted r) (log_event E n EvStarted S)
     | NoticeWriteStalled peer \<Rightarrow> react E n (InWriteStalled peer) S
     | NoticeWriteFlushed peer \<Rightarrow> react E n (InWriteFlushed peer) S)"

definition handle :: "('s, 'm, 't) sim_env \<Rightarrow> sim_event \<Rightarrow> ('s, 't) sim \<Rightarrow> ('s, 't) sim option" where
  "handle E event S =
    (case event of
       DeliverEvent a b payload connection \<Rightarrow> handle_delivery E a b payload connection S
     | FaultEvent f \<Rightarrow> apply_fault E f S
     | BreakEvent n peer \<Rightarrow> react E n (InTransportError peer) (log_event E n (EvBroken peer) S)
     | NotifyEvent n what \<Rightarrow> notify E n what S)"

fun fire_timers :: "('s, 'm, 't) sim_env \<Rightarrow> timer_key list \<Rightarrow> ('s, 't) sim \<Rightarrow> ('s, 't) sim option" where
  "fire_timers E [] S = Some S"
| "fire_timers E ((n, timer) # keys) S = do {
    S \<leftarrow> react E n (InTimer timer) (log_event E n (EvTimerFired timer) S);
    fire_timers E keys S }"

text \<open>When something is due next, in either queue.\<close>

definition next_due :: "('s, 'm, 't) sim_env \<Rightarrow> ('s, 't) sim \<Rightarrow> sim_time option" where
  "next_due E S =
    (case (timers_deadline (env_timers E) (sim_timers S), next_deadline (sim_queue S)) of
       (None, None) \<Rightarrow> None
     | (Some t, None) \<Rightarrow> Some t
     | (None, Some t) \<Rightarrow> Some t
     | (Some t, Some t') \<Rightarrow> Some (min t t'))"

definition fault_first :: "sim_time \<Rightarrow> ('s, 't) sim \<Rightarrow> bool" where
  "fault_first t S \<longleftrightarrow>
    (case queue_peek (sim_queue S) of Some (FaultEvent _) \<Rightarrow> True | _ \<Rightarrow> False) \<and> next_deadline (sim_queue S) = Some t"

text \<open>What is due at an instant: the timers unless a fault comes first, and the next event when no timer is; whether
  the loop goes on.\<close>

definition perform_due :: "('s, 'm, 't) sim_env \<Rightarrow> sim_time \<Rightarrow> ('s, 't) sim \<Rightarrow> (bool \<times> ('s, 't) sim) option" where
  "perform_due E t S =
    (let S = S\<lparr>sim_now := t\<rparr>;
         (fired, S) = (if fault_first t S then ([], S)
           else let (keys, timers) = timers_take_due (env_timers E) t (sim_timers S) in (keys, S\<lparr>sim_timers := timers\<rparr>))
     in if fired = []
        then case queue_pop (sim_queue S) of
            None \<Rightarrow> Some (False, S)
          | Some ((t', event), queue) \<Rightarrow> map_option (Pair True) (handle E event (S\<lparr>sim_queue := queue, sim_now := t'\<rparr>))
        else map_option (Pair True) (fire_timers E fired S))"

text \<open>The loop, which reads its budget at every step; no step changes it.\<close>

function run_loop ::
  "('s, 'm, 't) sim_env \<Rightarrow> sim_time \<Rightarrow> nat \<Rightarrow> nat \<Rightarrow> ('s, 't) sim \<Rightarrow> (sim_error option \<times> ('s, 't) sim) option" where
  "run_loop E deadline budget steps S =
    (case next_due E S of
       None \<Rightarrow> Some (None, S)
     | Some t \<Rightarrow>
        if t > deadline then Some (None, S)
        else if Suc steps > budget then Some (Some (StepBudgetExhausted (of_nat budget) t), S)
        else case perform_due E t S of
            None \<Rightarrow> None
          | Some (continue, S) \<Rightarrow> if continue then run_loop E deadline budget (Suc steps) S else Some (None, S))"
  by pat_completeness auto
termination by (relation "measure (\<lambda>(E, deadline, budget, steps, S). budget - steps)") auto

declare run_loop.simps [simp del]

fun start_nodes :: "('s, 'm, 't) sim_env \<Rightarrow> node_id list \<Rightarrow> ('s, 't) sim \<Rightarrow> ('s, 't) sim option" where
  "start_nodes E [] S = Some S"
| "start_nodes E (n # ns) S = do { S \<leftarrow> react E n InStarted (log_event E n EvStarted S); start_nodes E ns S }"

definition sim_start :: "('s, 'm, 't) sim_env \<Rightarrow> ('s, 't) sim \<Rightarrow> ('s, 't) sim option" where
  "sim_start E S =
    (if sim_started S then Some S else start_nodes E [0 ..< length (sim_nodes S)] (S\<lparr>sim_started := True\<rparr>))"

definition inject :: "('s, 'm, 't) sim_env \<Rightarrow> node_id \<Rightarrow> node_id \<Rightarrow> 'm \<Rightarrow> ('s, 't) sim \<Rightarrow> ('s, 't) sim option" where
  "inject E a b message S = react E b (InMessage a message) (log_event E b (EvReceived a (summarize (env_wire E) message)) S)"

text \<open>Idle time is skipped, except towards the end of time.\<close>

definition skip_idle :: "sim_time \<Rightarrow> ('s, 't) sim \<Rightarrow> ('s, 't) sim" where
  "skip_idle deadline S = (if sim_now S < deadline \<and> deadline \<noteq> END_OF_TIME then S\<lparr>sim_now := deadline\<rparr> else S)"

definition run_until :: "('s, 'm, 't) sim_env \<Rightarrow> sim_time \<Rightarrow> ('s, 't) sim \<Rightarrow> (sim_error option \<times> ('s, 't) sim) option" where
  "run_until E deadline S = do {
    S \<leftarrow> sim_start E S;
    (err, S) \<leftarrow> run_loop E deadline (unat (sim_budget S)) 0 S;
    Some (case err of Some e \<Rightarrow> (Some e, S) | None \<Rightarrow> (None, skip_idle deadline S)) }"

definition run_until_idle :: "('s, 'm, 't) sim_env \<Rightarrow> ('s, 't) sim \<Rightarrow> (sim_error option \<times> ('s, 't) sim) option" where
  "run_until_idle E S = run_until E END_OF_TIME S"

definition advance :: "('s, 'm, 't) sim_env \<Rightarrow> sim_duration \<Rightarrow> ('s, 't) sim \<Rightarrow> (sim_error option \<times> ('s, 't) sim) option" where
  "advance E by_time S = run_until E (sim_add (sim_now S) by_time) S"

end
