(* ===== verification/Simulated.thy ===== *)
theory Simulated imports Complex_Main Prelude Clock Rng Event_Queue Network Trace Sim begin

text \<open>
  What holds of every run of the simulator: time never runs backwards, a killed node stays silent,
  and what ends a run.  The laws of the kernel's timer queue are the hypothesis \<open>timer_laws\<close>, about
  the deadlines it holds.
\<close>

section \<open>The timer queue\<close>

definition timer_laws :: "'t timer_lib \<Rightarrow> ('t \<Rightarrow> timer_key \<Rightarrow> sim_time option) \<Rightarrow> bool" where
  "timer_laws L pending \<longleftrightarrow>
    (\<forall>k. pending (timers_new L) k = None)
    \<and> (\<forall>k now d t. pending (timers_set L k now d t) = (pending t)(k \<mapsto> sim_add now d))
    \<and> (\<forall>k t. pending (timers_clear L k t) = (pending t)(k := None))
    \<and> (\<forall>p t. pending (timers_forget L p t) = (\<lambda>k. if p k then None else pending t k))
    \<and> (\<forall>t. timers_deadline L t = None \<longleftrightarrow> (\<forall>k. pending t k = None))
    \<and> (\<forall>t d. timers_deadline L t = Some d \<longrightarrow> (\<exists>k. pending t k = Some d) \<and> (\<forall>k d'. pending t k = Some d' \<longrightarrow> d \<le> d'))
    \<and> (\<forall>now t keys t'. timers_take_due L now t = (keys, t') \<longrightarrow>
        set keys = {k. \<exists>d. pending t k = Some d \<and> d \<le> now} \<and> distinct keys
        \<and> pending t' = (\<lambda>k. if k \<in> set keys then None else pending t k))"

lemma timer_lawsD:
  assumes "timer_laws L pending"
  shows "pending (timers_new L) k = None"
    "pending (timers_set L k now after t) = (pending t)(k \<mapsto> sim_add now after)"
    "pending (timers_clear L k t) = (pending t)(k := None)"
    "pending (timers_forget L p t) = (\<lambda>k. if p k then None else pending t k)"
    "timers_deadline L t = None \<longleftrightarrow> (\<forall>k. pending t k = None)"
    "timers_deadline L t = Some d \<Longrightarrow> \<exists>k. pending t k = Some d"
    "timers_deadline L t = Some d \<Longrightarrow> pending t k = Some d' \<Longrightarrow> d \<le> d'"
    "timers_take_due L now t = (keys, t') \<Longrightarrow> set keys = {k. \<exists>d. pending t k = Some d \<and> d \<le> now}"
    "timers_take_due L now t = (keys, t') \<Longrightarrow> pending t' = (\<lambda>k. if k \<in> set keys then None else pending t k)"
  using assms unfolding timer_laws_def by blast+

section \<open>The invariant\<close>

text \<open>Everything scheduled is still to come and everything logged has been; a killed node waits for nothing,
  stalls nothing and has no write in any buffer, and a buffer is held only for a node that does not read.\<close>

definition to_come :: "sim_time \<Rightarrow> 'a event_heap \<Rightarrow> bool" where
  "to_come now q \<longleftrightarrow> (\<forall>s \<in> set (eq_heap q). now \<le> sc_at s)"

definition timers_to_come :: "('t \<Rightarrow> timer_key \<Rightarrow> sim_time option) \<Rightarrow> sim_time \<Rightarrow> node_id set \<Rightarrow> 't \<Rightarrow> bool" where
  "timers_to_come pending now killed t \<longleftrightarrow> (\<forall>k d. pending t k = Some d \<longrightarrow> now \<le> d \<and> fst k \<notin> killed)"

definition buffers_ok :: "node_id set \<Rightarrow> node_id set \<Rightarrow> (node_id \<Rightarrow> held_write list option) \<Rightarrow> bool" where
  "buffers_ok killed not_reading held \<longleftrightarrow> killed \<inter> not_reading = {}
    \<and> (\<forall>n ws. held n = Some ws \<longrightarrow> (\<forall>w \<in> set ws. n \<in> not_reading \<and> hw_from w \<notin> killed))"

definition sim_ok :: "('t \<Rightarrow> timer_key \<Rightarrow> sim_time option) \<Rightarrow> ('s, 't) sim \<Rightarrow> bool" where
  "sim_ok pending S \<longleftrightarrow> chronological (sim_now S) (sim_trace S) \<and> to_come (sim_now S) (sim_queue S)
    \<and> timers_to_come pending (sim_now S) (sim_killed S) (sim_timers S)
    \<and> buffers_ok (sim_killed S) (sim_not_reading S) (sim_held S)"

lemma to_come_schedule: "to_come now q \<Longrightarrow> now \<le> instant \<Longrightarrow> to_come now (schedule_at instant event q)"
  by (simp add: to_come_def schedule_at_def)

text \<open>The faults still to come.\<close>

definition coming_faults :: "('s, 't) sim \<Rightarrow> fault set" where
  "coming_faults S = {f. \<exists>s \<in> set (eq_heap (sim_queue S)). sc_payload s = FaultEvent f}"

text \<open>The trace of a state extends that of an earlier one by some lines.\<close>

definition extends :: "trace_log \<Rightarrow> trace_log \<Rightarrow> (trace_entry \<Rightarrow> bool) \<Rightarrow> bool" where
  "extends t t' ok \<longleftrightarrow> (\<exists>new. tr_entries t' = tr_entries t @ new \<and> (\<forall>e \<in> set new. ok e))"

lemma extends_refl [simp]: "extends t t ok"
  by (simp add: extends_def)

lemma extends_trans: "extends t t' ok \<Longrightarrow> extends t' t'' ok \<Longrightarrow> extends t t'' ok"
  unfolding extends_def by fastforce

lemma extends_record [simp]:
  "extends t (trace_record now n label event t) ok \<longleftrightarrow> ok \<lparr>te_at = now, te_seq = tr_next_seq t, te_node = n, te_name = label, te_event = event\<rparr>"
  by (simp add: extends_def trace_record_def)

text \<open>What the nodes' own reactions leave as it is.\<close>

definition kept :: "('s, 't) sim \<Rightarrow> ('s, 't) sim \<Rightarrow> bool" where
  "kept S S' \<longleftrightarrow> sim_now S' = sim_now S \<and> sim_budget S' = sim_budget S \<and> sim_killed S' = sim_killed S
    \<and> sim_not_reading S' = sim_not_reading S \<and> coming_faults S' = coming_faults S
    \<and> extends (sim_trace S) (sim_trace S') (\<lambda>_. True)"

text \<open>The lines a step adds, by what a node says: what it sent, waited for or noted.\<close>

definition speaks :: "trace_event \<Rightarrow> bool" where
  "speaks event \<longleftrightarrow> (case event of EvSent _ _ \<Rightarrow> True | EvDuplicated _ _ \<Rightarrow> True | EvTimerSet _ _ \<Rightarrow> True | EvTimerFired _ \<Rightarrow> True
    | EvTimerCleared _ \<Rightarrow> True | EvNote _ \<Rightarrow> True | _ \<Rightarrow> False)"

definition silent :: "node_id \<Rightarrow> ('s, 't) sim \<Rightarrow> ('s, 't) sim \<Rightarrow> bool" where
  "silent n S S' \<longleftrightarrow> get_at (sim_nodes S') n = get_at (sim_nodes S) n
    \<and> extends (sim_trace S) (sim_trace S') (\<lambda>e. te_node e = n \<longrightarrow> \<not> speaks (te_event e))"

lemma silent_refl [simp]: "silent n S S"
  by (simp add: silent_def)

lemma silent_trans: "silent n S S' \<Longrightarrow> silent n S' S'' \<Longrightarrow> silent n S S''"
  unfolding silent_def using extends_trans by fastforce

lemma kept_refl [simp]: "kept S S"
  by (simp add: kept_def)

lemma kept_trans: "kept S S' \<Longrightarrow> kept S' S'' \<Longrightarrow> kept S S''"
  unfolding kept_def using extends_trans by fastforce

text \<open>A step that keeps a state in order and in which no node but those of \<open>ms\<close> has a part.\<close>

definition good_step :: "('t \<Rightarrow> timer_key \<Rightarrow> sim_time option) \<Rightarrow> node_id set \<Rightarrow> ('s, 't) sim \<Rightarrow> ('s, 't) sim \<Rightarrow> bool" where
  "good_step pending ms S S' \<longleftrightarrow> (sim_ok pending S \<longrightarrow> sim_ok pending S') \<and> kept S S' \<and> (\<forall>n. n \<notin> ms \<longrightarrow> silent n S S')"

lemma good_refl [simp]: "good_step pending ms S S"
  by (simp add: good_step_def)

lemma good_trans: "good_step pending ms S S' \<Longrightarrow> good_step pending ms S' S'' \<Longrightarrow> good_step pending ms S S''"
  unfolding good_step_def using kept_trans silent_trans by blast

lemma good_mono: "good_step pending ms S S' \<Longrightarrow> ms \<subseteq> ms' \<Longrightarrow> good_step pending ms' S S'"
  unfolding good_step_def by blast

lemma good_killed: "good_step pending ms S S' \<Longrightarrow> sim_killed S' = sim_killed S"
  by (simp add: good_step_def kept_def)

lemmas good_defs = good_step_def sim_ok_def kept_def silent_def coming_faults_def

lemma good_log: "n \<in> ms \<or> \<not> speaks event \<Longrightarrow> good_step pending ms S T \<Longrightarrow> good_step pending ms S (log_event E n event T)"
  by (erule good_trans) (auto simp: good_defs log_event_def chronological_record)

definition no_fault :: "sim_event \<Rightarrow> bool" where
  "no_fault event \<longleftrightarrow> (case event of FaultEvent _ \<Rightarrow> False | _ \<Rightarrow> True)"

lemma good_enqueue: "no_fault event \<Longrightarrow> good_step pending ms S T \<Longrightarrow> good_step pending ms S (enqueue event T)"
  by (erule good_trans) (auto simp: good_defs enqueue_def to_come_schedule schedule_at_def no_fault_def to_come_def)

lemma good_enqueue_after:
  "no_fault event \<Longrightarrow> good_step pending ms S T \<Longrightarrow> good_step pending ms S (enqueue_after after event T)"
  by (erule good_trans)
    (auto simp: good_defs enqueue_after_def schedule_after_def schedule_at_def to_come_def no_fault_def)

lemma no_fault_simps [simp]: "no_fault (DeliverEvent a b p c)" "no_fault (BreakEvent a b)" "no_fault (NotifyEvent a what)"
  by (simp_all add: no_fault_def)

lemma good_links: "good_step pending ms S T \<Longrightarrow> good_step pending ms S (T\<lparr>sim_links := links\<rparr>)"
  by (erule good_trans) (auto simp: good_defs)

lemma good_connections: "good_step pending ms S T \<Longrightarrow> good_step pending ms S (T\<lparr>sim_connections := connections\<rparr>)"
  by (erule good_trans) (auto simp: good_defs)

lemma good_restarts: "good_step pending ms S T \<Longrightarrow> good_step pending ms S (T\<lparr>sim_restarts := restarts\<rparr>)"
  by (erule good_trans) (auto simp: good_defs)

lemma good_skew: "good_step pending ms S T \<Longrightarrow> good_step pending ms S (T\<lparr>sim_skew := skew\<rparr>)"
  by (erule good_trans) (auto simp: good_defs)

lemma good_started: "good_step pending ms S T \<Longrightarrow> good_step pending ms S (T\<lparr>sim_started := b\<rparr>)"
  by (erule good_trans) (auto simp: good_defs)

lemma good_node_alone: "n \<in> ms \<Longrightarrow> good_step pending ms T (T\<lparr>sim_nodes := (sim_nodes T)[n := node]\<rparr>)"
  by (auto simp: good_defs get_at_def) (metis nth_list_update_neq)

lemma good_node: "n \<in> ms \<Longrightarrow> good_step pending ms S T \<Longrightarrow> good_step pending ms S (T\<lparr>sim_nodes := (sim_nodes T)[n := node]\<rparr>)"
  by (erule good_trans) (rule good_node_alone)

lemmas good_intros = good_log good_enqueue good_enqueue_after good_links good_connections good_restarts good_skew good_started good_node

lemma buffers_hold:
  assumes "buffers_ok killed not_reading held" "hw_from w \<notin> killed" "n \<in> not_reading"
  shows "buffers_ok killed not_reading (held(n \<mapsto> (case held n of None \<Rightarrow> [] | Some ws \<Rightarrow> ws) @ [w]))"
  using assms by (cases "held n") (auto simp: buffers_ok_def)

lemma good_hold:
  "hw_from w \<notin> sim_killed S \<Longrightarrow> n \<in> sim_not_reading S \<Longrightarrow> good_step pending ms S (hold_write n w S)"
  by (auto simp: good_step_def hold_write_def sim_ok_def kept_def silent_def coming_faults_def buffers_hold)

lemma good_dispatch:
  assumes "dispatch E a b payload summary S = Some S'" "a \<in> ms"
  shows "good_step pending ms S S'"
proof -
  obtain decision l where S': "S' = (let T = S\<lparr>sim_links := (sim_links S)((a, b) \<mapsto> l)\<rparr>;
          event = DeliverEvent a b payload (connection_of T a b)
      in (case decision of
          DeliverDropped \<Rightarrow> log_event E a (EvDropped b summary) T
        | DeliverBroken \<Rightarrow> enqueue (BreakEvent a b) T
        | DeliverOnce after \<Rightarrow> enqueue_after after event T
        | DeliverTwice first second \<Rightarrow>
            enqueue_after second event (enqueue_after first event (log_event E a (EvDuplicated b summary) T))))"
    using assms(1) by (auto simp: dispatch_def Let_def split: bind_splits)
  show ?thesis unfolding S' Let_def using assms(2) by (cases decision) (auto intro!: good_intros)
qed

lemma good_send:
  assumes "sim_send E a b message S = Some S'" "a \<in> ms"
  shows "good_step pending ms S S'"
proof -
  let ?S = "log_event E a (EvSent b (summarize (env_wire E) message)) S"
  have logged: "good_step pending ms S ?S" using assms(2) by (intro good_log) auto
  show ?thesis
  proof (cases "\<not> (a \<in> sim_killed ?S \<or> b \<in> sim_killed ?S) \<and> b \<in> sim_not_reading ?S")
    case True
    let ?w = "\<lparr>hw_from = a, hw_bytes = wire_bytes (env_wire E) message, hw_summary = summarize (env_wire E) message\<rparr>"
    have "S' = enqueue (NotifyEvent a (NoticeWriteStalled b)) (hold_write b ?w ?S)"
      using assms(1) True by (simp add: sim_send_def Let_def)
    moreover have "good_step pending ms ?S (hold_write b ?w ?S)" using True by (intro good_hold) auto
    ultimately show ?thesis using good_trans [OF logged] by (auto intro: good_enqueue)
  next
    case False
    then have "dispatch E a b (wire_bytes (env_wire E) message) (summarize (env_wire E) message) ?S = Some S'"
      using assms(1) by (auto simp: sim_send_def Let_def split: if_splits)
    from good_trans [OF logged good_dispatch [OF this assms(2)]] show ?thesis .
  qed
qed

lemma good_timer_change:
  assumes "\<forall>k d. pending timers k = Some d \<longrightarrow> sim_now S \<le> d \<and> fst k \<notin> sim_killed S \<or> pending (sim_timers S) k = Some d"
  shows "good_step pending ms S (S\<lparr>sim_timers := timers\<rparr>)"
  using assms by (fastforce simp: good_defs timers_to_come_def)

lemma good_set_timer:
  assumes "timer_laws (env_timers E) pending" "n \<notin> sim_killed S" "n \<in> ms"
  shows "good_step pending ms S (set_timer E n timer after S)"
proof -
  have "good_step pending ms S
      (S\<lparr>sim_timers := timers_set (env_timers E) (n, timer) (sim_now S) (skewed S n after) (sim_timers S)\<rparr>)"
    using assms(2) by (intro good_timer_change) (simp add: timer_lawsD(2) [OF assms(1)])
  then show ?thesis using assms(3) by (auto simp: set_timer_def Let_def intro: good_log)
qed

lemma good_clear_timer:
  assumes "timer_laws (env_timers E) pending" "n \<in> ms"
  shows "good_step pending ms S (clear_timer E n timer S)"
proof -
  have "good_step pending ms S (S\<lparr>sim_timers := timers_clear (env_timers E) (n, timer) (sim_timers S)\<rparr>)"
    by (intro good_timer_change) (simp add: timer_lawsD(3) [OF assms(1)])
  then show ?thesis using assms(2) by (auto simp: clear_timer_def intro: good_log)
qed

lemma good_perform_one:
  assumes "timer_laws (env_timers E) pending" "n \<notin> sim_killed S" "n \<in> ms" "perform_one E n eff S = Some S'"
  shows "good_step pending ms S S'"
  using assms good_set_timer [OF assms(1-3)] good_clear_timer [OF assms(1,3)] good_send
  by (cases eff) (auto simp: perform_one_def intro: good_log)

lemma good_perform:
  assumes "timer_laws (env_timers E) pending" "n \<in> ms"
  shows "n \<notin> sim_killed S \<Longrightarrow> perform E n effs S = Some S' \<Longrightarrow> good_step pending ms S S'"
proof (induction effs arbitrary: S)
  case (Cons eff effs)
  then obtain T where T: "perform_one E n eff S = Some T" "perform E n effs T = Some S'" by (auto split: bind_splits)
  from good_perform_one [OF assms(1) Cons.prems(1) assms(2) T(1)] have "good_step pending ms S T" .
  moreover have "good_step pending ms T S'"
    using Cons.IH [OF _ T(2)] Cons.prems(1) good_killed [OF \<open>good_step pending ms S T\<close>] by simp
  ultimately show ?case by (rule good_trans)
qed simp

text \<open>A killed node has no part in what it is handed.\<close>

lemma good_react:
  assumes "timer_laws (env_timers E) pending" "react E n inp S = Some S'"
  shows "good_step pending ({n} - sim_killed S) S S'"
proof (cases "n \<in> sim_killed S \<or> get_at (sim_nodes S) n = None")
  case True
  then have "S' = S" using assms(2) by (cases "n \<in> sim_killed S") (auto simp: react_def deliver_def)
  then show ?thesis by simp
next
  case False
  then obtain node where node: "get_at (sim_nodes S) n = Some node" "n \<notin> sim_killed S" by auto
  obtain effs node' where on: "on_input (env_code E) (sim_now S) inp node = (effs, node')" by fastforce
  let ?S = "S\<lparr>sim_nodes := (sim_nodes S)[n := node']\<rparr>"
  have step: "good_step pending ({n} - sim_killed S) S ?S" using node(2) by (intro good_node) auto
  have "perform E n effs ?S = Some S'" using assms(2) node on by (simp add: react_def deliver_def)
  with good_perform [OF assms(1), of n "{n} - sim_killed S" ?S effs S'] node(2)
  have "good_step pending ({n} - sim_killed S) ?S S'" by simp
  with step show ?thesis by (rule good_trans)
qed

section \<open>Faults\<close>

text \<open>A step of the run, at its instant: in order after it, nothing rewritten; a node of no fault still to
  restart it stays killed and silent.  The nodes of \<open>X\<close> are those the step itself restarts.\<close>

definition spared :: "node_id \<Rightarrow> ('s, 't) sim \<Rightarrow> bool" where
  "spared n S \<longleftrightarrow> n \<in> sim_killed S \<and> RestartNode n \<notin> coming_faults S"

definition run_step ::
  "('t \<Rightarrow> timer_key \<Rightarrow> sim_time option) \<Rightarrow> node_id set \<Rightarrow> ('s, 't) sim \<Rightarrow> ('s, 't) sim \<Rightarrow> bool" where
  "run_step pending X S S' \<longleftrightarrow> sim_ok pending S' \<and> sim_now S' = sim_now S \<and> sim_budget S' = sim_budget S
    \<and> extends (sim_trace S) (sim_trace S') (\<lambda>_. True) \<and> (\<forall>n. n \<notin> X \<longrightarrow> spared n S \<longrightarrow> spared n S' \<and> silent n S S')"

lemma run_refl: "sim_ok pending S \<Longrightarrow> run_step pending X S S"
  by (simp add: run_step_def)

lemma run_trans: "run_step pending X S S' \<Longrightarrow> run_step pending X S' S'' \<Longrightarrow> run_step pending X S S''"
  unfolding run_step_def using extends_trans silent_trans by (metis order.trans)

lemma run_trans_except:
  "run_step pending X S S' \<Longrightarrow> run_step pending Y S' S'' \<Longrightarrow> (\<And>n. n \<in> Y \<Longrightarrow> spared n S \<Longrightarrow> n \<in> X) \<Longrightarrow> run_step pending X S S''"
  unfolding run_step_def using extends_trans silent_trans by (metis order.trans)

lemma run_mono: "run_step pending X S S' \<Longrightarrow> X \<subseteq> Y \<Longrightarrow> run_step pending Y S S'"
  unfolding run_step_def by blast

lemma run_good: "sim_ok pending S \<Longrightarrow> good_step pending ms S S' \<Longrightarrow> ms \<inter> sim_killed S = {} \<Longrightarrow> run_step pending X S S'"
  unfolding run_step_def good_step_def spared_def kept_def by auto

lemma run_ok: "run_step pending X S S' \<Longrightarrow> sim_ok pending S'"
  by (simp add: run_step_def)

text \<open>What the faults do to the links, the connections and the buffers.\<close>

lemma good_cut: "good_step pending {} S (cut_between E as bs severed S)"
proof -
  have one: "good_step pending {} S T \<Longrightarrow> good_step pending {} S (set_partitioned E a b severed T)" for a b T
    by (simp add: set_partitioned_def Let_def split_beta good_links)
  have many: "good_step pending {} S T \<Longrightarrow>
      good_step pending {} S (fold (\<lambda>b S. set_partitioned E b a severed (set_partitioned E a b severed S)) bs T)" for a bs T
    by (induction bs arbitrary: T) (auto intro: one)
  have "good_step pending {} S T \<Longrightarrow> good_step pending {} S (cut_between E as bs severed T)" for T
    unfolding cut_between_def by (induction as arbitrary: T) (auto intro: many)
  then show ?thesis by simp
qed

lemma good_policy: "good_step pending {} S (set_link_policy E a b policy S)"
  by (simp add: set_link_policy_def Let_def good_links)

lemma good_held:
  assumes "\<And>killed not_reading. buffers_ok killed not_reading (sim_held S) \<Longrightarrow> buffers_ok killed not_reading held"
  shows "good_step pending ms S (S\<lparr>sim_held := held\<rparr>)"
  using assms by (auto simp: good_defs)

lemma good_retain: "good_step pending ms S T \<Longrightarrow> good_step pending ms S (retain_held keep holder T)"
  unfolding retain_held_def by (erule good_trans, rule good_held) (auto simp: buffers_ok_def)

lemma good_bump: "good_step pending ms S T \<Longrightarrow> good_step pending ms S (bump_connection a b T)"
  by (simp add: bump_connection_def good_connections)

lemma good_reconnect: "good_step pending {} S (reconnect a b S)"
  by (auto simp: reconnect_def Let_def discard_held_between_def intro!: good_enqueue good_retain good_bump)

lemma good_bump_all: "good_step pending ms S T \<Longrightarrow> good_step pending ms S (bump_all n peers T)"
  unfolding bump_all_def by (induction peers arbitrary: T) (auto intro: good_bump)

lemma good_break_all: "good_step pending ms S T \<Longrightarrow> good_step pending ms S (break_all n peers T)"
  unfolding break_all_def by (induction peers arbitrary: T) (simp_all add: good_enqueue)

text \<open>Changing who is killed and who reads: the timers and the writes of the killed are gone.\<close>

lemma forget_pending:
  assumes "timer_laws (env_timers E) pending"
  shows "pending (timers_forget (env_timers E) (\<lambda>(owner, _). owner = n) t) = (\<lambda>k. if fst k = n then None else pending t k)"
  by (simp add: timer_lawsD(4) [OF assms] fun_eq_iff split_beta)

lemmas run_defs = run_step_def sim_ok_def timers_to_come_def buffers_ok_def spared_def silent_def coming_faults_def

lemma run_kill:
  assumes "timer_laws (env_timers E) pending" "sim_ok pending S"
  shows "run_step pending X S (kill_node E n S)"
  using assms(2)
  by (auto simp: run_defs kill_node_def Let_def forget_timers_def forget_pending [OF assms(1)] discard_held_involving_def)

lemma run_unkill:
  assumes "timer_laws (env_timers E) pending" "sim_ok pending S"
  shows "run_step pending {n} S (forget_timers E n (S\<lparr>sim_killed := sim_killed S - {n}\<rparr>))"
  using assms(2) by (auto simp: run_defs forget_timers_def forget_pending [OF assms(1)])

lemma run_discard:
  assumes "sim_ok pending S"
  shows "run_step pending X S (discard_held_involving n (S\<lparr>sim_not_reading := sim_not_reading S - {n}\<rparr>))"
  using assms by (auto simp: run_defs discard_held_involving_def)

lemma run_restart:
  assumes "timer_laws (env_timers E) pending" "sim_ok pending S"
  shows "run_step pending {n} S (restart E n S)"
proof -
  let ?peers = "filter (\<lambda>peer. peer \<noteq> n) [0 ..< length (sim_nodes S)]"
  let ?A = "forget_timers E n (S\<lparr>sim_killed := sim_killed S - {n}\<rparr>)"
  let ?B = "bump_all n ?peers ?A"
  let ?C = "discard_held_involving n (?B\<lparr>sim_not_reading := sim_not_reading ?B - {n}\<rparr>)"
  let ?D = "break_all n ?peers ?C"
  have A: "run_step pending {n} S ?A" using assms by (rule run_unkill)
  have B: "run_step pending {n} ?A ?B" using run_ok [OF A] by (rule run_good [where ms = "{}"]) (auto intro: good_bump_all)
  have C: "run_step pending {n} ?B ?C" using run_ok [OF B] by (rule run_discard)
  have nodes: "sim_nodes ?A = sim_nodes S" by (simp add: forget_timers_def)
  have "good_step pending {} ?C (restart E n S)"
    by (auto simp: restart_def Let_def nodes intro!: good_enqueue good_restarts good_break_all)
  then have "run_step pending {n} ?C (restart E n S)" using run_ok [OF C] by (intro run_good [where ms = "{}"]) auto
  with A B C show ?thesis by (blast intro: run_trans)
qed

lemma run_stop: "sim_ok pending S \<Longrightarrow> run_step pending X S (stop_reading n S)"
  by (auto simp: run_defs stop_reading_def)

lemma good_release:
  assumes "release_writes E n ws S = Some S'" "\<forall>w \<in> set ws. hw_from w \<in> ms"
  shows "good_step pending ms S S'"
  using assms
proof (induction ws arbitrary: S)
  case (Cons w ws)
  let ?S = "enqueue (NotifyEvent (hw_from w) (NoticeWriteFlushed n)) S"
  from Cons.prems(1) obtain T where T: "dispatch E (hw_from w) n (hw_bytes w) (hw_summary w) ?S = Some T"
    "release_writes E n ws T = Some S'" by (auto split: bind_splits)
  have "good_step pending ms S ?S" by (rule good_enqueue) auto
  moreover have "good_step pending ms ?S T" using good_dispatch [OF T(1)] Cons.prems(2) by simp
  moreover have "good_step pending ms T S'" using Cons.IH [OF T(2)] Cons.prems(2) by simp
  ultimately show ?case by (blast intro: good_trans)
qed simp

lemma run_resume:
  assumes "sim_ok pending S" "resume_reading E n S = Some S'"
  shows "run_step pending X S S'"
proof -
  let ?S = "S\<lparr>sim_not_reading := sim_not_reading S - {n}, sim_held := (sim_held S)(n := None)\<rparr>"
  let ?ws = "case sim_held S n of None \<Rightarrow> [] | Some ws \<Rightarrow> ws"
  have S: "run_step pending X S ?S" using assms(1) by (auto simp: run_defs)
  have "good_step pending (hw_from ` set ?ws) ?S S'"
    using assms(2) by (intro good_release) (auto simp: resume_reading_def)
  moreover have "hw_from ` set ?ws \<inter> sim_killed ?S = {}"
    using assms(1) by (cases "sim_held S n") (auto simp: sim_ok_def buffers_ok_def)
  ultimately have "run_step pending X ?S S'" using run_ok [OF S] by (blast intro: run_good)
  with S show ?thesis by (rule run_trans)
qed

lemma run_log:
  assumes "sim_ok pending S" "\<not> speaks event"
  shows "run_step pending X S (log_event E n event S)"
  using assms by (intro run_good [where ms = "{}"] good_log) auto

lemma run_fault:
  assumes "timer_laws (env_timers E) pending" "sim_ok pending S" "apply_fault E f S = Some S'"
  shows "run_step pending {n. f = RestartNode n} S S'"
proof -
  let ?X = "{n. f = RestartNode n}"
  let ?S = "log_event E (fault_anchor f) (EvFault (fault_summary (env_f64 E) f)) S"
  have log: "run_step pending ?X S ?S" using assms(2) by (rule run_log) (simp add: speaks_def)
  note ok = run_ok [OF log]
  have quiet: "run_step pending X ?S T" if "good_step pending {} ?S T" for X T using ok that by (intro run_good [where ms = "{}"]) auto
  have "run_step pending ?X ?S S'"
  proof (cases f)
    case (RestartNode n)
    have "{n'. RestartNode n = RestartNode n'} = {n}" by auto
    then show ?thesis using assms(3) run_restart [OF assms(1) ok, of n] RestartNode by (simp add: apply_fault_def Let_def)
  next
    case (ResumeReading n)
    with assms(3) ok show ?thesis by (intro run_resume [of _ _ E n]) (simp_all add: apply_fault_def Let_def)
  next
    case (KillNode n)
    with assms(3) run_kill [OF assms(1) ok] show ?thesis by (auto simp: apply_fault_def Let_def)
  next
    case (StopReading n)
    with assms(3) run_stop [OF ok] show ?thesis by (auto simp: apply_fault_def Let_def)
  qed (use assms(3) quiet in \<open>auto simp: apply_fault_def Let_def good_cut good_policy good_skew good_reconnect\<close>)
  with log show ?thesis by (rule run_trans)
qed

section \<open>The loop\<close>

lemma run_react:
  assumes "timer_laws (env_timers E) pending" "sim_ok pending S" "react E n inp S = Some S'"
  shows "run_step pending X S S'"
  using assms(2) good_react [OF assms(1,3)] by (rule run_good) auto

lemma run_log_react:
  assumes "timer_laws (env_timers E) pending" "sim_ok pending S" "\<not> speaks event" "react E n inp (log_event E m event S) = Some S'"
  shows "run_step pending X S S'"
proof -
  have "run_step pending X S (log_event E m event S)" using assms(2,3) by (rule run_log)
  with run_react [OF assms(1) run_ok [OF this] assms(4)] show ?thesis by (blast intro: run_trans)
qed

lemma quiet_events [simp]:
  "\<not> speaks EvStarted" "\<not> speaks (EvReceived b what)" "\<not> speaks (EvDropped b what)" "\<not> speaks (EvBroken b)"
  "\<not> speaks (EvMalformed b what)" "\<not> speaks (EvFault what)"
  by (simp_all add: speaks_def)

lemma run_delivery:
  assumes "timer_laws (env_timers E) pending" "sim_ok pending S" "handle_delivery E a b payload connection S = Some S'"
  shows "run_step pending X S S'"
proof (cases "wire_parse (env_wire E) payload")
  case (Inl reason)
  with assms(3) show ?thesis by (auto simp: handle_delivery_def intro: run_log [OF assms(2)])
next
  case (Inr message)
  with assms(3) run_log_react [OF assms(1,2) quiet_events(2)] show ?thesis
    by (auto simp: handle_delivery_def intro: run_log [OF assms(2)] split: if_splits)
qed

lemma run_handle:
  assumes "timer_laws (env_timers E) pending" "sim_ok pending S" "handle E event S = Some S'"
  shows "run_step pending {n. event = FaultEvent (RestartNode n)} S S'"
proof (cases event)
  case (DeliverEvent a b payload connection)
  with assms(3) run_delivery [OF assms(1,2)] show ?thesis by (auto simp: handle_def)
next
  case (BreakEvent n peer)
  with assms(3) run_log_react [OF assms(1,2) quiet_events(4)] show ?thesis by (auto simp: handle_def)
next
  case (FaultEvent f)
  with run_fault [OF assms(1,2), of f S'] assms(3) show ?thesis by (simp add: handle_def)
next
  case (NotifyEvent n what)
  with assms(3) run_react [OF assms(1,2)] run_log_react [OF assms(1,2) quiet_events(1)] show ?thesis
    by (cases what) (auto simp: handle_def notify_def)
qed

lemma good_fire:
  assumes "timer_laws (env_timers E) pending"
  shows "\<forall>k \<in> set keys. fst k \<notin> sim_killed S \<Longrightarrow> fire_timers E keys S = Some S' \<Longrightarrow>
    good_step pending (- sim_killed S) S S'"
proof (induction keys arbitrary: S)
  case (Cons key keys)
  obtain n timer where key: "key = (n, timer)" by (cases key) auto
  let ?S = "log_event E n (EvTimerFired timer) S"
  obtain T where T: "react E n (InTimer timer) ?S = Some T" "fire_timers E keys T = Some S'"
    using Cons.prems(2) key by (auto split: bind_splits)
  have log: "good_step pending (- sim_killed S) S ?S" using Cons.prems(1) key by (intro good_log) auto
  have step: "good_step pending (- sim_killed S) ?S T"
    by (rule good_mono [OF good_react [OF assms T(1)]]) (auto simp: good_killed [OF log])
  note killed = good_killed [OF step] good_killed [OF log]
  have "good_step pending (- sim_killed T) T S'" using Cons.prems(1) by (intro Cons.IH [OF _ T(2)]) (simp add: killed)
  with log step show ?case by (auto simp: killed intro: good_trans)
qed simp

lemma run_fire:
  assumes "timer_laws (env_timers E) pending" "sim_ok pending S" "\<forall>k \<in> set keys. fst k \<notin> sim_killed S"
    "fire_timers E keys S = Some S'"
  shows "run_step pending X S S'"
  using assms(2) good_fire [OF assms(1,3,4)] by (rule run_good) auto

text \<open>The next instant of either queue, and nothing before it.\<close>

lemma heap_next:
  assumes "next_deadline q = Some t"
  shows "to_come t q" "queue_pop q = Some ((t', event), q') \<Longrightarrow> t' = t"
  using assms heap_pop_greatest
  by (fastforce simp: next_deadline_def to_come_def queue_pop_def sc_key_def less_eq_prod_def heap_pop_kept)+

lemma to_come_mono: "to_come t q \<Longrightarrow> t' \<le> t \<Longrightarrow> to_come t' q"
  by (auto simp: to_come_def)

lemma no_deadline: "next_deadline q = None \<longleftrightarrow> eq_heap q = []"
  by (simp add: next_deadline_def heap_pop_None)

lemma next_due_bounds:
  assumes "timer_laws (env_timers E) pending" "next_due E S = Some t"
  shows "to_come t (sim_queue S)" "pending (sim_timers S) k = Some d \<Longrightarrow> t \<le> d"
proof -
  show "to_come t (sim_queue S)"
    using assms(2) heap_next(1) [of "sim_queue S"]
    by (cases "next_deadline (sim_queue S)") (auto simp: next_due_def no_deadline to_come_def min.coboundedI2 split: option.splits)
  assume k: "pending (sim_timers S) k = Some d"
  then obtain d' where d': "timers_deadline (env_timers E) (sim_timers S) = Some d'"
    using timer_lawsD(5) [OF assms(1), of "sim_timers S"] by (cases "timers_deadline (env_timers E) (sim_timers S)"; cases k) auto
  have "t \<le> d'" using assms(2) d' by (auto simp: next_due_def split: option.splits)
  also have "d' \<le> d" using timer_lawsD(7) [OF assms(1) d' k] .
  finally show "t \<le> d" .
qed

lemma next_due_after:
  assumes "timer_laws (env_timers E) pending" "sim_ok pending S" "next_due E S = Some t"
  shows "sim_now S \<le> t"
proof (cases "next_deadline (sim_queue S) = Some t")
  case True
  then obtain s r where "heap_pop (eq_heap (sim_queue S)) = Some (s, r)" "sc_at s = t" by (auto simp: next_deadline_def)
  with heap_pop_kept(1) assms(2) show ?thesis by (fastforce simp: sim_ok_def to_come_def)
next
  case False
  then have "timers_deadline (env_timers E) (sim_timers S) = Some t"
    using assms(3) by (auto simp: next_due_def min_def split: option.splits if_splits)
  from timer_lawsD(6) [OF assms(1) this] assms(2) show ?thesis by (auto simp: sim_ok_def timers_to_come_def)
qed

lemma now_ok:
  assumes "timer_laws (env_timers E) pending" "sim_ok pending S" "next_due E S = Some t"
  shows "sim_ok pending (S\<lparr>sim_now := t\<rparr>)"
  using assms(2) next_due_bounds [OF assms(1,3)] next_due_after [OF assms]
  by (auto simp: sim_ok_def timers_to_come_def chronological_later)

text \<open>Popping an event at its instant, and taking the timers that are due.\<close>

lemma run_pop:
  assumes "sim_ok pending S" "queue_pop (sim_queue S) = Some ((t, event), q)" "t = sim_now S"
  shows "run_step pending {} S (S\<lparr>sim_queue := q, sim_now := t\<rparr>)" "spared n S \<Longrightarrow> event \<noteq> FaultEvent (RestartNode n)"
proof -
  obtain s where s: "heap_pop (eq_heap (sim_queue S)) = Some (s, eq_heap q)" "event = sc_payload s"
    using assms(2) by (auto simp: queue_pop_def)
  note heap = heap_pop_kept(1) [OF s(1)]
  show "run_step pending {} S (S\<lparr>sim_queue := q, sim_now := t\<rparr>)"
    using assms(1,3) heap by (auto simp: run_step_def sim_ok_def to_come_def spared_def coming_faults_def silent_def)
  show "spared n S \<Longrightarrow> event \<noteq> FaultEvent (RestartNode n)"
    using heap s(2) by (auto simp: spared_def coming_faults_def)
qed

lemma run_take:
  assumes "timer_laws (env_timers E) pending" "sim_ok pending S" "timers_take_due (env_timers E) t (sim_timers S) = (keys, timers)"
  shows "run_step pending X S (S\<lparr>sim_timers := timers\<rparr>)" "\<forall>k \<in> set keys. fst k \<notin> sim_killed S"
proof -
  show "run_step pending X S (S\<lparr>sim_timers := timers\<rparr>)"
    using assms(2) timer_lawsD(9) [OF assms(1,3)]
    by (auto simp: run_step_def sim_ok_def timers_to_come_def spared_def coming_faults_def silent_def)
  show "\<forall>k \<in> set keys. fst k \<notin> sim_killed S"
    using assms(2) timer_lawsD(8) [OF assms(1,3)] by (auto simp: sim_ok_def timers_to_come_def)
qed

lemma run_event:
  assumes "timer_laws (env_timers E) pending" "sim_ok pending S" "queue_pop (sim_queue S) = Some ((t, event), q)" "t = sim_now S"
    "handle E event (S\<lparr>sim_queue := q, sim_now := t\<rparr>) = Some S'"
  shows "run_step pending {} S S'"
proof -
  note pop = run_pop [OF assms(2-4)]
  from pop(1) run_handle [OF assms(1) run_ok [OF pop(1)] assms(5)] show ?thesis
    by (rule run_trans_except) (use pop(2) in auto)
qed

text \<open>One turn of the loop, which always goes on: something is due at the instant it moves to.\<close>

lemma run_due:
  assumes "timer_laws (env_timers E) pending" "sim_ok pending S" "next_due E S = Some t" "perform_due E t S = Some (continue, S')"
  shows "continue" "run_step pending {} (S\<lparr>sim_now := t\<rparr>) S'"
proof -
  let ?S = "S\<lparr>sim_now := t\<rparr>"
  have now: "sim_ok pending ?S" by (rule now_ok [OF assms(1-3)])
  obtain keys timers where taken:
    "(if fault_first t ?S then ([], ?S)
      else let (keys, timers) = timers_take_due (env_timers E) t (sim_timers ?S) in (keys, ?S\<lparr>sim_timers := timers\<rparr>)) =
     (keys, ?S\<lparr>sim_timers := timers\<rparr>)"
    "keys = [] \<Longrightarrow> next_deadline (sim_queue S) = Some t"
    "run_step pending {} ?S (?S\<lparr>sim_timers := timers\<rparr>)" "\<forall>k \<in> set keys. fst k \<notin> sim_killed S"
  proof (cases "fault_first t ?S")
    case True
    then show ?thesis using that [of "[]" "sim_timers S"] run_refl [OF now] by (simp add: fault_first_def)
  next
    case False
    obtain keys timers where due: "timers_take_due (env_timers E) t (sim_timers S) = (keys, timers)" by fastforce
    have "next_deadline (sim_queue S) = Some t" if "keys = []"
    proof (rule ccontr)
      assume "next_deadline (sim_queue S) \<noteq> Some t"
      then have "timers_deadline (env_timers E) (sim_timers S) = Some t"
        using assms(3) by (auto simp: next_due_def min_def split: option.splits if_splits)
      from timer_lawsD(6) [OF assms(1) this] timer_lawsD(8) [OF assms(1) due] that show False by auto
    qed
    with that [of keys timers] False due run_take [OF assms(1) now, of t keys timers] show ?thesis by simp
  qed
  let ?T = "?S\<lparr>sim_timers := timers\<rparr>"
  note T = taken(3)
  have "continue \<and> run_step pending {} ?S S'"
  proof (cases "keys = []")
    case True
    then obtain s where s: "heap_pop (eq_heap (sim_queue S)) = Some s" "sc_at (fst s) = t"
      using taken(2) by (auto simp: next_deadline_def)
    then obtain event q where pop: "queue_pop (sim_queue ?T) = Some ((t, event), q)"
      by (cases s) (simp add: queue_pop_def)
    have "continue" and "handle E event (?T\<lparr>sim_queue := q, sim_now := t\<rparr>) = Some S'"
      using assms(4) True pop by (auto simp: perform_due_def Let_def taken(1))
    with run_trans [OF T run_event [OF assms(1) run_ok [OF T] pop _ this(2)]] show ?thesis by simp
  next
    case False
    then have "continue" and fire: "fire_timers E keys ?T = Some S'"
      using assms(4) by (auto simp: perform_due_def Let_def taken(1))
    have "run_step pending {} ?T S'" by (rule run_fire [OF assms(1) run_ok [OF T] _ fire]) (use taken(4) in simp)
    with run_trans [OF T this] \<open>continue\<close> show ?thesis by simp
  qed
  then show "continue" "run_step pending {} ?S S'" by simp_all
qed

text \<open>Any number of steps.\<close>

definition run_span :: "('t \<Rightarrow> timer_key \<Rightarrow> sim_time option) \<Rightarrow> ('s, 't) sim \<Rightarrow> ('s, 't) sim \<Rightarrow> bool" where
  "run_span pending S S' \<longleftrightarrow> sim_ok pending S' \<and> sim_now S \<le> sim_now S' \<and> sim_budget S' = sim_budget S
    \<and> extends (sim_trace S) (sim_trace S') (\<lambda>_. True) \<and> (\<forall>n. spared n S \<longrightarrow> spared n S' \<and> silent n S S')"

lemma span_refl: "sim_ok pending S \<Longrightarrow> run_span pending S S"
  by (simp add: run_span_def)

lemma span_trans: "run_span pending S S' \<Longrightarrow> run_span pending S' S'' \<Longrightarrow> run_span pending S S''"
  unfolding run_span_def using extends_trans silent_trans by (metis order.trans)

lemma span_step: "run_step pending {} (S\<lparr>sim_now := t\<rparr>) S' \<Longrightarrow> sim_now S \<le> t \<Longrightarrow> run_span pending S S'"
  by (auto simp: run_step_def run_span_def spared_def coming_faults_def silent_def)

lemma span_same: "run_step pending {} S S' \<Longrightarrow> run_span pending S S'"
  by (auto simp: run_step_def run_span_def)

lemma run_start:
  assumes "timer_laws (env_timers E) pending"
  shows "sim_ok pending S \<Longrightarrow> start_nodes E ns S = Some S' \<Longrightarrow> run_step pending {} S S'"
proof (induction ns arbitrary: S)
  case Nil
  then show ?case by (simp add: run_refl)
next
  case (Cons n ns)
  from Cons.prems(2) obtain T where T: "react E n InStarted (log_event E n EvStarted S) = Some T" "start_nodes E ns T = Some S'"
    by (auto split: bind_splits)
  note step = run_log_react [OF assms Cons.prems(1) quiet_events(1) T(1)]
  from run_trans [OF step Cons.IH [OF run_ok [OF step] T(2)]] show ?case .
qed

lemma span_start:
  assumes "timer_laws (env_timers E) pending" "sim_ok pending S" "sim_start E S = Some S'"
  shows "run_step pending {} S S'"
proof (cases "sim_started S")
  case False
  have started: "run_step pending {} S (S\<lparr>sim_started := True\<rparr>)"
    using assms(2) by (rule run_good [where ms = "{}"]) (auto intro: good_started)
  from assms(3) False have "start_nodes E [0 ..< length (sim_nodes S)] (S\<lparr>sim_started := True\<rparr>) = Some S'"
    by (simp add: sim_start_def)
  from run_trans [OF started run_start [OF assms(1) run_ok [OF started] this]] show ?thesis .
qed (use assms in \<open>simp add: sim_start_def run_refl\<close>)

text \<open>What a run of the loop comes to.\<close>

definition settled :: "('s, 'm, 't) sim_env \<Rightarrow> sim_time \<Rightarrow> ('s, 't) sim \<Rightarrow> bool" where
  "settled E deadline S \<longleftrightarrow> (case next_due E S of None \<Rightarrow> True | Some t \<Rightarrow> deadline < t)"

lemma run_loop_spans:
  assumes "timer_laws (env_timers E) pending"
  shows "sim_ok pending S \<Longrightarrow> run_loop E deadline budget steps S = Some (err, S') \<Longrightarrow>
    run_span pending S S' \<and> sim_now S' \<le> max deadline (sim_now S)
    \<and> (case err of None \<Rightarrow> settled E deadline S'
       | Some (StepBudgetExhausted b t) \<Rightarrow> b = of_nat budget \<and> next_due E S' = Some t \<and> t \<le> deadline)"
  using assms
proof (induction E deadline budget steps S rule: run_loop.induct)
  case (1 E deadline budget steps S)
  note loop = trans [OF sym [OF run_loop.simps] 1(3)]
  show ?case
  proof (cases "next_due E S")
    case None
    with loop span_refl [OF 1(2)] show ?thesis by (auto simp: settled_def)
  next
    case (Some t)
    show ?thesis
    proof (cases "t > deadline \<or> Suc steps > budget")
      case True
      with loop Some span_refl [OF 1(2)] show ?thesis by (auto simp: settled_def split: if_splits)
    next
      case False
      with loop Some obtain continue T where T: "perform_due E t S = Some (continue, T)"
        "(if continue then run_loop E deadline budget (Suc steps) T else Some (None, T)) = Some (err, S')"
        by (auto split: option.splits)
      note due = run_due [OF 1(4,2) Some T(1)]
      have span: "run_span pending S T" by (rule span_step [OF due(2) next_due_after [OF 1(4,2) Some]])
      have now: "sim_now T = t" using due(2) by (simp add: run_step_def)
      have rest: "run_loop E deadline budget (Suc steps) T = Some (err, S')" using T(2) due(1) by simp
      have "run_span pending T S' \<and> sim_now S' \<le> max deadline (sim_now T)
          \<and> (case err of None \<Rightarrow> settled E deadline S'
             | Some (StepBudgetExhausted b t) \<Rightarrow> b = of_nat budget \<and> next_due E S' = Some t \<and> t \<le> deadline)"
        using False Some T(1) due(1) 1(4) rest run_ok [OF due(2)] by (intro 1(1) [of t "(continue, T)" continue T]) auto
      then show ?thesis using span_trans [OF span] now False by (auto simp: max_def split: if_splits)
    qed
  qed
qed

lemma span_skip:
  assumes "timer_laws (env_timers E) pending" "sim_ok pending S" "settled E deadline S"
  shows "run_span pending S (skip_idle deadline S)" "settled E deadline (skip_idle deadline S)"
proof -
  have next_skip: "next_due E (S\<lparr>sim_now := deadline\<rparr>) = next_due E S" by (simp add: next_due_def)
  then show "settled E deadline (skip_idle deadline S)" using assms(3) by (simp add: settled_def skip_idle_def)
  have "sim_ok pending (S\<lparr>sim_now := deadline\<rparr>)" if later: "sim_now S \<le> deadline"
  proof (cases "next_due E S")
    case (Some t)
    then have "deadline \<le> t" using assms(3) by (simp add: settled_def)
    with now_ok [OF assms(1,2) Some] assms(2) later next_due_bounds [OF assms(1) Some] show ?thesis
      by (fastforce simp: sim_ok_def timers_to_come_def chronological_later intro: to_come_mono order.trans)
  next
    case None
    then have "eq_heap (sim_queue S) = []" "pending (sim_timers S) k = None" for k
      using timer_lawsD(5) [OF assms(1), of "sim_timers S"] by (cases k; simp add: next_due_def no_deadline split: option.splits)+
    with assms(2) later show ?thesis by (auto simp: sim_ok_def to_come_def timers_to_come_def intro: chronological_later)
  qed
  with assms(2) show "run_span pending S (skip_idle deadline S)"
    by (auto simp: skip_idle_def run_span_def spared_def coming_faults_def silent_def)
qed

lemma run_until_spans:
  assumes "timer_laws (env_timers E) pending" "sim_ok pending S" "run_until E deadline S = Some (err, S')"
  shows "run_span pending S S'" "sim_now S' \<le> max deadline (sim_now S)"
    "case err of None \<Rightarrow> settled E deadline S' \<and> (deadline \<noteq> END_OF_TIME \<longrightarrow> sim_now S' = max deadline (sim_now S))
     | Some (StepBudgetExhausted b t) \<Rightarrow> b = sim_budget S \<and> next_due E S' = Some t \<and> t \<le> deadline"
proof -
  obtain T U where T: "sim_start E S = Some T" and U: "run_loop E deadline (unat (sim_budget T)) 0 T = Some (err, U)"
    and S': "S' = (if err = None then skip_idle deadline U else U)"
    using assms(3) by (auto simp: run_until_def split: bind_splits option.splits)
  note start = span_start [OF assms(1,2) T]
  note loop = run_loop_spans [OF assms(1) run_ok [OF start] U]
  have now: "sim_now T = sim_now S" "sim_budget T = sim_budget S" using start by (simp_all add: run_step_def)
  have span: "run_span pending S U" using span_trans [OF span_same [OF start]] loop by blast
  then have ok: "sim_ok pending U" "sim_now S \<le> sim_now U" by (simp_all add: run_span_def)
  show "run_span pending S S'"
    using span S' span_trans [OF span span_skip(1) [OF assms(1) ok(1)]] loop by (auto split: option.splits)
  show "sim_now S' \<le> max deadline (sim_now S)"
    using loop S' by (auto simp: now skip_idle_def split: if_splits)
  show "case err of None \<Rightarrow> settled E deadline S' \<and> (deadline \<noteq> END_OF_TIME \<longrightarrow> sim_now S' = max deadline (sim_now S))
     | Some (StepBudgetExhausted b t) \<Rightarrow> b = sim_budget S \<and> next_due E S' = Some t \<and> t \<le> deadline"
  proof (cases err)
    case None
    with loop S' span_skip(2) [OF assms(1) ok(1)] have "settled E deadline S'" by simp
    moreover have "sim_now S' = max deadline (sim_now S)" if "deadline \<noteq> END_OF_TIME"
      using None S' that loop ok(2) by (auto simp: skip_idle_def now max_def split: if_splits)
    ultimately show ?thesis using None by simp
  next
    case (Some e)
    with loop S' show ?thesis by (cases e) (simp add: now)
  qed
qed

end
