(* ===== verification/Run_Returns.thy ===== *)
theory Run_Returns imports Complex_Main Prelude Clock Rng Event_Queue Network Trace Sim Simulated begin

text \<open>
  That a run returns: over links whose latency is fixed there is nothing to draw, the loop is bounded by its budget, and
  every reaction of a node is one.  Then the theorems of the simulator.
\<close>

section \<open>A run over links of a fixed latency returns\<close>

text \<open>The one thing not known to end is the draw of a latency; a fixed latency is not drawn.\<close>

definition fixed_policy :: "link_policy \<Rightarrow> bool" where
  "fixed_policy p \<longleftrightarrow> is_deterministic (lp_latency p)"

definition fixed_links :: "('s, 't) sim \<Rightarrow> bool" where
  "fixed_links S \<longleftrightarrow> fixed_policy (sim_default_policy S) \<and> (\<forall>pair l. sim_links S pair = Some l \<longrightarrow> fixed_policy (lk_policy l))
    \<and> (\<forall>a b p. SetLinkPolicy a b p \<in> coming_faults S \<longrightarrow> fixed_policy p)"

definition yields :: "('s, 't) sim option \<Rightarrow> bool" where
  "yields result \<longleftrightarrow> (\<exists>S. result = Some S \<and> fixed_links S)"

lemma yields_some [simp]: "yields (Some S) \<longleftrightarrow> fixed_links S"
  by (simp add: yields_def)

lemma yields_bind: "yields result \<Longrightarrow> (\<And>S. fixed_links S \<Longrightarrow> yields (f S)) \<Longrightarrow> yields (Option.bind result f)"
  by (auto simp: yields_def)

lemma fixed_events [simp]:
  "fixed_links (log_event E n event S) \<longleftrightarrow> fixed_links S"
  "fixed_links (set_timer E n timer after S) \<longleftrightarrow> fixed_links S"
  "fixed_links (clear_timer E n timer S) \<longleftrightarrow> fixed_links S"
  "fixed_links (hold_write n w S) \<longleftrightarrow> fixed_links S"
  "fixed_links (forget_timers E n S) \<longleftrightarrow> fixed_links S"
  "fixed_links (retain_held keep n S) \<longleftrightarrow> fixed_links S"
  "fixed_links (discard_held_involving n S) \<longleftrightarrow> fixed_links S"
  "fixed_links (bump_connection n m S) \<longleftrightarrow> fixed_links S"
  by (simp_all add: fixed_links_def log_event_def coming_faults_def set_timer_def clear_timer_def hold_write_def forget_timers_def
      retain_held_def discard_held_involving_def bump_connection_def Let_def)

lemma coming_enqueued [simp]:
  "no_fault ev \<Longrightarrow> coming_faults (enqueue ev S) = coming_faults S"
  "no_fault ev \<Longrightarrow> coming_faults (enqueue_after after ev S) = coming_faults S"
  by (auto simp: enqueue_def enqueue_after_def schedule_after_def schedule_at_def coming_faults_def no_fault_def)

lemma fixed_enqueue [simp]:
  "no_fault ev \<Longrightarrow> fixed_links (enqueue ev S) \<longleftrightarrow> fixed_links S"
  "no_fault ev \<Longrightarrow> fixed_links (enqueue_after after ev S) \<longleftrightarrow> fixed_links S"
  by (simp add: fixed_links_def, simp add: enqueue_def) (simp add: fixed_links_def, simp add: enqueue_after_def)

lemma fixed_updates [simp]:
  "fixed_links (S\<lparr>sim_now := t\<rparr>) \<longleftrightarrow> fixed_links S" "fixed_links (S\<lparr>sim_timers := timers\<rparr>) \<longleftrightarrow> fixed_links S"
  "fixed_links (S\<lparr>sim_nodes := nodes\<rparr>) \<longleftrightarrow> fixed_links S" "fixed_links (S\<lparr>sim_killed := ns\<rparr>) \<longleftrightarrow> fixed_links S"
  "fixed_links (S\<lparr>sim_not_reading := ns\<rparr>) \<longleftrightarrow> fixed_links S" "fixed_links (S\<lparr>sim_held := held\<rparr>) \<longleftrightarrow> fixed_links S"
  "fixed_links (S\<lparr>sim_skew := skew\<rparr>) \<longleftrightarrow> fixed_links S" "fixed_links (S\<lparr>sim_restarts := restarts\<rparr>) \<longleftrightarrow> fixed_links S"
  "fixed_links (S\<lparr>sim_started := b\<rparr>) \<longleftrightarrow> fixed_links S"
  by (simp_all add: fixed_links_def coming_faults_def)

lemma fixed_put: "fixed_links S \<Longrightarrow> fixed_policy (lk_policy l) \<Longrightarrow> fixed_links (S\<lparr>sim_links := (sim_links S)(pair \<mapsto> l)\<rparr>)"
  by (auto simp: fixed_links_def coming_faults_def)

lemma fixed_link: "fixed_links S \<Longrightarrow> fixed_policy policy \<Longrightarrow> fixed_policy (lk_policy (link_or_new E S a b kind policy))"
  by (auto simp: fixed_links_def link_or_new_def link_new_def split: option.splits)

lemma decide_returns: "fixed_policy (lk_policy l) \<Longrightarrow> \<exists>d l'. decide now l = Some (d, l') \<and> fixed_policy (lk_policy l')"
proof -
  assume l: "fixed_policy (lk_policy l)"
  obtain f where "\<And>rng. sample_latency (lp_latency (lk_policy l)) rng = Some (f rng, rng)"
    using sample_deterministic l unfolding fixed_policy_def by metis
  then have "decide now l \<noteq> None" by (simp add: decide_def Let_def split_beta)
  then obtain d l' where "decide now l = Some (d, l')" by auto
  with decide_policy [OF this] l show ?thesis by auto
qed

lemma yields_dispatch:
  assumes "fixed_links S"
  shows "yields (dispatch E a b payload summary S)"
proof -
  let ?l = "link_between E S a b"
  have l: "fixed_policy (lk_policy ?l)"
    unfolding link_between_def using assms by (intro fixed_link) (auto simp: fixed_links_def)
  obtain d l' where d: "(if a \<in> sim_killed S \<or> b \<in> sim_killed S then Some (cut_outcome ?l, ?l) else decide (sim_now S) ?l) = Some (d, l')"
    "fixed_policy (lk_policy l')"
    using decide_returns [OF l, of "sim_now S"] l by (cases "a \<in> sim_killed S \<or> b \<in> sim_killed S") auto
  from fixed_put [OF assms d(2)] show ?thesis by (cases d) (auto simp: dispatch_def Let_def d(1))
qed

lemma yields_send: "fixed_links S \<Longrightarrow> yields (sim_send E a b message S)"
  by (simp add: sim_send_def Let_def yields_dispatch)

lemma yields_perform: "fixed_links S \<Longrightarrow> yields (perform E n effs S)"
proof (induction effs arbitrary: S)
  case (Cons eff effs)
  have "yields (perform_one E n eff S)" using Cons.prems by (cases eff) (simp_all add: perform_one_def yields_send)
  then show ?case unfolding perform.simps by (rule yields_bind) (rule Cons.IH)
qed simp

lemma yields_react: "fixed_links S \<Longrightarrow> yields (react E n inp S)"
  by (auto simp: react_def deliver_def Let_def split_beta intro: yields_perform split: option.splits)

lemma fixed_partition: "fixed_links S \<Longrightarrow> fixed_links (set_partitioned E a b severed S)"
  by (auto simp: set_partitioned_def Let_def fixed_policy_def fixed_links_def coming_faults_def split: option.splits)

lemma fixed_cut: "fixed_links S \<Longrightarrow> fixed_links (cut_between E as bs severed S)"
proof -
  have many: "fixed_links T \<Longrightarrow>
      fixed_links (fold (\<lambda>b S. set_partitioned E b a severed (set_partitioned E a b severed S)) bs T)" for a bs T
    by (induction bs arbitrary: T) (auto intro: fixed_partition)
  show "fixed_links S \<Longrightarrow> fixed_links (cut_between E as bs severed S)"
    unfolding cut_between_def by (induction as arbitrary: S) (auto intro: many)
qed

lemma fixed_set_policy: "fixed_links S \<Longrightarrow> fixed_policy policy \<Longrightarrow> fixed_links (set_link_policy E a b policy S)"
  unfolding set_link_policy_def Let_def by (rule fixed_put) auto

lemma fixed_restart: "fixed_links S \<Longrightarrow> fixed_links (restart E n S)"
proof -
  have bump: "fixed_links (bump_all n peers T) \<longleftrightarrow> fixed_links T" for peers T
    unfolding bump_all_def by (induction peers arbitrary: T) auto
  have break: "fixed_links (break_all n peers T) \<longleftrightarrow> fixed_links T" for peers T
    unfolding break_all_def by (induction peers arbitrary: T) auto
  show "fixed_links S \<Longrightarrow> fixed_links (restart E n S)" by (simp add: restart_def Let_def bump break)
qed

lemma yields_release: "fixed_links S \<Longrightarrow> yields (release_writes E n ws S)"
proof (induction ws arbitrary: S)
  case (Cons w ws)
  then show ?case by (auto intro!: yields_bind yields_dispatch)
qed simp

lemma yields_fault:
  assumes "fixed_links S" "\<And>a b p. f = SetLinkPolicy a b p \<Longrightarrow> fixed_policy p"
  shows "yields (apply_fault E f S)"
  using assms
  by (cases f) (simp_all add: apply_fault_def Let_def kill_node_def fixed_cut fixed_set_policy reconnect_def
      discard_held_between_def fixed_restart stop_reading_def resume_reading_def yields_release)

lemma yields_handle:
  assumes "fixed_links S" "\<And>a b p. event = FaultEvent (SetLinkPolicy a b p) \<Longrightarrow> fixed_policy p"
  shows "yields (handle E event S)"
  using assms
  by (cases event) (auto simp: handle_def handle_delivery_def notify_def yields_react yields_fault split: sum.splits notice.splits)

lemma yields_fire: "fixed_links S \<Longrightarrow> yields (fire_timers E keys S)"
proof (induction keys arbitrary: S)
  case (Cons key keys)
  then show ?case by (cases key) (auto intro!: yields_bind yields_react)
qed simp

lemma yields_start: "fixed_links S \<Longrightarrow> yields (start_nodes E ns S)"
proof (induction ns arbitrary: S)
  case (Cons n ns)
  then show ?case by (auto intro!: yields_bind yields_react)
qed simp

lemma yields_pop:
  assumes "fixed_links S" "queue_pop (sim_queue S) = Some ((t, event), q)"
  shows "fixed_links (S\<lparr>sim_queue := q\<rparr>)" "event = FaultEvent (SetLinkPolicy a b p) \<Longrightarrow> fixed_policy p"
proof -
  obtain s where "heap_pop (eq_heap (sim_queue S)) = Some (s, eq_heap q)" and event: "event = sc_payload s"
    using assms(2) by (auto simp: queue_pop_def)
  note heap = heap_pop_kept(1) [OF this(1)]
  from assms(1) heap show "fixed_links (S\<lparr>sim_queue := q\<rparr>)" by (auto simp: fixed_links_def coming_faults_def)
  assume "event = FaultEvent (SetLinkPolicy a b p)"
  then have "SetLinkPolicy a b p \<in> coming_faults S" using heap event by (auto simp: coming_faults_def)
  with assms(1) show "fixed_policy p" by (auto simp: fixed_links_def)
qed

lemma yields_due:
  assumes "fixed_links S"
  shows "\<exists>continue S'. perform_due E t S = Some (continue, S') \<and> fixed_links S'"
proof -
  obtain keys T where due: "(let S = S\<lparr>sim_now := t\<rparr> in if fault_first t S then ([], S)
      else let (keys, timers) = timers_take_due (env_timers E) t (sim_timers S) in (keys, S\<lparr>sim_timers := timers\<rparr>)) = (keys, T)"
    by fastforce
  then have T: "fixed_links T" using assms by (auto simp: Let_def split_beta split: if_splits)
  have step: "perform_due E t S = (if keys = []
        then case queue_pop (sim_queue T) of
            None \<Rightarrow> Some (False, T)
          | Some ((t', event), queue) \<Rightarrow> map_option (Pair True) (handle E event (T\<lparr>sim_queue := queue, sim_now := t'\<rparr>))
        else map_option (Pair True) (fire_timers E keys T))"
    using due by (simp add: perform_due_def Let_def)
  show ?thesis
  proof (cases "keys = []")
    case False
    with yields_fire [OF T, of E keys] show ?thesis by (auto simp: step yields_def)
  next
    case True
    show ?thesis
    proof (cases "queue_pop (sim_queue T)")
      case None
      with True T show ?thesis by (intro exI [of _ False] exI [of _ T]) (simp add: step)
    next
      case (Some popped)
      then obtain t' event q where pop: "queue_pop (sim_queue T) = Some ((t', event), q)" by (cases popped) auto
      have "yields (handle E event (T\<lparr>sim_queue := q, sim_now := t'\<rparr>))"
        using yields_pop [OF T pop] by (intro yields_handle) auto
      with True pop show ?thesis by (auto simp: step yields_def)
    qed
  qed
qed

lemma run_loop_returns: "fixed_links S \<Longrightarrow> \<exists>err S'. run_loop E deadline budget steps S = Some (err, S') \<and> fixed_links S'"
proof (induction E deadline budget steps S rule: run_loop.induct)
  case (1 E deadline budget steps S)
  show ?case
  proof (cases "next_due E S")
    case None
    with 1(2) show ?thesis by (simp add: run_loop.simps)
  next
    case (Some t)
    obtain continue T where T: "perform_due E t S = Some (continue, T)" "fixed_links T" using yields_due [OF 1(2)] by blast
    show ?thesis
    proof (cases "t > deadline \<or> Suc steps > budget \<or> \<not> continue")
      case True
      with Some T 1(2) show ?thesis by (auto simp: run_loop.simps [of E deadline budget steps S])
    next
      case False
      with 1(1) [OF Some _ _ T(1) refl] T(2) have
        "\<exists>err S'. run_loop E deadline budget (Suc steps) T = Some (err, S') \<and> fixed_links S'" by blast
      with False Some T show ?thesis by (simp add: run_loop.simps [of E deadline budget steps S])
    qed
  qed
qed

lemma run_until_returns:
  assumes "fixed_links S"
  shows "\<exists>err S'. run_until E deadline S = Some (err, S') \<and> fixed_links S'"
proof -
  have "yields (sim_start E S)" using assms by (simp add: sim_start_def yields_start)
  then obtain T where T: "sim_start E S = Some T" "fixed_links T" by (auto simp: yields_def)
  from run_loop_returns [OF T(2)] obtain err U
    where U: "run_loop E deadline (unat (sim_budget T)) 0 T = Some (err, U)" "fixed_links U" by blast
  have "fixed_links (skip_idle deadline U)" using U(2) by (simp add: skip_idle_def)
  with T(1) U show ?thesis by (cases err) (simp_all add: run_until_def)
qed


section \<open>A simulation to run\<close>

text \<open>A timer queue that is a list of deadlines, the latest entry of a key counting.\<close>

definition list_keys :: "sim_time \<Rightarrow> (timer_key \<times> sim_time) list \<Rightarrow> timer_key list" where
  "list_keys now t = remdups (filter (\<lambda>k. case map_of t k of None \<Rightarrow> False | Some d \<Rightarrow> d \<le> now) (map fst t))"

fun list_deadline :: "timer_key list \<Rightarrow> (timer_key \<Rightarrow> sim_time option) \<Rightarrow> sim_time option" where
  "list_deadline [] f = None"
| "list_deadline (k # ks) f = (case (f k, list_deadline ks f) of
     (None, r) \<Rightarrow> r | (Some d, None) \<Rightarrow> Some d | (Some d, Some e) \<Rightarrow> Some (min d e))"

definition list_timers :: "(timer_key \<times> sim_time) list timer_lib" where
  "list_timers =
    \<lparr>timers_new = [], timers_set = (\<lambda>k now d t. (k, sim_add now d) # t), timers_clear = (\<lambda>k t. filter (\<lambda>e. fst e \<noteq> k) t),
     timers_forget = (\<lambda>p t. filter (\<lambda>e. \<not> p (fst e)) t), timers_deadline = (\<lambda>t. list_deadline (map fst t) (map_of t)),
     timers_take_due = (\<lambda>now t. (list_keys now t, filter (\<lambda>e. fst e \<notin> set (list_keys now t)) t))\<rparr>"

lemma list_deadline_none: "list_deadline ks f = None \<longleftrightarrow> (\<forall>k \<in> set ks. f k = None)"
  by (induction ks) (auto split: option.splits)

lemma list_deadline_some:
  "list_deadline ks f = Some d \<Longrightarrow> (\<exists>k \<in> set ks. f k = Some d) \<and> (\<forall>k \<in> set ks. \<forall>e. f k = Some e \<longrightarrow> d \<le> e)"
proof (induction ks arbitrary: d)
  case (Cons k ks)
  show ?case
  proof (cases "list_deadline ks f")
    case None
    then have "\<forall>k \<in> set ks. f k = None" by (simp add: list_deadline_none)
    with Cons.prems None show ?thesis by (auto split: option.splits)
  next
    case (Some e)
    from Cons.IH [OF Some] Cons.prems Some show ?thesis by (auto simp: min_def split: option.splits if_splits intro: order.trans)
  qed
qed simp

lemma map_of_filter: "map_of (filter (\<lambda>e. p (fst e)) t) = (\<lambda>k. if p k then map_of t k else None)"
  by (induction t) (auto simp: fun_eq_iff)

lemma list_timers_laws: "timer_laws list_timers map_of"
proof -
  have keys: "set (list_keys now t) = {k. \<exists>d. map_of t k = Some d \<and> d \<le> now}" for now t
    by (force simp: list_keys_def split: option.splits dest: map_of_SomeD)
  have none: "list_deadline (map fst t) (map_of t) = None \<longleftrightarrow> (\<forall>k. map_of t k = None)" for t
    by (force simp: list_deadline_none map_of_eq_None_iff)
  have some: "(\<exists>k. map_of t k = Some d) \<and> (\<forall>k e. map_of t k = Some e \<longrightarrow> d \<le> e)"
    if "list_deadline (map fst t) (map_of t) = Some d" for t d
  proof -
    have keys: "k \<in> set (map fst t)" if "map_of t k = Some e" for k e
      using that by (metis domI dom_map_of_conv_image_fst list.set_map)
    show ?thesis using list_deadline_some [OF that] keys by blast
  qed
  have clear: "map_of (filter (\<lambda>e. fst e \<noteq> k) t) = (map_of t)(k := None)" for k and t :: "(timer_key \<times> sim_time) list"
    using map_of_filter [of "\<lambda>k'. k' \<noteq> k" t] by (simp add: fun_eq_iff)
  have forget: "map_of (filter (\<lambda>e. \<not> p (fst e)) t) = (\<lambda>k. if p k then None else map_of t k)"
    for p and t :: "(timer_key \<times> sim_time) list"
    using map_of_filter [of "\<lambda>k. \<not> p k" t] by (simp add: fun_eq_iff)
  have due: "set ks = {k. \<exists>d. map_of t k = Some d \<and> d \<le> now} \<and> distinct ks \<and> map_of t' = (\<lambda>k. if k \<in> set ks then None else map_of t k)"
    if "timers_take_due list_timers now t = (ks, t')" for now t ks t'
  proof -
    from that have t': "ks = list_keys now t" "t' = filter (\<lambda>e. fst e \<notin> set ks) t" by (auto simp: list_timers_def)
    have "distinct ks" by (simp add: t'(1) list_keys_def)
    moreover have "map_of t' = (\<lambda>k. if k \<in> set ks then None else map_of t k)"
      unfolding t'(2) map_of_filter [of "\<lambda>k. k \<notin> set ks" t] by (simp add: fun_eq_iff)
    ultimately show ?thesis using keys [of now t] by (simp only: t'(1))
  qed
  have "map_of (timers_new list_timers) k = None" "map_of (timers_set list_timers k now d t) = (map_of t)(k \<mapsto> sim_add now d)"
    "map_of (timers_clear list_timers k t) = (map_of t)(k := None)"
    "map_of (timers_forget list_timers p t) = (\<lambda>k. if p k then None else map_of t k)"
    "timers_deadline list_timers t = list_deadline (map fst t) (map_of t)" for k now d t p
    by (simp_all add: list_timers_def clear forget)
  with none some due show ?thesis unfolding timer_laws_def by simp
qed

text \<open>A node that waits five nanoseconds from its start, and notes that it did; a wire that carries bytes as they are.\<close>

definition sample_code :: "(nat, bytes) node_code" where
  "sample_code = \<lparr>node_name = (\<lambda>_. ''a''), on_input = (\<lambda>now inp node. case inp of
      InStarted \<Rightarrow> ([EffSetTimer 1 5], node + 1) | InTimer timer \<Rightarrow> ([EffNote ''late''], node + 1) | _ \<Rightarrow> ([], node))\<rparr>"

definition sample_wire :: "bytes wire" where
  "sample_wire = \<lparr>wire_start = (\<lambda>_. StatusLine 200 []), wire_header = (\<lambda>_ _. None), wire_bytes = (\<lambda>m. m),
     wire_parse = (\<lambda>p. if p = [] then Inl ''empty'' else Inr p)\<rparr>"

definition sample_sim_env :: "(nat, bytes, (timer_key \<times> sim_time) list) sim_env" where
  "sample_sim_env = \<lparr>env_wire = sample_wire, env_code = sample_code, env_timers = list_timers, env_f64 = (\<lambda>_. ''?'')\<rparr>"

text \<open>One node, to be killed at the third nanosecond.\<close>

definition sample_doomed :: "(nat, (timer_key \<times> sim_time) list) sim" where
  "sample_doomed = queue_faults [(3, KillNode 0)] (snd (add_node 0 (step_budget 10 (sim_new sample_sim_env 7))))"

definition sample_at :: "sim_time \<Rightarrow> (nat, (timer_key \<times> sim_time) list) sim" where
  "sample_at t = (case run_until sample_sim_env t sample_doomed of Some (_, S) \<Rightarrow> S | None \<Rightarrow> sample_doomed)"

lemma sample_doomed_ok: "sim_ok map_of sample_doomed"
  by (simp add: sim_ok_def sample_doomed_def queue_faults_def add_node_def sim_new_def chronological_new to_come_def queue_new_def
      schedule_at_def timers_to_come_def buffers_ok_def sample_sim_env_def list_timers_def SIM_START_def step_budget_def)

lemmas sample_defs = sample_doomed_def sample_sim_env_def sample_wire_def sample_code_def list_timers_def list_keys_def
  sim_new_def step_budget_def queue_faults_def add_node_def queue_new_def schedule_at_def schedule_after_def SIM_START_def END_OF_TIME_def
  next_due_def next_deadline_def queue_peek_def queue_pop_def sc_le_def
  run_until_def sim_start_def perform_due_def fault_first_def handle_def apply_fault_def kill_node_def forget_timers_def
  discard_held_involving_def react_def deliver_def perform_one_def set_timer_def skewed_def log_event_def skip_idle_def
  enqueue_def name_of_def get_at_def trace_record_def trace_new_def fault_anchor_def

lemma sample_add: "sim_add 0 5 = 5"
  by (simp add: sim_add_def clamp_nanos_def saturating_add_def)

text \<open>What there is at the fourth nanosecond: the node was killed while its timer was pending.\<close>

lemma sample_killed:
  "\<exists>S. run_until sample_sim_env 4 sample_doomed = Some (None, S) \<and> sim_now S = 4 \<and> sim_nodes S = [1] \<and> sim_killed S = {0}
    \<and> coming_faults S = {} \<and> map te_event (tr_entries (sim_trace S)) =
      [EvStarted, EvTimerSet 1 5, EvFault (fault_summary (\<lambda>_. ''?'') (KillNode 0))]"
  by (unfold run_until_def; simp add: sample_defs sample_add run_loop.simps upt_rec coming_faults_def)

section \<open>The theorems\<close>

text \<open>C28. Time never runs backwards.  Of a state in order, with everything scheduled still to come, a run makes a state in
  order: its time is not before that of the first and, where the deadline was ahead, not after the deadline, its trace
  extends the earlier one by lines that are in the order of their time and of their sequence numbers, and nothing left in
  either queue is overdue.  A new simulation is in order.\<close>

theorem run_is_chronological:
  assumes "timer_laws (env_timers E) pending" "sim_ok pending S" "run_until E deadline S = Some (err, S')"
  shows "sim_ok pending (sim_new E seed) \<and> sim_ok pending S' \<and> sim_now S \<le> sim_now S' \<and> sim_now S' \<le> max deadline (sim_now S)
    \<and> (\<exists>new. tr_entries (sim_trace S') = tr_entries (sim_trace S) @ new) \<and> sorted (map te_at (tr_entries (sim_trace S')))
    \<and> map te_seq (tr_entries (sim_trace S')) = map of_nat [0 ..< length (tr_entries (sim_trace S'))]
    \<and> (\<forall>t. next_due E S' = Some t \<longrightarrow> sim_now S' \<le> t)"
proof -
  note spans = run_until_spans [OF assms]
  then have ok: "sim_ok pending S'" by (simp add: run_span_def)
  have "sim_ok pending (sim_new E seed)"
    by (simp add: sim_ok_def sim_new_def chronological_new to_come_def queue_new_def timers_to_come_def buffers_ok_def
        timer_lawsD(1) [OF assms(1)])
  with spans ok next_due_after [OF assms(1) ok] show ?thesis
    by (auto simp: run_span_def extends_def sim_ok_def chronological_def)
qed

lemma run_is_chronological_witness:
  "\<exists>S. run_until sample_sim_env 4 sample_doomed = Some (None, S) \<and> sim_ok map_of S \<and> map te_at (tr_entries (sim_trace S)) = [0, 0, 3]"
proof -
  have laws: "timer_laws (env_timers sample_sim_env) map_of" using list_timers_laws by (simp add: sample_sim_env_def)
  have "\<exists>S. run_until sample_sim_env 4 sample_doomed = Some (None, S) \<and> map te_at (tr_entries (sim_trace S)) = [0, 0, 3]"
    by (unfold run_until_def; simp add: sample_defs sample_add run_loop.simps upt_rec)
  then obtain S where S: "run_until sample_sim_env 4 sample_doomed = Some (None, S)" "map te_at (tr_entries (sim_trace S)) = [0, 0, 3]"
    by (elim exE conjE)
  have "sim_ok map_of S" by (rule run_is_chronological [OF laws sample_doomed_ok S(1), THEN conjunct2, THEN conjunct1])
  with S show ?thesis by (intro exI conjI)
qed

text \<open>C29. A run over links of a fixed latency returns.  It either settles, with nothing due up to the deadline and the time
  at the deadline, or gives up with its own budget of steps and the instant of what is still due.\<close>

theorem run_until_settles:
  assumes "timer_laws (env_timers E) pending" "sim_ok pending S" "fixed_links S"
  shows "\<exists>err S'. run_until E deadline S = Some (err, S') \<and> fixed_links S' \<and> sim_ok pending S'
    \<and> (case err of
         None \<Rightarrow> (\<forall>t. next_due E S' = Some t \<longrightarrow> deadline < t) \<and> (deadline \<noteq> END_OF_TIME \<longrightarrow> sim_now S' = max deadline (sim_now S))
       | Some (StepBudgetExhausted budget t) \<Rightarrow> budget = sim_budget S \<and> next_due E S' = Some t \<and> t \<le> deadline)"
proof -
  obtain err S' where run: "run_until E deadline S = Some (err, S')" "fixed_links S'" using run_until_returns [OF assms(3)] by blast
  have "sim_ok pending S'" using run_until_spans(1) [OF assms(1,2) run(1)] by (simp add: run_span_def)
  with run run_until_spans(3) [OF assms(1,2) run(1)] show ?thesis
    by (intro exI [of _ err] exI [of _ S']) (auto simp: settled_def split: option.splits)
qed

lemma run_until_settles_witness:
  "\<exists>S. run_until sample_sim_env 4 sample_doomed = Some (None, S) \<and> sim_now S = 4 \<and> fixed_links S"
proof -
  have laws: "timer_laws (env_timers sample_sim_env) map_of" using list_timers_laws by (simp add: sample_sim_env_def)
  have links: "fixed_links sample_doomed"
    by (simp add: fixed_links_def fixed_policy_def coming_faults_def sample_defs CLEAN_def INSTANT_def is_deterministic_def)
  from sample_killed obtain S where "run_until sample_sim_env 4 sample_doomed = Some (None, S)" by blast
  with run_until_settles [OF laws sample_doomed_ok links, of 4] show ?thesis by (auto simp: sample_defs)
qed

text \<open>C26. A killed node is silent until it is restarted: over a whole run with no fault queued that restarts it, it keeps the
  state it had, no line of the trace says that it sent, waited for, cleared, fired or noted anything, no timer of its
  is pending and no write of its is in a buffer.\<close>

theorem killed_node_silent:
  assumes "timer_laws (env_timers E) pending" "sim_ok pending S" "run_until E deadline S = Some (err, S')"
    "n \<in> sim_killed S" "RestartNode n \<notin> coming_faults S"
  shows "is_killed S' n \<and> get_at (sim_nodes S') n = get_at (sim_nodes S) n
    \<and> (\<exists>new. tr_entries (sim_trace S') = tr_entries (sim_trace S) @ new \<and> (\<forall>e \<in> set new. te_node e = n \<longrightarrow> \<not> speaks (te_event e)))
    \<and> (\<forall>timer. pending (sim_timers S') (n, timer) = None) \<and> (\<forall>holder ws w. sim_held S' holder = Some ws \<longrightarrow> w \<in> set ws \<longrightarrow> hw_from w \<noteq> n)"
proof -
  have "spared n S" using assms(4,5) by (simp add: spared_def)
  with run_until_spans(1) [OF assms(1-3)] have S': "sim_ok pending S'" "n \<in> sim_killed S'" "silent n S S'"
    by (auto simp: run_span_def spared_def)
  moreover have "pending (sim_timers S') (n, timer) = None" for timer
    using S'(1,2) by (cases "pending (sim_timers S') (n, timer)") (auto simp: sim_ok_def timers_to_come_def)
  ultimately show ?thesis by (auto simp: sim_ok_def buffers_ok_def silent_def extends_def is_killed_def)
qed

lemma killed_node_silent_witness:
  "\<exists>S T. run_until sample_sim_env 4 sample_doomed = Some (None, S) \<and> run_until sample_sim_env 9 S = Some (None, T)
    \<and> is_killed T 0 \<and> get_at (sim_nodes T) 0 = Some 1"
proof -
  have laws: "timer_laws (env_timers sample_sim_env) map_of" using list_timers_laws by (simp add: sample_sim_env_def)
  obtain S where S: "run_until sample_sim_env 4 sample_doomed = Some (None, S)" "sim_nodes S = [1]" "sim_killed S = {0}" "coming_faults S = {}"
    using sample_killed by blast
  have ok: "sim_ok map_of S" using run_until_spans(1) [OF laws sample_doomed_ok S(1)] by (simp add: run_span_def)
  have "map_option fst (Option.bind (run_until sample_sim_env 4 sample_doomed) (\<lambda>(_, S). run_until sample_sim_env 9 S)) = Some None"
    by (unfold run_until_def; simp add: sample_defs sample_add run_loop.simps upt_rec)
  with S(1) have "\<exists>T. run_until sample_sim_env 9 S = Some (None, T)" by auto
  with killed_node_silent [OF laws ok, of 9] S show ?thesis by (fastforce simp: get_at_def)
qed

text \<open>Bytes of a connection that was replaced are never received: what was in flight between two nodes when they
  reconnect is dropped or found malformed when it arrives, the node at the end is not handed it, what either had
  written to the other's buffer is discarded, and both see the break before the new connection.\<close>

theorem reconnect_loses_in_flight:
  assumes "a \<noteq> b" "T = reconnect a b S"
  shows "connection_of T a b \<noteq> connection_of S a b \<and> connection_of T b a \<noteq> connection_of S b a
    \<and> (\<forall>U payload. connection_of U a b = connection_of T a b \<longrightarrow>
        (\<exists>node event. handle E (DeliverEvent a b payload (connection_of S a b)) U = Some (log_event E node event U)
          \<and> (\<forall>what. event \<noteq> EvReceived a what)))
    \<and> (\<forall>ws w. (sim_held T b = Some ws \<longrightarrow> w \<in> set ws \<longrightarrow> hw_from w \<noteq> a) \<and> (sim_held T a = Some ws \<longrightarrow> w \<in> set ws \<longrightarrow> hw_from w \<noteq> b))
    \<and> map sc_payload (rev (eq_heap (sim_queue T))) = map sc_payload (rev (eq_heap (sim_queue S))) @
        [BreakEvent a b, BreakEvent b a, NotifyEvent a (NoticeConnected b), NotifyEvent b (NoticeConnected a)]"
proof -
  have "connection_of T a b = connection_of S a b + 1" "connection_of T b a = connection_of S b a + 1"
    using assms(1) by (auto simp: assms(2) reconnect_def Let_def discard_held_between_def retain_held_def bump_connection_def
        enqueue_def connection_of_def)
  then have other: "connection_of T a b \<noteq> connection_of S a b" "connection_of T b a \<noteq> connection_of S b a" by simp_all
  have stale: "\<exists>node event. handle E (DeliverEvent a b payload (connection_of S a b)) U = Some (log_event E node event U)
      \<and> (\<forall>what. event \<noteq> EvReceived a what)" if "connection_of U a b = connection_of T a b" for U payload
  proof (cases "wire_parse (env_wire E) payload")
    case (Inl reason)
    then show ?thesis
      by (intro exI [of _ b] exI [of _ "EvMalformed a reason"]) (simp add: handle_def handle_delivery_def)
  next
    case (Inr message)
    then show ?thesis using that other
      by (intro exI [of _ a] exI [of _ "EvDropped b (summarize (env_wire E) message)"]) (simp add: handle_def handle_delivery_def)
  qed
  with other show ?thesis
    using assms(1) by (auto simp: assms(2) reconnect_def Let_def discard_held_between_def retain_held_def bump_connection_def
        enqueue_def schedule_at_def)
qed

lemma reconnect_loses_in_flight_witness:
  "\<exists>node event. handle sample_sim_env (DeliverEvent 0 1 ''hi'' 0) (reconnect 0 1 sample_doomed) =
      Some (log_event sample_sim_env node event (reconnect 0 1 sample_doomed)) \<and> (\<forall>what. event \<noteq> EvReceived 0 what)"
proof -
  have "connection_of sample_doomed 0 1 = 0" by (simp add: sample_defs connection_of_def)
  with reconnect_loses_in_flight [of 0 1 "reconnect 0 1 sample_doomed" sample_doomed, where E = sample_sim_env] show ?thesis
    by (metis zero_neq_one)
qed

section \<open>Two surprises\<close>

text \<open>A fault scheduled for an instant that is past is applied at that instant: the clock and the trace step back.\<close>

definition sample_late_fault :: "sim_time list option" where
  "sample_late_fault = do {
     (_, S) \<leftarrow> run_until sample_sim_env 4 sample_doomed;
     (_, S) \<leftarrow> run_until sample_sim_env 9 (queue_faults [(2, StopReading 0)] S);
     Some (map te_at (tr_entries (sim_trace S))) }"

lemma past_fault_steps_back: "sample_late_fault = Some [0, 0, 3, 2]"
  by (unfold sample_late_fault_def run_until_def; simp add: sample_defs sample_add run_loop.simps upt_rec stop_reading_def)

text \<open>A timer that another timer of the same instant clears fires all the same.\<close>

definition sample_clearing_env :: "(nat, bytes, (timer_key \<times> sim_time) list) sim_env" where
  "sample_clearing_env = sample_sim_env\<lparr>env_code := \<lparr>node_name = (\<lambda>_. ''a''), on_input = (\<lambda>now inp node. case inp of
      InStarted \<Rightarrow> ([EffSetTimer 2 5, EffSetTimer 1 5], node)
    | InTimer timer \<Rightarrow> (if timer = 1 then [EffClearTimer 2] else [], node) | _ \<Rightarrow> ([], node))\<rparr>\<rparr>"

lemma cleared_timer_fires:
  "map_option (\<lambda>(_, S). map te_event (tr_entries (sim_trace S)))
    (run_until sample_clearing_env 9 (snd (add_node 0 (step_budget 10 (sim_new sample_clearing_env 7))))) =
    Some [EvStarted, EvTimerSet 2 5, EvTimerSet 1 5, EvTimerFired 1, EvTimerCleared 2, EvTimerFired 2]"
  by (unfold run_until_def;
      simp add: sample_defs sample_add sample_clearing_env_def run_loop.simps upt_rec clear_timer_def)

end
