(* ===== verification/Marker.thy ===== *)
theory Marker imports Prelude Ascii Netaddr Codec begin

text \<open>
  \<^verbatim>\<open>marker.rs\<close> of \<^verbatim>\<open>crates/sipx-clstr-probe\<close>: the correlation marker, and
  the SIP library as the probe and the echo use it.  The library is not part of the code: its URIs,
  builders and messages are abstract, and what is called of it is the record \<open>ua_kernel\<close>.
\<close>

section \<open>The SIP library\<close>

datatype ua_header = UaVia | UaCallId | UaCSeq | UaFrom | UaTo | UaContact | UaSubject | UaOther bytes

datatype ua_method = UaRegister | UaInvite | UaAck | UaBye | UaOptions | UaMethod bytes

text \<open>\<open>ua_uri\<close> is \<^verbatim>\<open>Uri::parse\<close>, \<open>ua_placeholder\<close> the URI that
  \<^verbatim>\<open>sip:invalid.invalid\<close> parses to; \<open>ua_new\<close> to \<open>ua_build\<close> are \<^verbatim>\<open>RequestBuilder\<close>; a
  header's value is \<^verbatim>\<open>headers.value(name)\<close> and \<open>req_has\<close> is
  \<^verbatim>\<open>headers.get(name).is_some()\<close>; \<open>ua_respond\<close> is \<^verbatim>\<open>ResponseBuilder::to_request\<close> then
  \<^verbatim>\<open>build\<close>, \<open>ua_status\<close> whether \<^verbatim>\<open>StatusCode::new\<close> accepts a number.\<close>

record ('u, 'b, 'req, 'hdr, 'resp) ua_kernel =
  ua_uri :: "bytes \<Rightarrow> 'u option"
  ua_placeholder :: 'u
  ua_new :: "ua_method \<Rightarrow> 'u \<Rightarrow> 'b"
  ua_put :: "ua_header \<Rightarrow> bytes \<Rightarrow> 'b \<Rightarrow> 'b option"
  ua_cseq :: "u32 \<Rightarrow> ua_method \<Rightarrow> 'b \<Rightarrow> 'b option"
  ua_max_forwards :: "nat \<Rightarrow> 'b \<Rightarrow> 'b"
  ua_build :: "'b \<Rightarrow> 'req"
  req_verb :: "'req \<Rightarrow> ua_method"
  req_has :: "'req \<Rightarrow> ua_header \<Rightarrow> bool"
  req_header :: "'req \<Rightarrow> ua_header \<Rightarrow> bytes option"
  ua_status :: "u16 \<Rightarrow> bool"
  ua_respond :: "'req \<Rightarrow> u16 \<Rightarrow> string \<Rightarrow> 'resp option"
  ua_make_header :: "ua_header \<Rightarrow> bytes \<Rightarrow> 'hdr option"
  ua_push :: "'resp \<Rightarrow> 'hdr \<Rightarrow> 'resp"
  resp_code :: "'resp \<Rightarrow> u16"
  resp_is_provisional :: "'resp \<Rightarrow> bool"
  resp_is_success :: "'resp \<Rightarrow> bool"
  resp_header :: "'resp \<Rightarrow> ua_header \<Rightarrow> bytes option"

section \<open>The encoder\<close>

definition BASE64_URL :: string where
  "BASE64_URL = ''ABCDEFGHIJKLMNOPQRSTUVWXYZabcdefghijklmnopqrstuvwxyz0123456789-_''"

definition base64_triple :: "u8 list \<Rightarrow> u32" where
  "base64_triple chunk =
    (let b0 = get_or 0 chunk 0; b1 = get_or 0 chunk 1; b2 = get_or 0 chunk 2
     in push_bit 16 (ucast b0) OR push_bit 8 (ucast b1) OR ucast b2)"

definition base64_chunk :: "u8 list \<Rightarrow> string" where
  "base64_chunk chunk =
    (let triple = base64_triple chunk;
         indices = [drop_bit 18 triple AND 0x3f, drop_bit 12 triple AND 0x3f, drop_bit 6 triple AND 0x3f, triple AND 0x3f];
         produced = (if length chunk = 1 then 2 else if length chunk = 2 then 3 else 4)
     in List.map_filter (\<lambda>index. get_at BASE64_URL (unat index)) (take produced indices))"

definition base64_url :: "u8 list \<Rightarrow> string" where
  "base64_url bs = concat (map base64_chunk (chunks 3 bs))"

section \<open>The marker\<close>

definition MARKER_HEADER :: ua_header where
  "MARKER_HEADER = UaSubject"

definition MARKER_PREFIX :: string where
  "MARKER_PREFIX = ''sipx-probe/''"

definition MARKER_BYTES :: nat where
  "MARKER_BYTES = 16"

type_synonym marker = string

text \<open>The injected source of random bytes is a function on its own state.\<close>

fun draw_bytes :: "('r \<Rightarrow> u8 \<times> 'r) \<Rightarrow> nat \<Rightarrow> 'r \<Rightarrow> u8 list \<times> 'r" where
  "draw_bytes random 0 r = ([], r)"
| "draw_bytes random (Suc n) r = (let (b, r) = random r; (bs, r) = draw_bytes random n r in (b # bs, r))"

definition mint_marker :: "('r \<Rightarrow> u8 \<times> 'r) \<Rightarrow> 'r \<Rightarrow> marker \<times> 'r" where
  "mint_marker random r = (let (bs, r) = draw_bytes random MARKER_BYTES r in (base64_url bs, r))"

definition marker_value :: "marker \<Rightarrow> bytes" where
  "marker_value m = MARKER_PREFIX @ m"

definition marker_of :: "(ua_header \<Rightarrow> bytes option) \<Rightarrow> marker option" where
  "marker_of header =
    (case header MARKER_HEADER of
       None \<Rightarrow> None
     | Some value \<Rightarrow>
        (let text = str_trim value in
         if take (length MARKER_PREFIX) text = MARKER_PREFIX
         then (let token = drop (length MARKER_PREFIX) text in if token = [] then None else Some token)
         else None))"

section \<open>The encoder is the affinity token's\<close>

lemma alphabets: "map byte_of BASE64_URL = ALPHABET"
  by (simp add: BASE64_URL_def ALPHABET_def byte_of_def)

lemma length_base64 [simp]: "length BASE64_URL = 64"
  by (simp add: BASE64_URL_def)

lemma base64_char: "unat d < 64 \<Longrightarrow> map byte_of (case get_at BASE64_URL (unat d) of None \<Rightarrow> [] | Some c \<Rightarrow> [c]) = [char_of_digit d]"
  by (simp add: get_at_def char_of_digit_def get_or_def flip: alphabets)

lemma byte_high [simp]: "8 \<le> n \<Longrightarrow> \<not> bit b n" for b :: u8
  using bit_imp_le_length [of b n] by auto

lemma sextet_eqI:
  fixes d :: u8
  assumes "bit x 0 = bit d 0" "bit x 1 = bit d 1" "bit x 2 = bit d 2" "bit x 3 = bit d 3" "bit x 4 = bit d 4" "bit x 5 = bit d 5"
    "unat d < 64"
  shows "x AND 0x3f = (ucast d :: u32)"
proof (rule bit_word_eqI)
  fix n :: nat
  have "d = take_bit 6 d" using assms(7) by (simp add: word_unat_eq_iff unsigned_take_bit_eq take_bit_nat_eq_self)
  have mask: "(63 :: u32) = mask 6" by (simp add: mask_eq_exp_minus_1)
  consider "n = 0" | "n = 1" | "n = 2" | "n = 3" | "n = 4" | "n = 5" | "6 \<le> n" by linarith
  then show "bit (x AND 0x3f) n = bit (ucast d :: u32) n"
    using assms(1-6) \<open>d = take_bit 6 d\<close>
    by cases (simp_all add: mask bit_simps, (metis bit_take_bit_iff not_le))
qed

lemma sextet_bits:
  "drop_bit 18 (base64_triple chunk) AND 0x3f = ucast (sextet0 (get_or 0 chunk 0))"
  "drop_bit 12 (base64_triple chunk) AND 0x3f = ucast (sextet1 (get_or 0 chunk 0) (get_or 0 chunk 1))"
  "drop_bit 6 (base64_triple chunk) AND 0x3f = ucast (sextet2 (get_or 0 chunk 1) (get_or 0 chunk 2))"
  "base64_triple chunk AND 0x3f = ucast (sextet3 (get_or 0 chunk 2))"
  unfolding base64_triple_def Let_def
  by (rule sextet_eqI; (rule sextet_less)?; simp add: bit_simps sextet_defs)+

lemma unat_sextet: "unat (ucast d :: u32) = unat d" for d :: u8
proof -
  have "unat d < 2 ^ 8" using unsigned_less [of d] by simp
  then show ?thesis by (simp add: unsigned_ucast_eq take_bit_nat_eq_self)
qed

lemma base64_chunk_bytes:
  assumes "chunk \<noteq> []" "length chunk \<le> 3"
  shows "map byte_of (base64_chunk chunk) = encode_chunk chunk"
proof -
  have one: "map byte_of (List.map_filter (\<lambda>d. get_at BASE64_URL (unat d)) ds) = map char_of_digit ds"
    if "\<forall>d \<in> set ds. unat d < 64" for ds :: "u8 list"
    using that by (induction ds) (auto simp: map_filter_def get_at_def char_of_digit_def get_or_def simp flip: alphabets)
  have up: "List.map_filter (\<lambda>d. get_at BASE64_URL (unat d)) (map (ucast :: u8 \<Rightarrow> u32) ds) =
      List.map_filter (\<lambda>d. get_at BASE64_URL (unat d)) ds" for ds
    by (simp add: map_filter_map_filter [symmetric] map_filter_def filter_map unat_sextet o_def)
  from assms consider a where "chunk = [a]" | a b where "chunk = [a, b]" | a b c where "chunk = [a, b, c]"
    by (cases chunk; cases "tl chunk"; cases "tl (tl chunk)") auto
  then have "take (if length chunk = 1 then 2 else if length chunk = 2 then 3 else 4)
      [drop_bit 18 (base64_triple chunk) AND 0x3f, drop_bit 12 (base64_triple chunk) AND 0x3f,
       drop_bit 6 (base64_triple chunk) AND 0x3f, base64_triple chunk AND 0x3f] = map (ucast :: u8 \<Rightarrow> u32) (chunk_digits chunk)"
    unfolding sextet_bits chunk_digits_def Let_def by cases simp_all
  then have "base64_chunk chunk = List.map_filter (\<lambda>d. get_at BASE64_URL (unat d)) (map (ucast :: u8 \<Rightarrow> u32) (chunk_digits chunk))"
    unfolding base64_chunk_def Let_def by (simp only:)
  then show ?thesis by (simp add: up one chunk_digits_less encode_chunk_digits)
qed

lemma base64_url_encodes: "map byte_of (base64_url bs) = encode_param_value bs"
proof -
  have "map byte_of (base64_chunk chunk) = encode_chunk chunk" if "chunk \<in> set (chunks 3 bs)" for chunk
    using that by (intro base64_chunk_bytes) (use length_chunks_pieces [of 3 chunk bs] in auto)
  then show ?thesis unfolding base64_url_def encode_param_value_def map_concat by (simp cong: map_cong)
qed

section \<open>Minting and reading back\<close>

lemma byte_of_eq: "byte_of c = byte_of d \<longleftrightarrow> c = d"
proof
  assume "byte_of c = byte_of d"
  have "unat (of_char e :: u8) = of_char e" for e
  proof -
    have "(of_char e :: u8) = of_nat (of_char e)" by (rule of_nat_of_char [symmetric])
    then show ?thesis by (simp only: unat_of_nat) (simp add: take_bit_nat_eq_self)
  qed
  with \<open>byte_of c = byte_of d\<close> have "(of_char c :: nat) = of_char d" by (metis byte_of_def)
  then show "c = d" by simp
qed simp

lemma base64_url_inj: "base64_url bs = base64_url bs' \<longleftrightarrow> bs = bs'"
proof
  assume "base64_url bs = base64_url bs'"
  then have "decode_param_value (encode_param_value bs) = decode_param_value (encode_param_value bs')"
    by (simp flip: base64_url_encodes)
  then show "bs = bs'" by (simp add: decode_encode_param_value)
qed simp

lemma base64_url_chars: "c \<in> set (base64_url bs) \<Longrightarrow> c \<in> set BASE64_URL"
proof -
  assume "c \<in> set (base64_url bs)"
  then have "byte_of c \<in> set (map byte_of (base64_url bs))" by simp
  then have "byte_of c \<in> byte_of ` set BASE64_URL"
    unfolding base64_url_encodes using encode_param_value_alphabet [of bs] by (auto simp flip: alphabets)
  then show "c \<in> set BASE64_URL" by (auto simp: byte_of_eq)
qed

lemma length_base64_url: "length (base64_url bs) = encoded_len (length bs)"
proof -
  have "length (base64_url bs) = length (map byte_of (base64_url bs))" by simp
  also have "\<dots> = encoded_len (length bs)" unfolding base64_url_encodes by (rule length_encode_param_value)
  finally show ?thesis .
qed

lemma base64_plain: "c \<in> set BASE64_URL \<Longrightarrow> is_ascii_char c \<and> \<not> white_space (of_char c)"
proof -
  have "list_all (\<lambda>c. 33 \<le> (of_char c :: nat) \<and> (of_char c :: nat) < 128) BASE64_URL" by (simp add: BASE64_URL_def)
  then show "c \<in> set BASE64_URL \<Longrightarrow> is_ascii_char c \<and> \<not> white_space (of_char c)"
    by (auto simp: list_all_iff is_ascii_char_def white_space_def)
qed

lemma prefix_plain: "c \<in> set MARKER_PREFIX \<Longrightarrow> is_ascii_char c \<and> \<not> white_space (of_char c)"
  by (auto simp: MARKER_PREFIX_def is_ascii_char_def white_space_def)

lemma length_draw [simp]: "length (fst (draw_bytes random n r)) = n"
  by (induction n arbitrary: r) (simp_all add: Let_def split_beta)

lemma mint_is_base64: "fst (mint_marker random r) = base64_url (fst (draw_bytes random 16 r))"
  by (simp add: mint_marker_def MARKER_BYTES_def Let_def split_beta)

lemma minted_length: "length (fst (mint_marker random r)) = 22"
  by (simp add: mint_is_base64 length_base64_url encoded_len_def)

lemma minted_reads_back:
  assumes "header MARKER_HEADER = Some (marker_value (fst (mint_marker random r)))"
  shows "marker_of header = Some (fst (mint_marker random r))"
proof -
  have "str_trim (marker_value (fst (mint_marker random r))) = marker_value (fst (mint_marker random r))"
    by (rule str_trim_plain) (auto simp: marker_value_def mint_is_base64 dest!: base64_url_chars base64_plain prefix_plain)
  then show ?thesis using assms minted_length [of random r] by (auto simp: marker_of_def marker_value_def Let_def)
qed

text \<open>A marker reads back and names its run: the token is the affinity token's encoding of the sixteen bytes that were
  drawn, 22 characters of its alphabet; two markers are equal exactly when the bytes drawn for them are; and a message
  that carries the header value of a marker carries that marker.\<close>

theorem marker_reads_back:
  assumes "header MARKER_HEADER = Some (marker_value (fst (mint_marker random r)))"
  shows "marker_of header = Some (fst (mint_marker random r))
    \<and> map byte_of (fst (mint_marker random r)) = encode_param_value (fst (draw_bytes random 16 r))
    \<and> length (fst (mint_marker random r)) = 22
    \<and> (fst (mint_marker random r) = fst (mint_marker random' r') \<longleftrightarrow> fst (draw_bytes random 16 r) = fst (draw_bytes random' 16 r'))"
  using minted_reads_back [of header random r, OF assms] minted_length [of random r]
  by (simp add: mint_is_base64 base64_url_encodes base64_url_inj)

lemma marker_reads_back_witness:
  "marker_of (\<lambda>h. if h = UaSubject then Some (marker_value (fst (mint_marker (\<lambda>n. (7, n)) (0 :: nat)))) else None)
    = Some (fst (mint_marker (\<lambda>n. (7, n)) (0 :: nat)))"
  using marker_reads_back [of "\<lambda>h. if h = UaSubject then Some (marker_value (fst (mint_marker (\<lambda>n. (7, n)) (0 :: nat)))) else None"
    "\<lambda>n. (7, n)" "0 :: nat" "\<lambda>n. (8, n)" "0 :: nat"]
  by (simp add: MARKER_HEADER_def)

end
