(* ===== verification/Probe_Schedule.thy ===== *)
theory Probe_Schedule imports Prelude "HOL-Library.Product_Lexorder" "HOL-Library.Monad_Syntax" begin

text \<open>
  \<^verbatim>\<open>schedule.rs\<close> of \<^verbatim>\<open>crates/sipx-clstr-probe\<close>: when to probe what.  A
  \<^verbatim>\<open>Duration\<close> is its number of nanoseconds; adding or scaling one beyond the greatest
  \<^verbatim>\<open>Duration\<close> panics, which is \<open>None\<close> here.  The random source of the jitter is a function on
  its own state.
\<close>

section \<open>Durations\<close>

type_synonym duration = nat

definition DURATION_MAX :: duration where
  "DURATION_MAX = (2 ^ 64 - 1) * 1000000000 + 999999999"

definition dur_add :: "duration \<Rightarrow> duration \<Rightarrow> duration option" where
  "dur_add a b = (if a + b \<le> DURATION_MAX then Some (a + b) else None)"

definition dur_mul :: "duration \<Rightarrow> nat \<Rightarrow> duration option" where
  "dur_mul a n = (if a * n \<le> DURATION_MAX then Some (a * n) else None)"

definition from_seconds :: "u64 \<Rightarrow> duration" where
  "from_seconds secs = unat secs * 1000000000"

section \<open>Data\<close>

record target =
  tg_address :: string
  tg_transport :: string
  tg_zone :: string

record cadence =
  cd_interval :: duration
  cd_jitter :: duration

definition cadence_every :: "duration \<Rightarrow> cadence" where
  "cadence_every interval = \<lparr>cd_interval = interval, cd_jitter = interval div 10\<rparr>"

record rate_bound =
  rb_runs :: u32
  rb_per :: duration

definition UNBOUNDED :: rate_bound where
  "UNBOUNDED = \<lparr>rb_runs = - 1, rb_per = from_seconds 1\<rparr>"

record slot =
  sl_target :: target
  sl_due :: duration

record scheduler =
  sd_slots :: "slot list"
  sd_cadence :: cadence
  sd_bound :: rate_bound
  sd_recent :: "duration list"
  sd_deferred :: u64

section \<open>Operations\<close>

definition u32_or :: "nat \<Rightarrow> nat \<Rightarrow> nat" where
  "u32_or other n = (if n < 2 ^ 32 then n else other)"

definition scheduler_new :: "target list \<Rightarrow> cadence \<Rightarrow> rate_bound \<Rightarrow> scheduler option" where
  "scheduler_new targets cadence bound =
    (let stride = cd_interval cadence div u32_or 1 (max (length targets) 1) in do {
       slots \<leftarrow> those (map (\<lambda>(index, target). map_option (\<lambda>due. \<lparr>sl_target = target, sl_due = due\<rparr>)
         (dur_mul stride (u32_or 0 index))) (enumerate 0 targets));
       Some \<lparr>sd_slots = slots, sd_cadence = cadence, sd_bound = bound, sd_recent = [], sd_deferred = 0\<rparr> })"

definition probe_next_due :: "scheduler \<Rightarrow> duration option" where
  "probe_next_due S = (case map sl_due (sd_slots S) of [] \<Rightarrow> None | d # ds \<Rightarrow> Some (foldl min d ds))"

fun trim_starts :: "duration \<Rightarrow> duration \<Rightarrow> duration list \<Rightarrow> duration list option" where
  "trim_starts window now [] = Some []"
| "trim_starts window now (started # rest) = do {
    until \<leftarrow> dur_add started window;
    kept \<leftarrow> trim_starts window now rest;
    Some (if until > now then started # kept else kept) }"

text \<open>The slot due earliest, ties by position.\<close>

definition slot_key :: "nat \<times> slot \<Rightarrow> duration \<times> nat" where
  "slot_key s = (sl_due (snd s), fst s)"

definition due_index :: "duration \<Rightarrow> slot list \<Rightarrow> nat option" where
  "due_index now slots =
    (case filter (\<lambda>(_, slot). sl_due slot \<le> now) (enumerate 0 slots) of
       [] \<Rightarrow> None
     | s # ss \<Rightarrow> Some (fst (foldl (\<lambda>best s. if slot_key s < slot_key best then s else best) s ss)))"

definition take_due ::
  "(duration \<Rightarrow> 'r \<Rightarrow> duration \<times> 'r) \<Rightarrow> duration \<Rightarrow> scheduler \<Rightarrow> 'r \<Rightarrow> (target option \<times> scheduler \<times> 'r) option" where
  "take_due jitter now S r = do {
    recent \<leftarrow> trim_starts (rb_per (sd_bound S)) now (sd_recent S);
    let S = S\<lparr>sd_recent := recent\<rparr> in
    case due_index now (sd_slots S) of
      None \<Rightarrow> Some (None, S, r)
    | Some index \<Rightarrow>
        if length (sd_recent S) \<ge> unat (rb_runs (sd_bound S))
        then Some (None, S\<lparr>sd_deferred := sd_deferred S + 1\<rparr>, r)
        else case get_at (sd_slots S) index of
            None \<Rightarrow> Some (None, S, r)
          | Some slot \<Rightarrow> do {
              base \<leftarrow> dur_add now (cd_interval (sd_cadence S));
              let (j, r) = jitter (cd_jitter (sd_cadence S)) r in do {
                due \<leftarrow> dur_add base j;
                Some (Some (sl_target slot),
                  S\<lparr>sd_slots := (sd_slots S)[index := slot\<lparr>sl_due := due\<rparr>], sd_recent := sd_recent S @ [now]\<rparr>, r) } } }"

section \<open>What is taken\<close>

lemma trim_starts_filter: "trim_starts window now starts = Some kept \<Longrightarrow> kept = filter (\<lambda>s. now < s + window) starts"
  by (induction starts arbitrary: kept) (auto simp: dur_add_def split: bind_splits if_splits)

lemma least_key:
  "foldl (\<lambda>best s. if slot_key s < slot_key best then s else best) s ss \<in> set (s # ss)
    \<and> (\<forall>x \<in> set (s # ss). slot_key (foldl (\<lambda>best s. if slot_key s < slot_key best then s else best) s ss) \<le> slot_key x)"
proof (induction ss arbitrary: s)
  case (Cons a ss)
  from Cons.IH [of "if slot_key a < slot_key s then a else s"] show ?case
    by (cases "slot_key a < slot_key s") (auto intro: order.trans less_imp_le dest: order.strict_trans1)
qed simp

lemma due_index_some:
  assumes "due_index now slots = Some index"
  shows "index < length slots" "sl_due (slots ! index) \<le> now"
    "j < length slots \<Longrightarrow> sl_due (slots ! index) \<le> sl_due (slots ! j)"
proof -
  let ?due = "filter (\<lambda>(_, slot). sl_due slot \<le> now) (enumerate 0 slots)"
  from assms obtain s ss where due: "?due = s # ss" by (auto simp: due_index_def split: list.splits)
  let ?least = "foldl (\<lambda>best s. if slot_key s < slot_key best then s else best) s ss"
  have least: "?least \<in> set ?due" "\<forall>x \<in> set ?due. slot_key ?least \<le> slot_key x" using least_key [of s ss] due by auto
  have index: "index = fst ?least" using assms due by (simp add: due_index_def)
  from least(1) show i: "index < length slots" "sl_due (slots ! index) \<le> now"
    by (auto simp: index in_set_enumerate_eq)
  have at: "sl_due (slots ! index) = sl_due (snd ?least)" using least(1) by (auto simp: index in_set_enumerate_eq)
  assume j: "j < length slots"
  show "sl_due (slots ! index) \<le> sl_due (slots ! j)"
  proof (cases "sl_due (slots ! j) \<le> now")
    case True
    with j have "(j, slots ! j) \<in> set ?due" by (auto simp: in_set_enumerate_eq)
    with least(2) have "slot_key ?least \<le> slot_key (j, slots ! j)" by blast
    then show ?thesis by (auto simp: at slot_key_def less_eq_prod_def)
  next
    case False
    with i(2) show ?thesis by simp
  qed
qed

lemma due_index_none: "due_index now slots = None \<longleftrightarrow> (\<forall>slot \<in> set slots. now < sl_due slot)"
proof -
  have "due_index now slots = None \<longleftrightarrow> filter (\<lambda>(_, slot). sl_due slot \<le> now) (enumerate 0 slots) = []"
    by (auto simp: due_index_def split: list.splits)
  also have "\<dots> \<longleftrightarrow> (\<forall>slot \<in> set slots. now < sl_due slot)"
  proof -
    have "set slots = snd ` set (enumerate 0 slots)" by (metis list.set_map map_snd_enumerate)
    then show ?thesis by (simp add: filter_empty_conv not_le split_beta)
  qed
  finally show ?thesis .
qed

text \<open>The first runs are spread across one interval.\<close>

lemma those_map_some: "(\<And>x. x \<in> set xs \<Longrightarrow> f x = Some (g x)) \<Longrightarrow> those (map f xs) = Some (map g xs)"
  by (induction xs) auto

lemma first_runs_spread:
  assumes "length targets < 2 ^ 32" "cd_interval cadence \<le> DURATION_MAX"
  shows "\<exists>S. scheduler_new targets cadence bound = Some S \<and> map sl_target (sd_slots S) = targets
    \<and> map sl_due (sd_slots S) = map (\<lambda>i. i * (cd_interval cadence div max (length targets) 1)) [0 ..< length targets]
    \<and> (\<forall>slot \<in> set (sd_slots S). sl_due slot \<le> cd_interval cadence)"
proof -
  let ?n = "max (length targets) 1" let ?stride = "cd_interval cadence div ?n"
  let ?slot = "\<lambda>(index, target). \<lparr>sl_target = target, sl_due = index * ?stride\<rparr>"
  have fit: "index * ?stride \<le> cd_interval cadence" if "index < length targets" for index
  proof -
    have "index * ?stride \<le> ?n * ?stride" using that by (intro mult_le_mono1) simp
    also have "\<dots> \<le> cd_interval cadence" by (rule times_div_less_eq_dividend)
    finally show ?thesis .
  qed
  have "(case e of (index, target) \<Rightarrow> map_option (\<lambda>due. \<lparr>sl_target = target, sl_due = due\<rparr>)
      (dur_mul ?stride (u32_or 0 index))) = Some (?slot e)" if "e \<in> set (enumerate 0 targets)" for e
  proof -
    have "fst e < length targets" using that by (simp add: in_set_enumerate_eq)
    with fit [of "fst e"] assms show ?thesis
      by (auto simp: dur_mul_def u32_or_def mult.commute split: prod.split)
  qed
  then have "those (map (\<lambda>(index, target). map_option (\<lambda>due. \<lparr>sl_target = target, sl_due = due\<rparr>)
      (dur_mul ?stride (u32_or 0 index))) (enumerate 0 targets)) = Some (map ?slot (enumerate 0 targets))"
    by (rule those_map_some)
  moreover have "u32_or 1 ?n = ?n" using assms(1) by (simp add: u32_or_def)
  moreover have "map sl_target (map ?slot (enumerate 0 targets)) = targets" "map sl_due (map ?slot (enumerate 0 targets)) =
      map (\<lambda>i. i * ?stride) [0 ..< length targets]"
    by (rule nth_equalityI; simp add: nth_enumerate_eq)+
  moreover have "\<forall>slot \<in> set (map ?slot (enumerate 0 targets)). sl_due slot \<le> cd_interval cadence"
    using fit by (auto simp: in_set_enumerate_eq)
  ultimately show ?thesis by (simp add: scheduler_new_def)
qed

text \<open>No target is ever lost.  A call that takes a target takes one that is due, none being due earlier, and makes it
  due an interval or more later; a call that takes none leaves every target due when it was, and either none was due
  or the bound is reached and the refusal is counted.  The targets stay what they were.\<close>

theorem targets_never_lost:
  assumes "take_due jitter now S r = Some (taken, S', r')"
  shows "map sl_target (sd_slots S') = map sl_target (sd_slots S) \<and> sd_bound S' = sd_bound S \<and> sd_cadence S' = sd_cadence S
    \<and> (case taken of
         Some target \<Rightarrow> \<exists>i < length (sd_slots S). \<exists>due. target = sl_target (sd_slots S ! i) \<and> sl_due (sd_slots S ! i) \<le> now
           \<and> (\<forall>j < length (sd_slots S). sl_due (sd_slots S ! i) \<le> sl_due (sd_slots S ! j))
           \<and> sd_slots S' = (sd_slots S)[i := (sd_slots S ! i)\<lparr>sl_due := due\<rparr>] \<and> now + cd_interval (sd_cadence S) \<le> due
           \<and> sd_deferred S' = sd_deferred S
       | None \<Rightarrow> sd_slots S' = sd_slots S
           \<and> (if \<forall>slot \<in> set (sd_slots S). now < sl_due slot then sd_deferred S' = sd_deferred S
              else sd_deferred S' = sd_deferred S + 1 \<and> unat (rb_runs (sd_bound S)) \<le> length (sd_recent S')))"
proof -
  obtain recent where recent: "trim_starts (rb_per (sd_bound S)) now (sd_recent S) = Some recent"
    using assms by (auto simp: take_due_def split: bind_splits)
  show ?thesis
  proof (cases "due_index now (sd_slots S)")
    case None
    with assms recent show ?thesis by (auto simp: take_due_def Let_def due_index_none)
  next
    case (Some i)
    note i = due_index_some [OF Some]
    then have some_due: "\<not> (\<forall>slot \<in> set (sd_slots S). now < sl_due slot)" by (meson not_le nth_mem)
    show ?thesis
    proof (cases "length recent \<ge> unat (rb_runs (sd_bound S))")
      case True
      with assms recent Some some_due show ?thesis by (auto simp: take_due_def Let_def)
    next
      case False
      let ?due = "now + cd_interval (sd_cadence S) + fst (jitter (cd_jitter (sd_cadence S)) r)"
      from False assms recent Some i have taken: "taken = Some (sl_target (sd_slots S ! i))" "S' = S\<lparr>sd_slots := (sd_slots S)[i := (sd_slots S ! i)\<lparr>sl_due := ?due\<rparr>], sd_recent := recent @ [now]\<rparr>"
        by (auto simp: take_due_def Let_def get_at_def dur_add_def split: bind_splits if_splits prod.splits)
      have "map sl_target ((sd_slots S)[i := (sd_slots S ! i)\<lparr>sl_due := ?due\<rparr>]) = map sl_target (sd_slots S)"
        by (simp add: map_update) (metis i(1) length_map list_update_id nth_map)
      moreover have "now + cd_interval (sd_cadence S) \<le> ?due" by simp
      ultimately show ?thesis using i unfolding taken by (simp, intro exI [of _ i], simp, intro exI [of _ ?due], simp)
    qed
  qed
qed

text \<open>Two targets, one run in twenty nanoseconds: the second is put off, then taken.\<close>

definition sample_targets :: "target list" where
  "sample_targets = [\<lparr>tg_address = ''a'', tg_transport = ''UDP'', tg_zone = ''z''\<rparr>, \<lparr>tg_address = ''b'', tg_transport = ''TLS'', tg_zone = ''z''\<rparr>]"

definition sample_scheduler :: scheduler where
  "sample_scheduler = \<lparr>sd_slots = [\<lparr>sl_target = sample_targets ! 0, sl_due = 0\<rparr>, \<lparr>sl_target = sample_targets ! 1, sl_due = 10\<rparr>],
     sd_cadence = cadence_every 20, sd_bound = \<lparr>rb_runs = 1, rb_per = 20\<rparr>, sd_recent = [], sd_deferred = 0\<rparr>"

lemma sample_scheduled: "scheduler_new sample_targets (cadence_every 20) \<lparr>rb_runs = 1, rb_per = 20\<rparr> = Some sample_scheduler"
  by (simp add: scheduler_new_def Let_def sample_scheduler_def sample_targets_def cadence_every_def u32_or_def dur_mul_def DURATION_MAX_def
      flip: numeral_2_eq_2)

lemmas schedule_defs = take_due_def due_index_def slot_key_def dur_add_def DURATION_MAX_def get_at_def cadence_every_def
  sample_scheduler_def sample_targets_def

lemma targets_never_lost_witness:
  "\<exists>S'. take_due (\<lambda>b r. (b, r)) 3 sample_scheduler () = Some (Some (sample_targets ! 0), S', ()) \<and> map sl_target (sd_slots S') = sample_targets"
proof -
  obtain S' where taken: "take_due (\<lambda>b r. (b, r)) 3 sample_scheduler () = Some (Some (sample_targets ! 0), S', ())"
    by (simp add: schedule_defs)
  from targets_never_lost [OF this] have "map sl_target (sd_slots S') = map sl_target (sd_slots sample_scheduler)" by (elim conjE)
  with taken show ?thesis by (auto simp: sample_scheduler_def sample_targets_def)
qed

section \<open>The rate bound\<close>

fun probe_calls ::
  "(duration \<Rightarrow> 'r \<Rightarrow> duration \<times> 'r) \<Rightarrow> duration list \<Rightarrow> scheduler \<Rightarrow> 'r \<Rightarrow> ((duration \<times> target) list \<times> scheduler \<times> 'r) option" where
  "probe_calls jitter [] S r = Some ([], S, r)"
| "probe_calls jitter (now # nows) S r = do {
    (taken, S, r) \<leftarrow> take_due jitter now S r;
    (starts, S, r) \<leftarrow> probe_calls jitter nows S r;
    Some ((case taken of None \<Rightarrow> starts | Some t \<Rightarrow> (now, t) # starts), S, r) }"

definition in_window :: "duration \<Rightarrow> duration \<Rightarrow> duration list \<Rightarrow> duration list" where
  "in_window per t starts = filter (\<lambda>s. s \<le> t \<and> t < s + per) starts"

text \<open>The starts so far, at the last call: those the scheduler remembers are the ones whose window is open, and no
  window ever held more than the bound.\<close>

definition bounded :: "duration list \<Rightarrow> duration \<Rightarrow> scheduler \<Rightarrow> bool" where
  "bounded starts now S \<longleftrightarrow>
    filter (\<lambda>s. now < s + rb_per (sd_bound S)) (sd_recent S) = filter (\<lambda>s. now < s + rb_per (sd_bound S)) starts \<and> (\<forall>s \<in> set starts. s \<le> now)
    \<and> (\<forall>t. length (in_window (rb_per (sd_bound S)) t starts) \<le> unat (rb_runs (sd_bound S)))"

lemma take_due_recent:
  assumes "take_due jitter now S r = Some (taken, S', r')"
  shows "sd_bound S' = sd_bound S"
    "taken = None \<Longrightarrow> sd_recent S' = filter (\<lambda>s. now < s + rb_per (sd_bound S)) (sd_recent S)"
    "taken = Some x \<Longrightarrow> sd_recent S' = filter (\<lambda>s. now < s + rb_per (sd_bound S)) (sd_recent S) @ [now]
      \<and> length (filter (\<lambda>s. now < s + rb_per (sd_bound S)) (sd_recent S)) < unat (rb_runs (sd_bound S))"
  using assms
  by (auto simp: take_due_def Let_def dest!: trim_starts_filter split: bind_splits option.splits if_splits prod.splits)

lemma filter_window: "now' \<le> now \<Longrightarrow> filter (\<lambda>s. now < s + per) (filter (\<lambda>s. now' < s + per) starts) = filter (\<lambda>s. now < s + per) starts"
  for now :: duration
  by (induction starts) auto

lemma bounded_step:
  assumes "bounded starts before S" "before \<le> now" "take_due jitter now S r = Some (taken, S', r')"
  shows "bounded (case taken of None \<Rightarrow> starts | Some _ \<Rightarrow> starts @ [now]) now S'"
proof -
  note step = take_due_recent [OF assms(3)]
  let ?per = "rb_per (sd_bound S)"
  have recent: "filter (\<lambda>s. now < s + ?per) (sd_recent S) = filter (\<lambda>s. now < s + ?per) starts"
    using assms(1) filter_window [OF assms(2), of ?per starts] filter_window [OF assms(2), of ?per "sd_recent S"]
    by (simp only: bounded_def)
  have past: "\<forall>s \<in> set starts. s \<le> now" using assms(1,2) by (auto simp: bounded_def)
  show ?thesis
  proof (cases taken)
    case None
    with step(1,2) recent past assms(1) show ?thesis by (simp add: bounded_def)
  next
    case (Some x)
    have "length (in_window ?per t (starts @ [now])) \<le> unat (rb_runs (sd_bound S))" for t
    proof (cases "now \<le> t \<and> t < now + ?per")
      case True
      have "filter (\<lambda>s. s \<le> t \<and> t < s + ?per) starts = filter (\<lambda>s. t < s + ?per) (filter (\<lambda>s. now < s + ?per) starts)"
        using past True by (auto simp: filter_filter intro!: filter_cong)
      then have "length (in_window ?per t starts) \<le> length (filter (\<lambda>s. now < s + ?per) starts)"
        by (simp add: in_window_def) (metis length_filter_le filter_filter)
      with True step(3) [OF Some] recent show ?thesis by (simp add: in_window_def)
    next
      case False
      then have "in_window ?per t (starts @ [now]) = in_window ?per t starts" by (auto simp: in_window_def)
      with assms(1) show ?thesis by (simp add: bounded_def)
    qed
    then show ?thesis using Some step(1) step(3) [OF Some] recent past by (simp add: bounded_def)
  qed
qed

lemma bounded_calls:
  "bounded starts before S \<Longrightarrow> sorted (before # nows) \<Longrightarrow> probe_calls jitter nows S r = Some (started, S', r') \<Longrightarrow>
    bounded (starts @ map fst started) (List.last (before # nows)) S'"
proof (induction nows arbitrary: starts before S r started)
  case (Cons now nows)
  from Cons.prems(3) obtain taken T rT rest where T: "take_due jitter now S r = Some (taken, T, rT)"
    "probe_calls jitter nows T rT = Some (rest, S', r')" "started = (case taken of None \<Rightarrow> rest | Some t \<Rightarrow> (now, t) # rest)"
    by (auto split: bind_splits)
  have "bounded (case taken of None \<Rightarrow> starts | Some _ \<Rightarrow> starts @ [now]) now T"
    using bounded_step [OF Cons.prems(1) _ T(1)] Cons.prems(2) by simp
  from Cons.IH [OF this _ T(2)] Cons.prems(2) show ?case by (cases taken) (auto simp: T(3))
qed simp

text \<open>C38. The rate bound holds over any window, not only over those that end at a call: however often the schedule is asked
  and whatever the jitter, at no instant have more runs than the bound started within the bound's window up to it.\<close>

theorem rate_bound_holds:
  assumes "scheduler_new targets cadence bound = Some S" "sorted nows" "probe_calls jitter nows S r = Some (started, S', r')"
  shows "length (filter (\<lambda>(s, _). s \<le> t \<and> t < s + rb_per bound) started) \<le> unat (rb_runs bound)"
proof (cases nows)
  case Nil
  with assms(3) show ?thesis by simp
next
  case (Cons now rest)
  have S: "sd_bound S = bound" "sd_recent S = []"
    using assms(1) by (auto simp: scheduler_new_def Let_def split: bind_splits)
  have "bounded [] now S" by (simp add: bounded_def S in_window_def)
  from bounded_calls [OF this _ assms(3)] assms(2) Cons have "bounded (map fst started) (List.last (now # nows)) S'" by simp
  moreover have "sd_bound S' = sd_bound S" using assms(3)
  proof (induction nows arbitrary: S r started)
    case (Cons now nows)
    then show ?case by (fastforce dest: take_due_recent(1) split: bind_splits)
  qed simp
  ultimately have "length (in_window (rb_per bound) t (map fst started)) \<le> unat (rb_runs bound)"
    by (simp add: bounded_def S)
  then show ?thesis by (simp add: in_window_def filter_map o_def case_prod_unfold)
qed

lemma rate_bound_holds_witness:
  "\<exists>started S'. probe_calls (\<lambda>b r. (b, r)) [0, 10, 21] sample_scheduler () = Some (started, S', ()) \<and> map fst started = [0, 21]
    \<and> length (filter (\<lambda>(s, _). s \<le> 10 \<and> 10 < s + 20) started) \<le> 1"
proof -
  have "map_option (\<lambda>(started, _, _). map fst started) (probe_calls (\<lambda>b r. (b, r)) [0, 10, 21] sample_scheduler ()) = Some [0, 21]"
    by (simp add: schedule_defs)
  then obtain started S' where S': "probe_calls (\<lambda>b r. (b, r)) [0, 10, 21] sample_scheduler () = Some (started, S', ())"
    "map fst started = [0, 21]" by auto
  from rate_bound_holds [OF sample_scheduled _ S'(1), of 10] S' show ?thesis by auto
qed

end
