(* ===== verification/Probe.thy ===== *)
theory Probe imports Prelude Ascii Marker Probe_Schedule begin

text \<open>
  \<^verbatim>\<open>verdict.rs\<close> and \<^verbatim>\<open>engine.rs\<close> of \<^verbatim>\<open>crates/sipx-clstr-probe\<close>: what a
  probe run concludes and the state machine that runs the plan.  The engine's mutable state is a
  record that every handler takes and returns beside its effects.
\<close>

section \<open>Verdicts\<close>

datatype plan_step = ResolveStep | RegisterStep | InviteStep | ByeStep

definition PLAN :: "plan_step list" where
  "PLAN = [ResolveStep, RegisterStep, InviteStep, ByeStep]"

definition default_timeout :: "plan_step \<Rightarrow> duration" where
  "default_timeout s = (case s of ResolveStep \<Rightarrow> from_seconds 2 | InviteStep \<Rightarrow> from_seconds 10 | _ \<Rightarrow> from_seconds 5)"

definition plan_step_text :: "plan_step \<Rightarrow> string" where
  "plan_step_text s = (case s of
     ResolveStep \<Rightarrow> ''resolve'' | RegisterStep \<Rightarrow> ''register'' | InviteStep \<Rightarrow> ''invite'' | ByeStep \<Rightarrow> ''bye'')"

datatype cause =
    TimeoutCause | RejectedCause u16 | MarkerMismatch | Unreachable | ResolutionFailed | ShedCause "duration option"

datatype probe_fault = BadCredentials | Misconfigured | NoLocalResource | ClockSkew | CancelledRun | InternalFault

datatype probe_verdict = PassVerdict | FailVerdict plan_step cause | InconclusiveVerdict probe_fault

definition counts_as_platform_result :: "probe_verdict \<Rightarrow> bool" where
  "counts_as_platform_result v = (case v of InconclusiveVerdict _ \<Rightarrow> False | _ \<Rightarrow> True)"

definition is_platform_failure :: "probe_verdict \<Rightarrow> bool" where
  "is_platform_failure v = (case v of FailVerdict _ _ \<Rightarrow> True | _ \<Rightarrow> False)"

record step_outcome =
  so_step :: plan_step
  so_succeeded :: bool
  so_elapsed :: duration

section \<open>Data of a run\<close>

record probe_config =
  pc_probe_aor :: string
  pc_echo_aor :: string
  pc_contact :: string
  pc_target :: target
  pc_timeouts :: "duration list"
  pc_sent_by :: string
  pc_has_credentials :: bool

definition probe_config_new :: "string \<Rightarrow> string \<Rightarrow> string \<Rightarrow> target \<Rightarrow> probe_config" where
  "probe_config_new probe_aor echo_aor contact target =
    \<lparr>pc_probe_aor = probe_aor, pc_echo_aor = echo_aor, pc_contact = contact, pc_target = target,
     pc_timeouts = map default_timeout PLAN, pc_sent_by = ''probe.invalid'', pc_has_credentials = True\<rparr>"

definition timeout_of :: "probe_config \<Rightarrow> plan_step \<Rightarrow> duration" where
  "timeout_of C s =
    (let index = (case s of ResolveStep \<Rightarrow> 0 | RegisterStep \<Rightarrow> 1 | InviteStep \<Rightarrow> 2 | ByeStep \<Rightarrow> 3)
     in get_or (from_seconds 5) (pc_timeouts C) index)"

definition is_usable :: "probe_config \<Rightarrow> bool" where
  "is_usable C \<longleftrightarrow> pc_probe_aor C \<noteq> [] \<and> pc_echo_aor C \<noteq> [] \<and> pc_contact C \<noteq> [] \<and> tg_address (pc_target C) \<noteq> []"

datatype 'resp probe_input =
    ProbeStart | Resolved bool | ProbeResponse 'resp | TransportFailed | ProbeTimer plan_step | ProbeCancelled | NoResource

record probe_run =
  pr_marker :: marker
  pr_target :: target
  pr_steps :: "step_outcome list"
  pr_verdict :: probe_verdict
  pr_cleanup_failed :: bool

datatype 'req probe_effect =
    ResolveTarget target | SendRequest 'req | ArmTimer plan_step duration | DisarmTimer plan_step | FinishRun probe_run

datatype obligation = EndDialog | Deregister

datatype waiting = WaitNothing | WaitStep plan_step | WaitCleanup plan_step

record probe =
  pb_config :: probe_config
  pb_marker :: marker
  pb_waiting :: waiting
  pb_steps :: "step_outcome list"
  pb_started :: duration
  pb_now :: duration
  pb_decided :: "probe_verdict option"
  pb_owes :: "obligation list"
  pb_cleanup_failed :: bool
  pb_finished :: bool
  pb_answered :: bool
  pb_cseq :: u32
  pb_outstanding :: "u32 option"

definition probe_new :: "probe_config \<Rightarrow> marker \<Rightarrow> probe" where
  "probe_new C m =
    \<lparr>pb_config = C, pb_marker = m, pb_waiting = WaitNothing, pb_steps = [], pb_started = 0, pb_now = 0, pb_decided = None,
     pb_owes = [], pb_cleanup_failed = False, pb_finished = False, pb_answered = False, pb_cseq = 0, pb_outstanding = None\<rparr>"

definition owe :: "obligation \<Rightarrow> probe \<Rightarrow> probe" where
  "owe o' P = (if o' \<in> set (pb_owes P) then P else P\<lparr>pb_owes := pb_owes P @ [o']\<rparr>)"

definition forget_owed :: "obligation \<Rightarrow> probe \<Rightarrow> probe" where
  "forget_owed o' P = P\<lparr>pb_owes := filter (\<lambda>owed. owed \<noteq> o') (pb_owes P)\<rparr>"

definition begin_step :: "plan_step \<Rightarrow> probe \<Rightarrow> probe" where
  "begin_step s P = P\<lparr>pb_waiting := WaitStep s, pb_started := pb_now P\<rparr>"

definition conclude_step :: "bool \<Rightarrow> probe \<Rightarrow> probe" where
  "conclude_step succeeded P =
    (let P = (case pb_waiting P of
         WaitStep s \<Rightarrow> P\<lparr>pb_steps := pb_steps P @ [\<lparr>so_step = s, so_succeeded = succeeded, so_elapsed = pb_now P - pb_started P\<rparr>]\<rparr>
       | _ \<Rightarrow> P)
     in P\<lparr>pb_waiting := WaitNothing\<rparr>)"

section \<open>Requests\<close>

text \<open>A builder of the library, to which every header is added or none.\<close>

definition put_all :: "('u, 'b, 'req, 'hdr, 'resp) ua_kernel \<Rightarrow> (ua_header \<times> bytes) list \<Rightarrow> 'b \<Rightarrow> 'b option" where
  "put_all K headers b = foldl (\<lambda>b (name, value). Option.bind b (ua_put K name value)) (Some b) headers"

definition uri_or_placeholder :: "('u, 'b, 'req, 'hdr, 'resp) ua_kernel \<Rightarrow> string \<Rightarrow> 'u" where
  "uri_or_placeholder K text = (case ua_uri K text of Some u \<Rightarrow> u | None \<Rightarrow> ua_placeholder K)"

definition probe_via :: "probe_config \<Rightarrow> marker \<Rightarrow> u32 \<Rightarrow> string" where
  "probe_via C m cseq = ''SIP/2.0/'' @ tg_transport (pc_target C) @ '' '' @ pc_sent_by C @ '';branch=z9hG4bK-probe-'' @ m @ ''-''
    @ decimal (unat cseq)"

definition marked_request ::
  "('u, 'b, 'req, 'hdr, 'resp) ua_kernel \<Rightarrow> probe_config \<Rightarrow> marker \<Rightarrow> u32 \<Rightarrow> ua_method \<Rightarrow> string \<Rightarrow> string \<Rightarrow>
    (ua_header \<times> bytes) list \<Rightarrow> 'req" where
  "marked_request K C m cseq verb uri to contact =
    (let bare = ua_new K verb (uri_or_placeholder K uri);
         built = Option.bind (put_all K [(UaCallId, ''probe-'' @ m)] bare) (\<lambda>b.
           Option.bind (ua_cseq K cseq verb b) (\<lambda>b.
             put_all K ([(UaFrom, ''<'' @ pc_probe_aor C @ ''>;tag=probe''), (UaTo, ''<'' @ to @ ''>'')] @ contact
               @ [(MARKER_HEADER, marker_value m), (UaVia, probe_via C m cseq)]) b))
     in ua_build K (case built of Some b \<Rightarrow> ua_max_forwards K 70 b | None \<Rightarrow> bare))"

definition register_request ::
  "('u, 'b, 'req, 'hdr, 'resp) ua_kernel \<Rightarrow> u32 \<Rightarrow> probe \<Rightarrow> 'req \<times> probe" where
  "register_request K expires P =
    (let cseq = pb_cseq P + 1; C = pb_config P
     in (marked_request K C (pb_marker P) cseq UaRegister (''sip:'' @ tg_address (pc_target C)) (pc_probe_aor C)
           [(UaContact, ''<'' @ pc_contact C @ ''>;expires='' @ decimal (unat expires))],
         P\<lparr>pb_cseq := cseq, pb_outstanding := Some cseq\<rparr>))"

definition simple_request ::
  "('u, 'b, 'req, 'hdr, 'resp) ua_kernel \<Rightarrow> ua_method \<Rightarrow> string \<Rightarrow> probe \<Rightarrow> 'req \<times> probe" where
  "simple_request K verb to P =
    (let cseq = pb_cseq P + 1
     in (marked_request K (pb_config P) (pb_marker P) cseq verb to to [],
         P\<lparr>pb_cseq := cseq, pb_outstanding := (if verb = UaAck then pb_outstanding P else Some cseq)\<rparr>))"

definition to_echo :: "('u, 'b, 'req, 'hdr, 'resp) ua_kernel \<Rightarrow> ua_method \<Rightarrow> probe \<Rightarrow> 'req \<times> probe" where
  "to_echo K verb P = simple_request K verb (pc_echo_aor (pb_config P)) P"

section \<open>Conclusion\<close>

definition finish_run :: "probe \<Rightarrow> 'req probe_effect list \<times> probe" where
  "finish_run P =
    (let P = P\<lparr>pb_finished := True, pb_waiting := WaitNothing\<rparr>;
         verdict = (case pb_decided P of Some v \<Rightarrow> v | None \<Rightarrow> InconclusiveVerdict InternalFault)
     in ([FinishRun \<lparr>pr_marker = pb_marker P, pr_target = pc_target (pb_config P), pr_steps = pb_steps P, pr_verdict = verdict,
            pr_cleanup_failed = pb_cleanup_failed P\<rparr>],
         P\<lparr>pb_steps := []\<rparr>))"

text \<open>What the run still owes is undone: the dialog first, then the registration.\<close>

definition cleanup :: "('u, 'b, 'req, 'hdr, 'resp) ua_kernel \<Rightarrow> probe \<Rightarrow> 'req probe_effect list \<times> probe" where
  "cleanup K P =
    (if EndDialog \<in> set (pb_owes P) then
       (let (bye, P) = to_echo K UaBye ((forget_owed EndDialog P)\<lparr>pb_waiting := WaitCleanup ByeStep\<rparr>)
        in ([SendRequest bye, ArmTimer ByeStep (timeout_of (pb_config P) ByeStep)], P))
     else if Deregister \<in> set (pb_owes P) then
       (let (deregister, P) = register_request K 0 ((forget_owed Deregister P)\<lparr>pb_waiting := WaitCleanup RegisterStep\<rparr>)
        in ([SendRequest deregister, ArmTimer RegisterStep (timeout_of (pb_config P) RegisterStep)], P))
     else finish_run P)"

definition then_cleanup :: "('u, 'b, 'req, 'hdr, 'resp) ua_kernel \<Rightarrow> plan_step \<Rightarrow> probe \<Rightarrow> 'req probe_effect list \<times> probe" where
  "then_cleanup K s P = (let (effs, P) = cleanup K P in (DisarmTimer s # effs, P))"

definition after_cleanup :: "('u, 'b, 'req, 'hdr, 'resp) ua_kernel \<Rightarrow> plan_step \<Rightarrow> probe \<Rightarrow> 'req probe_effect list \<times> probe" where
  "after_cleanup K s P = then_cleanup K s (P\<lparr>pb_waiting := WaitNothing\<rparr>)"

definition decide_once :: "probe_verdict \<Rightarrow> probe \<Rightarrow> probe" where
  "decide_once v P = (case pb_decided P of None \<Rightarrow> P\<lparr>pb_decided := Some v\<rparr> | Some _ \<Rightarrow> P)"

definition fail_run :: "('u, 'b, 'req, 'hdr, 'resp) ua_kernel \<Rightarrow> plan_step \<Rightarrow> cause \<Rightarrow> probe \<Rightarrow> 'req probe_effect list \<times> probe" where
  "fail_run K s c P =
    (let P = decide_once (FailVerdict s c) P;
         P = (if s = ByeStep then forget_owed EndDialog P else P)
     in then_cleanup K s P)"

definition abandon_run :: "('u, 'b, 'req, 'hdr, 'resp) ua_kernel \<Rightarrow> probe_fault \<Rightarrow> probe \<Rightarrow> 'req probe_effect list \<times> probe" where
  "abandon_run K f P =
    (let P = decide_once (InconclusiveVerdict f) P
     in case pb_waiting P of
          WaitStep s \<Rightarrow> then_cleanup K s (conclude_step False P)
        | _ \<Rightarrow> cleanup K P)"

section \<open>The plan\<close>

definition start_run :: "('u, 'b, 'req, 'hdr, 'resp) ua_kernel \<Rightarrow> probe \<Rightarrow> 'req probe_effect list \<times> probe" where
  "start_run K P =
    (if \<not> is_usable (pb_config P) then abandon_run K Misconfigured P
     else ([ResolveTarget (pc_target (pb_config P)), ArmTimer ResolveStep (timeout_of (pb_config P) ResolveStep)],
           begin_step ResolveStep P))"

definition send_register :: "('u, 'b, 'req, 'hdr, 'resp) ua_kernel \<Rightarrow> probe \<Rightarrow> 'req probe_effect list \<times> probe" where
  "send_register K P =
    (let (request, P) = register_request K 3600 (begin_step RegisterStep P)
     in ([DisarmTimer ResolveStep, SendRequest request, ArmTimer RegisterStep (timeout_of (pb_config P) RegisterStep)], P))"

definition send_invite :: "('u, 'b, 'req, 'hdr, 'resp) ua_kernel \<Rightarrow> probe \<Rightarrow> 'req probe_effect list \<times> probe" where
  "send_invite K P =
    (let (request, P) = to_echo K UaInvite (begin_step InviteStep P)
     in ([DisarmTimer RegisterStep, SendRequest request, ArmTimer InviteStep (timeout_of (pb_config P) InviteStep)], P))"

definition send_bye :: "('u, 'b, 'req, 'hdr, 'resp) ua_kernel \<Rightarrow> probe \<Rightarrow> 'req probe_effect list \<times> probe" where
  "send_bye K P =
    (let (ack, P) = to_echo K UaAck (begin_step ByeStep P);
         (bye, P) = to_echo K UaBye P
     in ([DisarmTimer InviteStep, SendRequest ack, SendRequest bye, ArmTimer ByeStep (timeout_of (pb_config P) ByeStep)], P))"

definition on_resolved :: "('u, 'b, 'req, 'hdr, 'resp) ua_kernel \<Rightarrow> bool \<Rightarrow> probe \<Rightarrow> 'req probe_effect list \<times> probe" where
  "on_resolved K ok P =
    (if pb_waiting P \<noteq> WaitStep ResolveStep then ([], P)
     else if \<not> ok then fail_run K ResolveStep ResolutionFailed (conclude_step False P)
     else send_register K (conclude_step True P))"

definition cseq_number :: "('u, 'b, 'req, 'hdr, 'resp) ua_kernel \<Rightarrow> 'resp \<Rightarrow> u32 option" where
  "cseq_number K response =
    Option.bind (resp_header K response UaCSeq) (\<lambda>value. Option.bind (first_word (from_utf8_lossy value)) parse_u32)"

definition retry_after_of :: "('u, 'b, 'req, 'hdr, 'resp) ua_kernel \<Rightarrow> 'resp \<Rightarrow> duration option" where
  "retry_after_of K response =
    Option.bind (resp_header K response (UaOther ''Retry-After'')) (\<lambda>value.
      map_option (\<lambda>secs. from_seconds (of_nat secs))
        (parse_unsigned 64 (trim_text (takeWhile (\<lambda>p. p \<noteq> 59) (trim_text (from_utf8_lossy value))))))"

definition retry_challenged :: "('u, 'b, 'req, 'hdr, 'resp) ua_kernel \<Rightarrow> plan_step \<Rightarrow> probe \<Rightarrow> 'req probe_effect list \<times> probe" where
  "retry_challenged K s P =
    (let sent = (\<lambda>(request, P). ([SendRequest request], P))
     in case s of
          RegisterStep \<Rightarrow> sent (register_request K 3600 P)
        | InviteStep \<Rightarrow> sent (to_echo K UaInvite P)
        | ByeStep \<Rightarrow> sent (to_echo K UaBye P)
        | ResolveStep \<Rightarrow> ([], P))"

text \<open>A step that succeeded.\<close>

definition on_success :: "('u, 'b, 'req, 'hdr, 'resp) ua_kernel \<Rightarrow> plan_step \<Rightarrow> 'resp \<Rightarrow> probe \<Rightarrow> 'req probe_effect list \<times> probe" where
  "on_success K s response P =
    (case s of
       RegisterStep \<Rightarrow> send_invite K (owe Deregister P)
     | InviteStep \<Rightarrow>
        (let P = owe EndDialog P
         in if marker_of (resp_header K response) \<noteq> Some (pb_marker P) then fail_run K InviteStep MarkerMismatch P else send_bye K P)
     | ByeStep \<Rightarrow> cleanup K ((forget_owed EndDialog P)\<lparr>pb_decided := Some PassVerdict\<rparr>)
     | ResolveStep \<Rightarrow> ([], P))"

definition on_step_response ::
  "('u, 'b, 'req, 'hdr, 'resp) ua_kernel \<Rightarrow> plan_step \<Rightarrow> u16 \<Rightarrow> 'resp \<Rightarrow> probe \<Rightarrow> 'req probe_effect list \<times> probe" where
  "on_step_response K s status response P =
    (if status = 401 \<or> status = 407 then
       (if \<not> pc_has_credentials (pb_config P) then abandon_run K BadCredentials P
        else if pb_answered P then fail_run K s (RejectedCause status) (conclude_step False P)
        else retry_challenged K s (P\<lparr>pb_answered := True\<rparr>))
     else if status = 503 \<and> retry_after_of K response \<noteq> None
     then fail_run K s (ShedCause (retry_after_of K response)) (conclude_step False P)
     else if \<not> resp_is_success K response then fail_run K s (RejectedCause status) (conclude_step False P)
     else on_success K s response (conclude_step True P))"

definition on_probe_response :: "('u, 'b, 'req, 'hdr, 'resp) ua_kernel \<Rightarrow> 'resp \<Rightarrow> probe \<Rightarrow> 'req probe_effect list \<times> probe" where
  "on_probe_response K response P =
    (if resp_is_provisional K response then ([], P)
     else if (case pb_outstanding P of None \<Rightarrow> False | Some expected \<Rightarrow> cseq_number K response \<noteq> Some expected) then ([], P)
     else case pb_waiting P of
          WaitNothing \<Rightarrow> ([], P)
        | WaitCleanup s \<Rightarrow> after_cleanup K s (if resp_is_success K response then P else P\<lparr>pb_cleanup_failed := True\<rparr>)
        | WaitStep s \<Rightarrow> on_step_response K s (resp_code K response) response P)"

definition on_probe_timeout :: "('u, 'b, 'req, 'hdr, 'resp) ua_kernel \<Rightarrow> plan_step \<Rightarrow> probe \<Rightarrow> 'req probe_effect list \<times> probe" where
  "on_probe_timeout K s P =
    (if pb_waiting P = WaitStep s then fail_run K s TimeoutCause (conclude_step False P)
     else if pb_waiting P = WaitCleanup s then after_cleanup K s (P\<lparr>pb_cleanup_failed := True\<rparr>)
     else ([], P))"

definition on_transport_error :: "('u, 'b, 'req, 'hdr, 'resp) ua_kernel \<Rightarrow> probe \<Rightarrow> 'req probe_effect list \<times> probe" where
  "on_transport_error K P =
    (case pb_waiting P of
       WaitStep s \<Rightarrow> fail_run K s Unreachable (conclude_step False P)
     | WaitCleanup s \<Rightarrow> after_cleanup K s (P\<lparr>pb_cleanup_failed := True\<rparr>)
     | WaitNothing \<Rightarrow> ([], P))"

definition on_probe_input ::
  "('u, 'b, 'req, 'hdr, 'resp) ua_kernel \<Rightarrow> duration \<Rightarrow> 'resp probe_input \<Rightarrow> probe \<Rightarrow> 'req probe_effect list \<times> probe" where
  "on_probe_input K now inp P =
    (if pb_finished P then ([], P)
     else let P = P\<lparr>pb_now := now\<rparr> in case inp of
         ProbeStart \<Rightarrow> start_run K P
       | Resolved ok \<Rightarrow> on_resolved K ok P
       | ProbeResponse response \<Rightarrow> on_probe_response K response P
       | TransportFailed \<Rightarrow> on_transport_error K P
       | ProbeTimer s \<Rightarrow> on_probe_timeout K s P
       | ProbeCancelled \<Rightarrow> abandon_run K CancelledRun P
       | NoResource \<Rightarrow> abandon_run K NoLocalResource P)"

end
