(* ===== verification/Probed.thy ===== *)
theory Probed imports Prelude Ascii Marker Probe_Schedule Probe begin

text \<open>
  What holds of every run of the probe: its verdict agrees with the steps it took, it undoes what it
  did, and it always ends.  A run is a list of inputs with the times they come at.
\<close>

section \<open>Runs\<close>

fun drive ::
  "('u, 'b, 'req, 'hdr, 'resp) ua_kernel \<Rightarrow> probe \<Rightarrow> (duration \<times> 'resp probe_input) list \<Rightarrow> 'req probe_effect list \<times> probe" where
  "drive K P [] = ([], P)"
| "drive K P ((now, inp) # ins) = (let (e, P) = on_probe_input K now inp P; (es, P) = drive K P ins in (e @ es, P))"

text \<open>A run starts once, and no final response comes before the first request was sent.\<close>

fun orderly :: "('u, 'b, 'req, 'hdr, 'resp) ua_kernel \<Rightarrow> probe \<Rightarrow> (duration \<times> 'resp probe_input) list \<Rightarrow> bool" where
  "orderly K P [] \<longleftrightarrow> True"
| "orderly K P ((now, inp) # ins) \<longleftrightarrow>
    (case inp of
       ProbeStart \<Rightarrow> False
     | ProbeResponse response \<Rightarrow> resp_is_provisional K response \<or> pb_waiting P \<noteq> WaitStep ResolveStep
     | _ \<Rightarrow> True)
    \<and> orderly K (snd (on_probe_input K now inp P)) ins"

definition brought_back :: "('u, 'b, 'req, 'hdr, 'resp) ua_kernel \<Rightarrow> marker \<Rightarrow> (duration \<times> 'resp probe_input) list \<Rightarrow> bool" where
  "brought_back K m ins \<longleftrightarrow>
    (\<exists>now response. (now, ProbeResponse response) \<in> set ins \<and> resp_is_success K response \<and> marker_of (resp_header K response) = Some m)"

section \<open>The invariant\<close>

definition steps_of :: "step_outcome list \<Rightarrow> (plan_step \<times> bool) list" where
  "steps_of steps = map (\<lambda>s. (so_step s, so_succeeded s)) steps"

definition done_before :: "plan_step \<Rightarrow> (plan_step \<times> bool) list" where
  "done_before s = map (\<lambda>s. (s, True)) (takeWhile (\<lambda>s'. s' \<noteq> s) PLAN)"

text \<open>Which steps a verdict stands on.\<close>

definition verdict_fits :: "probe_verdict \<Rightarrow> (plan_step \<times> bool) list \<Rightarrow> bool" where
  "verdict_fits v steps \<longleftrightarrow>
    (case v of
       PassVerdict \<Rightarrow> steps = map (\<lambda>s. (s, True)) PLAN
     | FailVerdict s c \<Rightarrow> steps = done_before s @ [(s, c = MarkerMismatch)] \<and> (c = MarkerMismatch \<longrightarrow> s = InviteStep)
     | InconclusiveVerdict f \<Rightarrow> if f = Misconfigured then steps = [] else \<exists>s. steps = done_before s @ [(s, False)])"

definition is_bye :: "('u, 'b, 'req, 'hdr, 'resp) ua_kernel \<Rightarrow> probe_config \<Rightarrow> marker \<Rightarrow> 'req probe_effect \<Rightarrow> bool" where
  "is_bye K C m e \<longleftrightarrow> (\<exists>cseq. e = SendRequest (marked_request K C m cseq UaBye (pc_echo_aor C) (pc_echo_aor C) []))"

definition is_deregister :: "('u, 'b, 'req, 'hdr, 'resp) ua_kernel \<Rightarrow> probe_config \<Rightarrow> marker \<Rightarrow> 'req probe_effect \<Rightarrow> bool" where
  "is_deregister K C m e \<longleftrightarrow> (\<exists>cseq. e = SendRequest (marked_request K C m cseq UaRegister (''sip:'' @ tg_address (pc_target C))
    (pc_probe_aor C) [(UaContact, ''<'' @ pc_contact C @ ''>;expires=0'')]))"

text \<open>What was done is undone, or still owed.\<close>

definition undone ::
  "('u, 'b, 'req, 'hdr, 'resp) ua_kernel \<Rightarrow> probe_config \<Rightarrow> marker \<Rightarrow> 'req probe_effect list \<Rightarrow> obligation set \<Rightarrow> (plan_step \<times> bool) list \<Rightarrow> bool" where
  "undone K C m effs owes steps \<longleftrightarrow>
    ((RegisterStep, True) \<in> set steps \<longrightarrow> Deregister \<in> owes \<or> (\<exists>e \<in> set effs. is_deregister K C m e))
    \<and> ((InviteStep, True) \<in> set steps \<longrightarrow> EndDialog \<in> owes \<or> (\<exists>e \<in> set effs. is_bye K C m e))"

definition is_finish :: "'req probe_effect \<Rightarrow> bool" where
  "is_finish e \<longleftrightarrow> (case e of FinishRun _ \<Rightarrow> True | _ \<Rightarrow> False)"

definition timer_armed :: "'req probe_effect list \<Rightarrow> plan_step \<Rightarrow> bool" where
  "timer_armed effs s =
    foldl (\<lambda>a e. case e of ArmTimer s' _ \<Rightarrow> if s' = s then True else a | DisarmTimer s' \<Rightarrow> if s' = s then False else a | _ \<Rightarrow> a) False effs"

definition awaited :: "probe \<Rightarrow> plan_step option" where
  "awaited P = (case pb_waiting P of WaitNothing \<Rightarrow> None | WaitStep s \<Rightarrow> Some s | WaitCleanup s \<Rightarrow> Some s)"

definition owed_at :: "plan_step \<Rightarrow> obligation list" where
  "owed_at s = (case s of InviteStep \<Rightarrow> [Deregister] | ByeStep \<Rightarrow> [Deregister, EndDialog] | _ \<Rightarrow> [])"

definition phase :: "probe \<Rightarrow> bool" where
  "phase P \<longleftrightarrow>
    (case pb_waiting P of
       WaitNothing \<Rightarrow> False
     | WaitStep s \<Rightarrow> steps_of (pb_steps P) = done_before s \<and> pb_decided P = None \<and> pb_owes P = owed_at s
     | WaitCleanup s \<Rightarrow> (\<exists>v. pb_decided P = Some v \<and> verdict_fits v (steps_of (pb_steps P)))
         \<and> (s = ByeStep \<and> pb_owes P = [Deregister] \<or> s = RegisterStep \<and> pb_owes P = []))"

definition tracked ::
  "('u, 'b, 'req, 'hdr, 'resp) ua_kernel \<Rightarrow> probe_config \<Rightarrow> marker \<Rightarrow> bool \<Rightarrow> 'req probe_effect list \<Rightarrow> probe \<Rightarrow> bool" where
  "tracked K C m seen effs P \<longleftrightarrow> pb_config P = C \<and> pb_marker P = m
    \<and> (if pb_finished P
       then \<exists>front run. effs = front @ [FinishRun run] \<and> (\<forall>e \<in> set front. \<not> is_finish e)
         \<and> pr_marker run = m \<and> pr_target run = pc_target C \<and> verdict_fits (pr_verdict run) (steps_of (pr_steps run))
         \<and> undone K C m effs {} (steps_of (pr_steps run)) \<and> (pr_verdict run = PassVerdict \<longrightarrow> seen)
       else (\<forall>e \<in> set effs. \<not> is_finish e) \<and> phase P \<and> (\<forall>s. awaited P = Some s \<longrightarrow> timer_armed effs s)
         \<and> undone K C m effs (set (pb_owes P)) (steps_of (pb_steps P))
         \<and> (pb_waiting P = WaitStep ByeStep \<longrightarrow> seen \<and> (\<exists>e \<in> set effs. is_bye K C m e))
         \<and> (pb_decided P = Some PassVerdict \<longrightarrow> seen))"

text \<open>A run whose verdict is decided and that is about to clean up.\<close>

definition ready ::
  "('u, 'b, 'req, 'hdr, 'resp) ua_kernel \<Rightarrow> probe_config \<Rightarrow> marker \<Rightarrow> bool \<Rightarrow> 'req probe_effect list \<Rightarrow> probe \<Rightarrow> bool" where
  "ready K C m seen effs P \<longleftrightarrow> pb_config P = C \<and> pb_marker P = m \<and> \<not> pb_finished P \<and> (\<forall>e \<in> set effs. \<not> is_finish e)
    \<and> (\<exists>v. pb_decided P = Some v \<and> verdict_fits v (steps_of (pb_steps P)) \<and> (v = PassVerdict \<longrightarrow> seen))
    \<and> pb_owes P \<in> {[], [Deregister], [Deregister, EndDialog]} \<and> undone K C m effs (set (pb_owes P)) (steps_of (pb_steps P))"

section \<open>Cleaning up\<close>

lemma armed_simps [simp]:
  "timer_armed (effs @ [ArmTimer s d]) s" "timer_armed (effs @ [e, ArmTimer s d]) s"
  "timer_armed (effs @ [e, e', ArmTimer s d]) s" "timer_armed (effs @ [e, e', e'', ArmTimer s d]) s"
  by (simp_all add: timer_armed_def)

lemma undone_more: "undone K C m effs owes steps \<Longrightarrow> undone K C m (effs @ es) owes steps"
  by (auto simp: undone_def)

lemma expires_zero: "decimal 0 = ''0''"
  by code_simp

lemma cleanup_tracked:
  assumes "ready K C m seen effs P" "cleanup K P = (es, P')"
  shows "tracked K C m seen (effs @ es) P'"
proof -
  consider "pb_owes P = []" | "pb_owes P = [Deregister]" | "pb_owes P = [Deregister, EndDialog]"
    using assms(1) by (auto simp: ready_def)
  then show ?thesis
  proof cases
    case 1
    with assms show ?thesis
      by (auto simp: cleanup_def finish_run_def ready_def tracked_def Let_def undone_more)
  next
    case 2
    with assms show ?thesis
      by (auto simp: cleanup_def register_request_def forget_owed_def ready_def tracked_def Let_def phase_def awaited_def
          is_finish_def undone_def is_deregister_def expires_zero)
  next
    case 3
    with assms show ?thesis
      by (auto simp: cleanup_def to_echo_def simple_request_def forget_owed_def ready_def tracked_def Let_def phase_def awaited_def
          is_finish_def undone_def is_bye_def)
  qed
qed

lemma then_cleanup_tracked:
  assumes "ready K C m seen effs P" "then_cleanup K s P = (es, P')"
  shows "tracked K C m seen (effs @ es) P'"
proof -
  obtain es' where es: "es = DisarmTimer s # es'" "cleanup K P = (es', P')"
    using assms(2) by (auto simp: then_cleanup_def Let_def split: prod.splits)
  have "ready K C m seen (effs @ [DisarmTimer s]) P" using assms(1) by (auto simp: ready_def is_finish_def undone_more)
  from cleanup_tracked [OF this es(2)] show ?thesis by (simp add: es(1))
qed

text \<open>What a step that ends leaves: the steps that were done and the one that failed.\<close>

lemma steps_snoc [simp]: "steps_of (steps @ [s]) = steps_of steps @ [(so_step s, so_succeeded s)]"
  by (simp add: steps_of_def)

lemma concluded [simp]:
  assumes "pb_waiting P = WaitStep s"
  shows "steps_of (pb_steps (conclude_step b P)) = steps_of (pb_steps P) @ [(s, b)]"
    "pb_waiting (conclude_step b P) = WaitNothing" "pb_config (conclude_step b P) = pb_config P"
    "pb_marker (conclude_step b P) = pb_marker P" "pb_finished (conclude_step b P) = pb_finished P"
    "pb_decided (conclude_step b P) = pb_decided P" "pb_owes (conclude_step b P) = pb_owes P"
  using assms by (simp_all add: conclude_step_def Let_def)

lemma done_steps:
  "done_before ResolveStep = []" "done_before RegisterStep = [(ResolveStep, True)]"
  "done_before InviteStep = [(ResolveStep, True), (RegisterStep, True)]"
  "done_before ByeStep = [(ResolveStep, True), (RegisterStep, True), (InviteStep, True)]"
  by (simp_all add: done_before_def PLAN_def)

lemma owed_in_three: "owed_at s \<in> {[], [Deregister], [Deregister, EndDialog]}"
  by (cases s) (simp_all add: owed_at_def)

lemma failed_tracked:
  assumes "tracked K C m seen effs P" "\<not> pb_finished P" "pb_waiting P = WaitStep s" "c \<noteq> MarkerMismatch"
    "fail_run K s c (conclude_step False P) = (es, P')"
  shows "tracked K C m seen (effs @ es) P'"
proof -
  let ?Q = "decide_once (FailVerdict s c) (conclude_step False P)"
  let ?R = "if s = ByeStep then forget_owed EndDialog ?Q else ?Q"
  have phase: "steps_of (pb_steps P) = done_before s" "pb_decided P = None" "pb_owes P = owed_at s"
    using assms(1-3) by (simp_all add: tracked_def phase_def)
  have "ready K C m seen effs ?R"
    using assms phase owed_in_three [of s]
    by (cases s) (auto simp: ready_def tracked_def decide_once_def verdict_fits_def forget_owed_def owed_at_def done_steps undone_def)
  then show ?thesis using assms(5) by (intro then_cleanup_tracked [where P = ?R and s = s]) (simp_all add: fail_run_def Let_def)
qed

lemma abandoned_tracked:
  assumes "tracked K C m seen effs P" "\<not> pb_finished P" "f \<noteq> Misconfigured" "abandon_run K f P = (es, P')"
  shows "tracked K C m seen (effs @ es) P'"
proof (cases "pb_waiting P")
  case WaitNothing
  with assms(1,2) show ?thesis by (simp add: tracked_def phase_def)
next
  case (WaitStep s)
  have phase: "steps_of (pb_steps P) = done_before s" "pb_decided P = None" "pb_owes P = owed_at s"
    using assms(1,2) WaitStep by (simp_all add: tracked_def phase_def)
  let ?Q = "decide_once (InconclusiveVerdict f) P"
  have Q: "pb_waiting ?Q = WaitStep s" using WaitStep phase by (simp add: decide_once_def)
  have "ready K C m seen effs (conclude_step False ?Q)"
    using assms phase Q owed_in_three [of s]
    by (auto simp: ready_def tracked_def decide_once_def verdict_fits_def undone_def)
  then show ?thesis using assms(4) Q
    by (intro then_cleanup_tracked [where P = "conclude_step False ?Q" and s = s]) (simp_all add: abandon_run_def Let_def)
next
  case (WaitCleanup s)
  let ?Q = "decide_once (InconclusiveVerdict f) P"
  have "ready K C m seen effs ?Q"
    using assms(1,2) WaitCleanup by (auto simp: ready_def tracked_def phase_def decide_once_def)
  moreover have "pb_waiting ?Q = WaitCleanup s" using WaitCleanup by (simp add: decide_once_def split: option.split)
  ultimately show ?thesis using assms(4) by (intro cleanup_tracked [where P = ?Q]) (simp_all add: abandon_run_def Let_def)
qed

lemma cleaned_tracked:
  assumes "tracked K C m seen effs P" "\<not> pb_finished P" "pb_waiting P = WaitCleanup s" "after_cleanup K s' (P\<lparr>pb_cleanup_failed := b\<rparr>) = (es, P')"
  shows "tracked K C m seen (effs @ es) P'"
proof -
  have "ready K C m seen effs (P\<lparr>pb_cleanup_failed := b, pb_waiting := WaitNothing\<rparr>)"
    using assms(1-3) by (auto simp: ready_def tracked_def phase_def)
  then show ?thesis using assms(4) by (intro then_cleanup_tracked) (auto simp: after_cleanup_def)
qed

section \<open>The inputs\<close>

lemma tracked_updates [simp]:
  "tracked K C m seen effs (P\<lparr>pb_now := t\<rparr>) \<longleftrightarrow> tracked K C m seen effs P"
  "tracked K C m seen effs (P\<lparr>pb_answered := b\<rparr>) \<longleftrightarrow> tracked K C m seen effs P"
  "tracked K C m seen effs (P\<lparr>pb_cseq := n\<rparr>) \<longleftrightarrow> tracked K C m seen effs P"
  "tracked K C m seen effs (P\<lparr>pb_outstanding := out\<rparr>) \<longleftrightarrow> tracked K C m seen effs P"
  by (cases "pb_waiting P"; simp add: tracked_def phase_def awaited_def)+

lemma tracked_seen: "tracked K C m seen effs P \<Longrightarrow> seen \<longrightarrow> seen' \<Longrightarrow> tracked K C m seen' effs P"
  by (auto simp: tracked_def)

lemmas send_defs = register_request_def to_echo_def simple_request_def begin_step_def owe_def Let_def

lemma resolved_tracked:
  assumes "tracked K C m seen effs P" "\<not> pb_finished P" "pb_waiting P = WaitStep ResolveStep"
    "send_register K (conclude_step True P) = (es, P')"
  shows "tracked K C m seen (effs @ es) P'"
  using assms
  by (auto simp: send_register_def send_defs tracked_def phase_def awaited_def done_steps owed_at_def is_finish_def undone_def)

lemma registered_tracked:
  assumes "tracked K C m seen effs P" "\<not> pb_finished P" "pb_waiting P = WaitStep RegisterStep"
    "send_invite K (owe Deregister (conclude_step True P)) = (es, P')"
  shows "tracked K C m seen (effs @ es) P'"
  using assms
  by (auto simp: send_invite_def send_defs tracked_def phase_def awaited_def done_steps owed_at_def is_finish_def undone_def)

lemma invited_tracked:
  assumes "tracked K C m seen effs P" "\<not> pb_finished P" "pb_waiting P = WaitStep InviteStep" "seen"
    "send_bye K (owe EndDialog (conclude_step True P)) = (es, P')"
  shows "tracked K C m seen (effs @ es) P'"
  using assms
  by (auto simp: send_bye_def send_defs tracked_def phase_def awaited_def done_steps owed_at_def is_finish_def undone_def is_bye_def)

lemma mismatch_tracked:
  assumes "tracked K C m seen effs P" "\<not> pb_finished P" "pb_waiting P = WaitStep InviteStep"
    "fail_run K InviteStep MarkerMismatch (owe EndDialog (conclude_step True P)) = (es, P')"
  shows "tracked K C m seen (effs @ es) P'"
proof -
  let ?R = "decide_once (FailVerdict InviteStep MarkerMismatch) (owe EndDialog (conclude_step True P))"
  have "ready K C m seen effs ?R"
    using assms(1-3)
    by (auto simp: ready_def tracked_def phase_def decide_once_def verdict_fits_def owed_at_def owe_def done_steps undone_def)
  then show ?thesis using assms(4) by (intro then_cleanup_tracked [where P = ?R and s = InviteStep]) (simp_all add: fail_run_def Let_def)
qed

lemma ended_tracked:
  assumes "tracked K C m seen effs P" "\<not> pb_finished P" "pb_waiting P = WaitStep ByeStep"
    "cleanup K ((forget_owed EndDialog (conclude_step True P))\<lparr>pb_decided := Some PassVerdict\<rparr>) = (es, P')"
  shows "tracked K C m seen (effs @ es) P'"
proof -
  have "ready K C m seen effs ((forget_owed EndDialog (conclude_step True P))\<lparr>pb_decided := Some PassVerdict\<rparr>)"
    using assms(1-3)
    by (auto simp: ready_def tracked_def phase_def forget_owed_def verdict_fits_def owed_at_def done_steps PLAN_def undone_def)
  then show ?thesis using assms(4) by (rule cleanup_tracked)
qed

lemma sent_tracked:
  assumes "tracked K C m seen effs P" "\<not> pb_finished P"
  shows "tracked K C m seen (effs @ [SendRequest req]) P"
proof -
  have armed: "timer_armed (effs @ [SendRequest req]) s = timer_armed effs s" for s by (simp add: timer_armed_def)
  have unfinished: "\<not> is_finish (SendRequest req)" by (simp add: is_finish_def)
  show ?thesis using assms unfolding tracked_def by (simp add: armed unfinished undone_more ball_Un bex_Un)
qed

lemma retry_sends: "\<exists>es' n out. retry_challenged K s P = (es', P\<lparr>pb_cseq := n, pb_outstanding := out\<rparr>) \<and> (es' = [] \<or> (\<exists>req. es' = [SendRequest req]))"
proof (cases s)
  case ResolveStep
  have "P = P\<lparr>pb_cseq := pb_cseq P, pb_outstanding := pb_outstanding P\<rparr>" by simp
  then show ?thesis unfolding ResolveStep retry_challenged_def Let_def by (metis plan_step.simps(13))
qed (auto simp: retry_challenged_def send_defs)

lemma retried_tracked:
  assumes "tracked K C m seen effs P" "\<not> pb_finished P" "retry_challenged K s P = (es, P')"
  shows "tracked K C m seen (effs @ es) P'"
  using retry_sends [of K s P] assms sent_tracked [OF assms(1,2)] by (elim exE conjE disjE) (auto simp: sent_tracked)

lemma answered_tracked:
  assumes "tracked K C m seen effs P" "\<not> pb_finished P" "pb_waiting P = WaitStep s" "s \<noteq> ResolveStep"
    "on_step_response K s status response P = (es, P')"
    "resp_is_success K response \<and> marker_of (resp_header K response) = Some m \<longrightarrow> seen"
  shows "tracked K C m seen (effs @ es) P'"
proof -
  consider (unauthorized) "status = 401 \<or> status = 407" "\<not> pc_has_credentials (pb_config P)"
    | (again) "status = 401 \<or> status = 407" "pc_has_credentials (pb_config P)" "pb_answered P"
    | (challenge) "status = 401 \<or> status = 407" "pc_has_credentials (pb_config P)" "\<not> pb_answered P"
    | (shed) "status = 503" "retry_after_of K response \<noteq> None"
    | (rejected) "status \<noteq> 401 \<and> status \<noteq> 407" "\<not> (status = 503 \<and> retry_after_of K response \<noteq> None)" "\<not> resp_is_success K response"
    | (success) "status \<noteq> 401 \<and> status \<noteq> 407" "\<not> (status = 503 \<and> retry_after_of K response \<noteq> None)" "resp_is_success K response"
    by fastforce
  then show ?thesis
  proof cases
    case unauthorized
    then have "abandon_run K BadCredentials P = (es, P')" using assms(5) by (simp add: on_step_response_def)
    then show ?thesis by (rule abandoned_tracked [OF assms(1,2), rotated]) simp
  next
    case again
    then have "fail_run K s (RejectedCause status) (conclude_step False P) = (es, P')" using assms(5) by (simp add: on_step_response_def)
    then show ?thesis by (rule failed_tracked [OF assms(1-3), rotated]) simp
  next
    case challenge
    then have "retry_challenged K s (P\<lparr>pb_answered := True\<rparr>) = (es, P')" using assms(5) by (simp add: on_step_response_def)
    then show ?thesis using assms(1,2) by (intro retried_tracked [of K C m seen effs "P\<lparr>pb_answered := True\<rparr>" s]) simp_all
  next
    case shed
    then have "fail_run K s (ShedCause (retry_after_of K response)) (conclude_step False P) = (es, P')"
      using assms(5) by (simp add: on_step_response_def)
    then show ?thesis by (rule failed_tracked [OF assms(1-3), rotated]) simp
  next
    case rejected
    then have "fail_run K s (RejectedCause status) (conclude_step False P) = (es, P')" using assms(5) by (auto simp: on_step_response_def)
    then show ?thesis by (rule failed_tracked [OF assms(1-3), rotated]) simp
  next
    case success
    then have ok: "on_success K s response (conclude_step True P) = (es, P')" using assms(5) by (auto simp: on_step_response_def)
    have m: "pb_marker (conclude_step True P) = m" using assms(1,3) by (simp add: tracked_def)
    show ?thesis
    proof (cases s)
      case RegisterStep
      with ok registered_tracked [OF assms(1,2)] assms(3) show ?thesis by (simp add: on_success_def)
    next
      case InviteStep
      with ok assms(3,6) success(3) m mismatch_tracked [OF assms(1,2)] invited_tracked [OF assms(1,2)] show ?thesis
        by (auto simp: on_success_def Let_def owe_def split: if_splits)
    next
      case ByeStep
      with ok ended_tracked [OF assms(1,2)] assms(3) show ?thesis by (simp add: on_success_def)
    qed (use assms(4) in simp)
  qed
qed


text \<open>The state after every input the run may get.\<close>

lemma response_tracked:
  assumes "tracked K C m seen effs P" "\<not> pb_finished P" "resp_is_provisional K response \<or> pb_waiting P \<noteq> WaitStep ResolveStep"
    "on_probe_response K response P = (es, P')"
    "resp_is_success K response \<and> marker_of (resp_header K response) = Some m \<longrightarrow> seen"
  shows "tracked K C m seen (effs @ es) P'"
proof (cases "es = [] \<and> P' = P")
  case True
  with assms(1) show ?thesis by simp
next
  case False
  show ?thesis
  proof (cases "pb_waiting P")
    case WaitNothing
    with assms(1,2) show ?thesis by (simp add: tracked_def phase_def)
  next
    case (WaitStep s)
    with assms False show ?thesis
      by (intro answered_tracked [where s = s and response = response and status = "resp_code K response"])
        (auto simp: on_probe_response_def split: if_splits)
  next
    case (WaitCleanup s)
    let ?b = "if resp_is_success K response then pb_cleanup_failed P else True"
    have "after_cleanup K s (P\<lparr>pb_cleanup_failed := ?b\<rparr>) = (es, P')"
      using assms(4) False WaitCleanup by (auto simp: on_probe_response_def split: if_splits)
    then show ?thesis by (rule cleaned_tracked [OF assms(1,2) WaitCleanup])
  qed
qed

lemma timeout_tracked:
  assumes "tracked K C m seen effs P" "\<not> pb_finished P" "on_probe_timeout K s P = (es, P')"
  shows "tracked K C m seen (effs @ es) P'"
proof -
  consider "pb_waiting P = WaitStep s" | "pb_waiting P = WaitCleanup s" | "es = []" "P' = P"
    using assms(3) by (auto simp: on_probe_timeout_def split: if_splits)
  then show ?thesis
  proof cases
    case 1
    with assms show ?thesis by (intro failed_tracked [where s = s and c = TimeoutCause]) (simp_all add: on_probe_timeout_def)
  next
    case 2
    with assms show ?thesis by (intro cleaned_tracked [where s = s and s' = s and b = True]) (simp_all add: on_probe_timeout_def)
  qed (use assms(1) in simp)
qed

lemma transport_tracked:
  assumes "tracked K C m seen effs P" "\<not> pb_finished P" "on_transport_error K P = (es, P')"
  shows "tracked K C m seen (effs @ es) P'"
proof (cases "pb_waiting P")
  case WaitNothing
  with assms show ?thesis by (simp add: on_transport_error_def)
next
  case (WaitStep s)
  with assms show ?thesis by (intro failed_tracked [where s = s and c = Unreachable]) (simp_all add: on_transport_error_def)
next
  case (WaitCleanup s)
  with assms show ?thesis by (intro cleaned_tracked [where s = s and s' = s and b = True]) (simp_all add: on_transport_error_def)
qed

lemma resolution_tracked:
  assumes "tracked K C m seen effs P" "\<not> pb_finished P" "on_resolved K ok P = (es, P')"
  shows "tracked K C m seen (effs @ es) P'"
proof (cases "pb_waiting P = WaitStep ResolveStep")
  case True
  show ?thesis
  proof (cases ok)
    case True
    with assms \<open>pb_waiting P = WaitStep ResolveStep\<close> show ?thesis by (intro resolved_tracked) (simp_all add: on_resolved_def)
  next
    case False
    with assms \<open>pb_waiting P = WaitStep ResolveStep\<close> show ?thesis
      by (intro failed_tracked [where s = ResolveStep and c = ResolutionFailed]) (simp_all add: on_resolved_def)
  qed
qed (use assms in \<open>auto simp: on_resolved_def\<close>)

lemma tracked_step:
  assumes "tracked K C m seen effs P" "orderly K P ((now, inp) # ins)" "on_probe_input K now inp P = (es, P')"
    "brought_back K m [(now, inp)] \<longrightarrow> seen"
  shows "tracked K C m seen (effs @ es) P'"
proof (cases "pb_finished P")
  case True
  with assms show ?thesis by (simp add: on_probe_input_def)
next
  case False
  let ?Q = "P\<lparr>pb_now := now\<rparr>"
  have Q: "tracked K C m seen effs ?Q" "\<not> pb_finished ?Q" using assms(1) False by simp_all
  show ?thesis
  proof (cases inp)
    case (ProbeResponse response)
    with assms False show ?thesis
      by (intro response_tracked [OF Q, where response = response]) (auto simp: on_probe_input_def Let_def brought_back_def)
  next
    case (Resolved ok)
    with assms False show ?thesis by (intro resolution_tracked [OF Q, where ok = ok]) (simp add: on_probe_input_def Let_def)
  next
    case TransportFailed
    with assms False show ?thesis by (intro transport_tracked [OF Q]) (simp add: on_probe_input_def Let_def)
  next
    case (ProbeTimer s)
    with assms False show ?thesis by (intro timeout_tracked [OF Q, where s = s]) (simp add: on_probe_input_def Let_def)
  next
    case ProbeCancelled
    with assms False show ?thesis by (intro abandoned_tracked [OF Q, where f = CancelledRun]) (simp_all add: on_probe_input_def Let_def)
  next
    case NoResource
    with assms False show ?thesis by (intro abandoned_tracked [OF Q, where f = NoLocalResource]) (simp_all add: on_probe_input_def Let_def)
  qed (use assms(2) in simp)
qed

lemma tracked_drive:
  "tracked K C m seen effs P \<Longrightarrow> orderly K P ins \<Longrightarrow> drive K P ins = (es, P') \<Longrightarrow>
    tracked K C m (seen \<or> brought_back K m ins) (effs @ es) P'"
proof (induction ins arbitrary: seen effs P es)
  case Nil
  then show ?case by (auto intro: tracked_seen)
next
  case (Cons x ins)
  obtain now inp where x: "x = (now, inp)" by (cases x)
  obtain e Q where Q: "on_probe_input K now inp P = (e, Q)" by (cases "on_probe_input K now inp P")
  obtain es' where es: "drive K Q ins = (es', P')" "es = e @ es'" using Cons.prems(3) x Q by (auto split: prod.splits)
  let ?seen = "seen \<or> brought_back K m [(now, inp)]"
  have "tracked K C m ?seen (effs @ e) Q"
    by (rule tracked_step [OF tracked_seen [OF Cons.prems(1)] _ Q]) (use Cons.prems(2) x in auto)
  moreover have "orderly K Q ins" using Cons.prems(2) x Q by simp
  ultimately have "tracked K C m (?seen \<or> brought_back K m ins) ((effs @ e) @ es') P'" using es(1) Cons.IH by blast
  moreover have "(seen \<or> brought_back K m (x # ins)) \<longleftrightarrow> (?seen \<or> brought_back K m ins)"
    by (auto simp: x brought_back_def)
  ultimately show ?case by (simp add: es(2))
qed

lemma tracked_start:
  assumes "on_probe_input K t0 ProbeStart (probe_new C m) = (es, P)"
  shows "tracked K C m False es P"
  using assms
  by (auto simp: on_probe_input_def probe_new_def start_run_def begin_step_def abandon_run_def decide_once_def cleanup_def finish_run_def
      tracked_def phase_def awaited_def is_finish_def undone_def verdict_fits_def steps_of_def done_steps owed_at_def timer_armed_def
      Let_def split: if_splits)

lemma tracked_run:
  assumes "orderly K (snd (on_probe_input K t0 ProbeStart (probe_new C m))) ins"
    "drive K (probe_new C m) ((t0, ProbeStart) # ins) = (effs, P)"
  shows "tracked K C m (brought_back K m ins) effs P"
proof -
  obtain e Q where Q: "on_probe_input K t0 ProbeStart (probe_new C m) = (e, Q)"
    by (cases "on_probe_input K t0 ProbeStart (probe_new C m)")
  obtain es where es: "drive K Q ins = (es, P)" "effs = e @ es" using assms(2) Q by (auto split: prod.splits)
  show ?thesis using tracked_drive [OF tracked_start [OF Q] _ es(1)] assms(1) Q es(2) by simp
qed


section \<open>What every run does\<close>

text \<open>C30. The verdict a run concludes with is the verdict of its own steps.  A run passes only when all
  four steps of the plan succeeded, in the plan's order, and a success response brought the marker of
  this run back; a run that failed names the step after the steps that succeeded; a run is found
  misconfigured only before its first step.
\<close>

theorem verdict_matches_steps:
  assumes "orderly K (snd (on_probe_input K t0 ProbeStart (probe_new C m))) ins"
    "drive K (probe_new C m) ((t0, ProbeStart) # ins) = (effs, P)" "FinishRun run \<in> set effs"
  shows "pr_marker run = m \<and> pr_target run = pc_target C \<and> verdict_fits (pr_verdict run) (steps_of (pr_steps run))
    \<and> (pr_verdict run = PassVerdict \<longrightarrow> brought_back K m ins)"
proof -
  have T: "tracked K C m (brought_back K m ins) effs P" using assms(1,2) by (rule tracked_run)
  have "is_finish (FinishRun run)" by (simp add: is_finish_def)
  then have "pb_finished P" using T assms(3) by (auto simp: tracked_def split: if_splits)
  with T \<open>is_finish (FinishRun run)\<close> show ?thesis using assms(3) by (auto simp: tracked_def)
qed

text \<open>C31. A run undoes what it did before it reports: it reports once, as the last thing it does; if its
  registration was accepted it has asked to remove it, and if its INVITE was accepted it has sent a
  BYE, whatever happened in between, cancellation included.
\<close>

theorem run_undoes_what_it_did:
  assumes "orderly K (snd (on_probe_input K t0 ProbeStart (probe_new C m))) ins"
    "drive K (probe_new C m) ((t0, ProbeStart) # ins) = (effs, P)" "FinishRun run \<in> set effs"
  shows "\<exists>front. effs = front @ [FinishRun run] \<and> \<not> (\<exists>e \<in> set front. is_finish e)
    \<and> ((RegisterStep, True) \<in> set (steps_of (pr_steps run)) \<longrightarrow> (\<exists>e \<in> set front. is_deregister K C m e))
    \<and> ((InviteStep, True) \<in> set (steps_of (pr_steps run)) \<longrightarrow> (\<exists>e \<in> set front. is_bye K C m e))"
proof -
  have T: "tracked K C m (brought_back K m ins) effs P" using assms(1,2) by (rule tracked_run)
  have F: "is_finish (FinishRun run)" by (simp add: is_finish_def)
  then have "pb_finished P" using T assms(3) by (auto simp: tracked_def split: if_splits)
  with T obtain front run' where front: "effs = front @ [FinishRun run']" "\<forall>e \<in> set front. \<not> is_finish e"
      "undone K C m effs {} (steps_of (pr_steps run'))"
    by (auto simp: tracked_def)
  have "run' = run" using front(1,2) assms(3) F by auto
  with front show ?thesis by (auto simp: undone_def is_deregister_def is_bye_def)
qed

text \<open>The timer of the awaited step expires, at one time after another.\<close>

fun expire :: "('u, 'b, 'req, 'hdr, 'resp) ua_kernel \<Rightarrow> duration list \<Rightarrow> probe \<Rightarrow> probe" where
  "expire K [] P = P"
| "expire K (t # ts) P = expire K ts (case awaited P of None \<Rightarrow> P | Some s \<Rightarrow> snd (on_probe_input K t (ProbeTimer s) P))"

lemma finished_stays: "pb_finished P \<Longrightarrow> pb_finished (expire K ts P)"
  by (induction ts arbitrary: P) (auto simp: on_probe_input_def split: option.split)

lemma cleanup_register_ends:
  assumes "pb_owes P = []" "pb_waiting P = WaitCleanup s" "\<not> pb_finished P"
  shows "pb_finished (snd (on_probe_input K t (ProbeTimer s) P))"
  using assms
  by (simp add: on_probe_input_def on_probe_timeout_def after_cleanup_def then_cleanup_def cleanup_def finish_run_def Let_def)

lemma two_expiries_end:
  assumes "tracked K C m seen effs P"
  shows "pb_finished (expire K [t1, t2] P)"
proof (cases "pb_finished P")
  case True
  then show ?thesis by (rule finished_stays)
next
  case False
  have phase: "phase P" using assms False by (simp add: tracked_def)
  obtain s where s: "awaited P = Some s" using phase by (auto simp: phase_def awaited_def split: waiting.splits)
  let ?Q = "snd (on_probe_input K t1 (ProbeTimer s) P)"
  have "pb_finished ?Q \<or> (pb_waiting ?Q = WaitCleanup RegisterStep \<and> pb_owes ?Q = [])"
    using phase s False
    by (cases "pb_waiting P"; cases s)
      (auto simp: phase_def awaited_def on_probe_input_def on_probe_timeout_def fail_run_def after_cleanup_def then_cleanup_def
        cleanup_def finish_run_def decide_once_def forget_owed_def owed_at_def register_request_def Let_def)
  then show ?thesis
  proof
    assume "pb_finished ?Q"
    then show ?thesis using finished_stays [of ?Q K "[t2]"] s by simp
  next
    assume Q: "pb_waiting ?Q = WaitCleanup RegisterStep \<and> pb_owes ?Q = []"
    show ?thesis
    proof (cases "pb_finished ?Q")
      case True
      then show ?thesis using finished_stays [of ?Q K "[t2]"] s by simp
    next
      case False
      have "awaited ?Q = Some RegisterStep" using Q by (simp add: awaited_def)
      then show ?thesis using cleanup_register_ends [of ?Q RegisterStep K t2] Q False s by simp
    qed
  qed
qed

text \<open>C32. An orderly run always ends: one that is started once and gets no final response while its target is
  still being resolved, when it has sent no request.  As long as such a run has not reported it waits for a step
  whose timer it has armed and not disarmed since, and whatever else has happened before, two expiries of the
  timer it waits for end it: the remaining steps and the clean-up cannot hang.  The condition is needed: a run
  that does get a success response while it is resolving never reports, as the last property of this theory
  shows.
\<close>

theorem probe_always_ends:
  assumes "orderly K (snd (on_probe_input K t0 ProbeStart (probe_new C m))) ins"
    "drive K (probe_new C m) ((t0, ProbeStart) # ins) = (effs, P)"
  shows "(pb_finished P \<or> (\<exists>s. awaited P = Some s \<and> timer_armed effs s)) \<and> pb_finished (expire K [t1, t2] P)"
proof -
  have T: "tracked K C m (brought_back K m ins) effs P" using assms by (rule tracked_run)
  have "pb_finished P \<or> (\<exists>s. awaited P = Some s \<and> timer_armed effs s)"
  proof (cases "pb_finished P")
    case False
    with T have "phase P" "\<forall>s. awaited P = Some s \<longrightarrow> timer_armed effs s" by (simp_all add: tracked_def)
    then show ?thesis by (auto simp: phase_def awaited_def split: waiting.splits)
  qed simp
  with two_expiries_end [OF T] show ?thesis by simp
qed


section \<open>One run that passes\<close>

text \<open>A library whose messages are lists of header values, and the answers a working platform gives.\<close>

type_synonym plain_request = "ua_method \<times> (ua_header \<times> bytes) list"
type_synonym plain_response = "u16 \<times> (ua_header \<times> bytes) list"

definition plain_kernel :: "(bytes, plain_request, plain_request, ua_header \<times> bytes, plain_response) ua_kernel" where
  "plain_kernel =
    \<lparr>ua_uri = Some, ua_placeholder = ''sip:invalid.invalid'', ua_new = (\<lambda>verb uri. (verb, [])),
     ua_put = (\<lambda>name value (verb, hs). Some (verb, hs @ [(name, value)])),
     ua_cseq = (\<lambda>n m (verb, hs). Some (verb, hs @ [(UaCSeq, decimal (unat n))])),
     ua_max_forwards = (\<lambda>n b. b), ua_build = (\<lambda>b. b), req_verb = fst,
     req_has = (\<lambda>(verb, hs) name. name \<in> fst ` set hs), req_header = (\<lambda>(verb, hs) name. map_of hs name),
     ua_status = (\<lambda>code. 100 \<le> code \<and> code < 700), ua_respond = (\<lambda>req code reason. Some (code, [])),
     ua_make_header = (\<lambda>name value. if CHR 0x0A \<in> set value \<or> CHR 0x0D \<in> set value then None else Some (name, value)), ua_push = (\<lambda>(code, hs) h. (code, hs @ [h])),
     resp_code = fst, resp_is_provisional = (\<lambda>(code, hs). code < 200),
     resp_is_success = (\<lambda>(code, hs). 200 \<le> code \<and> code < 300), resp_header = (\<lambda>(code, hs) name. map_of hs name)\<rparr>"

definition plain_config :: probe_config where
  "plain_config =
    \<lparr>pc_probe_aor = ''sip:p@t'', pc_echo_aor = ''sip:e@t'', pc_contact = ''sip:p@h'',
     pc_target = \<lparr>tg_address = ''a'', tg_transport = ''UDP'', tg_zone = ''z''\<rparr>,
     pc_timeouts = [2, 5, 9, 5], pc_sent_by = ''h'', pc_has_credentials = True\<rparr>"

definition plain_answers :: "(duration \<times> plain_response probe_input) list" where
  "plain_answers =
    [(1, Resolved True), (2, ProbeResponse (200, [(UaCSeq, ''1 REGISTER'')])),
     (3, ProbeResponse (180, [(UaCSeq, ''2 INVITE'')])),
     (4, ProbeResponse (200, [(UaCSeq, ''2 INVITE''), (UaSubject, ''sipx-probe/m'')])),
     (5, ProbeResponse (200, [(UaCSeq, ''4 BYE'')])), (6, ProbeResponse (200, [(UaCSeq, ''5 REGISTER'')]))]"

definition plain_steps :: "step_outcome list" where
  "plain_steps = map (\<lambda>(s, d). \<lparr>so_step = s, so_succeeded = True, so_elapsed = d\<rparr>) [(ResolveStep, 1), (RegisterStep, 1), (InviteStep, 2), (ByeStep, 1)]"

definition plain_run :: probe_run where
  "plain_run = \<lparr>pr_marker = ''m'', pr_target = pc_target plain_config, pr_steps = plain_steps, pr_verdict = PassVerdict, pr_cleanup_failed = False\<rparr>"

lemma plain_cseq [simp]:
  "cseq_number plain_kernel (c, (UaCSeq, ''1 REGISTER'') # hs) = Some 1" "cseq_number plain_kernel (c, (UaCSeq, ''2 INVITE'') # hs) = Some 2"
  "cseq_number plain_kernel (c, (UaCSeq, ''4 BYE'') # hs) = Some 4" "cseq_number plain_kernel (c, (UaCSeq, ''5 REGISTER'') # hs) = Some 5"
  by (simp_all add: cseq_number_def plain_kernel_def from_utf8_lossy_ascii is_ascii_char_def first_word_def white_space_def parse_u32_def parse_unsigned_def
      digits_value_def is_digit_point_def Let_def)

lemma plain_marker [simp]: "marker_of (resp_header plain_kernel (c, [(UaCSeq, n), (UaSubject, ''sipx-probe/m'')])) = Some ''m''"
proof -
  have "str_trim ''sipx-probe/m'' = ''sipx-probe/m''" by (rule str_trim_plain) (auto simp: is_ascii_char_def white_space_def)
  then show ?thesis by (simp add: marker_of_def MARKER_HEADER_def MARKER_PREFIX_def plain_kernel_def)
qed

lemma plain_status [simp]:
  "resp_code plain_kernel (c, hs) = c" "resp_is_provisional plain_kernel (c, hs) \<longleftrightarrow> c < 200"
  "resp_is_success plain_kernel (c, hs) \<longleftrightarrow> 200 \<le> c \<and> c < 300"
  by (simp_all add: plain_kernel_def)

lemmas probe_run_defs = on_probe_input_def start_run_def on_resolved_def send_register_def send_invite_def send_bye_def register_request_def
  to_echo_def simple_request_def begin_step_def conclude_step_def owe_def forget_owed_def on_probe_response_def on_step_response_def on_success_def
  cleanup_def then_cleanup_def after_cleanup_def finish_run_def Let_def

lemma plain_usable: "is_usable plain_config" by (simp add: is_usable_def plain_config_def)

lemma plain_start: "on_probe_input plain_kernel 0 ProbeStart (probe_new plain_config ''m'') =
  ([ResolveTarget (pc_target plain_config), ArmTimer ResolveStep (timeout_of plain_config ResolveStep)], begin_step ResolveStep (probe_new plain_config ''m''))"
  by (simp add: probe_run_defs probe_new_def plain_usable)


lemma plain_orderly: "orderly plain_kernel (begin_step ResolveStep (probe_new plain_config ''m'')) plain_answers"
  by (simp add: probe_new_def probe_run_defs plain_answers_def)

lemma plain_finishes: "FinishRun plain_run \<in> set (fst (drive plain_kernel (probe_new plain_config ''m'') ((0, ProbeStart) # plain_answers)))"
  by (simp add: plain_start) (simp add: probe_new_def probe_run_defs plain_answers_def plain_run_def plain_steps_def)

lemma verdict_matches_steps_witness:
  "verdict_fits PassVerdict (steps_of plain_steps) \<and> brought_back plain_kernel ''m'' plain_answers"
  using verdict_matches_steps [of plain_kernel 0 plain_config "''m''" plain_answers, OF _ surjective_pairing plain_finishes] plain_orderly
  by (simp add: plain_start) (simp add: plain_run_def)

lemma run_undoes_what_it_did_witness:
  "\<exists>front. fst (drive plain_kernel (probe_new plain_config ''m'') ((0, ProbeStart) # plain_answers)) = front @ [FinishRun plain_run]
    \<and> (\<exists>e \<in> set front. is_deregister plain_kernel plain_config ''m'' e) \<and> (\<exists>e \<in> set front. is_bye plain_kernel plain_config ''m'' e)"
proof -
  have steps: "steps_of (pr_steps plain_run) = [(ResolveStep, True), (RegisterStep, True), (InviteStep, True), (ByeStep, True)]"
    by (simp add: plain_run_def plain_steps_def steps_of_def)
  have "orderly plain_kernel (snd (on_probe_input plain_kernel 0 ProbeStart (probe_new plain_config ''m''))) plain_answers"
    using plain_orderly by (simp add: plain_start)
  from run_undoes_what_it_did [OF this surjective_pairing plain_finishes] show ?thesis by (auto simp: steps)
qed

lemma probe_always_ends_witness:
  "pb_finished (expire plain_kernel [7, 8] (snd (drive plain_kernel (probe_new plain_config ''m'') ((0, ProbeStart) # take 3 plain_answers))))"
proof -
  have "orderly plain_kernel (snd (on_probe_input plain_kernel 0 ProbeStart (probe_new plain_config ''m''))) (take 3 plain_answers)"
    by (simp add: plain_start) (simp add: probe_new_def probe_run_defs plain_answers_def)
  from probe_always_ends [OF this surjective_pairing] show ?thesis by blast
qed


section \<open>An answer before the first request\<close>

definition ordinary :: "'resp probe_input \<Rightarrow> bool" where
  "ordinary inp \<longleftrightarrow> inp \<noteq> ProbeStart \<and> inp \<noteq> ProbeCancelled \<and> inp \<noteq> NoResource"

definition wedged :: "probe \<Rightarrow> bool" where
  "wedged P \<longleftrightarrow> \<not> pb_finished P \<and> pb_waiting P = WaitNothing"

lemma wedged_step:
  assumes "wedged P" "ordinary inp"
  shows "fst (on_probe_input K now inp P) = [] \<and> wedged (snd (on_probe_input K now inp P))"
  using assms
  by (cases inp) (auto simp: wedged_def ordinary_def on_probe_input_def on_resolved_def on_probe_response_def on_probe_timeout_def
      on_transport_error_def Let_def)

lemma wedged_drive: "wedged P \<Longrightarrow> \<forall>(t, inp) \<in> set ins. ordinary inp \<Longrightarrow> fst (drive K P ins) = [] \<and> wedged (snd (drive K P ins))"
proof (induction ins arbitrary: P)
  case (Cons x ins)
  obtain t inp where x: "x = (t, inp)" by (cases x)
  have "fst (on_probe_input K t inp P) = [] \<and> wedged (snd (on_probe_input K t inp P))"
    by (rule wedged_step) (use Cons.prems x in auto)
  with Cons.IH [of "snd (on_probe_input K t inp P)"] Cons.prems(2) x show ?case by (simp add: split_beta Let_def)
qed simp

text \<open>C39. What the code does with a success response that comes while the target is still being resolved,
  before any request has a sequence number to match it: it counts as the end of the resolution, after which
  the run waits for nothing.  No answer, no resolution, no timer and no transport error ends it any more: it
  never reports.
\<close>

theorem early_answer_wedges:
  assumes "is_usable C" "\<not> resp_is_provisional K response" "resp_is_success K response"
    "resp_code K response = 200" "\<forall>(t, inp) \<in> set ins. ordinary inp"
  shows "\<exists>P. drive K (probe_new C m) ((t0, ProbeStart) # (t1, ProbeResponse response) # ins)
      = ([ResolveTarget (pc_target C), ArmTimer ResolveStep (timeout_of C ResolveStep)], P) \<and> \<not> pb_finished P"
proof -
  let ?P = "snd (on_probe_input K t1 (ProbeResponse response) (snd (on_probe_input K t0 ProbeStart (probe_new C m))))"
  have start: "on_probe_input K t0 ProbeStart (probe_new C m) =
      ([ResolveTarget (pc_target C), ArmTimer ResolveStep (timeout_of C ResolveStep)], begin_step ResolveStep ((probe_new C m)\<lparr>pb_now := t0\<rparr>))"
    using assms(1) by (simp add: on_probe_input_def start_run_def probe_new_def Let_def)
  have answer: "fst (on_probe_input K t1 (ProbeResponse response) (snd (on_probe_input K t0 ProbeStart (probe_new C m)))) = [] \<and> wedged ?P"
    unfolding start using assms(2-4)
    by (simp add: on_probe_input_def probe_new_def begin_step_def on_probe_response_def on_step_response_def on_success_def conclude_step_def
        wedged_def Let_def)
  from wedged_drive [of ?P ins K] answer assms(5)
  have "fst (drive K ?P ins) = [] \<and> wedged (snd (drive K ?P ins))" by blast
  with answer start show ?thesis
    by (intro exI [of _ "snd (drive K ?P ins)"]) (simp add: split_beta Let_def wedged_def)
qed

lemma early_answer_wedges_witness:
  "\<not> pb_finished (snd (drive plain_kernel (probe_new plain_config ''m'')
    [(0, ProbeStart), (1, ProbeResponse (200, [])), (2, Resolved True), (3, ProbeTimer ResolveStep)]))"
proof -
  have "\<exists>P. drive plain_kernel (probe_new plain_config ''m'') ((0, ProbeStart) # (1, ProbeResponse (200, [])) # [(2, Resolved True), (3, ProbeTimer ResolveStep)])
      = ([ResolveTarget (pc_target plain_config), ArmTimer ResolveStep (timeout_of plain_config ResolveStep)], P) \<and> \<not> pb_finished P"
    by (rule early_answer_wedges [OF plain_usable]) (simp_all add: ordinary_def)
  then show ?thesis by auto
qed

end
