(* ===== verification/Echo.thy ===== *)
theory Echo imports Prelude Ascii Marker Probe_Schedule Probe Probed begin

text \<open>
  \<^verbatim>\<open>echo.rs\<close> of \<^verbatim>\<open>crates/sipx-clstr-probe\<close>: the other end of the probe's
  call, which registers, answers marked calls and copies the marker back.
\<close>

section \<open>Data\<close>

datatype media_policy = SignallingOnly

record echo_config =
  ek_aor :: string
  ek_contact :: string
  ek_registrar :: string
  ek_register_expires :: u32
  ek_sent_by :: string

definition echo_config_new :: "string \<Rightarrow> string \<Rightarrow> string \<Rightarrow> echo_config" where
  "echo_config_new aor contact registrar =
    \<lparr>ek_aor = aor, ek_contact = contact, ek_registrar = registrar, ek_register_expires = 3600, ek_sent_by = ''echo.invalid''\<rparr>"

datatype echo_refusal = NotAProbeCall | Unanswerable

definition refusal_status :: "echo_refusal \<Rightarrow> u16 option" where
  "refusal_status r = (case r of NotAProbeCall \<Rightarrow> Some 403 | Unanswerable \<Rightarrow> None)"

datatype 'req echo_input = EchoStart | EchoRequest 'req | RefreshDue

datatype ('req, 'resp) echo_effect = EchoSend 'req | EchoRespond 'resp | SetRefresh duration | EchoRefused echo_refusal

record echo_endpoint =
  ep_config :: echo_config
  ep_media :: media_policy
  ep_cseq :: u32
  ep_answered :: u64
  ep_refused :: u64

definition echo_new :: "echo_config \<Rightarrow> echo_endpoint" where
  "echo_new C = \<lparr>ep_config = C, ep_media = SignallingOnly, ep_cseq = 0, ep_answered = 0, ep_refused = 0\<rparr>"

section \<open>Registration\<close>

definition echo_via :: "echo_endpoint \<Rightarrow> string" where
  "echo_via E = ''SIP/2.0/UDP '' @ ek_sent_by (ep_config E) @ '';branch=z9hG4bK-echo-'' @ decimal (unat (ep_cseq E))"

definition echo_register_request :: "('u, 'b, 'req, 'hdr, 'resp) ua_kernel \<Rightarrow> echo_endpoint \<Rightarrow> 'req option" where
  "echo_register_request K E =
    (let C = ep_config E
     in Option.bind (ua_uri K (ek_registrar C)) (\<lambda>target.
        Option.bind (put_all K [(UaVia, echo_via E), (UaCallId, ''echo-'' @ ek_aor C)] (ua_new K UaRegister target)) (\<lambda>b.
        Option.bind (ua_cseq K (ep_cseq E) UaRegister b) (\<lambda>b.
        map_option (ua_build K)
          (put_all K [(UaFrom, ''<'' @ ek_aor C @ ''>;tag=echo''), (UaTo, ''<'' @ ek_aor C @ ''>''),
             (UaContact, ''<'' @ ek_contact C @ ''>;expires='' @ decimal (unat (ek_register_expires C)))] b)))))"

definition echo_register :: "('u, 'b, 'req, 'hdr, 'resp) ua_kernel \<Rightarrow> echo_endpoint \<Rightarrow> ('req, 'resp) echo_effect list \<times> echo_endpoint" where
  "echo_register K E =
    (let E = E\<lparr>ep_cseq := ep_cseq E + 1\<rparr>
     in (case echo_register_request K E of
           None \<Rightarrow> []
         | Some request \<Rightarrow> [EchoSend request, SetRefresh (from_seconds (ucast (ek_register_expires (ep_config E)) div 2))], E))"

section \<open>Answers\<close>

definition is_respondable :: "('u, 'b, 'req, 'hdr, 'resp) ua_kernel \<Rightarrow> 'req \<Rightarrow> bool" where
  "is_respondable K request \<longleftrightarrow> list_all (req_has K request) [UaVia, UaCallId, UaCSeq, UaFrom, UaTo]"

definition echo_answer ::
  "('u, 'b, 'req, 'hdr, 'resp) ua_kernel \<Rightarrow> 'req \<Rightarrow> u16 \<Rightarrow> string \<Rightarrow> marker option \<Rightarrow> ('req, 'resp) echo_effect list" where
  "echo_answer K request status reason m =
    (if \<not> is_respondable K request then [EchoRefused Unanswerable]
     else if \<not> ua_status K status then []
     else case ua_respond K request status reason of
          None \<Rightarrow> [EchoRefused Unanswerable]
        | Some response \<Rightarrow>
            (case m of
               None \<Rightarrow> [EchoRespond response]
             | Some marker \<Rightarrow>
                (case ua_make_header K MARKER_HEADER (marker_value marker) of
                   None \<Rightarrow> [EchoRespond response]
                 | Some header \<Rightarrow> [EchoRespond (ua_push K response header)])))"

definition on_invite :: "('u, 'b, 'req, 'hdr, 'resp) ua_kernel \<Rightarrow> 'req \<Rightarrow> echo_endpoint \<Rightarrow> ('req, 'resp) echo_effect list \<times> echo_endpoint" where
  "on_invite K request E =
    (case marker_of (req_header K request) of
       None \<Rightarrow> (EchoRefused NotAProbeCall # echo_answer K request 403 ''Forbidden'' None, E\<lparr>ep_refused := ep_refused E + 1\<rparr>)
     | Some marker \<Rightarrow> (echo_answer K request 200 ''OK'' (Some marker), E\<lparr>ep_answered := ep_answered E + 1\<rparr>))"

definition on_echo_request ::
  "('u, 'b, 'req, 'hdr, 'resp) ua_kernel \<Rightarrow> 'req \<Rightarrow> echo_endpoint \<Rightarrow> ('req, 'resp) echo_effect list \<times> echo_endpoint" where
  "on_echo_request K request E =
    (case req_verb K request of
       UaInvite \<Rightarrow> on_invite K request E
     | UaBye \<Rightarrow> (echo_answer K request 200 ''OK'' None, E)
     | UaOptions \<Rightarrow> (echo_answer K request 200 ''OK'' None, E)
     | UaAck \<Rightarrow> ([], E)
     | _ \<Rightarrow> (echo_answer K request 405 ''Method Not Allowed'' None, E))"

definition on_echo_input ::
  "('u, 'b, 'req, 'hdr, 'resp) ua_kernel \<Rightarrow> 'req echo_input \<Rightarrow> echo_endpoint \<Rightarrow> ('req, 'resp) echo_effect list \<times> echo_endpoint" where
  "on_echo_input K inp E =
    (case inp of EchoRequest request \<Rightarrow> on_echo_request K request E | _ \<Rightarrow> echo_register K E)"

section \<open>What the echo promises\<close>

text \<open>
  What is used of the library: 200, 403 and 405 are statuses, a success is a 2xx, a response has the
  status it was built with and none of the headers of the request but those it must copy, among which
  the marker's is not, a header that is pushed on a response without one of its name is its value, and
  the header builder accepts a value of printable ASCII characters.  It may refuse every other value, as
  it is documented to refuse a line break (\<^verbatim>\<open>driver.rs\<close>, \<^verbatim>\<open>RegisterRenderError\<close>).
\<close>

definition printable_value :: "bytes \<Rightarrow> bool" where
  "printable_value v \<longleftrightarrow> list_all (\<lambda>c. 33 \<le> (of_char c :: nat) \<and> (of_char c :: nat) \<le> 126) v"

definition echo_laws :: "('u, 'b, 'req, 'hdr, 'resp) ua_kernel \<Rightarrow> bool" where
  "echo_laws K \<longleftrightarrow> ua_status K 200 \<and> ua_status K 403 \<and> ua_status K 405
    \<and> (\<forall>r. resp_is_success K r \<longleftrightarrow> 200 \<le> resp_code K r \<and> resp_code K r < 300)
    \<and> (\<forall>req code reason r. ua_respond K req code reason = Some r \<longrightarrow> resp_code K r = code \<and> resp_header K r MARKER_HEADER = None)
    \<and> (\<forall>name v h r. ua_make_header K name v = Some h \<longrightarrow>
        resp_code K (ua_push K r h) = resp_code K r \<and> (resp_header K r name = None \<longrightarrow> resp_header K (ua_push K r h) name = Some v))
    \<and> (\<forall>name v. printable_value v \<longrightarrow> ua_make_header K name v \<noteq> None)"

lemma echo_lawsD:
  assumes "echo_laws K"
  shows "ua_status K 200" "ua_status K 403" "ua_status K 405" "resp_is_success K r \<longleftrightarrow> 200 \<le> resp_code K r \<and> resp_code K r < 300"
    "ua_respond K req code reason = Some r \<Longrightarrow> resp_code K r = code"
    "ua_respond K req code reason = Some r \<Longrightarrow> resp_header K r MARKER_HEADER = None"
    "ua_make_header K name v = Some h \<Longrightarrow> resp_code K (ua_push K r h) = resp_code K r"
    "ua_make_header K name v = Some h \<Longrightarrow> resp_header K r name = None \<Longrightarrow> resp_header K (ua_push K r h) name = Some v"
    "printable_value v \<Longrightarrow> ua_make_header K name v \<noteq> None"
  using assms unfolding echo_laws_def by blast+

lemma answer_status:
  assumes "echo_laws K" "EchoRespond r \<in> set (echo_answer K request status reason m)"
  shows "resp_code K r = status"
  using assms(2)
  by (auto simp: echo_answer_def echo_lawsD [OF assms(1)] split: if_splits option.splits)

lemma answer_marker:
  assumes "echo_laws K" "ua_make_header K MARKER_HEADER (marker_value m) \<noteq> None"
    "EchoRespond r \<in> set (echo_answer K request status reason (Some m))"
  shows "resp_header K r MARKER_HEADER = Some (marker_value m)"
  using assms(2,3)
  by (auto simp: echo_answer_def echo_lawsD(6,8) [OF assms(1)] split: if_splits option.splits)

lemma printable_prefix: "printable_value (MARKER_PREFIX @ m) \<longleftrightarrow> printable_value m"
  by (simp add: printable_value_def MARKER_PREFIX_def)

lemma minted_printable: "printable_value (marker_value (fst (mint_marker random r)))"
proof -
  have "printable_value BASE64_URL" by (simp add: printable_value_def BASE64_URL_def)
  then have "printable_value (base64_url bs)" for bs
    using base64_url_chars [of _ bs] by (auto simp: printable_value_def list_all_iff)
  then show ?thesis by (simp add: marker_value_def printable_prefix mint_is_base64)
qed

text \<open>The echo answers probe calls only and remembers none of them.  A request's answer does not depend
  on the requests before it; an INVITE without a marker never gets a success response, is refused and
  counted as refused; an ACK is not answered; and a success response to an INVITE carries the marker the
  INVITE carried, where that is a value the header builder accepts: a marker with other than printable
  characters may be answered without it.
\<close>

theorem echo_answers_probes_only:
  assumes "echo_laws K" "on_echo_input K (EchoRequest request) E = (effs, E')"
  shows "effs = fst (on_echo_input K (EchoRequest request) F)
    \<and> ep_config E' = ep_config E \<and> ep_cseq E' = ep_cseq E
    \<and> (req_verb K request = UaAck \<longrightarrow> effs = [] \<and> E' = E)
    \<and> (req_verb K request = UaInvite \<and> marker_of (req_header K request) = None \<longrightarrow>
        (\<forall>r. EchoRespond r \<in> set effs \<longrightarrow> \<not> resp_is_success K r) \<and> EchoRefused NotAProbeCall \<in> set effs
        \<and> E' = E\<lparr>ep_refused := ep_refused E + 1\<rparr>)
    \<and> (\<forall>r. req_verb K request = UaInvite \<and> EchoRespond r \<in> set effs \<and> resp_is_success K r \<longrightarrow>
        (\<exists>m. marker_of (req_header K request) = Some m
          \<and> (printable_value m \<longrightarrow> resp_header K r MARKER_HEADER = Some (marker_value m))))"
proof (cases "req_verb K request = UaInvite")
  case False
  with assms(2) show ?thesis
    by (auto simp: on_echo_input_def on_echo_request_def split: ua_method.splits)
next
  case True
  have refused: "\<not> resp_is_success K r" if "EchoRespond r \<in> set (echo_answer K request 403 ''Forbidden'' None)" for r
    using answer_status [OF assms(1) that] echo_lawsD(4) [OF assms(1), of r] by simp
  have marked: "resp_header K r MARKER_HEADER = Some (marker_value m)"
    if "printable_value m" "EchoRespond r \<in> set (echo_answer K request 200 ''OK'' (Some m))" for r m
    using that by (intro answer_marker [OF assms(1) echo_lawsD(9) [OF assms(1)]]) (simp_all add: marker_value_def printable_prefix)
  show ?thesis
    using True assms(2) refused marked
    by (auto simp: on_echo_input_def on_echo_request_def on_invite_def split: option.splits)
qed

text \<open>The library of the probe's example refuses a header value with a line break.\<close>

lemma plain_laws: "echo_laws plain_kernel"
proof -
  have "CHR 0x0A \<notin> set v \<and> CHR 0x0D \<notin> set v" if "printable_value v" for v
    using that by (auto simp: printable_value_def list_all_iff)
  then show ?thesis by (auto simp: echo_laws_def plain_kernel_def map_add_def split: option.split if_splits)
qed

lemma plain_refuses_line_breaks: "ua_make_header plain_kernel name (v @ [CHR 0x0D, CHR 0x0A] @ w) = None"
  by (simp add: plain_kernel_def)

lemma echo_answers_probes_only_witness:
  "\<not> (\<exists>r. EchoRespond r \<in> set (fst (on_echo_input plain_kernel (EchoRequest (UaInvite, [(UaSubject, ''hello'')]))
      (echo_new (echo_config_new ''a'' ''c'' ''r'')))) \<and> resp_is_success plain_kernel r)"
proof -
  have "marker_of (req_header plain_kernel (UaInvite, [(UaSubject, ''hello'')])) = None"
  proof -
    have "str_trim ''hello'' = ''hello''" by (rule str_trim_plain) (auto simp: is_ascii_char_def white_space_def)
    then show ?thesis by (simp add: marker_of_def MARKER_HEADER_def MARKER_PREFIX_def plain_kernel_def)
  qed
  moreover have "req_verb plain_kernel (UaInvite, [(UaSubject, ''hello'')]) = UaInvite" by (simp add: plain_kernel_def)
  ultimately show ?thesis
    using echo_answers_probes_only [OF plain_laws surjective_pairing,
      of "(UaInvite, [(UaSubject, ''hello'')])" "echo_new (echo_config_new ''a'' ''c'' ''r'')"] by blast
qed

text \<open>C37. The probe and the echo agree: a call the probe marked, which carries what a response must copy,
  gets exactly one answer, a success response from which the probe reads its own marker, the condition
  for its INVITE step to pass.  The header builder is only asked to accept printable values, which the
  marker's is; the library of the witness refuses line breaks.
\<close>

theorem echo_satisfies_probe:
  fixes random :: "'r \<Rightarrow> u8 \<times> 'r"
  assumes "echo_laws K" "m = fst (mint_marker random r)" "req_verb K request = UaInvite" "req_header K request MARKER_HEADER = Some (marker_value m)"
    "is_respondable K request" "ua_respond K request 200 ''OK'' \<noteq> None"
  shows "\<exists>response. on_echo_input K (EchoRequest request) E = ([EchoRespond response], E\<lparr>ep_answered := ep_answered E + 1\<rparr>)
    \<and> resp_is_success K response \<and> resp_code K response = 200 \<and> marker_of (resp_header K response) = Some m"
proof -
  have reads: "marker_of header = Some m" if "header MARKER_HEADER = Some (marker_value m)" for header
    unfolding assms(2) by (rule minted_reads_back) (use that in \<open>simp add: assms(2)\<close>)
  obtain bare where bare: "ua_respond K request 200 ''OK'' = Some bare" using assms(6) by blast
  obtain h where h: "ua_make_header K MARKER_HEADER (marker_value m) = Some h" using echo_lawsD(9) [OF assms(1) minted_printable, of MARKER_HEADER random r] unfolding assms(2) by blast
  have "on_echo_input K (EchoRequest request) E = ([EchoRespond (ua_push K bare h)], E\<lparr>ep_answered := ep_answered E + 1\<rparr>)"
    using assms(3,5) reads [of "req_header K request"] assms(4) bare h
    by (simp add: on_echo_input_def on_echo_request_def on_invite_def echo_answer_def echo_lawsD(1) [OF assms(1)])
  moreover have "resp_header K (ua_push K bare h) MARKER_HEADER = Some (marker_value m)"
    using echo_lawsD(6) [OF assms(1) bare] by (rule echo_lawsD(8) [OF assms(1) h])
  moreover have "resp_code K (ua_push K bare h) = 200"
    using echo_lawsD(5) [OF assms(1) bare] echo_lawsD(7) [OF assms(1) h, of bare] by simp
  ultimately show ?thesis using reads echo_lawsD(4) [OF assms(1), of "ua_push K bare h"] by auto
qed

lemma echo_satisfies_probe_witness:
  "\<exists>m response. fst (on_echo_input plain_kernel (EchoRequest (UaInvite, [(UaVia, ''v''), (UaCallId, ''c''), (UaCSeq, ''2''), (UaFrom, ''f''),
      (UaTo, ''t''), (UaSubject, marker_value m)])) (echo_new (echo_config_new ''a'' ''c'' ''r''))) = [EchoRespond response]
    \<and> marker_of (resp_header plain_kernel response) = Some m"
proof -
  let ?m = "fst (mint_marker (\<lambda>n. (7, n)) (0 :: nat))"
  let ?request = "(UaInvite, [(UaVia, ''v''), (UaCallId, ''c''), (UaCSeq, ''2''), (UaFrom, ''f''), (UaTo, ''t''), (UaSubject, marker_value ?m)])"
  have "\<exists>response. on_echo_input plain_kernel (EchoRequest ?request) E = ([EchoRespond response], E\<lparr>ep_answered := ep_answered E + 1\<rparr>)
    \<and> resp_is_success plain_kernel response \<and> resp_code plain_kernel response = 200 \<and> marker_of (resp_header plain_kernel response) = Some ?m"
    for E
    by (rule echo_satisfies_probe [OF plain_laws refl])
      (simp_all add: plain_kernel_def is_respondable_def MARKER_HEADER_def)
  then show ?thesis by (metis fst_conv)
qed

end
