(* ===== verification/Socket.thy ===== *)
theory Socket imports Prelude Ascii Netaddr begin

text \<open>
  Socket addresses as the node reads them out of a document: the readers of \<^verbatim>\<open>core::net\<close>.
\<close>

text \<open>\<^verbatim>\<open>str::parse::<SocketAddr>\<close>.  The whole text must be read.\<close>

definition read_port :: "nat reader" where
  "read_port s = Option.bind (read_char (CHR '':'') s) (\<lambda>(_, s). read_number 10 (length s) True 65536 s)"

definition read_scope :: "string \<Rightarrow> nat \<times> string" where
  "read_scope s =
    (case Option.bind (read_char (CHR ''%'') s) (\<lambda>(_, s). read_number 10 (length s) True (2 ^ 32) s) of
       Some found \<Rightarrow> found | None \<Rightarrow> (0, s))"

definition read_socket_v4 :: "socket_addr reader" where
  "read_socket_v4 s =
    Option.bind (read_v4 s) (\<lambda>(octets, s).
    Option.bind (read_port s) (\<lambda>(port, s).
      Some (\<lparr>sa_ip = V4 (v4_of_octets octets), sa_port = of_nat port, sa_flowinfo = 0, sa_scope = 0\<rparr>, s)))"

definition read_socket_v6 :: "socket_addr reader" where
  "read_socket_v6 s =
    Option.bind (read_char (CHR ''['') s) (\<lambda>(_, s).
    Option.bind (read_v6 s) (\<lambda>(groups, s).
      (let (scope, s) = read_scope s in
       Option.bind (read_char (CHR '']'') s) (\<lambda>(_, s).
       Option.bind (read_port s) (\<lambda>(port, s).
         Some (\<lparr>sa_ip = V6 (v6_of_groups groups), sa_port = of_nat port, sa_flowinfo = 0, sa_scope = of_nat scope\<rparr>, s))))))"

definition parse_socket :: "string \<Rightarrow> socket_addr option" where
  "parse_socket s =
    (case (case read_socket_v4 s of Some found \<Rightarrow> Some found | None \<Rightarrow> read_socket_v6 s) of
       Some (addr, []) \<Rightarrow> Some addr | _ \<Rightarrow> None)"

section \<open>One address\<close>

lemma read_octets_numeral:
  "read_octets i (numeral k) s =
    (case read_separated (CHR ''.'') i (read_number 10 3 False 256) s of
       None \<Rightarrow> None
     | Some (octet, rest) \<Rightarrow> map_option (\<lambda>(octets, rest). (octet # octets, rest)) (read_octets (Suc i) (pred_numeral k) rest))"
  by (simp add: numeral_eq_Suc)

definition sample_socket :: socket_addr where
  "sample_socket = \<lparr>sa_ip = V4 0x0A000001, sa_port = 5060, sa_flowinfo = 0, sa_scope = 0\<rparr>"

lemma parse_sample_socket: "parse_socket ''10.0.0.1:5060'' = Some sample_socket"
  by (simp add: parse_socket_def read_socket_v4_def read_v4_def read_octets_numeral read_port_def read_separated_def read_number_def
      read_char_def radix_digit_def v4_of_octets_def sample_socket_def)

end
