(* ===== verification/Startup.thy ===== *)
theory Startup imports Prelude Ascii Netaddr Socket Listen Config Cluster Shards Tenants Load Admission Proxy begin

text \<open>
  \<^verbatim>\<open>startup.rs\<close> of \<^verbatim>\<open>crates/sipx-clstr-node\<close> and the node's configuration of
  \<^verbatim>\<open>driver.rs\<close>: from a cluster document to what a node runs with.  The file system and the
  environment are arguments; a message is the UTF-8 bytes of its text.
\<close>

section \<open>The node's configuration\<close>

datatype store_choice = StoreInMemory | StorePostgres string

definition store_describe :: "store_choice \<Rightarrow> string" where
  "store_describe s = (case s of StoreInMemory \<Rightarrow> ''in-memory'' | StorePostgres _ \<Rightarrow> ''postgres'')"

record auth_config =
  ac_realm :: string
  ac_secret :: "u8 list"
  ac_credentials :: memory_credentials

record node_config =
  nc_listeners :: "listener list"
  nc_capabilities :: capabilities
  nc_tenant :: string
  nc_auth :: "auth_config option"
  nc_policy :: tenant_policy
  nc_domains :: "string list"
  nc_authorizations :: registration_authorizations
  nc_store :: store_choice
  nc_max_in_flight :: u64
  nc_timer_c :: Proxy.duration

definition node_listening :: "listener list \<Rightarrow> node_config" where
  "node_listening ls =
    \<lparr>nc_listeners = ls, nc_capabilities = CALL_PATH, nc_tenant = ''default'', nc_auth = None, nc_policy = default_policy,
     nc_domains = [], nc_authorizations = authorizations_open, nc_store = StoreInMemory,
     nc_max_in_flight = DEFAULT_MAX_IN_FLIGHT_TRANSACTIONS, nc_timer_c = DEFAULT_TIMER_C\<rparr>"

definition node_on :: "(transport_kind \<Rightarrow> string) \<Rightarrow> socket_addr \<Rightarrow> listener_error + node_config" where
  "node_on name listen =
    and_then (listener_bound name Udp listen) (\<lambda>udp.
    and_then (listener_bound name Tcp listen) (\<lambda>tcp.
    and_then (listeners_new name [udp, tcp]) (\<lambda>ls. Inr (node_listening ls))))"

definition node_advertising :: "(transport_kind \<Rightarrow> string) \<Rightarrow> socket_addr \<Rightarrow> string \<Rightarrow> listener_error + node_config" where
  "node_advertising name listen advertise =
    and_then (advertised_parse advertise) (\<lambda>advertise.
    and_then (listener_new name Udp listen advertise) (\<lambda>udp.
    and_then (listener_new name Tcp listen advertise) (\<lambda>tcp.
    and_then (listeners_new name [udp, tcp]) (\<lambda>ls. Inr (node_listening ls)))))"

definition node_tenant_auth :: "('req, 'a, 'p, 'hn) auth_kernel \<Rightarrow> node_config \<Rightarrow> 'a tenant_auth" where
  "node_tenant_auth AK nc =
    (case nc_auth nc of
       Some auth \<Rightarrow> auth_required AK (nc_tenant nc) (ac_realm auth) (ac_secret auth)
     | None \<Rightarrow> auth_open AK (nc_tenant nc))"

definition node_credentials :: "node_config \<Rightarrow> memory_credentials" where
  "node_credentials nc = (case nc_auth nc of Some auth \<Rightarrow> ac_credentials auth | None \<Rightarrow> (\<lambda>_. None))"

text \<open>The node's registration policy.  \<^verbatim>\<open>Host::parse_hostport\<close> and \<^verbatim>\<open>Host::equivalent\<close>
  are the library's.\<close>

record host_lib =
  host_parse :: "bytes \<Rightarrow> host option"
  host_equivalent :: "host \<Rightarrow> host \<Rightarrow> bool"

definition node_serves :: "host_lib \<Rightarrow> node_config \<Rightarrow> string \<Rightarrow> request_authority \<Rightarrow> bool" where
  "node_serves H nc tenant authority =
    (if tenant \<noteq> nc_tenant nc then False
     else if nc_domains nc = [] then True
     else list_ex (\<lambda>served.
       case host_parse H served of None \<Rightarrow> False | Some host \<Rightarrow> host_equivalent H host (ra_host authority)) (nc_domains nc))"

definition node_policy :: "host_lib \<Rightarrow> node_config \<Rightarrow> registration_policy" where
  "node_policy H nc =
    \<lparr>serves = node_serves H nc,
     authorizes = (\<lambda>tenant principal aor. tenant = nc_tenant nc \<and> authorizations_authorizes (nc_authorizations nc) principal aor)\<rparr>"

section \<open>Why a node does not start\<close>

datatype startup_error =
    Unreadable string string
  | RejectedDocument "string list"
  | StartListener listener_error
  | UnresolvedReference string string string
  | MissingIdentity string
  | RoleNotServed string string

section \<open>Identity\<close>

record identity_args =
  ia_node :: "u16 option"
  ia_zone :: "string option"
  ia_roles :: "string option"

definition or_env :: "identity_args \<Rightarrow> env \<Rightarrow> identity_args" where
  "or_env args env =
    \<lparr>ia_node = (case ia_node args of
        None \<Rightarrow> Option.bind (env ''SIPX_CLSTR_NODE'') (\<lambda>v. map_option of_nat (str_parse 16 v)) | Some n \<Rightarrow> Some n),
     ia_zone = (case ia_zone args of None \<Rightarrow> env ''SIPX_CLSTR_ZONE'' | Some z \<Rightarrow> Some z),
     ia_roles = (case ia_roles args of None \<Rightarrow> env ''SIPX_CLSTR_ROLES'' | Some r \<Rightarrow> Some r)\<rparr>"

fun resolve_roles :: "string list \<Rightarrow> startup_error + role set" where
  "resolve_roles [] = Inr {}"
| "resolve_roles (name # names) =
    (case role_parse name of
       None \<Rightarrow> Inl (MissingIdentity (''`'' @ name @ ''` is not a role; the set is '' @ join '', '' (map role_str role_all)))
     | Some role \<Rightarrow> map_sum id (insert role) (resolve_roles names))"

definition resolve_identity :: "identity_args \<Rightarrow> startup_error + node_identity" where
  "resolve_identity args =
    and_then (ok_or (MissingIdentity ''this node has no id: pass --node <1..65535> or set SIPX_CLSTR_NODE'') (ia_node args)) (\<lambda>node.
    and_then (ok_or (MissingIdentity ''this node has no zone: pass --zone <name> or set SIPX_CLSTR_ZONE'') (ia_zone args)) (\<lambda>zone.
    and_then (ok_or (MissingIdentity ''this node has no roles: pass --roles <a,b> or set SIPX_CLSTR_ROLES'') (ia_roles args)) (\<lambda>spelled.
    and_then (resolve_roles (filter (\<lambda>s. s \<noteq> []) (map str_trim (split_on (CHR '','') spelled)))) (\<lambda>roles.
      Inr \<lparr>node_identity.id_node = node, id_zone = zone, id_roles = roles\<rparr>))))"

section \<open>From a projected document to the node\<close>

definition unserved_role :: "role \<Rightarrow> (string \<times> string) option" where
  "unserved_role role =
    (case role of
       Echo \<Rightarrow> Some (role_str role,
         ''the echo endpoint is a UAS (e2e-probe '' @ sect @ ''9) that this driver does not run, and `cluster.echo` is not a section this loader reads. Until it does, a node given this role can only answer as something it is not'')
     | E2eTester \<Rightarrow> Some (role_str role,
         ''the probe engine is not driven by this binary, and `cluster.probe` is not a section this loader reads. Until it is, a node given this role would probe nothing'')
     | _ \<Rightarrow> None)"

definition variable_for :: "string \<Rightarrow> string" where
  "variable_for named = map (\<lambda>c. if c = CHR ''-'' \<or> c = CHR ''.'' \<or> c = CHR ''/'' then CHR ''_'' else ascii_upper c) named"

definition start_listener :: "(transport_kind \<Rightarrow> string) \<Rightarrow> listener_spec \<Rightarrow> startup_error + listener" where
  "start_listener name declared =
    and_then (ok_or (StartListener EmptyHost) (parse_socket (ls_bind declared))) (\<lambda>bind.
    and_then (if ls_transport declared = ''udp'' then Inr Udp
        else if ls_transport declared = ''tcp'' then Inr Tcp
        else Inl (MissingIdentity (''cluster.listener declares transport `'' @ ls_transport declared @ ''`, which this build cannot serve'')))
      (\<lambda>transport.
    map_sum StartListener id
      (case ls_advertise declared of
         Some advertise \<Rightarrow> and_then (advertised_parse advertise) (listener_new name transport bind)
       | None \<Rightarrow> listener_bound name transport bind)))"

fun start_listeners :: "(transport_kind \<Rightarrow> string) \<Rightarrow> listener_spec list \<Rightarrow> startup_error + listener list" where
  "start_listeners name [] = Inr []"
| "start_listeners name (d # ds) =
    and_then (start_listener name d) (\<lambda>l. map_sum id ((#) l) (start_listeners name ds))"

definition choose_store :: "projected_config \<Rightarrow> env \<Rightarrow> startup_error + store_choice" where
  "choose_store projected env =
    (case pj_location_store projected of
       None \<Rightarrow> Inr StoreInMemory
     | Some declared \<Rightarrow>
        if st_backend declared = ''memory'' then Inr StoreInMemory
        else case st_dsn_ref declared of
            None \<Rightarrow> Inl (UnresolvedReference ''cluster.locationStore.dsnRef'' [] [])
          | Some named \<Rightarrow>
             (case env (variable_for named) of
                None \<Rightarrow> Inl (UnresolvedReference ''cluster.locationStore.dsnRef'' named (variable_for named))
              | Some dsn \<Rightarrow> Inr (StorePostgres dsn)))"

definition start_auth :: "string \<Rightarrow> projected_config \<Rightarrow> env \<Rightarrow> startup_error + auth_config option" where
  "start_auth tenant projected env =
    (case List.find (\<lambda>auth. auth \<noteq> None) (map tn_auth (pj_tenants projected)) of
       Some (Some auth) \<Rightarrow>
        (case env (variable_for (au_secret_ref auth)) of
           Some secret_text \<Rightarrow> Inl (MissingIdentity (''tenant `'' @ tenant @
             ''` requires authentication, but this build has no credential store to check users against (RG-7 owns that). A `secretRef` that resolves would produce a registrar that answers 401 to every REGISTER while appearing protected. Remove `tenant[].auth` to run an open tenant deliberately, or supply credentials once RG-7 lands. Secret `''
             @ au_secret_ref auth @ ''` was named by reference, never read into the document.''))
         | None \<Rightarrow> Inr (Some \<lparr>ac_realm = au_realm auth, ac_secret = replicate 32 0, ac_credentials = (\<lambda>_. None)\<rparr>))
     | _ \<Rightarrow> Inr None)"

definition start_policy :: "tenant_policy_spec \<Rightarrow> tenant_policy" where
  "start_policy p =
    \<lparr>default_expires = tp_default_expires p, min_expires = tp_min_expires p, max_expires = tp_max_expires p,
     max_bindings_per_aor = unat (tp_max_bindings_per_aor p), max_contact_ops = max_contact_ops default_policy\<rparr>"

definition node_config_of ::
  "(transport_kind \<Rightarrow> string) \<Rightarrow> projected_config \<Rightarrow> env \<Rightarrow> startup_error + node_config" where
  "node_config_of name projected env =
    (let roles = id_roles (pj_identity projected); tenants = pj_tenants projected in
     case List.map_filter unserved_role (filter (\<lambda>r. r \<in> roles) role_all) of
       (role, why) # _ \<Rightarrow> Inl (RoleNotServed role why)
     | [] \<Rightarrow>
        and_then (start_listeners name (pj_listeners projected)) (\<lambda>ls.
        and_then (map_sum StartListener id (listeners_new name ls)) (\<lambda>ls.
          (let nc = (node_listening ls)\<lparr>nc_capabilities := capabilities_of roles\<rparr>;
               nc = (case tenants of [] \<Rightarrow> nc | tenant # _ \<Rightarrow> nc\<lparr>nc_tenant := tn_name tenant\<rparr>)
           in and_then (start_auth (nc_tenant nc) projected env) (\<lambda>auth.
             if length tenants > 1
             then Inl (MissingIdentity (''this build serves one tenant per node and the document declares '' @ decimal (length tenants)
               @ ''. Honouring the first and ignoring the rest would be a silent partial apply; split them across nodes, or wait for multi-tenancy.''))
             else (let nc = nc\<lparr>nc_auth := auth\<rparr>;
                       nc = (case tenants of [] \<Rightarrow> nc
                         | tenant # _ \<Rightarrow> nc\<lparr>nc_policy := start_policy (tn_policy tenant), nc_domains := tn_domains tenant\<rparr>)
                   in and_then (choose_store projected env) (\<lambda>store.
                     Inr (nc\<lparr>nc_store := store,
                       nc_max_in_flight := ad_max_in_flight_transactions (pj_admission projected),
                       nc_timer_c := unat (ti_timer_c_ms (pj_timers projected)) * 1000000\<rparr>)))))))) "

definition from_document ::
  "('n, 'f) yaml_lib \<Rightarrow> (transport_kind \<Rightarrow> string) \<Rightarrow> string \<Rightarrow> string + bytes \<Rightarrow> node_identity \<Rightarrow> env \<Rightarrow> startup_error + node_config" where
  "from_document y name file_name file identity env =
    and_then (map_sum (Unreadable file_name) id file) (\<lambda>bytes.
    and_then (map_sum (\<lambda>errors. RejectedDocument (map config_error_text errors)) id (load y bytes identity env)) (\<lambda>cluster.
      node_config_of name (project cluster identity) env))"

end
