(* ===== verification/Started.thy ===== *)
theory Started imports Prelude Ascii Netaddr Socket Listen Config Cluster Tenants Load Loaded Admission Proxy Startup begin

text \<open>
  What a node starts with: every declaration of the document that this node is to serve, or a refusal.
  And what becomes of a tenant whose authentication cannot be honoured.
\<close>

section \<open>From the document to the configuration\<close>

lemma map_sum_Inr_iff: "map_sum f g x = Inr b \<longleftrightarrow> (\<exists>a. x = Inr a \<and> g a = b)"
  by (cases x) auto

lemma load_ok: "load y bytes identity env = Inr c \<Longrightarrow> config_ok c \<and> config_fits c identity"
  by (erule load_cases) (auto dest: load_document_ok)

text \<open>A listener serves what was declared.\<close>

definition listens_as :: "(transport_kind \<Rightarrow> string) \<Rightarrow> listener_spec \<Rightarrow> listener \<Rightarrow> bool" where
  "listens_as name d l \<longleftrightarrow> parse_socket (ls_bind d) = Some (li_bind l)
    \<and> ls_transport d = (case li_transport l of Udp \<Rightarrow> ''udp'' | Tcp \<Rightarrow> ''tcp'' | _ \<Rightarrow> ''?'')
    \<and> (case ls_advertise d of
         Some text \<Rightarrow> advertised_parse text = Inr (li_advertise l)
       | None \<Rightarrow> advertised_new (ip_text (socket_addr.sa_ip (li_bind l))) (Some (socket_addr.sa_port (li_bind l))) = Inr (li_advertise l))"

lemma listener_new_Inr: "listener_new name transport addr advertise = Inr l \<Longrightarrow>
    li_transport l = transport \<and> li_bind l = addr \<and> li_advertise l = advertise"
  by (auto simp: listener_new_def split: if_splits)

lemma start_listener_as:
  assumes "start_listener name d = Inr l"
  shows "listens_as name d l"
  using assms
  by (auto simp: start_listener_def listens_as_def and_then_Inr map_sum_Inr_iff listener_bound_def dest!: listener_new_Inr
      split: if_splits option.splits)

lemma start_listeners_as: "start_listeners name ds = Inr ls \<Longrightarrow> list_all2 (listens_as name) ds ls"
  by (induction ds arbitrary: ls) (auto simp: and_then_Inr map_sum_Inr_iff dest: start_listener_as)

lemma listeners_new_same: "listeners_new name ls = Inr ls' \<Longrightarrow> ls' = ls \<and> ls \<noteq> []"
  by (auto simp: listeners_new_def split: if_splits option.splits)

text \<open>The store the document declares for a registrar.\<close>

definition store_as :: "env \<Rightarrow> location_store_spec option \<Rightarrow> store_choice \<Rightarrow> bool" where
  "store_as env declared s \<longleftrightarrow>
    (case declared of
       None \<Rightarrow> s = StoreInMemory
     | Some d \<Rightarrow> if st_backend d = ''memory'' then s = StoreInMemory
         else \<exists>named dsn. st_dsn_ref d = Some named \<and> env (variable_for named) = Some dsn \<and> s = StorePostgres dsn)"

lemma choose_store_as: "choose_store pj env = Inr s \<Longrightarrow> store_as env (pj_location_store pj) s"
  by (auto simp: choose_store_def store_as_def split: option.splits if_splits)

text \<open>The tenant the document declares, of which a node serves one.\<close>

definition tenant_as :: "env \<Rightarrow> tenant_spec list \<Rightarrow> node_config \<Rightarrow> bool" where
  "tenant_as env tenants nc \<longleftrightarrow>
    (case tenants of
       [] \<Rightarrow> nc_tenant nc = ''default'' \<and> nc_policy nc = default_policy \<and> nc_domains nc = [] \<and> nc_auth nc = None
     | [t] \<Rightarrow> nc_tenant nc = tn_name t \<and> nc_policy nc = start_policy (tn_policy t) \<and> nc_domains nc = tn_domains t
         \<and> (case tn_auth t of
              None \<Rightarrow> nc_auth nc = None
            | Some auth \<Rightarrow> env (variable_for (au_secret_ref auth)) = None
                \<and> nc_auth nc = Some \<lparr>ac_realm = au_realm auth, ac_secret = replicate 32 0, ac_credentials = (\<lambda>_. None)\<rparr>)
     | _ \<Rightarrow> False)"

lemma served_roles: "List.map_filter unserved_role (filter (\<lambda>r. r \<in> roles) role_all) = [] \<longleftrightarrow> Echo \<notin> roles \<and> E2eTester \<notin> roles"
  by (simp add: role_all_def List.map_filter_def unserved_role_def)

lemma node_config_of_Inr:
  assumes "node_config_of name pj env = Inr nc"
  shows "list_all2 (listens_as name) (pj_listeners pj) (nc_listeners nc) \<and> nc_listeners nc \<noteq> []
    \<and> Echo \<notin> id_roles (pj_identity pj) \<and> E2eTester \<notin> id_roles (pj_identity pj)
    \<and> nc_capabilities nc = capabilities_of (id_roles (pj_identity pj)) \<and> nc_authorizations nc = Open
    \<and> tenant_as env (pj_tenants pj) nc \<and> store_as env (pj_location_store pj) (nc_store nc)
    \<and> nc_max_in_flight nc = ad_max_in_flight_transactions (pj_admission pj)
    \<and> nc_timer_c nc = unat (ti_timer_c_ms (pj_timers pj)) * 1000000"
proof -
  have roles: "List.map_filter unserved_role (filter (\<lambda>r. r \<in> id_roles (pj_identity pj)) role_all) = []"
    using assms by (auto simp: node_config_of_def Let_def split: list.splits prod.splits)
  obtain ls where ls: "start_listeners name (pj_listeners pj) = Inr ls" "listeners_new name ls = Inr ls"
    and tail: "(let nc = (node_listening ls)\<lparr>nc_capabilities := capabilities_of (id_roles (pj_identity pj))\<rparr>;
               nc = (case pj_tenants pj of [] \<Rightarrow> nc | tenant # _ \<Rightarrow> nc\<lparr>nc_tenant := tn_name tenant\<rparr>)
           in and_then (start_auth (nc_tenant nc) pj env) (\<lambda>auth.
             if length (pj_tenants pj) > 1
             then Inl (MissingIdentity (''this build serves one tenant per node and the document declares '' @ decimal (length (pj_tenants pj))
               @ ''. Honouring the first and ignoring the rest would be a silent partial apply; split them across nodes, or wait for multi-tenancy.''))
             else (let nc = nc\<lparr>nc_auth := auth\<rparr>;
                       nc = (case pj_tenants pj of [] \<Rightarrow> nc
                         | tenant # _ \<Rightarrow> nc\<lparr>nc_policy := start_policy (tn_policy tenant), nc_domains := tn_domains tenant\<rparr>)
                   in and_then (choose_store pj env) (\<lambda>store.
                     Inr (nc\<lparr>nc_store := store,
                       nc_max_in_flight := ad_max_in_flight_transactions (pj_admission pj),
                       nc_timer_c := unat (ti_timer_c_ms (pj_timers pj)) * 1000000\<rparr>))))) = Inr nc"
    using assms roles
    by (auto simp: node_config_of_def Let_def and_then_Inr map_sum_Inr_iff dest: listeners_new_same simp del: filter.simps)
  have one: "length (pj_tenants pj) \<le> 1"
    using tail by (auto simp: Let_def and_then_Inr split: if_splits)
  then consider (none) "pj_tenants pj = []" | (one) t where "pj_tenants pj = [t]"
    by (cases "pj_tenants pj") auto
  then show ?thesis
  proof cases
    case none
    with tail roles ls start_listeners_as [OF ls(1)] listeners_new_same [OF ls(2)] show ?thesis
      by (auto simp: served_roles Let_def and_then_Inr start_auth_def tenant_as_def node_listening_def authorizations_open_def
          dest!: choose_store_as)
  next
    case one
    with tail roles ls start_listeners_as [OF ls(1)] listeners_new_same [OF ls(2)] show ?thesis
      by (auto simp: served_roles Let_def and_then_Inr start_auth_def tenant_as_def node_listening_def authorizations_open_def
          dest!: choose_store_as split: option.splits if_splits)
  qed
qed

lemma from_document_Inr:
  assumes "from_document y name file_name file identity env = Inr nc"
  obtains bytes c where "file = Inr bytes" "load y bytes identity env = Inr c" "node_config_of name (project c identity) env = Inr nc"
  using assms by (auto simp: from_document_def and_then_Inr map_sum_Inr_iff)

text \<open>C20. A node that starts runs with what its document declares for it.  The document was loaded whole; the node listens
  exactly on the listeners that serve it, each bound and advertised as declared; it wires the paths of its roles, none of
  which is one this build cannot serve; it serves the one tenant declared, under that tenant's own policy and domains; a
  registrar opens the declared store, under the secret its reference names; the admission bound is the declared
  one and at least 1; and Timer C is the declared one, which is above the engine's floor, so the engine uses it as it is.\<close>

theorem startup_honours_document:
  assumes "from_document y name file_name file identity env = Inr nc"
  shows "\<exists>bytes c. file = Inr bytes \<and> load y bytes identity env = Inr c \<and> config_ok c
    \<and> list_all2 (listens_as name) (filter (\<lambda>l. Cluster.serves l identity) (cf_listeners c)) (nc_listeners nc)
    \<and> nc_listeners nc \<noteq> []
    \<and> nc_capabilities nc = capabilities_of (id_roles identity) \<and> list_all (\<lambda>r. r \<in> id_roles identity \<longrightarrow> is_call_path r) role_all
    \<and> tenant_as env (cf_tenants c) nc
    \<and> store_as env (if Registrar \<in> id_roles identity then cf_location_store c else None) (nc_store nc)
    \<and> nc_max_in_flight nc = ad_max_in_flight_transactions (cf_admission c) \<and> 1 \<le> nc_max_in_flight nc
    \<and> nc_timer_c nc = unat (ti_timer_c_ms (cf_timers c)) * 1000000
    \<and> effective_timer_c (config\<lparr>timer_c := nc_timer_c nc\<rparr>) = nc_timer_c nc"
proof -
  obtain bytes c where c: "file = Inr bytes" "load y bytes identity env = Inr c"
    "node_config_of name (project c identity) env = Inr nc"
    using from_document_Inr [OF assms] .
  note n = node_config_of_Inr [OF c(3)]
  have ok: "config_ok c" using load_ok [OF c(2)] by blast
  have "TIMER_C_FLOOR_MS < ti_timer_c_ms (cf_timers c)" using ok by (simp add: config_ok_def)
  then have "180000 < unat (ti_timer_c_ms (cf_timers c))"
    by (simp add: word_less_nat_alt TIMER_C_FLOOR_MS_def)
  then have timer: "TIMER_C_FLOOR < nc_timer_c nc"
    using n by (simp add: project_def TIMER_C_FLOOR_def duration_of_secs_def)
  have roles: "list_all (\<lambda>r. r \<in> id_roles identity \<longrightarrow> is_call_path r) role_all"
    using n by (simp add: project_def role_all_def is_call_path_def)
  show ?thesis
    using n c ok timer roles
    by (intro exI [of _ bytes] exI [of _ c])
      (simp add: project_def effective_timer_c_def config_ok_def admission_ok_def)
qed

section \<open>A tenant whose authentication cannot be honoured\<close>

text \<open>C21. What becomes of a tenant that asks for authentication.  The node starts only when the named secret does not
  resolve, and then no request is ever admitted as a command, whatever credentials it presents and whatever the
  authenticator has seen: the tenant is not open but requires authentication, against credentials that do not exist.\<close>

theorem unresolved_secret_admits_nobody:
  assumes "from_document y name file_name file identity env = Inr nc" "nc_auth nc \<noteq> None"
    "ta_tenant auth = nc_tenant nc" "ta_required auth = ta_required (node_tenant_auth AK nc)"
  shows "(\<exists>bytes c t a. file = Inr bytes \<and> load y bytes identity env = Inr c \<and> cf_tenants c = [t] \<and> tn_auth t = Some a
      \<and> env (variable_for (au_secret_ref a)) = None)
    \<and> node_credentials nc = (\<lambda>_. None)
    \<and> \<not> (\<exists>cmd. fst (fst (admit_audited unicode K AK request auth (credentials_password (node_credentials nc)) (node_policy H nc)
        edge now)) = Command cmd)"
proof -
  obtain bytes c where c: "file = Inr bytes" "load y bytes identity env = Inr c"
    "node_config_of name (project c identity) env = Inr nc"
    using from_document_Inr [OF assms(1)] .
  note n = node_config_of_Inr [OF c(3)]
  have "tenant_as env (cf_tenants c) nc" using n by (simp add: project_def)
  with assms(2) obtain t a where t: "cf_tenants c = [t]" "tn_auth t = Some a" "env (variable_for (au_secret_ref a)) = None"
      "node_credentials nc = (\<lambda>_. None)"
    by (auto simp: tenant_as_def node_credentials_def split: list.splits option.splits)
  have required: "ta_required auth" using assms(2,4) by (auto simp: node_tenant_auth_def auth_required_def)
  have none: "fst (fst (admit_audited unicode K AK request auth (credentials_password (node_credentials nc)) (node_policy H nc)
        edge now)) \<noteq> Command cmd" for cmd
  proof
    assume "fst (fst (admit_audited unicode K AK request auth (credentials_password (node_credentials nc)) (node_policy H nc)
        edge now)) = Command cmd"
    then obtain audit auth' where "admit_audited unicode K AK request auth (credentials_password (node_credentials nc))
        (node_policy H nc) edge now = ((Command cmd, audit), auth')"
      by (metis prod.collapse)
    then obtain who where who: "decide K AK auth request (credentials_password (node_credentials nc)) (as_secs now) = (Proceed who, auth')"
        "command unicode K request (edge\<lparr>edge_tenant := ta_tenant auth\<rparr>) who (node_policy H nc) now = Inr cmd"
      by (rule admit_Command)
    obtain p where "who = Some p" by (rule decide_Proceed_cases [OF who(1)]) (use required in auto)
    moreover have "authorizations_authorizes (nc_authorizations nc) who (rc_aor cmd)"
      using command_Inr [OF who(2)] by (simp add: node_policy_def)
    ultimately show False using n by simp
  qed
  show ?thesis using c t none by blast
qed

section \<open>One node\<close>

definition start_sample :: "u64 yaml" where
  "start_sample = YMapping
    [(YString ''apiVersion'', YString API_VERSION), (YString ''version'', YNumber 3),
     (YString ''cluster'', YMapping
       [(YString ''name'', YString ''lab''), (YString ''environment'', YString ''test''),
        (YString ''zones'', YSequence [YString ''a'']),
        (YString ''listener'', YSequence [YMapping
          [(YString ''roles'', YSequence [YString ''edge'']), (YString ''transport'', YString ''udp''),
           (YString ''bind'', YString ''10.0.0.1:5060''), (YString ''advertise'', YString ''::1'')]]),
        (YString ''tenant'', YSequence [YMapping
          [(YString ''name'', YString ''t''), (YString ''id'', YNumber 1),
           (YString ''auth'', YMapping [(YString ''realm'', YString ''r''), (YString ''secretRef'', YString ''s'')])]])])]"

lemma start_sample_loads:
  "case load_document (library_sample start_sample) start_sample [] node_sample of
     Inr c \<Rightarrow> cf_listeners c = [\<lparr>ls_roles = {Edge}, ls_transport = ''udp'', ls_bind = ''10.0.0.1:5060'', ls_advertise = Some ''::1''\<rparr>]
       \<and> map tn_name (cf_tenants c) = [''t''] \<and> map tn_auth (cf_tenants c) = [Some \<lparr>au_realm = ''r'', au_secret_ref = ''s''\<rparr>]
   | Inl es \<Rightarrow> False"
  by code_simp

lemma start_sample_starts:
  "\<exists>nc. from_document (library_sample start_sample) (\<lambda>_. []) ''f'' (Inr ''c'') node_sample (\<lambda>_. None) = Inr nc
    \<and> nc_auth nc = Some \<lparr>ac_realm = ''r'', ac_secret = replicate 32 0, ac_credentials = (\<lambda>_. None)\<rparr> \<and> nc_tenant nc = ''t''"
proof -
  obtain c where c: "load (library_sample start_sample) ''c'' node_sample (\<lambda>_. None) = Inr c"
    "cf_listeners c = [\<lparr>ls_roles = {Edge}, ls_transport = ''udp'', ls_bind = ''10.0.0.1:5060'', ls_advertise = Some ''::1''\<rparr>]"
    "map tn_name (cf_tenants c) = [''t'']" "map tn_auth (cf_tenants c) = [Some \<lparr>au_realm = ''r'', au_secret_ref = ''s''\<rparr>]"
    using start_sample_loads by (auto simp: load_sample split: sum.splits)
  obtain t where t: "cf_tenants c = [t]" "tn_name t = ''t''" "tn_auth t = Some \<lparr>au_realm = ''r'', au_secret_ref = ''s''\<rparr>"
    using c(3,4) by auto
  let ?l = "\<lparr>li_transport = Udp, li_bind = sample_socket, li_advertise = \<lparr>ad_host = ''::1'', ad_port = None\<rparr>\<rparr>"
  have roles: "List.map_filter unserved_role (filter (\<lambda>r. r = Edge) role_all) = []" using served_roles [of "{Edge}"] by simp
  have ls: "start_listeners (\<lambda>_. []) (cf_listeners c) = Inr [?l]" "listeners_new (\<lambda>_. []) [?l] = Inr [?l]"
    by (simp_all add: c(2) start_listener_def parse_sample_socket parse_loopback listener_new_def listeners_new_def receiving_def)
  have served: "filter (\<lambda>l. Cluster.serves l node_sample) (cf_listeners c) = cf_listeners c" and me: "id_roles node_sample = {Edge}"
    by (simp_all add: c(2) Cluster.serves_def node_sample_def role_all_def)
  have "from_document (library_sample start_sample) (\<lambda>_. []) ''f'' (Inr ''c'') node_sample (\<lambda>_. None) =
      node_config_of (\<lambda>_. []) (project c node_sample) (\<lambda>_. None)"
    by (simp add: from_document_def c(1))
  then show ?thesis
    using roles ls t by (simp add: node_config_of_def project_def served me start_auth_def choose_store_def Let_def)
qed

lemma startup_honours_document_witness:
  "\<exists>nc :: node_config. nc_tenant nc = ''t'' \<and> nc_capabilities nc = capabilities_of {Edge} \<and> 1 \<le> nc_max_in_flight nc"
proof -
  obtain nc where nc: "from_document (library_sample start_sample) (\<lambda>_. []) ''f'' (Inr ''c'') node_sample (\<lambda>_. None) = Inr nc" "nc_tenant nc = ''t''"
    using start_sample_starts by blast
  have "nc_capabilities nc = capabilities_of (id_roles node_sample)" "1 \<le> nc_max_in_flight nc"
    using startup_honours_document [OF nc(1), of "config_new [] [] (CookieKey [])"] by blast+
  moreover have "id_roles node_sample = {Edge}" by (simp add: node_sample_def)
  ultimately show ?thesis using nc(2) by (auto intro!: exI [of _ nc])
qed

text \<open>A library whose requests present any credentials and whose authenticator accepts them all.\<close>

definition trusting_auth :: "(unit, unit, unit, unit) auth_kernel" where
  "trusting_auth =
    \<lparr>auth_new = (\<lambda>_ _. ()), auth_realm = (\<lambda>_. ''r''), presented_from = (\<lambda>_ _. Some ()), presented_realm = (\<lambda>_. ''r''),
     presented_username = (\<lambda>_. ''u''), verify_at = (\<lambda>_ _ _ _ _. (Authenticated, ())), challenge_at = (\<lambda>_ _ _. []), challenge_header = (\<lambda>_. ())\<rparr>"

lemma unresolved_secret_admits_nobody_witness:
  "\<exists>nc :: node_config. nc_auth nc \<noteq> None \<and> (\<forall>H edge now. \<not> (\<exists>K :: (unit, unit, unit, unit) sip_kernel_scheme. \<exists>cmd. fst (fst (admit_audited id K trusting_auth ()
      (node_tenant_auth trusting_auth nc) (credentials_password (node_credentials nc)) (node_policy H nc) edge now)) = Command cmd))"
proof -
  obtain nc where nc: "from_document (library_sample start_sample) (\<lambda>_. []) ''f'' (Inr ''c'') node_sample (\<lambda>_. None) = Inr nc"
      "nc_auth nc \<noteq> None"
    using start_sample_starts by blast
  have "ta_tenant (node_tenant_auth trusting_auth nc) = nc_tenant nc"
    by (simp add: node_tenant_auth_def auth_required_def auth_open_def split: option.split)
  from unresolved_secret_admits_nobody [OF nc this refl] nc(2) show ?thesis by blast
qed

end
