(* ===== verification/Driver.thy ===== *)
theory Driver imports Prelude Ascii Netaddr Message Listen Config Startup Store Admission Proxy Cookie Validate Route Forward Context Ack begin

text \<open>
  \<^verbatim>\<open>driver.rs\<close> of \<^verbatim>\<open>crates/sipx-clstr-node\<close>: what a running node does with one arrival.
  The socket, the clock and the other tasks are a world \<open>'w\<close> that every call into them may change; the message
  library's response builders are fields of the kernel.
\<close>

section \<open>The kernel and the world\<close>

text \<open>\<open>nk_bare\<close> is \<^verbatim>\<open>ResponseBuilder::new(code, reason)\<close> followed by
  \<^verbatim>\<open>build\<close>, \<open>nk_empty\<close> is \<^verbatim>\<open>Response::new\<close> with an empty body.\<close>

record ('u, 'req, 'addr, 'hdr, 'via, 'resp) node_kernel = "('u, 'req, 'addr, 'hdr, 'via, 'resp) message_kernel" +
  nk_bare :: "u16 \<Rightarrow> string \<Rightarrow> 'resp option"
  nk_empty :: "u16 \<Rightarrow> string \<Rightarrow> 'resp"

text \<open>The transport's handle, and the store and the clock as this task finds them.  A call answers whether it was
  accepted.\<close>

record ('w, 's, 'req, 'resp) node_world =
  nw_respond :: "'w \<Rightarrow> 'resp \<Rightarrow> bool \<times> 'w"
  nw_send :: "'w \<Rightarrow> 'req \<Rightarrow> socket_addr \<Rightarrow> bool \<times> 'w"
  nw_send_directly :: "'w \<Rightarrow> 'req \<Rightarrow> socket_addr \<Rightarrow> bool \<times> 'w"
  nw_store :: "'w \<Rightarrow> 's"
  nw_now :: "'w \<Rightarrow> timestamp"

section \<open>The admission bound\<close>

record admission_bound =
  ab_max :: u64
  ab_in_flight :: u64
  ab_admitted :: u64
  ab_refused :: u64

datatype bound_verdict = Exempt | Admitted | Refused_Over

definition bound_new :: "u64 \<Rightarrow> admission_bound" where
  "bound_new m = \<lparr>ab_max = max m 1, ab_in_flight = 0, ab_admitted = 0, ab_refused = 0\<rparr>"

definition gates :: "string \<Rightarrow> bool" where
  "gates meth \<longleftrightarrow> \<not> (meth = ''REGISTER'' \<or> meth = ''ACK'')"

definition bound_admit :: "admission_bound \<Rightarrow> string \<Rightarrow> bound_verdict \<times> admission_bound" where
  "bound_admit b meth =
    (if \<not> gates meth then (Exempt, b)
     else if ab_in_flight b < ab_max b
     then (Admitted, b\<lparr>ab_in_flight := ab_in_flight b + 1, ab_admitted := ab_admitted b + 1\<rparr>)
     else (Refused_Over, b\<lparr>ab_refused := ab_refused b + 1\<rparr>))"

text \<open>A permit dropped.\<close>

definition bound_release :: "admission_bound \<Rightarrow> admission_bound" where
  "bound_release b = b\<lparr>ab_in_flight := (if ab_in_flight b = 0 then 0 else ab_in_flight b - 1)\<rparr>"

section \<open>Answers\<close>

definition reason_for :: "u16 \<Rightarrow> string" where
  "reason_for status =
    (if status = 200 then ''OK'' else if status = 400 then ''Bad Request'' else if status = 401 then ''Unauthorized''
     else if status = 403 then ''Forbidden'' else if status = 404 then ''Not Found''
     else if status = 405 then ''Method Not Allowed'' else if status = 407 then ''Proxy Authentication Required''
     else if status = 420 then ''Bad Extension'' else if status = 421 then ''Extension Required''
     else if status = 423 then ''Interval Too Brief'' else if status = 500 then ''Server Internal Error''
     else if status = 503 then ''Service Unavailable'' else ''Error'')"

text \<open>The code's recursion on an unrepresentable \<^verbatim>\<open>500\<close> is not entered where \<open>500\<close> is a status.\<close>

definition ok_status :: "('u, 'req, 'addr, 'hdr, 'via, 'resp, 'x) message_kernel_scheme \<Rightarrow> u16 \<Rightarrow> u16" where
  "ok_status K status = (if valid_status K status then status else 500)"

definition bare_error :: "('u, 'req, 'addr, 'hdr, 'via, 'resp, 'x) node_kernel_scheme \<Rightarrow> 'resp" where
  "bare_error K = nk_empty K (ok_status K 500) ''Server Internal Error''"

definition answer :: "('u, 'req, 'addr, 'hdr, 'via, 'resp, 'x) node_kernel_scheme \<Rightarrow> 'req \<Rightarrow> u16 \<Rightarrow> string \<Rightarrow> 'resp" where
  "answer K request status reason =
    (let code = ok_status K status in
     case respond_to K request code reason of
       Some response \<Rightarrow> response
     | None \<Rightarrow> (case nk_bare K code reason of Some response \<Rightarrow> response | None \<Rightarrow> bare_error K))"

text \<open>A header that cannot be built is left out.\<close>

definition push_if_built ::
  "('u, 'req, 'addr, 'hdr, 'via, 'resp, 'x) node_kernel_scheme \<Rightarrow> 'resp \<Rightarrow> header_name \<Rightarrow> bytes \<Rightarrow> 'resp" where
  "push_if_built K response name v =
    (case header_build K name v of Some header \<Rightarrow> resp_push K response header | None \<Rightarrow> response)"

definition RETRY_AFTER :: bytes where "RETRY_AFTER = ''5''"

definition overloaded_response :: "('u, 'req, 'addr, 'hdr, 'via, 'resp, 'x) node_kernel_scheme \<Rightarrow> 'req \<Rightarrow> 'resp" where
  "overloaded_response K request = push_if_built K (answer K request 503 (reason_for 503)) RetryAfter RETRY_AFTER"

text \<open>One turn of the accept loop: what the bound decides, and the answer to a request it refuses.\<close>

definition accept_one ::
  "('u, 'req, 'addr, 'hdr, 'via, 'resp, 'x) node_kernel_scheme \<Rightarrow> admission_bound \<Rightarrow> 'req \<Rightarrow> 'resp option \<times> bool \<times> admission_bound" where
  "accept_one K b request =
    (case bound_admit b (req_method K request) of
       (Refused_Over, b) \<Rightarrow> (Some (overloaded_response K request), False, b)
     | (Admitted, b) \<Rightarrow> (None, True, b)
     | (Exempt, b) \<Rightarrow> (None, False, b))"

section \<open>Dispatch\<close>

datatype dispatch = ToRegistrar | ToProxy | ToAck | NotAllowed | Unroutable_Ack

definition dispatch_of :: "capabilities \<Rightarrow> string \<Rightarrow> dispatch" where
  "dispatch_of caps meth =
    (if meth = ''REGISTER'' \<and> cap_registrar caps then ToRegistrar
     else if meth = ''REGISTER'' then NotAllowed
     else if meth = ''ACK'' \<and> cap_proxy caps then ToAck
     else if meth = ''ACK'' then Unroutable_Ack
     else if cap_proxy caps then ToProxy
     else NotAllowed)"

definition allowed :: "capabilities \<Rightarrow> string" where
  "allowed caps =
    join '', '' ((if cap_proxy caps then [''INVITE'', ''ACK'', ''BYE'', ''CANCEL'', ''OPTIONS''] else [])
      @ (if cap_registrar caps then [''REGISTER''] else []))"

definition not_allowed ::
  "('u, 'req, 'addr, 'hdr, 'via, 'resp, 'x) node_kernel_scheme \<Rightarrow> 'req \<Rightarrow> capabilities \<Rightarrow> 'resp" where
  "not_allowed K request caps = push_if_built K (answer K request 405 (reason_for 405)) Allow (allowed caps)"

section \<open>Rendering the registrar's outcome\<close>

datatype render_error = HeaderRefused header_name | InvalidQ u16

text \<open>\<^verbatim>\<open>{:03}\<close>.\<close>

definition three_digits :: "nat \<Rightarrow> string" where
  "three_digits n = replicate (3 - length (decimal n)) (CHR ''0'') @ decimal n"

definition render_contact :: "contact_value \<Rightarrow> render_error + bytes" where
  "render_contact c =
    and_then (if cv_q c \<le> 999 then Inr (''0.'' @ three_digits (unat (cv_q c)))
        else if cv_q c = 1000 then Inr ''1.000'' else Inl (InvalidQ (cv_q c))) (\<lambda>q.
      Inr (''<'' @ cv_contact c @ ''>;expires='' @ decimal (unat (cv_expires c)) @ '';q='' @ q))"

definition bracketed_uri :: "bytes \<Rightarrow> bytes" where
  "bracketed_uri uri = ''<'' @ uri @ ''>''"

definition push_register_header ::
  "('u, 'req, 'addr, 'hdr, 'via, 'resp, 'x) node_kernel_scheme \<Rightarrow> 'resp \<Rightarrow> header_name \<Rightarrow> bytes \<Rightarrow> render_error + 'resp" where
  "push_register_header K response name v =
    and_then (ok_or (HeaderRefused name) (header_build K name v)) (\<lambda>header. Inr (resp_push K response header))"

fun render_contacts ::
  "('u, 'req, 'addr, 'hdr, 'via, 'resp, 'x) node_kernel_scheme \<Rightarrow> 'resp \<Rightarrow> contact_value list \<Rightarrow> render_error + 'resp" where
  "render_contacts K response [] = Inr response"
| "render_contacts K response (c # cs) =
    and_then (render_contact c) (\<lambda>v.
    and_then (push_register_header K response Contact v) (\<lambda>response. render_contacts K response cs))"

fun render_paths ::
  "('u, 'req, 'addr, 'hdr, 'via, 'resp, 'x) node_kernel_scheme \<Rightarrow> 'resp \<Rightarrow> bytes list \<Rightarrow> render_error + 'resp" where
  "render_paths K response [] = Inr response"
| "render_paths K response (p # ps) =
    and_then (push_register_header K response Path (bracketed_uri p)) (\<lambda>response. render_paths K response ps)"

definition render_accepted ::
  "('u, 'req, 'addr, 'hdr, 'via, 'resp, 'x) node_kernel_scheme \<Rightarrow> 'req \<Rightarrow> accepted \<Rightarrow> render_error + 'resp" where
  "render_accepted K request acc =
    (let response = answer K request 200 (reason_for 200) in
     and_then (render_contacts K response (acc_contacts acc)) (\<lambda>response.
     and_then (render_paths K response (acc_path acc)) (\<lambda>response.
       if acc_path acc \<noteq> [] then push_register_header K response Supported ''path'' else Inr response)))"

definition render_rejection ::
  "('u, 'req, 'addr, 'hdr, 'via, 'resp, 'x) node_kernel_scheme \<Rightarrow> 'req \<Rightarrow> rejection \<Rightarrow> render_error + 'resp" where
  "render_rejection K request rejection =
    (let status = of_nat (rejection_status rejection); response = answer K request status (reason_for status) in
     case rejection of
       rejection.BadExtension offenders \<Rightarrow> push_register_header K response Unsupported (join '', '' offenders)
     | IntervalTooBrief least \<Rightarrow> push_register_header K response MinExpires (decimal (unat least))
     | ExtensionRequired extension \<Rightarrow> push_register_header K response Require extension
     | _ \<Rightarrow> Inr response)"

definition render_register_outcome ::
  "('u, 'req, 'addr, 'hdr, 'via, 'resp, 'x) node_kernel_scheme \<Rightarrow> 'req \<Rightarrow> outcome \<Rightarrow> render_error + 'resp" where
  "render_register_outcome K request result =
    (case result of
       Commit _ response \<Rightarrow> render_accepted K request response
     | Noop response \<Rightarrow> render_accepted K request response
     | Reject rejection \<Rightarrow> render_rejection K request rejection)"

definition register_outcome_or_internal ::
  "('u, 'req, 'addr, 'hdr, 'via, 'resp, 'x) node_kernel_scheme \<Rightarrow> 'req \<Rightarrow> outcome \<Rightarrow> 'resp" where
  "register_outcome_or_internal K request result =
    (case render_register_outcome K request result of
       Inr response \<Rightarrow> response
     | Inl _ \<Rightarrow> answer K request 500 (reason_for 500))"

section \<open>REGISTER\<close>

text \<open>A transport's name (\<^verbatim>\<open>TransportKind::as_str\<close>) is an argument; the arrival is the request and
  the source the socket observed.\<close>

record 'req arrival =
  ar_request :: 'req
  ar_transport :: transport_kind
  ar_source :: socket_addr

definition register_context :: "(transport_kind \<Rightarrow> string) \<Rightarrow> node_config \<Rightarrow> 'req arrival \<Rightarrow> edge_context" where
  "register_context name nc arrival =
    \<lparr>edge_tenant = nc_tenant nc,
     edge_received = Some \<lparr>sa_transport = name (ar_transport arrival), source_addr.sa_ip = socket_addr.sa_ip (ar_source arrival),
       source_addr.sa_port = socket_addr.sa_port (ar_source arrival)\<rparr>,
     edge_flow_ref = None\<rparr>"

text \<open>The answer, the fact for the audit trail, the authenticator and the store afterwards.\<close>

definition register ::
  "('u, 'req, 'addr, 'hdr, 'via, 'resp, 'x) node_kernel_scheme \<Rightarrow> ('req, 'a, 'p, header_name) auth_kernel \<Rightarrow> host_lib
    \<Rightarrow> (bytes \<Rightarrow> string) \<Rightarrow> (transport_kind \<Rightarrow> string) \<Rightarrow> 's location_store \<Rightarrow> (nat \<Rightarrow> 's \<Rightarrow> 's) \<Rightarrow> node_config
    \<Rightarrow> 'a tenant_auth \<Rightarrow> 's \<Rightarrow> 'req arrival \<Rightarrow> timestamp \<Rightarrow> ('resp \<times> auth_outcome option) \<times> 'a tenant_auth \<times> 's" where
  "register K AK H unicode name st others nc auth s arrival now =
    (let request = ar_request arrival in
     case admit_audited unicode K AK request auth (credentials_password (node_credentials nc)) (node_policy H nc)
         (register_context name nc arrival) now of
       ((admission, audit), auth) \<Rightarrow>
        (case admission of
           Command cmd \<Rightarrow>
            (let (applied, s) = apply_command st others K cmd (nc_policy nc) DEFAULT_CAS_RETRIES s
             in ((register_outcome_or_internal K request (ap_outcome applied), audit), auth, s))
         | AdmChallenge challenge \<Rightarrow>
            (let status = of_nat (chal_status challenge) in
             ((push_if_built K (answer K request status (reason_for status)) (chal_header challenge) (chal_value challenge), audit),
              auth, s))
         | AdmReject rejection \<Rightarrow> ((register_outcome_or_internal K request (Reject rejection), audit), auth, s)))"

section \<open>The proxy a node runs\<close>

fun add_identities :: "edge_identity list \<Rightarrow> listener list \<Rightarrow> edge_identity list" where
  "add_identities known [] = known"
| "add_identities known (l # ls) =
    (let identity = edge_host (ad_host (li_advertise l))
     in add_identities (if identity \<in> set known then known else known @ [identity]) ls)"

definition speaking_for :: "node_config \<Rightarrow> listener option \<Rightarrow> listener option" where
  "speaking_for nc received_on =
    (case received_on of
       Some l \<Rightarrow> Some l
     | None \<Rightarrow> (case cleartext (nc_listeners nc) of
          Some l \<Rightarrow> Some l
        | None \<Rightarrow> (case nc_listeners nc of [] \<Rightarrow> None | l # _ \<Rightarrow> Some l)))"

definition proxy_config_keyed :: "node_config \<Rightarrow> listener option \<Rightarrow> cookie_key \<Rightarrow> proxy_config" where
  "proxy_config_keyed nc received_on key =
    (let speaking = speaking_for nc received_on;
         rr = (case speaking of Some l \<Rightarrow> listener_record_route l | None \<Rightarrow> []);
         host = (case speaking of Some l \<Rightarrow> ad_host (li_advertise l) | None \<Rightarrow> [])
     in (config_new host rr key)\<lparr>timer_c := nc_timer_c nc, identities := add_identities [] (nc_listeners nc)\<rparr>)"

text \<open>Which listener an arrival came in on decides which address goes back into it.\<close>

definition arrival_config :: "node_config \<Rightarrow> cookie_key \<Rightarrow> 'req arrival \<Rightarrow> proxy_config" where
  "arrival_config nc key arrival = proxy_config_keyed nc (receiving (nc_listeners nc) (ar_transport arrival)) key"

definition destination_of :: "('u, 'x) uri_kernel_scheme \<Rightarrow> bytes \<Rightarrow> socket_addr option" where
  "destination_of K hop =
    Option.bind (uri_parse K hop) (\<lambda>uri.
    Option.bind (uri_host K uri) (\<lambda>host.
      let port = (case uri_port K uri of Some port \<Rightarrow> port | None \<Rightarrow> 5060) in
      case host of Ip ip \<Rightarrow> Some \<lparr>socket_addr.sa_ip = ip, socket_addr.sa_port = port, sa_flowinfo = 0, sa_scope = 0\<rparr> | Name _ \<Rightarrow> None))"

section \<open>Performing the engine's effects\<close>

text \<open>One proxied arrival: the context, the branches whose response streams are being read, and the world.\<close>

record ('req, 'resp, 'w) serving =
  sv_context :: "('req, 'resp) response_context"
  sv_watched :: "branch_id list"
  sv_world :: 'w

definition resolve_query ::
  "('u, 'x) uri_kernel_scheme \<Rightarrow> (bytes \<Rightarrow> string) \<Rightarrow> 's location_store \<Rightarrow> string \<Rightarrow> timestamp \<Rightarrow> 's \<Rightarrow> target_query
    \<Rightarrow> ('req, 'resp) input" where
  "resolve_query K unicode st tenant now s query =
    (case (case aor_parse unicode K (tq_uri query) of Inr aor \<Rightarrow> ls_lookup st s tenant aor now | Inl _ \<Rightarrow> Inr []) of
       Inr found \<Rightarrow> TargetsResolved (targets_from_lookup found)
     | Inl _ \<Rightarrow> TargetsUnavailable)"

text \<open>The effects the driver settles itself, by an input.\<close>

definition settling_input ::
  "('u, 'x) uri_kernel_scheme \<Rightarrow> (bytes \<Rightarrow> string) \<Rightarrow> 's location_store \<Rightarrow> ('w, 's, 'req, 'resp) node_world \<Rightarrow> string \<Rightarrow> 'w
    \<Rightarrow> ('req, 'resp) effect \<Rightarrow> ('req, 'resp) input option" where
  "settling_input K unicode st W tenant w e =
    (case e of
       ResolveTargets query \<Rightarrow> Some (resolve_query K unicode st tenant (nw_now W w) (nw_store W w) query)
     | Forward branch _ _ next_hop \<Rightarrow>
        (case destination_of K next_hop of None \<Rightarrow> Some (BranchTransportError branch) | Some _ \<Rightarrow> None)
     | VerifyToken _ _ \<Rightarrow> Some (TokenFact InvalidToken)
     | _ \<Rightarrow> None)"

text \<open>The others: sent, handed to the transport, or left to the kernel.\<close>

definition perform_outward ::
  "('u, 'x) uri_kernel_scheme \<Rightarrow> ('w, 's, 'req, 'resp) node_world \<Rightarrow> ('req, 'resp) effect \<Rightarrow> ('req, 'resp, 'w) serving
    \<Rightarrow> bool \<times> ('req, 'resp, 'w) serving" where
  "perform_outward K W e sv =
    (case e of
       Forward branch request _ next_hop \<Rightarrow>
        (case destination_of K next_hop of
           None \<Rightarrow> (True, sv)
         | Some destination \<Rightarrow>
            (case nw_send W (sv_world sv) request destination of
               (True, w) \<Rightarrow> (True, sv\<lparr>sv_world := w, sv_watched := sv_watched sv @ [branch]\<rparr>)
             | (False, w) \<Rightarrow> (False, sv\<lparr>sv_world := w\<rparr>)))
     | Respond response \<Rightarrow> (case nw_respond W (sv_world sv) response of (accepted, w) \<Rightarrow> (accepted, sv\<lparr>sv_world := w\<rparr>))
     | _ \<Rightarrow> (True, sv))"

partial_function (option) perform ::
  "('u, 'req, 'addr, 'hdr, 'via, 'resp, 'x) message_kernel_scheme \<Rightarrow> mac_kernel \<Rightarrow> (bytes \<Rightarrow> string) \<Rightarrow> 's location_store
    \<Rightarrow> ('w, 's, 'req, 'resp) node_world \<Rightarrow> string \<Rightarrow> ('req, 'resp, 'w) serving \<Rightarrow> ('req, 'resp) effect list
    \<Rightarrow> (bool \<times> ('req, 'resp, 'w) serving) option" where
  "perform K M unicode st W tenant sv es =
    (case es of
       [] \<Rightarrow> Some (True, sv)
     | e # es \<Rightarrow>
        (case settling_input K unicode st W tenant (sv_world sv) e of
           Some input \<Rightarrow>
            (case on_input K M (sv_context sv) input of (c, further) \<Rightarrow>
              Option.bind (perform K M unicode st W tenant (sv\<lparr>sv_context := c\<rparr>) further) (\<lambda>(ok, sv).
                if ok then perform K M unicode st W tenant sv es else Some (False, sv)))
         | None \<Rightarrow>
            (case perform_outward K W e sv of (ok, sv) \<Rightarrow>
              if ok then perform K M unicode st W tenant sv es else Some (False, sv))))"

section \<open>One proxied arrival\<close>

datatype 'resp branch_event = EvResponse 'resp | EvTimeout | EvTransportError | EvNotOurs

text \<open>\<open>Live\<close>: the loop goes on; \<open>Ended ok\<close>: the task returned.\<close>

datatype task = Live | Ended bool

definition proxy_start ::
  "('u, 'req, 'addr, 'hdr, 'via, 'resp, 'x) message_kernel_scheme \<Rightarrow> mac_kernel \<Rightarrow> (bytes \<Rightarrow> string) \<Rightarrow> 's location_store
    \<Rightarrow> ('w, 's, 'req, 'resp) node_world \<Rightarrow> string \<Rightarrow> proxy_config \<Rightarrow> 'w \<Rightarrow> 'req \<Rightarrow> (task \<times> ('req, 'resp, 'w) serving) option" where
  "proxy_start K M unicode st W tenant config w request =
    (case on_input K M (context_new config) (Upstream request) of (c, effects) \<Rightarrow>
      map_option (\<lambda>(ok, sv). (if ok then Live else Ended False, sv))
        (perform K M unicode st W tenant \<lparr>sv_context = c, sv_watched = [], sv_world = w\<rparr> effects))"

definition event_input ::
  "('u, 'req, 'addr, 'hdr, 'via, 'resp, 'x) message_kernel_scheme \<Rightarrow> 'req \<Rightarrow> branch_id \<Rightarrow> 'resp branch_event option
    \<Rightarrow> ('req, 'resp) input option" where
  "event_input K request branch event =
    (case event of
       Some (EvResponse response) \<Rightarrow> Some (BranchResponse response branch)
     | Some EvTimeout \<Rightarrow>
        (case build_response K request (ok_status K 408) ''Request Timeout'' of
           Some response \<Rightarrow> Some (BranchResponse response branch)
         | None \<Rightarrow> Some (BranchTransportError branch))
     | Some EvTransportError \<Rightarrow> Some (BranchTransportError branch)
     | Some EvNotOurs \<Rightarrow> None
     | None \<Rightarrow> Some (BranchTransportError branch))"

text \<open>One event joined from the streams being read: the stream is read again unless it ended.\<close>

definition proxy_step ::
  "('u, 'req, 'addr, 'hdr, 'via, 'resp, 'x) message_kernel_scheme \<Rightarrow> mac_kernel \<Rightarrow> (bytes \<Rightarrow> string) \<Rightarrow> 's location_store
    \<Rightarrow> ('w, 's, 'req, 'resp) node_world \<Rightarrow> string \<Rightarrow> 'req \<Rightarrow> branch_id \<Rightarrow> 'resp branch_event option
    \<Rightarrow> ('req, 'resp, 'w) serving \<Rightarrow> (task \<times> ('req, 'resp, 'w) serving) option" where
  "proxy_step K M unicode st W tenant request branch event sv =
    (let sv = (case event of None \<Rightarrow> sv\<lparr>sv_watched := remove1 branch (sv_watched sv)\<rparr> | Some _ \<Rightarrow> sv) in
     if event = None \<and> cx_finished (sv_context sv) then Some (Ended True, sv)
     else case event_input K request branch event of
       None \<Rightarrow> Some (Live, sv)
     | Some input \<Rightarrow>
        (case on_input K M (sv_context sv) input of (c, effects) \<Rightarrow>
          map_option (\<lambda>(ok, sv). (if \<not> ok then Ended False else if cx_finished (sv_context sv) then Ended True else Live, sv))
            (perform K M unicode st W tenant (sv\<lparr>sv_context := c\<rparr>) effects)))"

text \<open>The task of a request that arrived when the world was \<open>w\<close>: it starts, reads one event of one
  watched branch at a time, in any order, and ends when nothing is being read.\<close>

inductive proxying ::
  "('u, 'req, 'addr, 'hdr, 'via, 'resp, 'x) message_kernel_scheme \<Rightarrow> mac_kernel \<Rightarrow> (bytes \<Rightarrow> string) \<Rightarrow> 's location_store
    \<Rightarrow> ('w, 's, 'req, 'resp) node_world \<Rightarrow> string \<Rightarrow> proxy_config \<Rightarrow> 'w \<Rightarrow> 'req \<Rightarrow> task \<Rightarrow> ('req, 'resp, 'w) serving \<Rightarrow> bool"
  for K M unicode st W tenant config w request where
  arrives: "proxy_start K M unicode st W tenant config w request = Some (t, sv) \<Longrightarrow>
    proxying K M unicode st W tenant config w request t sv"
| reads: "proxying K M unicode st W tenant config w request Live sv \<Longrightarrow> branch \<in> set (sv_watched sv) \<Longrightarrow>
    proxy_step K M unicode st W tenant request branch event sv = Some (t, sv') \<Longrightarrow>
    proxying K M unicode st W tenant config w request t sv'"
| drained: "proxying K M unicode st W tenant config w request Live sv \<Longrightarrow> sv_watched sv = [] \<Longrightarrow>
    proxying K M unicode st W tenant config w request (Ended True) sv"
| elsewhere: "proxying K M unicode st W tenant config w request t sv \<Longrightarrow>
    proxying K M unicode st W tenant config w request t (sv\<lparr>sv_world := w'\<rparr>)"

section \<open>An ACK for a 2xx\<close>

datatype ack_outcome = AckSent bool | AckDropped string

definition forward_ack ::
  "('u, 'req, 'addr, 'hdr, 'via, 'resp, 'x) message_kernel_scheme \<Rightarrow> mac_kernel \<Rightarrow> ('w, 's, 'req, 'resp) node_world
    \<Rightarrow> proxy_config \<Rightarrow> 'w \<Rightarrow> 'req \<Rightarrow> ack_outcome \<times> 'w" where
  "forward_ack K M W config w request =
    (let verdict = (case route_ack K M request config None of AckVerify _ _ \<Rightarrow> Some InvalidToken | _ \<Rightarrow> None) in
     case route_ack K M request config verdict of
       AckForward forwarded next_hop \<Rightarrow>
        (case destination_of K next_hop of
           None \<Rightarrow> (AckDropped ''its next hop resolves to no address'', w)
         | Some destination \<Rightarrow>
            (case nw_send_directly W w forwarded destination of (accepted, w) \<Rightarrow> (AckSent accepted, w)))
     | Unroutable refusal \<Rightarrow> (AckDropped (ack_describe refusal), w)
     | AckVerify _ _ \<Rightarrow> (AckDropped ''the token verdict was not consumed'', w))"

section \<open>Serving an arrival\<close>

datatype ('req, 'resp, 'w) served =
    Answered bool 'w
  | Proxied "(task \<times> ('req, 'resp, 'w) serving) option"
  | Acked ack_outcome 'w
  | DroppedAck 'w

definition serve ::
  "('u, 'req, 'addr, 'hdr, 'via, 'resp, 'x) node_kernel_scheme \<Rightarrow> mac_kernel \<Rightarrow> (bytes \<Rightarrow> string) \<Rightarrow> 's location_store
    \<Rightarrow> ('w, 's, 'req, 'resp) node_world \<Rightarrow> node_config \<Rightarrow> proxy_config \<Rightarrow> ('req arrival \<Rightarrow> 'w \<Rightarrow> 'resp \<times> 'w) \<Rightarrow> 'w \<Rightarrow> 'req arrival
    \<Rightarrow> ('req, 'resp, 'w) served" where
  "serve K M unicode st W nc config registers w arrival =
    (let request = ar_request arrival in
     case dispatch_of (nc_capabilities nc) (req_method K request) of
       ToRegistrar \<Rightarrow>
        (case registers arrival w of (response, w) \<Rightarrow>
         case nw_respond W w response of (accepted, w) \<Rightarrow> Answered accepted w)
     | ToAck \<Rightarrow> (case forward_ack K M W config w request of (outcome, w) \<Rightarrow> Acked outcome w)
     | ToProxy \<Rightarrow> Proxied (proxy_start K M unicode st W (nc_tenant nc) config w request)
     | NotAllowed \<Rightarrow>
        (case nw_respond W w (not_allowed K request (nc_capabilities nc)) of (accepted, w) \<Rightarrow> Answered accepted w)
     | Unroutable_Ack \<Rightarrow> DroppedAck w)"

end
