(* ===== verification/Serving.thy ===== *)
theory Serving imports Prelude Ascii Message Proxy Sample Validate Route Forward Context Steps Runs Scenario Outcomes Store Startup Driver begin

text \<open>
  The node as the driver of the response context: it keeps the engine's protocol, always reads every branch that is
  still outstanding, performs every round of effects to its end, and ends a proxied request only when the engine is
  done with it.
\<close>

section \<open>The branches outstanding\<close>

definition pend :: "('req, 'resp) response_context \<Rightarrow> branch_id set" where
  "pend c = {b. \<exists>state target. (b, state, target) \<in> set (cx_branches c) \<and> waiting state}"

definition fwd :: "('req, 'resp) effect list \<Rightarrow> branch_id set" where
  "fwd es = fst ` set (forwards_of es)"

lemma pend_iff: "b \<in> pend c \<longleftrightarrow> (\<exists>x \<in> set (cx_branches c). fst x = b \<and> waiting (fst (snd x)))"
  unfolding pend_def by force

lemma pendI: "(b, state, target) \<in> set (cx_branches c) \<Longrightarrow> waiting state \<Longrightarrow> b \<in> pend c"
  unfolding pend_def by blast

lemma pendE:
  assumes "b \<in> pend c" obtains state target where "(b, state, target) \<in> set (cx_branches c)" "waiting state"
  using assms unfolding pend_def by blast

lemma has_pending_pend: "has_pending c \<longleftrightarrow> pend c \<noteq> {}"
  unfolding has_pending_iff using pend_iff [of _ c] by blast

lemma pend_fields [simp]:
  "pend (c\<lparr>cx_queued := q\<rparr>) = pend c" "pend (c\<lparr>cx_answered := a\<rparr>) = pend c" "pend (c\<lparr>cx_finished := f\<rparr>) = pend c"
  "pend (c\<lparr>cx_finals := fs\<rparr>) = pend c" "pend (c\<lparr>cx_awaiting_verdict := w\<rparr>) = pend c" "pend (c\<lparr>cx_request := r\<rparr>) = pend c"
  "pend (c\<lparr>cx_validated := v\<rparr>) = pend c" "pend (c\<lparr>cx_tokens := ts\<rparr>) = pend c"
  by (simp_all add: pend_def)

lemma pend_update:
  assumes "\<And>bid state. waiting (f bid state) \<Longrightarrow> bid \<in> X \<Longrightarrow> waiting state \<or> bid \<in> pend c" "\<And>bid state. waiting (f bid state) \<Longrightarrow> bid \<in> X"
  shows "pend (update_branches f c) \<subseteq> pend c \<inter> X"
proof
  fix b assume "b \<in> pend (update_branches f c)"
  then obtain x where x: "x \<in> set (cx_branches (update_branches f c))" "fst x = b" "waiting (fst (snd x))" unfolding pend_iff by blast
  then obtain bid state target where "(bid, state, target) \<in> set (cx_branches c)" "x = (bid, f bid state, target)"
    by (auto simp del: spine_fields)
  with x assms [of bid state] show "b \<in> pend c \<inter> X" by (auto intro: pendI)
qed

lemma pend_mono: "(\<And>bid state. waiting (f bid state) \<Longrightarrow> waiting state \<or> bid \<in> pend c) \<Longrightarrow> pend (update_branches f c) \<subseteq> pend c"
  using pend_update [of f UNIV c] by auto

lemma pend_conclude: "pend (conclude_branch b status c) \<subseteq> pend c - {b}"
  unfolding conclude_branch_def by (rule order.trans [OF pend_update [of _ "- {b}"]]) (auto split: if_splits)

lemma pend_cancel_pending: "pend (fst (cancel_pending c)) \<subseteq> pend c"
proof -
  have "bid \<in> pend c" if "bid \<in> set (pending_branch_ids c)" for bid
    using that by (auto simp: pending_branch_ids_def intro: pendI)
  then show ?thesis unfolding cancel_pending_def Let_def fst_conv by (intro pend_mono) (auto split: if_splits)
qed

lemma pend_finish [simp]: "pend (fst (finish_if_settled c)) = pend c" "pend (fst (terminate c)) = pend c"
  "pend (fst (respond_and_finish K c request status reason)) = pend c" "pend (conclude_target_set c) = pend c"
  by (simp_all add: finish_if_settled_def terminate_def respond_and_finish_def conclude_target_set_def Let_def split: option.split)

lemma pend_refuse [simp]: "pend (fst (Context.refuse K c request refusal)) = pend c"
  by (simp add: Context.refuse_def Let_def split: option.split)

lemma pend_select: "pend (fst (select_and_answer K c request)) \<subseteq> pend c"
  using pend_cancel_pending [of "c\<lparr>cx_answered := True\<rparr>"]
  by (simp add: select_and_answer_def Let_def split_def split: option.split)

lemma pend_append:
  assumes "cx_branches c' = cx_branches c @ new" "forwards_of es = map (\<lambda>(bid, _, target). (bid, target)) new"
  shows "pend c' \<subseteq> pend c \<union> fwd es"
proof
  fix b assume "b \<in> pend c'"
  then obtain x where x: "x \<in> set (cx_branches c @ new)" "fst x = b" "waiting (fst (snd x))" unfolding pend_iff assms(1) by blast
  moreover have "x \<in> set new \<Longrightarrow> b \<in> fwd es" using x(2) by (force simp: fwd_def assms(2) split_def)
  ultimately show "b \<in> pend c \<union> fwd es" unfolding Un_iff pend_iff by auto
qed

lemma fork_eq:
  assumes "cx_request c = Some request" "cx_validated c = Some v" "cx_queued c \<noteq> []"
    and "n = group_size (va_max_breadth v) (cx_queued c)"
    and "launch K M (cx_config c) request v (u32_of_usize (length (take n (cx_queued c)))) (cx_tokens c)
      (length (cx_branches c)) (take n (cx_queued c)) = (es, new)"
    and "c' = c\<lparr>cx_queued := drop n (cx_queued c), cx_branches := cx_branches c @ new\<rparr>"
  shows "fork_next_group K M c = (if cx_branches c' = [] \<and> cx_queued c' = []
      then respond_and_finish K c' request 480 ''Temporarily Unavailable'' else (c', es))"
  using assms by (simp add: fork_next_group_def Let_def)

lemma pend_fork: "pend (fst (fork_next_group K M c)) \<subseteq> pend c \<union> fwd (snd (fork_next_group K M c))"
proof (cases "cx_request c = None \<or> cx_validated c = None \<or> cx_queued c = []")
  case True
  then show ?thesis by (auto simp: fork_next_group_def split: option.split)
next
  case False
  then obtain request v where q: "cx_request c = Some request" "cx_validated c = Some v" "cx_queued c \<noteq> []" by auto
  let ?n = "group_size (va_max_breadth v) (cx_queued c)"
  let ?group = "take ?n (cx_queued c)"
  obtain es new where l: "launch K M (cx_config c) request v (u32_of_usize (length ?group)) (cx_tokens c)
      (length (cx_branches c)) ?group = (es, new)" by (rule prod.exhaust)
  let ?c = "c\<lparr>cx_queued := drop ?n (cx_queued c), cx_branches := cx_branches c @ new\<rparr>"
  have fork: "fork_next_group K M c = (if cx_branches ?c = [] \<and> cx_queued ?c = []
      then respond_and_finish K ?c request 480 ''Temporarily Unavailable'' else (?c, es))"
    by (rule fork_eq [OF q refl l refl])
  have "pend ?c \<subseteq> pend c \<union> fwd es" using launch_spec [OF l] by (intro pend_append [where new = new]) simp_all
  moreover have none: "pend (c\<lparr>cx_queued := qs, cx_branches := []\<rparr>) = {}" for qs by (simp add: pend_def)
  ultimately show ?thesis by (simp add: fork)
qed

lemma pend_continue: "pend (fst (continue_selection K M c request)) \<subseteq> pend c \<union> fwd (snd (continue_selection K M c request))"
  using pend_fork [of K M c] pend_select [of K c request] by (auto simp: continue_selection_def)

lemma pend_failure:
  assumes "cx_request c \<noteq> None"
  shows "pend (fst (on_branch_failure K M c b)) \<subseteq> (pend c - {b}) \<union> fwd (snd (on_branch_failure K M c b))"
proof -
  from assms obtain request where r: "cx_request c = Some request" by blast
  show ?thesis
  proof (cases "knows_branch c b")
    case False
    then have "b \<notin> pend c" by (auto simp: knows_branch_def pend_def list_ex_iff)
    with False r show ?thesis by (auto simp: on_branch_failure_def)
  next
    case True
    let ?c = "conclude_branch b 503 c"
    let ?c = "case build_response K request 503 ''Service Unavailable'' of
      Some response \<Rightarrow> ?c\<lparr>cx_finals := cx_finals ?c @ [response]\<rparr> | None \<Rightarrow> ?c"
    have "pend ?c = pend (conclude_branch b 503 c)" by (simp split: option.split)
    moreover have "on_branch_failure K M c b = continue_selection K M ?c request"
      using True r by (simp add: on_branch_failure_def Let_def)
    ultimately show ?thesis using pend_continue [of K M ?c request] pend_conclude [of b 503 c] by auto
  qed
qed

lemma release_waits:
  "foldl (\<lambda>release (bid, state, _). if bid = b then (case state of Pending _ queued \<Rightarrow> queued | _ \<Rightarrow> release) else release) r bs
    \<Longrightarrow> r \<or> (\<exists>saw target. (b, Pending saw True, target) \<in> set bs)"
proof (induction bs arbitrary: r)
  case (Cons x bs)
  obtain bid state target where x: "x = (bid, state, target)" by (cases x)
  show ?case
    using Cons.IH [of "if bid = b then (case state of Pending _ queued \<Rightarrow> queued | _ \<Rightarrow> r) else r"] Cons.prems x
    by (cases state) (auto split: if_splits)
qed simp

lemma pend_provisional: "pend (fst (on_provisional K c request response b)) \<subseteq> pend c"
proof -
  obtain c1 release where m: "mark_provisional b c = (c1, release)" by (rule prod.exhaust)
  have c1: "c1 = update_branches (\<lambda>bid state. if bid = b then (case state of Pending _ _ \<Rightarrow> Pending True False | _ \<Rightarrow> state) else state) c"
    using m by (simp add: mark_provisional_def)
  have keep: "pend c1 \<subseteq> pend c"
    unfolding c1 by (rule pend_mono) (auto split: if_splits branch_state.splits)
  have "b \<in> pend c1" if release
  proof -
    from that m release_waits [of b False "cx_branches c"] obtain saw target where "(b, Pending saw True, target) \<in> set (cx_branches c)"
      by (auto simp: mark_provisional_def)
    then have "(b, Pending True False, target) \<in> set (cx_branches c1)" by (force simp: c1)
    then show ?thesis by (rule pendI) simp
  qed
  then have "pend (set_cancelling b c1) \<subseteq> pend c1" if release
    using that unfolding set_cancelling_def by (intro pend_mono) (auto split: if_splits)
  with keep m show ?thesis by (auto simp: on_provisional_def Let_def)
qed

lemma pend_response:
  assumes "cx_request c \<noteq> None"
  shows "pend (fst (on_branch_response K M c response b)) \<subseteq> pend c \<union> fwd (snd (on_branch_response K M c response b))"
proof -
  from assms obtain request where r: "cx_request c = Some request" by blast
  let ?c = "conclude_branch b (resp_status K response) c"
  have less: "pend ?c \<subseteq> pend c" using pend_conclude by blast
  note cancels = pend_cancel_pending [of "conclude_target_set (?c\<lparr>cx_answered := True\<rparr>)"]
    pend_cancel_pending [of "conclude_target_set (?c\<lparr>cx_finals := cx_finals ?c @ [response], cx_answered := True\<rparr>)"]
  show ?thesis
    using less cancels pend_provisional [of K c request response b] pend_failure [OF assms, of K M b]
      pend_continue [of K M "?c\<lparr>cx_finals := cx_finals ?c @ [response]\<rparr>" request]
    by (auto simp: on_branch_response_def r Let_def split_def)
qed

section \<open>What a branch's input does\<close>

definition from_branch :: "branch_id \<Rightarrow> ('req, 'resp) input \<Rightarrow> bool" where
  "from_branch b input \<longleftrightarrow> input = BranchTransportError b \<or> (\<exists>response. input = BranchResponse response b)"

lemma step_steps:
  assumes "from_branch b input"
  shows "cx_finished c \<and> on_input K M c input = (c, []) \<or> \<not> cx_finished c \<and> quiet_or_forks c (on_input K M c input)"
  using assms failure_steps [of c K M b] response_steps [of c K M _ b] by (auto simp: from_branch_def on_input_def)

lemma step_questions:
  assumes "from_branch b input" "e \<in> set (snd (on_input K M c input))"
  shows "effect_kind e \<notin> {KVerifyToken, KResolveTargets}"
  using step_steps [OF assms(1), of c K M] assms(2) quiet_questions [of c "on_input K M c input"] forks_questions [of _ "on_input K M c input"]
  unfolding quiet_or_forks_def by fastforce

lemma step_queue:
  assumes "from_branch b input" "on_input K M c input = (c', out)"
  shows "length (forwards_of out) + length (cx_queued c') \<le> length (cx_queued c)"
proof -
  have quiet: "length (forwards_of (snd h)) + length (cx_queued (fst h)) \<le> length (cx_queued c)" if "quiet c h" for h
    using that quiet_no_forwards [OF that] by (auto simp: quiet_def)
  have forks: "length (forwards_of (snd h)) + length (cx_queued (fst h)) \<le> length (cx_queued c1)" if "forks c1 h" for c1 h
    using forks_spine(2) [OF that] list_emb_length by fastforce
  show ?thesis
    using step_steps [OF assms(1), of c K M] assms(2) quiet [of "(c', out)"] forks [of _ "(c', out)"] quiet [of "(_, [])"]
    unfolding quiet_or_forks_def by fastforce
qed

lemma step_pend:
  assumes "from_branch b input" "on_input K M c input = (c', out)" "cx_finished c \<or> cx_request c \<noteq> None"
  shows "pend c' \<subseteq> pend c \<union> fwd out"
    and "\<not> cx_finished c \<Longrightarrow> input = BranchTransportError b \<Longrightarrow> pend c' \<subseteq> (pend c - {b}) \<union> fwd out"
proof -
  have failure: "\<not> cx_finished c \<Longrightarrow> input = BranchTransportError b \<Longrightarrow> pend c' \<subseteq> (pend c - {b}) \<union> fwd out"
    using assms(2,3) pend_failure [of c K M b] by (simp add: on_input_def)
  have "\<not> cx_finished c \<Longrightarrow> input = BranchResponse response b \<Longrightarrow> pend c' \<subseteq> pend c \<union> fwd out" for response
    using assms(2,3) pend_response [of c K M response b] by (simp add: on_input_def)
  with failure assms(1,2) show "pend c' \<subseteq> pend c \<union> fwd out" by (cases "cx_finished c") (auto simp: from_branch_def on_input_def)
  show "\<not> cx_finished c \<Longrightarrow> input = BranchTransportError b \<Longrightarrow> pend c' \<subseteq> (pend c - {b}) \<union> fwd out" by (rule failure)
qed

lemma step_finished: "on_input K M c input = (c', out) \<Longrightarrow> cx_finished c \<Longrightarrow> c' = c \<and> out = []"
  by (simp add: on_input_def)

lemma fwd_simps [simp]:
  "fwd [] = {}" "fwd (e # es) = (if effect_kind e = KForward then insert (the (effect_branch e)) (fwd es) else fwd es)"
  by (simp add: fwd_def) (cases e; simp add: fwd_def)

section \<open>Performing a round of effects\<close>

definition covers :: "branch_id set \<Rightarrow> ('req, 'resp, 'w) serving \<Rightarrow> bool" where
  "covers F sv \<longleftrightarrow> cx_finished (sv_context sv) \<or> pend (sv_context sv) \<subseteq> set (sv_watched sv) \<union> F"

definition never_refuses :: "('w, 's, 'req, 'resp) node_world \<Rightarrow> bool" where
  "never_refuses W \<longleftrightarrow> (\<forall>w r. fst (nw_respond W w r)) \<and> (\<forall>w r d. fst (nw_send W w r d))"

lemma outward:
  assumes "settling_input K unicode st W tenant w e = None" "perform_outward K W e sv = (ok, sv')"
  shows "sv_context sv' = sv_context sv" "ok \<Longrightarrow> set (sv_watched sv') = set (sv_watched sv) \<union> fwd [e]"
    "never_refuses W \<Longrightarrow> ok"
proof -
  show "sv_context sv' = sv_context sv" "ok \<Longrightarrow> set (sv_watched sv') = set (sv_watched sv) \<union> fwd [e]"
    using assms by (cases e; auto simp: settling_input_def perform_outward_def split: option.splits prod.splits bool.splits)+
  show ok if "never_refuses W"
  proof -
    from that have "nw_send W w' r d = (ok', w1) \<Longrightarrow> ok'" "nw_respond W w' resp = (ok', w1) \<Longrightarrow> ok'" for w' r d resp ok' w1
      unfolding never_refuses_def by (metis fst_conv)+
    with assms(2) show ?thesis
      by (cases e) (auto simp: perform_outward_def split: option.splits prod.splits bool.splits)
  qed
qed

lemma settled_by:
  assumes "settling_input K unicode st W tenant w e = Some input" "effect_kind e \<notin> {KVerifyToken, KResolveTargets}"
  obtains b where "input = BranchTransportError b" "fwd [e] = {b}" "effect_kind e = KForward"
  using assms by (cases e) (auto simp: settling_input_def split: option.splits)

text \<open>What the driver relies on: a predicate of the context that a branch's input keeps, and that implies the
  request is known.\<close>

locale branch_driver =
  fixes K :: "('u, 'req, 'addr, 'hdr, 'via, 'resp, 'x) message_kernel_scheme" and M :: mac_kernel
    and I :: "('req, 'resp) response_context \<Rightarrow> bool"
  assumes kept: "I c \<Longrightarrow> from_branch b input \<Longrightarrow> I (fst (on_input K M c input))"
    and known: "I c \<Longrightarrow> cx_finished c \<or> cx_request c \<noteq> None"
begin

lemma perform_round:
  assumes "length (forwards_of es) + length (cx_queued (sv_context sv)) \<le> n"
    and "\<forall>e \<in> set es. effect_kind e \<notin> {KVerifyToken, KResolveTargets}"
    and "I (sv_context sv)" "covers (fwd es \<union> F) sv"
  shows "\<exists>ok sv'. perform K M unicode st W tenant sv es = Some (ok, sv') \<and> I (sv_context sv')
    \<and> length (cx_queued (sv_context sv')) \<le> length (cx_queued (sv_context sv))
    \<and> (ok \<longrightarrow> covers F sv') \<and> (never_refuses W \<longrightarrow> ok)"
  using assms
proof (induction n arbitrary: es sv F rule: less_induct)
  case (less n)
  from less.prems show ?case
  proof (induction es arbitrary: sv)
    case Nil
    then show ?case by (subst perform.simps) auto
  next
    case (Cons e es)
    show ?case
    proof (cases "settling_input K unicode st W tenant (sv_world sv) e")
      case None
      obtain ok sv1 where o: "perform_outward K W e sv = (ok, sv1)" by (rule prod.exhaust)
      note out = outward [OF None o]
      have eq: "perform K M unicode st W tenant sv (e # es) = (if ok then perform K M unicode st W tenant sv1 es else Some (False, sv1))"
        by (subst perform.simps) (simp add: None o)
      show ?thesis
      proof (cases ok)
        case False
        then show ?thesis using eq out Cons.prems(3) by auto
      next
        case True
        have "covers (fwd es \<union> F) sv1"
          using Cons.prems(4) out(1) out(2) [OF True] by (auto simp: covers_def split: if_splits)
        moreover have "length (forwards_of es) + length (cx_queued (sv_context sv1)) \<le> n"
          using Cons.prems(1) by (cases e) (simp_all add: out(1))
        ultimately show ?thesis using Cons.IH [of sv1] Cons.prems(2,3) by (simp add: eq True out(1))
      qed
    next
      case (Some input)
      from settled_by [OF Some] Cons.prems(2) obtain b where b: "input = BranchTransportError b" "fwd [e] = {b}" "effect_kind e = KForward"
        by auto
      obtain c out where s: "on_input K M (sv_context sv) input = (c, out)" by (rule prod.exhaust)
      have fb: "from_branch b input" by (simp add: from_branch_def b(1))
      let ?sv = "sv\<lparr>sv_context := c\<rparr>"
      have len: "length (forwards_of (e # es)) = Suc (length (forwards_of es))" using b(3) by (cases e) simp_all
      have q: "length (forwards_of out) + length (cx_queued c) \<le> length (cx_queued (sv_context sv))"
        by (rule step_queue [OF fb s])
      have Ic: "I c" using kept [OF Cons.prems(3) fb] s by simp
      have "covers (fwd out \<union> (fwd es \<union> F)) ?sv"
      proof (cases "cx_finished (sv_context sv)")
        case True
        with step_finished [OF s True] show ?thesis by (simp add: covers_def)
      next
        case False
        with known [OF Cons.prems(3)] step_pend(2) [OF fb s _ False b(1)] Cons.prems(4) b(2,3)
        show ?thesis by (auto simp: covers_def split: if_splits)
      qed
      moreover have "\<forall>e \<in> set out. effect_kind e \<notin> {KVerifyToken, KResolveTargets}"
        using step_questions [OF fb, of _ K M "sv_context sv"] s by simp
      moreover have "length (forwards_of out) + length (cx_queued (sv_context ?sv)) < n" using q len Cons.prems(1) by simp
      ultimately obtain ok sv1 where one: "perform K M unicode st W tenant ?sv out = Some (ok, sv1)" "I (sv_context sv1)"
          "length (cx_queued (sv_context sv1)) \<le> length (cx_queued c)" "ok \<longrightarrow> covers (fwd es \<union> F) sv1" "never_refuses W \<longrightarrow> ok"
        using less.IH [of "length (forwards_of out) + length (cx_queued (sv_context ?sv))" out ?sv "fwd es \<union> F"] Ic by auto
      have eq: "perform K M unicode st W tenant sv (e # es) = (if ok then perform K M unicode st W tenant sv1 es else Some (False, sv1))"
        by (subst perform.simps) (simp add: Some s one(1))
      show ?thesis
      proof (cases ok)
        case False
        then show ?thesis using eq one q by auto
      next
        case True
        have "length (forwards_of es) + length (cx_queued (sv_context sv1)) \<le> n" using one(3) q len Cons.prems(1) by simp
        then show ?thesis using Cons.IH [of sv1] Cons.prems(2) one q by (simp add: eq True) (metis order.trans add_leE)
      qed
    qed
  qed
qed

end

section \<open>What stays true of the context\<close>

text \<open>The targets a request that arrives in the world \<open>w\<close> is offered: the one it names itself, in a dialog
  or with a route set of its own, or those its address of record resolves to.\<close>

definition offered_targets ::
  "('u, 'req, 'addr, 'hdr, 'via, 'resp, 'x) message_kernel_scheme \<Rightarrow> (bytes \<Rightarrow> string) \<Rightarrow> 's location_store
    \<Rightarrow> ('w, 's, 'req, 'resp) node_world \<Rightarrow> string \<Rightarrow> proxy_config \<Rightarrow> 'w \<Rightarrow> 'req \<Rightarrow> proxy_target list" where
  "offered_targets K unicode st W tenant config w request =
    (let r = fst (preprocess K request config) in
     if is_in_dialog K r \<or> route_set_survived K r then [predetermined_target K r]
     else case resolve_query K unicode st tenant (nw_now W w) (nw_store W w) (aor_query K r) :: ('req, 'resp) input of
         TargetsResolved targets \<Rightarrow> targets
       | _ \<Rightarrow> [])"

text \<open>A target of the request whose copy \<^verbatim>\<open>forward\<close> refuses to make: the one way a group of targets
  forwards nothing.\<close>

definition uncopyable ::
  "('u, 'req, 'addr, 'hdr, 'via, 'resp, 'x) message_kernel_scheme \<Rightarrow> mac_kernel \<Rightarrow> proxy_config \<Rightarrow> 'req \<Rightarrow> proxy_target \<Rightarrow> bool" where
  "uncopyable K M config request target \<longleftrightarrow>
    (\<exists>v index par error. validate K M request config = Inr v
      \<and> forward K M \<lparr>fp_original = fst (preprocess K request config), fp_validated = v, fp_target = target, fp_index = index,
          fp_parallel_branches = par, fp_record_route = is_dialog_forming K (fst (preprocess K request config)), fp_tokens = None\<rparr>
          config = Inl error)"

text \<open>The context holds the request as it was preprocessed, and queues only targets it was offered.\<close>

definition wanted ::
  "('u, 'req, 'addr, 'hdr, 'via, 'resp, 'x) message_kernel_scheme \<Rightarrow> mac_kernel \<Rightarrow> proxy_config \<Rightarrow> 'req \<Rightarrow> proxy_target set
    \<Rightarrow> ('req, 'resp) response_context \<Rightarrow> bool" where
  "wanted K M config request T c \<longleftrightarrow> cx_config c = config \<and> cx_request c = Some (fst (preprocess K request config))
    \<and> (\<exists>v. validate K M request config = Inr v \<and> cx_validated c = Some v) \<and> set (cx_queued c) \<subseteq> T"

definition concluding ::
  "('u, 'req, 'addr, 'hdr, 'via, 'resp, 'x) message_kernel_scheme \<Rightarrow> mac_kernel \<Rightarrow> proxy_config \<Rightarrow> 'req \<Rightarrow> proxy_target set
    \<Rightarrow> ('req, 'resp) response_context \<Rightarrow> bool" where
  "concluding K M config request T c \<longleftrightarrow> cx_tokens c = None
    \<and> ((\<exists>t \<in> T. uncopyable K M config request t) \<or> settled c \<and> (cx_finished c \<or> wanted K M config request T c))"

lemma wanted_step:
  assumes "wanted K M config request T c" "quiet_or_forks c h"
  shows "wanted K M config request T (fst h)"
proof -
  have "wanted K M config request T (fst h)" if "quiet c h" "wanted K M config request T c" for c h
    using that by (auto simp: wanted_def quiet_def)
  moreover have "wanted K M config request T (fst h)" if "forks c h" "wanted K M config request T c" for c h
    using that set_drop_subset [of _ "cx_queued c"] by (fastforce simp: wanted_def forks_def)
  ultimately show ?thesis using assms unfolding quiet_or_forks_def by (metis fst_conv)
qed

lemma wanted_marks [simp]:
  "wanted K M config request T (conclude_branch b status c) = wanted K M config request T c"
  "wanted K M config request T (c\<lparr>cx_finals := fs\<rparr>) = wanted K M config request T c"
  by (simp_all add: wanted_def conclude_branch_def)

definition routed ::
  "('u, 'req, 'addr, 'hdr, 'via, 'resp, 'x) message_kernel_scheme \<Rightarrow> mac_kernel \<Rightarrow> proxy_config \<Rightarrow> 'req \<Rightarrow> proxy_target set
    \<Rightarrow> ('req, 'resp) response_context \<Rightarrow> bool" where
  "routed K M config request T c \<longleftrightarrow> (\<exists>es. driven K M config Routed c es) \<and> concluding K M config request T c"

lemma tokens_simps [simp]:
  "cx_tokens (fst (terminate c)) = cx_tokens c" "cx_tokens (fst (finish_if_settled c)) = cx_tokens c"
  "cx_tokens (fst (respond_and_finish K c request status reason)) = cx_tokens c"
  "cx_tokens (fst (cancel_pending c)) = cx_tokens c" "cx_tokens (conclude_target_set c) = cx_tokens c"
  "cx_tokens (conclude_branch b status c) = cx_tokens c" "cx_tokens (set_cancelling b c) = cx_tokens c"
  "cx_tokens (fst (mark_provisional b c)) = cx_tokens c" "cx_tokens (fst (Context.refuse K c request refusal)) = cx_tokens c"
  by (simp_all add: terminate_def finish_if_settled_def respond_and_finish_def cancel_pending_def conclude_target_set_def
      conclude_branch_def set_cancelling_def mark_provisional_def Context.refuse_def Let_def split: option.split)

lemma tokens_select [simp]: "cx_tokens (fst (select_and_answer K c request)) = cx_tokens c"
  by (simp add: select_and_answer_def Let_def split_def split: option.split)

lemma tokens_fork [simp]: "cx_tokens (fst (fork_next_group K M c)) = cx_tokens c"
proof (cases "cx_request c = None \<or> cx_validated c = None \<or> cx_queued c = []")
  case True
  then show ?thesis by (auto simp: fork_next_group_def split: option.split)
next
  case False
  then obtain request v where q: "cx_request c = Some request" "cx_validated c = Some v" "cx_queued c \<noteq> []" by auto
  let ?n = "group_size (va_max_breadth v) (cx_queued c)"
  obtain es new where "launch K M (cx_config c) request v (u32_of_usize (length (take ?n (cx_queued c)))) (cx_tokens c)
      (length (cx_branches c)) (take ?n (cx_queued c)) = (es, new)" by (rule prod.exhaust)
  from fork_eq [OF q refl this refl] show ?thesis by simp
qed

lemma tokens_continue [simp]: "cx_tokens (fst (continue_selection K M c request)) = cx_tokens c"
  by (simp add: continue_selection_def)

lemma tokens_failure [simp]: "cx_tokens (fst (on_branch_failure K M c b)) = cx_tokens c"
  by (simp add: on_branch_failure_def Let_def split: option.split)

lemma tokens_response [simp]: "cx_tokens (fst (on_branch_response K M c response b)) = cx_tokens c"
  by (simp add: on_branch_response_def on_provisional_def Let_def split_def split: option.split)

lemma launch_total:
  assumes "\<And>t index. t \<in> set targets \<Longrightarrow> \<exists>copy. forward K M \<lparr>fp_original = request, fp_validated = v, fp_target = t, fp_index = index,
      fp_parallel_branches = par, fp_record_route = is_dialog_forming K request, fp_tokens = None\<rparr> config = Inr copy"
  shows "length (snd (launch K M config request v par None index targets)) = length targets"
  using assms
proof (induction targets arbitrary: index)
  case (Cons t ts)
  from Cons.prems [of t index] obtain copy where "forward K M \<lparr>fp_original = request, fp_validated = v, fp_target = t, fp_index = index,
      fp_parallel_branches = par, fp_record_route = is_dialog_forming K request, fp_tokens = None\<rparr> config = Inr copy" by auto
  with Cons.IH [of "Suc index"] Cons.prems show ?case by (simp add: Let_def split_def)
qed simp

text \<open>Where every target offered can be copied, a handler that goes on with the queue leaves the context settled.\<close>

lemma fork_settled:
  assumes "\<forall>t \<in> T. \<not> uncopyable K M config request t" "wanted K M config request T c" "cx_tokens c = None" "cx_queued c \<noteq> []"
  shows "settled (fst (fork_next_group K M c))"
proof -
  let ?r = "fst (preprocess K request config)"
  from assms(2) obtain v where r: "cx_request c = Some ?r" "cx_validated c = Some v" and v: "validate K M request config = Inr v"
    and config: "cx_config c = config" and offered: "set (cx_queued c) \<subseteq> T" by (auto simp: wanted_def)
  let ?n = "group_size (va_max_breadth v) (cx_queued c)"
  let ?par = "u32_of_usize (length (take ?n (cx_queued c)))"
  obtain es new where l: "launch K M (cx_config c) ?r v ?par (cx_tokens c) (length (cx_branches c)) (take ?n (cx_queued c)) = (es, new)"
    by (rule prod.exhaust)
  have "\<exists>copy. forward K M \<lparr>fp_original = ?r, fp_validated = v, fp_target = t, fp_index = index, fp_parallel_branches = ?par,
      fp_record_route = is_dialog_forming K ?r, fp_tokens = None\<rparr> config = Inr copy"
    if "t \<in> set (take ?n (cx_queued c))" for t index
  proof -
    have "\<not> uncopyable K M config request t" using assms(1) offered that in_set_takeD by fastforce
    with v show ?thesis unfolding uncopyable_def by (metis sum.exhaust)
  qed
  then have "length new = length (take ?n (cx_queued c))"
    using launch_total [of "take ?n (cx_queued c)" K M ?r v ?par config "length (cx_branches c)"] l assms(3) config by simp
  then have "new \<noteq> []" using group_size_bounds [OF assms(4), of "va_max_breadth v"] assms(4) by auto
  moreover have "\<forall>b \<in> set new. fst (snd b) = Pending False False" using launch_spec [OF l] by blast
  ultimately have "has_pending (c\<lparr>cx_queued := drop ?n (cx_queued c), cx_branches := cx_branches c @ new\<rparr>)"
    unfolding has_pending_iff by (cases new) auto
  with fork_eq [OF r assms(4) refl l refl] \<open>new \<noteq> []\<close> show ?thesis by (simp add: settled_def)
qed

lemma continue_concludes:
  assumes "\<forall>t \<in> T. \<not> uncopyable K M config request t" "wanted K M config request T c" "cx_tokens c = None"
  shows "settled (fst (continue_selection K M c r))"
proof -
  have "settled (fst (select_and_answer K c r))" if "\<not> has_pending c" "\<not> may_fork_next_group c"
    using that by (auto simp: select_and_answer_def finish_if_settled_def settled_def respond_and_finish_def Let_def split_def
        cancel_pending_def split: option.split)
  with fork_settled [OF assms] show ?thesis
    by (auto simp: continue_selection_def may_fork_next_group_def settled_def [of c])
qed

lemma failure_concludes:
  assumes "\<forall>t \<in> T. \<not> uncopyable K M config request t" "wanted K M config request T c" "cx_tokens c = None" "settled c"
  shows "settled (fst (on_branch_failure K M c b))"
proof -
  from assms(2) obtain r where "cx_request c = Some r" by (auto simp: wanted_def)
  then show ?thesis
    using assms(4) by (auto simp: on_branch_failure_def Let_def intro!: continue_concludes [OF assms(1)] assms(2,3) split: option.split)
qed

lemma response_concludes:
  assumes "\<forall>t \<in> T. \<not> uncopyable K M config request t" "wanted K M config request T c" "cx_tokens c = None" "settled c"
  shows "settled (fst (on_branch_response K M c response b))"
proof -
  from assms(2) obtain r where r: "cx_request c = Some r" by (auto simp: wanted_def)
  let ?c = "conclude_branch b (resp_status K response) c"
  have "settled (fst (continue_selection K M (?c\<lparr>cx_finals := cx_finals ?c @ [response]\<rparr>) r))"
    by (rule continue_concludes [OF assms(1)]) (simp_all add: assms)
  moreover have "settled (fst (cancel_pending (conclude_target_set (?c\<lparr>cx_answered := True\<rparr>))))"
    "settled (fst (finish_if_settled (fst (cancel_pending (conclude_target_set (?c\<lparr>cx_finals := cx_finals ?c @ [response], cx_answered := True\<rparr>))))))"
    by (simp_all add: finish_if_settled_def cancel_pending_def conclude_target_set_def settled_def Let_def)
  ultimately show ?thesis
    using r assms(4) failure_concludes [OF assms, of b] provisional_settled [OF assms(4), of K r response b]
    by (simp add: on_branch_response_def Let_def split_def)
qed

lemma concluding_kept:
  assumes "concluding K M config request T c" "from_branch b input"
  shows "concluding K M config request T (fst (on_input K M c input))"
proof (cases "cx_finished c")
  case True
  with assms(1) show ?thesis by (simp add: on_input_def)
next
  case False
  then have tokens: "cx_tokens (fst (on_input K M c input)) = cx_tokens c" using assms(2) by (auto simp: from_branch_def on_input_def)
  show ?thesis
  proof (cases "\<exists>t \<in> T. uncopyable K M config request t")
    case True
    then show ?thesis using assms(1) tokens by (simp add: concluding_def)
  next
    case total: False
    with assms(1) False have w: "wanted K M config request T c" "settled c" "cx_tokens c = None" by (auto simp: concluding_def)
    have "settled (fst (on_input K M c input))"
      using False assms(2) failure_concludes [OF _ w(1,3,2), of b] response_concludes [OF _ w(1,3,2), of _ b] total
      by (auto simp: from_branch_def on_input_def)
    with wanted_step [OF w(1)] step_steps [OF assms(2), of c K M] False tokens w(3) show ?thesis
      by (auto simp: concluding_def)
  qed
qed

lemma routed_kept:
  assumes "routed K M config request T c" "from_branch b input"
  shows "routed K M config request T (fst (on_input K M c input))"
proof -
  obtain c' out where s: "on_input K M c input = (c', out)" by (rule prod.exhaust)
  from assms(1) obtain es where d: "driven K M config Routed c es" by (auto simp: routed_def)
  have "answers Routed input" "\<not> settles_question input" using assms(2) by (auto simp: from_branch_def)
  moreover have "\<forall>e \<in> set out. effect_kind e \<notin> {KVerifyToken, KResolveTargets}"
    using step_questions [OF assms(2), of _ K M c] s by simp
  ultimately have "driven K M config Routed c' (es @ out)"
    using fed [OF d _ s] no_questions [of out Routed input] by simp
  then show ?thesis using s assms(1) concluding_kept [OF _ assms(2), of K M config request T c] by (auto simp: routed_def)
qed

lemma routed_known: "routed K M config request T c \<Longrightarrow> cx_finished c \<or> cx_request c \<noteq> None"
  using driven_inv by (fastforce simp: routed_def run_inv_def)

interpretation node: branch_driver K M "routed K M config request T" for K M config request T
  by unfold_locales (erule (1) routed_kept, erule routed_known)

section \<open>One proxied arrival\<close>

lemma perform_asks:
  assumes "settling_input K unicode st W tenant (sv_world sv) e = Some input" "on_input K M (sv_context sv) input = (c, out)"
  shows "perform K M unicode st W tenant sv [e] = perform K M unicode st W tenant (sv\<lparr>sv_context := c\<rparr>) out"
proof -
  have "perform K M unicode st W tenant sv [] = Some (True, sv)" for sv by (subst perform.simps) simp
  then show ?thesis
    by (subst perform.simps)
      (cases "perform K M unicode st W tenant (sv\<lparr>sv_context := c\<rparr>) out"; auto simp: assms)
qed

lemma wanted_fork:
  assumes "wanted K M config request T c"
  shows "wanted K M config request T (fst (fork_next_group K M c))"
proof (cases rule: fork_cases [of c K M])
  case quiet
  then show ?thesis using wanted_step [OF assms] by (simp add: quiet_or_forks_def)
next
  case forks
  then show ?thesis using assms set_drop_subset [of _ "cx_queued c"] by (fastforce simp: wanted_def forks_def)
qed

lemma targets_routed:
  assumes "driven K M config Resolving c es" "\<not> cx_finished c" "cx_tokens c = None"
    and "wanted K M config request T c"
    and "input = TargetsUnavailable \<or> (\<exists>targets. input = TargetsResolved targets \<and> set targets \<subseteq> T)" "on_input K M c input = (c', out)"
  shows "routed K M config request T c'" "\<forall>e \<in> set out. effect_kind e \<notin> {KVerifyToken, KResolveTargets}" "pend c' \<subseteq> fwd out"
proof -
  let ?r = "fst (preprocess K request config)"
  have inv: "cx_branches c = []" using driven_inv [OF assms(1)] assms(2) by (auto simp: run_inv_def)
  from assms(4) have r: "cx_request c = Some ?r" by (auto simp: wanted_def)
  have step: "input = TargetsUnavailable \<and> respond_and_finish K c ?r 503 ''Service Unavailable'' = (c', out)
      \<or> (\<exists>targets. input = TargetsResolved targets \<and> set targets \<subseteq> T \<and> on_targets K M c targets = (c', out))"
    using assms(2,5,6) r by (auto simp: on_input_def on_targets_unavailable_def)
  have finishes: "cx_finished (fst (respond_and_finish K c ?r status reason))" for status reason
    by (simp add: respond_and_finish_def Let_def split: option.split)
  have tokens: "cx_tokens (fst (on_targets K M c targets)) = None" for targets by (simp add: on_targets_def r assms(3))
  have "concluding K M config request T (fst (on_targets K M c targets))" if "set targets \<subseteq> T" for targets
  proof (cases "targets = []")
    case True
    with finishes tokens [of targets] show ?thesis by (simp add: on_targets_def r settled_def concluding_def)
  next
    case False
    let ?c = "c\<lparr>cx_queued := sort_by prefers targets\<rparr>"
    have w: "wanted K M config request T ?c" using assms(4) that by (simp add: wanted_def)
    have "sort_by prefers targets \<noteq> []" using False by (metis set_empty set_sort_by)
    moreover have "wanted K M config request T (fst (fork_next_group K M ?c)) \<or> cx_finished (fst (fork_next_group K M ?c))"
      using wanted_fork [OF w] by blast
    ultimately show ?thesis
      using False tokens [of targets] fork_settled [OF _ w] assms(3) by (auto simp: on_targets_def r concluding_def)
  qed
  moreover have "concluding K M config request T (fst (respond_and_finish K c ?r status reason))" for status reason
    using finishes tokens_simps(3) [of K c ?r status reason] assms(3) by (simp add: concluding_def settled_def)
  ultimately have "concluding K M config request T c'" using step by (metis fst_conv)
  moreover have noq: "\<forall>e \<in> set out. effect_kind e \<notin> {KVerifyToken, KResolveTargets}"
    using step targets_questions [of K M c] quiet_questions [OF quiet_respond [of c K ?r 503 "''Service Unavailable''"]] by (metis snd_conv)
  moreover have "answers Resolving input" "settles_question input" using assms(5) by auto
  ultimately show "routed K M config request T c'"
    using fed [OF assms(1) _ assms(6)] no_questions [OF noq, of Resolving input] by (auto simp: routed_def)
  show "\<forall>e \<in> set out. effect_kind e \<notin> {KVerifyToken, KResolveTargets}" by (rule noq)
  have none: "pend c = {}" by (simp add: pend_def inv)
  have "pend (fst (on_targets K M c targets)) \<subseteq> fwd (snd (on_targets K M c targets))" for targets
    using pend_fork [of K M "c\<lparr>cx_queued := sort_by prefers targets\<rparr>"] none by (simp add: on_targets_def r)
  then show "pend c' \<subseteq> fwd out" using step none pend_finish(3) [of K c ?r] by (metis empty_subsetI fst_conv snd_conv)
qed

lemma token_routed:
  assumes "driven K M config Verifying c es" "\<not> cx_finished c" "cx_tokens c = None"
    and "on_input K M c (TokenFact InvalidToken) = (c', out)"
  shows "routed K M config request T c'" "\<forall>e \<in> set out. effect_kind e \<notin> {KVerifyToken, KResolveTargets}" "pend c' \<subseteq> fwd out"
proof -
  have inv: "cx_branches c = []" "cx_request c \<noteq> None" "cx_awaiting_verdict c"
    using driven_inv [OF assms(1)] assms(2) by (auto simp: run_inv_def)
  then obtain r where r: "cx_request c = Some r" by auto
  let ?c = "c\<lparr>cx_awaiting_verdict := False\<rparr>"
  have step: "respond_and_finish K ?c r 403 ''Forbidden'' = (c', out)"
    using assms(2,4) inv(3) r by (simp add: on_input_def on_token_def reject_token_def)
  have "cx_finished c'" "cx_tokens c' = None"
    using step assms(3) tokens_simps(3) [of K ?c r 403 "''Forbidden''"]
    by (auto simp: respond_and_finish_def Let_def split: option.splits)
  then have "concluding K M config request T c'" by (simp add: concluding_def settled_def)
  moreover show noq: "\<forall>e \<in> set out. effect_kind e \<notin> {KVerifyToken, KResolveTargets}"
    using step quiet_questions [OF quiet_respond [of ?c K r 403 "''Forbidden''"]] by (metis snd_conv)
  ultimately show "routed K M config request T c'"
    using fed [OF assms(1) _ assms(4)] no_questions [OF noq, of Verifying "TokenFact InvalidToken"] by (auto simp: routed_def)
  have "pend c = {}" by (simp add: pend_def inv(1))
  then show "pend c' \<subseteq> fwd out"
    using step pend_finish(3) [of K ?c r 403 "''Forbidden''"] by simp
qed

lemma upstream_asks:
  fixes c :: "('req, 'resp) response_context"
  assumes "on_input K M (context_new config) (Upstream request) = (c, out)"
    and "is_in_dialog K (fst (preprocess K request config)) \<or> route_set_survived K (fst (preprocess K request config))
      \<longrightarrow> predetermined_target K (fst (preprocess K request config)) \<in> T"
  obtains (routed) "\<forall>e \<in> set out. effect_kind e \<notin> {KVerifyToken, KResolveTargets}" "routed K M config request T c" "pend c \<subseteq> fwd out"
  | (verify) token partner where "out = [VerifyToken token partner]" "driven K M config Verifying c out" "cx_tokens c = None"
      "\<not> cx_finished c"
  | (resolve) "out = [ResolveTargets (aor_query K (fst (preprocess K request config)))]" "driven K M config Resolving c out"
      "cx_tokens c = None" "\<not> cx_finished c" "wanted K M config request T c"
      "\<not> (is_in_dialog K (fst (preprocess K request config)) \<or> route_set_survived K (fst (preprocess K request config)))"
proof -
  let ?c0 = "context_new config :: ('req, 'resp) response_context"
  have new: "\<not> cx_finished ?c0" "cx_tokens ?c0 = None" "cx_config ?c0 = config" "pend ?c0 = {}" "cx_branches ?c0 = []"
    by (simp_all add: context_new_def pend_def)
  from assms(1) new(1) have up: "on_upstream K M ?c0 request = (c, out)" by (simp add: on_input_def)
  have d: "driven K M config (next_phase Arriving (Upstream request) out) c out"
    using fed [OF created _ assms(1)] by simp
  show thesis
  proof (cases "validate K M request config")
    case (Inl refusal)
    with up new(3) have h: "Context.refuse K ?c0 request refusal = (c, out)" by (simp add: on_upstream_def)
    have q: "\<forall>e \<in> set out. effect_kind e \<notin> {KVerifyToken, KResolveTargets}"
      using quiet_questions [OF quiet_refuse [of ?c0 K request refusal]] h by simp
    moreover have "cx_finished c" using h by (auto simp: Context.refuse_def Let_def split: option.splits)
    moreover have "cx_tokens c = None" "pend c = {}" using h new(2,4) tokens_simps(9) [of K ?c0 request refusal] pend_refuse [of K ?c0 request refusal] by simp_all
    ultimately show thesis using d no_questions [OF q, of Arriving "Upstream request"]
      by (intro routed) (auto simp: routed_def concluding_def settled_def)
  next
    case (Inr v)
    obtain request' carriage where p: "preprocess K request config = (request', carriage)" by (rule prod.exhaust)
    let ?c = "?c0\<lparr>cx_request := Some request', cx_validated := Some v\<rparr>"
    show thesis
    proof (cases carriage)
      case (Some carried)
      with Inr p up new have "c = ?c\<lparr>cx_awaiting_verdict := True\<rparr>" "out = [VerifyToken (tc_token carried) (tc_partner carried)]"
        by (auto simp: on_upstream_def)
      with d new show thesis by (intro verify) (simp_all add: next_phase_def)
    next
      case None
      with Inr p up new have route: "route_it K M ?c = (c, out)" by (simp add: on_upstream_def)
      show thesis
      proof (cases "is_in_dialog K request' \<or> route_set_survived K request'")
        case False
        with route have "c = ?c" "out = [ResolveTargets (aor_query K request')]" by (auto simp: route_it_def)
        with d new False Inr p show thesis by (intro resolve) (simp_all add: next_phase_def wanted_def context_new_def)
      next
        case True
        let ?t = "predetermined_target K request'"
        from True route have h: "fork_next_group K M (?c\<lparr>cx_queued := sort_by prefers [?t]\<rparr>) = (c, out)"
          by (auto simp: route_it_def on_targets_def split: if_splits)
        have w: "wanted K M config request T (?c\<lparr>cx_queued := sort_by prefers [?t]\<rparr>)"
          using True assms(2) Inr p new(3) by (simp add: wanted_def)
        have q: "\<forall>e \<in> set out. effect_kind e \<notin> {KVerifyToken, KResolveTargets}"
          using targets_questions [of K M ?c "[?t]"] h by (simp add: on_targets_def)
        moreover have "sort_by prefers [?t] \<noteq> []" by (metis list.distinct(1) set_empty set_sort_by)
        then have "(\<exists>t \<in> T. uncopyable K M config request t) \<or> settled c \<and> wanted K M config request T c"
          using fork_settled [OF _ w] wanted_fork [OF w] h new by auto
        moreover have "cx_tokens c = None" using tokens_fork [of K M "?c\<lparr>cx_queued := sort_by prefers [?t]\<rparr>"] h new by simp
        moreover have "pend c \<subseteq> fwd out" using pend_fork [of K M "?c\<lparr>cx_queued := sort_by prefers [?t]\<rparr>"] h new by simp
        ultimately show thesis using d no_questions [OF q, of Arriving "Upstream request"]
          by (intro routed) (auto simp: routed_def concluding_def)
      qed
    qed
  qed
qed

text \<open>What holds of a task between two events.\<close>

definition task_inv ::
  "('u, 'req, 'addr, 'hdr, 'via, 'resp, 'x) message_kernel_scheme \<Rightarrow> mac_kernel \<Rightarrow> ('w, 's, 'req, 'resp) node_world \<Rightarrow> proxy_config
    \<Rightarrow> 'req \<Rightarrow> proxy_target set \<Rightarrow> task \<Rightarrow> ('req, 'resp, 'w) serving \<Rightarrow> bool" where
  "task_inv K M W config request T t sv \<longleftrightarrow> routed K M config request T (sv_context sv)
    \<and> (t = Live \<longrightarrow> covers {} sv) \<and> (t = Ended True \<longrightarrow> cx_finished (sv_context sv) \<or> pend (sv_context sv) = {})
    \<and> (never_refuses W \<longrightarrow> t \<noteq> Ended False)"

lemma round:
  assumes "routed K M config request T c" "\<forall>e \<in> set out. effect_kind e \<notin> {KVerifyToken, KResolveTargets}" "cx_finished c \<or> pend c \<subseteq> set ws \<union> fwd out"
  obtains ok sv where "perform K M unicode st W tenant \<lparr>sv_context = c, sv_watched = ws, sv_world = w\<rparr> out = Some (ok, sv)"
    "routed K M config request T (sv_context sv)" "ok \<longrightarrow> covers {} sv" "never_refuses W \<longrightarrow> ok"
  using node.perform_round [where F = "{}" and es = out and sv = "\<lparr>sv_context = c, sv_watched = ws, sv_world = w\<rparr>" and n = "length (forwards_of out) + length (cx_queued c)",
      of K M config request T unicode st W tenant] assms
  by (auto simp: covers_def)

lemma start_inv:
  fixes W :: "('w, 's, 'req, 'resp) node_world"
  assumes "T = set (offered_targets K unicode st W tenant config w request)"
  shows "\<exists>t sv. proxy_start K M unicode st W tenant config w request = Some (t, sv) \<and> task_inv K M W config request T t sv"
proof -
  obtain c out where s: "on_input K M (context_new config) (Upstream request) = (c, out)" by (rule prod.exhaust)
  let ?r = "fst (preprocess K request config)"
  have "is_in_dialog K ?r \<or> route_set_survived K ?r \<longrightarrow> predetermined_target K ?r \<in> T"
    unfolding assms offered_targets_def Let_def by auto
  note asks = upstream_asks [OF s this, case_names routed verify resolve]
  let ?sv = "\<lparr>sv_context = c, sv_watched = [], sv_world = w\<rparr>"
  have "\<exists>ok sv. perform K M unicode st W tenant ?sv out = Some (ok, sv) \<and> routed K M config request T (sv_context sv)
      \<and> (ok \<longrightarrow> covers {} sv) \<and> (never_refuses W \<longrightarrow> ok)"
  proof (cases rule: asks)
    case routed
    then show ?thesis by (elim round [of K M config request T c out "[]"]) auto
  next
    case (verify token partner)
    obtain c1 out1 where s1: "on_input K M c (TokenFact InvalidToken) = (c1, out1)" by (rule prod.exhaust)
    note r = token_routed(1) [OF verify(2,4,3) s1, of request T] token_routed(2,3) [OF verify(2,4,3) s1]
    have "perform K M unicode st W tenant ?sv out = perform K M unicode st W tenant (?sv\<lparr>sv_context := c1\<rparr>) out1"
      unfolding verify(1) using s1 by (intro perform_asks [where input = "TokenFact InvalidToken"]) (simp_all add: settling_input_def)
    with r show ?thesis by (elim round [of K M config request T c1 out1 "[]"]) auto
  next
    case resolve
    let ?i = "resolve_query K unicode st tenant (nw_now W w) (nw_store W w) (aor_query K ?r) :: ('req, 'resp) input"
    obtain c1 out1 where s1: "on_input K M c ?i = (c1, out1)" by (rule prod.exhaust)
    have "?i = TargetsUnavailable \<or> (\<exists>targets. ?i = TargetsResolved targets \<and> set targets \<subseteq> T)"
      using resolve(6) unfolding assms offered_targets_def by (auto simp: resolve_query_def split: sum.split)
    note r = targets_routed [OF resolve(2,4,3,5) this s1]
    have "perform K M unicode st W tenant ?sv out = perform K M unicode st W tenant (?sv\<lparr>sv_context := c1\<rparr>) out1"
      unfolding resolve(1) using perform_asks [of K unicode st W tenant ?sv "ResolveTargets (aor_query K ?r)" ?i M c1 out1] s1 by (simp add: settling_input_def)
    with r show ?thesis by (elim round [of K M config request T c1 out1 "[]"]) auto
  qed
  then obtain ok sv where "perform K M unicode st W tenant ?sv out = Some (ok, sv)" "routed K M config request T (sv_context sv)"
      "ok \<longrightarrow> covers {} sv" "never_refuses W \<longrightarrow> ok" by blast
  then show ?thesis by (cases ok) (simp_all add: proxy_start_def s task_inv_def)
qed

lemma step_inv:
  assumes "task_inv K M W config request T Live sv" "branch \<in> set (sv_watched sv)"
  shows "\<exists>t sv'. proxy_step K M unicode st W tenant request branch event sv = Some (t, sv') \<and> task_inv K M W config request T t sv'"
proof -
  from assms(1) have r: "routed K M config request T (sv_context sv)" and cov: "covers {} sv" by (simp_all add: task_inv_def)
  define sv1 where "sv1 = (case event of None \<Rightarrow> sv\<lparr>sv_watched := remove1 branch (sv_watched sv)\<rparr> | Some _ \<Rightarrow> sv)"
  have same: "sv_context sv1 = sv_context sv" by (simp add: sv1_def split: option.split)
  have watched: "set (sv_watched sv) - (if event = None then {branch} else {}) \<subseteq> set (sv_watched sv1)"
    by (cases event) (auto simp: sv1_def, metis in_set_remove1)
  show ?thesis
  proof (cases "event = None \<and> cx_finished (sv_context sv1)")
    case True
    with r same show ?thesis by (auto simp: proxy_step_def task_inv_def sv1_def)
  next
    case live: False
    show ?thesis
    proof (cases "event_input K request branch event")
      case None
      then have "event \<noteq> None" by (auto simp: event_input_def split: option.splits)
      with None live assms(1) show ?thesis by (auto simp: proxy_step_def sv1_def)
    next
      case (Some input)
      then have fb: "from_branch branch input" and failed: "event = None \<Longrightarrow> input = BranchTransportError branch"
        by (auto simp: event_input_def from_branch_def split: option.splits branch_event.splits)
      obtain c out where s: "on_input K M (sv_context sv1) input = (c, out)" by (rule prod.exhaust)
      have routed: "routed K M config request T c" using routed_kept [OF r fb] s same by simp
      have q: "\<forall>e \<in> set out. effect_kind e \<notin> {KVerifyToken, KResolveTargets}"
        using step_questions [OF fb, of _ K M "sv_context sv1"] s by simp
      have "cx_finished c \<or> pend c \<subseteq> set (sv_watched sv1) \<union> fwd out"
      proof (cases "cx_finished (sv_context sv1)")
        case True
        with step_finished [OF s] show ?thesis by simp
      next
        case False
        then have "pend (sv_context sv1) \<subseteq> set (sv_watched sv)" using cov same by (simp add: covers_def)
        moreover have "cx_finished (sv_context sv1) \<or> cx_request (sv_context sv1) \<noteq> None" using routed_known [OF r] same by simp
        ultimately show ?thesis using step_pend [OF fb s] failed False watched by (cases "event = None") auto
      qed
      then obtain ok sv2 where two: "perform K M unicode st W tenant \<lparr>sv_context = c, sv_watched = sv_watched sv1, sv_world = sv_world sv1\<rparr> out = Some (ok, sv2)"
          "routed K M config request T (sv_context sv2)" "ok \<longrightarrow> covers {} sv2" "never_refuses W \<longrightarrow> ok"
        by (rule round [OF routed q])
      have eq: "sv1\<lparr>sv_context := c\<rparr> = \<lparr>sv_context = c, sv_watched = sv_watched sv1, sv_world = sv_world sv1\<rparr>" by simp
      have "proxy_step K M unicode st W tenant request branch event sv
          = Some (if \<not> ok then Ended False else if cx_finished (sv_context sv2) then Ended True else Live, sv2)"
        using live Some s two(1) [folded eq] by (auto simp add: proxy_step_def sv1_def [symmetric])
      with two(2-4) show ?thesis by (auto simp: task_inv_def)
    qed
  qed
qed

lemma proxying_inv:
  "proxying K M unicode st W tenant config w request t sv \<Longrightarrow>
    task_inv K M W config request (set (offered_targets K unicode st W tenant config w request)) t sv"
proof (induction rule: proxying.induct)
  case (arrives t sv)
  then show ?case using start_inv [OF refl, where K = K and M = M and unicode = unicode and st = st and W = W and tenant = tenant and config = config and w = w and request = request] by auto
next
  case (reads sv branch event t sv')
  then show ?case using step_inv [OF reads.IH reads.hyps(2), of unicode st tenant event] by auto
next
  case (drained sv)
  then show ?case by (auto simp: task_inv_def covers_def)
next
  case (elsewhere t sv w')
  then show ?case by (simp add: task_inv_def covers_def)
qed

section \<open>Properties\<close>

text \<open>C14. A proxied request is concluded.  Whatever its branches answer and in whatever order, the node feeds the
  response context by its protocol, and while the task lives it is reading every branch that is outstanding.  The
  task ends in two ways.  It fails only where the transport refused a message, and then it may leave the caller
  without an answer.  Otherwise, when it returns, the context has terminated or no branch is outstanding; and the
  context has terminated or answered the caller, unless one of the targets this request was offered is one that
  \<^verbatim>\<open>forward\<close> refuses to make a copy for.\<close>

theorem proxied_request_concludes:
  assumes "proxying K M unicode st W tenant config w request t sv"
  shows "(\<exists>es. driven K M config Routed (sv_context sv) es)
    \<and> (t = Live \<longrightarrow> cx_finished (sv_context sv) \<or> pend (sv_context sv) \<subseteq> set (sv_watched sv))
    \<and> (t = Ended False \<longrightarrow> \<not> never_refuses W)
    \<and> (t = Ended True \<longrightarrow> cx_finished (sv_context sv) \<or> \<not> has_pending (sv_context sv))
    \<and> (t = Ended True \<longrightarrow> cx_finished (sv_context sv) \<or> cx_answered (sv_context sv)
        \<or> (\<exists>target \<in> set (offered_targets K unicode st W tenant config w request). uncopyable K M config request target))"
  using proxying_inv [OF assms]
  by (auto simp: task_inv_def routed_def concluding_def covers_def settled_def has_pending_pend)

text \<open>C15. The driver never loops on its own effects: performing a round answers questions and reports unaddressable
  hops to the engine, which may fork again, and still every round ends: the one an arrival starts with, and the one
  that follows any event of a branch being read.\<close>

theorem every_round_ends:
  "proxy_start K M unicode st W tenant config w request \<noteq> None
    \<and> (\<forall>sv branch event. proxying K M unicode st W tenant config w request Live sv \<and> branch \<in> set (sv_watched sv)
        \<longrightarrow> proxy_step K M unicode st W tenant request branch event sv \<noteq> None)"
  using start_inv [OF refl, where K = K and M = M and unicode = unicode and st = st and W = W and tenant = tenant and config = config and w = w and request = request] step_inv [OF proxying_inv, of K M unicode st W tenant config w request]
  by fastforce

section \<open>The properties at a point\<close>

text \<open>A call to somebody who has not registered, over an empty store: \<^verbatim>\<open>480\<close>, at once.\<close>

definition sample_world :: "(memory, memory, text_message, text_message) node_world" where
  "sample_world =
    \<lparr>nw_respond = (\<lambda>w _. (True, w)), nw_send = (\<lambda>w _ _. (True, w)), nw_send_directly = (\<lambda>w _ _. (True, w)),
     nw_store = (\<lambda>w. w), nw_now = (\<lambda>_. ZERO)\<rparr>"

lemma sample_world_open: "never_refuses sample_world"
  by (simp add: never_refuses_def sample_world_def)

lemma sample_unresolved:
  "resolve_query sample_kernel id memory_store tenant now mem_new query = (TargetsResolved [] :: (text_message, text_message) input)"
  by (simp add: resolve_query_def memory_store_def mem_lookup_def mem_new_def targets_from_lookup_def split: sum.split)

lemma sample_call:
  obtains sv where "proxying sample_kernel plain_mac id memory_store sample_world ''t'' sample_config mem_new scene_invite (Ended True) sv"
    "proxying sample_kernel plain_mac id memory_store sample_world ''t'' sample_config mem_new scene_invite Live sv"
    "cx_answered (sv_context sv)" "sv_watched sv = []"
proof -
  let ?q = "aor_query sample_kernel scene_invite"
  let ?sv = "\<lparr>sv_context = scene_resolving, sv_watched = [], sv_world = mem_new\<rparr>"
  let ?c = "scene_resolving\<lparr>cx_answered := True, cx_finished := True\<rparr>"
  let ?r = "scene_invite\<lparr>tm_status := 480\<rparr>"
  have s: "on_input sample_kernel plain_mac scene_resolving (TargetsResolved []) = (?c, [Respond ?r, Terminate])"
    by (simp add: on_input_def on_targets_def respond_and_finish_def build_response_def pending_branch_ids_def Let_def
        scene_resolving_def context_new_def)
  have nil: "perform sample_kernel plain_mac id memory_store sample_world ''t'' sv [] = Some (True, sv)" for sv
    by (subst perform.simps) simp
  have "perform sample_kernel plain_mac id memory_store sample_world ''t'' ?sv [ResolveTargets ?q]
      = perform sample_kernel plain_mac id memory_store sample_world ''t'' (?sv\<lparr>sv_context := ?c\<rparr>) [Respond ?r, Terminate]"
    by (rule perform_asks [where input = "TargetsResolved []"]) (simp_all add: settling_input_def sample_unresolved sample_world_def s)
  also have "\<dots> = Some (True, ?sv\<lparr>sv_context := ?c\<rparr>)"
    by (subst perform.simps, simp add: settling_input_def perform_outward_def sample_world_def,
        subst perform.simps, simp add: settling_input_def perform_outward_def nil [unfolded sample_world_def])
  finally have "proxy_start sample_kernel plain_mac id memory_store sample_world ''t'' sample_config mem_new scene_invite
      = Some (Live, ?sv\<lparr>sv_context := ?c\<rparr>)"
    by (simp add: proxy_start_def scene_upstream)
  then have live: "proxying sample_kernel plain_mac id memory_store sample_world ''t'' sample_config mem_new scene_invite Live (?sv\<lparr>sv_context := ?c\<rparr>)"
    by (rule proxying.arrives)
  show thesis by (rule that [OF proxying.drained [OF live] live]) simp_all
qed

theorem proxied_request_concludes_witness:
  "\<exists>sv. proxying sample_kernel plain_mac id memory_store sample_world ''t'' sample_config mem_new scene_invite (Ended True) sv
    \<and> cx_answered (sv_context sv) \<and> (cx_finished (sv_context sv) \<or> has_pending (sv_context sv) = False)"
proof -
  obtain sv where sv: "proxying sample_kernel plain_mac id memory_store sample_world ''t'' sample_config mem_new scene_invite (Ended True) sv"
    "cx_answered (sv_context sv)" by (rule sample_call)
  with proxied_request_concludes [OF sv(1)] show ?thesis by (intro exI [of _ sv]) simp
qed

theorem every_round_ends_witness:
  "proxy_start sample_kernel plain_mac id memory_store sample_world ''t'' sample_config mem_new scene_invite \<noteq> None"
  using every_round_ends [of sample_kernel plain_mac id memory_store sample_world "''t''" sample_config mem_new scene_invite] by blast

end
