(* ===== verification/Served.thy ===== *)
theory Served imports Prelude Ascii Message Forward Aor Binding Command Register Store Admission Proxy Listen Config Ack Startup Driver begin

text \<open>
  What a node's answers are worth: its admission bound under any interleaving, REGISTER answers that are complete or
  not sent, contacts that read back as they were registered, and calls that go where the last REGISTER said.
\<close>

section \<open>The admission bound\<close>

text \<open>Arrivals and the ends of the tasks that hold a permit, in any order: the permits held, the transactions
  admitted and those refused are counted by the side.\<close>

inductive bounding :: "u64 \<Rightarrow> admission_bound \<Rightarrow> nat \<Rightarrow> nat \<Rightarrow> nat \<Rightarrow> bool" for m where
  opened: "bounding m (bound_new m) 0 0 0"
| exempt: "bounding m b held taken shed \<Longrightarrow> bound_admit b meth = (Exempt, b') \<Longrightarrow> bounding m b' held taken shed"
| admitted: "bounding m b held taken shed \<Longrightarrow> bound_admit b meth = (Admitted, b') \<Longrightarrow>
    bounding m b' (Suc held) (Suc taken) shed"
| refused: "bounding m b held taken shed \<Longrightarrow> bound_admit b meth = (Refused_Over, b') \<Longrightarrow> bounding m b' held taken (Suc shed)"
| ended: "bounding m b (Suc held) taken shed \<Longrightarrow> bounding m (bound_release b) held taken shed"

text \<open>C22. The node's admission bound is exact.  However arrivals and the ends of their tasks interleave, the gauge is the
  number of permits held, which never exceeds the bound (a bound of 0 is 1); a REGISTER or an ACK is never gated;
  and any other request is refused exactly when the bound is reached; the counters count, modulo their width.\<close>

theorem admission_bound_holds:
  assumes "bounding m b held taken shed"
  shows "unat (ab_in_flight b) = held \<and> held \<le> max (unat m) 1 \<and> held \<le> taken
    \<and> ab_admitted b = of_nat taken \<and> ab_refused b = of_nat shed
    \<and> fst (bound_admit b meth) =
        (if meth = ''REGISTER'' \<or> meth = ''ACK'' then Exempt else if held < max (unat m) 1 then Admitted else Refused_Over)"
proof -
  have gauge: "ab_max b = max m 1 \<and> unat (ab_in_flight b) = held \<and> held \<le> unat (max m 1) \<and> held \<le> taken
      \<and> ab_admitted b = of_nat taken \<and> ab_refused b = of_nat shed"
    using assms
  proof (induction rule: bounding.induct)
    case (admitted b held taken shed meth b')
    then have b': "b' = b\<lparr>ab_in_flight := ab_in_flight b + 1, ab_admitted := ab_admitted b + 1\<rparr>" "ab_in_flight b < ab_max b"
      by (auto simp: bound_admit_def split: if_splits)
    then have "unat (ab_in_flight b) < unat (max m 1)" using admitted.IH by (simp add: word_less_nat_alt)
    moreover have "unat (max m 1) < 2 ^ LENGTH(64)" by (rule unsigned_less)
    ultimately have "unat (ab_in_flight b + 1) = Suc held"
      using admitted.IH unat_add_lem [of "ab_in_flight b" 1] by simp
    with \<open>unat (ab_in_flight b) < unat (max m 1)\<close> show ?case using admitted.IH b'(1) by simp
  next
    case (ended b held taken shed)
    then have "ab_in_flight b \<noteq> 0" by auto
    then have "unat (ab_in_flight b - 1) = held" using ended.IH by (simp add: unat_minus_one)
    with ended.IH \<open>ab_in_flight b \<noteq> 0\<close> show ?case by (simp add: bound_release_def)
  qed (auto simp: bound_new_def bound_admit_def split: if_splits)
  moreover have "unat (max m 1) = max (unat m) 1"
    by (simp add: max_def word_le_nat_alt)
  ultimately show ?thesis
    by (auto simp: bound_admit_def gates_def word_less_nat_alt)
qed

theorem admission_bound_holds_witness:
  "\<exists>b. bounding 1 b 1 1 0 \<and> fst (bound_admit b ''INVITE'') = Refused_Over \<and> fst (bound_admit b ''REGISTER'') = Exempt"
proof -
  have "bounding 1 (snd (bound_admit (bound_new 1) ''INVITE'')) (Suc 0) (Suc 0) 0"
    by (rule bounding.admitted [where meth = "''INVITE''", OF bounding.opened]) (simp add: bound_admit_def gates_def bound_new_def)
  from admission_bound_holds [OF this, of "''INVITE''"] admission_bound_holds [OF this, of "''REGISTER''"] this
  show ?thesis by (intro exI [of _ "snd (bound_admit (bound_new 1) ''INVITE'')"]) simp
qed

section \<open>REGISTER answers are complete\<close>

text \<open>The header rows an outcome owes, in order; a q-value with no spelling is a row that cannot be written.\<close>

definition contact_row :: "contact_value \<Rightarrow> header_name \<times> bytes option" where
  "contact_row c = (Contact, case render_contact c of Inr v \<Rightarrow> Some v | Inl _ \<Rightarrow> None)"

fun owed_rows :: "outcome \<Rightarrow> (header_name \<times> bytes option) list" where
  "owed_rows (Reject rejection) =
    (case rejection of
       rejection.BadExtension offenders \<Rightarrow> [(Unsupported, Some (join '', '' offenders))]
     | IntervalTooBrief least \<Rightarrow> [(MinExpires, Some (decimal (unat least)))]
     | ExtensionRequired extension \<Rightarrow> [(Require, Some extension)]
     | _ \<Rightarrow> [])"
| "owed_rows result =
    (case outcome_accepted result of
       None \<Rightarrow> []
     | Some acc \<Rightarrow> map contact_row (acc_contacts acc) @ map (\<lambda>p. (Path, Some (bracketed_uri p))) (acc_path acc)
         @ (if acc_path acc = [] then [] else [(Supported, Some ''path'')]))"

definition built_rows ::
  "('u, 'req, 'addr, 'hdr, 'via, 'resp, 'x) node_kernel_scheme \<Rightarrow> (header_name \<times> bytes option) list \<Rightarrow> 'hdr list option" where
  "built_rows K owed = those (map (\<lambda>(name, v). Option.bind v (header_build K name)) owed)"

definition with_rows ::
  "('u, 'req, 'addr, 'hdr, 'via, 'resp, 'x) node_kernel_scheme \<Rightarrow> 'resp \<Rightarrow> (header_name \<times> bytes option) list \<Rightarrow> 'resp option" where
  "with_rows K response owed = map_option (foldl (resp_push K) response) (built_rows K owed)"

lemma with_rows_simps [simp]:
  "with_rows K response [] = Some response"
  "with_rows K response ((name, v) # owed) =
    Option.bind (Option.bind v (header_build K name)) (\<lambda>h. with_rows K (resp_push K response h) owed)"
  by (cases v; auto simp: with_rows_def built_rows_def o_def option.map_comp split: option.split)+

lemma with_rows_append:
  "with_rows K response (owed @ owed') = Option.bind (with_rows K response owed) (\<lambda>response. with_rows K response owed')"
  by (induction owed arbitrary: response) (auto simp: split_paired_all Option.bind_assoc)

definition rendered :: "render_error + 'resp \<Rightarrow> 'resp option" where
  "rendered r = (case r of Inr response \<Rightarrow> Some response | Inl _ \<Rightarrow> None)"

lemma rendered_simps [simp]:
  "rendered (Inr response) = Some response" "rendered (Inl e) = None"
  "rendered (and_then r f) = (case r of Inl _ \<Rightarrow> None | Inr x \<Rightarrow> rendered (f x))"
  by (simp_all add: rendered_def and_then_def split: sum.split)

lemma rendered_push:
  "rendered (push_register_header K response name v) = with_rows K response [(name, Some v)]"
  by (simp add: push_register_header_def ok_or_def split: option.split)

lemma rendered_bind: "(case r of Inl _ \<Rightarrow> None | Inr x \<Rightarrow> f x) = Option.bind (rendered r) f"
  by (cases r) simp_all

lemma rendered_contacts: "rendered (render_contacts K response cs) = with_rows K response (map contact_row cs)"
  by (induction cs arbitrary: response)
    (auto simp: contact_row_def rendered_bind rendered_push Option.bind_assoc split: sum.split)

lemma rendered_paths: "rendered (render_paths K response ps) = with_rows K response (map (\<lambda>p. (Path, Some (bracketed_uri p))) ps)"
  by (induction ps arbitrary: response) (auto simp: rendered_bind rendered_push Option.bind_assoc)

lemma rendered_accepted:
  "rendered (render_accepted K request acc) = with_rows K (answer K request 200 (reason_for 200))
    (map contact_row (acc_contacts acc) @ map (\<lambda>p. (Path, Some (bracketed_uri p))) (acc_path acc)
      @ (if acc_path acc = [] then [] else [(Supported, Some ''path'')]))"
  by (auto simp: render_accepted_def rendered_bind rendered_contacts rendered_paths rendered_push with_rows_append Let_def
      intro!: arg_cong2 [where f = Option.bind])

text \<open>C23. A REGISTER is answered with everything its outcome owes, or with a bare 500.  The status is the outcome's
  and the rows are, in order, one Contact for each binding reported, one Path for each stored hop and the option tag,
  or the one remedy header of the refusal; if a single one of them cannot be written none is sent.\<close>

theorem register_answer_complete:
  "register_outcome_or_internal K request result =
    (case with_rows K (answer K request (of_nat (outcome_status result)) (reason_for (of_nat (outcome_status result))))
        (owed_rows result) of
       Some response \<Rightarrow> response
     | None \<Rightarrow> answer K request 500 (reason_for 500))"
proof -
  have "rendered (render_register_outcome K request result) =
      with_rows K (answer K request (of_nat (outcome_status result)) (reason_for (of_nat (outcome_status result)))) (owed_rows result)"
  proof (cases result)
    case (Reject rejection)
    then show ?thesis
      by (cases rejection) (simp_all add: render_register_outcome_def render_rejection_def rendered_push)
  qed (simp_all add: render_register_outcome_def rendered_accepted)
  then show ?thesis
    by (auto simp: register_outcome_or_internal_def rendered_def split: sum.splits option.splits)
qed

section \<open>What a contact reads back as\<close>

lemma decimal_length: "length (decimal n) \<le> 3" if "n < 1000"
  using that by (subst decimal.simps, subst decimal.simps, subst decimal.simps) simp

lemma digits_value_zeros: "digits_value (replicate k 48 @ ps) = digits_value ps"
  by (induction k) (simp_all add: digits_value_def)

lemma three_digits_points:
  assumes "n < 1000"
  shows "length (three_digits n) = 3" "list_all is_digit_point (map of_char (three_digits n))"
    "digits_value (map of_char (three_digits n)) = n" "list_all is_ascii_char (three_digits n)"
proof -
  show "length (three_digits n) = 3" using decimal_length [OF assms] by (simp add: three_digits_def)
  have p: "(map of_char (three_digits n) :: nat list) = replicate (3 - length (decimal n)) 48 @ map of_char (decimal n)"
    by (simp add: three_digits_def)
  show "list_all is_digit_point (map of_char (three_digits n))"
    unfolding p using decimal_points [of _ n] by (auto simp: list_all_iff is_digit_point_def)
  show "digits_value (map of_char (three_digits n)) = n" unfolding p by (simp add: digits_value_zeros digits_value_decimal)
  show "list_all is_ascii_char (three_digits n)"
    using decimal_digits [of n] digit_ascii by (auto simp: three_digits_def list_all_iff is_ascii_char_def)
qed

lemma plain_points:
  assumes "list_all is_ascii_char cs" "list_all (\<lambda>p. \<not> white_space p) (map of_char cs)"
  shows "trim_text (from_utf8_lossy cs) = map of_char cs"
  using assms by (simp add: from_utf8_lossy_ascii trim_text_def dropWhile_none list_all_iff)

lemma digit_not_space: "is_digit_point p \<Longrightarrow> \<not> white_space p \<and> p \<noteq> 43"
  by (auto simp: is_digit_point_def white_space_def)

lemma parse_unsigned_digits:
  "ps \<noteq> [] \<Longrightarrow> list_all is_digit_point ps \<Longrightarrow> digits_value ps < 2 ^ width \<Longrightarrow> parse_unsigned width ps = Some (digits_value ps)"
  using digit_not_space by (cases ps) (auto simp: parse_unsigned_def Let_def)

lemma q_reads_back:
  assumes "(q :: u16) \<le> 1000"
  shows "parse_q (if q \<le> 999 then ''0.'' @ three_digits (unat q) else ''1.000'') = Some q"
proof (cases "q \<le> 999")
  case True
  then have n: "unat q < 1000" by (simp add: word_le_nat_alt)
  let ?f = "map of_char (three_digits (unat q)) :: nat list"
  note f = three_digits_points [OF n]
  have "trim_text (from_utf8_lossy (''0.'' @ three_digits (unat q))) = 48 # 46 # ?f"
    using f(2,4) digit_not_space by (subst plain_points) (auto simp: is_ascii_char_def list_all_iff white_space_def)
  moreover have "parse_unsigned 16 ?f = Some (unat q)"
    using parse_unsigned_digits [of ?f 16] f n by force
  moreover have "parse_unsigned 16 [48] = Some 0"
    using parse_unsigned_digits [of "[48]" 16] by (simp add: is_digit_point_def digits_value_def)
  ultimately show ?thesis using True f(1,2) by (simp add: parse_q_def)
next
  case False
  with assms have q: "q = 1000" by (simp add: word_le_nat_alt word_unat_eq_iff)
  have "trim_text (from_utf8_lossy ''1.000'') = [49, 46, 48, 48, 48]"
    by (subst plain_points) (auto simp: is_ascii_char_def white_space_def)
  moreover have "parse_unsigned 16 [49] = Some 1"
    using parse_unsigned_digits [of "[49]" 16] by (simp add: is_digit_point_def digits_value_def)
  ultimately show ?thesis using False q by (simp add: parse_q_def is_digit_point_def)
qed

text \<open>C24. What a 200 says of a contact reads back as what is stored.  The row is the stored URI in brackets, then the
  seconds left and the preference, which the registrar's own parsers read as the same numbers; a preference above 1 has no
  spelling.\<close>

theorem contact_reads_back:
  "case render_contact c of
     Inr v \<Rightarrow> (\<exists>expires q. v = ''<'' @ cv_contact c @ ''>;expires='' @ expires @ '';q='' @ q
       \<and> parse_number expires = Some (cv_expires c) \<and> parse_q q = Some (cv_q c))
   | Inl e \<Rightarrow> 1000 < cv_q c \<and> e = InvalidQ (cv_q c)"
proof (cases "cv_q c \<le> 1000")
  case False
  then have "\<not> cv_q c \<le> 999" "cv_q c \<noteq> 1000" by (auto simp: word_le_nat_alt)
  with False show ?thesis by (simp add: render_contact_def)
next
  case True
  have "unat (cv_expires c) < 2 ^ LENGTH(32)" by (rule unsigned_less)
  then have expires: "parse_number (decimal (unat (cv_expires c))) = Some (cv_expires c)"
    using parse_decimal [of "unat (cv_expires c)" 32] by (simp add: parse_number_def parse_u32_def)
  let ?q = "if cv_q c \<le> 999 then ''0.'' @ three_digits (unat (cv_q c)) else ''1.000''"
  have "cv_q c \<le> 999 \<or> cv_q c = 1000" using True by (auto simp: word_le_nat_alt word_unat_eq_iff)
  then have row: "render_contact c = Inr (''<'' @ cv_contact c @ ''>;expires='' @ decimal (unat (cv_expires c)) @ '';q='' @ ?q)"
    by (auto simp: render_contact_def)
  show ?thesis unfolding row sum.case by (intro exI conjI, rule refl, rule expires, rule q_reads_back [OF True])
qed

section \<open>From REGISTER to call\<close>

lemma commit_describes: "process K cmd current policy = Commit new acc \<Longrightarrow> acc = describe new (rc_now cmd)"
  by (erule process_Commit)
    (auto elim: explicit_Commit simp: set_new_def accepted_default_def describe_def active_def)

lemma lookup_targets:
  "mset (map pt_uri (targets_from_lookup (order_targets s now))) = mset (map cv_contact (acc_contacts (describe s now)))"
proof -
  have "mset (map pt_uri (targets_from_lookup (order_targets s now))) = image_mset contact (mset (sort_by forks_before (active s now)))"
    by (simp only: mset_map [symmetric]) (simp add: targets_from_lookup_def order_targets_def target_of_def o_def)
  also have "\<dots> = mset (map cv_contact (acc_contacts (describe s now)))"
    by (simp only: mset_sort_by mset_map [symmetric]) (simp add: describe_def describe_one_def o_def)
  finally show ?thesis .
qed

text \<open>C2. A call goes where the last REGISTER said.  If a node's REGISTER changed the store, it admitted a command and
  committed its decision; the answer it renders reports what it committed; from then on, resolving a URI of that
  address gives exactly the committed bindings in forking order, at the instant of the REGISTER the very contacts the
  answer reports; and every other address resolves as before.\<close>

theorem registered_contacts_are_called:
  fixes K :: "('u, 'req, 'addr, 'hdr, 'via, 'resp, 'x) node_kernel_scheme"
  assumes "register K AK H unicode name memory_store (\<lambda>_ s. s) nc auth s arrival now = ((response, audit), auth', s')"
    and "s' \<noteq> s" "ta_tenant auth = nc_tenant nc"
  shows "\<exists>cmd new acc.
      fst (fst (admit_audited unicode K AK (ar_request arrival) auth (credentials_password (node_credentials nc)) (node_policy H nc)
        (register_context name nc arrival) now)) = Command cmd
    \<and> response = register_outcome_or_internal K (ar_request arrival) (Commit new acc)
    \<and> (\<forall>uri aor at. aor_parse unicode K uri = Inr aor \<longrightarrow>
        (resolve_query K unicode memory_store (nc_tenant nc) at s' \<lparr>tq_uri = uri\<rparr> :: ('req, 'resp) input)
          = (if aor = rc_aor cmd then TargetsResolved (targets_from_lookup (order_targets new at))
             else resolve_query K unicode memory_store (nc_tenant nc) at s \<lparr>tq_uri = uri\<rparr>))
    \<and> mset (map pt_uri (targets_from_lookup (order_targets new now))) = mset (map cv_contact (acc_contacts acc))"
proof -
  obtain adm where adm: "admit_audited unicode K AK (ar_request arrival) auth (credentials_password (node_credentials nc)) (node_policy H nc)
        (register_context name nc arrival) now = ((adm, audit), auth')"
    using assms(1) by (auto simp: register_def Let_def split: prod.splits admission.splits)
  with assms(1,2) obtain cmd where cmd: "adm = Command cmd"
    by (auto simp: register_def Let_def split: prod.splits admission.splits)
  have who: "rc_tenant cmd = nc_tenant nc" "rc_now cmd = now"
    using adm assms(3) unfolding cmd by (auto elim!: admit_Command dest: command_Inr)
  obtain ap where ap: "apply_command memory_store (\<lambda>_ s. s) K cmd (nc_policy nc) DEFAULT_CAS_RETRIES s = (ap, s')"
      "response = register_outcome_or_internal K (ar_request arrival) (ap_outcome ap)"
    using assms(1) adm by (auto simp: register_def Let_def cmd split: prod.splits)
  obtain cur rv where read: "ls_read memory_store s (rc_tenant cmd) (rc_aor cmd) = Inr (cur, rv)"
    by (cases "mem_rows s (rc_tenant cmd, rc_aor cmd)") (auto simp: memory_store_def mem_read_def)
  note eff = memory.apply_undisturbed [OF read ap(1)]
  then obtain new acc where commit: "process K cmd cur (nc_policy nc) = Commit new acc"
    using assms(2) by (cases "process K cmd cur (nc_policy nc)") auto
  with eff have out: "ap_outcome ap = Commit new acc"
    and row: "ls_read memory_store s' (nc_tenant nc) (rc_aor cmd) = Inr (new, next_revision rv)"
    and other: "\<And>t a. (t, a) \<noteq> (nc_tenant nc, rc_aor cmd) \<Longrightarrow> ls_read memory_store s' t a = ls_read memory_store s t a"
    by (simp_all add: who)
  have "acc = describe new now" using commit_describes [OF commit] by (simp add: who)
  then have "mset (map pt_uri (targets_from_lookup (order_targets new now))) = mset (map cv_contact (acc_contacts acc))"
    by (simp only: lookup_targets)
  moreover have "(resolve_query K unicode memory_store (nc_tenant nc) at s' \<lparr>tq_uri = uri\<rparr> :: ('req, 'resp) input)
      = (if aor = rc_aor cmd then TargetsResolved (targets_from_lookup (order_targets new at))
         else resolve_query K unicode memory_store (nc_tenant nc) at s \<lparr>tq_uri = uri\<rparr>)" if "aor_parse unicode K uri = Inr aor" for uri aor at
    using that by (simp add: resolve_query_def memory.lookup_reads row other)
  ultimately show ?thesis using adm cmd ap(2) out by auto
qed

section \<open>What the proxy calls its own\<close>

lemma add_identities_spec:
  "set (add_identities known ls) = set known \<union> (\<lambda>l. edge_host (ad_host (li_advertise l))) ` set ls
    \<and> (distinct known \<longrightarrow> distinct (add_identities known ls))"
  by (induction ls arbitrary: known) (auto simp: Let_def)

text \<open>Any edge recognises any edge: whichever listener an arrival came in on, the node takes a URI for its own exactly
  when its host names, in any case and with or without a final dot, the advertised host of one of its listeners, on
  any port; it lists each name once; and it signs its routes with the address of the listener the peer reached, or
  of a cleartext one.\<close>

theorem node_knows_its_own:
  fixes K :: "('u, 'req, 'addr, 'hdr, 'via, 'resp, 'x) message_kernel_scheme"
  shows "(is_ours K (proxy_config_keyed nc received_on key) uri \<longleftrightarrow>
      (\<exists>l h. l \<in> set (nc_listeners nc) \<and> uri_host K uri = Some h
        \<and> strip_dot (map ascii_lower (string_lossy (host_bytes K h))) = map ascii_lower (ad_host (li_advertise l))))
    \<and> distinct (identities (proxy_config_keyed nc received_on key))
    \<and> record_route_uri (proxy_config_keyed nc received_on key) =
        (case received_on of
           Some l \<Rightarrow> listener_record_route l
         | None \<Rightarrow> (case cleartext (nc_listeners nc) of
              Some l \<Rightarrow> listener_record_route l
            | None \<Rightarrow> (case nc_listeners nc of l # _ \<Rightarrow> listener_record_route l | [] \<Rightarrow> [])))
    \<and> effective_timer_c (proxy_config_keyed nc received_on key) = (if TIMER_C_FLOOR < nc_timer_c nc then nc_timer_c nc else DEFAULT_TIMER_C)"
proof -
  let ?c = "proxy_config_keyed nc received_on key"
  have ids: "identities ?c = add_identities [] (nc_listeners nc)" "timer_c ?c = nc_timer_c nc"
    by (simp_all add: proxy_config_keyed_def Let_def)
  have "identity_matches K (edge_host host) uri \<longleftrightarrow>
      (\<exists>h. uri_host K uri = Some h \<and> strip_dot (map ascii_lower (string_lossy (host_bytes K h))) = map ascii_lower host)" for host
    by (simp add: identity_matches_def edge_host_def Let_def split: option.split)
  then have "is_ours K ?c uri \<longleftrightarrow> (\<exists>l h. l \<in> set (nc_listeners nc) \<and> uri_host K uri = Some h
        \<and> strip_dot (map ascii_lower (string_lossy (host_bytes K h))) = map ascii_lower (ad_host (li_advertise l)))"
    using add_identities_spec [of "[]" "nc_listeners nc"] by (auto simp: is_ours_def list_ex_iff ids)
  moreover have "distinct (identities ?c)" using add_identities_spec [of "[]" "nc_listeners nc"] by (simp add: ids)
  moreover have "record_route_uri ?c = (case speaking_for nc received_on of Some l \<Rightarrow> listener_record_route l | None \<Rightarrow> [])"
    by (simp add: proxy_config_keyed_def config_new_def Let_def)
  ultimately show ?thesis
    by (simp add: ids effective_timer_c_def speaking_for_def split: option.split list.split)
qed

section \<open>An ACK is sent once or dropped\<close>

text \<open>The node settles every ACK for a \<^verbatim>\<open>2xx\<close> itself: it sends the one copy the engine made of an ACK that
  carried no token, straight to an address, or it touches the transport not at all; the arm for a verdict the engine did
  not consume is never reached.\<close>

theorem ack_sent_once_or_dropped:
  "case forward_ack K M W config w request of
     (AckSent accepted, w') \<Rightarrow> (\<exists>copy hop destination. route_ack K M request config None = AckForward copy hop
        \<and> destination_of K hop = Some destination \<and> nw_send_directly W w copy destination = (accepted, w'))
   | (AckDropped why, w') \<Rightarrow> w' = w \<and> why \<noteq> ''the token verdict was not consumed''"
proof -
  let ?first = "route_ack K M request config None"
  have asks: "route_ack K M request config (Some InvalidToken) = Unroutable UnverifiableToken" if "?first = AckVerify t p" for t p
    using that by (auto simp: route_ack_def Let_def split: sum.splits prod.splits option.splits)
  have described: "ack_describe refusal \<noteq> ''the token verdict was not consumed''" for refusal
    by (cases refusal rule: ack_describe.cases) simp_all
  show ?thesis
    by (cases ?first) (auto simp: forward_ack_def asks described split: option.split prod.split)
qed

section \<open>The properties at a point\<close>

text \<open>The plain kernel of the registrar's witnesses with a message library behind it that writes no headers and
  answers with a status.\<close>

definition node_plain :: "(parts, plain_request, parts, unit, unit, u16) node_kernel" where
  "node_plain = message_kernel.extend (sip_kernel.extend plain_kernel
    \<lparr>uri_scheme_bytes = (\<lambda>_. []), host_bytes = (\<lambda>_. []), uri_param = (\<lambda>_ _. None), has_param = (\<lambda>_ _. False),
     addr_tag = (\<lambda>_. None), via_parse_one = (\<lambda>_. None), via_host = (\<lambda>_. Name []), via_port = (\<lambda>_. None), via_branch = (\<lambda>_. None),
     set_uri = (\<lambda>r _. r), header_build = (\<lambda>_ _. Some ()), push_back = (\<lambda>r _. r), push_front = (\<lambda>r _. r),
     remove_all = (\<lambda>r _. r), valid_status = (\<lambda>_. True), respond_to = (\<lambda>_ status _. Some status), resp_status = (\<lambda>r. r),
     resp_provisional = (\<lambda>_. False), resp_headers = (\<lambda>_ _. []), resp_push = (\<lambda>r _. r), resp_remove_first = (\<lambda>r _. r)\<rparr>)
    \<lparr>nk_bare = (\<lambda>status _. Some status), nk_empty = (\<lambda>status _. status)\<rparr>"

definition open_auth :: "(plain_request, unit, unit, header_name) auth_kernel" where
  "open_auth = \<lparr>auth_new = (\<lambda>_ _. ()), auth_realm = (\<lambda>_. []), presented_from = (\<lambda>_ _. None), presented_realm = (\<lambda>_. []),
     presented_username = (\<lambda>_. []), verify_at = (\<lambda>_ _ _ _ _. (Authenticated, ())), challenge_at = (\<lambda>_ _ _. []),
     challenge_header = (\<lambda>_. WwwAuthenticate)\<rparr>"

definition sample_hosts :: host_lib where
  "sample_hosts = \<lparr>host_parse = (\<lambda>_. None), host_equivalent = (\<lambda>_ _. False)\<rparr>"

definition sample_arrival :: "plain_request arrival" where
  "sample_arrival = \<lparr>ar_request = plain_register None, ar_transport = Udp, ar_source = sample_bind\<rparr>"

lemma node_plain_fields [simp]:
  "header_value node_plain = header_value plain_kernel" "header_all node_plain = header_all plain_kernel"
  "address_parse node_plain = address_parse plain_kernel" "address_parse_list node_plain = address_parse_list plain_kernel"
  "addr_uri node_plain = addr_uri plain_kernel" "addr_param node_plain = addr_param plain_kernel"
  "uri_to_bytes node_plain = uri_to_bytes plain_kernel" "req_uri node_plain = req_uri plain_kernel"
  "uri_scheme node_plain = uri_scheme plain_kernel" "has_headers node_plain = has_headers plain_kernel"
  "password node_plain = password plain_kernel" "user node_plain = user plain_kernel"
  "decoded_user node_plain = decoded_user plain_kernel" "uri_host node_plain = uri_host plain_kernel"
  "uri_port node_plain = uri_port plain_kernel" "equivalent node_plain = equivalent plain_kernel"
  "scheme_is_sip node_plain = scheme_is_sip plain_kernel" "uri_parse node_plain = uri_parse plain_kernel"
  by (simp_all add: node_plain_def message_kernel.defs sip_kernel.defs plain_kernel_def uri_kernel.defs parts_kernel_def)

definition node_sample_command :: "parts register_command" where
  "node_sample_command = plain_command\<lparr>rc_tenant := ''default'', rc_principal := None, rc_received :=
     edge_received (register_context (\<lambda>_. []) (node_listening []) sample_arrival)\<rparr>"

lemma node_sample_admitted:
  "admit_audited id node_plain open_auth (plain_register None) (auth_open open_auth ''default'') creds
      (node_policy sample_hosts (node_listening [])) (register_context (\<lambda>_. []) (node_listening []) sample_arrival) (Timestamp 0)
    = ((Command node_sample_command, Some Unauthenticated), auth_open open_auth ''default'')"
proof -
  let ?P = "node_policy sample_hosts (node_listening [])"
  let ?E = "register_context (\<lambda>_. []) (node_listening []) sample_arrival"
  have k: "header_value plain_kernel r CallId = Some ''c1''" "header_value plain_kernel r CSeq = Some ''1''"
    "header_value plain_kernel (plain_register c) To = Some ''h.ex''" "header_value plain_kernel r Expires = None"
    "address_parse plain_kernel raw = Some (alice raw)" "addr_uri plain_kernel a = a"
    "header_all plain_kernel (plain_register c) Contact = [''h.ex'']" "header_all plain_kernel r Path = []"
    "header_all plain_kernel r Supported = []" "header_all plain_kernel r Require = []"
    "address_parse_list plain_kernel raw = Some [alice raw]" "addr_param plain_kernel a n = None"
    "uri_to_bytes plain_kernel (alice h) = h" "req_uri plain_kernel (plain_register c) = alice ''h.ex''" for r c raw a n h
    by (simp_all add: plain_kernel_def uri_kernel.defs plain_register_def alice_def)
  have uri: "from_uri id node_plain (alice ''h.ex'') = Inr (CanonicalAor ''sip:a%3Bb@h.ex:5060'')"
    using plain_from_uri by (simp only: from_uri_def user_text_def node_plain_fields)
  obtain a where a: "authority_from_uri node_plain (alice ''h.ex'') = Some a"
    by (auto simp: authority_from_uri_def plain_kernel_def uri_kernel.defs parts_kernel_def alice_def)
  have "trim ''h.ex'' \<noteq> ''*''" by (simp add: trim_def is_ascii_space_def get_range_def Let_def)
  then have contacts: "contact_ops node_plain (plain_register c) = Inr (rc_contacts plain_command)" for c
    by (simp add: contact_ops_def k contact_op_def plain_command_def push_params_def)
  have pol: "serves ?P ''default'' x" "authorizes ?P ''default'' None aor" for x aor
    by (simp_all add: node_policy_def node_serves_def node_listening_def authorizations_open_def)
  have E: "?E\<lparr>edge_tenant := ''default''\<rparr> = ?E" "edge_tenant ?E = ''default''" "edge_flow_ref ?E = None"
    by (simp_all add: register_context_def node_listening_def)
  have cmd: "command id node_plain (plain_register c) ?E None ?P (Timestamp 0) = Inr node_sample_command" for c
    unfolding command_def
    by (simp add: k a uri plain_text contacts pol E)
      (simp add: node_sample_command_def plain_command_def route_values_def option_tags_def List.map_filter_def k)
  have d: "decide node_plain open_auth (auth_open open_auth ''default'') (plain_register None) creds now
      = (Proceed None, auth_open open_auth ''default'')" for now
    by (simp add: decide_def auth_open_def)
  have t: "ta_tenant (auth_open open_auth ''default'') = ''default''" by (simp add: auth_open_def)
  show ?thesis
    unfolding admit_audited_def node_plain_fields k a option.case d t
    by (simp add: cmd pol t E)
qed

lemma node_sample_commits:
  obtains new acc where "process node_plain node_sample_command set_new default_policy = Commit new acc"
proof -
  have "is_active (Timestamp 0) (binding_for op node_sample_command 3600 (Timestamp 0))" for op
    by (simp add: binding_for_def is_active_def timestamp_order after_def node_sample_command_def plain_command_def
        nanos_of_secs_def saturating_add_def)
  then have "\<exists>new acc. process node_plain node_sample_command set_new default_policy = Commit new acc"
    by (simp add: reconcile_eval node_sample_command_def plain_command_def active_count_def active_def SUPPORTED_def)
  then show thesis using that by blast
qed

theorem registered_contacts_are_called_witness:
  "\<exists>response audit auth' s' cmd new acc. register node_plain open_auth sample_hosts id (\<lambda>_. []) memory_store (\<lambda>_ s. s) (node_listening [])
      (auth_open open_auth ''default'') mem_new sample_arrival (Timestamp 0) = ((response, audit), auth', s')
    \<and> response = register_outcome_or_internal node_plain (plain_register None) (Commit new acc)
    \<and> mset (map pt_uri (targets_from_lookup (order_targets new (Timestamp 0)))) = mset (map cv_contact (acc_contacts acc))"
proof -
  let ?nc = "node_listening []"
  obtain new acc where c: "process node_plain node_sample_command set_new default_policy = Commit new acc" by (rule node_sample_commits)
  obtain ap s' where ap: "apply_command memory_store (\<lambda>_ s. s) node_plain node_sample_command default_policy DEFAULT_CAS_RETRIES mem_new = (ap, s')"
    by (rule prod.exhaust)
  have read: "ls_read memory_store mem_new t a = Inr (set_new, INITIAL)" for t a
    by (simp add: memory_store_def mem_read_def mem_new_def)
  have "ls_read memory_store s' (rc_tenant node_sample_command) (rc_aor node_sample_command) = Inr (new, next_revision INITIAL)"
    using memory.apply_undisturbed [OF read ap] c by simp
  then have changed: "s' \<noteq> mem_new" using read by (auto simp: next_revision_def INITIAL_def)
  have t: "ta_tenant (auth_open open_auth ''default'') = nc_tenant ?nc" by (simp add: auth_open_def node_listening_def)
  have reg: "register node_plain open_auth sample_hosts id (\<lambda>_. []) memory_store (\<lambda>_ s. s) ?nc (auth_open open_auth ''default'') mem_new
      sample_arrival (Timestamp 0)
    = ((register_outcome_or_internal node_plain (plain_register None) (ap_outcome ap), Some Unauthenticated), auth_open open_auth ''default'', s')"
    using ap node_sample_admitted by (simp add: register_def Let_def sample_arrival_def node_listening_def)
  from registered_contacts_are_called [OF reg changed t] reg show ?thesis by (auto simp: sample_arrival_def)
qed

end
