(* ===== verification/Postgres.thy ===== *)
theory Postgres imports Prelude Store Startup begin

text \<open>
  \<^verbatim>\<open>crates/sipx-clstr-node/src/postgres_store.rs\<close>, \<^verbatim>\<open>blocking_store.rs\<close> and \<^verbatim>\<open>open_store\<close> of
  \<^verbatim>\<open>driver.rs\<close>: the location store over PostgreSQL.  The database and the JSON codec are parameters:
  \<open>database\<close> names the statements the code issues, \<open>sql_honoured\<close> states what PostgreSQL documents of
  them (a statement is atomic; one that fails may or may not have been applied), and \<open>others n\<close> is what
  other nodes did to the database before the \<open>n\<close>-th statement of a commit.  The lemmas show that a
  commit that reports success replaced a row of exactly the expected revision whatever the other nodes
  do, that on a healthy database the backend is the in-memory one, and what a failed statement can
  leave behind.
\<close>

section \<open>The database\<close>

type_synonym 'j table = "string \<times> string \<Rightarrow> (int \<times> 'j) option"

text \<open>The statements of the module: each returns the driver's error or, for a write, the number of rows
  affected.  Rows are keyed by tenant and address-of-record; a \<^verbatim>\<open>bigint\<close> is an \<open>int\<close>.\<close>

record ('d, 'j) database =
  db_select :: "'d \<Rightarrow> string \<Rightarrow> string \<Rightarrow> string + (int \<times> 'j) option"
  db_insert :: "'d \<Rightarrow> string \<Rightarrow> string \<Rightarrow> int \<Rightarrow> 'j \<Rightarrow> (string + nat) \<times> 'd"
  db_update :: "'d \<Rightarrow> string \<Rightarrow> string \<Rightarrow> int \<Rightarrow> 'j \<Rightarrow> int \<Rightarrow> (string + nat) \<times> 'd"
  db_delete :: "'d \<Rightarrow> string \<Rightarrow> (string + nat) \<times> 'd"
  db_lock :: "'d \<Rightarrow> int \<Rightarrow> (string + nat) \<times> 'd"
  db_schema :: "'d \<Rightarrow> (string + unit) \<times> 'd"
  db_unlock :: "'d \<Rightarrow> int \<Rightarrow> (string + nat) \<times> 'd"

record 'j json_codec =
  to_value :: "binding_set \<Rightarrow> string + 'j"
  from_value :: "'j \<Rightarrow> string + binding_set"

text \<open>What the writing statements do to the table, with the rows they affect.\<close>

definition insert_row :: "'j table \<Rightarrow> string \<times> string \<Rightarrow> int \<Rightarrow> 'j \<Rightarrow> nat \<times> 'j table" where
  "insert_row tbl k rv j = (case tbl k of None \<Rightarrow> (1, tbl(k \<mapsto> (rv, j))) | Some _ \<Rightarrow> (0, tbl))"

definition update_row :: "'j table \<Rightarrow> string \<times> string \<Rightarrow> int \<Rightarrow> 'j \<Rightarrow> int \<Rightarrow> nat \<times> 'j table" where
  "update_row tbl k rv j expected =
    (case tbl k of None \<Rightarrow> (0, tbl)
     | Some (held, _) \<Rightarrow> if held = expected then (1, tbl(k \<mapsto> (rv, j))) else (0, tbl))"

definition ran :: "('d \<Rightarrow> 'j table) \<Rightarrow> 'j table \<Rightarrow> nat \<times> 'j table \<Rightarrow> (string + nat) \<times> 'd \<Rightarrow> bool" where
  "ran contents before effect result =
    (case fst result of
       Inr affected \<Rightarrow> effect = (affected, contents (snd result))
     | Inl _ \<Rightarrow> contents (snd result) = before \<or> contents (snd result) = snd effect)"

definition sql_honoured :: "('d, 'j) database \<Rightarrow> ('d \<Rightarrow> 'j table) \<Rightarrow> bool" where
  "sql_honoured D contents \<longleftrightarrow>
    (\<forall>d t a. case db_select D d t a of Inl _ \<Rightarrow> True | Inr found \<Rightarrow> found = contents d (t, a))
    \<and> (\<forall>d t a rv j. ran contents (contents d) (insert_row (contents d) (t, a) rv j) (db_insert D d t a rv j))
    \<and> (\<forall>d t a rv j expected.
        ran contents (contents d) (update_row (contents d) (t, a) rv j expected) (db_update D d t a rv j expected))"

definition never_fails :: "('d, 'j) database \<Rightarrow> bool" where
  "never_fails D \<longleftrightarrow> (\<forall>d t a. \<not> isl (db_select D d t a)) \<and> (\<forall>d t a rv j. \<not> isl (fst (db_insert D d t a rv j)))
    \<and> (\<forall>d t a rv j expected. \<not> isl (fst (db_update D d t a rv j expected)))"

section \<open>The store\<close>

datatype store_error = DatabaseError string | DecodeError string

fun store_error_text :: "store_error \<Rightarrow> string" where
  "store_error_text (DatabaseError e) = ''postgres: '' @ e"
| "store_error_text (DecodeError e) = ''a stored binding set could not be decoded: '' @ e"

fun failure_of :: "store_error \<Rightarrow> read_failure" where
  "failure_of (DatabaseError e) = ReadUnavailable (store_error_text (DatabaseError e))"
| "failure_of (DecodeError e) = Undecodable (store_error_text (DecodeError e))"

definition SCHEMA_LOCK :: int where "SCHEMA_LOCK = 0x1f3a5c7e9b2d4068"

record 'd postgres =
  pg_client :: 'd
  pg_changes :: "change list"

text \<open>\<^verbatim>\<open>connect\<close>: the lock is released whether or not the schema could be applied, and a failed
  schema is reported before a failed release.\<close>

definition pg_connect ::
  "('d, 'j) database \<Rightarrow> (string \<Rightarrow> string + 'd) \<Rightarrow> string \<Rightarrow> store_error + 'd postgres" where
  "pg_connect D open_client url =
    (case open_client url of
       Inl e \<Rightarrow> Inl (DatabaseError e)
     | Inr d \<Rightarrow>
        (case db_lock D d SCHEMA_LOCK of
           (Inl e, d) \<Rightarrow> Inl (DatabaseError e)
         | (Inr _, d) \<Rightarrow>
            (let (schema_done, d) = db_schema D d;
                 (unlocked, d) = db_unlock D d SCHEMA_LOCK
             in case schema_done of
                  Inl e \<Rightarrow> Inl (DatabaseError e)
                | Inr _ \<Rightarrow>
                   (case unlocked of
                      Inl e \<Rightarrow> Inl (DatabaseError e)
                    | Inr _ \<Rightarrow> Inr \<lparr>pg_client = d, pg_changes = []\<rparr>))))"

definition pg_truncate :: "('d, 'j) database \<Rightarrow> 'd postgres \<Rightarrow> string \<Rightarrow> (store_error + unit) \<times> 'd postgres" where
  "pg_truncate D pg tenant =
    (case db_delete D (pg_client pg) tenant of
       (Inl e, d) \<Rightarrow> (Inl (DatabaseError e), pg\<lparr>pg_client := d\<rparr>)
     | (Inr _, d) \<Rightarrow> (Inr (), pg\<lparr>pg_client := d\<rparr>))"

text \<open>\<^verbatim>\<open>i64::try_from(..).unwrap_or(i64::MAX)\<close> and, reading, \<^verbatim>\<open>u64::try_from(..).unwrap_or(0)\<close>.\<close>

definition revision_to_i64 :: "revision \<Rightarrow> int" where
  "revision_to_i64 rv = min (uint (rev_number rv)) (2 ^ 63 - 1)"

definition revision_of_i64 :: "int \<Rightarrow> revision" where
  "revision_of_i64 n = Revision (if 0 \<le> n then word_of_int n else 0)"

definition read_inner ::
  "('d, 'j) database \<Rightarrow> 'j json_codec \<Rightarrow> 'd \<Rightarrow> string \<Rightarrow> canonical_aor \<Rightarrow> store_error + (binding_set \<times> revision)" where
  "read_inner D C d tenant aor =
    (case db_select D d tenant (aor_str aor) of
       Inl e \<Rightarrow> Inl (DatabaseError e)
     | Inr None \<Rightarrow> Inr (set_new, INITIAL)
     | Inr (Some (revision, stored)) \<Rightarrow>
        (case from_value C stored of
           Inl e \<Rightarrow> Inl (DecodeError e)
         | Inr found \<Rightarrow> Inr (found, revision_of_i64 revision)))"

text \<open>The statements of a commit: an insert for the first write, and the predicated update when there
  was a row after all.\<close>

definition predicated_update ::
  "('d, 'j) database \<Rightarrow> 'd \<Rightarrow> string \<Rightarrow> canonical_aor \<Rightarrow> revision \<Rightarrow> 'j \<Rightarrow> (store_error + nat) \<times> 'd" where
  "predicated_update D d tenant aor expected payload =
    (case db_update D d tenant (aor_str aor) (revision_to_i64 (next_revision expected)) payload
        (revision_to_i64 expected) of
       (Inl e, d) \<Rightarrow> (Inl (DatabaseError e), d)
     | (Inr affected, d) \<Rightarrow> (Inr affected, d))"

definition write_row ::
  "('d, 'j) database \<Rightarrow> (nat \<Rightarrow> 'd \<Rightarrow> 'd) \<Rightarrow> 'd \<Rightarrow> string \<Rightarrow> canonical_aor \<Rightarrow> revision \<Rightarrow> 'j
    \<Rightarrow> (store_error + nat) \<times> 'd" where
  "write_row D others d tenant aor expected payload =
    (if expected = INITIAL then
       (case db_insert D (others 0 d) tenant (aor_str aor) (revision_to_i64 (next_revision expected)) payload of
          (Inl e, d) \<Rightarrow> (Inl (DatabaseError e), d)
        | (Inr affected, d) \<Rightarrow>
           if affected > 0 then (Inr affected, d)
           else predicated_update D (others 1 d) tenant aor expected payload)
     else predicated_update D (others 1 d) tenant aor expected payload)"

definition push_change :: "change list \<Rightarrow> change \<Rightarrow> change list" where
  "push_change changes c =
    (let changes = changes @ [c] in if length changes > CHANGE_FEED_CAPACITY then tl changes else changes)"

definition commit_inner ::
  "('d, 'j) database \<Rightarrow> 'j json_codec \<Rightarrow> (nat \<Rightarrow> 'd \<Rightarrow> 'd) \<Rightarrow> 'd postgres \<Rightarrow> string \<Rightarrow> canonical_aor \<Rightarrow> revision
    \<Rightarrow> binding_set \<Rightarrow> (store_error + (cas_conflict + revision)) \<times> 'd postgres" where
  "commit_inner D C others pg tenant aor expected new =
    (case to_value C new of
       Inl e \<Rightarrow> (Inl (DecodeError e), pg)
     | Inr payload \<Rightarrow>
        (case write_row D others (pg_client pg) tenant aor expected payload of
           (Inl e, d) \<Rightarrow> (Inl e, pg\<lparr>pg_client := d\<rparr>)
         | (Inr affected, d) \<Rightarrow>
            if affected = 0 then
              (let d = others 2 d in
               case read_inner D C d tenant aor of
                 Inl e \<Rightarrow> (Inl e, pg\<lparr>pg_client := d\<rparr>)
               | Inr (_, current) \<Rightarrow> (Inr (Inl \<lparr>cc_expected = expected, cc_current = current\<rparr>), pg\<lparr>pg_client := d\<rparr>))
            else
              (Inr (Inr (next_revision expected)),
               pg\<lparr>pg_client := d, pg_changes := push_change (pg_changes pg)
                  \<lparr>ch_tenant = tenant, ch_aor = aor, ch_revision = next_revision expected\<rparr>\<rparr>)))"

definition pg_read ::
  "('d, 'j) database \<Rightarrow> 'j json_codec \<Rightarrow> 'd postgres \<Rightarrow> string \<Rightarrow> canonical_aor
    \<Rightarrow> read_failure + (binding_set \<times> revision)" where
  "pg_read D C pg tenant aor = map_sum failure_of id (read_inner D C (pg_client pg) tenant aor)"

definition pg_commit ::
  "('d, 'j) database \<Rightarrow> 'j json_codec \<Rightarrow> (nat \<Rightarrow> 'd \<Rightarrow> 'd) \<Rightarrow> 'd postgres \<Rightarrow> string \<Rightarrow> canonical_aor \<Rightarrow> revision
    \<Rightarrow> binding_set \<Rightarrow> (cas_conflict + revision) \<times> 'd postgres" where
  "pg_commit D C others pg tenant aor expected new =
    (case commit_inner D C others pg tenant aor expected new of
       (Inr outcome, pg) \<Rightarrow> (outcome, pg)
     | (Inl _, pg) \<Rightarrow> (Inl \<lparr>cc_expected = expected, cc_current = expected\<rparr>, pg))"

definition pg_lookup ::
  "('d, 'j) database \<Rightarrow> 'j json_codec \<Rightarrow> 'd postgres \<Rightarrow> string \<Rightarrow> canonical_aor \<Rightarrow> timestamp
    \<Rightarrow> read_failure + target list" where
  "pg_lookup D C pg tenant aor now =
    (case pg_read D C pg tenant aor of Inl failure \<Rightarrow> Inl failure | Inr (found, _) \<Rightarrow> Inr (order_targets found now))"

definition postgres_store ::
  "('d, 'j) database \<Rightarrow> 'j json_codec \<Rightarrow> (nat \<Rightarrow> 'd \<Rightarrow> 'd) \<Rightarrow> 'd postgres location_store" where
  "postgres_store D C others =
    \<lparr>ls_read = pg_read D C, ls_commit = pg_commit D C others, ls_lookup = pg_lookup D C, ls_changes = pg_changes\<rparr>"

text \<open>\<^verbatim>\<open>BlockingStore\<close> hands every call to the store it wraps, off the scheduler.\<close>

definition blocking_store :: "'s location_store \<Rightarrow> 's location_store" where
  "blocking_store inner =
    \<lparr>ls_read = (\<lambda>s tenant aor. ls_read inner s tenant aor),
     ls_commit = (\<lambda>s tenant aor expected new. ls_commit inner s tenant aor expected new),
     ls_lookup = (\<lambda>s tenant aor now. ls_lookup inner s tenant aor now),
     ls_changes = (\<lambda>s. ls_changes inner s)\<rparr>"

lemma blocking_store_same: "blocking_store st = st"
  by (simp add: blocking_store_def)

section \<open>Opening the configured store\<close>

datatype 'd opened_store = OpenedMemory memory | OpenedPostgres "'d postgres"

text \<open>\<^verbatim>\<open>NodeError\<close>: what stops a node.\<close>

datatype node_error =
    TransportFailed string
  | ListenerFailed listener_error
  | NoCleartextListener
  | LocationStoreUnreachable string
  | TransportGone

fun node_error_text :: "node_error \<Rightarrow> string" where
  "node_error_text (TransportFailed e) = e"
| "node_error_text (ListenerFailed e) = listener_error_text e"
| "node_error_text NoCleartextListener = ''no UDP or TCP listener is declared, and a TLS-only node cannot be served yet''"
| "node_error_text (LocationStoreUnreachable e) = ''the configured location store could not be reached: '' @ e"
| "node_error_text TransportGone = ''the transport driver stopped delivering requests; this node can no longer serve''"

text \<open>\<open>joined\<close> is the connecting thread: \<open>None\<close> when it panicked.  \<open>postgres_feature\<close> is whether the
  backend was compiled in.\<close>

definition open_store ::
  "bool \<Rightarrow> (string \<Rightarrow> (store_error + 'd postgres) option) \<Rightarrow> store_choice \<Rightarrow> node_error + 'd opened_store" where
  "open_store postgres_feature joined choice =
    (case choice of
       StoreInMemory \<Rightarrow> Inr (OpenedMemory mem_new)
     | StorePostgres dsn \<Rightarrow>
        if postgres_feature then
          (case joined dsn of
             None \<Rightarrow> Inl (LocationStoreUnreachable ''the connecting thread panicked'')
           | Some (Inl e) \<Rightarrow> Inl (LocationStoreUnreachable (store_error_text e))
           | Some (Inr pg) \<Rightarrow> Inr (OpenedPostgres pg))
        else Inl (LocationStoreUnreachable ''this binary was built without the `postgres` feature''))"

section \<open>What a statement does\<close>

lemma sql_insert: "sql_honoured D contents \<Longrightarrow>
    ran contents (contents d) (insert_row (contents d) (t, a) rv j) (db_insert D d t a rv j)"
  by (simp add: sql_honoured_def)

lemma sql_update: "sql_honoured D contents \<Longrightarrow>
    ran contents (contents d) (update_row (contents d) (t, a) rv j expected) (db_update D d t a rv j expected)"
  by (simp add: sql_honoured_def)

lemma sql_select: "sql_honoured D contents \<Longrightarrow> db_select D d t a = Inr found \<Longrightarrow> found = contents d (t, a)"
  unfolding sql_honoured_def by (metis sum.simps(6))

lemma revision_of_to_i64: "uint (rev_number rv) < 2 ^ 63 \<Longrightarrow> revision_of_i64 (revision_to_i64 rv) = rv"
  by (cases rv) (simp add: revision_of_i64_def revision_to_i64_def)

lemma revision_to_of_i64: "0 \<le> n \<Longrightarrow> n < 2 ^ 63 \<Longrightarrow> revision_to_i64 (revision_of_i64 n) = n"
  by (simp add: revision_of_i64_def revision_to_i64_def uint_word_of_int)

lemma revision_to_i64_next:
  assumes "uint (rev_number rv) < 2 ^ 63 - 1"
  shows "revision_to_i64 (next_revision rv) = uint (rev_number rv) + 1"
proof -
  have "uint (rev_number rv + 1) = uint (rev_number rv) + 1"
    using assms by (simp add: uint_word_ariths)
  with assms show ?thesis by (simp add: revision_to_i64_def next_revision_def)
qed

text \<open>The row a commit under \<open>expected\<close> may replace.\<close>

definition row_holds :: "(int \<times> 'j) option \<Rightarrow> revision \<Rightarrow> bool" where
  "row_holds row expected =
    (case row of None \<Rightarrow> expected = INITIAL | Some (held, _) \<Rightarrow> held = uint (rev_number expected))"

lemma insert_row_some: "insert_row tbl k rv j = (n, tbl') \<Longrightarrow> 0 < n \<Longrightarrow> tbl k = None \<and> tbl' = tbl(k \<mapsto> (rv, j))"
  by (auto simp: insert_row_def split: option.splits)

lemma insert_row_none: "insert_row tbl k rv j = (0, tbl') \<Longrightarrow> tbl' = tbl \<and> tbl k \<noteq> None"
  by (auto simp: insert_row_def split: option.splits)

lemma update_row_some: "update_row tbl k rv j expected = (n, tbl') \<Longrightarrow> 0 < n \<Longrightarrow>
    (\<exists>held. tbl k = Some (expected, held)) \<and> tbl' = tbl(k \<mapsto> (rv, j))"
  by (auto simp: update_row_def split: option.splits if_splits)

lemma update_row_none: "update_row tbl k rv j expected = (0, tbl') \<Longrightarrow>
    tbl' = tbl \<and> (\<forall>held. tbl k \<noteq> Some (expected, held))"
  by (auto simp: update_row_def split: option.splits if_splits)

lemma predicated_update_some:
  assumes "sql_honoured D contents" "uint (rev_number expected) < 2 ^ 63 - 1"
    and "predicated_update D d t a expected j = (Inr n, d')" "0 < n"
  shows "row_holds (contents d (t, aor_str a)) expected
    \<and> contents d' = (contents d)((t, aor_str a) \<mapsto> (uint (rev_number expected) + 1, j))"
proof -
  have "revision_to_i64 expected = uint (rev_number expected)" using assms(2) by (simp add: revision_to_i64_def)
  with assms show ?thesis
    using sql_update [OF assms(1), of d t "aor_str a" "revision_to_i64 (next_revision expected)" j "revision_to_i64 expected"]
    by (auto simp: predicated_update_def ran_def revision_to_i64_next row_holds_def
        dest!: update_row_some split: prod.splits sum.splits)
qed

lemma write_row_some:
  assumes "sql_honoured D contents" "uint (rev_number expected) < 2 ^ 63 - 1"
    and "write_row D others d t a expected j = (Inr n, d')" "0 < n"
  shows "\<exists>seen. (seen = others 0 d \<or> (\<exists>d1. contents d1 \<in> {contents d, contents (others 0 d)} \<and> seen = others 1 d1))
    \<and> row_holds (contents seen (t, aor_str a)) expected
    \<and> contents d' = (contents seen)((t, aor_str a) \<mapsto> (uint (rev_number expected) + 1, j))"
proof (cases "expected = INITIAL")
  case False
  with assms(3) have "predicated_update D (others 1 d) t a expected j = (Inr n, d')" by (simp add: write_row_def)
  from predicated_update_some [OF assms(1,2) this assms(4)] show ?thesis by blast
next
  case True
  let ?rv = "revision_to_i64 (next_revision expected)"
  obtain n1 d1 where ins: "db_insert D (others 0 d) t (aor_str a) ?rv j = (Inr n1, d1)"
    using assms(3) True by (auto simp: write_row_def split: prod.splits sum.splits)
  note ran = sql_insert [OF assms(1), of "others 0 d" t "aor_str a" ?rv j]
  show ?thesis
  proof (cases "n1 = 0")
    case False
    then have "n1 = n" "d1 = d'" using assms(3) True ins by (auto simp: write_row_def)
    then have "insert_row (contents (others 0 d)) (t, aor_str a) ?rv j = (n, contents d')"
      using ran ins by (simp add: ran_def)
    from insert_row_some [OF this assms(4)] show ?thesis
      using True revision_to_i64_next [OF assms(2)] by (intro exI [of _ "others 0 d"]) (simp add: row_holds_def)
  next
    case True0: True
    then have "predicated_update D (others 1 d1) t a expected j = (Inr n, d')"
      using assms(3) True ins by (simp add: write_row_def)
    note predicated_update_some [OF assms(1,2) this assms(4)]
    moreover have "contents d1 = contents (others 0 d)"
      using ran ins True0 by (auto simp: ran_def dest: insert_row_none)
    ultimately show ?thesis by (intro exI [of _ "others 1 d1"]) auto
  qed
qed

lemma write_row_alone:
  assumes "sql_honoured D contents" "uint (rev_number expected) < 2 ^ 63 - 1"
    and "write_row D (\<lambda>_ d. d) d t a expected j = (result, d')"
  shows "(case result of
      Inr n \<Rightarrow> if row_holds (contents d (t, aor_str a)) expected
        then 0 < n \<and> contents d' = (contents d)((t, aor_str a) \<mapsto> (uint (rev_number expected) + 1, j))
        else n = 0 \<and> contents d' = contents d
    | Inl _ \<Rightarrow> contents d' = contents d
        \<or> row_holds (contents d (t, aor_str a)) expected
          \<and> contents d' = (contents d)((t, aor_str a) \<mapsto> (uint (rev_number expected) + 1, j)))"
proof -
  let ?rv = "revision_to_i64 (next_revision expected)"
  have small: "revision_to_i64 expected = uint (rev_number expected)" using assms(2) by (simp add: revision_to_i64_def)
  have update: ?thesis if "predicated_update D d1 t a expected j = (result, d')" "contents d1 = contents d"
    and "expected = INITIAL \<Longrightarrow> contents d (t, aor_str a) \<noteq> None" for d1
    using that sql_update [OF assms(1), of d1 t "aor_str a" ?rv j "revision_to_i64 expected"]
    by (auto simp: predicated_update_def ran_def update_row_def row_holds_def small revision_to_i64_next [OF assms(2)]
        split: prod.splits sum.splits option.splits if_splits)
  show ?thesis
  proof (cases "expected = INITIAL")
    case False
    with assms(3) show ?thesis by (intro update [of d]) (simp_all add: write_row_def)
  next
    case True
    obtain r1 d1 where ins: "db_insert D d t (aor_str a) ?rv j = (r1, d1)" by fastforce
    note ran = sql_insert [OF assms(1), of d t "aor_str a" ?rv j, unfolded ins]
    have first: "revision_to_i64 (next_revision INITIAL) = uint (rev_number INITIAL) + 1"
      using revision_to_i64_next [OF assms(2)] True by simp
    show ?thesis
    proof (cases r1)
      case (Inl e)
      with assms(3) True ins ran show ?thesis
        by (auto simp: write_row_def ran_def insert_row_def row_holds_def first
            split: option.splits)
    next
      case (Inr n)
      show ?thesis
      proof (cases "n = 0")
        case True0: True
        have "insert_row (contents d) (t, aor_str a) ?rv j = (0, contents d1)"
          using ran Inr True0 by (simp add: ran_def)
        then have "contents d1 = contents d \<and> contents d (t, aor_str a) \<noteq> None" by (rule insert_row_none)
        with assms(3) True ins Inr True0 show ?thesis by (intro update [of d1]) (simp_all add: write_row_def)
      next
        case False
        with assms(3) True ins Inr ran show ?thesis
          by (auto simp: write_row_def ran_def insert_row_def row_holds_def first
              split: option.splits)
      qed
    qed
  qed
qed

section \<open>The backend as a location store\<close>

text \<open>What a healthy store shows of its rows.\<close>

definition pg_view :: "'j json_codec \<Rightarrow> ('d \<Rightarrow> 'j table) \<Rightarrow> 'd postgres \<Rightarrow> memory" where
  "pg_view C contents pg =
    \<lparr>mem_rows = (\<lambda>(t, a).
        case contents (pg_client pg) (t, aor_str a) of
          None \<Rightarrow> None
        | Some (rv, j) \<Rightarrow>
           (case from_value C j of Inl _ \<Rightarrow> None | Inr found \<Rightarrow> Some (found, revision_of_i64 rv))),
     mem_changes = pg_changes pg\<rparr>"

definition rows_readable :: "'j json_codec \<Rightarrow> 'j table \<Rightarrow> bool" where
  "rows_readable C tbl \<longleftrightarrow>
    (\<forall>k rv j. tbl k = Some (rv, j) \<longrightarrow> 0 \<le> rv \<and> rv < 2 ^ 63 \<and> \<not> isl (from_value C j))"

definition reads_back :: "'j json_codec \<Rightarrow> bool" where
  "reads_back C \<longleftrightarrow> (\<forall>s. \<exists>j. to_value C s = Inr j \<and> from_value C j = Inr s)"

lemma rows_readableD: "rows_readable C tbl \<Longrightarrow> tbl k = Some (rv, j) \<Longrightarrow>
    0 \<le> rv \<and> rv < 2 ^ 63 \<and> (\<exists>found. from_value C j = Inr found)"
  unfolding rows_readable_def by (metis isl_def sum.exhaust)

lemma never_fails_select: "never_fails D \<Longrightarrow> sql_honoured D contents \<Longrightarrow>
    db_select D d t a = Inr (contents d (t, a))"
  unfolding never_fails_def by (cases "db_select D d t a") (auto dest: sql_select, metis isl_def)

lemma read_inner_view:
  assumes "sql_honoured D contents" "never_fails D" "rows_readable C (contents (pg_client pg))"
  shows "read_inner D C (pg_client pg) t a
    = Inr (case mem_rows (pg_view C contents pg) (t, a) of None \<Rightarrow> (set_new, INITIAL) | Some found \<Rightarrow> found)"
  using rows_readableD [OF assms(3), of "(t, aor_str a)"]
  by (auto simp: read_inner_def never_fails_select [OF assms(2,1)] pg_view_def split: option.split)

lemma view_row_holds:
  assumes "rows_readable C (contents (pg_client pg))" "uint (rev_number expected) < 2 ^ 63 - 1"
  shows "row_holds (contents (pg_client pg) (t, aor_str a)) expected
    \<longleftrightarrow> (case mem_rows (pg_view C contents pg) (t, a) of None \<Rightarrow> INITIAL | Some (_, rv) \<Rightarrow> rv) = expected"
proof (cases "contents (pg_client pg) (t, aor_str a)")
  case (Some row)
  obtain rv j where row: "row = (rv, j)" by force
  from rows_readableD [OF assms(1) Some [unfolded row]] obtain found
    where r: "0 \<le> rv" "rv < 2 ^ 63" "from_value C j = Inr found" by blast
  have "rv = uint (rev_number expected) \<longleftrightarrow> revision_of_i64 rv = expected"
    using revision_to_of_i64 [OF r(1,2)] revision_of_to_i64 [of expected] assms(2)
    by (auto simp: revision_to_i64_def)
  with Some row r show ?thesis by (simp add: row_holds_def pg_view_def)
qed (auto simp: row_holds_def pg_view_def)

lemma never_fails_write: "never_fails D \<Longrightarrow> write_row D others d t a expected j \<noteq> (Inl e, d')"
  unfolding never_fails_def
  by (auto simp: write_row_def predicated_update_def split: prod.splits sum.splits if_splits)
    (metis fst_conv isl_def sum.disc(1))+

section \<open>What the backend promises\<close>

text \<open>A concrete database for the instances below: the table itself, every statement applied, and one
  whose update is applied and then loses its acknowledgement.\<close>

definition table_db :: "('j table, 'j) database" where
  "table_db =
    \<lparr>db_select = (\<lambda>d t a. Inr (d (t, a))),
     db_insert = (\<lambda>d t a rv j. map_prod Inr id (insert_row d (t, a) rv j)),
     db_update = (\<lambda>d t a rv j expected. map_prod Inr id (update_row d (t, a) rv j expected)),
     db_delete = (\<lambda>d t. (Inr 0, \<lambda>(t', a). if t' = t then None else d (t', a))),
     db_lock = (\<lambda>d _. (Inr 1, d)), db_schema = (\<lambda>d. (Inr (), d)), db_unlock = (\<lambda>d _. (Inr 1, d))\<rparr>"

definition lossy_db :: "('j table, 'j) database" where
  "lossy_db = table_db\<lparr>db_update := (\<lambda>d t a rv j expected. map_prod (\<lambda>_. Inl ''connection reset'') id (update_row d (t, a) rv j expected))\<rparr>"

definition verbatim_codec :: "binding_set json_codec" where
  "verbatim_codec = \<lparr>to_value = Inr, from_value = Inr\<rparr>"

lemma table_db_honours: "sql_honoured table_db (\<lambda>d. d)"
  by (auto simp: sql_honoured_def table_db_def ran_def)

lemma lossy_db_honours: "sql_honoured lossy_db (\<lambda>d. d)"
  by (auto simp: sql_honoured_def lossy_db_def table_db_def ran_def)

lemma table_db_never_fails: "never_fails table_db"
  by (simp add: never_fails_def table_db_def)

lemma pg_read_view:
  assumes "sql_honoured D contents" "never_fails D" "rows_readable C (contents (pg_client pg))"
  shows "pg_read D C pg = mem_read (pg_view C contents pg)"
  by (intro ext) (simp add: pg_read_def mem_read_def read_inner_view [OF assms])

lemma pg_lookup_view:
  assumes "sql_honoured D contents" "never_fails D" "rows_readable C (contents (pg_client pg))"
  shows "pg_lookup D C pg = mem_lookup (pg_view C contents pg)"
  by (intro ext)
    (auto simp: pg_lookup_def pg_read_view [OF assms] mem_read_def mem_lookup_def set_new_def order_targets_def
      active_def sort_by_def split: option.splits)

text \<open>The row \<open>new\<close> under the revision after \<open>expected\<close>, every other row as it was, where \<open>expected\<close> was
  held.\<close>

definition installed ::
  "'j json_codec \<Rightarrow> ('d \<Rightarrow> 'j table) \<Rightarrow> 'd postgres \<Rightarrow> 'd postgres \<Rightarrow> string \<Rightarrow> canonical_aor \<Rightarrow> revision
    \<Rightarrow> binding_set \<Rightarrow> bool" where
  "installed C contents pg pg' t a expected new \<longleftrightarrow>
    row_holds (contents (pg_client pg) (t, aor_str a)) expected
    \<and> (\<exists>j. to_value C new = Inr j
      \<and> contents (pg_client pg') = (contents (pg_client pg))((t, aor_str a) \<mapsto> (uint (rev_number expected) + 1, j)))"

lemma view_installed:
  assumes "reads_back C" "uint (rev_number expected) < 2 ^ 63 - 1" "to_value C new = Inr j"
    and "contents d = (contents (pg_client pg))((t, aor_str a) \<mapsto> (uint (rev_number expected) + 1, j))"
  shows "pg_view C contents \<lparr>pg_client = d, pg_changes = changes\<rparr>
    = \<lparr>mem_rows = (mem_rows (pg_view C contents pg))((t, a) \<mapsto> (new, next_revision expected)), mem_changes = changes\<rparr>"
proof -
  have "from_value C j = Inr new" using assms(1,3) unfolding reads_back_def by (metis sum.inject(2))
  moreover have "revision_of_i64 (uint (rev_number expected) + 1) = next_revision expected"
    by (simp add: revision_of_i64_def next_revision_def)
  ultimately show ?thesis
    by (auto simp: pg_view_def assms(4) fun_eq_iff canonical_aor.expand)
qed

lemma pg_commit_view:
  assumes "sql_honoured D contents" "never_fails D" "reads_back C"
    and "rows_readable C (contents (pg_client pg))" "uint (rev_number expected) < 2 ^ 63 - 1"
    and "ls_commit (postgres_store D C (\<lambda>_ d. d)) pg t a expected new = (answer, pg')"
  shows "mem_commit (pg_view C contents pg) t a expected new = (answer, pg_view C contents pg')
    \<and> rows_readable C (contents (pg_client pg'))"
proof -
  let ?k = "(t, aor_str a)"
  let ?current = "case mem_rows (pg_view C contents pg) (t, a) of None \<Rightarrow> INITIAL | Some (_, rv) \<Rightarrow> rv"
  obtain j where j: "to_value C new = Inr j" "from_value C j = Inr new" using assms(3) unfolding reads_back_def by blast
  obtain n d where w: "write_row D (\<lambda>_ d. d) (pg_client pg) t a expected j = (Inr n, d)"
    by (metis never_fails_write [OF assms(2)] prod.exhaust sum.exhaust)
  note wrote = write_row_alone [OF assms(1,5) w]
  show ?thesis
  proof (cases "?current = expected")
    case True
    then have holds: "row_holds (contents (pg_client pg) ?k) expected" using view_row_holds [where contents = contents, OF assms(4,5)] by simp
    then have d: "0 < n" "contents d = (contents (pg_client pg))(?k \<mapsto> (uint (rev_number expected) + 1, j))"
      using wrote by simp_all
    have res: "answer = Inr (next_revision expected)" "pg' = \<lparr>pg_client = d, pg_changes = push_change (pg_changes pg)
        \<lparr>ch_tenant = t, ch_aor = a, ch_revision = next_revision expected\<rparr>\<rparr>"
      using assms(6) j w d(1) by (auto simp: postgres_store_def pg_commit_def commit_inner_def)
    have "rows_readable C (contents d)"
      using assms(4,5) j(2) unfolding d(2) rows_readable_def by (auto simp: fun_upd_def)
    with res view_installed [where contents = contents, OF assms(3,5) j(1) d(2)] True show ?thesis
      by (simp add: mem_commit_def Let_def push_change_def) (simp add: pg_view_def)
  next
    case False
    then have "\<not> row_holds (contents (pg_client pg) ?k) expected" using view_row_holds [where contents = contents, OF assms(4,5)] by simp
    then have d: "n = 0" "contents d = contents (pg_client pg)" using wrote by simp_all
    let ?pg = "pg\<lparr>pg_client := d\<rparr>"
    have view: "pg_view C contents ?pg = pg_view C contents pg" by (simp add: pg_view_def d(2))
    have "rows_readable C (contents (pg_client ?pg))" using assms(4) d(2) by simp
    from read_inner_view [OF assms(1,2) this, of t a] have "read_inner D C d t a
      = Inr (case mem_rows (pg_view C contents pg) (t, a) of None \<Rightarrow> (set_new, INITIAL) | Some found \<Rightarrow> found)"
      unfolding view by simp
    with assms(6) j w d(1) have "answer = Inl \<lparr>cc_expected = expected, cc_current = ?current\<rparr>" "pg' = ?pg"
      by (auto simp: postgres_store_def pg_commit_def commit_inner_def split: option.splits prod.splits)
    with False view d(2) assms(4) show ?thesis by (simp add: mem_commit_def Let_def)
  qed
qed

text \<open>C3. Whatever the other nodes do to the database between the statements of a commit, and however
  many statements fail, a commit that reports success returns the revision after the expected one, and
  the row it wrote replaced a row of exactly the expected revision, or no row for the first write, as
  the database stood when the statement ran: no other node's row is overwritten unseen.\<close>

theorem commit_is_fenced:
  assumes "sql_honoured D contents" "uint (rev_number expected) < 2 ^ 63 - 1"
    and "ls_commit (postgres_store D C others) pg t a expected new = (Inr committed, pg')"
  shows "committed = next_revision expected
    \<and> (\<exists>j seen. to_value C new = Inr j
      \<and> (seen = others 0 (pg_client pg)
          \<or> (\<exists>d. contents d \<in> {contents (pg_client pg), contents (others 0 (pg_client pg))} \<and> seen = others 1 d))
      \<and> row_holds (contents seen (t, aor_str a)) expected
      \<and> contents (pg_client pg') = (contents seen)((t, aor_str a) \<mapsto> (uint (rev_number expected) + 1, j)))"
proof -
  obtain j n d where "to_value C new = Inr j" "committed = next_revision expected" "pg_client pg' = d"
    and "write_row D others (pg_client pg) t a expected j = (Inr n, d)" "0 < n"
    using assms(3)
    by (auto simp: postgres_store_def pg_commit_def commit_inner_def Let_def
        split: sum.splits prod.splits if_splits)
  with write_row_some [OF assms(1,2)] show ?thesis by metis
qed

theorem commit_is_fenced_witness:
  "\<exists>pg' j seen. ls_commit (postgres_store table_db verbatim_codec (\<lambda>_ d. d)) \<lparr>pg_client = (\<lambda>_. None), pg_changes = []\<rparr>
      ''home'' (CanonicalAor ''sip:a@h'') INITIAL set_new = (Inr (Revision 1), pg')
    \<and> row_holds (seen (''home'', ''sip:a@h'')) INITIAL
    \<and> pg_client pg' = seen((''home'', ''sip:a@h'') \<mapsto> (1, j))"
proof -
  let ?pg = "\<lparr>pg_client = (\<lambda>_. None), pg_changes = []\<rparr> :: binding_set table postgres"
  obtain pg' where run: "ls_commit (postgres_store table_db verbatim_codec (\<lambda>_ d. d)) ?pg
      ''home'' (CanonicalAor ''sip:a@h'') INITIAL set_new = (Inr (Revision 1), pg')"
    by (simp add: postgres_store_def pg_commit_def commit_inner_def verbatim_codec_def write_row_def table_db_def
        insert_row_def next_revision_def INITIAL_def)
  then show ?thesis
    using commit_is_fenced [OF table_db_honours _ run] by (auto simp: INITIAL_def)
qed

text \<open>C4. On a database whose statements succeed and that nobody else writes, the PostgreSQL backend is
  the in-memory one: a read, a lookup and the change feed give what the in-memory store gives on the
  rows it shows, and a commit gives the same answer and leaves the rows of the in-memory commit, still
  readable.\<close>

theorem postgres_refines_memory:
  assumes "sql_honoured D contents" "never_fails D" "reads_back C"
    and "rows_readable C (contents (pg_client pg))" "uint (rev_number expected) < 2 ^ 63 - 1"
    and "ls_commit (postgres_store D C (\<lambda>_ d. d)) pg t a expected new = (answer, pg')"
  shows "ls_read (postgres_store D C (\<lambda>_ d. d)) pg = ls_read memory_store (pg_view C contents pg)
    \<and> ls_lookup (postgres_store D C (\<lambda>_ d. d)) pg = ls_lookup memory_store (pg_view C contents pg)
    \<and> ls_changes (postgres_store D C (\<lambda>_ d. d)) pg = ls_changes memory_store (pg_view C contents pg)
    \<and> ls_commit memory_store (pg_view C contents pg) t a expected new = (answer, pg_view C contents pg')
    \<and> rows_readable C (contents (pg_client pg'))"
  using pg_read_view [OF assms(1,2,4)] pg_lookup_view [OF assms(1,2,4)] pg_commit_view [OF assms]
  by (simp add: postgres_store_def memory_store_def pg_view_def)

theorem postgres_refines_memory_witness:
  "\<exists>pg'. ls_commit (postgres_store table_db verbatim_codec (\<lambda>_ d. d)) \<lparr>pg_client = (\<lambda>_. None), pg_changes = []\<rparr>
      ''home'' (CanonicalAor ''sip:a@h'') INITIAL set_new = (Inr (Revision 1), pg')
    \<and> ls_commit memory_store mem_new ''home'' (CanonicalAor ''sip:a@h'') INITIAL set_new
        = (Inr (Revision 1), pg_view verbatim_codec (\<lambda>d. d) pg')"
proof -
  let ?pg = "\<lparr>pg_client = (\<lambda>_. None), pg_changes = []\<rparr> :: binding_set table postgres"
  obtain pg' where run: "ls_commit (postgres_store table_db verbatim_codec (\<lambda>_ d. d)) ?pg
      ''home'' (CanonicalAor ''sip:a@h'') INITIAL set_new = (Inr (Revision 1), pg')"
    by (simp add: postgres_store_def pg_commit_def commit_inner_def verbatim_codec_def write_row_def table_db_def
        insert_row_def next_revision_def INITIAL_def)
  have "pg_view verbatim_codec (\<lambda>d. d) ?pg = mem_new" by (simp add: pg_view_def mem_new_def fun_eq_iff)
  then show ?thesis
    using run postgres_refines_memory [OF table_db_honours table_db_never_fails _ _ _ run]
    by (auto simp: INITIAL_def reads_back_def verbatim_codec_def rows_readable_def)
qed

text \<open>C25. What one node's commit leaves behind, statements failing as they may: a success installed the
  set; a conflict names the expected revision and left every row as it was, unless a write was applied
  and its acknowledgement lost, and then the conflict reports the expected revision itself and the row
  is exactly the one a success would have installed.  The change feed grows with successes only.\<close>

theorem commit_answers_account:
  assumes "sql_honoured D contents" "uint (rev_number expected) < 2 ^ 63 - 1"
    and "ls_commit (postgres_store D C (\<lambda>_ d. d)) pg t a expected new = (answer, pg')"
  shows "case answer of
      Inr committed \<Rightarrow> committed = next_revision expected
        \<and> installed C contents pg pg' t a expected new
        \<and> pg_changes pg' = push_change (pg_changes pg) \<lparr>ch_tenant = t, ch_aor = a, ch_revision = committed\<rparr>
    | Inl conflict \<Rightarrow> cc_expected conflict = expected \<and> pg_changes pg' = pg_changes pg
        \<and> (contents (pg_client pg') = contents (pg_client pg)
          \<or> cc_current conflict = expected \<and> installed C contents pg pg' t a expected new)"
proof (cases "to_value C new")
  case (Inl e)
  with assms(3) show ?thesis by (auto simp: postgres_store_def pg_commit_def commit_inner_def)
next
  case (Inr j)
  obtain result d where w: "write_row D (\<lambda>_ d. d) (pg_client pg) t a expected j = (result, d)" by fastforce
  show ?thesis
    using assms(3) write_row_alone [OF assms(1,2) w] Inr w
    by (auto simp: postgres_store_def pg_commit_def commit_inner_def installed_def Let_def
        split: sum.splits prod.splits if_splits)
qed

theorem commit_answers_account_witness:
  "\<exists>pg' c. ls_commit (postgres_store lossy_db verbatim_codec (\<lambda>_ d. d))
      \<lparr>pg_client = [(''home'', ''sip:a@h'') \<mapsto> (1, set_new)], pg_changes = []\<rparr>
      ''home'' (CanonicalAor ''sip:a@h'') (Revision 1) set_new = (Inl c, pg')
    \<and> cc_expected c = Revision 1 \<and> pg_changes pg' = []
    \<and> pg_client pg' (''home'', ''sip:a@h'') = Some (2, set_new)"
proof -
  let ?pg = "\<lparr>pg_client = [(''home'', ''sip:a@h'') \<mapsto> (1, set_new)], pg_changes = []\<rparr> :: binding_set table postgres"
  obtain pg' c where run: "ls_commit (postgres_store lossy_db verbatim_codec (\<lambda>_ d. d)) ?pg
      ''home'' (CanonicalAor ''sip:a@h'') (Revision 1) set_new = (Inl c, pg')"
    and row: "pg_client pg' (''home'', ''sip:a@h'') = Some (2, set_new)"
    by (simp add: postgres_store_def pg_commit_def commit_inner_def verbatim_codec_def write_row_def lossy_db_def
        table_db_def predicated_update_def update_row_def next_revision_def INITIAL_def revision_to_i64_def)
  show ?thesis
    using run row commit_answers_account [OF lossy_db_honours _ run] by auto
qed

text \<open>A read or a lookup answers from the row that is there, or reports that it could not: an empty
  answer means there is no row (or one that holds the empty set), never that the database failed or the
  row could not be decoded; and the two failures stay apart.\<close>

theorem absence_is_never_invented:
  assumes "sql_honoured D contents"
  shows "case ls_read (postgres_store D C others) pg t a of
      Inr (found, rv) \<Rightarrow>
        (case contents (pg_client pg) (t, aor_str a) of
           None \<Rightarrow> found = set_new \<and> rv = INITIAL
         | Some (n, j) \<Rightarrow> from_value C j = Inr found \<and> rv = revision_of_i64 n)
        \<and> ls_lookup (postgres_store D C others) pg t a now = Inr (order_targets found now)
    | Inl failure \<Rightarrow> ls_lookup (postgres_store D C others) pg t a now = Inl failure
        \<and> (case failure of
             ReadUnavailable _ \<Rightarrow> isl (db_select D (pg_client pg) t (aor_str a))
           | Undecodable _ \<Rightarrow>
              (case contents (pg_client pg) (t, aor_str a) of None \<Rightarrow> False | Some (_, j) \<Rightarrow> isl (from_value C j)))"
  using sql_select [OF assms, of "pg_client pg" t "aor_str a"]
  by (auto simp: postgres_store_def pg_read_def pg_lookup_def read_inner_def
      split: sum.splits option.splits prod.splits)

theorem absence_is_never_invented_witness:
  "\<exists>text. ls_read (postgres_store table_db \<lparr>to_value = Inr, from_value = (\<lambda>_. Inl ''wrong shape'')\<rparr> (\<lambda>_ d. d))
      \<lparr>pg_client = [(''home'', ''sip:a@h'') \<mapsto> (1, set_new)], pg_changes = []\<rparr> ''home'' (CanonicalAor ''sip:a@h'')
    = Inl (Undecodable text)
    \<and> ls_lookup (postgres_store table_db \<lparr>to_value = Inr, from_value = (\<lambda>_. Inl ''wrong shape'')\<rparr> (\<lambda>_ d. d))
      \<lparr>pg_client = [(''home'', ''sip:a@h'') \<mapsto> (1, set_new)], pg_changes = []\<rparr> ''home'' (CanonicalAor ''sip:a@h'') (Timestamp 0)
    = Inl (Undecodable text)"
proof -
  let ?C = "\<lparr>to_value = Inr, from_value = (\<lambda>_. Inl ''wrong shape'')\<rparr> :: binding_set json_codec"
  let ?pg = "\<lparr>pg_client = [(''home'', ''sip:a@h'') \<mapsto> (1, set_new)], pg_changes = []\<rparr> :: binding_set table postgres"
  have "ls_read (postgres_store table_db ?C (\<lambda>_ d. d)) ?pg ''home'' (CanonicalAor ''sip:a@h'')
      = Inl (Undecodable (store_error_text (DecodeError ''wrong shape'')))"
    by (simp add: postgres_store_def pg_read_def read_inner_def table_db_def)
  with absence_is_never_invented [OF table_db_honours, of ?C "\<lambda>_ d. d" ?pg "''home''" "CanonicalAor ''sip:a@h''" "Timestamp 0"]
  show ?thesis by simp
qed

end
