(* ===== verification/Running.thy ===== *)
theory Running imports Prelude Ascii Driver Postgres begin

text \<open>
  The life of the process: \<^verbatim>\<open>main.rs\<close> from its arguments to its exit code, \<^verbatim>\<open>run_reporting\<close>
  of \<^verbatim>\<open>driver.rs\<close> up to the accept loop, the load report, and the authentication audit record.  The lemmas
  show that nothing is announced before the last thing that can refuse to start, that a node never exits
  with success, and that the load report says each change once.
\<close>

section \<open>Bringing a node up\<close>

text \<open>What a starting node does, in order.  The socket's address and the store are what the transport and
  \<^verbatim>\<open>open_store\<close> return.\<close>

datatype announcement =
    PrintListening socket_addr
  | PrintAdvertising string
  | ReportBound socket_addr
  | LogListening socket_addr string string string string string
  | LogAdmission u64

datatype startup_effect =
    Bound endpoint_settings socket_addr
  | Opened store_choice
  | Announced announcement

record ('d, 'a) node_running =
  nr_local :: socket_addr
  nr_store :: "'d opened_store"
  nr_policy :: tenant_policy
  nr_auth :: "'a tenant_auth"
  nr_credentials :: memory_credentials
  nr_admission :: admission_bound
  nr_cookie_key :: cookie_key

definition announcements :: "node_config \<Rightarrow> socket_addr \<Rightarrow> string \<Rightarrow> announcement list" where
  "announcements nc local advertised =
    [PrintListening local, PrintAdvertising advertised, ReportBound local,
     LogListening local advertised (nc_tenant nc) (capabilities_describe (nc_capabilities nc)) (store_describe (nc_store nc))
       (if nc_auth nc \<noteq> None then ''required'' else ''open''),
     LogAdmission (ab_max (bound_new (nc_max_in_flight nc)))]"

text \<open>\<^verbatim>\<open>cookie_key\<close>: the seed is the nanoseconds since the epoch, zero for a clock before it.\<close>

definition cookie_key_now :: "nat option \<Rightarrow> cookie_key" where
  "cookie_key_now since_epoch =
    CookieKey (''sipx-clstr/'' @ decimal (case since_epoch of Some nanos \<Rightarrow> nanos | None \<Rightarrow> 0))"

definition bring_up ::
  "('req, 'a, 'p, 'hn) auth_kernel \<Rightarrow> (socket_addr \<Rightarrow> endpoint_settings) \<Rightarrow> (endpoint_settings \<Rightarrow> string + socket_addr)
    \<Rightarrow> (store_choice \<Rightarrow> node_error + 'd opened_store) \<Rightarrow> nat option \<Rightarrow> node_config
    \<Rightarrow> (node_error + ('d, 'a) node_running) \<times> startup_effect list" where
  "bring_up AK base bind_endpoint opens since_epoch nc =
    (case cleartext (nc_listeners nc) of
       None \<Rightarrow> (Inl NoCleartextListener, [])
     | Some first_listener \<Rightarrow>
        (case endpoint_config base (nc_listeners nc) of
           None \<Rightarrow> (Inl NoCleartextListener, [])
         | Some endpoint \<Rightarrow>
            (case bind_endpoint endpoint of
               Inl e \<Rightarrow> (Inl (TransportFailed e), [])
             | Inr local \<Rightarrow>
                (case opens (nc_store nc) of
                   Inl e \<Rightarrow> (Inl e, [Bound endpoint local])
                 | Inr store \<Rightarrow>
                    (Inr \<lparr>nr_local = local, nr_store = store, nr_policy = nc_policy nc, nr_auth = node_tenant_auth AK nc,
                       nr_credentials = node_credentials nc, nr_admission = bound_new (nc_max_in_flight nc),
                       nr_cookie_key = cookie_key_now since_epoch\<rparr>,
                     Bound endpoint local # Opened (nc_store nc) # map Announced (announcements nc local (sent_by first_listener)))))))"

text \<open>\<^verbatim>\<open>run\<close>: a node that came up accepts arrivals (\<open>accept_one\<close>, \<open>serve\<close>) until the transport
  delivers no more, which is an error.\<close>

definition node_run ::
  "('req, 'a, 'p, 'hn) auth_kernel \<Rightarrow> (socket_addr \<Rightarrow> endpoint_settings) \<Rightarrow> (endpoint_settings \<Rightarrow> string + socket_addr)
    \<Rightarrow> (store_choice \<Rightarrow> node_error + 'd opened_store) \<Rightarrow> nat option \<Rightarrow> node_config
    \<Rightarrow> (node_error + unit) \<times> startup_effect list" where
  "node_run AK base bind_endpoint opens since_epoch nc =
    (case bring_up AK base bind_endpoint opens since_epoch nc of
       (Inl e, effects) \<Rightarrow> (Inl e, effects)
     | (Inr _, effects) \<Rightarrow> (Inl TransportGone, effects))"

section \<open>The process\<close>

fun startup_error_text :: "startup_error \<Rightarrow> string" where
  "startup_error_text (Unreadable named source) = ''cannot read '' @ named @ '': '' @ source"
| "startup_error_text (RejectedDocument problems) = decimal (length problems) @ '' problem(s) in the configuration''"
| "startup_error_text (StartListener e) = ''cluster.listener: '' @ listener_error_text e"
| "startup_error_text (UnresolvedReference key named variable) =
    key @ '' names `'' @ named @ ''`, which is not set in the environment as `'' @ variable @ ''`''"
| "startup_error_text (MissingIdentity e) = e"
| "startup_error_text (RoleNotServed role why) =
    ''this node was started with the `'' @ role @ ''` role, which this build cannot serve: '' @ why"

definition emdash :: string where "emdash = [CHR 0xE2, CHR 0x80, CHR 0x94]"

text \<open>The parsed command line, and an exit code with the lines on standard error.\<close>

datatype cli = CliVersion | CliRun string identity_args | CliBare

definition run_node ::
  "('n, 'f) yaml_lib \<Rightarrow> (transport_kind \<Rightarrow> string) \<Rightarrow> (string \<Rightarrow> string + bytes) \<Rightarrow> env \<Rightarrow> bool
    \<Rightarrow> (node_config \<Rightarrow> (node_error + unit) \<times> startup_effect list) \<Rightarrow> string \<Rightarrow> identity_args
    \<Rightarrow> nat \<times> string list \<times> startup_effect list" where
  "run_node y name read_file env runtime_starts runs file_name args =
    (case resolve_identity (or_env args env) of
       Inl e \<Rightarrow> (2, [''sipx-clstr: '' @ startup_error_text e], [])
     | Inr identity \<Rightarrow>
        (case from_document y name file_name (read_file file_name) identity env of
           Inl (RejectedDocument problems) \<Rightarrow>
             (2, (''sipx-clstr: '' @ file_name @ '' was refused '' @ emdash @ '' '' @ decimal (length problems) @ '' problem(s):'')
                 # map (\<lambda>problem. ''  '' @ problem) problems, [])
         | Inl e \<Rightarrow> (2, [''sipx-clstr: '' @ startup_error_text e], [])
         | Inr nc \<Rightarrow>
            if \<not> runtime_starts then (1, [''sipx-clstr: could not start the async runtime''], [])
            else
              (case runs nc of
                 (Inr _, effects) \<Rightarrow> (0, [], effects)
               | (Inl e, effects) \<Rightarrow> (1, [''sipx-clstr: '' @ node_error_text e], effects))))"

definition main_exit :: "(string \<Rightarrow> identity_args \<Rightarrow> nat \<times> string list \<times> startup_effect list) \<Rightarrow> cli
    \<Rightarrow> nat \<times> string list \<times> startup_effect list" where
  "main_exit starts c =
    (case c of CliVersion \<Rightarrow> (0, [], []) | CliRun config args \<Rightarrow> starts config args | CliBare \<Rightarrow> (0, [], []))"

section \<open>The load report\<close>

record load_sample =
  lo_outstanding :: u64
  lo_in_flight :: u64
  lo_admitted :: u64
  lo_refused :: u64
  lo_shed_requests :: u64
  lo_shed_acks :: u64
  lo_shed_unmatched :: u64

definition load_zero :: load_sample where
  "load_zero = \<lparr>lo_outstanding = 0, lo_in_flight = 0, lo_admitted = 0, lo_refused = 0, lo_shed_requests = 0,
    lo_shed_acks = 0, lo_shed_unmatched = 0\<rparr>"

record shed_counts =
  sh_requests :: u64
  sh_acks :: u64
  sh_unmatched :: u64

datatype load_line =
    AcksShed u64 u64
  | NodeLoad load_sample
  | EndpointGone shed_counts u64

record load_reporting =
  lr_previous :: load_sample
  lr_reported :: bool

definition report_start :: load_reporting where
  "report_start = \<lparr>lr_previous = load_zero, lr_reported = False\<rparr>"

definition load_of :: "shed_counts \<Rightarrow> u64 \<Rightarrow> admission_bound \<Rightarrow> load_sample" where
  "load_of shed outstanding b =
    \<lparr>lo_outstanding = outstanding, lo_in_flight = ab_in_flight b, lo_admitted = ab_admitted b, lo_refused = ab_refused b,
     lo_shed_requests = sh_requests shed, lo_shed_acks = sh_acks shed, lo_shed_unmatched = sh_unmatched shed\<rparr>"

text \<open>One turn of the loop after its sleep; \<open>None\<close> for the state when the task ends.\<close>

definition report_tick ::
  "load_reporting \<Rightarrow> shed_counts \<Rightarrow> u64 option \<Rightarrow> admission_bound \<Rightarrow> load_line list \<times> load_reporting option" where
  "report_tick r shed outstanding b =
    (case outstanding of
       None \<Rightarrow> ([EndpointGone shed (ab_refused b)], None)
     | Some outstanding \<Rightarrow>
        let sample = load_of shed outstanding b;
            acks = (if lo_shed_acks sample > lo_shed_acks (lr_previous r)
              then [AcksShed (lo_shed_acks sample) (lo_shed_acks sample - lo_shed_acks (lr_previous r))] else [])
        in if sample \<noteq> lr_previous r \<or> \<not> lr_reported r
           then (acks @ [NodeLoad sample], Some \<lparr>lr_previous = sample, lr_reported = True\<rparr>)
           else (acks, Some r))"

fun report_load :: "load_reporting \<Rightarrow> (shed_counts \<times> u64 option \<times> admission_bound) list \<Rightarrow> load_line list" where
  "report_load r [] = []"
| "report_load r ((shed, outstanding, b) # ticks) =
    (case report_tick r shed outstanding b of
       (lines, None) \<Rightarrow> lines
     | (lines, Some r) \<Rightarrow> lines @ report_load r ticks)"

section \<open>The authentication record\<close>

datatype audit_level = LevelInfo | LevelWarn

datatype audit_field = FieldPrincipal code_points | FieldStatus nat | FieldStale bool

record audit_record =
  au_level :: audit_level
  au_record_tenant :: string
  au_source :: socket_addr
  au_fields :: "audit_field list"
  au_because :: string
  au_message :: string

definition record_authentication :: "string \<Rightarrow> socket_addr \<Rightarrow> auth_outcome \<Rightarrow> audit_record" where
  "record_authentication tenant source outcome =
    (let rec = (\<lambda>level fields message. \<lparr>au_level = level, au_record_tenant = tenant, au_source = source,
        au_fields = fields, au_because = outcome_describe outcome, au_message = message\<rparr>)
     in case outcome of
       AuthAuthenticated proven \<Rightarrow> rec LevelInfo [FieldPrincipal (utf8_lossy (map of_char proven))] ''authentication succeeded''
     | Unauthenticated \<Rightarrow> rec LevelInfo [] ''authentication not required: proceeding unauthenticated''
     | Challenged status \<Rightarrow> rec LevelInfo [FieldStatus status] ''authentication challenged''
     | auth_outcome.Refused status stale _ \<Rightarrow> rec LevelWarn [FieldStatus status, FieldStale stale] ''authentication refused''
     | AuthForbidden \<Rightarrow> rec LevelWarn [FieldStatus 403] ''authentication refused'')"

section \<open>What the process promises\<close>

lemma record_warns: "au_level (record_authentication tenant source outcome) = LevelWarn \<longleftrightarrow> is_refusal outcome"
  by (cases outcome) (simp_all add: record_authentication_def)

lemma record_names_proven_only:
  "FieldPrincipal p \<in> set (au_fields (record_authentication tenant source outcome)) \<longleftrightarrow>
    (\<exists>proven. outcome = AuthAuthenticated proven \<and> p = utf8_lossy (map of_char proven))"
  by (cases outcome) (auto simp: record_authentication_def)

lemma bring_up_cases:
  "bring_up AK base bind_endpoint opens since_epoch nc = (result, effects) \<Longrightarrow>
    (case result of
       Inl _ \<Rightarrow> \<forall>e \<in> set effects. \<exists>endpoint local. e = Bound endpoint local
     | Inr r \<Rightarrow> \<exists>endpoint l. cleartext (nc_listeners nc) = Some l \<and> endpoint_config base (nc_listeners nc) = Some endpoint
        \<and> bind_endpoint endpoint = Inr (nr_local r) \<and> opens (nc_store nc) = Inr (nr_store r)
        \<and> effects = Bound endpoint (nr_local r) # Opened (nc_store nc)
            # map Announced (announcements nc (nr_local r) (sent_by l)))"
  by (auto simp: bring_up_def split: option.splits sum.splits)

text \<open>A node announces itself, on standard output, to its caller or in the log, only after its socket is
  bound and its store is open, names the address the transport bound and the one it advertises, and
  announces all of it or nothing: a start that fails says nothing.\<close>

theorem announced_only_when_up:
  assumes "node_run AK base bind_endpoint opens since_epoch nc = (result, effects)"
    and "effects = pre @ Announced a # rest"
  shows "result = Inl TransportGone
    \<and> (\<exists>endpoint local l store. bind_endpoint endpoint = Inr local \<and> Bound endpoint local \<in> set pre
      \<and> opens (nc_store nc) = Inr store \<and> Opened (nc_store nc) \<in> set pre
      \<and> cleartext (nc_listeners nc) = Some l \<and> a \<in> set (announcements nc local (sent_by l))
      \<and> map Announced (announcements nc local (sent_by l)) = filter (\<lambda>e. case e of Announced _ \<Rightarrow> True | _ \<Rightarrow> False) effects)"
proof -
  obtain up where up: "bring_up AK base bind_endpoint opens since_epoch nc = (up, effects)"
    and result: "result = (case up of Inl e \<Rightarrow> Inl e | Inr _ \<Rightarrow> Inl TransportGone)"
    using assms(1) by (auto simp: node_run_def split: prod.splits sum.splits)
  note came = bring_up_cases [OF up]
  show ?thesis
  proof (cases up)
    case (Inl e)
    with came assms(2) show ?thesis by auto
  next
    case (Inr r)
    with came obtain endpoint l where r: "cleartext (nc_listeners nc) = Some l" "bind_endpoint endpoint = Inr (nr_local r)"
      "opens (nc_store nc) = Inr (nr_store r)"
      "effects = Bound endpoint (nr_local r) # Opened (nc_store nc) # map Announced (announcements nc (nr_local r) (sent_by l))"
      by auto
    obtain more where pre: "pre = Bound endpoint (nr_local r) # Opened (nc_store nc) # more"
      and more: "map Announced (announcements nc (nr_local r) (sent_by l)) = more @ Announced a # rest"
      using assms(2) unfolding r(4) by (cases pre; cases "tl pre") auto
    have "a \<in> set (announcements nc (nr_local r) (sent_by l))"
      using arg_cong [OF more, of set] by auto
    with r pre result Inr show ?thesis
      by (auto simp: filter_map comp_def)
  qed
qed

definition announcing_listener :: listener where
  "announcing_listener =
    \<lparr>li_transport = Udp, li_bind = \<lparr>socket_addr.sa_ip = V4 1, socket_addr.sa_port = 5060, sa_flowinfo = 0, sa_scope = 0\<rparr>,
     li_advertise = \<lparr>ad_host = ''sip.example'', ad_port = None\<rparr>\<rparr>"

theorem announced_only_when_up_witness:
  "\<forall>AK :: ('req, 'a, 'p, 'hn) auth_kernel. \<exists>effects endpoint local.
    node_run AK (\<lambda>a. \<lparr>es_bind = a, es_sent_by = [], es_sent_by_port = None, es_tcp = False\<rparr>) (\<lambda>e. Inr (es_bind e))
      (\<lambda>_. Inr (OpenedMemory mem_new :: nat opened_store)) None (node_listening [announcing_listener])
      = (Inl TransportGone, effects)
    \<and> effects ! 3 = Announced (PrintAdvertising (sent_by announcing_listener))
    \<and> Bound endpoint local \<in> set (take 3 effects) \<and> Opened StoreInMemory \<in> set (take 3 effects)"
proof
  fix AK :: "('req, 'a, 'p, 'hn) auth_kernel"
  let ?base = "\<lambda>a. \<lparr>es_bind = a, es_sent_by = [], es_sent_by_port = None, es_tcp = False\<rparr>"
  let ?run = "node_run AK ?base (\<lambda>e. Inr (es_bind e)) (\<lambda>_. Inr (OpenedMemory mem_new :: nat opened_store)) None
    (node_listening [announcing_listener])"
  have first: "cleartext [announcing_listener] = Some announcing_listener"
    by (simp add: cleartext_def receiving_def announcing_listener_def)
  obtain pre rest where run: "?run = (Inl TransportGone, pre @ Announced (PrintAdvertising (sent_by announcing_listener)) # rest)"
    and pre: "length pre = 3"
  proof
    show "?run = (Inl TransportGone, take 3 (snd ?run) @ Announced (PrintAdvertising (sent_by announcing_listener)) # drop 4 (snd ?run))"
      by (simp add: node_run_def bring_up_def node_listening_def first endpoint_config_def announcements_def)
    show "length (take 3 (snd ?run)) = 3"
      by (simp add: node_run_def bring_up_def node_listening_def first endpoint_config_def announcements_def)
  qed
  from announced_only_when_up [OF run refl] pre run show "\<exists>effects endpoint local. ?run = (Inl TransportGone, effects)
      \<and> effects ! 3 = Announced (PrintAdvertising (sent_by announcing_listener))
      \<and> Bound endpoint local \<in> set (take 3 effects) \<and> Opened StoreInMemory \<in> set (take 3 effects)"
    by (auto simp: node_listening_def nth_append)
qed

text \<open>A process asked to run a node never exits with success: it exits with 2, having bound, opened and
  announced nothing, when the identity or the document is refused, and with 1 otherwise, what it did
  being what the node did; and it always says why on standard error.\<close>

theorem node_never_exits_cleanly:
  shows "case main_exit (run_node y name read_file env runtime_starts
        (node_run AK base bind_endpoint opens since_epoch)) (CliRun file_name args) of (code, errors, effects) \<Rightarrow>
      errors \<noteq> []
      \<and> (case and_then (resolve_identity (or_env args env)) (\<lambda>identity.
            from_document y name file_name (read_file file_name) identity env) of
           Inl _ \<Rightarrow> code = 2 \<and> effects = []
         | Inr nc \<Rightarrow> code = 1
            \<and> effects = (if runtime_starts then snd (node_run AK base bind_endpoint opens since_epoch nc) else []))"
  by (auto simp: main_exit_def run_node_def node_run_def and_then_def
      split: sum.splits prod.splits startup_error.splits)

section \<open>What the load report promises\<close>

definition gauges :: "load_line list \<Rightarrow> load_sample list" where
  "gauges lines = List.map_filter (\<lambda>l. case l of NodeLoad s \<Rightarrow> Some s | _ \<Rightarrow> None) lines"

definition alarms :: "load_line list \<Rightarrow> u64 list" where
  "alarms lines = List.map_filter (\<lambda>l. case l of AcksShed _ since \<Rightarrow> Some since | _ \<Rightarrow> None) lines"

definition sampled :: "(shed_counts \<times> u64 \<times> admission_bound) list \<Rightarrow> (shed_counts \<times> u64 option \<times> admission_bound) list" where
  "sampled ticks = map (\<lambda>(shed, n, b). (shed, Some n, b)) ticks"

definition loads :: "(shed_counts \<times> u64 \<times> admission_bound) list \<Rightarrow> load_sample list" where
  "loads ticks = map (\<lambda>(shed, n, b). load_of shed n b) ticks"

lemma report_tick_moves:
  "report_tick \<lparr>lr_previous = p, lr_reported = True\<rparr> shed (Some n) b
    = ((if lo_shed_acks (load_of shed n b) > lo_shed_acks p
        then [AcksShed (lo_shed_acks (load_of shed n b)) (lo_shed_acks (load_of shed n b) - lo_shed_acks p)] else [])
       @ (if load_of shed n b \<noteq> p then [NodeLoad (load_of shed n b)] else []),
       Some \<lparr>lr_previous = load_of shed n b, lr_reported = True\<rparr>)"
  by (auto simp: report_tick_def Let_def)

lemma report_tick_first:
  "report_tick report_start shed (Some n) b
    = ((if lo_shed_acks (load_of shed n b) > 0
        then [AcksShed (lo_shed_acks (load_of shed n b)) (lo_shed_acks (load_of shed n b))] else [])
       @ [NodeLoad (load_of shed n b)],
       Some \<lparr>lr_previous = load_of shed n b, lr_reported = True\<rparr>)"
  by (auto simp: report_tick_def Let_def report_start_def load_zero_def)

lemma gauges_append: "gauges (a @ b) = gauges a @ gauges b"
  by (simp add: gauges_def map_filter_def)

lemma alarms_append: "alarms (a @ b) = alarms a @ alarms b"
  by (simp add: alarms_def map_filter_def)

lemma report_load_gauges:
  "p # gauges (report_load \<lparr>lr_previous = p, lr_reported = True\<rparr> (sampled ticks)) = remdups_adj (p # loads ticks)"
proof (induction ticks arbitrary: p)
  case (Cons tick ticks)
  obtain shed n b where tick: "tick = (shed, n, b)" by (cases tick)
  show ?case
    using Cons.IH [of "load_of shed n b"]
    by (auto simp: tick sampled_def loads_def report_tick_moves gauges_append)
      (auto simp: gauges_def map_filter_simps)
qed (simp add: sampled_def loads_def gauges_def map_filter_simps)

lemma report_load_alarms:
  assumes "sorted (map lo_shed_acks (p # loads ticks))"
  shows "sum_list (map unat (alarms (report_load \<lparr>lr_previous = p, lr_reported = True\<rparr> (sampled ticks))))
    = unat (lo_shed_acks (last (p # loads ticks))) - unat (lo_shed_acks p)"
  using assms
proof (induction ticks arbitrary: p)
  case (Cons tick ticks)
  obtain shed n b where tick: "tick = (shed, n, b)" by (cases tick)
  let ?s = "load_of shed n b"
  have s: "sorted (map lo_shed_acks (?s # loads ticks))" "lo_shed_acks p \<le> lo_shed_acks ?s"
    using Cons.prems by (simp_all add: tick loads_def)
  have up: "unat (lo_shed_acks ?s) \<le> unat (lo_shed_acks (last (?s # loads ticks)))"
    using s(1) last_in_set [of "?s # loads ticks"] by (auto simp: word_le_nat_alt split: if_splits)
  have le: "unat (lo_shed_acks p) \<le> unat (lo_shed_acks ?s)" using s(2) by (simp add: word_le_nat_alt)
  have step: "alarms (report_load \<lparr>lr_previous = p, lr_reported = True\<rparr> (sampled (tick # ticks)))
    = (if lo_shed_acks p < lo_shed_acks ?s then [lo_shed_acks ?s - lo_shed_acks p] else [])
      @ alarms (report_load \<lparr>lr_previous = ?s, lr_reported = True\<rparr> (sampled ticks))"
    by (simp add: tick sampled_def report_tick_moves alarms_append) (simp add: alarms_def map_filter_simps)
  have "last (p # loads (tick # ticks)) = last (?s # loads ticks)" by (simp add: tick loads_def)
  then show ?case
    using up le unfolding step
    by (cases "lo_shed_acks p < lo_shed_acks ?s") (auto simp: Cons.IH [OF s(1)] unat_sub word_less_nat_alt s(2))
qed (simp add: sampled_def loads_def alarms_def map_filter_simps)

text \<open>C40. While the transport answers, the load lines are the samples with their repeats left out: the first
  always goes out, and each change is said once.  The alarms on shed ACKs add up to every ACK shed since
  the start, each in exactly one alarm.\<close>

theorem load_reports_each_change_once:
  assumes "sorted (map lo_shed_acks (loads ticks))"
  shows "gauges (report_load report_start (sampled ticks)) = remdups_adj (loads ticks)
    \<and> sum_list (map unat (alarms (report_load report_start (sampled ticks))))
      = (if ticks = [] then 0 else unat (lo_shed_acks (last (loads ticks))))"
proof (cases ticks)
  case (Cons tick rest)
  obtain shed n b where tick: "tick = (shed, n, b)" by (cases tick)
  let ?s = "load_of shed n b"
  have l: "loads ticks = ?s # loads rest" by (simp add: Cons tick loads_def)
  have run: "report_load report_start (sampled ticks)
    = (if lo_shed_acks ?s > 0 then [AcksShed (lo_shed_acks ?s) (lo_shed_acks ?s)] else [])
      @ NodeLoad ?s # report_load \<lparr>lr_previous = ?s, lr_reported = True\<rparr> (sampled rest)"
    by (simp add: Cons tick sampled_def report_tick_first)
  have sorted: "sorted (map lo_shed_acks (?s # loads rest))" using assms l by simp
  have up: "unat (lo_shed_acks ?s) \<le> unat (lo_shed_acks (last (?s # loads rest)))"
    using sorted last_in_set [of "?s # loads rest"] by (auto simp: word_le_nat_alt split: if_splits)
  have g: "gauges (report_load report_start (sampled ticks))
      = ?s # gauges (report_load \<lparr>lr_previous = ?s, lr_reported = True\<rparr> (sampled rest))"
    unfolding run by (simp add: gauges_append) (simp add: gauges_def map_filter_simps)
  have a: "sum_list (map unat (alarms (report_load report_start (sampled ticks))))
      = unat (lo_shed_acks ?s) + sum_list (map unat (alarms (report_load \<lparr>lr_previous = ?s, lr_reported = True\<rparr> (sampled rest))))"
    unfolding run by (simp add: alarms_append) (auto simp: alarms_def map_filter_simps word_neq_0_conv [symmetric])
  show ?thesis
    unfolding g a l report_load_gauges report_load_alarms [OF sorted] using up Cons by auto
qed (simp add: sampled_def loads_def gauges_def alarms_def map_filter_simps)

definition idle_bound :: admission_bound where "idle_bound = bound_new 1"

theorem load_reports_each_change_once_witness:
  "let ticks = map (\<lambda>acks. (\<lparr>sh_requests = 0, sh_acks = acks, sh_unmatched = 0\<rparr>, 0, idle_bound)) [0, 0, 2, 2, 5];
       lines = report_load report_start (sampled ticks)
   in map lo_shed_acks (gauges lines) = [0, 2, 5] \<and> sum_list (map unat (alarms lines)) = 5"
proof -
  let ?ticks = "map (\<lambda>acks. (\<lparr>sh_requests = 0, sh_acks = acks, sh_unmatched = 0\<rparr>, 0, idle_bound)) [0, 0, 2, 2, 5]"
  have "sorted (map lo_shed_acks (loads ?ticks))" by (simp add: loads_def load_of_def)
  from load_reports_each_change_once [OF this] show ?thesis
    by (simp add: Let_def) (simp add: loads_def load_of_def)
qed

end
