(* ===== verification/Spec2Isabelle.thy ===== *)
theory Spec2Isabelle imports Prelude Ascii Codec Keys Token Aor Binding Command Register Store Admission Message Proxy Cookie Sample Validate Route Forward Context Steps Runs Scenario Outcomes Ack Listen Loaded Secrets Reloaded Run_Returns Echo Started Serving Served Postgres Running begin

text \<open>
  A verification library of \<^verbatim>\<open>sipx-clstr\<close>, a clustered SIP registrar and proxy in Rust.  This theory
  imports all the others and documents them; the definitions and properties are in the theories named below.

  \<^bold>\<open>The program.\<close>  Six crates under \<^verbatim>\<open>src/crates\<close>.
  \<^verbatim>\<open>sipx-clstr-registrar\<close> decides what a REGISTER does to the bindings of an address of record and keeps them
  in a location store several nodes share.  \<^verbatim>\<open>sipx-clstr-proxy\<close> forwards every other request: it validates it,
  asks for the targets of its Request-URI, forks, and chooses the response the caller gets.
  \<^verbatim>\<open>sipx-clstr-affinity\<close> mints and verifies the tokens a \<^verbatim>\<open>Route\<close> may carry.
  \<^verbatim>\<open>sipx-clstr-node\<close> is the process: it reads the cluster document, projects it on the node's roles, opens the
  store and performs the effects the proxy's engine asks for.  \<^verbatim>\<open>sipx-clstr-probe\<close> places marked test calls and
  answers them, and \<^verbatim>\<open>sipx-clstr-sim\<close> runs nodes over a simulated clock and network.  The engines are sans-IO:
  they take an input and return effects, so each is a function or a step relation here, and the node driver composes
  them.

  \<^bold>\<open>Conventions.\<close>  A struct is a record, an enum a datatype with the source's constructors, a machine integer
  a word of its width; \<^verbatim>\<open>usize\<close> lengths are \<open>nat\<close>.  Bytes and text are \<open>string\<close>, text standing for its UTF-8
  bytes; code points are \<open>nat\<close> lists where the code works on characters.  A fallible operation returns a sum with its error
  on the left or an option, a panic is \<open>None\<close> where the code can reach one, a stateful operation returns its new state.
  \<^verbatim>\<open>Instant\<close>, \<^verbatim>\<open>Duration\<close> and \<^verbatim>\<open>Timestamp\<close> count nanoseconds and saturate where the
  code's do.

  \<^bold>\<open>Shared theories.\<close>  \<open>Prelude\<close> has the generic lemmas (saturating words, sums, sorting, positions), \<open>Ascii\<close> the
  text the standard library reads and writes (decimal numbers, trimming, UTF-8 with replacement, addresses), \<open>Netaddr\<close> and
  \<open>Socket\<close> the parsers of IP and socket addresses.  \<open>Message\<close> is the SIP library: a record of its operations over abstract
  requests, responses and headers, with \<open>header_laws\<close>, that the header collection is an ordered multimap.

  \<^bold>\<open>Affinity.\<close>  \<open>Codec\<close> (\<^verbatim>\<open>codec.rs\<close>), \<open>Keys\<close> (\<^verbatim>\<open>keys.rs\<close>: key windows, which key mints and
  which verify) and \<open>Token\<close> (\<^verbatim>\<open>token.rs\<close>): what is minted verifies, and a verdict
  of valid is exactly the nine checks (\<open>genuine\<close>), over the token's own bytes.  The AEAD and the HMAC are parameters with their documented
  laws.

  \<^bold>\<open>Registrar.\<close>  \<open>Aor\<close> (\<^verbatim>\<open>aor.rs\<close>), \<open>Binding\<close> (\<^verbatim>\<open>binding.rs\<close>), \<open>Command\<close>
  (\<^verbatim>\<open>command.rs\<close>, \<^verbatim>\<open>policy.rs\<close>, \<^verbatim>\<open>lookup.rs\<close>), \<open>Register\<close>
  (\<^verbatim>\<open>process.rs\<close>), \<open>Store\<close> (\<^verbatim>\<open>store.rs\<close>), \<open>Admission\<close> (\<^verbatim>\<open>auth.rs\<close>,
  \<^verbatim>\<open>parse.rs\<close>).  The decision is shown complete, to account for every binding it leaves and to equal the live-set
  reference; \<open>store_contract\<close> is the interface of a location store, interpreted on the in-memory backend, and
  \<open>cluster_step\<close> interleaves the read, decide and commit steps of any number of nodes: what an address holds is always what
  its committed commands decide one after another.  A command exists only behind its authentication and authorization
  (\<open>authorization_contract\<close>).

  \<^bold>\<open>Proxy.\<close>  \<open>Proxy\<close> (\<^verbatim>\<open>types.rs\<close>, \<^verbatim>\<open>config.rs\<close>, \<^verbatim>\<open>from_registrar.rs\<close>),
  \<open>Cookie\<close>, \<open>Validate\<close>, \<open>Route\<close>, \<open>Forward\<close> (the files of those names), \<open>Context\<close> (\<^verbatim>\<open>context.rs\<close>) and \<open>Ack\<close>
  (\<^verbatim>\<open>ack.rs\<close>).  \<open>Steps\<close> classifies the handlers (a step is quiet or forks), \<open>Runs\<close> is the relation \<open>driven\<close> of the
  runs the engine's protocol allows with their invariant, \<open>Outcomes\<close> what every run guarantees: order of forks, one final
  answer, nothing left hanging, a forged token never routed.  \<open>Sample\<close> and \<open>Scenario\<close> are a concrete message library and
  concrete runs for the witnesses; \<open>response_laws\<close> says what a status reads back as.

  \<^bold>\<open>Node.\<close>  \<open>Listen\<close> (\<^verbatim>\<open>listen.rs\<close>); the configuration of \<^verbatim>\<open>config/\<close> in \<open>Errors\<close>,
  \<open>Document\<close>, \<open>Instant\<close>, \<open>Config\<close>, \<open>Cluster\<close>, \<open>Shards\<close>, \<open>Tenants\<close>, \<open>Load\<close> and \<open>Reload\<close>, in the order a document is read,
  with \<open>Loaded\<close>, \<open>Secrets\<close> and \<open>Reloaded\<close> for what a loaded document satisfies, that refusals never show a substituted
  secret, and that a reload is judged key by key; \<open>Startup\<close> (\<^verbatim>\<open>startup.rs\<close> and the configuration half of
  \<^verbatim>\<open>driver.rs\<close>) with \<open>Started\<close>; \<open>Driver\<close>, the serving half of \<^verbatim>\<open>driver.rs\<close>.  \<open>Serving\<close> shows that
  the driver is a legal environment of the response context: its tasks are \<open>driven\<close> runs, every round of effects ends, and a
  task reads every outstanding branch and ends when the engine is done, when the transport refused a message, or when a
  target it was offered cannot be copied (locale \<open>branch_driver\<close>, interpreted on the invariant of
  routed contexts).  \<open>Served\<close> shows the admission bound exact under any interleaving, REGISTER answers complete or internal
  errors, and calls resolved to what the last REGISTER reported.  \<open>Postgres\<close> is the location store over PostgreSQL
  (\<^verbatim>\<open>postgres_store.rs\<close>, \<^verbatim>\<open>blocking_store.rs\<close>, \<^verbatim>\<open>open_store\<close>): a commit is fenced by the revision it
  expects whatever other nodes do between its statements, the backend refines the in-memory store on a healthy database, and
  what a failed statement can leave is stated.  \<open>Running\<close> is the life of the process (\<^verbatim>\<open>main.rs\<close>, the start of
  \<^verbatim>\<open>driver.rs\<close>, the load report and the authentication record): nothing is announced before the last thing that
  can refuse to start, and the load report says each change once.

  \<^bold>\<open>Probe.\<close>  \<open>Marker\<close>, \<open>Probe_Schedule\<close>, \<open>Probe\<close> (\<^verbatim>\<open>engine.rs\<close>, \<^verbatim>\<open>verdict.rs\<close>) and \<open>Echo\<close>
  with \<open>Probed\<close> for all runs: the verdict is that of the steps, what was done is undone, and every
  orderly run ends: one that gets no final response before it has sent a request.

  \<^bold>\<open>Simulator.\<close>  \<open>Clock\<close>, \<open>Rng\<close>, \<open>Event_Queue\<close> (a heap that refines an agenda, locale \<open>event_queue\<close>), \<open>Network\<close>,
  \<open>Trace\<close> and \<open>Sim\<close> (\<^verbatim>\<open>time.rs\<close>, \<^verbatim>\<open>rng.rs\<close>, \<^verbatim>\<open>queue.rs\<close>, \<^verbatim>\<open>net.rs\<close>,
  \<^verbatim>\<open>fault.rs\<close>, \<^verbatim>\<open>trace.rs\<close>, \<^verbatim>\<open>node.rs\<close>, \<^verbatim>\<open>sim.rs\<close>), with \<open>Simulated\<close> and
  \<open>Run_Returns\<close>: runs are chronological, killed nodes are silent, a bounded run returns.

  \<^bold>\<open>Termination and fuel.\<close>  Loops are structural or have a measure, with three exceptions.  Rejection sampling in
  \<open>Rng\<close> and the rounds of effects in \<open>Driver\<close> are \<open>partial_function (option)\<close>, a run that never ends being \<open>None\<close>:
  \<open>every_round_ends\<close> shows the second total on every state a task reaches, and runs whose links have a fixed latency draw
  nothing.  The simulator's run has the step budget of the code (\<open>sim_budget\<close>); \<open>run_until_settles\<close> shows that it returns.
  \<open>apply_loop\<close> counts down the retries of the code.

  \<^bold>\<open>Parameters and hypotheses.\<close>  Code that is not under \<^verbatim>\<open>src\<close> is an argument: the SIP library
  (\<open>sip_kernel\<close>, \<open>message_kernel\<close>, \<open>node_kernel\<close>, \<open>uri_kernel\<close>, \<open>ua_kernel\<close>), digest authentication (\<open>auth_kernel\<close>), the
  primitives of tokens and cookies, the YAML and TOML crates (\<open>yaml_lib\<close>), \<^verbatim>\<open>Host\<close> (\<open>host_lib\<close>), the timer queue,
  case folding beyond ASCII, PostgreSQL and the JSON codec (\<open>database\<close>, \<open>json_codec\<close>) and, for the driver, the transport, the clock and the other tasks (\<open>node_world\<close>).  What a property
  assumes of them is a named predicate (\<open>header_laws\<close>, \<open>response_laws\<close>, \<open>timer_laws\<close>, \<open>echo_laws\<close>, \<open>never_refuses\<close>, \<open>sql_honoured\<close>
  and the laws of the cryptographic kernels), each met by the concrete instance its witness uses.

  \<^bold>\<open>Not modelled.\<close>  The test suites, among them \<^verbatim>\<open>conformance.rs\<close>, and the test modules of the files; the
  visualiser of the simulator's examples, which formats traces; parsing the process's arguments and the asynchronous
  runtime; binding sockets and how a log line is rendered; zeroisation of keys and \<^verbatim>\<open>Debug\<close> output.  The accept loop's
  concurrency is modelled by its atomic operations (\<open>bounding\<close>), a proxy task's by reading one event at a time, in any order.
\<close>

end
